(* ===== verification/Prelude.thy ===== *)
theory Prelude
  imports Complex_Main "HOL-Library.Char_ord" "HOL-Library.List_Lexorder"
begin

section \<open>Values of the source language and generic lemmas\<close>

text \<open>
  What every component shares: the values of the source language that the models use
  (numbers with the non-finite ones and the safe-integer test, strings as lists of code
  units with \<open>trim\<close>), maps that remember insertion order as association lists, and the
  generic lemmas on them. A string is a list of code units below 256; the ordering of
  \<^typ>\<open>string\<close> is the code-unit order of the source's \<open><\<close> and default \<open>sort\<close>.
\<close>

subsection \<open>Numbers\<close>

text \<open>
  A source number is a double: not-a-number, an infinity, or a rational. No model computes
  with a rational outside the safe-integer range without the guard of the code, so the
  rounding of doubles plays no part.
\<close>

datatype jsnum = NaN | PosInf | NegInf | Fin rat

abbreviation num :: "int \<Rightarrow> jsnum" where
  "num n \<equiv> Fin (of_int n)"

definition max_safe_integer :: int where
  "max_safe_integer = 9007199254740991"

fun safe_int :: "jsnum \<Rightarrow> int option" where
  "safe_int (Fin q) =
     (if of_int \<lfloor>q\<rfloor> = q \<and> \<bar>\<lfloor>q\<rfloor>\<bar> \<le> max_safe_integer then Some \<lfloor>q\<rfloor> else None)"
| "safe_int _ = None"

definition is_safe_integer :: "jsnum \<Rightarrow> bool" where
  "is_safe_integer x \<longleftrightarrow> safe_int x \<noteq> None"

fun js_less :: "jsnum \<Rightarrow> jsnum \<Rightarrow> bool" where
  "js_less (Fin a) (Fin b) = (a < b)"
| "js_less (Fin a) PosInf = True"
| "js_less NegInf (Fin b) = True"
| "js_less NegInf PosInf = True"
| "js_less _ _ = False"

lemma safe_int_num [simp]:
  "safe_int (num n) = (if \<bar>n\<bar> \<le> max_safe_integer then Some n else None)"
  by simp

lemma safe_int_eq_Some:
  "safe_int x = Some n \<longleftrightarrow> x = num n \<and> \<bar>n\<bar> \<le> max_safe_integer"
  by (cases x) (auto split: if_splits)

declare safe_int.simps(1) [simp del]

lemma safe_int_numeral [simp]:
  "safe_int (Fin (numeral k)) =
     (if numeral k \<le> max_safe_integer then Some (numeral k) else None)"
  "safe_int (Fin 1) = Some 1"
  "safe_int (Fin 0) = Some 0"
  using safe_int_num [of "numeral k"] safe_int_num [of 1] safe_int_num [of 0]
  by (simp_all add: max_safe_integer_def)

lemma js_less_num [simp]: "js_less (num a) (num b) \<longleftrightarrow> a < b"
  by simp

subsection \<open>Strings\<close>

definition js_space :: "char \<Rightarrow> bool" where
  "js_space c \<longleftrightarrow> of_char c \<in> {9, 10, 11, 12, 13, 32, 160 :: nat}"

definition js_trim :: "string \<Rightarrow> string" where
  "js_trim s = rev (dropWhile js_space (rev (dropWhile js_space s)))"

definition js_blank :: "string \<Rightarrow> bool" where
  "js_blank s \<longleftrightarrow> length (js_trim s) = 0"

lemma js_blank_iff: "js_blank s \<longleftrightarrow> (\<forall>c \<in> set s. js_space c)"
proof -
  have "dropWhile js_space (rev (dropWhile js_space s)) = [] \<longleftrightarrow> (\<forall>c \<in> set s. js_space c)"
    by (auto simp: dropWhile_eq_Nil_conv dest: set_dropWhileD)
      (metis (mono_tags, opaque_lifting) UnE set_append set_takeWhileD takeWhile_dropWhile_id)
  then show ?thesis by (simp add: js_blank_def js_trim_def)
qed

lemma js_blank_Nil [simp]: "js_blank []"
  by (simp add: js_blank_iff)

subsection \<open>Maps that remember insertion order\<close>

text \<open>
  A \<open>Map\<close> of the source iterates in insertion order, and setting a present key keeps its
  position. It is an association list with distinct keys.
\<close>

fun map_put :: "'k \<Rightarrow> 'v \<Rightarrow> ('k \<times> 'v) list \<Rightarrow> ('k \<times> 'v) list" where
  "map_put k v [] = [(k, v)]"
| "map_put k v ((a, b) # m) = (if a = k then (k, v) # m else (a, b) # map_put k v m)"

definition map_keys :: "('k \<times> 'v) list \<Rightarrow> 'k list" where
  "map_keys m = map fst m"

lemma map_keys_simps [simp]:
  "map_keys [] = []" "map_keys ((k, v) # m) = k # map_keys m"
  by (simp_all add: map_keys_def)

lemma map_of_put [simp]: "map_of (map_put k v m) = (map_of m)(k \<mapsto> v)"
  by (induction m) auto

lemma set_keys_put [simp]: "set (map_keys (map_put k v m)) = insert k (set (map_keys m))"
  by (induction k v m rule: map_put.induct) auto

lemma distinct_keys_put [simp]:
  "distinct (map_keys (map_put k v m)) \<longleftrightarrow> distinct (map_keys m)"
  by (induction k v m rule: map_put.induct) auto

lemma map_put_fresh: "k \<notin> set (map_keys m) \<Longrightarrow> map_put k v m = m @ [(k, v)]"
  by (induction k v m rule: map_put.induct) auto

lemma length_map_keys [simp]: "length (map_keys m) = length m"
  by (simp add: map_keys_def)

lemma card_map_keys: "distinct (map_keys m) \<Longrightarrow> card (set (map_keys m)) = length m"
  by (simp add: distinct_card)

lemma map_keys_append [simp]: "map_keys (m @ n) = map_keys m @ map_keys n"
  by (simp add: map_keys_def)

lemma map_of_None_iff: "map_of m k = None \<longleftrightarrow> k \<notin> set (map_keys m)"
  by (simp add: map_keys_def map_of_eq_None_iff)

lemma map_of_filter_keys:
  "map_of (filter (\<lambda>(k, _). P k) m) k = (if P k then map_of m k else None)"
  by (induction m) auto

lemma length_filter_imp:
  "(\<And>x. x \<in> set xs \<Longrightarrow> P x \<Longrightarrow> Q x) \<Longrightarrow> length (filter P xs) \<le> length (filter Q xs)"
  by (induction xs) (auto intro: le_SucI)

subsection \<open>Loops and results\<close>

text \<open>The last element of a list as the source's \<open>at(-1)\<close> returns it.\<close>

definition at_last :: "'a list \<Rightarrow> 'a option" where
  "at_last xs = (if xs = [] then None else Some (last xs))"

lemma at_last_simps [simp]:
  "at_last [] = None" "at_last (xs @ [x]) = Some x"
  by (simp_all add: at_last_def)

lemma at_last_in_set: "at_last xs = Some x \<Longrightarrow> x \<in> set xs"
  by (auto simp: at_last_def split: if_splits)

definition is_error :: "'e + 'a \<Rightarrow> bool" where
  "is_error r \<longleftrightarrow> (\<exists>e. r = Inl e)"

lemma is_error_simps [simp]: "is_error (Inl e)" "\<not> is_error (Inr a)"
  by (simp_all add: is_error_def)

lemma list_ex_concat_map: "list_ex P (concat (map f xs)) \<longleftrightarrow> (\<exists>x \<in> set xs. list_ex P (f x))"
  by (induction xs) simp_all

lemma filter_concat_all: "\<forall>xs \<in> set xss. \<forall>x \<in> set xs. P x \<Longrightarrow> filter P (concat xss) = concat xss"
  by (simp add: filter_id_conv)

end
