(* ===== verification/Machine.thy ===== *)
theory Machine
  imports Prelude
begin

section \<open>Transition machines that answer a next state or the unmet conditions\<close>

text \<open>
  Both state machines of the ledger (claims and hypotheses) have one contract: an
  evaluator takes the current state, one event and the ledger facts of that moment, and
  answers either the next state or a list of unmet conditions, and a refused transition is
  no move. The locale states the laws a client of such an evaluator relies on; the fold of
  a ledger is proved once over them.
\<close>

type_synonym ('u, 's) transition_result = "'u list + 's"

definition allow :: "'s \<Rightarrow> ('u, 's) transition_result" where
  "allow next = Inr next"

definition refuse :: "'u list \<Rightarrow> ('u, 's) transition_result" where
  "refuse unmet = Inl unmet"

lemmas transition_defs = allow_def refuse_def

definition allowed :: "('u, 's) transition_result \<Rightarrow> bool" where
  "allowed r \<longleftrightarrow> \<not> is_error r"

text \<open>A refused transition leaves the state where it is.\<close>

definition move :: "'s \<Rightarrow> ('u, 's) transition_result \<Rightarrow> 's" where
  "move s r = (case r of Inl _ \<Rightarrow> s | Inr next \<Rightarrow> next)"

lemma move_simps [simp]: "move s (Inl us) = s" "move s (Inr t) = t"
  by (simp_all add: move_def)

primrec fold_moves ::
  "('s \<Rightarrow> 'e \<Rightarrow> 'c \<Rightarrow> ('u, 's) transition_result) \<Rightarrow> ('e \<Rightarrow> 'c) \<Rightarrow> 's \<Rightarrow> 'e list \<Rightarrow> 's" where
  "fold_moves step ctx s [] = s"
| "fold_moves step ctx s (e # es) = fold_moves step ctx (move s (step s e (ctx e))) es"

lemma fold_moves_append:
  "fold_moves step ctx s (es @ fs) = fold_moves step ctx (fold_moves step ctx s es) fs"
  by (induction es arbitrary: s) simp_all

locale transition_machine =
  fixes step :: "'s \<Rightarrow> 'e \<Rightarrow> 'c \<Rightarrow> ('u, 's) transition_result"
    and terminal :: "'s \<Rightarrow> bool"
    and exempt :: "'e \<Rightarrow> bool"
  assumes terminal_refuses: "terminal s \<Longrightarrow> \<not> exempt e \<Longrightarrow> is_error (step s e c)"
    and refusal_explained: "step s e c = Inl us \<Longrightarrow> us \<noteq> []"
begin

lemma terminal_move: "terminal s \<Longrightarrow> \<not> exempt e \<Longrightarrow> move s (step s e c) = s"
  using terminal_refuses [of s e c] by (auto simp: is_error_def)

lemma terminal_fold:
  "terminal s \<Longrightarrow> \<forall>e \<in> set es. \<not> exempt e \<Longrightarrow> fold_moves step ctx s es = s"
  by (induction es) (simp_all add: terminal_move)

lemma terminal_absorbs:
  assumes "terminal (fold_moves step ctx s es)" and "\<forall>e \<in> set fs. \<not> exempt e"
  shows "fold_moves step ctx s (es @ fs) = fold_moves step ctx s es"
  using assms by (simp add: fold_moves_append terminal_fold)

lemma move_or_reasons:
  "(\<exists>t. step s e c = Inr t) \<or> (\<exists>u us. step s e c = Inl (u # us))"
  by (cases "step s e c") (auto dest: refusal_explained simp: neq_Nil_conv)

end

section \<open>Loops that stop at the first error\<close>

fun run_until_error :: "('s \<Rightarrow> 'e \<Rightarrow> 'err + 's) \<Rightarrow> 's \<Rightarrow> 'e list \<Rightarrow> 'err + 's" where
  "run_until_error step s [] = Inr s"
| "run_until_error step s (e # es) =
     (case step s e of Inl err \<Rightarrow> Inl err | Inr t \<Rightarrow> run_until_error step t es)"

lemma run_append:
  "run_until_error step s (xs @ ys) =
   (case run_until_error step s xs of Inl err \<Rightarrow> Inl err | Inr t \<Rightarrow> run_until_error step t ys)"
  by (induction xs arbitrary: s) (auto split: sum.splits)

lemma run_append_Inr:
  "run_until_error step s (xs @ ys) = Inr u \<longleftrightarrow>
   (\<exists>t. run_until_error step s xs = Inr t \<and> run_until_error step t ys = Inr u)"
  by (auto simp: run_append split: sum.splits)

text \<open>An invariant over the processed prefix and the state.\<close>

lemma run_invariant [consumes 1, case_names start step]:
  assumes "run_until_error step s es = Inr t"
    and "P [] s"
    and "\<And>xs a x b. P xs a \<Longrightarrow> step a x = Inr b \<Longrightarrow> P (xs @ [x]) b"
  shows "P es t"
  using assms(1)
proof (induction es arbitrary: t rule: rev_induct)
  case Nil
  with assms(2) show ?case by simp
next
  case (snoc x xs)
  then obtain a where a: "run_until_error step s xs = Inr a"
    and x: "run_until_error step a [x] = Inr t"
    by (auto simp only: run_append_Inr)
  from x have "step a x = Inr t" by (cases "step a x") simp_all
  with a snoc.IH assms(3) show ?case by blast
qed

lemma run_error_at:
  assumes "e \<in> set es" and "\<And>s. is_error (step s e)"
  shows "is_error (run_until_error step s es)"
  using assms(1)
proof (induction es arbitrary: s)
  case (Cons x xs)
  show ?case
  proof (cases "step s x")
    case (Inr t)
    then have "x \<noteq> e" using assms(2) [of s] by (auto simp: is_error_def)
    with Cons Inr show ?thesis by simp
  qed simp
qed simp

section \<open>Systems of steps\<close>

text \<open>The laws of the steps of a system: an invariant, and an order in which every step grows.\<close>

locale invariant_steps =
  fixes step :: "'s \<Rightarrow> 's \<Rightarrow> bool" and inv :: "'s \<Rightarrow> bool"
  assumes keep: "step s t \<Longrightarrow> inv s \<Longrightarrow> inv t"
begin

lemma runs_keep: "step\<^sup>*\<^sup>* s t \<Longrightarrow> inv s \<Longrightarrow> inv t"
  by (induction rule: rtranclp_induct) (auto intro: keep)

end

locale growing_steps = invariant_steps +
  fixes below :: "'s \<Rightarrow> 's \<Rightarrow> bool"
  assumes below_refl: "below s s" and below_trans: "below s t \<Longrightarrow> below t u \<Longrightarrow> below s u"
    and grow: "step s t \<Longrightarrow> inv s \<Longrightarrow> below s t"
begin

lemma runs_grow: "step\<^sup>*\<^sup>* s t \<Longrightarrow> inv s \<Longrightarrow> below s t"
  by (induction rule: rtranclp_induct) (auto intro: below_refl below_trans grow runs_keep)

end

end
