(* ===== verification/Dispositions.thy ===== *)
theory Dispositions
  imports Machine "HOL-Library.Multiset"
begin

section \<open>The disposition state machine (\<open>ledger/dispositions.ts\<close>)\<close>

text \<open>
  The claim machine, the hypothesis machine, the independence tiers and the computed
  facets, in the order of the source. The messages of a refusal are constructors of
  \<open>unmet\<close> and \<open>hypothesis_unmet\<close>, one per message text, carrying what the text
  interpolates.
\<close>

subsection \<open>Vocabularies\<close>

datatype claim_disposition =
  Draft | Open | Malformed | Disputed | Corroborated | StronglySupported | Refuted
| ReducedTo | Withdrawn | Superseded

datatype hypothesis_disposition =
  Active | Narrowed | Killed | Deferred | HypothesisSuperseded

datatype review_state_facet =
  Unreviewed | ReviewRequested | UnderReview | Contested | IndependentlyChecked

datatype independence_tier = T0 | T1 | T2 | T3

fun tier_rank :: "independence_tier \<Rightarrow> nat" where
  "tier_rank T0 = 0"
| "tier_rank T1 = 1"
| "tier_rank T2 = 2"
| "tier_rank T3 = 3"

definition tier_at_least :: "independence_tier \<Rightarrow> independence_tier \<Rightarrow> bool" where
  "tier_at_least t least \<longleftrightarrow> tier_rank t \<ge> tier_rank least"

instantiation independence_tier :: linorder
begin

definition less_eq_independence_tier :: "independence_tier \<Rightarrow> independence_tier \<Rightarrow> bool" where
  "less_eq_independence_tier a b \<longleftrightarrow> tier_rank a \<le> tier_rank b"

definition less_independence_tier :: "independence_tier \<Rightarrow> independence_tier \<Rightarrow> bool" where
  "less_independence_tier a b \<longleftrightarrow> tier_rank a < tier_rank b"

instance
proof
  fix a b :: independence_tier
  show "a \<le> b \<Longrightarrow> b \<le> a \<Longrightarrow> a = b"
    by (cases a; cases b) (simp_all add: less_eq_independence_tier_def)
qed (auto simp: less_eq_independence_tier_def less_independence_tier_def)

end

lemma tier_at_least_iff: "tier_at_least t least \<longleftrightarrow> least \<le> t"
  by (simp add: tier_at_least_def less_eq_independence_tier_def)

lemma tier_at_least_T1: "tier_at_least t T1 \<longleftrightarrow> t \<noteq> T0"
  by (cases t) (simp_all add: tier_at_least_def)

lemma tier_at_least_T2: "tier_at_least t T2 \<longleftrightarrow> t = T2 \<or> t = T3"
  by (cases t) (simp_all add: tier_at_least_def)

subsection \<open>Claim events\<close>

datatype finding = Support | Dispute | StatementDefect

record verified_review =
  review_id :: string
  reviewer_id :: string
  tier :: independence_tier
  cross_family :: bool
  full_write_up :: bool
  finding :: finding

text \<open>
  \<open>EvidenceRefuted id confirmed hours\<close> carries the three fields of the source's
  \<open>evidence-refuted\<close> event.
\<close>

datatype claim_event =
  Promote
| ReviewVerified verified_review
| RefutationAttemptRecorded string
| EvidenceRefuted string bool jsnum
| AuthorConcession
| AuthorWithdrawal
| ReduceTo string
| NewVersion int
| OperatorRepair string claim_disposition

record claim_context =
  recorded_refutation_attempts :: int
  verified_reviews :: "verified_review list"
  has_certified_artifact :: bool

definition empty_claim_context :: claim_context where
  "empty_claim_context =
     \<lparr>recorded_refutation_attempts = 0, verified_reviews = [], has_certified_artifact = False\<rparr>"

datatype unmet =
  RepairNeedsReason
| TerminalDisposition claim_disposition
| MalformedExitsViaNewVersion
| DraftsEditedInPlace
| PromoteRequiresDraft claim_disposition
| DefectCannotMove claim_disposition
| DisputeNotLegal claim_disposition
| SupportNotLegal claim_disposition
| AttemptNotLegal claim_disposition
| RefutingNotLegal claim_disposition
| ConcessionNotLegal claim_disposition
| WithdrawalNotLegal claim_disposition
| ReductionNotLegal claim_disposition
| ReductionNeedsTarget
| NeedsIndependentReview
| NeedsRefutationAttempt
| NeedsArtifactOrTwoReviews
| NeedsTierT2 "independence_tier option"
| NeedsConfirmation
| NeedsUnanswered72h jsnum

subsection \<open>Claim transition evaluator\<close>

definition live_states :: "claim_disposition list" where
  "live_states = [Open, Disputed, Corroborated, StronglySupported, ReducedTo]"

definition terminal_states :: "claim_disposition list" where
  "terminal_states = [Refuted, Withdrawn, Superseded]"

fun best_tier_from :: "independence_tier option \<Rightarrow> verified_review list \<Rightarrow> independence_tier option" where
  "best_tier_from best [] = best"
| "best_tier_from best (r # rs) =
     best_tier_from
       (case best of None \<Rightarrow> Some (tier r)
        | Some b \<Rightarrow> if tier_rank (tier r) > tier_rank b then Some (tier r) else best) rs"

definition best_tier :: "verified_review list \<Rightarrow> independence_tier option" where
  "best_tier reviews = best_tier_from None reviews"

definition same_verified_review :: "verified_review \<Rightarrow> verified_review \<Rightarrow> bool" where
  "same_verified_review left right \<longleftrightarrow>
     review_id left = review_id right \<and>
     reviewer_id left = reviewer_id right \<and>
     tier left = tier right \<and>
     cross_family left = cross_family right \<and>
     full_write_up left = full_write_up right \<and>
     finding left = finding right"

text \<open>
  The loop of \<open>distinctSupportingReviews\<close> over its two collections: the first review by
  id (a map in insertion order) and the conflicted ids (a set).
\<close>

fun review_rows ::
  "(string \<times> verified_review) list \<Rightarrow> string list \<Rightarrow> verified_review list \<Rightarrow>
   (string \<times> verified_review) list \<times> string list" where
  "review_rows first_by_id conflicted [] = (first_by_id, conflicted)"
| "review_rows first_by_id conflicted (review # reviews) =
     (case map_of first_by_id (review_id review) of
        None \<Rightarrow> review_rows (map_put (review_id review) review first_by_id) conflicted reviews
      | Some first \<Rightarrow>
          if same_verified_review first review then review_rows first_by_id conflicted reviews
          else review_rows first_by_id (List.insert (review_id review) conflicted) reviews)"

definition distinct_supporting_reviews :: "verified_review list \<Rightarrow> verified_review list" where
  "distinct_supporting_reviews reviews =
     (let (first_by_id, conflicted) = review_rows [] [] reviews
      in filter (\<lambda>review. finding review = Support \<and> review_id review \<notin> set conflicted)
           (map snd first_by_id))"

definition corroboration_unmet :: "verified_review list \<Rightarrow> claim_context \<Rightarrow> unmet list" where
  "corroboration_unmet reviews ctx =
     (if list_ex (\<lambda>review. tier_at_least (tier review) T1) (distinct_supporting_reviews reviews)
      then [] else [NeedsIndependentReview]) @
     (if recorded_refutation_attempts ctx < 1 then [NeedsRefutationAttempt] else [])"

definition cross_family_full_write_up_reviewers :: "verified_review list \<Rightarrow> nat" where
  "cross_family_full_write_up_reviewers supporting =
     length (remdups (map reviewer_id
       (filter (\<lambda>review. cross_family review \<and> full_write_up review \<and>
                         tier_at_least (tier review) T2) supporting)))"

definition strong_support_unmet :: "verified_review list \<Rightarrow> claim_context \<Rightarrow> unmet list" where
  "strong_support_unmet reviews ctx =
     (let supporting = distinct_supporting_reviews reviews;
          best = best_tier supporting
      in (if \<not> has_certified_artifact ctx \<and> cross_family_full_write_up_reviewers supporting < 2
          then [NeedsArtifactOrTwoReviews] else []) @
         (if (case best of None \<Rightarrow> True | Some b \<Rightarrow> \<not> tier_at_least b T2)
          then [NeedsTierT2 best] else []))"

definition refuted_unmet :: "bool \<Rightarrow> jsnum \<Rightarrow> unmet list" where
  "refuted_unmet confirmed hours =
     (if \<not> confirmed then [NeedsConfirmation] else []) @
     (if js_less hours (num 72) then [NeedsUnanswered72h hours] else [])"

definition review_transition ::
  "claim_disposition \<Rightarrow> verified_review \<Rightarrow> claim_context \<Rightarrow> (unmet, claim_disposition) transition_result"
where
  "review_transition current review ctx =
     (let reviews = verified_reviews ctx @ [review]
      in case finding review of
           StatementDefect \<Rightarrow>
             (if current \<in> set live_states then allow Malformed
              else refuse [DefectCannotMove current])
         | Dispute \<Rightarrow>
             (if current \<in> set live_states then allow Disputed
              else refuse [DisputeNotLegal current])
         | Support \<Rightarrow>
             (if current = Open then
                let unmet = corroboration_unmet reviews ctx
                in if length unmet = 0 then allow Corroborated else refuse unmet
              else if current = Corroborated then
                let unmet = strong_support_unmet reviews ctx
                in if length unmet = 0 then allow StronglySupported else refuse unmet
              else refuse [SupportNotLegal current]))"

fun event_transition ::
  "claim_disposition \<Rightarrow> claim_event \<Rightarrow> claim_context \<Rightarrow> (unmet, claim_disposition) transition_result"
where
  "event_transition current Promote ctx =
     (if current \<noteq> Draft then refuse [PromoteRequiresDraft current] else allow Open)"
| "event_transition current (ReviewVerified review) ctx = review_transition current review ctx"
| "event_transition current (RefutationAttemptRecorded attempt) ctx =
     (if current \<in> set live_states then allow current else refuse [AttemptNotLegal current])"
| "event_transition current (EvidenceRefuted evidence confirmed hours) ctx =
     (if current \<in> set live_states \<and> current \<noteq> Disputed then
        (if length (refuted_unmet confirmed hours) = 0 then allow Refuted else allow Disputed)
      else if current = Disputed then
        (let unmet = refuted_unmet confirmed hours
         in if length unmet = 0 then allow Refuted else refuse unmet)
      else refuse [RefutingNotLegal current])"
| "event_transition current AuthorConcession ctx =
     (if current \<in> set live_states then allow Refuted else refuse [ConcessionNotLegal current])"
| "event_transition current AuthorWithdrawal ctx =
     (if current \<in> set live_states then allow Withdrawn else refuse [WithdrawalNotLegal current])"
| "event_transition current (ReduceTo target) ctx =
     (if current \<notin> set live_states then refuse [ReductionNotLegal current]
      else if js_blank target then refuse [ReductionNeedsTarget]
      else allow (if current = Disputed then Disputed else ReducedTo))"
| "event_transition current (NewVersion v) ctx =
     (if current = Draft then refuse [DraftsEditedInPlace] else allow Open)"
| "event_transition current (OperatorRepair reason to) ctx =
     (if js_blank reason then refuse [RepairNeedsReason] else allow to)"

fun is_operator_repair :: "claim_event \<Rightarrow> bool" where
  "is_operator_repair (OperatorRepair _ _) = True"
| "is_operator_repair _ = False"

fun is_new_version :: "claim_event \<Rightarrow> bool" where
  "is_new_version (NewVersion _) = True"
| "is_new_version _ = False"

text \<open>
  The guards before the switch, in their order: operator repair, terminal states, the
  malformed exit, new versions; then the switch on the event.
\<close>

definition evaluate_claim_transition ::
  "claim_disposition \<Rightarrow> claim_event \<Rightarrow> claim_context \<Rightarrow> (unmet, claim_disposition) transition_result"
where
  "evaluate_claim_transition current event ctx =
     (if is_operator_repair event then event_transition current event ctx
      else if current \<in> set terminal_states then refuse [TerminalDisposition current]
      else if current = Malformed then
        (if is_new_version event then allow Open else refuse [MalformedExitsViaNewVersion])
      else event_transition current event ctx)"

subsection \<open>Rows of reviews\<close>

lemma same_verified_review_iff [simp]: "same_verified_review l r \<longleftrightarrow> l = r"
  by (auto simp: same_verified_review_def intro: verified_review.equality)

lemma review_rows_step:
  assumes "review_rows fb cf (r # rs) = (fb', cf')"
  obtains (fresh) "map_of fb (review_id r) = None"
      "review_rows (map_put (review_id r) r fb) cf rs = (fb', cf')"
    | (replay) "map_of fb (review_id r) = Some r" "review_rows fb cf rs = (fb', cf')"
    | (conflict) f where "map_of fb (review_id r) = Some f" "f \<noteq> r"
      "review_rows fb (List.insert (review_id r) cf) rs = (fb', cf')"
  using assms by (auto split: option.splits if_splits)

declare review_rows.simps(2) [simp del]

lemma review_rows_firsts:
  "review_rows fb cf rs = (fb', cf') \<Longrightarrow>
   map_of fb' i = (case map_of fb i of Some r \<Rightarrow> Some r | None \<Rightarrow> find (\<lambda>r. review_id r = i) rs)"
proof (induction rs arbitrary: fb cf)
  case Nil
  then show ?case by (auto split: option.split)
next
  case (Cons r rs)
  from Cons.prems show ?case
  proof (cases rule: review_rows_step)
    case fresh
    with Cons.IH [OF fresh(2)] show ?thesis by (cases "review_id r = i") (auto split: option.split)
  next
    case replay
    from Cons.IH [OF replay(2)] replay(1) show ?thesis
      by (cases "review_id r = i") (auto split: option.split)
  next
    case (conflict f)
    from Cons.IH [OF conflict(3)] conflict(1) show ?thesis
      by (cases "review_id r = i") (auto split: option.split)
  qed
qed

lemma review_rows_keeps_first:
  assumes "review_rows fb cf rs = (fb', cf')" and "map_of fb i = Some r"
  shows "map_of fb' i = Some r"
  using review_rows_firsts [OF assms(1), of i] assms(2) by simp

lemma review_rows_conflicts:
  "review_rows fb cf rs = (fb', cf') \<Longrightarrow>
   i \<in> set cf' \<longleftrightarrow> i \<in> set cf \<or> (\<exists>r \<in> set rs. review_id r = i \<and> map_of fb' i \<noteq> Some r)"
proof (induction rs arbitrary: fb cf)
  case Nil
  then show ?case by simp
next
  case (Cons r rs)
  from Cons.prems show ?case
  proof (cases rule: review_rows_step)
    case fresh
    have "map_of fb' (review_id r) = Some r"
      by (rule review_rows_keeps_first [OF fresh(2)]) simp
    with Cons.IH [OF fresh(2)] show ?thesis by auto
  next
    case replay
    have "map_of fb' (review_id r) = Some r"
      by (rule review_rows_keeps_first [OF replay(2,1)])
    with Cons.IH [OF replay(2)] show ?thesis by auto
  next
    case (conflict f)
    have "map_of fb' (review_id r) = Some f"
      by (rule review_rows_keeps_first [OF conflict(3,1)])
    with Cons.IH [OF conflict(3)] conflict(2) show ?thesis by auto
  qed
qed

lemma review_rows_distinct:
  "review_rows fb cf rs = (fb', cf') \<Longrightarrow> distinct (map_keys fb) \<Longrightarrow> distinct (map_keys fb')"
  by (induction rs arbitrary: fb cf) (simp, erule review_rows_step, simp_all)

lemma review_rows_keyed:
  "review_rows fb cf rs = (fb', cf') \<Longrightarrow> \<forall>(k, v) \<in> set fb. review_id v = k \<Longrightarrow>
   \<forall>(k, v) \<in> set fb'. review_id v = k"
proof (induction rs arbitrary: fb cf)
  case (Cons r rs)
  have put: "\<forall>(k, v) \<in> set (map_put (review_id r) r fb). review_id v = k"
    using Cons.prems(2) by (induction "review_id r" r fb rule: map_put.induct) auto
  from Cons.prems(1) show ?case
    by (cases rule: review_rows_step) (use Cons.IH Cons.prems(2) put in blast)+
qed simp

lemma find_SomeD: "find P xs = Some x \<Longrightarrow> x \<in> set xs \<and> P x"
  by (induction xs) (auto split: if_splits)

lemma distinct_supporting_reviews_iff:
  "r \<in> set (distinct_supporting_reviews rs) \<longleftrightarrow>
   r \<in> set rs \<and> finding r = Support \<and> (\<forall>r' \<in> set rs. review_id r' = review_id r \<longrightarrow> r' = r)"
proof -
  obtain fb cf where eq: "review_rows [] [] rs = (fb, cf)" by fastforce
  have dist: "distinct (map fst fb)"
    using review_rows_distinct [OF eq] by (simp add: map_keys_def)
  have fb: "map_of fb i = find (\<lambda>r. review_id r = i) rs" for i
    using review_rows_firsts [OF eq, of i] by simp
  have cf: "i \<in> set cf \<longleftrightarrow> (\<exists>r \<in> set rs. review_id r = i \<and> map_of fb i \<noteq> Some r)" for i
    using review_rows_conflicts [OF eq, of i] by simp
  have keyed: "(k, v) \<in> set fb \<Longrightarrow> review_id v = k" for k v
    using review_rows_keyed [OF eq] by auto
  have mem: "r \<in> snd ` set fb \<longleftrightarrow> map_of fb (review_id r) = Some r"
  proof
    assume "r \<in> snd ` set fb"
    then obtain k where k: "(k, r) \<in> set fb" by auto
    with keyed dist show "map_of fb (review_id r) = Some r" by auto
  next
    assume "map_of fb (review_id r) = Some r"
    then have "(review_id r, r) \<in> set fb" by (rule map_of_SomeD)
    then show "r \<in> snd ` set fb" by (rule rev_image_eqI) simp
  qed
  have found: "map_of fb (review_id r) = Some r" if "r \<in> set rs"
    and uniq: "\<forall>r' \<in> set rs. review_id r' = review_id r \<longrightarrow> r' = r"
  proof (cases "find (\<lambda>r'. review_id r' = review_id r) rs")
    case None
    with that(1) show ?thesis by (auto simp: find_None_iff)
  next
    case (Some r')
    with find_SomeD [OF this] uniq show ?thesis by (simp add: fb)
  qed
  have inrs: "map_of fb (review_id r) = Some r \<Longrightarrow> r \<in> set rs"
    using find_SomeD by (fastforce simp: fb)
  have "r \<in> set (distinct_supporting_reviews rs) \<longleftrightarrow>
        r \<in> snd ` set fb \<and> finding r = Support \<and> review_id r \<notin> set cf"
    by (auto simp: distinct_supporting_reviews_def eq)
  also have "\<dots> \<longleftrightarrow> map_of fb (review_id r) = Some r \<and> finding r = Support \<and>
      (\<forall>r' \<in> set rs. review_id r' = review_id r \<longrightarrow> r' = r)"
    by (auto simp: mem cf)
  finally show ?thesis using found inrs by blast
qed

lemma distinct_supporting_reviews_cong:
  "set rs = set rs' \<Longrightarrow>
   set (distinct_supporting_reviews rs) = set (distinct_supporting_reviews rs')"
  by (rule set_eqI) (simp only: distinct_supporting_reviews_iff)

subsection \<open>Best tier\<close>

lemma best_tier_from_ge:
  "best_tier_from (Some b) rs = Some b' \<Longrightarrow> b \<le> b' \<and> (\<forall>r \<in> set rs. tier r \<le> b')"
  by (induction rs arbitrary: b b')
    (fastforce simp: less_eq_independence_tier_def split: if_splits)+

lemma best_tier_from_mem:
  "best_tier_from b rs = Some b' \<Longrightarrow> b = Some b' \<or> (\<exists>r \<in> set rs. tier r = b')"
  by (induction b rs rule: best_tier_from.induct) (fastforce split: option.splits if_splits)+

lemma best_tier_from_Some: "\<exists>b'. best_tier_from (Some b) rs = Some b'"
  by (induction rs arbitrary: b) auto

lemma best_tier_None: "best_tier rs = None \<longleftrightarrow> rs = []"
proof (cases rs)
  case (Cons a as)
  obtain b where "best_tier_from (Some (tier a)) as = Some b"
    using best_tier_from_Some by blast
  with Cons show ?thesis by (simp add: best_tier_def)
qed (simp add: best_tier_def)

lemma best_tier_Some:
  assumes "best_tier rs = Some b"
  shows "(\<exists>r \<in> set rs. tier r = b) \<and> (\<forall>r \<in> set rs. tier r \<le> b)"
proof (cases rs)
  case (Cons a as)
  with assms have "best_tier_from (Some (tier a)) as = Some b"
    by (simp add: best_tier_def)
  from best_tier_from_ge [OF this] best_tier_from_mem [OF this] Cons show ?thesis by auto
qed (use assms in \<open>simp add: best_tier_def\<close>)

lemma best_tier_at_least:
  "(case best_tier rs of None \<Rightarrow> True | Some b \<Rightarrow> \<not> tier_at_least b least) \<longleftrightarrow>
   \<not> (\<exists>r \<in> set rs. tier_at_least (tier r) least)"
proof (cases "best_tier rs")
  case None
  then have "rs = []" by (simp add: best_tier_None)
  with None show ?thesis by simp
next
  case (Some b)
  then show ?thesis
    using best_tier_Some [OF Some] by (auto simp: tier_at_least_iff intro: order_trans)
qed

subsection \<open>The gates as conditions on the distinct supporting reviews\<close>

lemma corroboration_unmet_Nil:
  "corroboration_unmet rs ctx = [] \<longleftrightarrow>
   (\<exists>r \<in> set (distinct_supporting_reviews rs). tier r \<noteq> T0) \<and>
   recorded_refutation_attempts ctx \<ge> 1"
  by (auto simp: corroboration_unmet_def list_ex_iff tier_at_least_T1)

lemma strong_support_unmet_Nil:
  "strong_support_unmet rs ctx = [] \<longleftrightarrow>
   (has_certified_artifact ctx \<or>
    2 \<le> cross_family_full_write_up_reviewers (distinct_supporting_reviews rs)) \<and>
   (\<exists>r \<in> set (distinct_supporting_reviews rs). tier r = T2 \<or> tier r = T3)"
proof -
  have "strong_support_unmet rs ctx = [] \<longleftrightarrow>
      (has_certified_artifact ctx \<or>
       2 \<le> cross_family_full_write_up_reviewers (distinct_supporting_reviews rs)) \<and>
      \<not> (case best_tier (distinct_supporting_reviews rs) of
           None \<Rightarrow> True | Some b \<Rightarrow> \<not> tier_at_least b T2)"
    by (simp add: strong_support_unmet_def Let_def not_le)
  then show ?thesis unfolding best_tier_at_least by (simp add: tier_at_least_T2)
qed

lemma refuted_unmet_Nil:
  "refuted_unmet confirmed hours = [] \<longleftrightarrow> confirmed \<and> \<not> js_less hours (num 72)"
  by (simp add: refuted_unmet_def)

lemma cross_family_reviewers_card:
  "cross_family_full_write_up_reviewers rs =
   card (reviewer_id ` {r \<in> set rs. cross_family r \<and> full_write_up r \<and> tier_at_least (tier r) T2})"
  by (simp add: cross_family_full_write_up_reviewers_def length_remdups_card_conv)

lemma set_states:
  "s \<in> set live_states \<longleftrightarrow>
   s = Open \<or> s = Disputed \<or> s = Corroborated \<or> s = StronglySupported \<or> s = ReducedTo"
  "s \<in> set terminal_states \<longleftrightarrow> s = Refuted \<or> s = Withdrawn \<or> s = Superseded"
  by (auto simp: live_states_def terminal_states_def)

lemmas gate_simps = transition_defs set_states corroboration_unmet_Nil strong_support_unmet_Nil
  refuted_unmet_Nil

lemma review_transition_support:
  "review_transition c r ctx = Inr d \<Longrightarrow> finding r = Support \<Longrightarrow>
   c = Open \<and> d = Corroborated \<and> corroboration_unmet (verified_reviews ctx @ [r]) ctx = [] \<or>
   c = Corroborated \<and> d = StronglySupported \<and>
     strong_support_unmet (verified_reviews ctx @ [r]) ctx = []"
  by (auto simp: review_transition_def transition_defs Let_def split: if_splits)

lemma review_transition_other:
  "review_transition c r ctx = Inr d \<Longrightarrow> finding r \<noteq> Support \<Longrightarrow>
   c \<in> set live_states \<and> d = (if finding r = Dispute then Disputed else Malformed)"
  by (cases "finding r") (auto simp: review_transition_def transition_defs split: if_splits)

lemma evaluate_event:
  "evaluate_claim_transition c e ctx = Inr d \<Longrightarrow>
   event_transition c e ctx = Inr d \<or> c = Malformed \<and> is_new_version e \<and> d = Open"
  by (auto simp: evaluate_claim_transition_def transition_defs split: if_splits)

lemma evaluate_reaches:
  assumes "evaluate_claim_transition c e ctx = Inr d" and "\<not> is_operator_repair e" and "c \<noteq> d"
  shows "d = Corroborated \<Longrightarrow> \<exists>r. e = ReviewVerified r \<and> finding r = Support \<and> c = Open \<and>
           corroboration_unmet (verified_reviews ctx @ [r]) ctx = []"
    and "d = StronglySupported \<Longrightarrow> \<exists>r. e = ReviewVerified r \<and> finding r = Support \<and>
           c = Corroborated \<and> strong_support_unmet (verified_reviews ctx @ [r]) ctx = []"
proof -
  have step: "(\<exists>r. e = ReviewVerified r \<and> review_transition c r ctx = Inr d) \<or>
      d \<in> {Open, Disputed, Refuted, Withdrawn, ReducedTo}"
    using evaluate_event [OF assms(1)] assms(2,3)
    by (cases e) (auto simp: transition_defs Let_def split: if_splits)
  have supports: "finding r = Support"
    if "review_transition c r ctx = Inr d" "d = Corroborated \<or> d = StronglySupported" for r
    using review_transition_other [OF that(1)] that(2) by (cases "finding r") auto
  show "d = Corroborated \<Longrightarrow> \<exists>r. e = ReviewVerified r \<and> finding r = Support \<and> c = Open \<and>
           corroboration_unmet (verified_reviews ctx @ [r]) ctx = []"
    and "d = StronglySupported \<Longrightarrow> \<exists>r. e = ReviewVerified r \<and> finding r = Support \<and>
           c = Corroborated \<and> strong_support_unmet (verified_reviews ctx @ [r]) ctx = []"
    using step supports by (auto dest: review_transition_support)
qed

subsection \<open>The claim machine as a transition machine\<close>

lemma claim_refusal_explained: "evaluate_claim_transition c e ctx = Inl us \<Longrightarrow> us \<noteq> []"
  by (cases e)
    (auto simp: evaluate_claim_transition_def transition_defs review_transition_def Let_def
      split: if_splits finding.splits)

interpretation claims: transition_machine evaluate_claim_transition
  "\<lambda>s. s \<in> set terminal_states" is_operator_repair
proof unfold_locales
  show "is_error (evaluate_claim_transition s e c)"
    if "s \<in> set terminal_states" "\<not> is_operator_repair e" for s e c
    using that by (simp add: evaluate_claim_transition_def refuse_def)
qed (rule claim_refusal_explained)

text \<open>
  C37. Corroboration is earned: no event other than an operator repair moves a claim to
  corroborated unless it is a supporting review of an open claim, a refutation attempt is
  on record, and some supporting review of tier T1 or better is on record whose row has no
  conflicting copy.
\<close>
theorem corroborated_is_earned:
  assumes "evaluate_claim_transition c e ctx = Inr Corroborated"
    and "\<not> is_operator_repair e" and "c \<noteq> Corroborated"
  shows "\<exists>review. e = ReviewVerified review \<and> finding review = Support \<and> c = Open \<and>
    1 \<le> recorded_refutation_attempts ctx \<and>
    (\<exists>r \<in> set (verified_reviews ctx @ [review]). finding r = Support \<and> tier r \<noteq> T0 \<and>
       (\<forall>r' \<in> set (verified_reviews ctx @ [review]). review_id r' = review_id r \<longrightarrow> r' = r))"
proof -
  from evaluate_reaches(1) [OF assms] obtain review where review:
    "e = ReviewVerified review" "finding review = Support" "c = Open"
    "corroboration_unmet (verified_reviews ctx @ [review]) ctx = []" by auto
  from review(4) obtain r
    where "r \<in> set (distinct_supporting_reviews (verified_reviews ctx @ [review]))" "tier r \<noteq> T0"
      and "1 \<le> recorded_refutation_attempts ctx"
    unfolding corroboration_unmet_Nil by blast
  with review(1-3) show ?thesis
    unfolding distinct_supporting_reviews_iff by blast
qed

definition sample_review :: "string \<Rightarrow> string \<Rightarrow> independence_tier \<Rightarrow> verified_review" where
  "sample_review rid who t =
     \<lparr>review_id = rid, reviewer_id = who, tier = t, cross_family = True, full_write_up = True,
      finding = Support\<rparr>"

definition attempted_context :: claim_context where
  "attempted_context = empty_claim_context\<lparr>recorded_refutation_attempts := 1\<rparr>"

lemma sample_corroborates:
  "evaluate_claim_transition Open (ReviewVerified (sample_review ''R1'' ''F2'' T1)) attempted_context = Inr Corroborated"
  by code_simp

text \<open>The review of the sample corroborates; without the attempt, or with tier T0, it does not.\<close>

theorem corroborated_is_earned_witness:
  "evaluate_claim_transition Open (ReviewVerified (sample_review ''R1'' ''F2'' T1)) attempted_context = Inr Corroborated \<and>
   1 \<le> recorded_refutation_attempts attempted_context \<and> tier (sample_review ''R1'' ''F2'' T1) \<noteq> T0 \<and>
   evaluate_claim_transition Open (ReviewVerified (sample_review ''R1'' ''F2'' T1)) empty_claim_context \<noteq> Inr Corroborated \<and>
   evaluate_claim_transition Open (ReviewVerified (sample_review ''R1'' ''F2'' T0)) attempted_context \<noteq> Inr Corroborated"
proof -
  let ?e = "\<lambda>t. ReviewVerified (sample_review ''R1'' ''F2'' t)"
  have other: "\<not> is_operator_repair (?e t)" for t by simp
  have "1 \<le> recorded_refutation_attempts attempted_context \<and> tier (sample_review ''R1'' ''F2'' T1) \<noteq> T0"
    using corroborated_is_earned [OF sample_corroborates other]
    by (auto simp: attempted_context_def empty_claim_context_def)
  moreover have "evaluate_claim_transition Open (?e T1) empty_claim_context \<noteq> Inr Corroborated"
    using corroborated_is_earned [OF _ other, of Open T1 empty_claim_context] by (auto simp: empty_claim_context_def)
  moreover have "evaluate_claim_transition Open (?e T0) attempted_context \<noteq> Inr Corroborated"
    using corroborated_is_earned [OF _ other, of Open T0 attempted_context]
    by (auto simp: attempted_context_def empty_claim_context_def sample_review_def)
  ultimately show ?thesis using sample_corroborates by blast
qed

text \<open>
  Strong support is earned: no event other than an operator repair moves a claim to
  strongly-supported unless it is a supporting review of a corroborated claim, some
  unconflicted supporting review has tier T2 or T3, and either a certified artifact backs
  the claim or at least two different reviewers filed cross-family reviews of a full
  write-up at tier T2 or T3.
\<close>
theorem strong_support_is_earned:
  assumes "evaluate_claim_transition c e ctx = Inr StronglySupported"
    and "\<not> is_operator_repair e" and "c \<noteq> StronglySupported"
  shows "\<exists>review supports. e = ReviewVerified review \<and> c = Corroborated \<and>
    supports = {r \<in> set (verified_reviews ctx @ [review]). finding r = Support \<and>
      (\<forall>r' \<in> set (verified_reviews ctx @ [review]). review_id r' = review_id r \<longrightarrow> r' = r)} \<and>
    (\<exists>r \<in> supports. tier r = T2 \<or> tier r = T3) \<and>
    (has_certified_artifact ctx \<or>
     2 \<le> card (reviewer_id ` {r \<in> supports. cross_family r \<and> full_write_up r \<and>
                                            (tier r = T2 \<or> tier r = T3)}))"
proof -
  from evaluate_reaches(2) [OF assms] obtain review where review:
    "e = ReviewVerified review" "c = Corroborated"
    "strong_support_unmet (verified_reviews ctx @ [review]) ctx = []" by auto
  let ?S = "{r \<in> set (verified_reviews ctx @ [review]). finding r = Support \<and>
      (\<forall>r' \<in> set (verified_reviews ctx @ [review]). review_id r' = review_id r \<longrightarrow> r' = r)}"
  have S: "set (distinct_supporting_reviews (verified_reviews ctx @ [review])) = ?S"
    by (rule set_eqI) (simp only: distinct_supporting_reviews_iff mem_Collect_eq)
  show ?thesis
    using review(3) unfolding strong_support_unmet_Nil cross_family_reviewers_card S
      tier_at_least_T2
    by (intro exI [of _ review] exI [of _ ?S] conjI review(1,2)) auto
qed

theorem strong_support_is_earned_example:
  "evaluate_claim_transition Corroborated (ReviewVerified (sample_review ''R2'' ''F3'' T2))
     (empty_claim_context\<lparr>verified_reviews := [sample_review ''R1'' ''F2'' T2]\<rparr>) = Inr StronglySupported"
  by code_simp

lemma review_ids_distinct: "distinct (map review_id (distinct_supporting_reviews rs))"
proof -
  obtain fb cf where eq: "review_rows [] [] rs = (fb, cf)" by fastforce
  have "map (review_id \<circ> snd) fb = map fst fb"
    using review_rows_keyed [OF eq] by auto
  moreover have "distinct (map fst fb)"
    using review_rows_distinct [OF eq] by (simp add: map_keys_def)
  ultimately have "distinct (map review_id (map snd fb))"
    unfolding map_map by (rule ssubst)
  then show ?thesis
    by (simp add: distinct_supporting_reviews_def eq distinct_map_filter)
qed

text \<open>
  Replayed and conflicting review rows: the reviews that count as support are exactly
  the supporting rows all of whose copies agree, each once; so neither replaying a row nor
  reordering the rows changes what counts, and a conflicting copy removes the review.
\<close>
theorem review_rows_count_once:
  "set (distinct_supporting_reviews rs) =
     {r \<in> set rs. finding r = Support \<and> (\<forall>r'. r' \<in> set rs \<and> review_id r' = review_id r \<longleftrightarrow> r' = r)} \<and>
   distinct (map review_id (distinct_supporting_reviews rs))"
  by (simp only: review_ids_distinct set_eq_iff distinct_supporting_reviews_iff mem_Collect_eq) blast

text \<open>
  The ledger fold of the read side (\<open>disposition-read.ts\<close>): a claim starts as a draft and
  every event is applied, with the facts of its moment, in ledger order.
\<close>

definition compute_claim_disposition ::
  "claim_event list \<Rightarrow> (claim_event \<Rightarrow> claim_context) \<Rightarrow> claim_disposition" where
  "compute_claim_disposition events context_for =
     fold_moves evaluate_claim_transition context_for Draft events"

text \<open>
  Terminal standing is final: once a ledger folds to refuted, withdrawn or superseded,
  appending events changes nothing unless one of them is an operator repair.
\<close>
theorem terminal_standing_is_final:
  assumes "compute_claim_disposition es ctx \<in> {Refuted, Withdrawn, Superseded}"
    and "\<forall>e \<in> set later. \<not> is_operator_repair e"
  shows "compute_claim_disposition (es @ later) ctx = compute_claim_disposition es ctx"
  using assms claims.terminal_absorbs [of ctx Draft es later]
  by (auto simp: compute_claim_disposition_def set_states)

theorem terminal_standing_is_final_example:
  "compute_claim_disposition
     ([Promote, AuthorConcession] @ [NewVersion 2, RefutationAttemptRecorded ''A1''])
     (\<lambda>_. empty_claim_context) = Refuted"
  using terminal_standing_is_final
    [of "[Promote, AuthorConcession]" "\<lambda>_. empty_claim_context"
        "[NewVersion 2, RefutationAttemptRecorded ''A1'']"]
  by (simp add: compute_claim_disposition_def evaluate_claim_transition_def transition_defs set_states)

text \<open>
  Every refusal is explained: evaluating an event either allows a next disposition or
  refuses with at least one unmet condition.
\<close>
theorem refusals_are_explained:
  "(\<exists>d. evaluate_claim_transition c e ctx = Inr d) \<or>
   (\<exists>u us. evaluate_claim_transition c e ctx = Inl (u # us))"
  by (rule claims.move_or_reasons)

text \<open>
  A statement defect cannot be cured in place: the only moves out of malformed are a
  new version, which reopens the claim, and an operator repair with a public reason.
\<close>
theorem malformed_exits:
  "evaluate_claim_transition Malformed e ctx = Inr d \<longleftrightarrow>
   (case e of NewVersion _ \<Rightarrow> d = Open
    | OperatorRepair reason to \<Rightarrow> \<not> js_blank reason \<and> d = to
    | _ \<Rightarrow> False)"
  by (cases e) (auto simp: evaluate_claim_transition_def transition_defs set_states)

end
