(* ===== verification/Facets.thy ===== *)
theory Facets
  imports Dispositions
begin

section \<open>Hypotheses, pinned independence and computed facets (\<open>ledger/dispositions.ts\<close>)\<close>

text \<open>
  The second half of the disposition module: what a disposition displays as, the hypothesis
  sub-machine, the independence tier pinned at review time with its refusal of retroactive
  upgrades, the review-state facet and the staleness facet.
\<close>

subsection \<open>Display\<close>

text \<open>The middle dot of the display strings is the code unit 183.\<close>

definition middle_dot :: string where
  "middle_dot = [char_of (183 :: nat)]"

fun disposition_text :: "claim_disposition \<Rightarrow> string" where
  "disposition_text Draft = ''draft''"
| "disposition_text Open = ''open''"
| "disposition_text Malformed = ''malformed''"
| "disposition_text Disputed = ''disputed''"
| "disposition_text Corroborated = ''corroborated''"
| "disposition_text StronglySupported = ''strongly-supported''"
| "disposition_text Refuted = ''refuted''"
| "disposition_text ReducedTo = ''reduced-to''"
| "disposition_text Withdrawn = ''withdrawn''"
| "disposition_text Superseded = ''superseded''"

definition display_claim_disposition :: "claim_disposition \<Rightarrow> claim_context \<Rightarrow> string" where
  "display_claim_disposition disposition ctx =
     (if disposition = Open \<and> length (verified_reviews ctx) > 0 \<and>
         recorded_refutation_attempts ctx = 0
      then ''open '' @ middle_dot @ '' unchallenged''
      else disposition_text disposition)"

definition wears_machine_checked_badge :: "claim_disposition \<Rightarrow> claim_context \<Rightarrow> bool" where
  "wears_machine_checked_badge disposition ctx \<longleftrightarrow>
     disposition = StronglySupported \<and> has_certified_artifact ctx"

subsection \<open>Hypothesis sub-machine\<close>

datatype hypothesis_event =
  Narrow
| Kill "string option"
| Defer
| Resume
| Supersede string

datatype hypothesis_unmet =
  HypothesisTerminal hypothesis_disposition
| NarrowNotLegal hypothesis_disposition
| KillNeedsKilledBy
| KillNotLegal hypothesis_disposition
| DeferNotLegal hypothesis_disposition
| ResumeNotLegal hypothesis_disposition
| SupersedeNeedsSuccessor

definition hypothesis_killable :: "hypothesis_disposition list" where
  "hypothesis_killable = [Active, Narrowed, Deferred]"

fun hypothesis_switch ::
  "hypothesis_disposition \<Rightarrow> hypothesis_event \<Rightarrow> (hypothesis_unmet, hypothesis_disposition) transition_result"
where
  "hypothesis_switch current Narrow =
     (if current = Active \<or> current = Narrowed then allow Narrowed
      else refuse [NarrowNotLegal current])"
| "hypothesis_switch current (Kill killed_by) =
     (if (case killed_by of None \<Rightarrow> True | Some ref \<Rightarrow> js_blank ref) then refuse [KillNeedsKilledBy]
      else if current \<notin> set hypothesis_killable then refuse [KillNotLegal current]
      else allow Killed)"
| "hypothesis_switch current Defer =
     (if current = Active \<or> current = Narrowed then allow Deferred
      else refuse [DeferNotLegal current])"
| "hypothesis_switch current Resume =
     (if current = Deferred then allow Active else refuse [ResumeNotLegal current])"
| "hypothesis_switch current (Supersede successor) =
     (if js_blank successor then refuse [SupersedeNeedsSuccessor]
      else allow HypothesisSuperseded)"

definition evaluate_hypothesis_transition ::
  "hypothesis_disposition \<Rightarrow> hypothesis_event \<Rightarrow> (hypothesis_unmet, hypothesis_disposition) transition_result"
where
  "evaluate_hypothesis_transition current event =
     (if current = Killed \<or> current = HypothesisSuperseded then refuse [HypothesisTerminal current]
      else hypothesis_switch current event)"

fun display_hypothesis_disposition :: "hypothesis_disposition \<Rightarrow> string" where
  "display_hypothesis_disposition Active = ''surviving current tests''"
| "display_hypothesis_disposition Narrowed =
     ''narrowed '' @ middle_dot @ '' surviving current tests''"
| "display_hypothesis_disposition Killed = ''killed''"
| "display_hypothesis_disposition Deferred = ''deferred''"
| "display_hypothesis_disposition HypothesisSuperseded = ''superseded''"

subsection \<open>Independence tiers, pinned at review time\<close>

definition compute_independence_tier ::
  "string \<Rightarrow> string \<Rightarrow> string \<Rightarrow> string \<Rightarrow> bool \<Rightarrow> independence_tier" where
  "compute_independence_tier reviewer_sponsor author_sponsor reviewer_family author_family disjoint =
     (if reviewer_sponsor = author_sponsor then T0
      else if reviewer_family = author_family then T1
      else if disjoint then T3 else T2)"

record pinned_at =
  reviewer_sponsor_id :: string
  author_sponsor_id :: string
  reviewer_model_family :: string
  author_model_family :: string
  disjoint_method :: bool
  reviewed_at :: string

record pinned_independence =
  pinned_tier :: independence_tier
  pinned_facts :: pinned_at

definition pin_independence_at_review_time ::
  "string \<Rightarrow> string \<Rightarrow> string \<Rightarrow> string \<Rightarrow> bool \<Rightarrow> string \<Rightarrow> pinned_independence" where
  "pin_independence_at_review_time rs ras rf af disjoint moment =
     \<lparr>pinned_tier = compute_independence_tier rs ras rf af disjoint,
      pinned_facts =
        \<lparr>reviewer_sponsor_id = rs, author_sponsor_id = ras, reviewer_model_family = rf,
         author_model_family = af, disjoint_method = disjoint, reviewed_at = moment\<rparr>\<rparr>"

text \<open>The refusal carries the recorded tier and the recomputed one, as its message does.\<close>

datatype pin_unmet = TierPinned independence_tier independence_tier

definition recompute_pinned_independence ::
  "pinned_independence \<Rightarrow> string \<Rightarrow> string \<Rightarrow> string \<Rightarrow> string \<Rightarrow> bool \<Rightarrow>
   (pin_unmet, independence_tier) transition_result" where
  "recompute_pinned_independence pinned rs ras rf af disjoint =
     (let now = compute_independence_tier rs ras rf af disjoint
      in if now = pinned_tier pinned then allow (pinned_tier pinned)
         else refuse [TierPinned (pinned_tier pinned) now])"

subsection \<open>Review-state facet\<close>

datatype review_status = InProgress | Completed

record review_facet_record =
  status :: review_status
  verified :: bool
  facet_tier :: independence_tier
  facet_finding :: finding

definition compute_review_state_facet :: "bool \<Rightarrow> review_facet_record list \<Rightarrow> review_state_facet" where
  "compute_review_state_facet review_requested reviews =
     (let completed = filter (\<lambda>review. status review = Completed) reviews
      in if list_ex (\<lambda>review. facet_finding review = Dispute) completed then Contested
         else if list_ex (\<lambda>review. verified review \<and> tier_at_least (facet_tier review) T1) completed
           then IndependentlyChecked
         else if list_ex (\<lambda>review. status review = InProgress) reviews then UnderReview
         else if review_requested then ReviewRequested
         else Unreviewed)"

record recorded_review =
  verdict :: string
  carries_weight :: bool
  recorded_tier :: independence_tier

definition recorded_finding :: "string \<Rightarrow> finding option" where
  "recorded_finding v =
     (if v = ''refute'' \<or> v = ''fails-to-reproduce'' then Some Dispute
      else if v = ''confirm'' \<or> v = ''reproduces'' then Some Support
      else None)"

definition recorded_facets :: "recorded_review \<Rightarrow> review_facet_record list" where
  "recorded_facets review =
     (case recorded_finding (verdict review) of
        None \<Rightarrow> []
      | Some f \<Rightarrow> [\<lparr>status = Completed, verified = carries_weight review,
                   facet_tier = recorded_tier review, facet_finding = f\<rparr>])"

definition review_state_from_recorded_reviews :: "recorded_review list \<Rightarrow> review_state_facet" where
  "review_state_from_recorded_reviews reviews =
     compute_review_state_facet False (concat (map recorded_facets reviews))"

subsection \<open>Staleness facet\<close>

datatype staleness_kind = EvidenceInvalidated | EvidenceRetracted | EvidenceSuperseded

record staleness_event =
  staleness_kind :: staleness_kind
  staleness_evidence_id :: string

record staleness_facet =
  stale :: bool
  flagged_evidence_ids :: "string list"
  staleness_display :: string

definition compute_staleness_facet :: "string list \<Rightarrow> staleness_event list \<Rightarrow> staleness_facet" where
  "compute_staleness_facet resting_on events =
     (let invalidated = set (map staleness_evidence_id events);
          flagged = filter (\<lambda>i. i \<in> invalidated) resting_on
      in \<lparr>stale = length flagged > 0, flagged_evidence_ids = flagged,
          staleness_display = (if length flagged > 0 then ''stale'' else ''fresh'')\<rparr>)"

subsection \<open>Properties\<close>

interpretation hypotheses: transition_machine
  "\<lambda>s e (_ :: unit). evaluate_hypothesis_transition s e"
  "\<lambda>s. s = Killed \<or> s = HypothesisSuperseded" "\<lambda>_. False"
proof unfold_locales
  show "is_error (evaluate_hypothesis_transition s e)"
    if "s = Killed \<or> s = HypothesisSuperseded" for s e
    using that by (auto simp: evaluate_hypothesis_transition_def refuse_def)
  show "us \<noteq> []" if "evaluate_hypothesis_transition s e = Inl us" for s e us
    using that by (cases e)
      (auto simp: evaluate_hypothesis_transition_def transition_defs split: if_splits option.splits)
qed

text \<open>
  A kill names its killer and is final: a hypothesis becomes killed only by a kill event
  whose reference is not blank, from active, narrowed or deferred, and no event moves it
  again.
\<close>
theorem killed_hypothesis:
  "(evaluate_hypothesis_transition current e = Inr Killed \<longleftrightarrow>
      (\<exists>ref. e = Kill (Some ref) \<and> \<not> js_blank ref \<and> current \<in> {Active, Narrowed, Deferred})) \<and>
   fold_moves (\<lambda>s e (_ :: unit). evaluate_hypothesis_transition s e) (\<lambda>_. ()) Killed es = Killed"
proof
  show "evaluate_hypothesis_transition current e = Inr Killed \<longleftrightarrow>
      (\<exists>ref. e = Kill (Some ref) \<and> \<not> js_blank ref \<and> current \<in> {Active, Narrowed, Deferred})"
    by (cases e; cases current)
      (auto simp: evaluate_hypothesis_transition_def transition_defs hypothesis_killable_def
        split: option.splits)
  show "fold_moves (\<lambda>s e (_ :: unit). evaluate_hypothesis_transition s e) (\<lambda>_. ()) Killed es = Killed"
    by (rule hypotheses.terminal_fold) simp_all
qed

text \<open>
  A recorded independence tier is never upgraded: recomputing a pinned review under any
  later sponsors, families and methods answers the tier pinned at review time or refuses
  with that tier and the recomputed one.
\<close>
theorem pinned_tier_never_changes:
  "recompute_pinned_independence (pin_independence_at_review_time rs ras rf af d moment) rs' ras' rf' af' d' =
   (if compute_independence_tier rs' ras' rf' af' d' = compute_independence_tier rs ras rf af d
    then Inr (compute_independence_tier rs ras rf af d)
    else Inl [TierPinned (compute_independence_tier rs ras rf af d)
                (compute_independence_tier rs' ras' rf' af' d')])"
  by (simp add: recompute_pinned_independence_def pin_independence_at_review_time_def
      transition_defs Let_def)

lemma recorded_facets_ex:
  "list_ex (\<lambda>x. facet_finding x = Dispute) (recorded_facets r) \<longleftrightarrow>
     verdict r \<in> {''refute'', ''fails-to-reproduce''}"
  "list_ex (\<lambda>x. verified x \<and> tier_at_least (facet_tier x) T1) (recorded_facets r) \<longleftrightarrow>
     verdict r \<in> {''refute'', ''fails-to-reproduce'', ''confirm'', ''reproduces''} \<and>
     carries_weight r \<and> recorded_tier r \<noteq> T0"
  "\<not> list_ex (\<lambda>x. status x = InProgress) (recorded_facets r)"
  "x \<in> set (recorded_facets r) \<Longrightarrow> status x = Completed"
  by (auto simp: recorded_facets_def recorded_finding_def tier_at_least_T1)

text \<open>
  The review-state facet of recorded reviews: it is contested exactly when some review
  refutes or fails to reproduce, independently checked exactly when none does and some
  weight-carrying review of tier T1 or better confirms or reproduces, and unreviewed
  otherwise; a recorded review never leaves the claim under review.
\<close>
theorem recorded_review_state:
  "review_state_from_recorded_reviews reviews =
   (if \<exists>r \<in> set reviews. verdict r \<in> {''refute'', ''fails-to-reproduce''} then Contested
    else if \<exists>r \<in> set reviews. verdict r \<in> {''confirm'', ''reproduces''} \<and> carries_weight r \<and>
              recorded_tier r \<noteq> T0 then IndependentlyChecked
    else Unreviewed)"
proof -
  have all: "filter (\<lambda>x. status x = Completed) (concat (map recorded_facets reviews)) =
      concat (map recorded_facets reviews)"
    by (rule filter_concat_all) (auto dest: recorded_facets_ex(4))
  show ?thesis
    unfolding review_state_from_recorded_reviews_def compute_review_state_facet_def Let_def
      all list_ex_concat_map recorded_facets_ex(1,2)
    using recorded_facets_ex(3) by auto
qed

end
