(* ===== verification/DispositionRead.thy ===== *)
theory DispositionRead
  imports Facets "HOL-Library.Product_Lexorder"
begin

section \<open>The claim-disposition read (\<open>ledger/disposition-read.ts\<close>)\<close>

text \<open>
  The version-pinned fold of one claim's ledger timeline. The loop variables of
  \<open>computeCurrentClaimDisposition\<close> are the fields of \<open>fold_state\<close>, its thrown
  \<open>TypeError\<close>s are \<open>timeline_error\<close>, and each branch of the loop body is one function.
\<close>

subsection \<open>Timeline events\<close>

text \<open>A review without its finding (\<open>Omit<VerifiedReview, "finding">\<close>).\<close>

record unclassified_review =
  core_review_id :: string
  core_reviewer_id :: string
  core_tier :: independence_tier
  core_cross_family :: bool
  core_full_write_up :: bool

definition with_finding :: "unclassified_review \<Rightarrow> finding \<Rightarrow> verified_review" where
  "with_finding r f =
     \<lparr>review_id = core_review_id r, reviewer_id = core_reviewer_id r, tier = core_tier r,
      cross_family = core_cross_family r, full_write_up = core_full_write_up r, finding = f\<rparr>"

text \<open>
  The first argument is the sequence, the second the version (of the two publications) or
  the target version (of every other event); the rest are the fields in source order, an
  optional field as an \<open>option\<close>.
\<close>

datatype timeline_event =
  ClaimCreated jsnum jsnum "string option"
| ClaimRevised jsnum jsnum "string option"
| ClaimRetracted jsnum jsnum string "bool option"
| ClaimReduced jsnum jsnum string
| Conceded jsnum jsnum
| ReviewCreated jsnum jsnum bool string "string list option" unclassified_review
    "string option" "(string \<times> jsnum) option"
| RefutingEvidence jsnum jsnum string "bool option" "jsnum option"
| FalsificationAttempt jsnum jsnum string "string option" string string string
    "string list option" "string option"
| CertifiedArtifact jsnum jsnum string

fun sequence_of :: "timeline_event \<Rightarrow> jsnum" where
  "sequence_of (ClaimCreated n v t) = n"
| "sequence_of (ClaimRevised n v t) = n"
| "sequence_of (ClaimRetracted n v r w) = n"
| "sequence_of (ClaimReduced n v t) = n"
| "sequence_of (Conceded n v) = n"
| "sequence_of (ReviewCreated n v w ver rub r a c) = n"
| "sequence_of (RefutingEvidence n v e c h) = n"
| "sequence_of (FalsificationAttempt n v i fp af cf res refs q) = n"
| "sequence_of (CertifiedArtifact n v e) = n"

fun pin_of :: "timeline_event \<Rightarrow> jsnum" where
  "pin_of (ClaimCreated n v t) = v"
| "pin_of (ClaimRevised n v t) = v"
| "pin_of (ClaimRetracted n v r w) = v"
| "pin_of (ClaimReduced n v t) = v"
| "pin_of (Conceded n v) = v"
| "pin_of (ReviewCreated n v w ver rub r a c) = v"
| "pin_of (RefutingEvidence n v e c h) = v"
| "pin_of (FalsificationAttempt n v i fp af cf res refs q) = v"
| "pin_of (CertifiedArtifact n v e) = v"

fun is_publication :: "timeline_event \<Rightarrow> bool" where
  "is_publication (ClaimCreated n v t) = True"
| "is_publication (ClaimRevised n v t) = True"
| "is_publication _ = False"

text \<open>A truthy optional string: present and not empty.\<close>

definition truthy :: "string option \<Rightarrow> bool" where
  "truthy s \<longleftrightarrow> s \<noteq> None \<and> s \<noteq> Some []"

subsection \<open>The fold's state\<close>

record fold_state =
  prior_sequence :: int
  current_version :: "int option"
  identity_withdrawn :: bool
  disposition :: claim_disposition
  attempts :: int
  reviews :: "verified_review list"
  artifact :: bool
  qualifying_artifacts :: "string list"
  seen_attempts :: "string list"

definition initial_fold :: fold_state where
  "initial_fold =
     \<lparr>prior_sequence = 0, current_version = None, identity_withdrawn = False, disposition = Draft,
      attempts = 0, reviews = [], artifact = False, qualifying_artifacts = [], seen_attempts = []\<rparr>"

definition fold_context :: "fold_state \<Rightarrow> claim_context" where
  "fold_context s =
     \<lparr>recorded_refutation_attempts = attempts s, verified_reviews = reviews s,
      has_certified_artifact = artifact s\<rparr>"

definition apply_event :: "claim_event \<Rightarrow> fold_state \<Rightarrow> fold_state" where
  "apply_event e s =
     s\<lparr>disposition := move (disposition s)
        (evaluate_claim_transition (disposition s) e (fold_context s))\<rparr>"

definition apply_support :: "verified_review \<Rightarrow> fold_state \<Rightarrow> fold_state" where
  "apply_support review s =
     (let s1 = apply_event (ReviewVerified review) s
      in if disposition s1 = Corroborated then apply_event (ReviewVerified review) s1 else s1)"

definition review_finding :: "string \<Rightarrow> string list option \<Rightarrow> finding option" where
  "review_finding v rubric =
     (if (case rubric of None \<Rightarrow> False
          | Some rs \<Rightarrow> ''statement-defect'' \<in> set rs \<or> ''statement-fails-review'' \<in> set rs)
      then Some StatementDefect
      else if v = ''confirm'' \<or> v = ''reproduces'' then Some Support
      else if v = ''refute'' \<or> v = ''fails-to-reproduce'' then Some Dispute
      else None)"

definition reset_version :: "int \<Rightarrow> fold_state \<Rightarrow> fold_state" where
  "reset_version v s =
     s\<lparr>current_version := Some v, attempts := 0, reviews := [], artifact := False,
       qualifying_artifacts := [], seen_attempts := []\<rparr>"

definition reduce_if_target :: "string option \<Rightarrow> fold_state \<Rightarrow> fold_state" where
  "reduce_if_target target s =
     (case target of
        Some t \<Rightarrow> if truthy target then apply_event (ReduceTo t) s else s
      | None \<Rightarrow> s)"

subsection \<open>The branches of the loop body\<close>

datatype timeline_error = NotStrictSequence | InvalidCreation | NonContiguousRevision

definition created_step :: "int \<Rightarrow> string option \<Rightarrow> fold_state \<Rightarrow> timeline_error + fold_state" where
  "created_step v target s =
     (if current_version s \<noteq> None \<or> v \<noteq> 1 then Inl InvalidCreation
      else Inr (reduce_if_target target (apply_event Promote (reset_version 1 s))))"

definition revised_step :: "int \<Rightarrow> string option \<Rightarrow> fold_state \<Rightarrow> timeline_error + fold_state" where
  "revised_step v target s =
     (case current_version s of
        None \<Rightarrow> Inl NonContiguousRevision
      | Some c \<Rightarrow>
          if v \<noteq> c + 1 then Inl NonContiguousRevision
          else
            let s1 = (if identity_withdrawn s then s\<lparr>disposition := Withdrawn\<rparr>
                      else if disposition s = Refuted \<or> disposition s = Withdrawn
                        then s\<lparr>disposition := Open\<rparr>
                      else apply_event (NewVersion v) s)
            in Inr (reset_version v (reduce_if_target target s1)))"

definition retracted_step :: "bool option \<Rightarrow> fold_state \<Rightarrow> fold_state" where
  "retracted_step whole s =
     apply_event AuthorWithdrawal (if whole \<noteq> Some False then s\<lparr>identity_withdrawn := True\<rparr> else s)"

definition add_qualifying :: "string \<Rightarrow> fold_state \<Rightarrow> fold_state" where
  "add_qualifying evidence s =
     s\<lparr>qualifying_artifacts := List.insert evidence (qualifying_artifacts s)\<rparr>"

definition attempt_step ::
  "string \<Rightarrow> string option \<Rightarrow> string \<Rightarrow> string \<Rightarrow> string \<Rightarrow> string list option \<Rightarrow> string option \<Rightarrow>
   fold_state \<Rightarrow> fold_state" where
  "attempt_step attempt_id fingerprint attempted capable result refs qualifying s0 =
     (let s = (case qualifying of
                 Some q \<Rightarrow> if truthy qualifying then add_qualifying q s0 else s0
               | None \<Rightarrow> s0);
          identity = (case fingerprint of Some f \<Rightarrow> f | None \<Rightarrow> attempt_id)
      in if js_blank attempted \<or> js_blank capable then s
         else if result \<noteq> ''survived'' \<or> (case refs of None \<Rightarrow> True | Some rs \<Rightarrow> length rs = 0) then s
         else if identity \<in> set (seen_attempts s) then s
         else
           let s1 = s\<lparr>seen_attempts := List.insert identity (seen_attempts s)\<rparr>;
               s2 = apply_event (RefutationAttemptRecorded attempt_id) s1;
               s3 = s2\<lparr>attempts := attempts s2 + 1\<rparr>
           in case at_last (reviews s3) of
                Some prior \<Rightarrow> apply_support prior s3
              | None \<Rightarrow> s3)"

definition refuting_step ::
  "string \<Rightarrow> bool option \<Rightarrow> jsnum option \<Rightarrow> fold_state \<Rightarrow> fold_state" where
  "refuting_step evidence confirmed hours s =
     (let s1 = apply_event
          (EvidenceRefuted evidence (confirmed = Some True)
             (case hours of Some h \<Rightarrow> h | None \<Rightarrow> num 0)) s
      in s1\<lparr>attempts := attempts s1 + 1\<rparr>)"

definition certifies ::
  "finding \<Rightarrow> string option \<Rightarrow> independence_tier \<Rightarrow> fold_state \<Rightarrow> bool" where
  "certifies f artifact_id t s \<longleftrightarrow>
     f = Support \<and> (case artifact_id of None \<Rightarrow> False | Some a \<Rightarrow> a \<in> set (qualifying_artifacts s)) \<and>
     (t = T1 \<or> t = T2 \<or> t = T3)"

definition review_step ::
  "bool \<Rightarrow> string \<Rightarrow> string list option \<Rightarrow> unclassified_review \<Rightarrow> string option \<Rightarrow>
   (string \<times> jsnum) option \<Rightarrow> fold_state \<Rightarrow> fold_state" where
  "review_step weight v rubric core artifact_id confirmed s0 =
     (if \<not> weight then s0
      else case review_finding v rubric of
        None \<Rightarrow> s0
      | Some f \<Rightarrow>
          let s = (if certifies f artifact_id (core_tier core) s0 then s0\<lparr>artifact := True\<rparr> else s0);
              review = with_finding core f;
              s1 = (if f = Support then apply_support review s
                    else apply_event (ReviewVerified review) s);
              s2 = (case confirmed of
                      Some (e, h) \<Rightarrow>
                        if f = Dispute then apply_event (EvidenceRefuted e True h) s1 else s1
                    | None \<Rightarrow> s1);
              s3 = (if f = Support then s2\<lparr>reviews := reviews s2 @ [review]\<rparr> else s2)
          in if f = Dispute then s3\<lparr>attempts := attempts s3 + 1\<rparr> else s3)"

text \<open>An event pinned to the current head.\<close>

fun head_step :: "timeline_event \<Rightarrow> fold_state \<Rightarrow> fold_state" where
  "head_step (ClaimRetracted n v r whole) s = retracted_step whole s"
| "head_step (ClaimReduced n v target) s = apply_event (ReduceTo target) s"
| "head_step (Conceded n v) s = apply_event AuthorConcession s"
| "head_step (CertifiedArtifact n v evidence) s = add_qualifying evidence s"
| "head_step (FalsificationAttempt n v i fp af cf res refs q) s = attempt_step i fp af cf res refs q s"
| "head_step (RefutingEvidence n v e c h) s = refuting_step e c h s"
| "head_step (ReviewCreated n v w ver rub r a c) s = review_step w ver rub r a c s"
| "head_step (ClaimCreated n v t) s = s"
| "head_step (ClaimRevised n v t) s = s"

fun publication_step :: "timeline_event \<Rightarrow> int \<Rightarrow> fold_state \<Rightarrow> timeline_error + fold_state" where
  "publication_step (ClaimCreated n _ target) v s = created_step v target s"
| "publication_step (ClaimRevised n _ target) v s = revised_step v target s"
| "publication_step _ v s = Inr s"

definition timeline_step :: "fold_state \<Rightarrow> timeline_event \<Rightarrow> timeline_error + fold_state" where
  "timeline_step s e =
     (case (safe_int (sequence_of e), safe_int (pin_of e)) of
        (Some n, Some v) \<Rightarrow>
          if n \<le> prior_sequence s \<or> v < 1 then Inl NotStrictSequence
          else
            let s1 = s\<lparr>prior_sequence := n\<rparr>
            in if is_publication e then publication_step e v s1
               else if current_version s1 \<noteq> Some v then Inr s1
               else Inr (head_step e s1)
      | _ \<Rightarrow> Inl NotStrictSequence)"

definition timeline_fold :: "fold_state \<Rightarrow> timeline_event list \<Rightarrow> timeline_error + fold_state" where
  "timeline_fold s events = run_until_error timeline_step s events"

text \<open>
  The order of the subtraction comparator. With a not-a-number sequence the source's order
  is the engine's choice; \<open>unsafe_event_is_error\<close> below shows that such a timeline is
  refused in every order.
\<close>

fun sequence_key :: "jsnum \<Rightarrow> int \<times> rat" where
  "sequence_key NegInf = (-1, 0)"
| "sequence_key (Fin q) = (0, q)"
| "sequence_key PosInf = (1, 0)"
| "sequence_key NaN = (2, 0)"

definition by_sequence :: "timeline_event list \<Rightarrow> timeline_event list" where
  "by_sequence timeline = sort_key (\<lambda>e. sequence_key (sequence_of e)) timeline"

record current_disposition =
  current_standing :: claim_disposition
  standing_version :: "int option"
  standing_context :: claim_context

definition compute_current_claim_disposition ::
  "timeline_event list \<Rightarrow> timeline_error + current_disposition" where
  "compute_current_claim_disposition timeline =
     (case timeline_fold initial_fold (by_sequence timeline) of
        Inl err \<Rightarrow> Inl err
      | Inr s \<Rightarrow> Inr \<lparr>current_standing = disposition s, standing_version = current_version s,
                     standing_context = fold_context s\<rparr>)"

end
