(* ===== verification/DispositionLaws.thy ===== *)
theory DispositionLaws
  imports DispositionRead
begin

section \<open>What the claim-disposition read guarantees\<close>

text \<open>
  Invariants of the fold and the properties of \<open>computeCurrentClaimDisposition\<close>: favorable
  standing is earned on the current version, other versions and the order of the input rows
  do not matter, errors are exactly malformed timelines, and a whole-identity withdrawal is
  final.
\<close>

subsection \<open>What standing requires of the recorded facts\<close>

definition standing_ok ::
  "claim_disposition \<Rightarrow> int \<Rightarrow> verified_review set \<Rightarrow> bool \<Rightarrow> bool" where
  "standing_ok d k R a \<longleftrightarrow>
     (d = Corroborated \<or> d = StronglySupported \<longrightarrow> 1 \<le> k \<and> (\<exists>r \<in> R. tier r \<noteq> T0)) \<and>
     (d = StronglySupported \<longrightarrow> (\<exists>r \<in> R. tier r = T2 \<or> tier r = T3) \<and>
        (a \<or> 2 \<le> card (reviewer_id ` {r \<in> R. cross_family r \<and> full_write_up r \<and>
                                             (tier r = T2 \<or> tier r = T3)})))"

lemma standing_ok_mono:
  assumes "standing_ok d k R a" and "k \<le> k'" and "R \<subseteq> R'" and "a \<longrightarrow> a'" and "finite R'"
  shows "standing_ok d k' R' a'"
proof -
  let ?C = "\<lambda>R. {r \<in> R. cross_family r \<and> full_write_up r \<and> (tier r = T2 \<or> tier r = T3)}"
  have "reviewer_id ` ?C R \<subseteq> reviewer_id ` ?C R'" using assms(3) by auto
  then have "card (reviewer_id ` ?C R) \<le> card (reviewer_id ` ?C R')"
    using assms(5) by (intro card_mono) auto
  with assms(1-4) show ?thesis
    unfolding standing_ok_def by (meson order_trans subset_iff)
qed

lemma standing_ok_unfavorable:
  "d \<noteq> Corroborated \<Longrightarrow> d \<noteq> StronglySupported \<Longrightarrow> standing_ok d k R a"
  by (simp add: standing_ok_def)

text \<open>The reviews an event adds to the evidence the evaluator counts.\<close>

fun landing_reviews :: "claim_event \<Rightarrow> verified_review set" where
  "landing_reviews (ReviewVerified r) = (if finding r = Support then {r} else {})"
| "landing_reviews _ = {}"

lemma distinct_supporting_subset: "set (distinct_supporting_reviews rs) \<subseteq> set rs"
  using distinct_supporting_reviews_iff by blast

lemma corroboration_gives_ok:
  assumes "corroboration_unmet rs ctx = []" and "recorded_refutation_attempts ctx = k"
    and "set rs \<subseteq> R"
  shows "standing_ok Corroborated k R a"
  using assms distinct_supporting_subset [of rs]
  by (auto simp: corroboration_unmet_Nil standing_ok_def)

lemma strong_support_gives_ok:
  assumes "strong_support_unmet rs ctx = []" and "has_certified_artifact ctx = a"
    and "1 \<le> k" and "set rs \<subseteq> R" and "finite R"
  shows "standing_ok StronglySupported k R a"
proof -
  let ?S = "set (distinct_supporting_reviews rs)"
  have sub: "?S \<subseteq> R" using distinct_supporting_subset [of rs] assms(4) by simp
  from assms(1,2) have "standing_ok StronglySupported 1 ?S a"
    unfolding strong_support_unmet_Nil cross_family_reviewers_card tier_at_least_T2
    by (auto simp: standing_ok_def) (metis independence_tier.distinct)+
  with assms(3,5) sub show ?thesis by (auto intro: standing_ok_mono)
qed

lemma standing_ok_move:
  assumes "standing_ok d (recorded_refutation_attempts ctx) R (has_certified_artifact ctx)"
    and "\<not> is_operator_repair e" and "set (verified_reviews ctx) \<union> landing_reviews e \<subseteq> R"
    and "finite R"
  shows "standing_ok (move d (evaluate_claim_transition d e ctx))
    (recorded_refutation_attempts ctx) R (has_certified_artifact ctx)"
proof (cases "evaluate_claim_transition d e ctx")
  case (Inr d')
  show ?thesis
  proof (cases "d = d' \<or> d' \<noteq> Corroborated \<and> d' \<noteq> StronglySupported")
    case True
    with Inr assms(1) show ?thesis by (auto intro: standing_ok_unfavorable)
  next
    case False
    from False have neq: "d \<noteq> d'" by blast
    from False consider "d' = Corroborated" | "d' = StronglySupported" by blast
    then show ?thesis
    proof cases
      case 1
      with evaluate_reaches(1) [OF Inr assms(2) neq] Inr assms(3) show ?thesis
        by (auto intro!: corroboration_gives_ok [of "verified_reviews ctx @ [r]" ctx for r])
    next
      case 2
      with evaluate_reaches(2) [OF Inr assms(2) neq] obtain r where
        r: "e = ReviewVerified r" "finding r = Support" "d = Corroborated"
          "strong_support_unmet (verified_reviews ctx @ [r]) ctx = []" by blast
      from assms(1) r(3) have "1 \<le> recorded_refutation_attempts ctx"
        by (simp add: standing_ok_def)
      with 2 r Inr assms(3,4) show ?thesis by (auto intro!: strong_support_gives_ok [OF r(4)])
    qed
  qed
qed (use assms(1) in simp)

subsection \<open>The invariant through the branches\<close>

lemma apply_event_frame [simp]:
  "prior_sequence (apply_event e s) = prior_sequence s"
  "current_version (apply_event e s) = current_version s"
  "identity_withdrawn (apply_event e s) = identity_withdrawn s"
  "attempts (apply_event e s) = attempts s"
  "reviews (apply_event e s) = reviews s"
  "artifact (apply_event e s) = artifact s"
  "qualifying_artifacts (apply_event e s) = qualifying_artifacts s"
  "seen_attempts (apply_event e s) = seen_attempts s"
  by (simp_all add: apply_event_def)

lemma apply_support_frame [simp]:
  "prior_sequence (apply_support r s) = prior_sequence s"
  "current_version (apply_support r s) = current_version s"
  "identity_withdrawn (apply_support r s) = identity_withdrawn s"
  "attempts (apply_support r s) = attempts s"
  "reviews (apply_support r s) = reviews s"
  "artifact (apply_support r s) = artifact s"
  "qualifying_artifacts (apply_support r s) = qualifying_artifacts s"
  "seen_attempts (apply_support r s) = seen_attempts s"
  by (simp_all add: apply_support_def Let_def)

lemma evaluate_not_draft:
  "evaluate_claim_transition d e ctx = Inr d' \<Longrightarrow> \<not> is_operator_repair e \<Longrightarrow> d \<noteq> Draft \<Longrightarrow>
   d \<noteq> Superseded \<Longrightarrow> d' \<noteq> Draft \<and> d' \<noteq> Superseded"
  by (drule evaluate_event, cases e)
    (auto simp: transition_defs set_states review_transition_def Let_def split: if_splits finding.splits)

definition published :: "claim_disposition \<Rightarrow> bool" where
  "published d \<longleftrightarrow> d \<noteq> Draft \<and> d \<noteq> Superseded"

lemma apply_event_published:
  "published (disposition s) \<Longrightarrow> \<not> is_operator_repair e \<Longrightarrow> published (disposition (apply_event e s))"
  using evaluate_not_draft by (auto simp: apply_event_def published_def move_def split: sum.split)

lemma apply_support_published:
  "published (disposition s) \<Longrightarrow> published (disposition (apply_support r s))"
  by (auto simp: apply_support_def Let_def intro!: apply_event_published)

text \<open>
  \<open>ok_with R s\<close>: a published standing that the facts in \<open>s\<close>, with the reviews of \<open>R\<close>,
  account for.
\<close>

definition ok_with :: "verified_review set \<Rightarrow> fold_state \<Rightarrow> bool" where
  "ok_with R s \<longleftrightarrow> standing_ok (disposition s) (attempts s) R (artifact s) \<and>
     set (reviews s) \<subseteq> R \<and> finite R \<and> published (disposition s) \<and> 0 \<le> attempts s"

lemma apply_event_ok:
  assumes "ok_with R s" and "\<not> is_operator_repair e" and "landing_reviews e \<subseteq> R"
  shows "ok_with R (apply_event e s)"
  using assms standing_ok_move [of "disposition s" "fold_context s" R e]
    apply_event_published [OF _ assms(2), of s]
  by (simp add: ok_with_def apply_event_def fold_context_def)

lemma apply_support_ok:
  "ok_with R s \<Longrightarrow> r \<in> R \<Longrightarrow> ok_with R (apply_support r s)"
  by (auto simp: apply_support_def Let_def intro!: apply_event_ok split: if_splits)

lemma ok_with_grows:
  assumes "ok_with R s" and "disposition t = disposition s" and "attempts s \<le> attempts t"
    and "artifact s \<longrightarrow> artifact t" and "set (reviews t) \<subseteq> R'" and "R \<subseteq> R'" and "finite R'"
  shows "ok_with R' t"
  using assms standing_ok_mono [of "disposition s" "attempts s" R "artifact s" "attempts t" R' "artifact t"]
  by (simp add: ok_with_def)

abbreviation ok_now :: "fold_state \<Rightarrow> bool" where
  "ok_now s \<equiv> ok_with (set (reviews s)) s"

lemma retracted_ok: "ok_now s \<Longrightarrow> ok_now (retracted_step whole s)"
  unfolding retracted_step_def by (simp, intro conjI impI apply_event_ok)
    (auto elim: ok_with_grows)

lemma add_qualifying_ok: "ok_now s \<Longrightarrow> ok_now (add_qualifying q s)"
  by (auto simp: add_qualifying_def elim: ok_with_grows)

lemma attempt_ok:
  assumes "ok_now s0"
  shows "ok_now (attempt_step i fp af cf res refs q s0)"
proof -
  define s where "s = (case q of Some q' \<Rightarrow> if truthy q then add_qualifying q' s0 else s0 | None \<Rightarrow> s0)"
  have s: "ok_now s" using assms by (auto simp: s_def add_qualifying_ok split: option.split)
  define ident where "ident = (case fp of Some f \<Rightarrow> f | None \<Rightarrow> i)"
  define s1 where "s1 = s\<lparr>seen_attempts := List.insert ident (seen_attempts s)\<rparr>"
  define s2 where "s2 = apply_event (RefutationAttemptRecorded i) s1"
  define s3 where "s3 = s2\<lparr>attempts := attempts s2 + 1\<rparr>"
  have "ok_now s1" using s by (auto simp: s1_def elim: ok_with_grows)
  then have "ok_now s2" unfolding s2_def by (simp add: apply_event_ok)
  then have s3: "ok_now s3" by (auto simp: s3_def elim: ok_with_grows)
  have "ok_now (case at_last (reviews s3) of Some prior \<Rightarrow> apply_support prior s3 | None \<Rightarrow> s3)"
    using s3 by (auto simp: apply_support_ok dest: at_last_in_set split: option.split)
  with s show ?thesis
    unfolding attempt_step_def Let_def s_def [symmetric] ident_def [symmetric] s1_def [symmetric]
      s2_def [symmetric] s3_def [symmetric]
    by (auto split: option.split)
qed

lemma refuting_ok: "ok_now s \<Longrightarrow> ok_now (refuting_step e c h s)"
  unfolding refuting_step_def Let_def
  by (rule ok_with_grows [OF apply_event_ok [of "set (reviews s)" s "EvidenceRefuted e (c = Some True)
      (case h of Some h' \<Rightarrow> h' | None \<Rightarrow> num 0)"]]) simp_all

lemma review_ok:
  assumes "ok_now s0"
  shows "ok_now (review_step w ver rub core aid conf s0)"
proof (cases "w \<and> review_finding ver rub \<noteq> None")
  case True
  then obtain f where w: w and f: "review_finding ver rub = Some f" by auto
  define s where "s = (if certifies f aid (core_tier core) s0 then s0\<lparr>artifact := True\<rparr> else s0)"
  define review where "review = with_finding core f"
  define R where "R = set (reviews s) \<union> (if f = Support then {review} else {})"
  have rf: "finding review = f" by (simp add: review_def with_finding_def)
  have "ok_now s" using assms by (auto simp: s_def elim: ok_with_grows)
  then have s: "ok_with R s" by (auto simp: R_def elim: ok_with_grows)
  define s1 where "s1 = (if f = Support then apply_support review s
      else apply_event (ReviewVerified review) s)"
  have s1: "ok_with R s1"
    using s rf by (auto simp: s1_def R_def intro!: apply_event_ok apply_support_ok)
  define s2 where "s2 = (case conf of
      Some (e, h) \<Rightarrow> if f = Dispute then apply_event (EvidenceRefuted e True h) s1 else s1
    | None \<Rightarrow> s1)"
  have s2: "ok_with R s2"
    using s1 by (auto simp: s2_def intro!: apply_event_ok split: option.split)
  have eq: "review_step w ver rub core aid conf s0 =
      (let s3 = (if f = Support then s2\<lparr>reviews := reviews s2 @ [review]\<rparr> else s2)
       in if f = Dispute then s3\<lparr>attempts := attempts s3 + 1\<rparr> else s3)"
    unfolding review_step_def s2_def s1_def s_def review_def using w f by (simp add: Let_def)
  have "reviews s2 = reviews s" by (auto simp: s2_def s1_def split: option.split)
  with s2 show ?thesis
    unfolding eq R_def by (cases f) (auto simp: Let_def elim: ok_with_grows)
next
  case False
  with assms show ?thesis by (auto simp: review_step_def)
qed

lemma head_step_ok: "ok_now s \<Longrightarrow> ok_now (head_step e s)"
  by (cases e)
    (simp_all add: retracted_ok add_qualifying_ok attempt_ok refuting_ok review_ok apply_event_ok)

subsection \<open>Which recorded events the facts of a version come from\<close>

fun support_event :: "int \<Rightarrow> verified_review \<Rightarrow> timeline_event \<Rightarrow> bool" where
  "support_event v r (ReviewCreated n p w ver rub core aid conf) \<longleftrightarrow>
     p = num v \<and> w \<and> review_finding ver rub = Some Support \<and> r = with_finding core Support"
| "support_event v r _ \<longleftrightarrow> False"

fun attempt_event :: "int \<Rightarrow> timeline_event \<Rightarrow> bool" where
  "attempt_event v (FalsificationAttempt n p i fp af cf res refs q) \<longleftrightarrow>
     p = num v \<and> \<not> js_blank af \<and> \<not> js_blank cf \<and> res = ''survived'' \<and>
     (\<exists>r rs. refs = Some (r # rs))"
| "attempt_event v (RefutingEvidence n p e c h) \<longleftrightarrow> p = num v"
| "attempt_event v (ReviewCreated n p w ver rub core aid conf) \<longleftrightarrow>
     p = num v \<and> w \<and> review_finding ver rub = Some Dispute"
| "attempt_event v _ \<longleftrightarrow> False"

fun artifact_event :: "int \<Rightarrow> string \<Rightarrow> timeline_event \<Rightarrow> bool" where
  "artifact_event v a (CertifiedArtifact n p e) \<longleftrightarrow> p = num v \<and> e = a"
| "artifact_event v a (FalsificationAttempt n p i fp af cf res refs q) \<longleftrightarrow> p = num v \<and> q = Some a"
| "artifact_event v a _ \<longleftrightarrow> False"

fun certifying_event :: "int \<Rightarrow> string \<Rightarrow> timeline_event \<Rightarrow> bool" where
  "certifying_event v a (ReviewCreated n p w ver rub core aid conf) \<longleftrightarrow>
     p = num v \<and> w \<and> review_finding ver rub = Some Support \<and> aid = Some a \<and> core_tier core \<noteq> T0"
| "certifying_event v a _ \<longleftrightarrow> False"

lemma retracted_frame [simp]:
  "current_version (retracted_step w s) = current_version s"
  "prior_sequence (retracted_step w s) = prior_sequence s"
  "reviews (retracted_step w s) = reviews s" "attempts (retracted_step w s) = attempts s"
  "artifact (retracted_step w s) = artifact s"
  "qualifying_artifacts (retracted_step w s) = qualifying_artifacts s"
  by (simp_all add: retracted_step_def)

lemma refuting_frame [simp]:
  "current_version (refuting_step e c h s) = current_version s"
  "prior_sequence (refuting_step e c h s) = prior_sequence s"
  "reviews (refuting_step e c h s) = reviews s"
  "identity_withdrawn (refuting_step e c h s) = identity_withdrawn s"
  "artifact (refuting_step e c h s) = artifact s"
  "qualifying_artifacts (refuting_step e c h s) = qualifying_artifacts s"
  by (simp_all add: refuting_step_def Let_def)

lemma add_qualifying_frame [simp]:
  "current_version (add_qualifying q s) = current_version s"
  "prior_sequence (add_qualifying q s) = prior_sequence s"
  "disposition (add_qualifying q s) = disposition s"
  "reviews (add_qualifying q s) = reviews s" "attempts (add_qualifying q s) = attempts s"
  "identity_withdrawn (add_qualifying q s) = identity_withdrawn s"
  "artifact (add_qualifying q s) = artifact s"
  "qualifying_artifacts (add_qualifying q s) = List.insert q (qualifying_artifacts s)"
  by (simp_all add: add_qualifying_def)

lemma attempt_frame [simp]:
  "current_version (attempt_step i fp af cf res refs q s) = current_version s"
  "prior_sequence (attempt_step i fp af cf res refs q s) = prior_sequence s"
  "reviews (attempt_step i fp af cf res refs q s) = reviews s"
  "identity_withdrawn (attempt_step i fp af cf res refs q s) = identity_withdrawn s"
  "artifact (attempt_step i fp af cf res refs q s) = artifact s"
  by (auto simp: attempt_step_def Let_def split: option.split)

lemma review_frame [simp]:
  "current_version (review_step w ver rub core aid conf s) = current_version s"
  "prior_sequence (review_step w ver rub core aid conf s) = prior_sequence s"
  "identity_withdrawn (review_step w ver rub core aid conf s) = identity_withdrawn s"
  "qualifying_artifacts (review_step w ver rub core aid conf s) = qualifying_artifacts s"
  by (auto simp: review_step_def Let_def split: option.split)

lemma head_step_frame [simp]:
  "current_version (head_step e s) = current_version s"
  "prior_sequence (head_step e s) = prior_sequence s"
  by (cases e; simp)+

lemma head_step_reviews:
  "r \<in> set (reviews (head_step e s)) \<Longrightarrow> pin_of e = num v \<Longrightarrow>
   r \<in> set (reviews s) \<or> support_event v r e"
  by (cases e) (auto simp: review_step_def Let_def split: option.splits if_splits)

lemma head_step_attempts:
  "pin_of e = num v \<Longrightarrow> attempts (head_step e s) = attempts s \<or> attempt_event v e"
  by (cases e)
    (auto simp: review_step_def attempt_step_def refuting_step_def Let_def neq_Nil_conv
      split: option.splits if_splits)

lemma head_step_artifact:
  "artifact (head_step e s) \<Longrightarrow> pin_of e = num v \<Longrightarrow>
   artifact s \<or> (\<exists>a \<in> set (qualifying_artifacts s). certifying_event v a e)"
  by (cases e) (auto simp: review_step_def certifies_def Let_def split: option.splits if_splits)

lemma head_step_qualifying:
  "a \<in> set (qualifying_artifacts (head_step e s)) \<Longrightarrow> pin_of e = num v \<Longrightarrow>
   a \<in> set (qualifying_artifacts s) \<or> artifact_event v a e"
  by (cases e) (auto simp: attempt_step_def Let_def split: option.splits if_splits)

definition provenance :: "int \<Rightarrow> timeline_event list \<Rightarrow> fold_state \<Rightarrow> bool" where
  "provenance v es s \<longleftrightarrow>
     (\<forall>r \<in> set (reviews s). \<exists>e \<in> set es. support_event v r e) \<and>
     (1 \<le> attempts s \<longrightarrow> (\<exists>e \<in> set es. attempt_event v e)) \<and>
     (\<forall>a \<in> set (qualifying_artifacts s). \<exists>e \<in> set es. artifact_event v a e) \<and>
     (artifact s \<longrightarrow> (\<exists>a. (\<exists>e \<in> set es. certifying_event v a e) \<and> (\<exists>e \<in> set es. artifact_event v a e)))"

lemma provenance_head_step:
  assumes "provenance v es s" and "pin_of e = num v"
  shows "provenance v (es @ [e]) (head_step e s)"
  unfolding provenance_def
proof (intro conjI ballI impI)
  show "\<exists>x \<in> set (es @ [e]). support_event v r x" if "r \<in> set (reviews (head_step e s))" for r
    using head_step_reviews [OF that assms(2)] assms(1) by (auto simp: provenance_def)
  show "\<exists>x \<in> set (es @ [e]). attempt_event v x" if "1 \<le> attempts (head_step e s)"
    using head_step_attempts [OF assms(2), of s] that assms(1) by (auto simp: provenance_def)
  show "\<exists>x \<in> set (es @ [e]). artifact_event v a x"
    if "a \<in> set (qualifying_artifacts (head_step e s))" for a
    using head_step_qualifying [OF that assms(2)] assms(1) by (auto simp: provenance_def)
  show "\<exists>a. (\<exists>x \<in> set (es @ [e]). certifying_event v a x) \<and>
      (\<exists>x \<in> set (es @ [e]). artifact_event v a x)" if "artifact (head_step e s)"
    using head_step_artifact [OF that assms(2)] assms(1) unfolding provenance_def by auto
qed

subsection \<open>Publications\<close>

text \<open>The standing a freshly published version can have.\<close>

definition fresh :: "claim_disposition \<Rightarrow> bool" where
  "fresh d \<longleftrightarrow> d = Open \<or> d = ReducedTo \<or> d = Withdrawn"

lemma reset_version_frame [simp]:
  "prior_sequence (reset_version v s) = prior_sequence s"
  "current_version (reset_version v s) = Some v"
  "identity_withdrawn (reset_version v s) = identity_withdrawn s"
  "disposition (reset_version v s) = disposition s"
  "attempts (reset_version v s) = 0" "reviews (reset_version v s) = []"
  "artifact (reset_version v s) = False" "qualifying_artifacts (reset_version v s) = []"
  by (simp_all add: reset_version_def)

lemma reduce_frame [simp]:
  "prior_sequence (reduce_if_target t s) = prior_sequence s"
  "current_version (reduce_if_target t s) = current_version s"
  "identity_withdrawn (reduce_if_target t s) = identity_withdrawn s"
  "attempts (reduce_if_target t s) = attempts s" "reviews (reduce_if_target t s) = reviews s"
  "artifact (reduce_if_target t s) = artifact s"
  "qualifying_artifacts (reduce_if_target t s) = qualifying_artifacts s"
  by (auto simp: reduce_if_target_def split: option.split)

lemma reduce_fresh: "fresh (disposition s) \<Longrightarrow> fresh (disposition (reduce_if_target t s))"
  by (auto simp: reduce_if_target_def fresh_def apply_event_def evaluate_claim_transition_def
      transition_defs set_states split: option.split)

lemma reduce_withdrawn:
  "disposition s = Withdrawn \<Longrightarrow> disposition (reduce_if_target t s) = Withdrawn"
  by (auto simp: reduce_if_target_def apply_event_def evaluate_claim_transition_def
      transition_defs set_states split: option.split)

lemma fresh_ok: "fresh (disposition s) \<Longrightarrow> reviews s = [] \<Longrightarrow> attempts s = 0 \<Longrightarrow> ok_with {} s"
  by (auto simp: ok_with_def fresh_def published_def standing_ok_def)

lemma fresh_provenance:
  "reviews s = [] \<Longrightarrow> attempts s = 0 \<Longrightarrow> \<not> artifact s \<Longrightarrow> qualifying_artifacts s = [] \<Longrightarrow>
   provenance v es s"
  by (simp add: provenance_def)

lemma new_version_opens:
  "published d \<Longrightarrow> d \<noteq> Refuted \<Longrightarrow> d \<noteq> Withdrawn \<Longrightarrow>
   evaluate_claim_transition d (NewVersion v) ctx = Inr Open"
  by (cases d) (simp_all add: published_def evaluate_claim_transition_def transition_defs set_states)

lemma created_step_Inr:
  assumes "created_step v t s = Inr s'" and "disposition s = Draft"
  shows "v = 1 \<and> current_version s = None \<and> current_version s' = Some 1 \<and>
    fresh (disposition s') \<and> reviews s' = [] \<and> attempts s' = 0 \<and> \<not> artifact s' \<and>
    qualifying_artifacts s' = [] \<and> prior_sequence s' = prior_sequence s \<and>
    identity_withdrawn s' = identity_withdrawn s"
proof -
  have "fresh (disposition (apply_event Promote (reset_version 1 s)))"
    using assms(2)
    by (simp add: fresh_def apply_event_def evaluate_claim_transition_def transition_defs set_states)
  with assms(1) show ?thesis by (auto simp: created_step_def reduce_fresh split: if_splits)
qed

lemma revised_step_Inr:
  assumes "revised_step v t s = Inr s'" and "published (disposition s)"
  shows "current_version s = Some (v - 1) \<and> current_version s' = Some v \<and>
    fresh (disposition s') \<and> reviews s' = [] \<and> attempts s' = 0 \<and> \<not> artifact s' \<and>
    qualifying_artifacts s' = [] \<and> prior_sequence s' = prior_sequence s \<and>
    identity_withdrawn s' = identity_withdrawn s \<and>
    (identity_withdrawn s \<longrightarrow> disposition s' = Withdrawn)"
proof -
  from assms(1) have c: "current_version s = Some (v - 1)"
    by (auto simp: revised_step_def split: option.splits if_splits)
  define s1 where "s1 = (if identity_withdrawn s then s\<lparr>disposition := Withdrawn\<rparr>
      else if disposition s = Refuted \<or> disposition s = Withdrawn then s\<lparr>disposition := Open\<rparr>
      else apply_event (NewVersion v) s)"
  have s': "s' = reset_version v (reduce_if_target t s1)"
    using assms(1) c by (simp add: revised_step_def s1_def Let_def)
  have "fresh (disposition s1)"
    using assms(2) by (auto simp: s1_def fresh_def apply_event_def new_version_opens)
  then have "fresh (disposition (reduce_if_target t s1))" by (rule reduce_fresh)
  moreover have "prior_sequence s1 = prior_sequence s" "identity_withdrawn s1 = identity_withdrawn s"
    by (simp_all add: s1_def)
  moreover have "identity_withdrawn s \<longrightarrow> disposition s1 = Withdrawn" by (simp add: s1_def)
  ultimately show ?thesis using c by (auto simp: s' reduce_withdrawn)
qed

subsection \<open>The invariant of the fold\<close>

definition fold_inv :: "timeline_event list \<Rightarrow> fold_state \<Rightarrow> bool" where
  "fold_inv es s \<longleftrightarrow>
     (case current_version s of
        None \<Rightarrow> disposition s = Draft \<and> \<not> identity_withdrawn s
      | Some v \<Rightarrow> ok_now s \<and> provenance v es s \<and> 1 \<le> v)"

lemma timeline_step_Inr:
  assumes "timeline_step s e = Inr s'"
  obtains n v where "safe_int (sequence_of e) = Some n" "safe_int (pin_of e) = Some v"
      "prior_sequence s < n" "1 \<le> v"
      "is_publication e \<and> publication_step e v (s\<lparr>prior_sequence := n\<rparr>) = Inr s' \<or>
       \<not> is_publication e \<and> current_version s \<noteq> Some v \<and> s' = s\<lparr>prior_sequence := n\<rparr> \<or>
       \<not> is_publication e \<and> current_version s = Some v \<and> s' = head_step e (s\<lparr>prior_sequence := n\<rparr>)"
  using assms by (auto simp: timeline_step_def Let_def split: option.splits if_splits)

lemma ok_with_prior [simp]: "ok_with R (s\<lparr>prior_sequence := n\<rparr>) \<longleftrightarrow> ok_with R s"
  by (simp add: ok_with_def)

lemma provenance_mono:
  "provenance v es s \<Longrightarrow> provenance v (es @ [e]) (s\<lparr>prior_sequence := n\<rparr>)"
  by (auto simp: provenance_def)

lemma fold_inv_step:
  assumes "fold_inv es s" and "timeline_step s e = Inr s'"
  shows "fold_inv (es @ [e]) s'"
proof -
  from assms(2) obtain n v where e: "safe_int (pin_of e) = Some v" "1 \<le> v"
    and step: "is_publication e \<and> publication_step e v (s\<lparr>prior_sequence := n\<rparr>) = Inr s' \<or>
       \<not> is_publication e \<and> current_version s \<noteq> Some v \<and> s' = s\<lparr>prior_sequence := n\<rparr> \<or>
       \<not> is_publication e \<and> current_version s = Some v \<and> s' = head_step e (s\<lparr>prior_sequence := n\<rparr>)"
    by (rule timeline_step_Inr)
  have pin: "pin_of e = num v" using e(1) by (simp add: safe_int_eq_Some)
  from step consider
      (created) t where "created_step v t (s\<lparr>prior_sequence := n\<rparr>) = Inr s'"
    | (revised) t where "revised_step v t (s\<lparr>prior_sequence := n\<rparr>) = Inr s'"
    | (other) "s' = s\<lparr>prior_sequence := n\<rparr>"
    | (head) "current_version s = Some v" "s' = head_step e (s\<lparr>prior_sequence := n\<rparr>)"
    by (cases e) auto
  then show ?thesis
  proof cases
    case created
    then have "current_version s = None" by (auto simp: created_step_def split: if_splits)
    with assms(1) created_step_Inr [OF created] show ?thesis
      by (simp add: fold_inv_def fresh_ok fresh_provenance)
  next
    case revised
    then obtain c where "current_version s = Some c"
      by (auto simp: revised_step_def split: option.splits)
    with assms(1) have "published (disposition (s\<lparr>prior_sequence := n\<rparr>))"
      by (simp add: fold_inv_def ok_with_def)
    from revised_step_Inr [OF revised this] e(2) show ?thesis
      by (simp add: fold_inv_def fresh_ok fresh_provenance)
  next
    case other
    with assms(1) show ?thesis
      by (auto simp: fold_inv_def provenance_mono split: option.splits)
  next
    case head
    with assms(1) have "ok_now (s\<lparr>prior_sequence := n\<rparr>)" "provenance v es (s\<lparr>prior_sequence := n\<rparr>)"
      by (simp_all add: fold_inv_def provenance_def)
    with head e(2) pin show ?thesis
      by (simp add: fold_inv_def head_step_ok provenance_head_step)
  qed
qed

lemma fold_inv_run:
  assumes "timeline_fold initial_fold es = Inr s"
  shows "fold_inv es s"
  using assms unfolding timeline_fold_def
proof (induction rule: run_invariant)
  case start
  show ?case by (simp add: fold_inv_def initial_fold_def)
qed (rule fold_inv_step)

lemma set_by_sequence [simp]: "set (by_sequence es) = set es"
  by (simp add: by_sequence_def)

lemma compute_Inr:
  assumes "compute_current_claim_disposition es = Inr c"
  obtains s where "timeline_fold initial_fold (by_sequence es) = Inr s" "fold_inv (by_sequence es) s"
    "c = \<lparr>current_standing = disposition s, standing_version = current_version s,
          standing_context = fold_context s\<rparr>"
  using assms fold_inv_run
  by (auto simp: compute_current_claim_disposition_def split: sum.splits)

end
