(* ===== verification/DispositionTimeline.thy ===== *)
theory DispositionTimeline
  imports DispositionLaws
begin

section \<open>Properties of the claim-disposition read\<close>

text \<open>
  The public guarantees of \<open>computeCurrentClaimDisposition\<close>: what a favorable standing
  proves about the ledger rows of the current version, and that rows of other versions, the
  order of the rows and malformed rows cannot change or fake it.
\<close>

subsection \<open>A sample timeline\<close>

definition sample_core :: "string \<Rightarrow> string \<Rightarrow> unclassified_review" where
  "sample_core rid who =
     \<lparr>core_review_id = rid, core_reviewer_id = who, core_tier = T2, core_cross_family = True,
      core_full_write_up = True\<rparr>"

definition sample_attempt :: "int \<Rightarrow> int \<Rightarrow> timeline_event" where
  "sample_attempt n v =
     FalsificationAttempt (num n) (num v) ''A1'' None ''falsifier'' ''can fail'' ''survived''
       (Some [''E1'']) None"

definition sample_support :: "int \<Rightarrow> int \<Rightarrow> string \<Rightarrow> string \<Rightarrow> timeline_event" where
  "sample_support n v rid who =
     ReviewCreated (num n) (num v) True ''confirm'' None (sample_core rid who) None None"

definition sample_timeline :: "timeline_event list" where
  "sample_timeline =
     [ClaimCreated (num 1) (num 1) None, sample_support 2 1 ''R0'' ''F1'',
      ClaimRevised (num 3) (num 2) None, sample_attempt 4 2,
      sample_support 5 2 ''R1'' ''F2'', sample_support 6 2 ''R2'' ''F3'']"

lemma sample_timeline_result:
  "case compute_current_claim_disposition sample_timeline of
     Inl err \<Rightarrow> False
   | Inr c \<Rightarrow> current_standing c = StronglySupported \<and> standing_version c = Some 2"
  by code_simp

lemma sample_result:
  obtains c where "compute_current_claim_disposition sample_timeline = Inr c"
    "current_standing c = StronglySupported" "standing_version c = Some 2"
  using sample_timeline_result by (cases "compute_current_claim_disposition sample_timeline") auto

subsection \<open>Earned standing\<close>

lemma two_of_card:
  assumes "2 \<le> card (f ` X)"
  shows "\<exists>x \<in> X. \<exists>y \<in> X. f x \<noteq> f y"
proof (rule ccontr)
  assume no: "\<not> ?thesis"
  from assms have "X \<noteq> {}" by auto
  then obtain x where x: "x \<in> X" by blast
  with no have "f ` X = {f x}" by blast
  then have "card (f ` X) = 1" by simp
  with assms show False by simp
qed

lemma standing_provenance:
  assumes "compute_current_claim_disposition es = Inr c" and "current_standing c \<noteq> Draft"
  obtains v s where "standing_version c = Some v" "provenance v es s" "ok_now s"
    "disposition s = current_standing c"
proof -
  from assms(1) obtain s where "timeline_fold initial_fold (by_sequence es) = Inr s"
    and s: "fold_inv (by_sequence es) s"
    and c: "c = \<lparr>current_standing = disposition s, standing_version = current_version s,
      standing_context = fold_context s\<rparr>"
    by (rule compute_Inr)
  from c have st: "current_standing c = disposition s" "standing_version c = current_version s"
    by simp_all
  with s assms(2) obtain v where v: "current_version s = Some v"
    unfolding fold_inv_def by (auto split: option.splits)
  with s have "provenance v es s" "ok_now s" by (simp_all add: fold_inv_def provenance_def)
  with v st show ?thesis by (intro that [of v s]) simp_all
qed

text \<open>
  C26. Favorable standing of a claim head is earned on that exact version: when the read
  reports corroborated or strongly supported at version v, the timeline holds, pinned to v,
  a recorded refutation attempt and a weight-carrying supporting review that is not T0; when
  it reports strongly supported, also a supporting T2 or T3 review and either a certified
  artifact with an independent review of it or two cross-family full write-ups by different
  reviewers.
\<close>

theorem read_standing_is_earned:
  assumes "compute_current_claim_disposition es = Inr c"
    and "current_standing c = Corroborated \<or> current_standing c = StronglySupported"
  shows "\<exists>v. standing_version c = Some v \<and>
    (\<exists>e \<in> set es. attempt_event v e) \<and>
    (\<exists>e \<in> set es. \<exists>r. support_event v r e \<and> tier r \<noteq> T0) \<and>
    (current_standing c = StronglySupported \<longrightarrow>
      (\<exists>e \<in> set es. \<exists>r. support_event v r e \<and> (tier r = T2 \<or> tier r = T3)) \<and>
      ((\<exists>a. (\<exists>e \<in> set es. certifying_event v a e) \<and> (\<exists>e \<in> set es. artifact_event v a e)) \<or>
       (\<exists>e1 \<in> set es. \<exists>e2 \<in> set es. \<exists>r1 r2.
          support_event v r1 e1 \<and> support_event v r2 e2 \<and> reviewer_id r1 \<noteq> reviewer_id r2 \<and>
          cross_family r1 \<and> full_write_up r1 \<and> cross_family r2 \<and> full_write_up r2)))"
proof -
  from assms(2) have "current_standing c \<noteq> Draft" by auto
  with assms(1) obtain v s where v: "standing_version c = Some v" and p: "provenance v es s"
    and ok: "ok_now s" and d: "disposition s = current_standing c"
    by (rule standing_provenance)
  from ok d have st: "standing_ok (current_standing c) (attempts s) (set (reviews s)) (artifact s)"
    by (simp add: ok_with_def)
  from p have sup: "\<exists>e \<in> set es. support_event v r e" if "r \<in> set (reviews s)" for r
    using that by (simp add: provenance_def)
  have art: "(\<exists>a. (\<exists>e \<in> set es. certifying_event v a e) \<and> (\<exists>e \<in> set es. artifact_event v a e)) \<or>
       (\<exists>e1 \<in> set es. \<exists>e2 \<in> set es. \<exists>r1 r2.
          support_event v r1 e1 \<and> support_event v r2 e2 \<and> reviewer_id r1 \<noteq> reviewer_id r2 \<and>
          cross_family r1 \<and> full_write_up r1 \<and> cross_family r2 \<and> full_write_up r2)"
    if "current_standing c = StronglySupported"
  proof (cases "artifact s")
    case True
    with p show ?thesis by (auto simp: provenance_def)
  next
    case False
    with st that have "2 \<le> card (reviewer_id ` {r \<in> set (reviews s). cross_family r \<and>
        full_write_up r \<and> (tier r = T2 \<or> tier r = T3)})"
      by (simp add: standing_ok_def)
    from two_of_card [OF this] sup show ?thesis by blast
  qed
  from st assms(2) p have "\<exists>e \<in> set es. attempt_event v e"
    by (auto simp: standing_ok_def provenance_def)
  moreover from st assms(2) sup have "\<exists>e \<in> set es. \<exists>r. support_event v r e \<and> tier r \<noteq> T0"
    unfolding standing_ok_def by blast
  moreover from st sup have "\<exists>e \<in> set es. \<exists>r. support_event v r e \<and> (tier r = T2 \<or> tier r = T3)"
    if "current_standing c = StronglySupported"
    using that unfolding standing_ok_def by blast
  ultimately show ?thesis using v art by blast
qed

theorem read_standing_is_earned_witness:
  "\<exists>e \<in> set sample_timeline. \<exists>r. support_event 2 r e \<and> (tier r = T2 \<or> tier r = T3)"
proof -
  obtain c where "compute_current_claim_disposition sample_timeline = Inr c"
    "current_standing c = StronglySupported" "standing_version c = Some 2"
    by (rule sample_result)
  with read_standing_is_earned [of sample_timeline c] show ?thesis by auto
qed

subsection \<open>Strict sequences\<close>

lemma publication_step_prior:
  "publication_step e v s = Inr s' \<Longrightarrow> prior_sequence s' = prior_sequence s"
  by (cases e) (auto simp: created_step_def revised_step_def Let_def split: option.splits if_splits)

lemma timeline_step_prior:
  assumes "timeline_step s e = Inr s'"
  shows "safe_int (sequence_of e) = Some (prior_sequence s') \<and> prior_sequence s < prior_sequence s'"
  using assms
proof (rule timeline_step_Inr)
  fix n v
  assume "safe_int (sequence_of e) = Some n" "prior_sequence s < n"
    "is_publication e \<and> publication_step e v (s\<lparr>prior_sequence := n\<rparr>) = Inr s' \<or>
     \<not> is_publication e \<and> current_version s \<noteq> Some v \<and> s' = s\<lparr>prior_sequence := n\<rparr> \<or>
     \<not> is_publication e \<and> current_version s = Some v \<and> s' = head_step e (s\<lparr>prior_sequence := n\<rparr>)"
  then show ?thesis by (auto dest: publication_step_prior)
qed

lemma fold_sequences:
  assumes "timeline_fold initial_fold es = Inr s"
  shows "distinct (map sequence_of es) \<and>
    (\<forall>e \<in> set es. \<exists>n. safe_int (sequence_of e) = Some n \<and> n \<le> prior_sequence s)"
  using assms unfolding timeline_fold_def
proof (induction rule: run_invariant)
  case start
  show ?case by simp
next
  case (step xs a x b)
  from timeline_step_prior [OF step(2)]
  have x: "safe_int (sequence_of x) = Some (prior_sequence b)" "prior_sequence a < prior_sequence b"
    by auto
  with step(1) have "sequence_of x \<notin> set (map sequence_of xs)" by fastforce
  with step(1) x show ?case by fastforce
qed

lemma sequence_key_inj: "inj sequence_key"
proof (rule injI)
  fix x y assume "sequence_key x = sequence_key y"
  then show "x = y" by (cases x; cases y) simp_all
qed

lemma fold_permuted:
  assumes "timeline_fold initial_fold (by_sequence es) = Inr s" and "mset es = mset es'"
  shows "by_sequence es' = by_sequence es"
proof -
  from fold_sequences [OF assms(1)] have d: "distinct (map sequence_of (by_sequence es))" by blast
  then have "inj_on sequence_of (set es)" by (simp add: distinct_map)
  then have "inj_on (\<lambda>e. sequence_key (sequence_of e)) (set es')"
    using sequence_key_inj mset_eq_setD [OF assms(2)] by (auto simp: inj_on_def inj_def)
  moreover have "mset es' = mset (by_sequence es)" using assms(2) by (simp add: by_sequence_def)
  ultimately show ?thesis
    unfolding by_sequence_def by (intro sort_key_inj_key_eq) simp_all
qed

text \<open>
  The order of the input rows does not matter: two timelines with the same events, in
  any order, give the same standing, or are both refused.
\<close>

theorem read_ignores_row_order:
  assumes "mset es = mset es'"
  shows "compute_current_claim_disposition es = compute_current_claim_disposition es' \<or>
    is_error (compute_current_claim_disposition es) \<and> is_error (compute_current_claim_disposition es')"
proof (cases "\<exists>s. timeline_fold initial_fold (by_sequence es) = Inr s \<or>
    timeline_fold initial_fold (by_sequence es') = Inr s")
  case True
  then have "by_sequence es' = by_sequence es"
    using fold_permuted assms by metis
  then show ?thesis by (simp add: compute_current_claim_disposition_def)
next
  case False
  then show ?thesis
    by (auto simp: compute_current_claim_disposition_def is_error_def split: sum.split)
qed

theorem read_ignores_row_order_example:
  "compute_current_claim_disposition (rev sample_timeline) =
   compute_current_claim_disposition sample_timeline"
proof -
  obtain c where "compute_current_claim_disposition sample_timeline = Inr c"
    by (rule sample_result)
  with read_ignores_row_order [of "rev sample_timeline" sample_timeline] show ?thesis by simp
qed

subsection \<open>Malformed timelines\<close>

definition unsafe_event :: "timeline_event \<Rightarrow> bool" where
  "unsafe_event e \<longleftrightarrow> safe_int (sequence_of e) = None \<or> safe_int (pin_of e) = None"

lemma unsafe_event_is_error:
  assumes "e \<in> set es" and "unsafe_event e"
  shows "is_error (timeline_fold s es)"
  unfolding timeline_fold_def
proof (rule run_error_at [OF assms(1)])
  show "is_error (timeline_step s e)" for s
    using assms(2) by (auto simp: timeline_step_def unsafe_event_def split: option.split)
qed

text \<open>The number of publications among the processed events is the current version.\<close>

definition publications :: "timeline_event list \<Rightarrow> int" where
  "publications es = int (length (filter is_publication es))"

lemma version_counts_publications:
  assumes "timeline_fold initial_fold es = Inr s"
  shows "current_version s = (if publications es = 0 then None else Some (publications es))"
  using assms unfolding timeline_fold_def
proof (induction rule: run_invariant)
  case start
  show ?case by (simp add: publications_def initial_fold_def)
next
  case (step xs a x b)
  from step(2) show ?case
  proof (rule timeline_step_Inr)
    fix n v
    assume "is_publication x \<and> publication_step x v (a\<lparr>prior_sequence := n\<rparr>) = Inr b \<or>
      \<not> is_publication x \<and> current_version a \<noteq> Some v \<and> b = a\<lparr>prior_sequence := n\<rparr> \<or>
      \<not> is_publication x \<and> current_version a = Some v \<and> b = head_step x (a\<lparr>prior_sequence := n\<rparr>)"
    with step(1) show ?thesis
      by (cases x) (auto simp: publications_def created_step_def revised_step_def Let_def
          split: option.splits if_splits)
  qed
qed

lemma fold_positive:
  assumes "timeline_fold initial_fold es = Inr s"
  shows "0 \<le> prior_sequence s \<and>
    (\<forall>e \<in> set es. \<exists>n v. safe_int (sequence_of e) = Some n \<and> safe_int (pin_of e) = Some v \<and>
       1 \<le> n \<and> 1 \<le> v)"
  using assms unfolding timeline_fold_def
proof (induction rule: run_invariant)
  case start
  show ?case by (simp add: initial_fold_def)
next
  case (step xs a x b)
  from timeline_step_prior [OF step(2)]
  have x: "safe_int (sequence_of x) = Some (prior_sequence b)" "prior_sequence a < prior_sequence b"
    by auto
  moreover obtain v where "safe_int (pin_of x) = Some v" "1 \<le> v"
    using step(2) by (rule timeline_step_Inr)
  ultimately show ?case using step(1) by fastforce
qed

text \<open>
  A reported standing comes from a well-formed timeline: every sequence and version is a
  positive safe integer, no two events share a sequence, and the reported version is the
  number of publications; a malformed timeline gives an error and never a standing.
\<close>

theorem read_accepts_only_strict_timelines:
  assumes "compute_current_claim_disposition es = Inr c"
  shows "distinct (map sequence_of es) \<and>
    (\<forall>e \<in> set es. \<exists>n v. sequence_of e = num n \<and> pin_of e = num v \<and> 1 \<le> n \<and> 1 \<le> v \<and>
        n \<le> max_safe_integer \<and> v \<le> max_safe_integer) \<and>
    standing_version c = (if publications es = 0 then None else Some (publications es))"
proof -
  from assms obtain s where s: "timeline_fold initial_fold (by_sequence es) = Inr s"
    "fold_inv (by_sequence es) s" "c = \<lparr>current_standing = disposition s,
      standing_version = current_version s, standing_context = fold_context s\<rparr>"
    by (rule compute_Inr)
  from fold_sequences [OF s(1)] have "distinct (map sequence_of (by_sequence es))" by blast
  moreover have "mset (map sequence_of (by_sequence es)) = mset (map sequence_of es)"
    by (simp add: by_sequence_def)
  ultimately have "distinct (map sequence_of es)"
    using mset_eq_imp_distinct_iff by blast
  moreover have "\<forall>e \<in> set es. \<exists>n v. sequence_of e = num n \<and> pin_of e = num v \<and> 1 \<le> n \<and> 1 \<le> v \<and>
        n \<le> max_safe_integer \<and> v \<le> max_safe_integer"
    using fold_positive [OF s(1)] by (fastforce simp: safe_int_eq_Some)
  moreover have "publications (by_sequence es) = publications es"
    unfolding publications_def by_sequence_def
    by (metis mset_filter mset_sort size_mset)
  ultimately show ?thesis using version_counts_publications [OF s(1)] s(3) by simp
qed

theorem read_accepts_only_strict_timelines_example:
  "publications sample_timeline = 2"
proof -
  obtain c where "compute_current_claim_disposition sample_timeline = Inr c"
    "current_standing c = StronglySupported" "standing_version c = Some 2"
    by (rule sample_result)
  with read_accepts_only_strict_timelines [of sample_timeline c] show ?thesis
    by (auto split: if_splits)
qed

subsection \<open>Rows of other versions\<close>

text \<open>The rows that can matter for version \<open>v\<close>.\<close>

fun withdraws_identity :: "timeline_event \<Rightarrow> bool" where
  "withdraws_identity (ClaimRetracted n p reason whole) \<longleftrightarrow> whole \<noteq> Some False"
| "withdraws_identity _ \<longleftrightarrow> False"

definition relevant :: "int \<Rightarrow> timeline_event \<Rightarrow> bool" where
  "relevant v e \<longleftrightarrow> is_publication e \<or> pin_of e = num v \<or> withdraws_identity e"

text \<open>
  The full fold and the fold of the relevant rows agree on the version and the withdrawal,
  and on everything but the sequence once version \<open>v\<close> is the head.
\<close>

definition agree :: "int \<Rightarrow> fold_state \<Rightarrow> fold_state \<Rightarrow> bool" where
  "agree v s t \<longleftrightarrow>
     prior_sequence t \<le> prior_sequence s \<and> current_version t = current_version s \<and>
     identity_withdrawn t = identity_withdrawn s \<and>
     (current_version s = None \<longrightarrow> disposition s = Draft \<and> disposition t = Draft) \<and>
     (current_version s \<noteq> None \<longrightarrow> published (disposition s) \<and> published (disposition t)) \<and>
     (current_version s = Some v \<longrightarrow> t = s\<lparr>prior_sequence := prior_sequence t\<rparr>)"

lemma reduce_same_disposition:
  "disposition s = disposition t \<Longrightarrow>
   disposition (reduce_if_target g s) = disposition (reduce_if_target g t)"
  by (cases g) (simp_all add: reduce_if_target_def apply_event_def evaluate_claim_transition_def)

lemma reset_version_cong:
  "prior_sequence s = prior_sequence t \<Longrightarrow> identity_withdrawn s = identity_withdrawn t \<Longrightarrow>
   disposition s = disposition t \<Longrightarrow> reset_version v s = reset_version v t"
  by (simp add: reset_version_def)

lemma created_step_cong:
  assumes "created_step w g s = Inr s'" and "current_version t = current_version s"
    and "prior_sequence t = prior_sequence s" and "identity_withdrawn t = identity_withdrawn s"
    and "disposition t = disposition s"
  shows "created_step w g t = Inr s'"
  using assms reset_version_cong [of t s 1] by (simp add: created_step_def split: if_splits)

lemma revised_step_cong:
  assumes "revised_step w g s = Inr s'" and "current_version t = current_version s"
    and "prior_sequence t = prior_sequence s" and "identity_withdrawn t = identity_withdrawn s"
    and "published (disposition s)" and "published (disposition t)"
  shows "revised_step w g t = Inr s'"
proof -
  define f where "f s = (if identity_withdrawn s then s\<lparr>disposition := Withdrawn\<rparr>
      else if disposition s = Refuted \<or> disposition s = Withdrawn then s\<lparr>disposition := Open\<rparr>
      else apply_event (NewVersion w) s)" for s
  have "disposition (f s) = disposition (f t)" "prior_sequence (f s) = prior_sequence (f t)"
    "identity_withdrawn (f s) = identity_withdrawn (f t)"
    using assms(3-6) by (simp_all add: f_def apply_event_def new_version_opens)
  then have same: "reset_version w (reduce_if_target g (f s)) = reset_version w (reduce_if_target g (f t))"
    by (intro reset_version_cong reduce_same_disposition) simp_all
  obtain c where c: "current_version s = Some c" "w = c + 1"
    using assms(1) by (auto simp: revised_step_def split: option.splits if_splits)
  have "revised_step w g u = Inr (reset_version w (reduce_if_target g (f u)))"
    if "current_version u = Some c" for u
    using that c(2) by (simp add: revised_step_def f_def Let_def)
  with c same assms(1,2) show ?thesis by simp
qed

lemma fresh_published: "fresh d \<Longrightarrow> published d"
  by (auto simp: fresh_def published_def)

lemma publication_step_cong:
  assumes "is_publication e" and "publication_step e w s = Inr s'"
    and "current_version t = current_version s" and "prior_sequence t = prior_sequence s"
    and "identity_withdrawn t = identity_withdrawn s"
    and "current_version s = None \<longrightarrow> disposition s = Draft \<and> disposition t = Draft"
    and "current_version s \<noteq> None \<longrightarrow> published (disposition s) \<and> published (disposition t)"
  shows "publication_step e w t = Inr s' \<and> current_version s' \<noteq> None \<and> published (disposition s')"
proof (cases "\<exists>n v g. e = ClaimCreated n v g")
  case True
  then obtain g where "\<And>u. publication_step e w u = created_step w g u" by auto
  note eq = this
  have c: "created_step w g s = Inr s'" using assms(2) eq by simp
  then have none: "current_version s = None" by (simp add: created_step_def split: if_splits)
  with assms(6) have d: "disposition s = Draft" "disposition t = Draft" by simp_all
  show ?thesis
    using created_step_Inr [OF c d(1)] created_step_cong [OF c assms(3-5)] d
    unfolding eq by (simp add: fresh_published)
next
  case False
  with assms(1) obtain g where "\<And>u. publication_step e w u = revised_step w g u" by (cases e) auto
  note eq = this
  have c: "revised_step w g s = Inr s'" using assms(2) eq by simp
  then have "current_version s \<noteq> None" by (auto simp: revised_step_def split: option.splits)
  with assms(7) have d: "published (disposition s)" "published (disposition t)" by simp_all
  show ?thesis
    using revised_step_Inr [OF c d(1)] revised_step_cong [OF c assms(3-5) d]
    unfolding eq by (simp add: fresh_published)
qed

lemma head_step_published:
  "published (disposition s) \<Longrightarrow> published (disposition (head_step e s))"
  by (cases e)
    (auto simp: retracted_step_def attempt_step_def refuting_step_def review_step_def Let_def
      intro!: apply_event_published apply_support_published split: option.split)

lemma head_step_identity:
  "identity_withdrawn (head_step e s) \<longleftrightarrow> identity_withdrawn s \<or> withdraws_identity e"
  by (cases e) (auto simp: retracted_step_def)

lemma prior_update_twice: "s\<lparr>prior_sequence := m, prior_sequence := n\<rparr> = s\<lparr>prior_sequence := n\<rparr>"
  by simp

lemma agree_skip:
  assumes "agree v s t" and "timeline_step s e = Inr s'" and "\<not> relevant v e"
  shows "agree v s' t"
  using assms(2)
proof (rule timeline_step_Inr)
  fix n w
  assume e: "safe_int (sequence_of e) = Some n" "safe_int (pin_of e) = Some w" "prior_sequence s < n"
    and step: "is_publication e \<and> publication_step e w (s\<lparr>prior_sequence := n\<rparr>) = Inr s' \<or>
      \<not> is_publication e \<and> current_version s \<noteq> Some w \<and> s' = s\<lparr>prior_sequence := n\<rparr> \<or>
      \<not> is_publication e \<and> current_version s = Some w \<and> s' = head_step e (s\<lparr>prior_sequence := n\<rparr>)"
  from e(2) assms(3) have nw: "w \<noteq> v" "\<not> is_publication e" "\<not> withdraws_identity e"
    by (auto simp: relevant_def safe_int_eq_Some)
  with step consider "s' = s\<lparr>prior_sequence := n\<rparr>"
    | "current_version s = Some w" "s' = head_step e (s\<lparr>prior_sequence := n\<rparr>)" by blast
  then show ?thesis
  proof cases
    case 1
    with assms(1) e(3) show ?thesis by (auto simp: agree_def)
  next
    case 2
    with assms(1) e(3) nw show ?thesis
      by (auto simp: agree_def head_step_identity head_step_published)
  qed
qed

lemma agree_keep:
  assumes "agree v s t" and "timeline_step s e = Inr s'" and "relevant v e"
  shows "\<exists>t'. timeline_step t e = Inr t' \<and> agree v s' t'"
  using assms(2)
proof (rule timeline_step_Inr)
  fix n w
  assume e: "safe_int (sequence_of e) = Some n" "safe_int (pin_of e) = Some w"
      "prior_sequence s < n" "1 \<le> w"
    and step: "is_publication e \<and> publication_step e w (s\<lparr>prior_sequence := n\<rparr>) = Inr s' \<or>
      \<not> is_publication e \<and> current_version s \<noteq> Some w \<and> s' = s\<lparr>prior_sequence := n\<rparr> \<or>
      \<not> is_publication e \<and> current_version s = Some w \<and> s' = head_step e (s\<lparr>prior_sequence := n\<rparr>)"
  let ?s = "s\<lparr>prior_sequence := n\<rparr>" and ?t = "t\<lparr>prior_sequence := n\<rparr>"
  have cv: "current_version t = current_version s" and le: "prior_sequence t < n"
    using assms(1) e(3) by (auto simp: agree_def)
  have t: "timeline_step t e =
      (if is_publication e then publication_step e w ?t
       else if current_version s \<noteq> Some w then Inr ?t else Inr (head_step e ?t))"
    using e le cv by (simp add: timeline_step_def)
  have same: "?t = ?s" if "current_version s = Some v"
  proof -
    from assms(1) that have "t = s\<lparr>prior_sequence := prior_sequence t\<rparr>" by (simp add: agree_def)
    then show ?thesis by (metis prior_update_twice)
  qed
  from step consider
      (pub) "is_publication e" "publication_step e w ?s = Inr s'"
    | (other) "\<not> is_publication e" "current_version s \<noteq> Some w" "s' = ?s"
    | (head) "\<not> is_publication e" "current_version s = Some w" "s' = head_step e ?s" by blast
  then show ?thesis
  proof cases
    case pub
    have "publication_step e w ?t = Inr s' \<and> current_version s' \<noteq> None \<and> published (disposition s')"
      by (rule publication_step_cong [OF pub]) (use assms(1) in \<open>auto simp: agree_def\<close>)
    then show ?thesis using t pub by (auto simp: agree_def)
  next
    case other
    with assms(1) t same show ?thesis by (auto simp: agree_def)
  next
    case head
    show ?thesis
    proof (cases "w = v")
      case True
      with head same have "?t = ?s" by blast
      with t head assms(1) show ?thesis by (auto simp: agree_def head_step_published)
    next
      case False
      with t head assms(1) show ?thesis by (auto simp: agree_def head_step_published head_step_identity)
    qed
  qed
qed

lemma relevant_fold:
  assumes "timeline_fold initial_fold es = Inr s"
  shows "\<exists>t. timeline_fold initial_fold (filter (relevant v) es) = Inr t \<and> agree v s t"
  using assms unfolding timeline_fold_def
proof (induction rule: run_invariant)
  case start
  show ?case by (simp add: agree_def initial_fold_def)
next
  case (step xs a x b)
  then obtain t where t: "run_until_error timeline_step initial_fold (filter (relevant v) xs) = Inr t"
    "agree v a t" by blast
  show ?case
  proof (cases "relevant v x")
    case True
    with agree_keep [OF t(2) step(2)] t(1) show ?thesis by (auto simp: run_append)
  next
    case False
    with agree_skip [OF t(2) step(2)] t(1) show ?thesis by auto
  qed
qed

lemma by_sequence_filter: "by_sequence (filter P es) = filter P (by_sequence es)"
  by (simp add: by_sequence_def filter_sort)

text \<open>
  C27. A review of one version never moves another: when the read reports version v, dropping
  every row that is neither a publication nor pinned to v nor a withdrawal of the whole
  identity leaves standing, version and context unchanged.
\<close>

theorem other_versions_are_irrelevant:
  assumes "compute_current_claim_disposition es = Inr c" and "standing_version c = Some v"
  shows "compute_current_claim_disposition (filter (relevant v) es) = Inr c"
proof -
  from assms(1) obtain s where s: "timeline_fold initial_fold (by_sequence es) = Inr s"
    "fold_inv (by_sequence es) s"
    and c: "c = \<lparr>current_standing = disposition s,
      standing_version = current_version s, standing_context = fold_context s\<rparr>"
    by (rule compute_Inr)
  from relevant_fold [OF s(1), of v] obtain t where
    t: "timeline_fold initial_fold (by_sequence (filter (relevant v) es)) = Inr t" "agree v s t"
    by (auto simp: by_sequence_filter)
  from assms(2) c have "current_version s = Some v" by simp
  with t(2) obtain p where "t = s\<lparr>prior_sequence := p\<rparr>" by (auto simp: agree_def)
  then have "disposition t = disposition s" "current_version t = current_version s"
    "fold_context t = fold_context s"
    by (simp_all add: fold_context_def)
  with t(1) c show ?thesis by (simp add: compute_current_claim_disposition_def)
qed

theorem other_versions_are_irrelevant_witness:
  "\<exists>c. compute_current_claim_disposition
         [ClaimCreated (num 1) (num 1) None, ClaimRevised (num 3) (num 2) None, sample_attempt 4 2,
          sample_support 5 2 ''R1'' ''F2'', sample_support 6 2 ''R2'' ''F3''] = Inr c \<and>
       current_standing c = StronglySupported"
proof -
  obtain c where "compute_current_claim_disposition sample_timeline = Inr c"
    "current_standing c = StronglySupported" "standing_version c = Some 2"
    by (rule sample_result)
  with other_versions_are_irrelevant [of sample_timeline c 2] show ?thesis
    by (simp add: sample_timeline_def relevant_def sample_support_def sample_attempt_def)
qed

subsection \<open>Withdrawal of the whole identity\<close>

definition dead :: "claim_disposition \<Rightarrow> bool" where
  "dead d \<longleftrightarrow> d = Withdrawn \<or> d = Refuted \<or> d = Malformed"

definition withdrawn_for_good :: "fold_state \<Rightarrow> bool" where
  "withdrawn_for_good s \<longleftrightarrow>
     current_version s \<noteq> None \<and> identity_withdrawn s \<and> dead (disposition s)"

lemma dead_apply [simp]:
  "dead (disposition s) \<Longrightarrow> \<not> is_operator_repair e \<Longrightarrow> \<not> is_new_version e \<Longrightarrow>
   disposition (apply_event e s) = disposition s"
  by (cases e)
    (auto simp: dead_def apply_event_def evaluate_claim_transition_def transition_defs set_states)

lemma dead_support [simp]:
  "dead (disposition s) \<Longrightarrow> disposition (apply_support r s) = disposition s"
  by (auto simp: apply_support_def Let_def dead_def)

lemma dead_head_step: "dead (disposition s) \<Longrightarrow> disposition (head_step e s) = disposition s"
  by (cases e)
    (auto simp: retracted_step_def attempt_step_def refuting_step_def review_step_def Let_def
      split: option.split)

lemma withdrawn_step:
  assumes "withdrawn_for_good s" and "timeline_step s e = Inr s'"
  shows "withdrawn_for_good s'"
  using assms(2)
proof (rule timeline_step_Inr)
  fix n w
  assume "is_publication e \<and> publication_step e w (s\<lparr>prior_sequence := n\<rparr>) = Inr s' \<or>
      \<not> is_publication e \<and> current_version s \<noteq> Some w \<and> s' = s\<lparr>prior_sequence := n\<rparr> \<or>
      \<not> is_publication e \<and> current_version s = Some w \<and> s' = head_step e (s\<lparr>prior_sequence := n\<rparr>)"
  then consider (revised) g where "revised_step w g (s\<lparr>prior_sequence := n\<rparr>) = Inr s'"
    | (created) g where "created_step w g (s\<lparr>prior_sequence := n\<rparr>) = Inr s'"
    | (other) "s' = s\<lparr>prior_sequence := n\<rparr>"
    | (head) "s' = head_step e (s\<lparr>prior_sequence := n\<rparr>)"
    by (cases e) auto
  then show ?thesis
  proof cases
    case revised
    have "published (disposition (s\<lparr>prior_sequence := n\<rparr>))"
      using assms(1) by (auto simp: withdrawn_for_good_def dead_def published_def)
    from revised_step_Inr [OF revised this] assms(1) show ?thesis
      by (simp add: withdrawn_for_good_def dead_def)
  next
    case created
    with assms(1) show ?thesis by (simp add: created_step_def withdrawn_for_good_def split: if_splits)
  next
    case other
    with assms(1) show ?thesis by (simp add: withdrawn_for_good_def)
  next
    case head
    with assms(1) show ?thesis
      by (simp add: withdrawn_for_good_def dead_head_step head_step_identity)
  qed
qed

lemma withdrawn_run:
  "run_until_error timeline_step s es = Inr s' \<Longrightarrow> withdrawn_for_good s \<Longrightarrow> withdrawn_for_good s'"
  by (induction es arbitrary: s) (auto split: sum.splits dest: withdrawn_step)

lemma retraction_withdraws:
  assumes "ok_now s" and "current_version s = Some v" and "whole \<noteq> Some False"
  shows "withdrawn_for_good (retracted_step whole s)"
  using assms by (cases "disposition s")
    (simp_all add: ok_with_def published_def retracted_step_def apply_event_def
      evaluate_claim_transition_def transition_defs set_states withdrawn_for_good_def dead_def)

text \<open>
  C32. Withdrawing a whole identity is final: once the author retracts the whole claim while
  version v is its head, no later row, not even a revision, gives the claim a live standing;
  the read reports it withdrawn, or as the refuted or malformed claim it already was.
\<close>

theorem withdrawn_identity_never_revives:
  assumes "by_sequence es = xs @ ClaimRetracted n (num v) reason whole # ys"
    and "whole \<noteq> Some False"
    and "timeline_fold initial_fold xs = Inr s" and "current_version s = Some v"
    and "compute_current_claim_disposition es = Inr c"
  shows "current_standing c \<in> {Withdrawn, Refuted, Malformed}"
proof -
  from assms(5) obtain u where u: "timeline_fold initial_fold (by_sequence es) = Inr u"
    "fold_inv (by_sequence es) u"
    "c = \<lparr>current_standing = disposition u, standing_version = current_version u,
      standing_context = fold_context u\<rparr>"
    by (rule compute_Inr)
  from u(1) assms(1,3) obtain t where
    t: "timeline_step s (ClaimRetracted n (num v) reason whole) = Inr t"
    "run_until_error timeline_step t ys = Inr u"
    by (auto simp: timeline_fold_def run_append split: sum.splits)
  have ok: "ok_now s" using fold_inv_run [OF assms(3)] assms(4) by (simp add: fold_inv_def)
  from t(1) have "withdrawn_for_good t"
  proof (rule timeline_step_Inr)
    fix m w
    assume a: "safe_int (pin_of (ClaimRetracted n (num v) reason whole)) = Some w"
      and "is_publication (ClaimRetracted n (num v) reason whole) \<and>
         publication_step (ClaimRetracted n (num v) reason whole) w (s\<lparr>prior_sequence := m\<rparr>) = Inr t \<or>
        \<not> is_publication (ClaimRetracted n (num v) reason whole) \<and> current_version s \<noteq> Some w \<and>
         t = s\<lparr>prior_sequence := m\<rparr> \<or>
        \<not> is_publication (ClaimRetracted n (num v) reason whole) \<and> current_version s = Some w \<and>
         t = head_step (ClaimRetracted n (num v) reason whole) (s\<lparr>prior_sequence := m\<rparr>)"
    moreover from a have "w = v" by (simp split: if_splits)
    ultimately have "t = retracted_step whole (s\<lparr>prior_sequence := m\<rparr>)" using assms(4) by simp
    with ok assms(2,4) show ?thesis by (simp add: retraction_withdraws)
  qed
  with t(2) have "withdrawn_for_good u" by (rule withdrawn_run)
  with u(3) show ?thesis by (auto simp: withdrawn_for_good_def dead_def)
qed

definition retracted_timeline :: "timeline_event list" where
  "retracted_timeline =
     [ClaimCreated (num 1) (num 1) None, ClaimRetracted (num 2) (num 1) ''superseded work'' None,
      ClaimRevised (num 3) (num 2) None, sample_attempt 4 2, sample_support 5 2 ''R1'' ''F2'']"

theorem withdrawn_identity_never_revives_witness:
  "case compute_current_claim_disposition retracted_timeline of
     Inl err \<Rightarrow> False | Inr c \<Rightarrow> current_standing c \<in> {Withdrawn, Refuted, Malformed}"
proof -
  let ?created = "ClaimCreated (num 1) (num 1) None"
  obtain s where s: "timeline_fold initial_fold [?created] = Inr s"
  proof (cases "timeline_fold initial_fold [?created]")
    case (Inl err)
    moreover have "case timeline_fold initial_fold [?created] of Inl _ \<Rightarrow> False | Inr _ \<Rightarrow> True"
      by code_simp
    ultimately show ?thesis by simp
  qed (rule that)
  then have v: "current_version s = Some 1"
    using version_counts_publications [OF s] by (simp add: publications_def)
  obtain c where c: "compute_current_claim_disposition retracted_timeline = Inr c"
  proof (cases "compute_current_claim_disposition retracted_timeline")
    case (Inl err)
    moreover have "case compute_current_claim_disposition retracted_timeline of
        Inl _ \<Rightarrow> False | Inr _ \<Rightarrow> True" by code_simp
    ultimately show ?thesis by simp
  qed (rule that)
  have "by_sequence retracted_timeline = [?created] @
      ClaimRetracted (num 2) (num 1) ''superseded work'' None # drop 2 retracted_timeline"
    by (simp add: by_sequence_def retracted_timeline_def sample_attempt_def sample_support_def)
  from withdrawn_identity_never_revives [OF this _ s v c] c show ?thesis by simp
qed

end
