(* ===== verification/EvidencePolicy.thy ===== *)
theory EvidencePolicy
  imports Dispositions
begin

section \<open>Evidence classes, the review gate and review independence\<close>

text \<open>
  The three policy functions a publication passes through, from
  \<open>ledger/evidence-class.ts\<close>, \<open>ledger/review-gate.ts\<close> and
  \<open>ledger/review-independence.ts\<close>. An optional field is an \<open>option\<close>; fields the code
  never reads are left out of the records.
\<close>

subsection \<open>Evidence classes\<close>

datatype evidence_class = Assertion | Heuristic | Citation | Computation | Certified

fun class_rank :: "evidence_class \<Rightarrow> nat" where
  "class_rank Assertion = 0"
| "class_rank Heuristic = 1"
| "class_rank Citation = 2"
| "class_rank Computation = 3"
| "class_rank Certified = 4"

instantiation evidence_class :: linorder
begin

definition less_eq_evidence_class :: "evidence_class \<Rightarrow> evidence_class \<Rightarrow> bool" where
  "less_eq_evidence_class a b \<longleftrightarrow> class_rank a \<le> class_rank b"

definition less_evidence_class :: "evidence_class \<Rightarrow> evidence_class \<Rightarrow> bool" where
  "less_evidence_class a b \<longleftrightarrow> class_rank a < class_rank b"

instance
proof
  fix a b :: evidence_class
  show "a \<le> b \<Longrightarrow> b \<le> a \<Longrightarrow> a = b"
    by (cases a; cases b) (simp_all add: less_eq_evidence_class_def)
qed (auto simp: less_eq_evidence_class_def less_evidence_class_def)

end

lemma class_rank_le: "class_rank a \<le> class_rank b \<longleftrightarrow> a \<le> b"
  and class_rank_less: "class_rank a < class_rank b \<longleftrightarrow> a < b"
  by (simp_all add: less_eq_evidence_class_def less_evidence_class_def)

lemma class_rank_inj: "class_rank a = class_rank b \<longleftrightarrow> a = b"
  by (cases a; cases b) simp_all

datatype source_kind = Locator | ModelMemory

record evidence_source =
  source_kind :: source_kind
  source_locator :: "string option"
  source_excerpt :: "string option"

record certified_artifact =
  shape_check_digest :: "string option"
  independent_review_confirmed :: "bool option"

datatype evidence_mode = Exploratory | Confirmatory

text \<open>A computation is its optional \<open>domainOrFloor\<close>.\<close>

record evidence_input =
  evidence_source :: evidence_source
  computation :: "string option option"
  certified_artifact :: "certified_artifact option"
  selected_hypothesis :: "bool option"
  evidence_mode :: evidence_mode

datatype evidence_flag =
  P8ModelMemoryCapsAtAssertion
| CertifiedRequiresShapeCheckPlusIndependentReview
| P5NoDetectionFloorCoercedToHeuristic
| P8LocatorWithoutExcerptIsNotACitation

record evidence_assessment =
  assessed_class :: evidence_class
  flags :: "evidence_flag list"

text \<open>Present and not empty.\<close>

definition filled :: "string option \<Rightarrow> bool" where
  "filled s \<longleftrightarrow> (case s of None \<Rightarrow> False | Some t \<Rightarrow> length t > 0)"

definition assessment :: "evidence_class \<Rightarrow> evidence_flag list \<Rightarrow> evidence_assessment" where
  "assessment k fs = \<lparr>assessed_class = k, flags = fs\<rparr>"

definition assess_evidence_class :: "evidence_input \<Rightarrow> evidence_assessment" where
  "assess_evidence_class input =
     (if source_kind (evidence_source input) = ModelMemory
      then assessment Assertion [P8ModelMemoryCapsAtAssertion]
      else
        let has_locator = (source_kind (evidence_source input) = Locator \<and>
              filled (source_locator (evidence_source input)));
            has_excerpt = filled (source_excerpt (evidence_source input))
        in case certified_artifact input of
             Some artifact \<Rightarrow>
               if shape_check_digest artifact \<noteq> None \<and>
                  independent_review_confirmed artifact = Some True
               then assessment Certified []
               else assessment Computation [CertifiedRequiresShapeCheckPlusIndependentReview]
           | None \<Rightarrow>
               (case computation input of
                  Some floor_or_domain \<Rightarrow>
                    if \<not> filled floor_or_domain
                    then assessment Heuristic [P5NoDetectionFloorCoercedToHeuristic]
                    else assessment Computation []
                | None \<Rightarrow>
                    if has_locator \<and> has_excerpt then assessment Citation []
                    else if has_locator \<and> \<not> has_excerpt
                      then assessment Assertion [P8LocatorWithoutExcerptIsNotACitation]
                    else assessment Assertion []))"

definition can_drive_promotion :: "evidence_assessment \<Rightarrow> evidence_mode \<Rightarrow> bool" where
  "can_drive_promotion a mode \<longleftrightarrow> mode = Confirmatory"

subsection \<open>The review gate\<close>

definition verdicts :: "string list" where
  "verdicts = [''confirm'', ''refute'', ''inform'', ''bounds'', ''reproduces'',
     ''fails-to-reproduce'', ''cannot-verify'']"

record review_submission =
  submitted_verdict :: string
  capable_of_failure :: "string option"
  body_md :: string
  has_novelty :: "bool option"

datatype review_refusal =
  ReviewerIsAuthor | ReviewVerdictUnknown | ReviewBodyEmpty | NoveltyReviewRequired
| NoveltyReviewNotApplicable | NoveltyReviewVerdictNotInform

definition reviewer_is_author :: "string \<Rightarrow> string \<Rightarrow> bool" where
  "reviewer_is_author author reviewer \<longleftrightarrow> author = reviewer"

text \<open>\<open>Inr w\<close> accepts the review, carrying weight iff \<open>w\<close>.\<close>

definition gate_review_submission ::
  "review_submission \<Rightarrow> string \<Rightarrow> string \<Rightarrow> string option \<Rightarrow> review_refusal + bool" where
  "gate_review_submission submission author reviewer claim_kind =
     (if reviewer_is_author author reviewer then Inl ReviewerIsAuthor
      else if submitted_verdict submission \<notin> set verdicts then Inl ReviewVerdictUnknown
      else
        let is_novelty_claim = (claim_kind = Some ''novelty-claim'')
        in if is_novelty_claim \<and> has_novelty submission \<noteq> Some True
             then Inl NoveltyReviewRequired
           else if \<not> is_novelty_claim \<and> has_novelty submission = Some True
             then Inl NoveltyReviewNotApplicable
           else if is_novelty_claim \<and> submitted_verdict submission \<noteq> ''inform''
             then Inl NoveltyReviewVerdictNotInform
           else if length (js_trim (body_md submission)) = 0 then Inl ReviewBodyEmpty
           else Inr (case capable_of_failure submission of
               None \<Rightarrow> False
             | Some c \<Rightarrow> length (js_trim c) > 0))"

subsection \<open>Review independence\<close>

record evidence_reference =
  reference_id :: string
  reference_digest :: string

record review_method =
  category :: string
  method_evidence :: "evidence_reference list"

record scientific_provenance =
  model_family :: "string option"
  review_method :: "review_method option"

record review_attribution =
  sponsor_id :: string
  provenance :: "scientific_provenance option"

text \<open>
  \<open>reproduction_commands\<close> is the array at \<open>payload.reproduction.commands\<close>, when there is
  one.
\<close>

record scientific_evidence =
  evidence_id :: string
  evidence_fellow_id :: string
  evidence_sponsor_id :: string
  evidence_kind :: string
  direction :: string
  payload_digest :: string
  reproduction_commands :: "string list option"

record method_review =
  method_reviewer_id :: string
  verified_artifact_id :: "string option"

definition method_matches_evidence :: "string \<Rightarrow> scientific_evidence \<Rightarrow> bool" where
  "method_matches_evidence cat evidence \<longleftrightarrow>
     (if cat = ''deductive'' then
        evidence_kind evidence = ''argument'' \<or> evidence_kind evidence = ''construction''
      else if cat = ''literature'' then evidence_kind evidence = ''citation''
      else if cat = ''computation'' \<or> cat = ''empirical'' then
        evidence_kind evidence = ''computation'' \<and>
        (case reproduction_commands evidence of None \<Rightarrow> False | Some cs \<Rightarrow> length cs > 0)
      else if cat = ''counterexample'' then
        direction evidence = ''refutes'' \<or> direction evidence = ''fails-to-reproduce''
      else False)"

definition grounds_reference ::
  "review_attribution \<Rightarrow> review_method \<Rightarrow> method_review option \<Rightarrow> evidence_reference \<Rightarrow>
   scientific_evidence \<Rightarrow> bool" where
  "grounds_reference reviewer method review reference evidence \<longleftrightarrow>
     evidence_id evidence = reference_id reference \<and>
     reference_digest reference = ''sha256:'' @ payload_digest evidence \<and>
     (case review of
        None \<Rightarrow> False
      | Some m \<Rightarrow>
          if category method = ''formal'' then
            evidence_kind evidence = ''certificate'' \<and>
            Some (evidence_id evidence) = verified_artifact_id m
          else
            evidence_fellow_id evidence = method_reviewer_id m \<and>
            evidence_sponsor_id evidence = sponsor_id reviewer \<and>
            method_matches_evidence (category method) evidence)"

text \<open>A truthy string field of an optional object.\<close>

definition declared_family :: "review_attribution \<Rightarrow> string option" where
  "declared_family a =
     (case provenance a of
        None \<Rightarrow> None
      | Some p \<Rightarrow> if filled (model_family p) then model_family p else None)"

definition declared_method :: "review_attribution \<Rightarrow> review_method option" where
  "declared_method a = (case provenance a of None \<Rightarrow> None | Some p \<Rightarrow> review_method p)"

definition scientific_independence ::
  "review_attribution \<Rightarrow> review_attribution \<Rightarrow> scientific_evidence list \<Rightarrow> method_review option \<Rightarrow>
   independence_tier" where
  "scientific_independence author reviewer evidence review =
     (if sponsor_id author = sponsor_id reviewer then T0
      else if declared_family author = None \<or> declared_family reviewer = None \<or>
              declared_family author = declared_family reviewer then T1
      else case (declared_method author, declared_method reviewer) of
        (Some am, Some rm) \<Rightarrow>
          if category am = category rm \<or> length (method_evidence rm) = 0 \<or>
             length evidence \<noteq> length (method_evidence rm) \<or>
             \<not> list_all (\<lambda>reference. list_ex (grounds_reference reviewer rm review reference) evidence)
                 (method_evidence rm)
          then T2 else T3
      | _ \<Rightarrow> T2)"

definition tier_moves_disclosure :: "independence_tier \<Rightarrow> bool" where
  "tier_moves_disclosure t \<longleftrightarrow> t = T2 \<or> t = T3"

subsection \<open>Properties\<close>

text \<open>
  Evidence is graded by its shape: it is certified exactly when a retrieved source
  carries a shape-checked artifact that an independent review confirmed, a source from model
  memory is an assertion whatever else it carries, and whenever the class is below what the
  supplied fields name (an artifact, a computation, a locator) the coercion is flagged.
\<close>

theorem evidence_is_graded_by_shape:
  "(assessed_class (assess_evidence_class input) = Certified \<longleftrightarrow>
      source_kind (evidence_source input) = Locator \<and>
      (\<exists>a d. certified_artifact input = Some a \<and> shape_check_digest a = Some d \<and>
         independent_review_confirmed a = Some True)) \<and>
   (source_kind (evidence_source input) = ModelMemory \<longrightarrow>
      assessed_class (assess_evidence_class input) = Assertion) \<and>
   (flags (assess_evidence_class input) = [] \<longrightarrow>
      source_kind (evidence_source input) = Locator \<and>
      assessed_class (assess_evidence_class input) =
        (if certified_artifact input \<noteq> None then Certified
         else if computation input \<noteq> None then Computation
         else if filled (source_locator (evidence_source input)) then Citation else Assertion))"
proof (cases "source_kind (evidence_source input)")
  case Locator
  then show ?thesis
    by (auto simp: assess_evidence_class_def assessment_def Let_def split: option.splits)
next
  case ModelMemory
  then show ?thesis by (simp add: assess_evidence_class_def assessment_def)
qed

definition sample_input :: evidence_input where
  "sample_input =
     \<lparr>evidence_source = \<lparr>source_kind = ModelMemory, source_locator = Some ''doi:1'',
        source_excerpt = Some ''text''\<rparr>,
      computation = Some (Some ''n < 100''),
      certified_artifact = Some \<lparr>shape_check_digest = Some ''d'',
        independent_review_confirmed = Some True\<rparr>,
      selected_hypothesis = None, evidence_mode = Confirmatory\<rparr>"

theorem evidence_is_graded_by_shape_example:
  "assessed_class (assess_evidence_class sample_input) = Assertion"
  using evidence_is_graded_by_shape [of sample_input] by (simp add: sample_input_def)

text \<open>
  What the review gate accepts: exactly the submissions by someone other than the
  author, with a recognized verdict and a body that is not blank, where a novelty block is
  given for a novelty claim (and then with the verdict inform) and for nothing else; an
  accepted review carries weight exactly when it says how its check could have failed.
\<close>

theorem review_gate_accepts:
  "gate_review_submission submission author reviewer kind = Inr weight \<longleftrightarrow>
     author \<noteq> reviewer \<and> submitted_verdict submission \<in> set verdicts \<and>
     (has_novelty submission = Some True \<longleftrightarrow> kind = Some ''novelty-claim'') \<and>
     (kind = Some ''novelty-claim'' \<longrightarrow> submitted_verdict submission = ''inform'') \<and>
     \<not> js_blank (body_md submission) \<and>
     (weight \<longleftrightarrow> (\<exists>c. capable_of_failure submission = Some c \<and> \<not> js_blank c))"
  unfolding gate_review_submission_def reviewer_is_author_def Let_def js_blank_def
  by (auto split: option.splits)

theorem review_gate_accepts_example:
  "gate_review_submission \<lparr>submitted_verdict = ''confirm'', capable_of_failure = Some '' '',
     body_md = ''checked'', has_novelty = None\<rparr> ''F1'' ''F2'' None = Inr False"
  by (subst review_gate_accepts) (simp add: verdicts_def js_blank_iff js_space_def)

text \<open>
  Cross-family credit cannot be manufactured: a review moves the disclosure only when
  the sponsors differ and both families are declared and differ, and it is T3 only when
  moreover the two methods are of different categories and every work product the reviewer's
  method names is digest-pinned evidence the reviewer published under its own sponsor, or,
  for a formal method, the certificate the reviewer verified.
\<close>

theorem independence_is_declared_and_grounded:
  "(tier_moves_disclosure (scientific_independence author reviewer evidence review) \<longleftrightarrow>
      sponsor_id author \<noteq> sponsor_id reviewer \<and>
      (\<exists>f g. declared_family author = Some f \<and> declared_family reviewer = Some g \<and> f \<noteq> g)) \<and>
   (scientific_independence author reviewer evidence review = T3 \<longrightarrow>
      (\<exists>am rm m. declared_method author = Some am \<and> declared_method reviewer = Some rm \<and>
         review = Some m \<and> category am \<noteq> category rm \<and> method_evidence rm \<noteq> [] \<and>
         (\<forall>ref \<in> set (method_evidence rm). \<exists>e \<in> set evidence.
            evidence_id e = reference_id ref \<and>
            reference_digest ref = ''sha256:'' @ payload_digest e \<and>
            (if category rm = ''formal''
             then evidence_kind e = ''certificate'' \<and> verified_artifact_id m = Some (evidence_id e)
             else evidence_fellow_id e = method_reviewer_id m \<and>
               evidence_sponsor_id e = sponsor_id reviewer))))"
proof (intro conjI impI)
  show "tier_moves_disclosure (scientific_independence author reviewer evidence review) \<longleftrightarrow>
      sponsor_id author \<noteq> sponsor_id reviewer \<and>
      (\<exists>f g. declared_family author = Some f \<and> declared_family reviewer = Some g \<and> f \<noteq> g)"
    by (auto simp: tier_moves_disclosure_def scientific_independence_def split: option.splits)
next
  assume t3: "scientific_independence author reviewer evidence review = T3"
  then obtain am rm where m: "declared_method author = Some am" "declared_method reviewer = Some rm"
    and c: "category am \<noteq> category rm" "method_evidence rm \<noteq> []"
    and g: "\<And>ref. ref \<in> set (method_evidence rm) \<Longrightarrow>
        \<exists>e \<in> set evidence. grounds_reference reviewer rm review ref e"
    by (auto simp: scientific_independence_def list_all_iff list_ex_iff
        split: option.splits if_splits)
  from c(2) g obtain ref e where "grounds_reference reviewer rm review ref e"
    by (metis list.set_intros(1) neq_Nil_conv)
  then obtain mr where r: "review = Some mr"
    by (auto simp: grounds_reference_def split: option.splits)
  have "\<exists>e \<in> set evidence. evidence_id e = reference_id ref \<and>
        reference_digest ref = ''sha256:'' @ payload_digest e \<and>
        (if category rm = ''formal''
         then evidence_kind e = ''certificate'' \<and> verified_artifact_id mr = Some (evidence_id e)
         else evidence_fellow_id e = method_reviewer_id mr \<and>
           evidence_sponsor_id e = sponsor_id reviewer)"
    if "ref \<in> set (method_evidence rm)" for ref
    using g [OF that] r by (auto simp: grounds_reference_def)
  with m c r show "\<exists>am rm m. declared_method author = Some am \<and> declared_method reviewer = Some rm \<and>
         review = Some m \<and> category am \<noteq> category rm \<and> method_evidence rm \<noteq> [] \<and>
         (\<forall>ref \<in> set (method_evidence rm). \<exists>e \<in> set evidence.
            evidence_id e = reference_id ref \<and>
            reference_digest ref = ''sha256:'' @ payload_digest e \<and>
            (if category rm = ''formal''
             then evidence_kind e = ''certificate'' \<and> verified_artifact_id m = Some (evidence_id e)
             else evidence_fellow_id e = method_reviewer_id m \<and>
               evidence_sponsor_id e = sponsor_id reviewer))" by blast
qed

definition sample_party :: "string \<Rightarrow> string \<Rightarrow> string \<Rightarrow> review_attribution" where
  "sample_party sponsor fam cat =
     \<lparr>sponsor_id = sponsor, provenance = Some \<lparr>model_family = Some fam,
        review_method = Some \<lparr>category = cat,
          method_evidence = [\<lparr>reference_id = ''E-1'', reference_digest = ''sha256:ab''\<rparr>]\<rparr>\<rparr>\<rparr>"

definition sample_evidence :: scientific_evidence where
  "sample_evidence =
     \<lparr>evidence_id = ''E-1'', evidence_fellow_id = ''F2'', evidence_sponsor_id = ''S2'',
      evidence_kind = ''citation'', direction = ''supports'', payload_digest = ''ab'',
      reproduction_commands = None\<rparr>"

theorem independence_is_declared_and_grounded_example:
  "scientific_independence (sample_party ''S1'' ''fam-a'' ''deductive'')
       (sample_party ''S2'' ''fam-b'' ''literature'') [sample_evidence]
       (Some \<lparr>method_reviewer_id = ''F2'', verified_artifact_id = None\<rparr>) = T3 \<and>
   evidence_sponsor_id sample_evidence = ''S2''"
proof -
  have t3: "scientific_independence (sample_party ''S1'' ''fam-a'' ''deductive'')
       (sample_party ''S2'' ''fam-b'' ''literature'') [sample_evidence]
       (Some \<lparr>method_reviewer_id = ''F2'', verified_artifact_id = None\<rparr>) = T3"
    by code_simp
  with independence_is_declared_and_grounded [of "sample_party ''S1'' ''fam-a'' ''deductive''"
      "sample_party ''S2'' ''fam-b'' ''literature''" "[sample_evidence]"
      "Some \<lparr>method_reviewer_id = ''F2'', verified_artifact_id = None\<rparr>"]
  show ?thesis
    by (simp add: declared_method_def sample_party_def)
qed

end
