(* ===== verification/DependencyCeiling.thy ===== *)
theory DependencyCeiling
  imports EvidencePolicy
begin

section \<open>Dependency ceilings (\<open>ledger/dependency-ceiling.ts\<close>)\<close>

text \<open>
  How strong a claim's evidence may be called, given everything it depends on: the minimum
  over the dependency graph, with a deterministic witness path. The maps of
  \<open>computeDependencyCeilings\<close> are association lists in insertion order
  (\<open>byTarget\<close>, \<open>local\<close>, \<open>edges\<close>, \<open>paths\<close>, \<open>cycles\<close>, \<open>output\<close>), and each of its loops is
  one function.
\<close>

subsection \<open>Nodes and results\<close>

record premise_standing =
  standing_complete :: bool
  standing_disposition :: "claim_disposition option"
  standing_review_state :: "review_state_facet option"
  standing_stale :: bool
  latest_version :: "jsnum option"
  own_ceiling :: "evidence_class option"

record ceiling_node =
  node_target :: string
  node_dependencies :: "string list option"
  node_standing :: premise_standing

datatype ceiling_reason =
  WeakestEvidence | SourceUnavailable | DependencyHistoryUnavailable | DependencyCycle
| PremiseNotCurrent | PremiseContested | PremiseInactive

record dependency_ceiling =
  ceiling_complete :: bool
  ceiling :: "evidence_class option"
  weakest_path :: "string list"
  ceiling_reason :: ceiling_reason

definition max_graph_nodes :: nat where "max_graph_nodes = 64"

definition max_target_characters :: nat where "max_target_characters = 64"

subsection \<open>Exact targets\<close>

definition is_digit :: "char \<Rightarrow> bool" where
  "is_digit c \<longleftrightarrow> CHR ''0'' \<le> c \<and> c \<le> CHR ''9''"

definition digit_value :: "char \<Rightarrow> int" where
  "digit_value c = int (of_char c) - 48"

definition decimal :: "string \<Rightarrow> int" where
  "decimal s = foldl (\<lambda>n c. 10 * n + digit_value c) 0 s"

text \<open>
  \<open>/^C-[0-9]+@[1-9][0-9]*$/\<close>: the identity and the version are the parts before and after
  the first \<open>@\<close>.
\<close>

definition identity_part :: "string \<Rightarrow> string" where
  "identity_part target = takeWhile (\<lambda>c. c \<noteq> CHR ''@'') target"

definition version_part :: "string \<Rightarrow> string" where
  "version_part target = drop 1 (dropWhile (\<lambda>c. c \<noteq> CHR ''@'') target)"

definition target_shape :: "string \<Rightarrow> bool" where
  "target_shape target \<longleftrightarrow>
     (let i = identity_part target; v = version_part target
      in take 2 i = ''C-'' \<and> drop 2 i \<noteq> [] \<and> list_all is_digit (drop 2 i) \<and>
         v \<noteq> [] \<and> list_all is_digit v \<and> hd v \<noteq> CHR ''0'')"

text \<open>
  \<open>Number(\<dots>)\<close> of the digits after the \<open>@\<close>. The double nearest to an integer above the safe
  range is above it too, so the safe-integer test on the exact value is the source's.
\<close>

definition target_version :: "string \<Rightarrow> int" where
  "target_version target = decimal (version_part target)"

definition exact_target :: "string \<Rightarrow> bool" where
  "exact_target target \<longleftrightarrow>
     length target \<le> max_target_characters \<and> target_shape target \<and>
     is_safe_integer (num (target_version target))"

definition inactive :: "claim_disposition list" where
  "inactive = [Draft, Malformed, Refuted, Withdrawn, Superseded]"

subsection \<open>Paths\<close>

fun join_nul :: "string list \<Rightarrow> string" where
  "join_nul [] = []"
| "join_nul [s] = s"
| "join_nul (s # t # ss) = s @ CHR 0x00 # join_nul (t # ss)"

definition compare_path :: "string list \<Rightarrow> string list \<Rightarrow> int" where
  "compare_path l r =
     (if length l \<noteq> length r then int (length l) - int (length r)
      else if join_nul l < join_nul r then -1
      else if join_nul l > join_nul r then 1 else 0)"

subsection \<open>Node-local assessment\<close>

definition unknown :: "string \<Rightarrow> ceiling_reason \<Rightarrow> dependency_ceiling" where
  "unknown target r =
     \<lparr>ceiling_complete = False, ceiling = None, weakest_path = [target], ceiling_reason = r\<rparr>"

fun by_target_loop ::
  "ceiling_node list \<Rightarrow> (string \<times> ceiling_node) list \<Rightarrow> string list \<Rightarrow>
   (string \<times> ceiling_node) list \<times> string list" where
  "by_target_loop [] by_target dups = (by_target, dups)"
| "by_target_loop (node # nodes) by_target dups =
     by_target_loop nodes (map_put (node_target node) node by_target)
       (if node_target node \<in> set (map_keys by_target)
        then List.insert (node_target node) dups else dups)"

text \<open>
  The \<open>if\<close> chain of the first loop, for the node stored at \<open>target\<close>; \<open>Some edges\<close> for a
  node whose edges are expanded. The version, computed before the chain, is read only once
  the target is exact.
\<close>

definition local_assessment ::
  "string list \<Rightarrow> nat \<Rightarrow> string \<Rightarrow> ceiling_node \<Rightarrow> dependency_ceiling \<times> string list option" where
  "local_assessment dups node_count target node =
     (let state = node_standing node; version = target_version target
      in if target \<in> set dups \<or> node_count > max_graph_nodes \<or> \<not> standing_complete state \<or>
            standing_stale state \<or> standing_disposition state = None \<or> own_ceiling state = None \<or>
            \<not> exact_target target \<or> version < 1 \<or>
            (case latest_version state of
               None \<Rightarrow> True
             | Some l \<Rightarrow> \<not> is_safe_integer l \<or> js_less l (num version))
         then (unknown target SourceUnavailable, None)
         else if js_less (num version) (the (latest_version state))
           then (unknown target PremiseNotCurrent, None)
         else if the (standing_disposition state) \<in> set inactive
           then (unknown target PremiseInactive, None)
         else if the (standing_disposition state) = Disputed \<or>
                 standing_review_state state = Some Contested
           then (unknown target PremiseContested, None)
         else case node_dependencies node of
           None \<Rightarrow> (unknown target DependencyHistoryUnavailable, None)
         | Some ds \<Rightarrow>
             if length ds > max_graph_nodes \<or> \<not> list_all exact_target ds
             then (unknown target SourceUnavailable, None)
             else
               (\<lparr>ceiling_complete = True, ceiling = own_ceiling state, weakest_path = [target],
                 ceiling_reason = WeakestEvidence\<rparr>,
                Some (sort (remdups ds))))"

fun local_loop ::
  "string list \<Rightarrow> nat \<Rightarrow> (string \<times> ceiling_node) list \<Rightarrow> string list \<Rightarrow>
   (string \<times> dependency_ceiling) list \<Rightarrow> (string \<times> string list) list \<Rightarrow>
   (string \<times> dependency_ceiling) list \<times> (string \<times> string list) list" where
  "local_loop dups node_count by_target [] loc edges = (loc, edges)"
| "local_loop dups node_count by_target (target # targets) loc edges =
     (case map_of by_target target of
        None \<Rightarrow> local_loop dups node_count by_target targets loc edges
      | Some node \<Rightarrow>
          let (result, out) = local_assessment dups node_count target node
          in local_loop dups node_count by_target targets (map_put target result loc)
               (case out of None \<Rightarrow> edges | Some ds \<Rightarrow> map_put target ds edges))"

text \<open>References to nodes that were not supplied; \<open>None\<close> when the graph is too large.\<close>

fun missing_loop ::
  "string list \<Rightarrow> (string \<times> dependency_ceiling) list \<Rightarrow> (string \<times> dependency_ceiling) list option" where
  "missing_loop [] loc = Some loc"
| "missing_loop (target # targets) loc =
     (if target \<in> set (map_keys loc) then missing_loop targets loc
      else if length loc \<ge> max_graph_nodes then None
      else missing_loop targets (map_put target (unknown target SourceUnavailable) loc))"

subsection \<open>Breadth-first paths\<close>

definition edges_of :: "(string \<times> string list) list \<Rightarrow> string \<Rightarrow> string list" where
  "edges_of edges target = (case map_of edges target of None \<Rightarrow> [] | Some ds \<Rightarrow> ds)"

definition path_to :: "(string \<times> string list) list \<Rightarrow> string \<Rightarrow> string list" where
  "path_to paths target = (case map_of paths target of None \<Rightarrow> [] | Some p \<Rightarrow> p)"

text \<open>The inner loop over the children of \<open>parent\<close>: the paths and what it pushes.\<close>

fun visit_children ::
  "string list \<Rightarrow> string list \<Rightarrow> (string \<times> string list) list \<Rightarrow>
   (string \<times> string list) list \<times> string list" where
  "visit_children path [] paths = (paths, [])"
| "visit_children path (child # children) paths =
     (if child \<in> set (map_keys paths) then visit_children path children paths
      else let (paths', pushed) = visit_children path children (map_put child (path @ [child]) paths)
           in (paths', child # pushed))"

lemma visit_children_keys:
  "visit_children path children paths = (paths', pushed) \<Longrightarrow>
   set (map_keys paths') = set (map_keys paths) \<union> set children \<and>
   set (map_keys paths') = set (map_keys paths) \<union> set pushed \<and>
   distinct pushed \<and> set pushed \<inter> set (map_keys paths) = {} \<and> set pushed \<subseteq> set children"
proof (induction path children paths arbitrary: paths' pushed rule: visit_children.induct)
  case (2 path child children paths)
  show ?case
  proof (cases "child \<in> set (map_keys paths)")
    case True
    with 2(1) 2(3) show ?thesis by (simp add: insert_absorb) blast
  next
    case False
    obtain q ps where v: "visit_children path children (map_put child (path @ [child]) paths) = (q, ps)"
      by fastforce
    from 2(3) False v have eq: "paths' = q" "pushed = child # ps" by simp_all
    from 2(2) [OF False v] have ih:
      "set (map_keys q) = insert child (set (map_keys paths)) \<union> set children"
      "set (map_keys q) = insert child (set (map_keys paths)) \<union> set ps" "distinct ps"
      "set ps \<inter> insert child (set (map_keys paths)) = {}" "set ps \<subseteq> set children"
      unfolding set_keys_put by blast+
    have "set (map_keys q) = set (map_keys paths) \<union> set (child # children)"
      unfolding ih(1) by simp
    moreover have "set (map_keys q) = set (map_keys paths) \<union> set (child # ps)"
      unfolding ih(2) by simp
    moreover have "distinct (child # ps)" using ih(3,4) by auto
    moreover have "set (child # ps) \<inter> set (map_keys paths) = {}" using ih(4) False by auto
    moreover have "set (child # ps) \<subseteq> set (child # children)" using ih(5) by auto
    ultimately show ?thesis unfolding eq by blast
  qed
qed simp

definition universe :: "(string \<times> string list) list \<Rightarrow> string set" where
  "universe edges = set (concat (map snd edges))"

lemma edges_of_universe: "set (edges_of edges t) \<subseteq> universe edges"
proof (cases "map_of edges t")
  case (Some ds)
  from map_of_SomeD [OF this] Some show ?thesis by (force simp: edges_of_def universe_def)
qed (simp add: edges_of_def)

text \<open>
  The loop over the queue from the current index on. Every iteration leaves one entry
  behind and pushes only targets that had no path yet.
\<close>

function bfs ::
  "(string \<times> string list) list \<Rightarrow> string list \<Rightarrow> (string \<times> string list) list \<Rightarrow>
   (string \<times> string list) list" where
  "bfs edges [] paths = paths"
| "bfs edges (parent # queue) paths =
     (let (paths', pushed) = visit_children (path_to paths parent) (edges_of edges parent) paths
      in bfs edges (queue @ pushed) paths')"
  by pat_completeness auto

lemma bfs_measure:
  assumes "visit_children path (edges_of edges parent) paths = (paths', pushed)"
  shows "card (universe edges - set (map_keys paths')) + length pushed \<le>
    card (universe edges - set (map_keys paths))"
proof -
  let ?U = "universe edges" and ?K = "set (map_keys paths)"
  from visit_children_keys [OF assms]
  have k: "set (map_keys paths') = ?K \<union> set pushed" and d: "distinct pushed"
    and dis: "set pushed \<inter> ?K = {}" and sub: "set pushed \<subseteq> ?U"
    using edges_of_universe [of edges parent] by auto
  have fin: "finite ?U" by (simp add: universe_def)
  have "(?U - (?K \<union> set pushed)) \<union> set pushed \<subseteq> ?U - ?K" using dis sub by blast
  then have "card ((?U - (?K \<union> set pushed)) \<union> set pushed) \<le> card (?U - ?K)"
    using fin by (intro card_mono) auto
  moreover have "card ((?U - (?K \<union> set pushed)) \<union> set pushed) =
      card (?U - (?K \<union> set pushed)) + card (set pushed)"
    using fin by (intro card_Un_disjoint) auto
  ultimately show ?thesis using k d by (simp add: distinct_card)
qed

termination bfs
proof (relation "measure (\<lambda>(edges, queue, paths).
    card (universe edges - set (map_keys paths)) + length queue)")
  fix edges paths parent queue x paths' pushed
  assume "x = visit_children (path_to paths parent) (edges_of edges parent) paths"
    and "(paths', pushed) = x"
  then have "visit_children (path_to paths parent) (edges_of edges parent) paths = (paths', pushed)"
    by simp
  from bfs_measure [OF this]
  show "((edges, queue @ pushed, paths'), edges, parent # queue, paths)
    \<in> measure (\<lambda>(edges, queue, paths). card (universe edges - set (map_keys paths)) + length queue)"
    by simp
qed simp

definition paths_from :: "(string \<times> string list) list \<Rightarrow> string \<Rightarrow> (string \<times> string list) list" where
  "paths_from edges origin = bfs edges [origin] [(origin, [origin])]"

subsection \<open>Cycles\<close>

fun cycle_loop ::
  "(string \<times> string list) list \<Rightarrow> string \<Rightarrow> (string \<times> string list) list \<Rightarrow> string list option \<Rightarrow>
   string list option" where
  "cycle_loop edges origin [] current = current"
| "cycle_loop edges origin ((target, path) # reachable) current =
     (if origin \<notin> set (edges_of edges target) then cycle_loop edges origin reachable current
      else
        let candidate = path @ [origin]
        in cycle_loop edges origin reachable
             (case current of
                None \<Rightarrow> Some candidate
              | Some c \<Rightarrow> if compare_path candidate c < 0 then Some candidate else Some c))"

definition cycle_at :: "(string \<times> string list) list \<Rightarrow> string \<Rightarrow> string list option" where
  "cycle_at edges origin =
     (if origin \<in> set (map_keys edges) then cycle_loop edges origin (paths_from edges origin) None
      else None)"

subsection \<open>Combining the candidates\<close>

definition consider_candidate :: "dependency_ceiling \<Rightarrow> dependency_ceiling \<Rightarrow> dependency_ceiling" where
  "consider_candidate result candidate =
     (if \<not> ceiling_complete candidate then
        if ceiling_complete result \<or>
           compare_path (weakest_path candidate) (weakest_path result) < 0
        then candidate else result
      else if ceiling_complete result \<and>
        (case (ceiling candidate, ceiling result) of
           (Some c, Some r) \<Rightarrow>
             class_rank c < class_rank r \<or>
             class_rank c = class_rank r \<and>
             compare_path (weakest_path candidate) (weakest_path result) < 0
         | _ \<Rightarrow> False)
      then candidate else result)"

definition cycle_candidate :: "string list \<Rightarrow> string list \<Rightarrow> dependency_ceiling" where
  "cycle_candidate path cycle =
     \<lparr>ceiling_complete = False, ceiling = None, weakest_path = path @ drop 1 cycle,
      ceiling_reason = DependencyCycle\<rparr>"

fun consider_loop ::
  "(string \<times> dependency_ceiling) list \<Rightarrow> (string \<times> string list) list \<Rightarrow>
   (string \<times> string list) list \<Rightarrow> dependency_ceiling \<Rightarrow> dependency_ceiling" where
  "consider_loop loc edges [] result = result"
| "consider_loop loc edges ((target, path) # reachable) result =
     (let result1 = (case map_of loc target of
            None \<Rightarrow> result
          | Some l \<Rightarrow> consider_candidate result (l\<lparr>weakest_path := path\<rparr>))
      in consider_loop loc edges reachable
           (case cycle_at edges target of
              None \<Rightarrow> result1
            | Some cycle \<Rightarrow> consider_candidate result1 (cycle_candidate path cycle)))"

definition root_ceiling ::
  "(string \<times> dependency_ceiling) list \<Rightarrow> (string \<times> string list) list \<Rightarrow> string \<Rightarrow>
   dependency_ceiling \<Rightarrow> dependency_ceiling" where
  "root_ceiling loc edges origin result =
     (if origin \<in> set (map_keys edges)
      then consider_loop loc edges (paths_from edges origin) result else result)"

definition compute_dependency_ceilings ::
  "ceiling_node list \<Rightarrow> (string \<times> dependency_ceiling) list" where
  "compute_dependency_ceilings nodes =
     (let (by_target, dups) = by_target_loop nodes [] [];
          targets = sort (map_keys by_target);
          (loc0, edges) = local_loop dups (length nodes) by_target targets [] []
      in case missing_loop (concat (map snd edges)) loc0 of
           None \<Rightarrow> map (\<lambda>origin. (origin, unknown origin SourceUnavailable)) targets
         | Some loc \<Rightarrow>
             map (\<lambda>origin. (origin, root_ceiling loc edges origin (the (map_of loc origin))))
               (sort (map_keys loc)))"

end
