(* ===== verification/Walks.thy ===== *)
theory Walks
  imports Prelude
begin

section \<open>Walks and path tables\<close>

text \<open>
  Paths in a graph given by its successor lists, and the contract of a search that records
  one path per reached node. The locale \<open>path_table\<close> states what a finished search
  promises; its lemmas say that such a table holds exactly the reachable nodes, with shortest
  paths.
\<close>

fun walk :: "('a \<Rightarrow> 'a list) \<Rightarrow> 'a list \<Rightarrow> bool" where
  "walk succ [] \<longleftrightarrow> False"
| "walk succ [x] \<longleftrightarrow> True"
| "walk succ (x # y # ys) \<longleftrightarrow> y \<in> set (succ x) \<and> walk succ (y # ys)"

lemma walk_not_Nil [simp]: "walk succ p \<Longrightarrow> p \<noteq> []"
  by auto

lemma walk_snoc: "p \<noteq> [] \<Longrightarrow> walk succ (p @ [x]) \<longleftrightarrow> walk succ p \<and> x \<in> set (succ (last p))"
  by (induction succ p rule: walk.induct) auto

lemma walk_append:
  "p \<noteq> [] \<Longrightarrow> q \<noteq> [] \<Longrightarrow>
   walk succ (p @ q) \<longleftrightarrow> walk succ p \<and> walk succ q \<and> hd q \<in> set (succ (last p))"
proof (induction succ p rule: walk.induct)
  case (2 succ x)
  then show ?case by (cases q) auto
qed auto

lemma walk_join:
  "walk succ p \<Longrightarrow> walk succ q \<Longrightarrow> last p = hd q \<Longrightarrow> walk succ (p @ tl q)"
  by (cases q rule: list.exhaust; cases "tl q") (auto simp: walk_append)

lemma last_join: "q \<noteq> [] \<Longrightarrow> last p = hd q \<Longrightarrow> p \<noteq> [] \<Longrightarrow> last (p @ tl q) = last q"
  by (cases q) auto

definition reaches :: "('a \<Rightarrow> 'a list) \<Rightarrow> 'a \<Rightarrow> 'a \<Rightarrow> bool" where
  "reaches succ a b \<longleftrightarrow> (a, b) \<in> {(x, y). y \<in> set (succ x)}\<^sup>*"

lemma reaches_refl [simp, intro]: "reaches succ a a"
  by (simp add: reaches_def)

lemma reaches_step: "reaches succ a b \<Longrightarrow> c \<in> set (succ b) \<Longrightarrow> reaches succ a c"
  unfolding reaches_def by (auto elim: rtrancl_into_rtrancl)

lemma reaches_trans: "reaches succ a b \<Longrightarrow> reaches succ b c \<Longrightarrow> reaches succ a c"
  unfolding reaches_def by auto

lemma reaches_induct [consumes 1, case_names refl step]:
  assumes "reaches succ a b" and "P a"
    and "\<And>x y. reaches succ a x \<Longrightarrow> P x \<Longrightarrow> y \<in> set (succ x) \<Longrightarrow> P y"
  shows "P b"
  using assms(1) unfolding reaches_def
  by (induction rule: rtrancl_induct) (use assms(2,3) in \<open>auto simp: reaches_def\<close>)

lemma walk_reaches: "walk succ p \<Longrightarrow> reaches succ (hd p) (last p)"
proof (induction p rule: rev_induct)
  case (snoc x p)
  show ?case
  proof (cases "p = []")
    case False
    with snoc have "reaches succ (hd p) (last p)" "x \<in> set (succ (last p))"
      by (simp_all add: walk_snoc)
    then have "reaches succ (hd p) x" by (rule reaches_step)
    with False show ?thesis by simp
  qed simp
qed simp

lemma reaches_walk: "reaches succ a b \<longleftrightarrow> (\<exists>p. walk succ p \<and> hd p = a \<and> last p = b)"
proof
  assume "reaches succ a b"
  then show "\<exists>p. walk succ p \<and> hd p = a \<and> last p = b"
  proof (induction rule: reaches_induct)
    case refl
    show ?case by (rule exI [of _ "[a]"]) simp
  next
    case (step x y)
    then obtain p where "walk succ p" "hd p = a" "last p = x" by blast
    with step show ?case by (intro exI [of _ "p @ [y]"]) (simp add: walk_snoc)
  qed
qed (auto dest: walk_reaches)

lemma reaches_cong:
  assumes "reaches f a b" and "\<And>x. reaches f a x \<Longrightarrow> set (f x) \<subseteq> set (g x)"
  shows "reaches g a b"
  using assms(1)
proof (induction rule: reaches_induct)
  case (step x y)
  with assms(2) show ?case by (blast intro: reaches_step)
qed simp

lemma walk_member_reaches: "walk succ w \<Longrightarrow> v \<in> set w \<Longrightarrow> reaches succ (hd w) v"
proof (induction w rule: rev_induct)
  case (snoc x w)
  show ?case
  proof (cases "w = []")
    case False
    with snoc.prems have w: "walk succ w" "x \<in> set (succ (last w))" by (simp_all add: walk_snoc)
    with snoc False show ?thesis
      using walk_reaches [OF w(1)] by (auto intro: reaches_step)
  qed (use snoc.prems in simp)
qed simp

lemma walk_mono_on:
  "walk f w \<Longrightarrow> (\<And>x. x \<in> set w \<Longrightarrow> set (f x) \<subseteq> set (g x)) \<Longrightarrow> walk g w"
  by (induction f w rule: walk.induct) auto

text \<open>A node on a cycle: it is reached from one of its own successors.\<close>

definition on_cycle :: "('a \<Rightarrow> 'a list) \<Rightarrow> 'a \<Rightarrow> bool" where
  "on_cycle succ a \<longleftrightarrow> (\<exists>b. reaches succ a b \<and> a \<in> set (succ b))"

locale path_table =
  fixes succ :: "'a \<Rightarrow> 'a list"
    and origin :: 'a
    and path :: "'a \<Rightarrow> 'a list option"
  assumes origin_path: "path origin = Some [origin]"
    and path_walks: "path t = Some p \<Longrightarrow> walk succ p \<and> hd p = origin \<and> last p = t"
    and path_closed: "path t = Some p \<Longrightarrow> c \<in> set (succ t) \<Longrightarrow>
      \<exists>q. path c = Some q \<and> length q \<le> length p + 1"
begin

lemma shortest:
  assumes "walk succ w" and "hd w = origin" and "last w = t"
  shows "\<exists>p. path t = Some p \<and> length p \<le> length w"
  using assms
proof (induction w arbitrary: t rule: rev_induct)
  case (snoc x w)
  show ?case
  proof (cases "w = []")
    case True
    with snoc origin_path show ?thesis by simp
  next
    case False
    with snoc.prems have w: "walk succ w" "hd w = origin" and x: "x \<in> set (succ (last w))" "t = x"
      by (simp_all add: walk_snoc)
    from snoc.IH [OF w] obtain p where p: "path (last w) = Some p" "length p \<le> length w" by blast
    from path_closed [OF p(1) x(1)] p(2) x(2) show ?thesis by auto
  qed
qed simp

lemma reached: "path t \<noteq> None \<longleftrightarrow> reaches succ origin t"
proof
  assume "path t \<noteq> None"
  then obtain p where "path t = Some p" by auto
  from path_walks [OF this] show "reaches succ origin t" using reaches_walk by metis
next
  assume "reaches succ origin t"
  then obtain w where "walk succ w" "hd w = origin" "last w = t" by (auto simp: reaches_walk)
  from shortest [OF this] show "path t \<noteq> None" by auto
qed

lemma shortest_path:
  "path t = Some p \<Longrightarrow> walk succ w \<Longrightarrow> hd w = origin \<Longrightarrow> last w = t \<Longrightarrow> length p \<le> length w"
  using shortest by fastforce

lemma reached_path: "reaches succ origin t \<Longrightarrow> \<exists>p. path t = Some p"
  using reached by auto

end

end
