(* ===== verification/CeilingLaws.thy ===== *)
theory CeilingLaws
  imports DependencyCeiling Walks
begin

section \<open>What a dependency ceiling guarantees\<close>

text \<open>
  The breadth-first search is a path table (its invariant, then the interpretation of
  \<open>path_table\<close>), the loops before it build the expected maps, and the combination of the
  candidates is a minimum. The properties then read the result over the graph of the given
  nodes.
\<close>

subsection \<open>The search builds a path table\<close>

lemma visit_children_lookup:
  "visit_children path children paths = (paths', pushed) \<Longrightarrow>
   map_of paths' t = (if t \<in> set pushed then Some (path @ [t]) else map_of paths t)"
proof (induction path children paths arbitrary: paths' pushed rule: visit_children.induct)
  case (2 path child children paths)
  show ?case
  proof (cases "child \<in> set (map_keys paths)")
    case True
    with 2 show ?thesis by simp
  next
    case False
    obtain q ps where v: "visit_children path children (map_put child (path @ [child]) paths) = (q, ps)"
      by fastforce
    with 2(3) False have "paths' = q" "pushed = child # ps" by simp_all
    with 2(2) [OF False v] show ?thesis by auto
  qed
qed simp

lemma visit_children_distinct:
  "visit_children path children paths = (paths', pushed) \<Longrightarrow>
   distinct (map_keys paths') \<longleftrightarrow> distinct (map_keys paths)"
proof (induction path children paths arbitrary: paths' pushed rule: visit_children.induct)
  case (2 path child children paths)
  then show ?case by (auto simp: Let_def split: if_splits prod.splits)
qed simp

lemma path_to_Some: "map_of paths t = Some p \<Longrightarrow> path_to paths t = p"
  by (simp add: path_to_def)

lemma key_path: "t \<in> set (map_keys paths) \<longleftrightarrow> map_of paths t = Some (path_to paths t)"
  using map_of_None_iff [of paths t] by (auto simp: path_to_def split: option.splits)

definition bfs_inv ::
  "(string \<times> string list) list \<Rightarrow> string \<Rightarrow> string list \<Rightarrow> (string \<times> string list) list \<Rightarrow> bool" where
  "bfs_inv edges origin queue paths \<longleftrightarrow>
     map_of paths origin = Some [origin] \<and> distinct (map_keys paths) \<and>
     set queue \<subseteq> set (map_keys paths) \<and>
     (\<forall>t \<in> set (map_keys paths). walk (edges_of edges) (path_to paths t) \<and>
        hd (path_to paths t) = origin \<and> last (path_to paths t) = t) \<and>
     (\<forall>t \<in> set (map_keys paths) - set queue. \<forall>c \<in> set (edges_of edges t).
        c \<in> set (map_keys paths) \<and> length (path_to paths c) \<le> length (path_to paths t) + 1) \<and>
     sorted (map (\<lambda>t. length (path_to paths t)) queue) \<and>
     (queue \<noteq> [] \<longrightarrow> (\<forall>t \<in> set (map_keys paths).
        length (path_to paths t) \<le> length (path_to paths (hd queue)) + 1))"

lemma bfs_inv_start: "bfs_inv edges origin [origin] [(origin, [origin])]"
  by (simp add: bfs_inv_def path_to_def)

lemma bfs_inv_step:
  assumes inv: "bfs_inv edges origin (parent # queue) paths"
    and v: "visit_children (path_to paths parent) (edges_of edges parent) paths = (paths', pushed)"
  shows "bfs_inv edges origin (queue @ pushed) paths'"
proof -
  let ?p = "path_to paths" and ?q = "path_to paths'" and ?K = "set (map_keys paths)"
  let ?L = "length (?p parent)"
  from visit_children_keys [OF v] have K: "set (map_keys paths') = ?K \<union> set (edges_of edges parent)"
    and K2: "set (map_keys paths') = ?K \<union> set pushed" and dis: "set pushed \<inter> ?K = {}"
    and sub: "set pushed \<subseteq> set (edges_of edges parent)"
    by blast+
  note look = visit_children_lookup [OF v]
  have new: "?q t = ?p parent @ [t]" if "t \<in> set pushed" for t
    using look [of t] that by (simp add: path_to_def)
  have old: "?q t = ?p t" if "t \<in> ?K" for t
    using look [of t] that dis by (auto simp: path_to_def)
  from inv have par: "parent \<in> ?K" and qK: "set queue \<subseteq> ?K"
    and walks: "\<And>t. t \<in> ?K \<Longrightarrow> walk (edges_of edges) (?p t) \<and> hd (?p t) = origin \<and> last (?p t) = t"
    and closed: "\<And>t c. t \<in> ?K \<Longrightarrow> t \<notin> set (parent # queue) \<Longrightarrow> c \<in> set (edges_of edges t) \<Longrightarrow>
        c \<in> ?K \<and> length (?p c) \<le> length (?p t) + 1"
    and top: "\<And>t. t \<in> ?K \<Longrightarrow> length (?p t) \<le> ?L + 1"
    and sorted: "sorted (map (\<lambda>t. length (?p t)) queue)"
    and low: "\<And>t. t \<in> set queue \<Longrightarrow> ?L \<le> length (?p t)"
    by (auto simp: bfs_inv_def)
  show ?thesis
    unfolding bfs_inv_def
  proof (intro conjI ballI impI)
    have "origin \<notin> set pushed"
      using inv dis map_of_None_iff [of paths origin] by (auto simp: bfs_inv_def)
    then show "map_of paths' origin = Some [origin]" using look [of origin] inv by (simp add: bfs_inv_def)
    show "distinct (map_keys paths')" using visit_children_distinct [OF v] inv by (simp add: bfs_inv_def)
    show "set (queue @ pushed) \<subseteq> set (map_keys paths')" using qK K2 by auto
    show "sorted (map (\<lambda>t. length (?q t)) (queue @ pushed))"
    proof -
      have eq: "map (\<lambda>t. length (?q t)) (queue @ pushed) =
          map (\<lambda>t. length (?p t)) queue @ replicate (length pushed) (?L + 1)"
        using old qK new by (auto simp: map_replicate_const [symmetric] subset_iff)
      show ?thesis unfolding eq using sorted top qK by (auto simp: sorted_append subset_iff)
    qed
  next
    fix t
    assume "t \<in> set (map_keys paths')"
    then consider "t \<in> ?K" | "t \<in> set pushed" using K2 by blast
    then have "walk (edges_of edges) (?q t) \<and> hd (?q t) = origin \<and> last (?q t) = t"
    proof cases
      case 1
      then show ?thesis unfolding old [OF 1] by (rule walks)
    next
      case 2
      have p: "walk (edges_of edges) (?p parent)" "hd (?p parent) = origin" "last (?p parent) = parent"
        using walks [OF par] by blast+
      moreover have "?p parent \<noteq> []" using p(1) by simp
      moreover have "t \<in> set (edges_of edges parent)" using 2 sub by blast
      ultimately show ?thesis unfolding new [OF 2] by (simp add: walk_snoc)
    qed
    then show "walk (edges_of edges) (?q t)" "hd (?q t) = origin" "last (?q t) = t" by blast+
  next
    fix t c
    assume t: "t \<in> set (map_keys paths') - set (queue @ pushed)" and c: "c \<in> set (edges_of edges t)"
    then have tK: "t \<in> ?K" using K2 by auto
    show "c \<in> set (map_keys paths')" "length (?q c) \<le> length (?q t) + 1"
    proof -
      have "c \<in> set (map_keys paths') \<and> length (?q c) \<le> length (?q t) + 1"
      proof (cases "t = parent")
        case True
        with c K K2 have "c \<in> ?K \<or> c \<in> set pushed" by blast
        with True top [of c] old new tK K c show ?thesis by auto
      next
        case False
        with closed [OF tK _ c] t old tK K2 show ?thesis by auto
      qed
      then show "c \<in> set (map_keys paths')" "length (?q c) \<le> length (?q t) + 1" by auto
    qed
  next
    fix t
    assume ne: "queue @ pushed \<noteq> []" and t: "t \<in> set (map_keys paths')"
    have "?L \<le> length (?q (hd (queue @ pushed)))"
      using ne low old qK new by (cases queue; cases pushed) auto
    moreover have "length (?q t) \<le> ?L + 1" using t K2 top old new by auto
    ultimately show "length (?q t) \<le> length (?q (hd (queue @ pushed))) + 1" by simp
  qed
qed

lemma bfs_inv_end: "bfs_inv edges origin queue paths \<Longrightarrow> bfs_inv edges origin [] (bfs edges queue paths)"
proof (induction edges queue paths rule: bfs.induct)
  case (2 edges parent queue paths)
  obtain paths' pushed where
    v: "visit_children (path_to paths parent) (edges_of edges parent) paths = (paths', pushed)"
    by fastforce
  from 2(1) [OF v [symmetric] refl] bfs_inv_step [OF 2(2) v] v show ?case by simp
qed simp

lemma paths_from_inv: "bfs_inv edges origin [] (paths_from edges origin)"
  unfolding paths_from_def by (intro bfs_inv_end bfs_inv_start)

interpretation search: path_table "edges_of edges" origin "map_of (paths_from edges origin)"
  for edges origin
proof
  show "map_of (paths_from edges origin) origin = Some [origin]"
    using paths_from_inv [of edges origin] by (simp add: bfs_inv_def)
  fix t p
  assume p: "map_of (paths_from edges origin) t = Some p"
  then have t: "t \<in> set (map_keys (paths_from edges origin))"
    using map_of_None_iff [of "paths_from edges origin" t] by auto
  show "walk (edges_of edges) p \<and> hd p = origin \<and> last p = t"
    using paths_from_inv [of edges origin] t path_to_Some [OF p] by (auto simp: bfs_inv_def)
  show "\<exists>q. map_of (paths_from edges origin) c = Some q \<and> length q \<le> length p + 1"
    if "c \<in> set (edges_of edges t)" for c
  proof -
    from paths_from_inv [of edges origin] t that
    have c: "c \<in> set (map_keys (paths_from edges origin))"
      and le: "length (path_to (paths_from edges origin) c) \<le>
        length (path_to (paths_from edges origin) t) + 1"
      by (auto simp: bfs_inv_def)
    from c have "map_of (paths_from edges origin) c = Some (path_to (paths_from edges origin) c)"
      using key_path by blast
    with le show ?thesis unfolding path_to_Some [OF p] by blast
  qed
qed

subsection \<open>The node maps\<close>

text \<open>The nodes given for a target, in order.\<close>

definition nodes_at :: "ceiling_node list \<Rightarrow> string \<Rightarrow> ceiling_node list" where
  "nodes_at nodes t = filter (\<lambda>n. node_target n = t) nodes"

lemma by_target_loop_spec:
  assumes "by_target_loop nodes bt dups = (bt', dups')"
  shows "set (map_keys bt') = set (map_keys bt) \<union> node_target ` set nodes \<and>
    (distinct (map_keys bt') \<longleftrightarrow> distinct (map_keys bt)) \<and>
    map_of bt' t = (if nodes_at nodes t = [] then map_of bt t else Some (last (nodes_at nodes t))) \<and>
    (t \<in> set dups' \<longleftrightarrow>
      t \<in> set dups \<or> 2 \<le> length (nodes_at nodes t) + (if t \<in> set (map_keys bt) then 1 else 0))"
  using assms
proof (induction nodes bt dups rule: by_target_loop.induct)
  case (2 node nodes bt dups)
  note ih = 2(1) [OF 2(2) [unfolded by_target_loop.simps]]
  show ?case
  proof (cases "node_target node = t")
    case True
    with ih show ?thesis by (auto simp: nodes_at_def)
  next
    case False
    with ih show ?thesis by (auto simp: nodes_at_def)
  qed
qed (simp add: nodes_at_def)

lemma by_target_start:
  assumes "by_target_loop nodes [] [] = (bt, dups)"
  shows "set (map_keys bt) = node_target ` set nodes" and "distinct (map_keys bt)"
    and "t \<in> set dups \<longleftrightarrow> 2 \<le> length (nodes_at nodes t)"
    and "map_of bt t = (if nodes_at nodes t = [] then None else Some (last (nodes_at nodes t)))"
  using by_target_loop_spec [OF assms] by (simp_all add: map_keys_def)

text \<open>The assessment of a target from the whole input.\<close>

definition assess :: "ceiling_node list \<Rightarrow> string \<Rightarrow> dependency_ceiling \<times> string list option" where
  "assess nodes t =
     local_assessment (if 2 \<le> length (nodes_at nodes t) then [t] else []) (length nodes) t
       (last (nodes_at nodes t))"

lemma local_assessment_dups:
  "(t \<in> set d \<longleftrightarrow> t \<in> set d') \<Longrightarrow> local_assessment d k t n = local_assessment d' k t n"
  by (simp add: local_assessment_def)

definition kept_edges :: "(string \<Rightarrow> dependency_ceiling \<times> string list option) \<Rightarrow> string list \<Rightarrow>
    (string \<times> string list) list" where
  "kept_edges la targets =
     concat (map (\<lambda>t. case snd (la t) of None \<Rightarrow> [] | Some ds \<Rightarrow> [(t, ds)]) targets)"

lemma local_loop_result:
  assumes "\<forall>t \<in> set targets. \<exists>n. map_of bt t = Some n \<and> local_assessment dups k t n = la t"
    and "distinct targets" and "set targets \<inter> set (map_keys loc) = {}"
    and "set targets \<inter> set (map_keys edges) = {}"
  shows "local_loop dups k bt targets loc edges =
    (loc @ map (\<lambda>t. (t, fst (la t))) targets, edges @ kept_edges la targets)"
  using assms
proof (induction targets arbitrary: loc edges)
  case (Cons t ts)
  then obtain n where n: "map_of bt t = Some n" "local_assessment dups k t n = la t" by auto
  obtain r out where la: "la t = (r, out)" by fastforce
  define edges1 where "edges1 = (case out of None \<Rightarrow> edges | Some ds \<Rightarrow> edges @ [(t, ds)])"
  from Cons.prems have "local_loop dups k bt ts (loc @ [(t, r)]) edges1 =
      ((loc @ [(t, r)]) @ map (\<lambda>t. (t, fst (la t))) ts, edges1 @ kept_edges la ts)"
    by (intro Cons.IH) (auto simp: edges1_def map_keys_def split: option.splits)
  moreover have "map_put t r loc = loc @ [(t, r)]" "\<And>ds. map_put t ds edges = edges @ [(t, ds)]"
    using Cons.prems by (simp_all add: map_put_fresh)
  ultimately show ?case
    using n la by (auto simp: edges1_def kept_edges_def split: option.splits)
qed (simp add: kept_edges_def)

lemma map_of_kept_edges:
  "map_of (kept_edges la targets) t = (if t \<in> set targets then snd (la t) else None)"
  by (induction targets) (auto simp: kept_edges_def map_add_def split: option.splits)

lemma missing_loop_result:
  assumes "distinct (map_keys loc)" and "length loc \<le> max_graph_nodes"
  shows "case missing_loop targets loc of
      None \<Rightarrow> max_graph_nodes < card (set (map_keys loc) \<union> set targets)
    | Some loc' \<Rightarrow> card (set (map_keys loc) \<union> set targets) \<le> max_graph_nodes \<and>
        distinct (map_keys loc') \<and> set (map_keys loc') = set (map_keys loc) \<union> set targets \<and>
        (\<forall>t. map_of loc' t =
          (if t \<in> set (map_keys loc) then map_of loc t
           else if t \<in> set targets then Some (unknown t SourceUnavailable) else None))"
  using assms
proof (induction targets loc rule: missing_loop.induct)
  case (1 loc)
  have "card (set (map_keys loc)) = length loc"
    using 1 by (simp add: card_map_keys)
  with 1 show ?case by (auto simp: map_of_None_iff)
next
  case (2 target targets loc)
  show ?case
  proof (cases "target \<in> set (map_keys loc)")
    case True
    then have "set (map_keys loc) \<union> set (target # targets) = set (map_keys loc) \<union> set targets" by auto
    with 2(1) [OF True 2(3,4)] True show ?thesis by (auto split: option.splits)
  next
    case False
    note new = this
    have card: "card (set (map_keys loc)) = length loc"
      using 2(3) by (simp add: card_map_keys)
    show ?thesis
    proof (cases "max_graph_nodes \<le> length loc")
      case True
      have "card (insert target (set (map_keys loc))) \<le>
          card (set (map_keys loc) \<union> set (target # targets))"
        by (intro card_mono) auto
      with True new card show ?thesis by simp
    next
      case False
      have ins: "set (map_keys (map_put target (unknown target SourceUnavailable) loc)) \<union> set targets =
          set (map_keys loc) \<union> set (target # targets)" by simp
      have "length (map_put target (unknown target SourceUnavailable) loc) \<le> max_graph_nodes"
        using False new by (simp add: map_put_fresh)
      from 2(2) [OF new False _ this] 2(3) new False show ?thesis
        unfolding ins by (auto split: option.splits if_splits)
    qed
  qed
qed

subsection \<open>Sound premises\<close>

text \<open>
  What the graph of the given nodes says, without the search: a sound premise is named by
  exactly one node, complete, current, active and uncontested, with known well-formed
  dependencies.
\<close>

definition sound_premise :: "ceiling_node list \<Rightarrow> string \<Rightarrow> bool" where
  "sound_premise nodes t \<longleftrightarrow>
     (\<exists>n. nodes_at nodes t = [n] \<and> exact_target t \<and>
        standing_complete (node_standing n) \<and> \<not> standing_stale (node_standing n) \<and>
        (\<exists>d \<in> {Open, Corroborated, StronglySupported, ReducedTo}.
           standing_disposition (node_standing n) = Some d) \<and>
        standing_review_state (node_standing n) \<noteq> Some Contested \<and>
        own_ceiling (node_standing n) \<noteq> None \<and>
        latest_version (node_standing n) = Some (num (target_version t)) \<and>
        (\<exists>ds. node_dependencies n = Some ds \<and> length ds \<le> max_graph_nodes \<and>
           (\<forall>d \<in> set ds. exact_target d)))"

definition dependencies :: "ceiling_node list \<Rightarrow> string \<Rightarrow> string list" where
  "dependencies nodes t =
     (case nodes_at nodes t of
        [n] \<Rightarrow> (case node_dependencies n of Some ds \<Rightarrow> ds | None \<Rightarrow> [])
      | _ \<Rightarrow> [])"

definition own_class :: "ceiling_node list \<Rightarrow> string \<Rightarrow> evidence_class option" where
  "own_class nodes t =
     (case nodes_at nodes t of [n] \<Rightarrow> own_ceiling (node_standing n) | _ \<Rightarrow> None)"

definition node_targets :: "ceiling_node list \<Rightarrow> string set" where
  "node_targets nodes = node_target ` set nodes"

definition graph_targets :: "ceiling_node list \<Rightarrow> string set" where
  "graph_targets nodes =
     node_targets nodes \<union> (\<Union>t \<in> {t \<in> node_targets nodes. sound_premise nodes t}. set (dependencies nodes t))"

definition oversized :: "ceiling_node list \<Rightarrow> bool" where
  "oversized nodes \<longleftrightarrow>
     max_graph_nodes < length nodes \<or> max_graph_nodes < card (graph_targets nodes)"

lemma nodes_at_Nil: "nodes_at nodes t = [] \<longleftrightarrow> t \<notin> node_targets nodes"
  by (auto simp: nodes_at_def node_targets_def filter_empty_conv)

lemma digit_value_bounds: "is_digit c \<Longrightarrow> 0 \<le> digit_value c \<and> (c \<noteq> CHR ''0'' \<longrightarrow> 1 \<le> digit_value c)"
proof -
  assume "is_digit c"
  then have "48 \<le> (of_char c :: nat)" by (simp add: is_digit_def less_eq_char_def)
  moreover have "(of_char c :: nat) = of_char CHR ''0'' \<longleftrightarrow> c = CHR ''0''"
    by (rule of_char_eq_iff)
  ultimately show ?thesis unfolding digit_value_def by auto
qed

lemma decimal_from_pos:
  "1 \<le> n \<Longrightarrow> list_all is_digit s \<Longrightarrow> 1 \<le> foldl (\<lambda>n c. 10 * n + digit_value c) n s"
proof (induction s arbitrary: n)
  case (Cons c s)
  with digit_value_bounds [of c] show ?case by simp
qed simp

lemma exact_target_version: "exact_target t \<Longrightarrow> 1 \<le> target_version t"
proof -
  assume "exact_target t"
  then have v: "list_all is_digit (version_part t)" "version_part t \<noteq> []"
    "hd (version_part t) \<noteq> CHR ''0''"
    by (auto simp: exact_target_def target_shape_def Let_def)
  then obtain c s where s: "version_part t = c # s" by (cases "version_part t") auto
  with v digit_value_bounds [of c] decimal_from_pos [of "digit_value c" s] show ?thesis
    by (simp add: target_version_def decimal_def)
qed

lemma assess_sound:
  assumes "length nodes \<le> max_graph_nodes" and "sound_premise nodes t"
  shows "assess nodes t =
    (\<lparr>ceiling_complete = True, ceiling = own_class nodes t, weakest_path = [t],
      ceiling_reason = WeakestEvidence\<rparr>, Some (sort (remdups (dependencies nodes t))))"
proof -
  from assms(2) obtain n d ds where n: "nodes_at nodes t = [n]" "exact_target t"
      "standing_complete (node_standing n)" "\<not> standing_stale (node_standing n)"
      "d \<in> {Open, Corroborated, StronglySupported, ReducedTo}"
      "standing_disposition (node_standing n) = Some d"
      "standing_review_state (node_standing n) \<noteq> Some Contested"
      "own_ceiling (node_standing n) \<noteq> None"
      "latest_version (node_standing n) = Some (num (target_version t))"
      "node_dependencies n = Some ds" "length ds \<le> max_graph_nodes" "\<forall>d \<in> set ds. exact_target d"
    unfolding sound_premise_def by blast
  from n(2) exact_target_version [OF n(2)] have v: "is_safe_integer (num (target_version t))"
    "\<not> target_version t < 1" by (simp_all add: exact_target_def)
  have d: "d \<notin> set inactive" "d \<noteq> Disputed" using n(5) by (auto simp: inactive_def)
  show ?thesis
    using n assms(1) v d
    by (simp add: assess_def local_assessment_def Let_def own_class_def dependencies_def list_all_iff)
qed

lemma safe_not_less: "is_safe_integer l \<Longrightarrow> \<not> js_less l (num v) \<Longrightarrow> \<not> js_less (num v) l \<Longrightarrow> l = num v"
  by (cases l) (auto simp: is_safe_integer_def)

lemma local_assessment_cases:
  assumes "\<nexists>q. local_assessment dups k t n = (unknown t q, None)"
  shows "t \<notin> set dups \<and> k \<le> max_graph_nodes \<and> exact_target t \<and> standing_complete (node_standing n) \<and>
    \<not> standing_stale (node_standing n) \<and> own_ceiling (node_standing n) \<noteq> None \<and>
    (\<exists>l. latest_version (node_standing n) = Some l \<and> is_safe_integer l \<and>
       \<not> js_less l (num (target_version t)) \<and> \<not> js_less (num (target_version t)) l) \<and>
    (\<exists>d. standing_disposition (node_standing n) = Some d \<and> d \<notin> set inactive \<and> d \<noteq> Disputed) \<and>
    standing_review_state (node_standing n) \<noteq> Some Contested \<and>
    (\<exists>ds. node_dependencies n = Some ds \<and> length ds \<le> max_graph_nodes \<and> (\<forall>d \<in> set ds. exact_target d))"
  using assms unfolding local_assessment_def Let_def
  by (fastforce simp: list_all_iff split: if_splits option.splits)

lemma assess_unsound:
  assumes "nodes_at nodes t \<noteq> []" and "\<not> (length nodes \<le> max_graph_nodes \<and> sound_premise nodes t)"
  shows "\<exists>r. assess nodes t = (unknown t r, None)"
proof (rule ccontr)
  assume "\<not> ?thesis"
  note c = local_assessment_cases [OF this [unfolded assess_def]]
  then have "\<not> 2 \<le> length (nodes_at nodes t)" "length nodes \<le> max_graph_nodes" by auto
  moreover from this assms(1) obtain n where n: "nodes_at nodes t = [n]"
    by (cases "nodes_at nodes t" rule: list.exhaust) (auto simp: Suc_le_eq)
  moreover have "d \<in> {Open, Corroborated, StronglySupported, ReducedTo}"
    if "d \<notin> set inactive" "d \<noteq> Disputed" for d
    using that by (cases d) (auto simp: inactive_def)
  moreover have "l = num v" if "is_safe_integer l" "\<not> js_less l (num v)" "\<not> js_less (num v) l" for l v
    using that by (cases l) (auto simp: is_safe_integer_def)
  ultimately have "sound_premise nodes t"
    using c unfolding sound_premise_def n by simp blast
  with assms(2) \<open>length nodes \<le> max_graph_nodes\<close> show False by blast
qed

subsection \<open>The result for one target\<close>

text \<open>What the loops before the search leave behind, over the graph of the nodes.\<close>

definition prepared ::
  "ceiling_node list \<Rightarrow> (string \<times> dependency_ceiling) list \<Rightarrow> (string \<times> string list) list \<Rightarrow> bool" where
  "prepared nodes loc edges \<longleftrightarrow>
     (\<forall>t. t \<in> set (map_keys edges) \<longleftrightarrow> \<not> oversized nodes \<and> sound_premise nodes t) \<and>
     (\<forall>t. set (edges_of edges t) =
        (if \<not> oversized nodes \<and> sound_premise nodes t then set (dependencies nodes t) else {})) \<and>
     (\<forall>t. map_of loc t = None \<longleftrightarrow> t \<notin> graph_targets nodes) \<and>
     (\<forall>t l. map_of loc t = Some l \<longrightarrow>
        (if \<not> oversized nodes \<and> sound_premise nodes t
         then l = \<lparr>ceiling_complete = True, ceiling = own_class nodes t, weakest_path = [t],
                   ceiling_reason = WeakestEvidence\<rparr>
         else \<exists>r. l = unknown t r))"

lemma sound_is_node: "sound_premise nodes t \<Longrightarrow> t \<in> node_targets nodes"
  using nodes_at_Nil [of nodes t] by (auto simp: sound_premise_def)

lemma local_loop_prepared:
  assumes "by_target_loop nodes [] [] = (bt, dups)"
  shows "local_loop dups (length nodes) bt (sort (map_keys bt)) [] [] =
    (map (\<lambda>t. (t, fst (assess nodes t))) (sort (map_keys bt)),
     kept_edges (assess nodes) (sort (map_keys bt)))"
proof -
  note bt = by_target_start [OF assms]
  have "\<forall>t \<in> set (sort (map_keys bt)). \<exists>n. map_of bt t = Some n \<and>
      local_assessment dups (length nodes) t n = assess nodes t"
  proof
    fix t
    assume "t \<in> set (sort (map_keys bt))"
    then have "nodes_at nodes t \<noteq> []" using bt(1) by (simp add: nodes_at_Nil node_targets_def)
    then have "map_of bt t = Some (last (nodes_at nodes t))" using bt(4) by simp
    moreover have "local_assessment dups (length nodes) t (last (nodes_at nodes t)) = assess nodes t"
      unfolding assess_def by (intro local_assessment_dups) (simp add: bt(3))
    ultimately show "\<exists>n. map_of bt t = Some n \<and>
      local_assessment dups (length nodes) t n = assess nodes t" by blast
  qed
  from local_loop_result [OF this] bt(2) show ?thesis by simp
qed

lemma map_of_tabulate: "map_of (map (\<lambda>t. (t, f t)) ts) t = (if t \<in> set ts then Some (f t) else None)"
  by (induction ts) auto

lemma set_kept_edges:
  "set (concat (map snd (kept_edges la ts))) = (\<Union>t \<in> set ts. case snd (la t) of None \<Rightarrow> {} | Some ds \<Rightarrow> set ds)"
  by (induction ts) (auto simp: kept_edges_def split: option.splits)

lemma assess_edges:
  assumes "t \<in> node_targets nodes"
  shows "(case snd (assess nodes t) of None \<Rightarrow> {} | Some ds \<Rightarrow> set ds) =
    (if length nodes \<le> max_graph_nodes \<and> sound_premise nodes t then set (dependencies nodes t) else {})"
proof (cases "length nodes \<le> max_graph_nodes \<and> sound_premise nodes t")
  case True
  then show ?thesis by (simp add: assess_sound)
next
  case False
  with assess_unsound [of nodes t] assms show ?thesis by (auto simp: nodes_at_Nil)
qed

lemma compute_cases:
  assumes "map_of (compute_dependency_ceilings nodes) t = Some r"
  shows "(oversized nodes \<and> (\<exists>q. r = unknown t q)) \<or>
    (\<exists>loc edges. \<not> oversized nodes \<and> prepared nodes loc edges \<and> t \<in> graph_targets nodes \<and>
       r = root_ceiling loc edges t (the (map_of loc t)))"
proof -
  obtain bt dups where bt: "by_target_loop nodes [] [] = (bt, dups)" by fastforce
  note keys = by_target_start [OF bt]
  define ts where "ts = sort (map_keys bt)"
  have ts: "set ts = node_targets nodes" "distinct ts"
    using keys(1,2) by (simp_all add: ts_def node_targets_def)
  define loc0 where "loc0 = map (\<lambda>t. (t, fst (assess nodes t))) ts"
  define edges where "edges = kept_edges (assess nodes) ts"
  have comp: "compute_dependency_ceilings nodes =
      (case missing_loop (concat (map snd edges)) loc0 of
         None \<Rightarrow> map (\<lambda>origin. (origin, unknown origin SourceUnavailable)) ts
       | Some loc \<Rightarrow> map (\<lambda>origin. (origin, root_ceiling loc edges origin (the (map_of loc origin))))
           (sort (map_keys loc)))"
    unfolding compute_dependency_ceilings_def bt Let_def prod.case
      local_loop_prepared [OF bt] loc0_def edges_def ts_def by simp
  have k0: "set (map_keys loc0) = node_targets nodes" "distinct (map_keys loc0)"
    using ts by (simp_all add: loc0_def map_keys_def comp_def)
  have edge_set: "set (concat (map snd edges)) = (\<Union>t \<in> node_targets nodes.
      if length nodes \<le> max_graph_nodes \<and> sound_premise nodes t then set (dependencies nodes t) else {})"
    unfolding edges_def set_kept_edges ts(1) using assess_edges by simp
  show ?thesis
  proof (cases "length nodes \<le> max_graph_nodes")
    case False
    have unknown: "\<exists>q. assess nodes x = (unknown x q, None)" if "x \<in> set ts" for x
      using that False assess_unsound [of nodes x] ts(1) nodes_at_Nil [of nodes x] by auto
    have "map_of edges x = None" for x
      using unknown [of x] by (auto simp: edges_def map_of_kept_edges)
    then have none: "map_keys edges = []" using map_of_None_iff [of edges] by (metis last_in_set)
    have "concat (map snd edges) = []" using none by (simp add: map_keys_def)
    with assms have t: "t \<in> set ts" "r = root_ceiling loc0 edges t (the (map_of loc0 t))"
      using k0 ts by (simp_all add: comp map_of_tabulate split: if_splits)
    with unknown [of t] none obtain q where "r = unknown t q"
      by (auto simp: root_ceiling_def loc0_def map_of_tabulate)
    with False show ?thesis by (auto simp: oversized_def)
  next
    case True
    have "length loc0 = card (node_targets nodes)" using ts distinct_card [of ts] by (simp add: loc0_def)
    also have "\<dots> \<le> length nodes" unfolding node_targets_def by (metis card_image_le card_length finite_set le_trans)
    finally have len: "length loc0 \<le> max_graph_nodes" using True by simp
    have union: "set (map_keys loc0) \<union> set (concat (map snd edges)) = graph_targets nodes"
      unfolding k0(1) edge_set graph_targets_def using True by auto
    note miss = missing_loop_result [OF k0(2) len, of "concat (map snd edges)", unfolded union]
    show ?thesis
    proof (cases "missing_loop (concat (map snd edges)) loc0")
      case None
      with miss have "oversized nodes" by (simp add: oversized_def)
      moreover from assms None have "r = unknown t SourceUnavailable"
        by (simp add: comp map_of_tabulate split: if_splits)
      ultimately show ?thesis by blast
    next
      case (Some loc)
      with miss have size: "\<not> oversized nodes" using True by (simp add: oversized_def)
      from Some miss have k: "set (map_keys loc) = graph_targets nodes" by simp
      from Some assms k have t: "t \<in> graph_targets nodes"
        "r = root_ceiling loc edges t (the (map_of loc t))"
        by (auto simp: comp map_of_tabulate split: if_splits)
      have edge: "map_of edges x =
          (if sound_premise nodes x then Some (sort (remdups (dependencies nodes x))) else None)" for x
        using assess_sound [OF True, of x] assess_unsound [of nodes x] sound_is_node [of nodes x] ts(1)
        by (auto simp: edges_def map_of_kept_edges nodes_at_Nil)
      have look: "map_of loc x = (if x \<in> node_targets nodes then Some (fst (assess nodes x))
          else if x \<in> graph_targets nodes then Some (unknown x SourceUnavailable) else None)" for x
      proof -
        from Some miss k0(1) have "map_of loc x = (if x \<in> node_targets nodes then map_of loc0 x
            else if x \<in> set (concat (map snd edges)) then Some (unknown x SourceUnavailable) else None)"
          by (simp del: set_concat)
        then show ?thesis using union k0(1) ts(1) by (auto simp: loc0_def map_of_tabulate)
      qed
      have "prepared nodes loc edges"
        unfolding prepared_def
      proof (intro conjI allI impI)
        fix x
        show "x \<in> set (map_keys edges) \<longleftrightarrow> \<not> oversized nodes \<and> sound_premise nodes x"
          using edge [of x] map_of_None_iff [of edges x] size by (cases "sound_premise nodes x") auto
        show "set (edges_of edges x) =
            (if \<not> oversized nodes \<and> sound_premise nodes x then set (dependencies nodes x) else {})"
          using size by (simp add: edges_of_def edge)
        show "map_of loc x = None \<longleftrightarrow> x \<notin> graph_targets nodes"
          by (auto simp: look graph_targets_def)
        fix l
        assume "map_of loc x = Some l"
        then show "if \<not> oversized nodes \<and> sound_premise nodes x
         then l = \<lparr>ceiling_complete = True, ceiling = own_class nodes x, weakest_path = [x],
                   ceiling_reason = WeakestEvidence\<rparr>
         else \<exists>r. l = unknown x r"
          using assess_sound [OF True, of x] assess_unsound [of nodes x] sound_is_node [of nodes x] size
          by (auto simp: look nodes_at_Nil split: if_splits) blast
      qed
      with size t show ?thesis by blast
    qed
  qed
qed

subsection \<open>Cycles\<close>

lemma cycle_loop_result:
  "(cycle_loop edges origin reachable current = None \<longleftrightarrow>
      current = None \<and> (\<forall>(t, p) \<in> set reachable. origin \<notin> set (edges_of edges t))) \<and>
   (\<forall>c. cycle_loop edges origin reachable current = Some c \<longrightarrow>
      current = Some c \<or>
      (\<exists>(t, p) \<in> set reachable. origin \<in> set (edges_of edges t) \<and> c = p @ [origin]))"
proof (induction edges origin reachable current rule: cycle_loop.induct)
  case (2 edges origin t p reachable current)
  show ?case
  proof (cases "origin \<in> set (edges_of edges t)")
    case False
    with 2(1) show ?thesis by auto
  next
    case True
    define nxt where "nxt = (case current of None \<Rightarrow> Some (p @ [origin])
      | Some c \<Rightarrow> if compare_path (p @ [origin]) c < 0 then Some (p @ [origin]) else Some c)"
    have loop: "cycle_loop edges origin ((t, p) # reachable) current =
        cycle_loop edges origin reachable nxt"
      using True by (simp add: nxt_def Let_def)
    have nxt: "nxt \<noteq> None" "\<And>c. nxt = Some c \<Longrightarrow> current = Some c \<or> c = p @ [origin]"
      by (auto simp: nxt_def split: option.splits if_splits)
    have "\<not> origin \<notin> set (edges_of edges t)" using True by simp
    note ih = 2(2) [OF this refl, folded nxt_def]
    from ih nxt(1) have "cycle_loop edges origin reachable nxt \<noteq> None" by blast
    moreover have "current = Some c \<or>
        (\<exists>(t, p) \<in> set ((t, p) # reachable). origin \<in> set (edges_of edges t) \<and> c = p @ [origin])"
      if "cycle_loop edges origin reachable nxt = Some c" for c
    proof -
      from ih that consider "nxt = Some c"
        | "\<exists>(t, p) \<in> set reachable. origin \<in> set (edges_of edges t) \<and> c = p @ [origin]" by blast
      then show ?thesis
      proof cases
        case 1
        from nxt(2) [OF this] True show ?thesis by auto
      qed simp
    qed
    ultimately show ?thesis using True unfolding loop by simp
  qed
qed simp

lemma paths_from_entry:
  "(t, p) \<in> set (paths_from edges origin) \<longleftrightarrow> map_of (paths_from edges origin) t = Some p"
  using paths_from_inv [of edges origin] by (simp add: bfs_inv_def map_keys_def)

lemma cycle_at_None:
  assumes "\<And>x. x \<notin> set (map_keys edges) \<Longrightarrow> edges_of edges x = []"
  shows "cycle_at edges x = None \<longleftrightarrow> \<not> on_cycle (edges_of edges) x"
proof (cases "x \<in> set (map_keys edges)")
  case True
  have "cycle_at edges x = None \<longleftrightarrow>
      (\<forall>(t, p) \<in> set (paths_from edges x). x \<notin> set (edges_of edges t))"
    using True cycle_loop_result [of edges x "paths_from edges x" None]
    unfolding cycle_at_def by simp
  also have "\<dots> \<longleftrightarrow>
      (\<forall>t p. map_of (paths_from edges x) t = Some p \<longrightarrow> x \<notin> set (edges_of edges t))"
    unfolding paths_from_entry [symmetric] by auto
  also have "\<dots> \<longleftrightarrow> (\<forall>t. reaches (edges_of edges) x t \<longrightarrow> x \<notin> set (edges_of edges t))"
    unfolding search.reached [symmetric] by blast
  finally show ?thesis by (auto simp: on_cycle_def)
next
  case False
  have "\<not> on_cycle (edges_of edges) x"
  proof
    assume "on_cycle (edges_of edges) x"
    then obtain b where b: "reaches (edges_of edges) x b" "x \<in> set (edges_of edges b)"
      by (auto simp: on_cycle_def)
    from b(1) assms [OF False] have "b = x"
      by (induction rule: reaches_induct) auto
    with b(2) assms [OF False] show False by simp
  qed
  with False show ?thesis by (simp add: cycle_at_def)
qed

lemma cycle_at_walk:
  assumes "cycle_at edges x = Some c"
  shows "walk (edges_of edges) c \<and> hd c = x \<and> last c = x \<and> 2 \<le> length c"
proof -
  from assms have "cycle_loop edges x (paths_from edges x) None = Some c"
    by (simp add: cycle_at_def split: if_splits)
  with cycle_loop_result [of edges x "paths_from edges x" None] obtain t p where
    p: "(t, p) \<in> set (paths_from edges x)" "x \<in> set (edges_of edges t)" "c = p @ [x]"
    by blast
  note p(1) [unfolded paths_from_entry]
  from search.path_walks [OF this]
  have w: "walk (edges_of edges) p" "hd p = x" "last p = t" by blast+
  moreover from w(1) have "p \<noteq> []" by simp
  moreover from this have "1 \<le> length p" by (cases p) auto
  ultimately show ?thesis using p(2,3) by (simp add: walk_snoc)
qed

subsection \<open>The fold of the candidates\<close>

definition candidates ::
  "(string \<times> dependency_ceiling) list \<Rightarrow> (string \<times> string list) list \<Rightarrow>
   (string \<times> string list) list \<Rightarrow> dependency_ceiling list" where
  "candidates loc edges reachable =
     concat (map (\<lambda>(t, p).
       (case map_of loc t of None \<Rightarrow> [] | Some l \<Rightarrow> [l\<lparr>weakest_path := p\<rparr>]) @
       (case cycle_at edges t of None \<Rightarrow> [] | Some c \<Rightarrow> [cycle_candidate p c])) reachable)"

lemma consider_loop_fold:
  "consider_loop loc edges reachable result =
   foldl consider_candidate result (candidates loc edges reachable)"
  by (induction loc edges reachable result rule: consider_loop.induct)
    (auto simp: candidates_def split: option.split)

text \<open>The order the fold minimizes: unavailable first, then class, then path length.\<close>

definition weaker :: "dependency_ceiling \<Rightarrow> dependency_ceiling \<Rightarrow> bool" where
  "weaker r c \<longleftrightarrow>
     (if ceiling_complete r
      then ceiling_complete c \<and>
        (case (ceiling r, ceiling c) of
           (Some a, Some b) \<Rightarrow> a < b \<or> a = b \<and> length (weakest_path r) \<le> length (weakest_path c)
         | _ \<Rightarrow> True)
      else ceiling_complete c \<or> length (weakest_path r) \<le> length (weakest_path c))"

definition graded :: "dependency_ceiling \<Rightarrow> bool" where
  "graded r \<longleftrightarrow> (ceiling_complete r \<longrightarrow> ceiling r \<noteq> None)"

lemma compare_path_neg: "compare_path p q < 0 \<Longrightarrow> length p \<le> length q"
  and compare_path_pos: "\<not> compare_path p q < 0 \<Longrightarrow> length q \<le> length p"
  by (auto simp: compare_path_def split: if_splits)

lemma weaker_refl [simp]: "weaker r r"
  by (auto simp: weaker_def split: option.split)

lemma weaker_trans: "weaker a b \<Longrightarrow> weaker b c \<Longrightarrow> graded a \<Longrightarrow> graded b \<Longrightarrow> graded c \<Longrightarrow> weaker a c"
  by (auto simp: weaker_def graded_def split: if_splits)

lemma consider_candidate_either:
  "consider_candidate r c = r \<or> consider_candidate r c = c"
  by (simp add: consider_candidate_def)

lemma consider_candidate_weaker:
  assumes "graded r" and "graded c"
  shows "weaker (consider_candidate r c) r \<and> weaker (consider_candidate r c) c"
proof (cases "ceiling_complete c")
  case False
  then show ?thesis
    by (auto simp: consider_candidate_def weaker_def split: option.split
        dest: compare_path_neg compare_path_pos)
next
  case True
  with assms(2) obtain b where b: "ceiling c = Some b" by (auto simp: graded_def)
  show ?thesis
  proof (cases "ceiling_complete r")
    case False
    with True show ?thesis by (simp add: consider_candidate_def weaker_def)
  next
    case rc: True
    with assms(1) obtain a where a: "ceiling r = Some a" by (auto simp: graded_def)
    from True rc a b show ?thesis
      by (auto simp: consider_candidate_def weaker_def class_rank_less class_rank_inj
          dest: compare_path_neg compare_path_pos)
  qed
qed

lemma fold_candidates:
  assumes "\<forall>c \<in> set (r # cs). graded c"
  shows "foldl consider_candidate r cs \<in> set (r # cs) \<and>
    (\<forall>c \<in> set (r # cs). weaker (foldl consider_candidate r cs) c)"
  using assms
proof (induction cs arbitrary: r)
  case (Cons c cs)
  let ?m = "consider_candidate r c"
  have g: "graded ?m" using consider_candidate_either [of r c] Cons.prems by auto
  with Cons.prems have ih: "foldl consider_candidate ?m cs \<in> set (?m # cs)"
    "\<forall>d \<in> set (?m # cs). weaker (foldl consider_candidate ?m cs) d"
    using Cons.IH [of ?m] by auto
  have res: "foldl consider_candidate ?m cs \<in> set (r # c # cs)"
    using ih(1) consider_candidate_either [of r c] by auto
  then have gf: "graded (foldl consider_candidate ?m cs)" using Cons.prems by blast
  have "weaker (foldl consider_candidate ?m cs) d" if "d \<in> {r, c}" for d
    using that weaker_trans [OF _ _ gf g] ih(2) consider_candidate_weaker [of r c] Cons.prems by auto
  with ih(2) res show ?case by auto
qed simp

end
