(* ===== verification/CeilingProperties.thy ===== *)
theory CeilingProperties
  imports CeilingLaws
begin

section \<open>Properties of dependency ceilings\<close>

text \<open>
  The result for one target read over the declared dependencies of the given nodes: when it
  is favorable, how strong it is, and what the witness path of an unfavorable one shows.
\<close>

subsection \<open>From the search to the declared dependencies\<close>

lemma prepared_edges:
  "prepared nodes loc edges \<Longrightarrow> set (edges_of edges x) =
     (if \<not> oversized nodes \<and> sound_premise nodes x then set (dependencies nodes x) else {})"
  by (simp add: prepared_def)

lemma prepared_keys:
  "prepared nodes loc edges \<Longrightarrow>
   x \<in> set (map_keys edges) \<longleftrightarrow> \<not> oversized nodes \<and> sound_premise nodes x"
  by (simp add: prepared_def)

lemma prepared_reaches:
  "prepared nodes loc edges \<Longrightarrow> reaches (edges_of edges) t x \<Longrightarrow> reaches (dependencies nodes) t x"
  by (erule reaches_cong) (simp add: prepared_edges)

lemma prepared_walk:
  "prepared nodes loc edges \<Longrightarrow> walk (edges_of edges) w \<Longrightarrow> walk (dependencies nodes) w"
  by (erule walk_mono_on) (simp add: prepared_edges)

lemma on_cycle_cong: "on_cycle f x \<Longrightarrow> (\<And>x. set (f x) \<subseteq> set (g x)) \<Longrightarrow> on_cycle g x"
  unfolding on_cycle_def by (meson reaches_cong subsetD)

lemma prepared_no_key:
  "prepared nodes loc edges \<Longrightarrow> x \<notin> set (map_keys edges) \<Longrightarrow> edges_of edges x = []"
  using prepared_edges [of nodes loc edges x] by (auto simp: prepared_keys)

lemma reached_in_graph:
  assumes "prepared nodes loc edges" and "t \<in> graph_targets nodes"
    and "reaches (edges_of edges) t x"
  shows "x \<in> graph_targets nodes"
  using assms(3)
proof (induction rule: reaches_induct)
  case refl
  with assms(2) show ?case .
next
  case (step y z)
  then show ?case
    using assms(1) sound_is_node by (auto simp: prepared_edges graph_targets_def split: if_splits)
qed

lemma candidate_iff:
  assumes "prepared nodes loc edges" and "t \<in> graph_targets nodes"
  shows "c \<in> set (candidates loc edges (paths_from edges t)) \<longleftrightarrow>
    (\<exists>x p. map_of (paths_from edges t) x = Some p \<and>
       ((\<exists>l. map_of loc x = Some l \<and> c = l\<lparr>weakest_path := p\<rparr>) \<or>
        (\<exists>cy. cycle_at edges x = Some cy \<and> c = cycle_candidate p cy)))"
proof -
  define entry where "entry x p =
      (case map_of loc x of None \<Rightarrow> [] | Some l \<Rightarrow> [l\<lparr>weakest_path := p\<rparr>]) @
      (case cycle_at edges x of None \<Rightarrow> [] | Some cy \<Rightarrow> [cycle_candidate p cy])" for x p
  have "c \<in> set (entry x p) \<longleftrightarrow> (\<exists>l. map_of loc x = Some l \<and> c = l\<lparr>weakest_path := p\<rparr>) \<or>
      (\<exists>cy. cycle_at edges x = Some cy \<and> c = cycle_candidate p cy)" for x p
    by (cases "map_of loc x"; cases "cycle_at edges x") (auto simp: entry_def)
  moreover have "c \<in> set (candidates loc edges ps) \<longleftrightarrow> (\<exists>x p. (x, p) \<in> set ps \<and> c \<in> set (entry x p))"
    for ps unfolding candidates_def entry_def by force
  ultimately show ?thesis by (simp only: paths_from_entry)
qed

lemma local_graded:
  assumes "prepared nodes loc edges" and "map_of loc x = Some l"
  shows "graded (l\<lparr>weakest_path := p\<rparr>)"
    and "ceiling_complete l \<longleftrightarrow> \<not> oversized nodes \<and> sound_premise nodes x"
    and "ceiling l = (if \<not> oversized nodes \<and> sound_premise nodes x then own_class nodes x else None)"
    and "weakest_path l = [x]"
    and "ceiling_complete l \<Longrightarrow> ceiling_reason l = WeakestEvidence"
proof -
  from assms have l: "if \<not> oversized nodes \<and> sound_premise nodes x
      then l = \<lparr>ceiling_complete = True, ceiling = own_class nodes x, weakest_path = [x],
                ceiling_reason = WeakestEvidence\<rparr>
      else \<exists>r. l = unknown x r" unfolding prepared_def by blast
  have own: "sound_premise nodes x \<Longrightarrow> own_class nodes x \<noteq> None"
    by (auto simp: sound_premise_def own_class_def)
  show "graded (l\<lparr>weakest_path := p\<rparr>)"
    and "ceiling_complete l \<longleftrightarrow> \<not> oversized nodes \<and> sound_premise nodes x"
    and "ceiling l = (if \<not> oversized nodes \<and> sound_premise nodes x then own_class nodes x else None)"
    and "weakest_path l = [x]"
    and "ceiling_complete l \<Longrightarrow> ceiling_reason l = WeakestEvidence"
    using l own by (auto simp: unknown_def graded_def split: if_splits)
qed

subsection \<open>The result for a sound target\<close>

text \<open>The result is one of the candidates and weaker than all of them.\<close>

lemma sound_result:
  assumes p: "prepared nodes loc edges" and size: "\<not> oversized nodes" and s: "sound_premise nodes t"
    and r: "r = root_ceiling loc edges t (the (map_of loc t))"
  shows "r \<in> set (candidates loc edges (paths_from edges t)) \<and>
    graded r \<and> (\<forall>c \<in> set (candidates loc edges (paths_from edges t)). graded c \<and> weaker r c)"
proof -
  let ?cs = "candidates loc edges (paths_from edges t)"
  have tg: "t \<in> graph_targets nodes" using sound_is_node [OF s] by (simp add: graph_targets_def)
  then obtain l where l: "map_of loc t = Some l" using p unfolding prepared_def by fastforce
  have self: "l\<lparr>weakest_path := [t]\<rparr> = l" using local_graded(4) [OF p l] by simp
  have "l \<in> set ?cs"
    using candidate_iff [OF p tg, of l] search.origin_path [of edges t] l self by metis
  moreover have g: "\<forall>c \<in> set ?cs. graded c"
    using candidate_iff [OF p tg] local_graded(1) [OF p] by (auto simp: cycle_candidate_def graded_def)
  moreover have "r = foldl consider_candidate l ?cs"
    using r l prepared_keys [OF p, of t] size s by (simp add: root_ceiling_def consider_loop_fold)
  ultimately show ?thesis using fold_candidates [of l ?cs] by (auto simp: insert_absorb)
qed

lemma incomplete_result:
  assumes p: "prepared nodes loc edges" and "\<not> sound_premise nodes t" and t: "t \<in> graph_targets nodes"
    and r: "r = root_ceiling loc edges t (the (map_of loc t))"
  shows "\<exists>q. r = unknown t q"
proof -
  obtain l where l: "map_of loc t = Some l" using p t unfolding prepared_def by fastforce
  have "t \<notin> set (map_keys edges)" using prepared_keys [OF p] assms(2) by blast
  with r l have "r = l" by (simp add: root_ceiling_def)
  with l p assms(2) show ?thesis unfolding prepared_def by auto
qed

lemma complete_iff:
  assumes p: "prepared nodes loc edges" and size: "\<not> oversized nodes" and s: "sound_premise nodes t"
    and r: "r = root_ceiling loc edges t (the (map_of loc t))"
  shows "ceiling_complete r \<longleftrightarrow>
    (\<forall>x. reaches (edges_of edges) t x \<longrightarrow> sound_premise nodes x \<and> \<not> on_cycle (edges_of edges) x)"
proof -
  let ?cs = "candidates loc edges (paths_from edges t)"
  have tg: "t \<in> graph_targets nodes" using sound_is_node [OF s] by (simp add: graph_targets_def)
  note res = sound_result [OF assms]
  have cyc: "cycle_at edges x = None \<longleftrightarrow> \<not> on_cycle (edges_of edges) x" for x
    by (rule cycle_at_None) (rule prepared_no_key [OF p])
  have "ceiling_complete r \<longleftrightarrow> (\<forall>c \<in> set ?cs. ceiling_complete c)"
    using res by (auto simp: weaker_def split: if_splits)
  also have "\<dots> \<longleftrightarrow> (\<forall>x q. map_of (paths_from edges t) x = Some q \<longrightarrow>
      sound_premise nodes x \<and> cycle_at edges x = None)"
  proof (intro iffI allI impI ballI conjI)
    fix x q
    assume c: "\<forall>c \<in> set ?cs. ceiling_complete c" and x: "map_of (paths_from edges t) x = Some q"
    then have "x \<in> graph_targets nodes"
      using reached_in_graph [OF p tg] search.reached [of edges t x] by auto
    then obtain l where l: "map_of loc x = Some l" using p unfolding prepared_def by fastforce
    with x candidate_iff [OF p tg, of "l\<lparr>weakest_path := q\<rparr>"]
    have "l\<lparr>weakest_path := q\<rparr> \<in> set ?cs" by blast
    with c have "ceiling_complete (l\<lparr>weakest_path := q\<rparr>)" by blast
    then have "ceiling_complete l" by simp
    then show "sound_premise nodes x" using local_graded(2) [OF p l] by simp
    show "cycle_at edges x = None"
    proof (rule ccontr)
      assume "cycle_at edges x \<noteq> None"
      then obtain cy where "cycle_at edges x = Some cy" by auto
      with x candidate_iff [OF p tg, of "cycle_candidate q cy"]
      have "cycle_candidate q cy \<in> set ?cs" by blast
      with c have "ceiling_complete (cycle_candidate q cy)" by blast
      then show False by (simp add: cycle_candidate_def)
    qed
  next
    fix c
    assume all: "\<forall>x q. map_of (paths_from edges t) x = Some q \<longrightarrow>
        sound_premise nodes x \<and> cycle_at edges x = None" and c: "c \<in> set ?cs"
    from c candidate_iff [OF p tg, of c] obtain x q where
      x: "map_of (paths_from edges t) x = Some q" and
      "(\<exists>l. map_of loc x = Some l \<and> c = l\<lparr>weakest_path := q\<rparr>) \<or>
       (\<exists>cy. cycle_at edges x = Some cy \<and> c = cycle_candidate q cy)" by blast
    with all obtain l where "map_of loc x = Some l" "c = l\<lparr>weakest_path := q\<rparr>" by fastforce
    with local_graded(2) [OF p, of x l] all x size show "ceiling_complete c" by simp
  qed
  also have "\<dots> \<longleftrightarrow> (\<forall>x. reaches (edges_of edges) t x \<longrightarrow>
      sound_premise nodes x \<and> \<not> on_cycle (edges_of edges) x)"
    unfolding cyc [symmetric] search.reached [symmetric] by blast
  finally show ?thesis .
qed

text \<open>On a graph of sound premises the search graph is the declared one.\<close>

lemma same_reach:
  assumes p: "prepared nodes loc edges" and size: "\<not> oversized nodes"
    and s: "\<And>x. reaches (edges_of edges) t x \<Longrightarrow> sound_premise nodes x"
  shows "reaches (dependencies nodes) t x \<longleftrightarrow> reaches (edges_of edges) t x"
proof
  assume "reaches (dependencies nodes) t x"
  then show "reaches (edges_of edges) t x"
  proof (induction rule: reaches_induct)
    case (step y z)
    with s [of y] size have "z \<in> set (edges_of edges y)" by (simp add: prepared_edges [OF p])
    with step show ?case by (blast intro: reaches_step)
  qed simp
qed (rule prepared_reaches [OF p])

lemma same_cycle:
  assumes p: "prepared nodes loc edges" and size: "\<not> oversized nodes"
    and s: "\<And>x. reaches (edges_of edges) t x \<Longrightarrow> sound_premise nodes x"
    and x: "reaches (edges_of edges) t x"
  shows "on_cycle (dependencies nodes) x \<longleftrightarrow> on_cycle (edges_of edges) x"
proof
  assume "on_cycle (dependencies nodes) x"
  then obtain y where y: "reaches (dependencies nodes) x y" "x \<in> set (dependencies nodes y)"
    by (auto simp: on_cycle_def)
  have "reaches (edges_of edges) x y"
    using same_reach [OF p size, of x y] s x y(1) by (blast intro: reaches_trans)
  moreover from this s x have "sound_premise nodes y" by (blast intro: reaches_trans)
  ultimately show "on_cycle (edges_of edges) x"
    using y(2) size by (auto simp: on_cycle_def prepared_edges [OF p])
qed (erule on_cycle_cong, simp add: prepared_edges [OF p])

subsection \<open>The properties\<close>

text \<open>
  C25. When a dependency ceiling is favorable: the result for a target is complete exactly
  when the graph is within its size limits, every premise the target depends on, at any
  depth, is sound (named by exactly one node that is complete, current, active and
  uncontested, with known well-formed dependencies), and none of them depends on itself.
\<close>

theorem ceiling_complete_iff:
  assumes "map_of (compute_dependency_ceilings nodes) t = Some r"
  shows "ceiling_complete r \<longleftrightarrow> \<not> oversized nodes \<and>
    (\<forall>x. reaches (dependencies nodes) t x \<longrightarrow>
       sound_premise nodes x \<and> \<not> on_cycle (dependencies nodes) x)"
  using compute_cases [OF assms]
proof (elim disjE exE conjE)
  fix q assume "oversized nodes" "r = unknown t q"
  then show ?thesis by (simp add: unknown_def)
next
  fix loc edges
  assume size: "\<not> oversized nodes" and p: "prepared nodes loc edges"
    and t: "t \<in> graph_targets nodes" and r: "r = root_ceiling loc edges t (the (map_of loc t))"
  show ?thesis
  proof (cases "sound_premise nodes t")
    case False
    from incomplete_result [OF p False t r] have "\<not> ceiling_complete r" by (auto simp: unknown_def)
    with False show ?thesis by blast
  next
    case True
    note iff = complete_iff [OF p size True r]
    show ?thesis
    proof
      assume c: "ceiling_complete r"
      with iff same_reach [OF p size, of t] same_cycle [OF p size, of t] size
      show "\<not> oversized nodes \<and> (\<forall>x. reaches (dependencies nodes) t x \<longrightarrow>
          sound_premise nodes x \<and> \<not> on_cycle (dependencies nodes) x)" by blast
    next
      assume "\<not> oversized nodes \<and> (\<forall>x. reaches (dependencies nodes) t x \<longrightarrow>
          sound_premise nodes x \<and> \<not> on_cycle (dependencies nodes) x)"
      then show "ceiling_complete r"
        unfolding iff using prepared_reaches [OF p, of t] same_cycle [OF p size, of t] by blast
    qed
  qed
qed

text \<open>A sample graph: a certified claim resting on a computation that rests on a citation.\<close>

definition sample_node :: "string \<Rightarrow> string list \<Rightarrow> evidence_class \<Rightarrow> ceiling_node" where
  "sample_node t ds k =
     \<lparr>node_target = t, node_dependencies = Some ds, node_standing =
       \<lparr>standing_complete = True, standing_disposition = Some Corroborated,
        standing_review_state = None, standing_stale = False,
        latest_version = Some (num (target_version t)), own_ceiling = Some k\<rparr>\<rparr>"

definition sample_graph :: "ceiling_node list" where
  "sample_graph =
     [sample_node ''C-1@1'' [''C-2@3'', ''C-3@1''] Certified,
      sample_node ''C-2@3'' [''C-3@1''] Computation, sample_node ''C-3@1'' [] Citation]"

lemma sample_graph_result:
  "compute_dependency_ceilings sample_graph =
     [(''C-1@1'', \<lparr>ceiling_complete = True, ceiling = Some Citation,
         weakest_path = [''C-1@1'', ''C-3@1''], ceiling_reason = WeakestEvidence\<rparr>),
      (''C-2@3'', \<lparr>ceiling_complete = True, ceiling = Some Citation,
         weakest_path = [''C-2@3'', ''C-3@1''], ceiling_reason = WeakestEvidence\<rparr>),
      (''C-3@1'', \<lparr>ceiling_complete = True, ceiling = Some Citation,
         weakest_path = [''C-3@1''], ceiling_reason = WeakestEvidence\<rparr>)]"
  by code_simp

theorem ceiling_complete_iff_witness:
  "map_option ceiling_complete (map_of (compute_dependency_ceilings sample_graph) ''C-1@1'') = Some True \<and>
   \<not> oversized sample_graph \<and> Collect (reaches (dependencies sample_graph) ''C-1@1'') \<subseteq>
     {x. sound_premise sample_graph x \<and> \<not> on_cycle (dependencies sample_graph) x}"
proof -
  let ?r = "\<lparr>ceiling_complete = True, ceiling = Some Citation,
      weakest_path = [''C-1@1'', ''C-3@1''], ceiling_reason = WeakestEvidence\<rparr>"
  have r: "map_of (compute_dependency_ceilings sample_graph) ''C-1@1'' = Some ?r"
    unfolding sample_graph_result by simp
  show ?thesis using ceiling_complete_iff [OF r] r by auto
qed

text \<open>A complete result is the local result of a reached premise, all of which are sound.\<close>

lemma complete_root:
  assumes p: "prepared nodes loc edges" and size: "\<not> oversized nodes" and t: "t \<in> graph_targets nodes"
    and r: "r = root_ceiling loc edges t (the (map_of loc t))" and comp: "ceiling_complete r"
  shows "sound_premise nodes t" and "reaches (edges_of edges) t x \<Longrightarrow> sound_premise nodes x"
    and "\<exists>x pt l. map_of (paths_from edges t) x = Some pt \<and> map_of loc x = Some l \<and> r = l\<lparr>weakest_path := pt\<rparr> \<and>
      ceiling r = own_class nodes x \<and> ceiling r \<noteq> None"
proof -
  show s: "sound_premise nodes t"
  proof (rule ccontr)
    assume "\<not> sound_premise nodes t"
    from incomplete_result [OF p this t r] comp show False by (auto simp: unknown_def)
  qed
  show "reaches (edges_of edges) t x \<Longrightarrow> sound_premise nodes x" for x
    using complete_iff [OF p size s r] comp by blast
  note res = sound_result [OF p size s r]
  obtain x pt l where x: "map_of (paths_from edges t) x = Some pt" "map_of loc x = Some l" and rl: "r = l\<lparr>weakest_path := pt\<rparr>"
    using res candidate_iff [OF p t, of r] comp by (auto simp: cycle_candidate_def)
  then have "ceiling r = own_class nodes x" using local_graded(2,3) [OF p x(2)] comp by simp
  moreover have "ceiling r \<noteq> None" using res comp by (auto simp: graded_def)
  ultimately show "\<exists>x pt l. map_of (paths_from edges t) x = Some pt \<and> map_of loc x = Some l \<and> r = l\<lparr>weakest_path := pt\<rparr> \<and>
      ceiling r = own_class nodes x \<and> ceiling r \<noteq> None" using x rl by blast
qed

text \<open>Any reached premise is a candidate, and the result is weaker than it.\<close>

lemma weakest_candidate:
  assumes p: "prepared nodes loc edges" and size: "\<not> oversized nodes" and t: "t \<in> graph_targets nodes"
    and r: "r = root_ceiling loc edges t (the (map_of loc t))" and comp: "ceiling_complete r" and k: "ceiling r = Some k"
    and y: "map_of (paths_from edges t) y = Some q"
  shows "\<exists>k'. own_class nodes y = Some k' \<and> (k < k' \<or> k = k' \<and> length (weakest_path r) \<le> length q)"
proof -
  note root = complete_root [OF p size t r comp]
  have ry: "reaches (edges_of edges) t y" using search.reached [of edges t y] y by auto
  then obtain m where m: "map_of loc y = Some m"
    using reached_in_graph [OF p t] p unfolding prepared_def by fastforce
  have "m\<lparr>weakest_path := q\<rparr> \<in> set (candidates loc edges (paths_from edges t))" using candidate_iff [OF p t] y m by blast
  then have w: "weaker r (m\<lparr>weakest_path := q\<rparr>)" "graded (m\<lparr>weakest_path := q\<rparr>)"
    using sound_result [OF p size root(1) r] by blast+
  from local_graded(2,3) [OF p m] root(2) [OF ry] size
  have "ceiling_complete m" "ceiling m = own_class nodes y" by simp_all
  with w comp k show ?thesis by (auto simp: weaker_def graded_def)
qed

lemma weakest_path_shortest:
  assumes p: "prepared nodes loc edges" and size: "\<not> oversized nodes" and t: "t \<in> graph_targets nodes"
    and r: "r = root_ceiling loc edges t (the (map_of loc t))" and comp: "ceiling_complete r" and k: "ceiling r = Some k"
    and w: "walk (dependencies nodes) w" "hd w = t" "own_class nodes (last w) = Some k"
  shows "length (weakest_path r) \<le> length w"
proof -
  note root = complete_root [OF p size t r comp]
  note reach = same_reach [OF p size root(2)]
  have "reaches (dependencies nodes) t v" if "v \<in> set w" for v using that w walk_member_reaches by metis
  then have sub: "set (dependencies nodes v) \<subseteq> set (edges_of edges v)" if "v \<in> set w" for v
    using that root(2) reach size by (simp add: prepared_edges [OF p])
  have "walk (edges_of edges) w" using walk_mono_on [OF w(1) sub] by blast
  from search.shortest [OF this w(2) refl] obtain q where
    q: "map_of (paths_from edges t) (last w) = Some q" "length q \<le> length w" by blast
  from weakest_candidate [OF p size t r comp k q(1)] w(3) q(2) show ?thesis by auto
qed

text \<open>
  C24. Dependency strength is a minimum: a complete ceiling is the class of some premise the
  target depends on and no premise it depends on has a lower class, and the witness path
  runs along declared dependencies from the target to such a weakest premise, with no
  shorter path to any weakest premise.
\<close>

theorem ceiling_is_minimum:
  assumes "map_of (compute_dependency_ceilings nodes) t = Some r" and "ceiling_complete r"
  shows "\<exists>k. ceiling r = Some k \<and> ceiling_reason r = WeakestEvidence \<and>
    walk (dependencies nodes) (weakest_path r) \<and> hd (weakest_path r) = t \<and>
    own_class nodes (last (weakest_path r)) = Some k \<and>
    (\<forall>x. reaches (dependencies nodes) t x \<longrightarrow> (\<exists>k'. own_class nodes x = Some k' \<and> k \<le> k')) \<and>
    (\<forall>w. walk (dependencies nodes) w \<and> hd w = t \<and> own_class nodes (last w) = Some k \<longrightarrow>
       length (weakest_path r) \<le> length w)"
  using compute_cases [OF assms(1)]
proof (elim disjE exE conjE)
  fix q assume "r = unknown t q"
  with assms(2) show ?thesis by (simp add: unknown_def)
next
  fix loc edges
  assume size: "\<not> oversized nodes" and p: "prepared nodes loc edges"
    and t: "t \<in> graph_targets nodes" and r: "r = root_ceiling loc edges t (the (map_of loc t))"
  note root = complete_root [OF p size t r assms(2)]
  obtain x pt l k where x: "map_of (paths_from edges t) x = Some pt" "map_of loc x = Some l" and rl: "r = l\<lparr>weakest_path := pt\<rparr>"
    and ceil: "ceiling r = own_class nodes x" and k: "ceiling r = Some k"
    using root(3) by blast
  have lc: "ceiling_complete l" using rl assms(2) by simp
  have pt: "walk (edges_of edges) pt" "hd pt = t" "last pt = x"
    using search.path_walks [OF x(1)] by blast+
  have low: "\<exists>k'. own_class nodes y = Some k' \<and> k \<le> k'" if "reaches (dependencies nodes) t y" for y
  proof -
    from that same_reach [OF p size root(2)] obtain q where "map_of (paths_from edges t) y = Some q"
      using search.reached_path by blast
    from weakest_candidate [OF p size t r assms(2) k this] show ?thesis by auto
  qed
  show ?thesis
    using k ceil pt prepared_walk [OF p pt(1)] low weakest_path_shortest [OF p size t r assms(2) k] local_graded(5) [OF p x(2) lc] rl
    by (intro exI [of _ k]) auto
qed

theorem ceiling_is_minimum_witness:
  "map_option ceiling (map_of (compute_dependency_ceilings sample_graph) ''C-1@1'') = Some (Some Citation) \<and>
   Collect (reaches (dependencies sample_graph) ''C-1@1'') \<subseteq>
     {x. \<exists>k'. own_class sample_graph x = Some k' \<and> Citation \<le> k'}"
proof -
  let ?r = "\<lparr>ceiling_complete = True, ceiling = Some Citation,
      weakest_path = [''C-1@1'', ''C-3@1''], ceiling_reason = WeakestEvidence\<rparr>"
  have r: "map_of (compute_dependency_ceilings sample_graph) ''C-1@1'' = Some ?r"
    unfolding sample_graph_result by simp
  show ?thesis using ceiling_is_minimum [OF r] r by auto
qed

text \<open>The path of a cycle goes to a node and around the cycle back to it.\<close>

lemma cycle_path:
  assumes pt: "walk f pt" "last pt = x" and cy: "walk f cy" "hd cy = x" "last cy = x" "2 \<le> length cy"
  shows "walk f (pt @ tl cy) \<and> hd (pt @ tl cy) = hd pt \<and> last (pt @ tl cy) = x \<and> x \<in> set (butlast (pt @ tl cy))"
proof -
  have ne: "pt \<noteq> []" "tl cy \<noteq> []" using pt(1) cy(4) by (auto simp: length_Suc_conv numeral_2_eq_2 tl_Nil)
  have "walk f (pt @ tl cy)" using walk_join [OF pt(1) cy(1)] pt(2) cy(2) by simp
  moreover have "last (pt @ tl cy) = x" using ne cy(3) by (simp add: last_tl)
  moreover have "x \<in> set (butlast (pt @ tl cy))" using ne pt(2) by (auto simp: butlast_append)
  ultimately show ?thesis using ne by simp
qed

text \<open>
  C28. An unfavorable ceiling shows why: it names no class, and unless the graph is over its
  limits its witness path runs along declared dependencies from the target to a premise that
  is not sound, or back into itself when the reason is a dependency cycle.
\<close>

theorem unfavorable_ceiling_is_witnessed:
  assumes "map_of (compute_dependency_ceilings nodes) t = Some r" and "\<not> ceiling_complete r"
  shows "ceiling r = None \<and>
    (oversized nodes \<and> weakest_path r = [t] \<or>
     walk (dependencies nodes) (weakest_path r) \<and> hd (weakest_path r) = t \<and>
     (\<not> sound_premise nodes (last (weakest_path r)) \<or>
      ceiling_reason r = DependencyCycle \<and>
      last (weakest_path r) \<in> set (butlast (weakest_path r))))"
  using compute_cases [OF assms(1)]
proof (elim disjE exE conjE)
  fix q assume "oversized nodes" "r = unknown t q"
  then show ?thesis by (simp add: unknown_def)
next
  fix loc edges
  assume size: "\<not> oversized nodes" and p: "prepared nodes loc edges"
    and t: "t \<in> graph_targets nodes" and r: "r = root_ceiling loc edges t (the (map_of loc t))"
  show ?thesis
  proof (cases "sound_premise nodes t")
    case False
    from incomplete_result [OF p False t r] False show ?thesis by (auto simp: unknown_def)
  next
    case True
    note res = sound_result [OF p size True r]
    from res candidate_iff [OF p t, of r] obtain x pt where
      x: "map_of (paths_from edges t) x = Some pt" and
      c: "(\<exists>l. map_of loc x = Some l \<and> r = l\<lparr>weakest_path := pt\<rparr>) \<or>
        (\<exists>cy. cycle_at edges x = Some cy \<and> r = cycle_candidate pt cy)" by blast
    have pt: "walk (edges_of edges) pt" "hd pt = t" "last pt = x"
      using search.path_walks [OF x] by blast+
    from c show ?thesis
    proof (elim disjE exE conjE)
      fix l assume l: "map_of loc x = Some l" "r = l\<lparr>weakest_path := pt\<rparr>"
      with local_graded(2,3) [OF p l(1)] assms(2) size
      have "\<not> sound_premise nodes x" "ceiling r = None" by simp_all
      with l(2) pt prepared_walk [OF p pt(1)] show ?thesis by simp
    next
      fix cy assume cy: "cycle_at edges x = Some cy" "r = cycle_candidate pt cy"
      from cycle_at_walk [OF cy(1)] have "walk (edges_of edges) cy" "hd cy = x" "last cy = x" "2 \<le> length cy" by blast+
      then have "walk (edges_of edges) (pt @ tl cy) \<and> hd (pt @ tl cy) = t \<and> last (pt @ tl cy) = x \<and> x \<in> set (butlast (pt @ tl cy))"
        using cycle_path [OF pt(1,3)] pt(2) by blast
      then show ?thesis
        using prepared_walk [OF p] cy(2) by (simp add: cycle_candidate_def drop_Suc)
    qed
  qed
qed

definition cyclic_graph :: "ceiling_node list" where
  "cyclic_graph =
     [sample_node ''C-1@1'' [''C-2@3''] Certified, sample_node ''C-2@3'' [''C-1@1''] Computation]"

theorem unfavorable_ceiling_is_witnessed_witness:
  "walk (dependencies cyclic_graph) [''C-1@1'', ''C-2@3'', ''C-1@1'']"
proof -
  have comp: "map_of (compute_dependency_ceilings cyclic_graph) ''C-1@1'' =
      Some \<lparr>ceiling_complete = False, ceiling = None,
        weakest_path = [''C-1@1'', ''C-2@3'', ''C-1@1''], ceiling_reason = DependencyCycle\<rparr>"
    by code_simp
  show ?thesis using unfavorable_ceiling_is_witnessed [OF comp] by auto
qed

end
