(* ===== verification/Text.thy ===== *)
theory Text
  imports Prelude
begin

section \<open>Text: characters, decimal numbers, UTF-8 and JSON strings\<close>

text \<open>
  The parts of the source language's text handling that the components share: character
  classes of the regular expressions, decimal printing and reading of non-negative
  integers, UTF-8 length, \<open>encodeURIComponent\<close> and the string form of \<open>JSON.stringify\<close>,
  over the code units below 256 that a \<^typ>\<open>string\<close> holds.
\<close>

definition ascii_digit :: "char \<Rightarrow> bool" where
  "ascii_digit c \<longleftrightarrow> (let n = (of_char c :: nat) in 48 \<le> n \<and> n \<le> 57)"

definition ascii_letter :: "char \<Rightarrow> bool" where
  "ascii_letter c \<longleftrightarrow> (let n = (of_char c :: nat) in 65 \<le> n \<and> n \<le> 90 \<or> 97 \<le> n \<and> n \<le> 122)"

definition ascii_alnum :: "char \<Rightarrow> bool" where
  "ascii_alnum c \<longleftrightarrow> ascii_letter c \<or> ascii_digit c"

definition lower_hex :: "char \<Rightarrow> bool" where
  "lower_hex c \<longleftrightarrow> (let n = (of_char c :: nat) in 48 \<le> n \<and> n \<le> 57 \<or> 97 \<le> n \<and> n \<le> 102)"

subsection \<open>Decimal numbers\<close>

definition digit_of :: "nat \<Rightarrow> char" where
  "digit_of n = char_of (48 + n)"

definition digit_num :: "char \<Rightarrow> nat" where
  "digit_num c = of_char c - 48"

fun show_nat :: "nat \<Rightarrow> string" where
  "show_nat n = (if n < 10 then [digit_of n] else show_nat (n div 10) @ [digit_of (n mod 10)])"

declare show_nat.simps [simp del]

definition show_int :: "int \<Rightarrow> string" where
  "show_int n = (if n < 0 then CHR ''-'' # show_nat (nat (- n)) else show_nat (nat n))"

definition read_nat :: "string \<Rightarrow> nat" where
  "read_nat s = foldl (\<lambda>n c. 10 * n + digit_num c) 0 s"

lemma digit_of_props [simp]:
  assumes "d < 10"
  shows "digit_num (digit_of d) = d" and "ascii_digit (digit_of d)"
    and "digit_of d = CHR ''0'' \<longleftrightarrow> d = 0"
proof -
  have m: "(48 + d) mod 256 = 48 + d" using assms by simp
  have o: "(of_char (digit_of d) :: nat) = 48 + d"
    unfolding digit_of_def of_char_of using m by simp
  show "digit_num (digit_of d) = d" "ascii_digit (digit_of d)"
    using assms o by (simp_all add: digit_num_def ascii_digit_def Let_def)
  have "(of_char (digit_of d) :: nat) = of_char CHR ''0'' \<longleftrightarrow> d = 0" using o by simp
  then show "digit_of d = CHR ''0'' \<longleftrightarrow> d = 0" by (simp only: of_char_eq_iff)
qed

lemma show_nat_not_Nil [simp]: "show_nat n \<noteq> []"
  by (subst show_nat.simps) simp

lemma show_nat_digits: "\<forall>c \<in> set (show_nat n). ascii_digit c"
  by (induction n rule: show_nat.induct) (subst show_nat.simps, auto)

lemma read_show_nat [simp]: "read_nat (show_nat n) = n"
proof (induction n rule: show_nat.induct)
  case (1 n)
  show ?case
  proof (cases "n < 10")
    case True
    then show ?thesis by (subst show_nat.simps) (simp add: read_nat_def)
  next
    case False
    with 1 show ?thesis
      by (subst show_nat.simps) (simp add: read_nat_def)
  qed
qed

lemma hd_show_nat: "hd (show_nat n) = CHR ''0'' \<longleftrightarrow> n = 0"
proof (induction n rule: show_nat.induct)
  case (1 n)
  show ?case
  proof (cases "n < 10")
    case True
    then show ?thesis by (subst show_nat.simps) simp
  next
    case False
    with 1 show ?thesis by (subst show_nat.simps) (simp add: div_eq_0_iff)
  qed
qed

lemma length_show_nat: "n < 10 ^ k \<Longrightarrow> 1 \<le> k \<Longrightarrow> length (show_nat n) \<le> k"
proof (induction n arbitrary: k rule: show_nat.induct)
  case (1 n)
  show ?case
  proof (cases "n < 10")
    case True
    with 1 show ?thesis by (subst show_nat.simps) simp
  next
    case False
    with 1(2,3) obtain k' where k: "k = Suc k'" "1 \<le> k'"
      by (cases k; cases "k - 1") auto
    with 1(2) have "n div 10 < 10 ^ k'" by (simp add: less_mult_imp_div_less mult.commute)
    with 1(1) [OF False _ k(2)] False k(1) show ?thesis by (subst show_nat.simps) simp
  qed
qed

subsection \<open>Bytes\<close>

fun char_bytes :: "char \<Rightarrow> nat list" where
  "char_bytes c =
     (let n = of_char c in if n < 128 then [n] else [192 + n div 64, 128 + n mod 64])"

definition utf8_bytes :: "string \<Rightarrow> nat list" where
  "utf8_bytes s = concat (map char_bytes s)"

definition utf8_length :: "string \<Rightarrow> nat" where
  "utf8_length s = length (utf8_bytes s)"

definition ascii :: "char \<Rightarrow> bool" where
  "ascii c \<longleftrightarrow> (of_char c :: nat) < 128"

lemma utf8_length_append [simp]: "utf8_length (s @ t) = utf8_length s + utf8_length t"
  by (simp add: utf8_length_def utf8_bytes_def)

lemma utf8_length_ascii: "\<forall>c \<in> set s. ascii c \<Longrightarrow> utf8_length s = length s"
  by (induction s) (simp_all add: utf8_length_def utf8_bytes_def ascii_def)

definition hex_upper :: "nat \<Rightarrow> char" where
  "hex_upper n = (if n < 10 then char_of (48 + n) else char_of (55 + n))"

definition uri_unreserved :: "char \<Rightarrow> bool" where
  "uri_unreserved c \<longleftrightarrow> ascii_alnum c \<or> c \<in> set ''-_.!~*()'' \<or> c = CHR 39"

definition encode_uri_component :: "string \<Rightarrow> string" where
  "encode_uri_component s =
     concat (map (\<lambda>c. if uri_unreserved c then [c]
       else concat (map (\<lambda>b. [CHR ''%'', hex_upper (b div 16), hex_upper (b mod 16)]) (char_bytes c))) s)"

definition hex_lower :: "nat \<Rightarrow> char" where
  "hex_lower n = (if n < 10 then char_of (48 + n) else char_of (87 + n))"

definition json_char :: "char \<Rightarrow> string" where
  "json_char c =
     (let n = (of_char c :: nat) in
      if n = 34 then [CHR 92, CHR 34]
      else if n = 92 then [CHR 92, CHR 92]
      else if n = 8 then [CHR 92, CHR ''b'']
      else if n = 9 then [CHR 92, CHR ''t'']
      else if n = 10 then [CHR 92, CHR ''n'']
      else if n = 12 then [CHR 92, CHR ''f'']
      else if n = 13 then [CHR 92, CHR ''r'']
      else if n < 32 then [CHR 92, CHR ''u'', CHR ''0'', CHR ''0'', hex_lower (n div 16), hex_lower (n mod 16)]
      else [c])"

definition json_string :: "string \<Rightarrow> string" where
  "json_string s = [CHR 34] @ concat (map json_char s) @ [CHR 34]"

text \<open>Printing is the inverse of reading on numerals without a leading zero.\<close>

lemma digit_cases: "ascii_digit c \<Longrightarrow> digit_num c < 10 \<and> digit_of (digit_num c) = c"
proof -
  assume "ascii_digit c"
  then have "48 \<le> (of_char c :: nat)" "(of_char c :: nat) \<le> 57" by (simp_all add: ascii_digit_def Let_def)
  then have "digit_num c < 10" "48 + digit_num c = of_char c" unfolding digit_num_def by arith+
  then show ?thesis by (simp add: digit_of_def)
qed

lemma read_nat_snoc: "read_nat (s @ [c]) = 10 * read_nat s + digit_num c"
  by (simp add: read_nat_def)

lemma read_nat_pos:
  "s \<noteq> [] \<Longrightarrow> list_all ascii_digit s \<Longrightarrow> hd s \<noteq> CHR ''0'' \<Longrightarrow> 0 < read_nat s"
proof (induction s rule: rev_induct)
  case (snoc c s)
  show ?case
  proof (cases "s = []")
    case True
    with snoc digit_cases [of c] digit_of_props(3) [of "digit_num c"] show ?thesis
      by (auto simp: read_nat_def)
  next
    case False
    with snoc show ?thesis by (simp add: read_nat_snoc)
  qed
qed simp

lemma show_read_nat:
  "s \<noteq> [] \<Longrightarrow> list_all ascii_digit s \<Longrightarrow> hd s \<noteq> CHR ''0'' \<or> length s = 1 \<Longrightarrow> show_nat (read_nat s) = s"
proof (induction s rule: rev_induct)
  case (snoc c s)
  have c: "digit_num c < 10" "digit_of (digit_num c) = c" using digit_cases [of c] snoc.prems by auto
  show ?case
  proof (cases "s = []")
    case True
    with c show ?thesis by (subst show_nat.simps) (simp add: read_nat_def)
  next
    case False
    with snoc.prems have "hd s \<noteq> CHR ''0''" "list_all ascii_digit s" by auto
    with False snoc.IH read_nat_pos [of s] have "show_nat (read_nat s) = s" "0 < read_nat s" by auto
    with c show ?thesis by (subst show_nat.simps) (simp add: read_nat_snoc)
  qed
qed simp

lemma read_nat_bound: "list_all ascii_digit s \<Longrightarrow> length s \<le> k \<Longrightarrow> read_nat s < 10 ^ k"
proof (induction s arbitrary: k rule: rev_induct)
  case (snoc c s)
  then obtain k' where k: "k = Suc k'" "length s \<le> k'" by (cases k) auto
  with snoc digit_cases [of c] have "read_nat s < 10 ^ k'" "digit_num c < 10" by auto
  with k(1) show ?case by (simp add: read_nat_snoc)
qed (simp add: read_nat_def)

text \<open>Characters that JSON text carries unescaped in one byte.\<close>

definition json_plain :: "char \<Rightarrow> bool" where
  "json_plain c \<longleftrightarrow> (let n = (of_char c :: nat) in 32 \<le> n \<and> n < 128 \<and> n \<noteq> 34 \<and> n \<noteq> 92)"

lemma json_char_plain: "json_plain c \<Longrightarrow> json_char c = [c] \<and> ascii c"
  by (auto simp: json_plain_def json_char_def ascii_def Let_def)

lemma json_string_plain:
  assumes "list_all json_plain s"
  shows "utf8_length (json_string s) = length s + 2"
proof -
  from assms have "concat (map json_char s) = s" "\<forall>c \<in> set s. ascii c"
    by (induction s) (auto simp: json_char_plain)
  then have "utf8_length (concat (map json_char s)) = length s" by (simp add: utf8_length_ascii)
  moreover have "utf8_length [CHR 34] = 1" by (simp add: utf8_length_def utf8_bytes_def)
  ultimately show ?thesis unfolding json_string_def utf8_length_append by simp
qed

lemma encode_uri_plain:
  assumes "\<forall>c \<in> set s. json_plain c"
  shows "list_all json_plain (encode_uri_component s) \<and> length (encode_uri_component s) \<le> 3 * length s"
  using assms
proof (induction s)
  case (Cons c s)
  have hex: "json_plain (hex_upper n)" if "n < 16" for n
    using that by (simp add: json_plain_def hex_upper_def of_char_of Let_def)
  from Cons.prems have "(of_char c :: nat) < 128" by (simp add: json_plain_def Let_def)
  then have "char_bytes c = [of_char c]" "(of_char c :: nat) div 16 < 16" by (simp_all add: Let_def)
  moreover have "json_plain CHR ''%''" by (simp add: json_plain_def)
  ultimately show ?case using Cons hex by (auto simp: encode_uri_component_def)
qed (simp add: encode_uri_component_def)

end
