(* ===== verification/HeraldModel.thy ===== *)
theory HeraldModel
  imports Text
begin

section \<open>Room identifiers, cursors, acknowledgements and notices\<close>

text \<open>
  \<open>packages/contracts/src/herald-room-model.ts\<close>: the wire forms of the Herald rooms. The
  anchored regular expressions are predicates on the string, the acknowledgement grammar is
  a parser over it, and a notice is the exact JSON text.
\<close>

subsection \<open>Limits\<close>

definition room_connections :: nat where "room_connections = 32"
definition per_fellow :: nat where "per_fellow = 2"
definition per_sponsor :: nat where "per_sponsor = 8"
definition frame_bytes :: nat where "frame_bytes = 2048"
definition input_bytes :: nat where "input_bytes = 128"
definition acknowledgement_ms :: int where "acknowledgement_ms = 60000"
definition acknowledgement_interval_ms :: int where "acknowledgement_interval_ms = 250"
definition heartbeat_seconds :: nat where "heartbeat_seconds = 20"
definition silence_ms :: int where "silence_ms = 90000"
definition lifetime_ms :: int where "lifetime_ms = 900000"

subsection \<open>Identifiers and cursors\<close>

definition id_tail_char :: "char \<Rightarrow> bool" where
  "id_tail_char c \<longleftrightarrow> ascii_alnum c \<or> c \<in> set ''._:-''"

definition room_id :: "string \<Rightarrow> bool" where
  "room_id s \<longleftrightarrow>
     (case s of
        [] \<Rightarrow> False
      | c # cs \<Rightarrow> ascii_alnum c \<and> list_all id_tail_char cs \<and> length cs \<le> 127)"

fun has_double_dash :: "string \<Rightarrow> bool" where
  "has_double_dash (a # b # s) \<longleftrightarrow> a = CHR ''-'' \<and> b = CHR ''-'' \<or> has_double_dash (b # s)"
| "has_double_dash _ \<longleftrightarrow> False"

definition room_problem :: "string \<Rightarrow> bool" where
  "room_problem s \<longleftrightarrow> \<not> has_double_dash s \<and> room_id s"

definition room_cursor :: "jsnum \<Rightarrow> bool" where
  "room_cursor x \<longleftrightarrow> (case safe_int x of None \<Rightarrow> False | Some n \<Rightarrow> 0 \<le> n)"

definition cursor_text :: "string \<Rightarrow> bool" where
  "cursor_text s \<longleftrightarrow>
     s = ''0'' \<or>
     (case s of
        [] \<Rightarrow> False
      | c # cs \<Rightarrow> ascii_digit c \<and> c \<noteq> CHR ''0'' \<and> list_all ascii_digit cs \<and> length cs \<le> 15)"

text \<open>The number of a cursor text, when it is a cursor.\<close>

definition cursor_of_text :: "string \<Rightarrow> int option" where
  "cursor_of_text s =
     (let n = int (read_nat s) in if cursor_text s \<and> room_cursor (num n) then Some n else None)"

text \<open>The query parameters in order, with repetitions.\<close>

definition parse_room_since :: "(string \<times> string) list \<Rightarrow> int option" where
  "parse_room_since params =
     (if list_ex (\<lambda>(key, _). key \<noteq> ''since'' \<or>
           length (filter (\<lambda>(k, _). k = key) params) \<noteq> 1) params
      then None
      else cursor_of_text (case map_of params ''since'' of None \<Rightarrow> ''0'' | Some raw \<Rightarrow> raw))"

subsection \<open>Acknowledgements\<close>

datatype room_message = MessageText string | MessageBinary

definition skip_space :: "string \<Rightarrow> string" where
  "skip_space s = dropWhile js_space s"

definition expect :: "string \<Rightarrow> string \<Rightarrow> string option" where
  "expect token s = (if take (length token) s = token then Some (drop (length token) s) else None)"

text \<open>
  \<open>/^\s*\{\s*"ack"\s*:\s*(0|[1-9][0-9]{0,15})\s*\}\s*$/\<close>: no token begins with a character a
  preceding \<open>\s*\<close> or digit run could take, so reading greedily is matching.
\<close>

definition ack_digits :: "string \<Rightarrow> string option" where
  "ack_digits message =
     (case expect ''{'' (skip_space message) of None \<Rightarrow> None | Some s1 \<Rightarrow>
      case expect [CHR 34, CHR ''a'', CHR ''c'', CHR ''k'', CHR 34] (skip_space s1) of
        None \<Rightarrow> None | Some s2 \<Rightarrow>
      case expect '':'' (skip_space s2) of None \<Rightarrow> None | Some s3 \<Rightarrow>
      let digits = takeWhile ascii_digit (skip_space s3);
          s4 = dropWhile ascii_digit (skip_space s3)
      in case expect ''}'' (skip_space s4) of None \<Rightarrow> None | Some s5 \<Rightarrow>
         if skip_space s5 = [] \<and> cursor_text digits then Some digits else None)"

definition parse_room_ack :: "room_message \<Rightarrow> int option" where
  "parse_room_ack message =
     (case message of
        MessageBinary \<Rightarrow> None
      | MessageText text \<Rightarrow>
          if utf8_length text > input_bytes then None
          else case ack_digits text of
            None \<Rightarrow> None
          | Some digits \<Rightarrow> cursor_of_text digits)"

subsection \<open>Notices\<close>

definition schema_id :: string where
  "schema_id = ''https://a.asimposium.org/schemas/herald-room.v1.json''"

text \<open>\<open>None\<close> is the thrown \<open>HERALD_ROOM_CURSOR_INVALID\<close>.\<close>

definition room_tail_path :: "string \<Rightarrow> jsnum \<Rightarrow> jsnum option \<Rightarrow> string option" where
  "room_tail_path problem since through =
     (if \<not> room_problem problem \<or> \<not> room_cursor since \<or>
         (case through of None \<Rightarrow> False | Some t \<Rightarrow> \<not> room_cursor t \<or> js_less t since)
      then None
      else
        let digits = (\<lambda>x. case safe_int x of None \<Rightarrow> [] | Some n \<Rightarrow> show_nat (nat n))
        in Some (''/p/'' @ encode_uri_component problem @ ''/events.ndjson?since='' @ digits since @
             ''&limit=200'' @
             (case through of
                Some t \<Rightarrow> ''&through='' @ digits t
              | None \<Rightarrow> ''&wait=25'')))"

definition instruction :: string where
  "instruction = ''Read complete event-tail pages before acknowledging through. A room notice never advances a saved cursor. Invalidate cached object faces and revalidate them over HTTP. Deduplicate event IDs; fall back to polling on disconnect.''"

definition json_key :: "string \<Rightarrow> string" where
  "json_key k = json_string k @ '':''"

definition notice_text :: "string \<Rightarrow> int \<Rightarrow> int \<Rightarrow> string \<Rightarrow> string \<Rightarrow> string" where
  "notice_text problem since through events poll =
     ''{'' @ json_key ''control'' @ json_string ''resync'' @ '','' @
     json_key ''schema'' @ json_string schema_id @ '','' @
     json_key ''problem_id'' @ json_string problem @ '','' @
     json_key ''since'' @ show_nat (nat since) @ '','' @
     json_key ''through'' @ show_nat (nat through) @ '','' @
     json_key ''events'' @ json_string events @ '','' @
     json_key ''poll'' @ json_string poll @ '','' @
     json_key ''heartbeat'' @ ''{'' @ json_key ''request'' @ json_string ''ping'' @ '','' @
       json_key ''response'' @ json_string ''pong'' @ '','' @
       json_key ''seconds'' @ show_nat heartbeat_seconds @ ''},'' @
     json_key ''acknowledgement'' @ ''{'' @ json_key ''ack'' @ show_nat (nat through) @ ''},'' @
     json_key ''invalidate_cached_objects'' @ ''true,'' @
     json_key ''instruction'' @ json_string instruction @ ''}''"

text \<open>\<open>None\<close> is a thrown error: an invalid cursor or a frame above the byte limit.\<close>

definition room_notice :: "string \<Rightarrow> jsnum \<Rightarrow> jsnum \<Rightarrow> string option" where
  "room_notice problem since through =
     (case (room_tail_path problem since (Some through), room_tail_path problem since None) of
        (Some events, Some poll) \<Rightarrow>
          (case (safe_int since, safe_int through) of
             (Some s, Some t) \<Rightarrow>
               let text = notice_text problem s t events poll
               in if utf8_length text > frame_bytes then None else Some text
           | _ \<Rightarrow> None)
      | _ \<Rightarrow> None)"

lemma room_cursor_num: "room_cursor x \<longleftrightarrow> (\<exists>n. x = num n \<and> 0 \<le> n \<and> n \<le> max_safe_integer)"
  by (cases "safe_int x") (auto simp: room_cursor_def safe_int_eq_Some)

lemma max_cursor_digits: "n \<le> max_safe_integer \<Longrightarrow> length (show_nat (nat n)) \<le> 16"
  by (rule length_show_nat) (auto simp: max_safe_integer_def nat_less_iff)

lemma cursor_text_iff: "cursor_text s \<longleftrightarrow> (\<exists>n. s = show_nat n \<and> n < 10 ^ 16)"
proof
  assume c: "cursor_text s"
  then have "s \<noteq> []" "list_all ascii_digit s" "hd s \<noteq> CHR ''0'' \<or> length s = 1" "length s \<le> 16"
    by (auto simp: cursor_text_def ascii_digit_def split: list.splits)
  then show "\<exists>n. s = show_nat n \<and> n < 10 ^ 16"
    using show_read_nat [of s] read_nat_bound [of s 16] by metis
next
  assume "\<exists>n. s = show_nat n \<and> n < 10 ^ 16"
  then obtain n where n: "s = show_nat n" "n < 10 ^ 16" by blast
  have "length s \<le> 16" using n length_show_nat [of n 16] by simp
  moreover have "list_all ascii_digit s" using n(1) show_nat_digits by (simp add: list_all_iff)
  moreover have "hd s = CHR ''0'' \<longleftrightarrow> n = 0" using n(1) hd_show_nat by simp
  moreover have "n = 0 \<Longrightarrow> s = ''0''"
    using n(1) digit_of_props(3) [of 0] by (simp add: show_nat.simps [of 0])
  moreover have "s \<noteq> []" using n(1) by simp
  ultimately show "cursor_text s" by (cases s) (auto simp: cursor_text_def)
qed

lemma cursor_of_text_iff:
  "cursor_of_text s = Some n \<longleftrightarrow> s = show_nat (nat n) \<and> 0 \<le> n \<and> n \<le> max_safe_integer"
proof
  assume "cursor_of_text s = Some n"
  then have c: "cursor_text s" "room_cursor (num n)" "n = int (read_nat s)"
    by (auto simp: cursor_of_text_def Let_def split: if_splits)
  from c(1) obtain k where "s = show_nat k" by (auto simp: cursor_text_iff)
  with c(2,3) show "s = show_nat (nat n) \<and> 0 \<le> n \<and> n \<le> max_safe_integer"
    by (auto simp: room_cursor_num)
next
  assume n: "s = show_nat (nat n) \<and> 0 \<le> n \<and> n \<le> max_safe_integer"
  then have "nat n < 10 ^ 16" by (simp add: max_safe_integer_def nat_less_iff)
  with n have "cursor_text s" by (auto simp: cursor_text_iff)
  with n show "cursor_of_text s = Some n" by (simp add: cursor_of_text_def room_cursor_num)
qed

subsection \<open>Acknowledgement grammar\<close>

definition spaces :: "string \<Rightarrow> bool" where
  "spaces w \<longleftrightarrow> (\<forall>c \<in> set w. js_space c)"

lemma skip_space_split: "\<exists>w. spaces w \<and> s = w @ skip_space s"
  unfolding spaces_def skip_space_def
  by (metis set_takeWhileD takeWhile_dropWhile_id)

lemma skip_space_token: "spaces w \<Longrightarrow> \<not> js_space c \<Longrightarrow> skip_space (w @ c # s) = c # s"
  by (simp add: skip_space_def spaces_def dropWhile_append3)

lemma skip_space_end: "spaces w \<Longrightarrow> skip_space w = []"
  by (simp add: skip_space_def spaces_def dropWhile_eq_Nil_conv)

lemma expect_iff: "expect token s = Some r \<longleftrightarrow> s = token @ r"
  by (auto simp: expect_def) (metis append_take_drop_id)

abbreviation ack_key :: string where
  "ack_key \<equiv> [CHR 34, CHR ''a'', CHR ''c'', CHR ''k'', CHR 34]"

lemma ack_digits_sound:
  assumes "ack_digits s = Some d"
  shows "cursor_text d \<and> (\<exists>w1 w2 w3 w4 w5 w6. list_all spaces [w1, w2, w3, w4, w5, w6] \<and>
    s = w1 @ ''{'' @ w2 @ ack_key @ w3 @ '':'' @ w4 @ d @ w5 @ ''}'' @ w6)"
proof -
  obtain s1 where e1: "expect ''{'' (skip_space s) = Some s1"
    using assms by (cases "expect ''{'' (skip_space s)") (simp_all add: ack_digits_def)
  obtain s2 where e2: "expect ack_key (skip_space s1) = Some s2"
    using assms e1 by (cases "expect ack_key (skip_space s1)") (simp_all add: ack_digits_def)
  obtain s3 where e3: "expect '':'' (skip_space s2) = Some s3"
    using assms e1 e2 by (cases "expect '':'' (skip_space s2)") (simp_all add: ack_digits_def)
  define s4 where "s4 = dropWhile ascii_digit (skip_space s3)"
  obtain s5 where e5: "expect ''}'' (skip_space s4) = Some s5"
    using assms e1 e2 e3
    by (cases "expect ''}'' (skip_space s4)") (simp_all add: ack_digits_def s4_def)
  have d: "d = takeWhile ascii_digit (skip_space s3)" "cursor_text d" "skip_space s5 = []"
    using assms e1 e2 e3 e5 by (simp_all add: ack_digits_def s4_def [symmetric] Let_def split: if_splits)
  have "skip_space s3 = d @ s4" unfolding d(1) s4_def by simp
  with skip_space_split [of s3] obtain w4 where w4: "spaces w4" "s3 = w4 @ d @ s4" by auto
  from skip_space_split [of s] e1 obtain w1 where w1: "spaces w1" "s = w1 @ ''{'' @ s1"
    unfolding expect_iff by auto
  from skip_space_split [of s1] e2 obtain w2 where w2: "spaces w2" "s1 = w2 @ ack_key @ s2"
    unfolding expect_iff by auto
  from skip_space_split [of s2] e3 obtain w3 where w3: "spaces w3" "s2 = w3 @ '':'' @ s3"
    unfolding expect_iff by auto
  from skip_space_split [of s4] e5 obtain w5 where w5: "spaces w5" "s4 = w5 @ ''}'' @ s5"
    unfolding expect_iff by auto
  from skip_space_split [of s5] d(3) obtain w6 where w6: "spaces w6" "s5 = w6" by auto
  have "s = w1 @ ''{'' @ w2 @ ack_key @ w3 @ '':'' @ w4 @ d @ w5 @ ''}'' @ w6"
    unfolding w1(2) w2(2) w3(2) w4(2) w5(2) w6(2) append_assoc by (rule refl)
  moreover have "list_all spaces [w1, w2, w3, w4, w5, w6]" using w1 w2 w3 w4 w5 w6 by simp
  ultimately show ?thesis using d(2) by blast
qed

lemma ack_digits_complete:
  assumes "list_all spaces [w1, w2, w3, w4, w5, w6]" and "cursor_text d"
  shows "ack_digits (w1 @ ''{'' @ w2 @ ack_key @ w3 @ '':'' @ w4 @ d @ w5 @ ''}'' @ w6) = Some d"
proof -
  from assms(2) obtain c cs where d: "d = c # cs" "list_all ascii_digit d"
    by (auto simp: cursor_text_def ascii_digit_def split: list.splits)
  have ns: "\<not> js_space x" if "ascii_digit x" for x
    using that by (auto simp: js_space_def ascii_digit_def Let_def)
  have t: "takeWhile ascii_digit (d @ w5 @ ''}'' @ w6) = d"
    "dropWhile ascii_digit (d @ w5 @ ''}'' @ w6) = w5 @ ''}'' @ w6"
  proof -
    have "\<not> ascii_digit (hd (w5 @ ''}'' @ w6))"
      using assms(1) ns by (cases w5) (auto simp: spaces_def ascii_digit_def)
    with d(2) show "takeWhile ascii_digit (d @ w5 @ ''}'' @ w6) = d"
      "dropWhile ascii_digit (d @ w5 @ ''}'' @ w6) = w5 @ ''}'' @ w6"
      by (cases "w5 @ ''}'' @ w6"; simp add: list_all_iff takeWhile_append2 dropWhile_append2)+
  qed
  have tokens: "\<not> js_space CHR ''{''" "\<not> js_space CHR 34" "\<not> js_space CHR '':''" "\<not> js_space CHR ''}''"
    by (simp_all add: js_space_def)
  from assms(1) have w: "spaces w1" "spaces w2" "spaces w3" "spaces w4" "spaces w5" "spaces w6" by simp_all
  have k4: "skip_space (w4 @ d @ w5 @ ''}'' @ w6) = d @ w5 @ ''}'' @ w6"
    using skip_space_token [OF w(4), of c "cs @ w5 @ ''}'' @ w6"] d ns by simp
  show ?thesis
    unfolding ack_digits_def
    using skip_space_token [OF w(1) tokens(1)] skip_space_token [OF w(2) tokens(2)]
      skip_space_token [OF w(3) tokens(3)] skip_space_token [OF w(5) tokens(4), of w6]
      skip_space_end [OF w(6)] k4 t assms(2)
    by (simp add: expect_def Let_def)
qed

text \<open>
  An acknowledgement is one exact decimal cursor: a message is accepted as
  acknowledging n exactly when it is text of at most 128 bytes that is, up to white space
  between the tokens, the object with the single key ack and the canonical decimal of n, a
  non-negative safe integer.
\<close>

theorem ack_is_one_exact_cursor:
  "parse_room_ack message = Some n \<longleftrightarrow>
     (\<exists>w1 w2 w3 w4 w5 w6 s. message = MessageText s \<and> utf8_length s \<le> input_bytes \<and>
        list_all spaces [w1, w2, w3, w4, w5, w6] \<and> 0 \<le> n \<and> n \<le> max_safe_integer \<and>
        s = w1 @ ''{'' @ w2 @ ack_key @ w3 @ '':'' @ w4 @ show_nat (nat n) @ w5 @ ''}'' @ w6)"
proof
  assume a: "parse_room_ack message = Some n"
  then obtain s d where s: "message = MessageText s" "utf8_length s \<le> input_bytes"
      "ack_digits s = Some d" "cursor_of_text d = Some n"
    by (auto simp: parse_room_ack_def split: room_message.splits if_splits option.splits)
  from ack_digits_sound [OF s(3)] s(4) s(1,2) cursor_of_text_iff [of d n]
  show "\<exists>w1 w2 w3 w4 w5 w6 s. message = MessageText s \<and> utf8_length s \<le> input_bytes \<and>
        list_all spaces [w1, w2, w3, w4, w5, w6] \<and> 0 \<le> n \<and> n \<le> max_safe_integer \<and>
        s = w1 @ ''{'' @ w2 @ ack_key @ w3 @ '':'' @ w4 @ show_nat (nat n) @ w5 @ ''}'' @ w6"
    by blast
next
  assume "\<exists>w1 w2 w3 w4 w5 w6 s. message = MessageText s \<and> utf8_length s \<le> input_bytes \<and>
        list_all spaces [w1, w2, w3, w4, w5, w6] \<and> 0 \<le> n \<and> n \<le> max_safe_integer \<and>
        s = w1 @ ''{'' @ w2 @ ack_key @ w3 @ '':'' @ w4 @ show_nat (nat n) @ w5 @ ''}'' @ w6"
  then obtain w1 w2 w3 w4 w5 w6 s where m: "message = MessageText s" "utf8_length s \<le> input_bytes"
    and w: "list_all spaces [w1, w2, w3, w4, w5, w6]" and n: "0 \<le> n" "n \<le> max_safe_integer"
    and s: "s = w1 @ ''{'' @ w2 @ ack_key @ w3 @ '':'' @ w4 @ show_nat (nat n) @ w5 @ ''}'' @ w6"
    by blast
  have c: "cursor_of_text (show_nat (nat n)) = Some n" using n by (simp add: cursor_of_text_iff)
  then have "cursor_text (show_nat (nat n))" by (simp add: cursor_of_text_def Let_def split: if_splits)
  from ack_digits_complete [OF w this] c m show "parse_room_ack message = Some n"
    unfolding s [symmetric] by (simp add: parse_room_ack_def)
qed

subsection \<open>The frame bound\<close>

lemma id_char_plain: "id_tail_char c \<Longrightarrow> json_plain c"
  by (auto simp: id_tail_char_def ascii_alnum_def ascii_letter_def ascii_digit_def json_plain_def Let_def)

lemma room_problem_plain:
  assumes "room_problem p"
  shows "list_all json_plain p" and "length p \<le> 128" and "p \<noteq> []"
proof -
  from assms obtain c cs where p: "p = c # cs" "ascii_alnum c" "list_all id_tail_char cs" "length cs \<le> 127"
    by (auto simp: room_problem_def room_id_def split: list.splits)
  then have "list_all id_tail_char p" by (simp add: id_tail_char_def)
  then show "list_all json_plain p" using id_char_plain by (simp add: list_all_iff)
  show "length p \<le> 128" "p \<noteq> []" using p by simp_all
qed

lemma digits_plain: "list_all json_plain (show_nat n)"
  using show_nat_digits [of n]
  by (auto simp: list_all_iff ascii_digit_def json_plain_def Let_def)

lemma tail_path_shape:
  assumes "room_problem p" and "0 \<le> s" "s \<le> max_safe_integer"
    and "case t of None \<Rightarrow> True | Some t' \<Rightarrow> s \<le> t' \<and> t' \<le> max_safe_integer"
  shows "\<exists>path. room_tail_path p (num s) (map_option (\<lambda>n. num n) t) = Some path \<and>
    list_all json_plain path \<and> length path \<le> 3 * length p + 75"
proof -
  let ?path = "''/p/'' @ encode_uri_component p @ ''/events.ndjson?since='' @ show_nat (nat s) @
      ''&limit=200'' @ (case t of Some t' \<Rightarrow> ''&through='' @ show_nat (nat t') | None \<Rightarrow> ''&wait=25'')"
  have enc: "list_all json_plain (encode_uri_component p)" "length (encode_uri_component p) \<le> 3 * length p"
    using encode_uri_plain [of p] room_problem_plain(1) [OF assms(1)] by (simp_all add: list_all_iff)
  have len: "length (show_nat (nat s)) \<le> 16" "\<And>t'. t = Some t' \<Longrightarrow> length (show_nat (nat t')) \<le> 16"
    using assms(3,4) max_cursor_digits by auto
  have "room_tail_path p (num s) (map_option (\<lambda>n. num n) t) = Some ?path"
    using assms by (cases t) (auto simp: room_tail_path_def room_cursor_num)
  moreover have "list_all json_plain ?path"
    using enc(1) digits_plain by (cases t) (simp_all add: json_plain_def)
  moreover have "length ?path \<le> 3 * length p + 75"
    using enc(2) len by (cases t) auto
  ultimately show ?thesis by blast
qed

text \<open>The text of a notice apart from its five variable parts is constant.\<close>

definition notice_overhead :: nat where
  "notice_overhead = utf8_length (notice_text [] 0 0 [] [])"

lemma notice_overhead_value: "notice_overhead \<le> 512"
  by code_simp

lemma notice_length:
  assumes "list_all json_plain p" and "list_all json_plain events" and "list_all json_plain poll"
    and "length (show_nat (nat s)) \<le> 16" and "length (show_nat (nat t)) \<le> 16"
  shows "utf8_length (notice_text p s t events poll) \<le>
    notice_overhead + length p + length events + length poll + 48"
proof -
  have d: "utf8_length (show_nat n) = length (show_nat n)" for n
    using digits_plain [of n] json_char_plain by (intro utf8_length_ascii) (auto simp: list_all_iff)
  have z: "1 \<le> utf8_length (show_nat 0)" "utf8_length (json_string []) = 2"
    using d [of 0] json_string_plain [of "[]"] show_nat_not_Nil [of 0]
    by (cases "show_nat 0"; simp)+
  show ?thesis
    unfolding notice_text_def notice_overhead_def utf8_length_append
    using assms d z by (simp add: json_string_plain)
qed

text \<open>
  A room notice always fits its frame: for every problem id and every two cursors in
  order, the notice is produced and is at most 2048 bytes, so sending never fails on its
  content; for an invalid problem id or cursors out of order no notice is produced.
\<close>

theorem room_notice_always_fits:
  "(\<exists>text. room_notice p since through = Some text \<and> utf8_length text \<le> frame_bytes) \<longleftrightarrow>
     room_problem p \<and> room_cursor since \<and> room_cursor through \<and> \<not> js_less through since"
proof
  assume "\<exists>text. room_notice p since through = Some text \<and> utf8_length text \<le> frame_bytes"
  then obtain path where "room_tail_path p since (Some through) = Some path"
    by (auto simp: room_notice_def split: option.splits)
  then show "room_problem p \<and> room_cursor since \<and> room_cursor through \<and> \<not> js_less through since"
    by (auto simp: room_tail_path_def split: if_splits)
next
  assume a: "room_problem p \<and> room_cursor since \<and> room_cursor through \<and> \<not> js_less through since"
  then obtain s t where st: "since = num s" "through = num t" "0 \<le> s" "s \<le> t" "t \<le> max_safe_integer"
    by (auto simp: room_cursor_num)
  from a have p: "room_problem p" by simp
  from tail_path_shape [OF p st(3), of "Some t"] tail_path_shape [OF p st(3), of None] st
  obtain events poll where
    events: "room_tail_path p since (Some through) = Some events" "list_all json_plain events"
      "length events \<le> 3 * length p + 75" and
    poll: "room_tail_path p since None = Some poll" "list_all json_plain poll"
      "length poll \<le> 3 * length p + 75"
    by auto
  have sizes: "length (show_nat (nat s)) \<le> 16" "length (show_nat (nat t)) \<le> 16"
    using st max_cursor_digits by simp_all
  have "utf8_length (notice_text p s t events poll) \<le> 512 + 128 + 459 + 459 + 48"
    using notice_length [OF room_problem_plain(1) [OF p] events(2) poll(2) sizes]
      notice_overhead_value room_problem_plain(2) [OF p] events(3) poll(3) by linarith
  then have "utf8_length (notice_text p s t events poll) \<le> frame_bytes" by (simp add: frame_bytes_def)
  with events(1) poll(1) st
  show "\<exists>text. room_notice p since through = Some text \<and> utf8_length text \<le> frame_bytes"
    by (auto simp: room_notice_def Let_def)
qed

end
