(* ===== verification/HeraldRoom.thy ===== *)
theory HeraldRoom
  imports HeraldModel
begin

section \<open>The Herald room fan-out (\<open>herald/room-core.ts\<close>)\<close>

text \<open>
  One room is the list of its sockets. A socket keeps what the hibernation port keeps for
  it: its ready state, the value last serialized as its attachment, the frames sent and the
  closes requested; three flags say whether the port's \<open>send\<close>, \<open>serializeAttachment\<close> and
  \<open>close\<close> throw, and a stored value may be anything, so every failure branch of the code is
  a branch of the model. Each method of \<open>HeraldRoomFanout\<close> is a function from the socket and
  its arguments to its result and the socket after it.
\<close>

subsection \<open>Values, sockets and attachments\<close>

datatype json_value = JString string | JNumber jsnum | JBool bool | JOther

text \<open>\<open>Unreadable\<close>: deserializing throws; \<open>NotObject\<close>: null, a scalar or an array.\<close>

datatype stored_value = Unreadable | NotObject | Fields "(string \<times> json_value) list"

record room_socket =
  ready_state :: int
  stored :: stored_value
  frames :: "string list"
  closes :: "(int \<times> string) list"
  send_throws :: bool
  serialize_throws :: bool
  close_throws :: bool

record room_identity =
  fellow_id :: string
  sponsor_id :: string
  problem_binding :: "string option"

text \<open>The version field is the constant 1 of every attachment.\<close>

record room_attachment =
  att_problem :: string
  att_fellow :: string
  att_sponsor :: string
  token_hash :: string
  acknowledged :: int
  announced :: int
  pending :: bool
  dirty :: bool
  connected_at :: int
  expires_at :: int
  sent_at :: int
  last_message_at :: int

definition attachment_keys :: "string list" where
  "attachment_keys =
     [''v'', ''problemId'', ''fellowId'', ''sponsorId'', ''tokenHash'', ''acknowledged'',
      ''announced'', ''pending'', ''dirty'', ''connectedAt'', ''expiresAt'', ''sentAt'',
      ''lastMessageAt'']"

definition attachment_fields :: "room_attachment \<Rightarrow> (string \<times> json_value) list" where
  "attachment_fields a =
     [(''v'', JNumber (num 1)), (''problemId'', JString (att_problem a)),
      (''fellowId'', JString (att_fellow a)), (''sponsorId'', JString (att_sponsor a)),
      (''tokenHash'', JString (token_hash a)), (''acknowledged'', JNumber (num (acknowledged a))),
      (''announced'', JNumber (num (announced a))), (''pending'', JBool (pending a)),
      (''dirty'', JBool (dirty a)), (''connectedAt'', JNumber (num (connected_at a))),
      (''expiresAt'', JNumber (num (expires_at a))), (''sentAt'', JNumber (num (sent_at a))),
      (''lastMessageAt'', JNumber (num (last_message_at a)))]"

text \<open>A field that must hold a string satisfying a test, a cursor, or a boolean.\<close>

definition string_field :: "(string \<Rightarrow> bool) \<Rightarrow> (string \<times> json_value) list \<Rightarrow> string \<Rightarrow> string option" where
  "string_field ok obj k =
     (case map_of obj k of Some (JString s) \<Rightarrow> if ok s then Some s else None | _ \<Rightarrow> None)"

definition cursor_field :: "(string \<times> json_value) list \<Rightarrow> string \<Rightarrow> int option" where
  "cursor_field obj k =
     (case map_of obj k of
        Some (JNumber x) \<Rightarrow> if room_cursor x then safe_int x else None
      | _ \<Rightarrow> None)"

definition bool_field :: "(string \<times> json_value) list \<Rightarrow> string \<Rightarrow> bool option" where
  "bool_field obj k = (case map_of obj k of Some (JBool b) \<Rightarrow> Some b | _ \<Rightarrow> None)"

definition token_hash_text :: "string \<Rightarrow> bool" where
  "token_hash_text s \<longleftrightarrow> length s = 64 \<and> list_all lower_hex s"

definition read_attachment :: "(string \<times> json_value) list \<Rightarrow> room_attachment option" where
  "read_attachment obj =
     (case (string_field room_problem obj ''problemId'', string_field room_id obj ''fellowId'',
            string_field room_id obj ''sponsorId'', string_field token_hash_text obj ''tokenHash'') of
        (Some p, Some f, Some s, Some h) \<Rightarrow>
          (case (cursor_field obj ''acknowledged'', cursor_field obj ''announced'',
                 bool_field obj ''pending'', bool_field obj ''dirty'') of
             (Some ack, Some ann, Some pend, Some dirt) \<Rightarrow>
               (case (cursor_field obj ''connectedAt'', cursor_field obj ''expiresAt'',
                      cursor_field obj ''sentAt'', cursor_field obj ''lastMessageAt'') of
                  (Some con, Some ex, Some sent, Some las) \<Rightarrow>
                    Some \<lparr>att_problem = p, att_fellow = f, att_sponsor = s, token_hash = h,
                      acknowledged = ack, announced = ann, pending = pend, dirty = dirt,
                      connected_at = con, expires_at = ex, sent_at = sent, last_message_at = las\<rparr>
                | _ \<Rightarrow> None)
           | _ \<Rightarrow> None)
      | _ \<Rightarrow> None)"

text \<open>The relations between the fields that \<open>roomAttachment\<close> checks.\<close>

definition attachment_consistent :: "room_attachment \<Rightarrow> bool" where
  "attachment_consistent a \<longleftrightarrow>
     acknowledged a \<le> announced a \<and> expires_at a = connected_at a + lifetime_ms \<and>
     connected_at a \<le> sent_at a \<and> sent_at a < expires_at a \<and>
     (pending a \<or> acknowledged a = announced a)"

definition room_attachment_of :: "room_socket \<Rightarrow> room_attachment option" where
  "room_attachment_of socket =
     (case stored socket of
        Unreadable \<Rightarrow> None
      | NotObject \<Rightarrow> None
      | Fields obj \<Rightarrow>
          if length obj \<noteq> length attachment_keys \<or>
             list_ex (\<lambda>(key, _). key \<notin> set attachment_keys) obj \<or>
             map_of obj ''v'' \<noteq> Some (JNumber (num 1))
          then None
          else case read_attachment obj of
            None \<Rightarrow> None
          | Some a \<Rightarrow> if attachment_consistent a then Some a else None)"

subsection \<open>Port calls\<close>

definition close_room_socket :: "int \<Rightarrow> string \<Rightarrow> room_socket \<Rightarrow> room_socket" where
  "close_room_socket code reason socket =
     (if close_throws socket then socket
      else socket\<lparr>ready_state := 2, closes := closes socket @ [(code, reason)]\<rparr>)"

text \<open>\<open>None\<close>: the call throws.\<close>

definition serialize_attachment :: "room_attachment \<Rightarrow> room_socket \<Rightarrow> room_socket option" where
  "serialize_attachment a socket =
     (if serialize_throws socket then None
      else Some (socket\<lparr>stored := Fields (attachment_fields a)\<rparr>))"

definition socket_send :: "string \<Rightarrow> room_socket \<Rightarrow> room_socket option" where
  "socket_send text socket =
     (if send_throws socket then None else Some (socket\<lparr>frames := frames socket @ [text]\<rparr>))"

definition unavailable :: string where
  "unavailable = ''Room unavailable; use event-tail recovery''"

subsection \<open>The fan-out\<close>

definition room_identity_matches :: "room_attachment \<Rightarrow> room_identity option \<Rightarrow> bool" where
  "room_identity_matches a identity \<longleftrightarrow>
     (case identity of
        None \<Rightarrow> False
      | Some i \<Rightarrow> fellow_id i = att_fellow a \<and> sponsor_id i = att_sponsor a \<and>
          (case problem_binding i of None \<Rightarrow> True | Some b \<Rightarrow> b = att_problem a))"

definition send_notice :: "room_socket \<Rightarrow> room_attachment \<Rightarrow> int \<Rightarrow> int \<Rightarrow> room_socket" where
  "send_notice socket a through now =
     (case room_notice (att_problem a) (num (acknowledged a)) (num through) of
        None \<Rightarrow> close_room_socket 1011 unavailable socket
      | Some frame \<Rightarrow>
          (case serialize_attachment
              (a\<lparr>announced := through, pending := True, dirty := False, sent_at := now\<rparr>) socket of
             None \<Rightarrow> close_room_socket 1011 unavailable socket
           | Some socket1 \<Rightarrow>
               (case socket_send frame socket1 of
                  None \<Rightarrow> close_room_socket 1011 unavailable socket1
                | Some socket2 \<Rightarrow> socket2)))"

definition live :: "room_socket \<Rightarrow> jsnum \<Rightarrow> (room_attachment \<times> int) option \<times> room_socket" where
  "live socket now =
     (if ready_state socket \<noteq> 1 then (None, socket)
      else case (room_attachment_of socket, if room_cursor now then safe_int now else None) of
        (Some a, Some t) \<Rightarrow>
          if t < connected_at a \<or> t \<ge> expires_at a
          then (None, close_room_socket 1008 ''Room authorization expired'' socket)
          else if pending a \<and> t - sent_at a \<ge> acknowledgement_ms
          then (None, close_room_socket 1013 ''Read the event tail before reconnecting'' socket)
          else (Some (a, t), socket)
      | _ \<Rightarrow> (None, close_room_socket 1008 ''Room authorization expired'' socket))"

text \<open>The head is \<open>None\<close> for the source's \<open>null\<close>; with a result it is returned as a cursor.\<close>

definition authorized ::
  "room_socket \<Rightarrow> room_identity option \<Rightarrow> jsnum option \<Rightarrow> jsnum \<Rightarrow>
   (room_attachment \<times> int \<times> int) option \<times> room_socket" where
  "authorized socket identity head now =
     (case live socket now of
        (None, socket1) \<Rightarrow> (None, socket1)
      | (Some (a, t), socket1) \<Rightarrow>
          (case head of
             None \<Rightarrow> (None, close_room_socket 1008 ''Room access ended'' socket1)
           | Some h \<Rightarrow>
               if \<not> room_identity_matches a identity
               then (None, close_room_socket 1008 ''Room access ended'' socket1)
               else case (if room_cursor h then safe_int h else None) of
                 None \<Rightarrow> (None, close_room_socket 1011 unavailable socket1)
               | Some seq \<Rightarrow>
                   if seq < announced a
                   then (None, close_room_socket 1011 unavailable socket1)
                   else (Some (a, seq, t), socket1)))"

text \<open>The result is the acknowledged cursor; \<open>Inl\<close> is a throwing \<open>serializeAttachment\<close>.\<close>

definition begin_ack :: "room_socket \<Rightarrow> room_message \<Rightarrow> jsnum \<Rightarrow> (unit + int option) \<times> room_socket" where
  "begin_ack socket message now =
     (let ack = parse_room_ack message
      in case live socket now of
        (None, socket1) \<Rightarrow> (Inr None, socket1)
      | (Some (a, t), socket1) \<Rightarrow>
          if ack = None \<or> ack \<noteq> Some (announced a)
          then (Inr None, close_room_socket
                  (case message of MessageText _ \<Rightarrow> 1008 | MessageBinary \<Rightarrow> 1003)
                  ''Invalid room acknowledgement'' socket1)
          else if \<not> pending a then (Inr None, socket1)
          else if last_message_at a \<noteq> 0 \<and> t - last_message_at a < acknowledgement_interval_ms
          then (Inr None, close_room_socket 1013 ''Use event-tail polling before reconnecting'' socket1)
          else case serialize_attachment (a\<lparr>last_message_at := t\<rparr>) socket1 of
            None \<Rightarrow> (Inl (), socket1)
          | Some socket2 \<Rightarrow> (Inr ack, socket2))"

definition complete_ack ::
  "room_socket \<Rightarrow> int \<Rightarrow> room_identity option \<Rightarrow> jsnum option \<Rightarrow> jsnum \<Rightarrow> (unit + unit) \<times> room_socket" where
  "complete_ack socket ack identity head now =
     (case authorized socket identity head now of
        (None, socket1) \<Rightarrow> (Inr (), socket1)
      | (Some (a, seq, t), socket1) \<Rightarrow>
          if \<not> pending a \<or> ack \<noteq> announced a then (Inr (), socket1)
          else
            let refresh = dirty a;
                a1 = a\<lparr>acknowledged := ack, pending := False, dirty := False\<rparr>
            in case serialize_attachment a1 socket1 of
                 None \<Rightarrow> (Inl (), socket1)
               | Some socket2 \<Rightarrow>
                   if seq > ack \<or> refresh
                   then (Inr (), send_notice socket2 a1 (max seq ack) t)
                   else (Inr (), socket2))"

definition refresh ::
  "room_socket \<Rightarrow> room_identity option \<Rightarrow> jsnum option \<Rightarrow> jsnum \<Rightarrow> (unit + unit) \<times> room_socket" where
  "refresh socket identity head now =
     (case authorized socket identity head now of
        (None, socket1) \<Rightarrow> (Inr (), socket1)
      | (Some (a, seq, t), socket1) \<Rightarrow>
          if pending a then
            (case serialize_attachment (a\<lparr>dirty := True\<rparr>) socket1 of
               None \<Rightarrow> (Inl (), socket1)
             | Some socket2 \<Rightarrow> (Inr (), socket2))
          else (Inr (), send_notice socket1 a (max seq (acknowledged a)) t))"

text \<open>The last ping is a whole number of milliseconds, or absent.\<close>

definition revalidate ::
  "room_socket \<Rightarrow> room_identity option \<Rightarrow> jsnum option \<Rightarrow> jsnum \<Rightarrow> int option \<Rightarrow> room_socket" where
  "revalidate socket identity head now last_ping =
     (case authorized socket identity head now of
        (None, socket1) \<Rightarrow> socket1
      | (Some (a, seq, t), socket1) \<Rightarrow>
          if t - max (max (connected_at a) (last_message_at a))
                 (case last_ping of None \<Rightarrow> 0 | Some p \<Rightarrow> p) > silence_ms
          then close_room_socket 1001 ''Room heartbeat expired'' socket1 else socket1)"

datatype connect_result = Accepted | Capacity | Invalid

definition connect_valid ::
  "string \<Rightarrow> jsnum \<Rightarrow> string \<Rightarrow> room_identity \<Rightarrow> jsnum \<Rightarrow> jsnum \<Rightarrow> bool" where
  "connect_valid problem since hash identity head now \<longleftrightarrow>
     room_problem problem \<and> room_cursor since \<and> room_cursor head \<and> \<not> js_less head since \<and>
     room_cursor now \<and>
     (case safe_int now of None \<Rightarrow> False | Some t \<Rightarrow> room_cursor (num (t + lifetime_ms))) \<and>
     room_id (fellow_id identity) \<and> room_id (sponsor_id identity) \<and> token_hash_text hash \<and>
     (case problem_binding identity of None \<Rightarrow> True | Some b \<Rightarrow> b = problem)"

definition at_capacity :: "room_socket list \<Rightarrow> room_identity \<Rightarrow> bool" where
  "at_capacity sockets identity \<longleftrightarrow>
     (let attachments = List.map_filter room_attachment_of sockets
      in length sockets \<ge> room_connections \<or>
         length (filter (\<lambda>a. att_fellow a = fellow_id identity) attachments) \<ge> per_fellow \<or>
         length (filter (\<lambda>a. att_sponsor a = sponsor_id identity) attachments) \<ge> per_sponsor)"

definition initial_attachment ::
  "string \<Rightarrow> int \<Rightarrow> string \<Rightarrow> room_identity \<Rightarrow> int \<Rightarrow> room_attachment" where
  "initial_attachment problem since hash identity now =
     \<lparr>att_problem = problem, att_fellow = fellow_id identity, att_sponsor = sponsor_id identity,
      token_hash = hash, acknowledged = since, announced = since, pending = False, dirty = False,
      connected_at = now, expires_at = now + lifetime_ms, sent_at = now, last_message_at = 0\<rparr>"

text \<open>Accepting adds the socket to the port's sockets; the room after the call is returned.\<close>

definition connect ::
  "room_socket list \<Rightarrow> room_socket \<Rightarrow> string \<Rightarrow> jsnum \<Rightarrow> string \<Rightarrow> room_identity \<Rightarrow> jsnum \<Rightarrow> jsnum \<Rightarrow>
   connect_result \<times> room_socket list" where
  "connect sockets socket problem since hash identity head now =
     (if \<not> connect_valid problem since hash identity head now then (Invalid, sockets)
      else if at_capacity sockets identity then (Capacity, sockets)
      else case (safe_int since, safe_int head, safe_int now) of
        (Some s, Some h, Some t) \<Rightarrow>
          (Accepted, sockets @
             [send_notice socket (initial_attachment problem s hash identity t) h t])
      | _ \<Rightarrow> (Invalid, sockets))"

end
