(* ===== verification/HeraldLaws.thy ===== *)
theory HeraldLaws
  imports HeraldRoom
begin

section \<open>What the Herald room guarantees\<close>

text \<open>
  A stored attachment reads back as written, every call of the fan-out leaves a readable
  attachment of the same connection with cursors that only grow, one client never has more
  than one unacknowledged frame, frames go only to authorized connections, and the room
  stays within its limits whatever happens to its sockets.
\<close>

subsection \<open>Attachments read back\<close>

definition cursor_int :: "int \<Rightarrow> bool" where
  "cursor_int n \<longleftrightarrow> 0 \<le> n \<and> n \<le> max_safe_integer"

definition well_formed :: "room_attachment \<Rightarrow> bool" where
  "well_formed a \<longleftrightarrow>
     room_problem (att_problem a) \<and> room_id (att_fellow a) \<and> room_id (att_sponsor a) \<and>
     token_hash_text (token_hash a) \<and> attachment_consistent a \<and>
     list_all cursor_int [acknowledged a, announced a, connected_at a, expires_at a, sent_at a,
       last_message_at a]"

lemma room_cursor_int [simp]: "room_cursor (num n) \<longleftrightarrow> cursor_int n"
  by (auto simp: room_cursor_num cursor_int_def)

lemma room_cursor_safe: "room_cursor x \<Longrightarrow> \<exists>n. safe_int x = Some n"
  by (cases "safe_int x") (simp_all add: room_cursor_def)

lemma cursor_int_safe [simp]: "cursor_int n \<Longrightarrow> safe_int (num n) = Some n"
  by (simp add: cursor_int_def)

lemma read_written: "well_formed a \<Longrightarrow> read_attachment (attachment_fields a) = Some a"
  by (simp add: read_attachment_def attachment_fields_def string_field_def cursor_field_def
      bool_field_def well_formed_def del: safe_int_num)

lemma attachment_of_written:
  assumes "stored s = Fields (attachment_fields a)" and "well_formed a"
  shows "room_attachment_of s = Some a"
proof -
  have "attachment_consistent a" using assms(2) by (simp add: well_formed_def)
  moreover have "length (attachment_fields a) = length attachment_keys"
    "\<not> list_ex (\<lambda>(key, _). key \<notin> set attachment_keys) (attachment_fields a)"
    "map_of (attachment_fields a) ''v'' = Some (JNumber (num 1))"
    by (simp_all add: attachment_fields_def attachment_keys_def)
  ultimately show ?thesis
    unfolding room_attachment_of_def assms(1) stored_value.case using read_written [OF assms(2)] by simp
qed

lemma cursor_field_int: "cursor_field obj k = Some n \<Longrightarrow> cursor_int n"
  by (auto simp: cursor_field_def safe_int_eq_Some split: option.splits json_value.splits if_splits)

lemma string_field_ok: "string_field ok obj k = Some s \<Longrightarrow> ok s"
  by (auto simp: string_field_def split: option.splits json_value.splits if_splits)

lemma read_attachment_fields:
  assumes "read_attachment obj = Some a"
  shows "room_problem (att_problem a) \<and> room_id (att_fellow a) \<and> room_id (att_sponsor a) \<and>
    token_hash_text (token_hash a) \<and>
    list_all cursor_int [acknowledged a, announced a, connected_at a, expires_at a, sent_at a,
      last_message_at a]"
  using assms unfolding read_attachment_def
  by (auto split: option.splits prod.splits dest: string_field_ok cursor_field_int)

lemma attachment_well_formed: "room_attachment_of s = Some a \<Longrightarrow> well_formed a"
  using read_attachment_fields
  by (auto simp: room_attachment_of_def well_formed_def split: stored_value.splits option.splits if_splits)

lemma attachment_of_cong: "stored s' = stored s \<Longrightarrow> room_attachment_of s' = room_attachment_of s"
  by (simp add: room_attachment_of_def)

lemma close_frame [simp]:
  "stored (close_room_socket c r s) = stored s" "frames (close_room_socket c r s) = frames s"
  by (simp_all add: close_room_socket_def)

lemma serialize_Some:
  "serialize_attachment a s = Some s' \<longleftrightarrow>
     \<not> serialize_throws s \<and> s' = s\<lparr>stored := Fields (attachment_fields a)\<rparr>"
  by (auto simp: serialize_attachment_def)

lemma serialize_None: "serialize_attachment a s = None \<longleftrightarrow> serialize_throws s"
  by (simp add: serialize_attachment_def)

subsection \<open>The effect of one call\<close>

text \<open>The same connection, later: its cursors only grow.\<close>

definition continues :: "room_attachment \<Rightarrow> room_attachment \<Rightarrow> bool" where
  "continues a b \<longleftrightarrow>
     att_problem b = att_problem a \<and> att_fellow b = att_fellow a \<and> att_sponsor b = att_sponsor a \<and>
     token_hash b = token_hash a \<and> connected_at b = connected_at a \<and> expires_at b = expires_at a \<and>
     acknowledged a \<le> acknowledged b \<and> announced a \<le> announced b"

lemma continues_refl [simp]: "continues a a"
  by (simp add: continues_def)

lemma continues_trans: "continues a b \<Longrightarrow> continues b c \<Longrightarrow> continues a c"
  by (auto simp: continues_def)

text \<open>
  \<open>wrote s a s' b\<close>: the call replaced the attachment a of s by the well-formed b;
  \<open>untouched\<close>: it changed neither attachment nor frames.
\<close>

definition untouched :: "room_socket \<Rightarrow> room_socket \<Rightarrow> bool" where
  "untouched s s' \<longleftrightarrow> stored s' = stored s \<and> frames s' = frames s"

definition wrote :: "room_socket \<Rightarrow> room_attachment \<Rightarrow> room_socket \<Rightarrow> bool" where
  "wrote s b s' \<longleftrightarrow>
     stored s' = Fields (attachment_fields b) \<and> well_formed b \<and>
     (frames s' = frames s \<or> pending b \<and> (\<exists>text. frames s' = frames s @ [text]))"

lemma send_notice_effect:
  assumes "well_formed a" and "acknowledged a \<le> through" and "cursor_int through"
    and "connected_at a \<le> now" and "now < expires_at a"
  shows "untouched s (send_notice s a through now) \<or>
    wrote s (a\<lparr>announced := through, pending := True, dirty := False, sent_at := now\<rparr>)
      (send_notice s a through now)"
proof -
  let ?b = "a\<lparr>announced := through, pending := True, dirty := False, sent_at := now\<rparr>"
  have "cursor_int now"
    using assms by (auto simp: well_formed_def cursor_int_def)
  with assms have b: "well_formed ?b"
    by (auto simp: well_formed_def attachment_consistent_def)
  show ?thesis
    using b by (auto simp: send_notice_def untouched_def wrote_def socket_send_def serialize_Some
        split: option.splits)
qed

lemma live_Some:
  assumes "live s now = (Some (a, t), s1)"
  shows "s1 = s \<and> ready_state s = 1 \<and> room_attachment_of s = Some a \<and> now = num t \<and> cursor_int t \<and>
    connected_at a \<le> t \<and> t < expires_at a \<and> (pending a \<longrightarrow> t - sent_at a < acknowledgement_ms)"
  using assms unfolding live_def
  by (auto simp: safe_int_eq_Some split: if_splits option.splits)

lemma live_None: "live s now = (None, s1) \<Longrightarrow> untouched s s1"
  unfolding live_def untouched_def by (auto split: if_splits option.splits)

lemma authorized_Some:
  assumes "authorized s identity head now = (Some (a, seq, t), s1)"
  shows "s1 = s \<and> ready_state s = 1 \<and> room_attachment_of s = Some a \<and> now = num t \<and> cursor_int t \<and>
    connected_at a \<le> t \<and> t < expires_at a \<and> room_identity_matches a identity \<and>
    head = Some (num seq) \<and> cursor_int seq \<and> announced a \<le> seq"
  using assms unfolding authorized_def
  by (auto simp: safe_int_eq_Some dest!: live_Some split: prod.splits if_splits option.splits)

lemma authorized_None:
  assumes "authorized s identity head now = (None, s1)"
  shows "untouched s s1"
proof (cases "live s now")
  case (Pair r s2)
  show ?thesis
  proof (cases r)
    case None
    with Pair assms live_None [of s now s2] show ?thesis by (simp add: authorized_def)
  next
    case (Some found)
    obtain a t where "found = (a, t)" by fastforce
    with Pair Some have l: "live s now = (Some (a, t), s2)" by simp
    from live_Some [OF l] have "s2 = s" by blast
    with l assms show ?thesis
      by (auto simp: authorized_def untouched_def split: option.splits if_splits)
  qed
qed

subsection \<open>The four calls on an open socket\<close>

datatype socket_op =
  BeginAck room_message jsnum
| CompleteAck int "room_identity option" "jsnum option" jsnum
| Refresh "room_identity option" "jsnum option" jsnum
| Revalidate "room_identity option" "jsnum option" jsnum "int option"

fun apply_op :: "socket_op \<Rightarrow> room_socket \<Rightarrow> room_socket" where
  "apply_op (BeginAck message now) s = snd (begin_ack s message now)"
| "apply_op (CompleteAck ack identity head now) s = snd (complete_ack s ack identity head now)"
| "apply_op (Refresh identity head now) s = snd (refresh s identity head now)"
| "apply_op (Revalidate identity head now ping) s = revalidate s identity head now ping"

fun is_complete_ack :: "socket_op \<Rightarrow> bool" where
  "is_complete_ack (CompleteAck _ _ _ _) \<longleftrightarrow> True"
| "is_complete_ack _ \<longleftrightarrow> False"

text \<open>
  What any call does to the attachment a: nothing, or it stores a later attachment b of the
  same connection; only a completed acknowledgement clears the pending frame, and only to
  the announced cursor.
\<close>

definition advanced :: "socket_op \<Rightarrow> room_attachment \<Rightarrow> room_attachment \<Rightarrow> room_socket \<Rightarrow> room_socket \<Rightarrow> bool" where
  "advanced op a b s s' \<longleftrightarrow>
     continues a b \<and> wrote s b s' \<and>
     (acknowledged b = acknowledged a \<or> acknowledged b = announced a) \<and>
     (is_complete_ack op \<or> acknowledged b = acknowledged a \<and>
        (pending a \<longrightarrow> pending b \<and> frames s' = frames s))"

lemma begin_ack_effect:
  "untouched s (snd (begin_ack s message now)) \<or>
   (\<exists>a b. room_attachment_of s = Some a \<and> advanced (BeginAck message now) a b s (snd (begin_ack s message now)))"
proof (cases "live s now")
  case (Pair r s1)
  show ?thesis
  proof (cases r)
    case None
    with Pair live_None [of s now s1] show ?thesis by (simp add: begin_ack_def)
  next
    case (Some found)
    obtain a t where "found = (a, t)" by fastforce
    with Pair Some have l: "live s now = (Some (a, t), s1)" by simp
    note facts = live_Some [OF l]
    have b: "well_formed (a\<lparr>last_message_at := t\<rparr>)"
      using attachment_well_formed [of s a] facts by (auto simp: well_formed_def attachment_consistent_def)
    then have "advanced (BeginAck message now) a (a\<lparr>last_message_at := t\<rparr>) s
        (s\<lparr>stored := Fields (attachment_fields (a\<lparr>last_message_at := t\<rparr>))\<rparr>)"
      by (simp add: advanced_def wrote_def continues_def)
    moreover have "snd (begin_ack s message now) \<in>
        {s, s\<lparr>stored := Fields (attachment_fields (a\<lparr>last_message_at := t\<rparr>))\<rparr>} \<or>
        untouched s (snd (begin_ack s message now))"
      using l facts by (auto simp: begin_ack_def Let_def serialize_Some untouched_def split: option.splits)
    ultimately show ?thesis using facts by (auto simp: untouched_def)
  qed
qed

lemma refresh_effect:
  "untouched s (snd (refresh s identity head now)) \<or>
   (\<exists>a b. room_attachment_of s = Some a \<and>
      advanced (Refresh identity head now) a b s (snd (refresh s identity head now)))"
proof (cases "authorized s identity head now")
  case (Pair r s1)
  show ?thesis
  proof (cases r)
    case None
    with Pair authorized_None [of s identity head now s1] show ?thesis by (simp add: refresh_def)
  next
    case (Some found)
    obtain a seq t where "found = (a, seq, t)" by (metis prod_cases3)
    with Pair Some have l: "authorized s identity head now = (Some (a, seq, t), s1)" by simp
    note facts = authorized_Some [OF l]
    from facts have wf: "well_formed a" by (blast intro: attachment_well_formed)
    show ?thesis
    proof (cases "pending a")
      case True
      have "well_formed (a\<lparr>dirty := True\<rparr>)" using wf by (auto simp: well_formed_def attachment_consistent_def)
      with True have "advanced (Refresh identity head now) a (a\<lparr>dirty := True\<rparr>) s
          (s\<lparr>stored := Fields (attachment_fields (a\<lparr>dirty := True\<rparr>))\<rparr>)"
        by (simp add: advanced_def wrote_def continues_def)
      with True l facts show ?thesis
        by (cases "serialize_throws s") (auto simp: refresh_def serialize_attachment_def untouched_def)
    next
      case False
      from wf False have eq: "acknowledged a = announced a"
        by (simp add: well_formed_def attachment_consistent_def)
      have "cursor_int (max seq (acknowledged a))" using facts wf by (auto simp: well_formed_def max_def)
      define b where "b = a\<lparr>announced := max seq (acknowledged a), pending := True, dirty := False, sent_at := t\<rparr>"
      from send_notice_effect [OF wf _ \<open>cursor_int (max seq (acknowledged a))\<close>, of t s] facts
      have e: "untouched s (send_notice s a (max seq (acknowledged a)) t) \<or>
        wrote s b (send_notice s a (max seq (acknowledged a)) t)" by (simp add: b_def)
      have res: "snd (refresh s identity head now) = send_notice s a (max seq (acknowledged a)) t"
        using False l facts by (simp add: refresh_def)
      have "continues a b" "acknowledged b = acknowledged a"
        using facts eq by (simp_all add: b_def continues_def)
      then have "advanced (Refresh identity head now) a b s s'" if "wrote s b s'" for s'
        using False that by (simp add: advanced_def)
      with e facts show ?thesis unfolding res by blast
    qed
  qed
qed

lemma revalidate_effect: "untouched s (revalidate s identity head now ping)"
proof (cases "authorized s identity head now")
  case (Pair r s1)
  show ?thesis
  proof (cases r)
    case None
    with Pair authorized_None [of s identity head now s1] show ?thesis by (simp add: revalidate_def)
  next
    case (Some found)
    obtain a seq t where "found = (a, seq, t)" by (metis prod_cases3)
    with Pair Some have l: "authorized s identity head now = (Some (a, seq, t), s1)" by simp
    from authorized_Some [OF l] have "s1 = s" by blast
    with l show ?thesis by (simp add: revalidate_def untouched_def)
  qed
qed

lemma complete_ack_effect:
  "untouched s (snd (complete_ack s ack identity head now)) \<or>
   (\<exists>a b. room_attachment_of s = Some a \<and>
      advanced (CompleteAck ack identity head now) a b s (snd (complete_ack s ack identity head now)))"
proof (cases "authorized s identity head now")
  case (Pair r s1)
  show ?thesis
  proof (cases r)
    case None
    with Pair authorized_None [of s identity head now s1] show ?thesis by (simp add: complete_ack_def)
  next
    case (Some found)
    obtain a seq t where "found = (a, seq, t)" by (metis prod_cases3)
    with Pair Some have l: "authorized s identity head now = (Some (a, seq, t), s1)" by simp
    note facts = authorized_Some [OF l]
    from facts have wf: "well_formed a" by (blast intro: attachment_well_formed)
    define a1 where "a1 = a\<lparr>acknowledged := ack, pending := False, dirty := False\<rparr>"
    show ?thesis
    proof (cases "pending a \<and> ack = announced a \<and> \<not> serialize_throws s")
      case False
      with l facts show ?thesis
        by (auto simp: complete_ack_def untouched_def serialize_attachment_def Let_def)
    next
      case True
      define s2 where "s2 = s\<lparr>stored := Fields (attachment_fields a1)\<rparr>"
      have wf1: "well_formed a1" using wf True by (auto simp: a1_def well_formed_def attachment_consistent_def)
      have c1: "continues a a1" using wf True
        by (simp add: a1_def continues_def well_formed_def attachment_consistent_def)
      have res: "snd (complete_ack s ack identity head now) =
          (if seq > ack \<or> dirty a then send_notice s2 a1 (max seq ack) t else s2)"
        using True l facts by (simp add: complete_ack_def Let_def serialize_attachment_def a1_def s2_def)
      define b where "b = a1\<lparr>announced := max seq ack, pending := True, dirty := False, sent_at := t\<rparr>"
      have first: "advanced (CompleteAck ack identity head now) a a1 s s2"
        using wf1 c1 True by (simp add: advanced_def wrote_def s2_def a1_def)
      have "cursor_int (max seq ack)" using facts wf True by (auto simp: well_formed_def max_def)
      then have e: "untouched s2 (send_notice s2 a1 (max seq ack) t) \<or>
        wrote s2 b (send_notice s2 a1 (max seq ack) t)"
        unfolding b_def using facts by (intro send_notice_effect [OF wf1]) (simp_all add: a1_def)
      have "continues a1 b" "acknowledged b = announced a"
        using facts True by (simp_all add: b_def continues_def a1_def)
      then have "advanced (CompleteAck ack identity head now) a b s s'" if "wrote s2 b s'" for s'
        using that continues_trans [OF c1] by (simp add: advanced_def wrote_def s2_def)
      moreover have "advanced (CompleteAck ack identity head now) a a1 s s'" if "untouched s2 s'" for s'
        using that first by (simp add: advanced_def wrote_def untouched_def)
      ultimately have "\<exists>b. advanced (CompleteAck ack identity head now) a b s
          (snd (complete_ack s ack identity head now))"
        unfolding res using e first by (cases "seq > ack \<or> dirty a") (simp_all only: if_True if_False, blast+)
      with facts show ?thesis by blast
    qed
  qed
qed

lemma op_effect:
  "untouched s (apply_op op s) \<or>
   (\<exists>a b. room_attachment_of s = Some a \<and> advanced op a b s (apply_op op s))"
  by (cases op)
    (simp_all only: apply_op.simps begin_ack_effect complete_ack_effect refresh_effect
      revalidate_effect simp_thms)

subsection \<open>Runs of calls\<close>

definition run_ops :: "socket_op list \<Rightarrow> room_socket \<Rightarrow> room_socket" where
  "run_ops ops s = foldl (\<lambda>s op. apply_op op s) s ops"

lemma run_ops_simps [simp]:
  "run_ops [] s = s" "run_ops (ops @ [op]) s = apply_op op (run_ops ops s)"
  by (simp_all add: run_ops_def)

lemma wrote_attachment: "wrote s b s' \<Longrightarrow> room_attachment_of s' = Some b"
  by (simp add: wrote_def attachment_of_written)

lemma op_step:
  assumes "room_attachment_of s = Some a"
  obtains b where "room_attachment_of (apply_op op s) = Some b" "continues a b"
    "acknowledged b = acknowledged a \<or> acknowledged b = announced a"
    "frames (apply_op op s) = frames s \<or> pending b \<and> (\<exists>text. frames (apply_op op s) = frames s @ [text])"
    "is_complete_ack op \<or> acknowledged b = acknowledged a \<and>
       (pending a \<longrightarrow> pending b \<and> frames (apply_op op s) = frames s)"
proof (cases "untouched s (apply_op op s)")
  case True
  then have "room_attachment_of (apply_op op s) = Some a" "frames (apply_op op s) = frames s"
    using assms attachment_of_cong [of "apply_op op s" s] by (simp_all add: untouched_def)
  then show ?thesis by (intro that [of a]) simp_all
next
  case False
  with op_effect [of s op] assms obtain b where b: "advanced op a b s (apply_op op s)" by auto
  then show ?thesis
    using wrote_attachment [of s b] by (intro that [of b]) (auto simp: advanced_def wrote_def)
qed

text \<open>
  A connection's stored state survives every call: after any sequence of
  acknowledgements, refreshes and revalidations, with any heads, identities, times and
  failures of the port, an attachment that could be read can still be read, it is the same
  connection (problem, Fellow, sponsor, token, lifetime), and its acknowledged and announced
  cursors never move back.
\<close>

theorem attachment_survives:
  assumes "room_attachment_of s = Some a"
  shows "\<exists>b. room_attachment_of (run_ops ops s) = Some b \<and> continues a b \<and>
    acknowledged b \<le> announced b"
proof (induction ops rule: rev_induct)
  case Nil
  from assms attachment_well_formed [OF assms] show ?case
    by (simp add: well_formed_def attachment_consistent_def)
next
  case (snoc op ops)
  then obtain b where b: "room_attachment_of (run_ops ops s) = Some b" "continues a b" by blast
  from b(1) obtain c where c: "room_attachment_of (apply_op op (run_ops ops s)) = Some c" "continues b c"
    by (rule op_step)
  with b(2) attachment_well_formed [OF c(1)] show ?case
    by (auto intro: continues_trans simp: well_formed_def attachment_consistent_def)
qed

definition sample_attachment :: room_attachment where
  "sample_attachment =
     initial_attachment ''P-1'' 4 (replicate 64 CHR ''a'')
       \<lparr>fellow_id = ''F1'', sponsor_id = ''S1'', problem_binding = None\<rparr> 1000"

definition sample_socket :: room_socket where
  "sample_socket =
     \<lparr>ready_state = 1, stored = Fields (attachment_fields sample_attachment), frames = [], closes = [],
      send_throws = False, serialize_throws = False, close_throws = False\<rparr>"

definition sample_identity :: room_identity where
  "sample_identity = \<lparr>fellow_id = ''F1'', sponsor_id = ''S1'', problem_binding = None\<rparr>"

lemma sample_well_formed: "well_formed sample_attachment"
  by code_simp

lemma sample_socket_attachment: "room_attachment_of sample_socket = Some sample_attachment"
  by (rule attachment_of_written) (simp_all add: sample_socket_def sample_well_formed)

theorem attachment_survives_example:
  "\<exists>b. room_attachment_of (run_ops
      [Refresh (Some sample_identity) (Some (num 9)) (num 2000), BeginAck MessageBinary (num 2500)]
      sample_socket) = Some b \<and> continues sample_attachment b \<and> acknowledged b \<le> announced b"
  by (rule attachment_survives [OF sample_socket_attachment])

text \<open>
  C30. One outstanding frame is the back-pressure bound: over any sequence of calls a
  connection is sent at most one frame plus one per call that completes an acknowledgement in
  the sequence, and at most one per such call when a frame is already outstanding,
  however many commits and refreshes happen.
\<close>

theorem one_outstanding_frame:
  assumes "room_attachment_of s = Some a"
  shows "length (frames (run_ops ops s)) \<le>
    length (frames s) + length (filter is_complete_ack ops) + (if pending a then 0 else 1)"
proof -
  have "\<exists>b. room_attachment_of (run_ops ops s) = Some b \<and>
      length (frames (run_ops ops s)) + (if pending b then 0 else 1) \<le>
      length (frames s) + length (filter is_complete_ack ops) + (if pending a then 0 else 1)"
  proof (induction ops rule: rev_induct)
    case Nil
    with assms show ?case by simp
  next
    case (snoc op ops)
    then obtain b where b: "room_attachment_of (run_ops ops s) = Some b"
      "length (frames (run_ops ops s)) + (if pending b then 0 else 1) \<le>
       length (frames s) + length (filter is_complete_ack ops) + (if pending a then 0 else 1)" by blast
    let ?u = "run_ops ops s"
    from b(1) obtain c where c: "room_attachment_of (apply_op op ?u) = Some c"
      "frames (apply_op op ?u) = frames ?u \<or>
         pending c \<and> (\<exists>text. frames (apply_op op ?u) = frames ?u @ [text])"
      "is_complete_ack op \<or> acknowledged c = acknowledged b \<and>
         (pending b \<longrightarrow> pending c \<and> frames (apply_op op ?u) = frames ?u)"
      by (rule op_step)
    have "length (frames (apply_op op ?u)) + (if pending c then 0 else 1) \<le>
        length (frames ?u) + (if pending b then 0 else 1) + (if is_complete_ack op then 1 else 0)"
      using c(2,3) by (auto split: if_splits)
    with b(2) c(1) show ?case by auto
  qed
  then show ?thesis by (auto split: if_splits)
qed

theorem one_outstanding_frame_witness:
  "length (frames (run_ops (replicate 5 (Refresh (Some sample_identity) (Some (num 9)) (num 2000)))
     sample_socket)) \<le> 1"
  using one_outstanding_frame [OF sample_socket_attachment,
      of "replicate 5 (Refresh (Some sample_identity) (Some (num 9)) (num 2000))"]
  by (simp add: sample_socket_def sample_attachment_def initial_attachment_def)

subsection \<open>Who is sent a frame\<close>

text \<open>The identity, head and time a call was given as authority.\<close>

fun op_authority :: "socket_op \<Rightarrow> (room_identity option \<times> jsnum option \<times> jsnum) option" where
  "op_authority (BeginAck message now) = None"
| "op_authority (CompleteAck ack identity head now) = Some (identity, head, now)"
| "op_authority (Refresh identity head now) = Some (identity, head, now)"
| "op_authority (Revalidate identity head now ping) = Some (identity, head, now)"

lemma begin_ack_frames: "frames (snd (begin_ack s message now)) = frames s"
proof (cases "live s now")
  case (Pair r s1)
  have "frames s1 = frames s"
    using Pair live_None [of s now s1] live_Some [of s now _ _ s1]
    by (cases r) (auto simp: untouched_def)
  with Pair show ?thesis
    by (cases r) (auto simp: begin_ack_def Let_def serialize_Some split: option.splits)
qed

text \<open>
  A frame is only ever sent to an open connection whose authority was just confirmed: a
  call that sends anything was given an identity that still matches the connection's Fellow,
  sponsor and problem, a head that is a cursor not below what was announced, and a time
  within the connection's lifetime.
\<close>

theorem frames_need_authority:
  assumes "frames (apply_op op s) \<noteq> frames s"
  shows "\<exists>a identity seq t. room_attachment_of s = Some a \<and> ready_state s = 1 \<and>
    op_authority op = Some (Some identity, Some (num seq), num t) \<and>
    fellow_id identity = att_fellow a \<and> sponsor_id identity = att_sponsor a \<and>
    problem_binding identity \<in> {None, Some (att_problem a)} \<and>
    announced a \<le> seq \<and> connected_at a \<le> t \<and> t < expires_at a"
proof -
  have sent: ?thesis
    if authority: "op_authority op = Some (identity, head, now)"
      and ok: "authorized s identity head now = (Some (a, seq, t), s1)" for identity head now a seq t s1
    using authority authorized_Some [OF ok]
    by (cases identity) (auto simp: room_identity_matches_def split: option.splits)
  have "op_authority op \<noteq> None" using assms by (cases op) (simp_all add: begin_ack_frames)
  then obtain identity head now where o: "op_authority op = Some (identity, head, now)" by auto
  show ?thesis
  proof (cases "fst (authorized s identity head now)")
    case (Some found)
    obtain a seq t where "found = (a, seq, t)" by (metis prod_cases3)
    with Some have "authorized s identity head now =
        (Some (a, seq, t), snd (authorized s identity head now))" by (metis prod.collapse)
    from sent [OF o this] show ?thesis .
  next
    case None
    then have n: "authorized s identity head now = (None, snd (authorized s identity head now))"
      by (metis prod.collapse)
    from authorized_None [OF this] have "frames (snd (authorized s identity head now)) = frames s"
      by (simp add: untouched_def)
    with n o assms show ?thesis
      by (cases op) (auto simp: complete_ack_def refresh_def revalidate_def split: prod.splits)
  qed
qed

theorem frames_need_authority_example:
  "length (frames (apply_op (Refresh (Some sample_identity) (Some (num 9)) (num 2000)) sample_socket)) = 1 \<and>
   ready_state sample_socket = 1"
proof -
  have one: "length (frames (apply_op (Refresh (Some sample_identity) (Some (num 9)) (num 2000))
      sample_socket)) = 1"
    by code_simp
  then have "frames (apply_op (Refresh (Some sample_identity) (Some (num 9)) (num 2000)) sample_socket)
      \<noteq> frames sample_socket" by (auto simp: sample_socket_def)
  from frames_need_authority [OF this] one show ?thesis by blast
qed

subsection \<open>The limits of a room\<close>

text \<open>
  The rooms a history of connections, calls and releases can reach. A socket is accepted
  with no readable attachment of its own.
\<close>

inductive reachable_room :: "room_socket list \<Rightarrow> bool" where
  empty: "reachable_room []"
| connects: "reachable_room room \<Longrightarrow> room_attachment_of socket = None \<Longrightarrow>
    connect room socket problem since hash identity head now = (result, room') \<Longrightarrow>
    reachable_room room'"
| calls: "reachable_room (before @ socket # after) \<Longrightarrow>
    reachable_room (before @ apply_op op socket # after)"
| releases: "reachable_room (before @ socket # after) \<Longrightarrow> reachable_room (before @ after)"

definition fellow_sockets :: "string \<Rightarrow> room_socket list \<Rightarrow> nat" where
  "fellow_sockets f room =
     length (filter (\<lambda>a. att_fellow a = f) (List.map_filter room_attachment_of room))"

definition sponsor_sockets :: "string \<Rightarrow> room_socket list \<Rightarrow> nat" where
  "sponsor_sockets f room =
     length (filter (\<lambda>a. att_sponsor a = f) (List.map_filter room_attachment_of room))"

lemma counts_append [simp]:
  "fellow_sockets f (r1 @ r2) = fellow_sockets f r1 + fellow_sockets f r2"
  "sponsor_sockets f (r1 @ r2) = sponsor_sockets f r1 + sponsor_sockets f r2"
  by (simp_all add: fellow_sockets_def sponsor_sockets_def map_filter_def)

definition counts :: "room_socket \<Rightarrow> (string \<times> string) option" where
  "counts s = map_option (\<lambda>a. (att_fellow a, att_sponsor a)) (room_attachment_of s)"

lemma counts_Cons [simp]:
  "fellow_sockets f (s # room) =
     (case counts s of Some (f', _) \<Rightarrow> if f' = f then 1 else 0 | None \<Rightarrow> 0) + fellow_sockets f room"
  "sponsor_sockets f (s # room) =
     (case counts s of Some (_, f') \<Rightarrow> if f' = f then 1 else 0 | None \<Rightarrow> 0) + sponsor_sockets f room"
  by (auto simp: fellow_sockets_def sponsor_sockets_def map_filter_def counts_def split: option.split)

lemma counts_Nil [simp]: "fellow_sockets f [] = 0" "sponsor_sockets f [] = 0"
  by (simp_all add: fellow_sockets_def sponsor_sockets_def map_filter_def)

lemma counts_op [simp]: "counts (apply_op op s) = counts s"
proof (cases "room_attachment_of s")
  case None
  with op_effect [of s op] attachment_of_cong [of "apply_op op s" s] show ?thesis
    by (auto simp: counts_def untouched_def)
next
  case (Some a)
  then obtain b where "room_attachment_of (apply_op op s) = Some b" "continues a b" by (rule op_step)
  with Some show ?thesis by (simp add: counts_def continues_def)
qed

definition within_limits :: "room_socket list \<Rightarrow> bool" where
  "within_limits room \<longleftrightarrow> length room \<le> room_connections \<and>
     (\<forall>f. fellow_sockets f room \<le> per_fellow) \<and> (\<forall>f. sponsor_sockets f room \<le> per_sponsor)"

lemma initial_well_formed:
  assumes "connect_valid problem since hash identity head now"
    and "safe_int since = Some s" "safe_int head = Some h" "safe_int now = Some t"
  shows "well_formed (initial_attachment problem s hash identity t)" and "s \<le> h" and "cursor_int h"
    and "0 < lifetime_ms"
proof -
  from assms have "since = num s" "head = num h" "now = num t" by (simp_all add: safe_int_eq_Some)
  with assms have "cursor_int s" "cursor_int h" "cursor_int t" "cursor_int (t + lifetime_ms)" "s \<le> h"
    "room_problem problem" "room_id (fellow_id identity)" "room_id (sponsor_id identity)"
    "token_hash_text hash"
    by (auto simp: connect_valid_def simp del: of_int_add)
  then show "well_formed (initial_attachment problem s hash identity t)" "s \<le> h" "cursor_int h"
    "0 < lifetime_ms"
    by (simp_all add: well_formed_def initial_attachment_def attachment_consistent_def lifetime_ms_def
        cursor_int_def)
qed

text \<open>A newly accepted socket counts for its own Fellow and sponsor or not at all.\<close>

lemma connect_counts:
  assumes "connect room socket problem since hash identity head now = (result, room')"
    and "room_attachment_of socket = None"
  shows "room' = room \<or> \<not> at_capacity room identity \<and>
    (\<exists>s. room' = room @ [s] \<and> counts s \<in> {None, Some (fellow_id identity, sponsor_id identity)})"
proof (cases "connect_valid problem since hash identity head now \<and> \<not> at_capacity room identity")
  case True
  then have "room_cursor since" "room_cursor head" "room_cursor now" by (simp_all add: connect_valid_def)
  then obtain s h t where n: "safe_int since = Some s" "safe_int head = Some h" "safe_int now = Some t"
    using room_cursor_safe by metis
  define a where "a = initial_attachment problem s hash identity t"
  from True have "connect_valid problem since hash identity head now" by blast
  note v = initial_well_formed [OF this n, folded a_def]
  have conds: "acknowledged a \<le> h" "connected_at a \<le> t" "t < expires_at a"
    using v(2,4) by (simp_all add: a_def initial_attachment_def)
  define b where "b = a\<lparr>announced := h, pending := True, dirty := False, sent_at := t\<rparr>"
  have "untouched socket (send_notice socket a h t) \<or> wrote socket b (send_notice socket a h t)"
    unfolding b_def by (rule send_notice_effect [OF v(1) conds(1) v(3) conds(2,3)])
  moreover have "att_fellow b = att_fellow a" "att_sponsor b = att_sponsor a" by (simp_all add: b_def)
  ultimately have "untouched socket (send_notice socket a h t) \<or>
      (\<exists>b. wrote socket b (send_notice socket a h t) \<and> att_fellow b = att_fellow a \<and>
        att_sponsor b = att_sponsor a)" by blast
  then have c: "counts (send_notice socket a h t) \<in> {None, Some (fellow_id identity, sponsor_id identity)}"
  proof (elim disjE exE conjE)
    assume "untouched socket (send_notice socket a h t)"
    then show ?thesis
      using assms(2) attachment_of_cong [of "send_notice socket a h t" socket]
      by (simp add: counts_def untouched_def)
  next
    fix b
    assume "wrote socket b (send_notice socket a h t)" "att_fellow b = att_fellow a"
      "att_sponsor b = att_sponsor a"
    then show ?thesis
      using wrote_attachment [of socket b "send_notice socket a h t"]
      by (simp add: counts_def a_def initial_attachment_def)
  qed
  have "connect room socket problem since hash identity head now =
      (Accepted, room @ [send_notice socket a h t])"
    using True n by (simp add: connect_def a_def)
  with assms(1) have "room' = room @ [send_notice socket a h t]" by simp
  with True c show ?thesis by blast
next
  case False
  with assms(1) show ?thesis by (auto simp: connect_def split: if_splits)
qed

text \<open>
  C31. A room never exceeds its limits: in every room a history of connections, calls with
  any arguments and releases can reach there are at most 32 sockets, at most two with an
  attachment of the same Fellow, and at most eight of the same sponsor.
\<close>

theorem room_within_limits:
  assumes "reachable_room room"
  shows "within_limits room"
  using assms
proof (induction rule: reachable_room.induct)
  case empty
  show ?case by (simp add: within_limits_def room_connections_def)
next
  case (connects room socket problem since hash identity head now result room')
  from connect_counts [OF connects(3,2)] show ?case
  proof (elim disjE conjE exE)
    assume "room' = room"
    with connects show ?thesis by simp
  next
    fix s
    assume "\<not> at_capacity room identity" "room' = room @ [s]"
      "counts s \<in> {None, Some (fellow_id identity, sponsor_id identity)}"
    with connects.IH show ?thesis
      by (auto simp: within_limits_def at_capacity_def Let_def fellow_sockets_def [symmetric]
          sponsor_sockets_def [symmetric] not_le Suc_le_eq)
  qed
next
  case (calls before socket after op)
  then show ?case by (simp add: within_limits_def)
next
  case (releases before socket after)
  have "fellow_sockets f (before @ after) \<le> fellow_sockets f (before @ socket # after)"
    "sponsor_sockets f (before @ after) \<le> sponsor_sockets f (before @ socket # after)" for f
    by simp_all
  with releases.IH have "\<forall>f. fellow_sockets f (before @ after) \<le> per_fellow"
    "\<forall>f. sponsor_sockets f (before @ after) \<le> per_sponsor" "length (before @ after) \<le> room_connections"
    unfolding within_limits_def by (meson le_trans, meson le_trans, simp)
  then show ?case unfolding within_limits_def by blast
qed

definition fresh_socket :: room_socket where
  "fresh_socket = sample_socket\<lparr>stored := NotObject\<rparr>"

theorem room_within_limits_witness:
  "within_limits (snd (connect [] fresh_socket ''P-1'' (num 4) (replicate 64 CHR ''a'')
     sample_identity (num 9) (num 1000)))"
proof (rule room_within_limits, rule reachable_room.connects [OF reachable_room.empty])
  show "room_attachment_of fresh_socket = None" by (simp add: room_attachment_of_def fresh_socket_def)
  show "connect [] fresh_socket ''P-1'' (num 4) (replicate 64 CHR ''a'') sample_identity (num 9) (num 1000) =
      (fst (connect [] fresh_socket ''P-1'' (num 4) (replicate 64 CHR ''a'') sample_identity (num 9) (num 1000)),
       snd (connect [] fresh_socket ''P-1'' (num 4) (replicate 64 CHR ''a'') sample_identity (num 9) (num 1000)))"
    by simp
qed

end
