(* ===== verification/Values.thy ===== *)
theory Values
  imports Text
begin

section \<open>Untrusted values\<close>

text \<open>
  A value of unknown type, as configuration and parsed request bodies deliver it, with what
  the validators do to one: reading a property, listing the own keys and spreading a value
  into a fresh object. Accessors are not part of a value; a source whose reading throws is
  an absent value in the list that holds it.
\<close>

datatype js_value =
  Undefined | Null | Boolean bool | Number jsnum | Str string
| Arr "js_value list" | Obj "(string \<times> js_value) list"

definition own_value :: "(string \<times> js_value) list \<Rightarrow> string \<Rightarrow> js_value" where
  "own_value entries k = (case map_of entries k of None \<Rightarrow> Undefined | Some v \<Rightarrow> v)"

text \<open>The entries of \<open>{...v}\<close>: strings and arrays are spread by index.\<close>

fun spread :: "js_value \<Rightarrow> (string \<times> js_value) list" where
  "spread (Obj entries) = entries"
| "spread (Str s) = map (\<lambda>i. (show_nat i, Str [s ! i])) [0..<length s]"
| "spread (Arr vs) = map (\<lambda>i. (show_nat i, vs ! i)) [0..<length vs]"
| "spread _ = []"

text \<open>A safe integer, read from a value.\<close>

fun safe_integer_of :: "js_value \<Rightarrow> int option" where
  "safe_integer_of (Number x) = safe_int x"
| "safe_integer_of _ = None"

text \<open>The class tests of the regular expressions.\<close>

definition all_chars :: "(char \<Rightarrow> bool) \<Rightarrow> nat \<Rightarrow> nat \<Rightarrow> string \<Rightarrow> bool" where
  "all_chars P lo hi s \<longleftrightarrow> lo \<le> length s \<and> length s \<le> hi \<and> list_all P s"

named_theorems ascii_class \<open>characters of a regular expression's class are ASCII\<close>

lemma ascii_marks [ascii_class]:
  "ascii CHR ''/''" "ascii CHR '':''" "ascii CHR ''.''" "ascii CHR ''_''" "ascii CHR ''-''"
  by (simp_all add: ascii_def)

lemma ascii_digit_ascii [ascii_class]: "ascii_digit c \<Longrightarrow> ascii c"
  by (auto simp: ascii_digit_def ascii_def Let_def)

lemma lower_hex_ascii [ascii_class]: "lower_hex c \<Longrightarrow> ascii c"
  by (auto simp: lower_hex_def ascii_def Let_def)

lemma ascii_alnum_ascii [ascii_class]: "ascii_alnum c \<Longrightarrow> ascii c"
  by (auto simp: ascii_alnum_def ascii_letter_def ascii_digit_def ascii_def Let_def)

end
