(* ===== verification/Utf16.thy ===== *)
theory Utf16
  imports Text "HOL-Library.Word"
begin

section \<open>Strings of 16-bit code units and their UTF-8 bytes\<close>

text \<open>
  The strings of the source language, as lists of 16-bit code units, and what \<open>TextEncoder\<close>
  makes of them: a surrogate pair is one code point, a surrogate without its partner is
  replaced by U+FFFD, and each code point has one to four bytes. The bytes determine the code
  points, whatever follows them, and the code points determine a string without lone
  surrogates.
\<close>

type_synonym utf16 = "16 word list"

subsection \<open>The encoder\<close>

definition high_surrogate :: "16 word \<Rightarrow> bool" where
  "high_surrogate u \<longleftrightarrow> 0xD800 \<le> unat u \<and> unat u < 0xDC00"

definition low_surrogate :: "16 word \<Rightarrow> bool" where
  "low_surrogate u \<longleftrightarrow> 0xDC00 \<le> unat u \<and> unat u < 0xE000"

definition single_point :: "16 word \<Rightarrow> nat" where
  "single_point u = (if high_surrogate u \<or> low_surrogate u then 0xFFFD else unat u)"

fun code_points :: "utf16 \<Rightarrow> nat list" where
  "code_points [] = []"
| "code_points [u] = [single_point u]"
| "code_points (u # v # s) =
     (if high_surrogate u \<and> low_surrogate v
      then (0x10000 + (unat u - 0xD800) * 0x400 + (unat v - 0xDC00)) # code_points s
      else single_point u # code_points (v # s))"

definition point_bytes :: "nat \<Rightarrow> nat list" where
  "point_bytes n =
     (if n < 0x80 then [n]
      else if n < 0x800 then [192 + n div 64, 128 + n mod 64]
      else if n < 0x10000 then [224 + n div 4096, 128 + n div 64 mod 64, 128 + n mod 64]
      else [240 + n div 262144, 128 + n div 4096 mod 64, 128 + n div 64 mod 64, 128 + n mod 64])"

definition encode_text :: "utf16 \<Rightarrow> nat list" where
  "encode_text s = concat (map point_bytes (code_points s))"

fun well_formed :: "utf16 \<Rightarrow> bool" where
  "well_formed [] \<longleftrightarrow> True"
| "well_formed [u] \<longleftrightarrow> \<not> high_surrogate u \<and> \<not> low_surrogate u"
| "well_formed (u # v # s) \<longleftrightarrow>
     (if high_surrogate u \<and> low_surrogate v then well_formed s
      else \<not> high_surrogate u \<and> \<not> low_surrogate u \<and> well_formed (v # s))"

text \<open>A string of code units below 256.\<close>

definition units :: "string \<Rightarrow> utf16" where
  "units s = map of_char s"

subsection \<open>Bytes determine code points\<close>

lemma unit_bound: "unat (u :: 16 word) < 0x10000"
  using unsigned_less [of u, where 'a = nat] by simp

lemma single_point_bound: "single_point u < 0x10000"
  using unit_bound [of u] by (simp add: single_point_def)

lemma pair_bound:
  "high_surrogate u \<Longrightarrow> low_surrogate v \<Longrightarrow> 0x10000 + (unat u - 0xD800) * 0x400 + (unat v - 0xDC00) < 0x110000"
proof -
  assume "high_surrogate u" "low_surrogate v"
  then have "unat u - 0xD800 \<le> 0x3FF" "unat v - 0xDC00 \<le> 0x3FF"
    by (auto simp: high_surrogate_def low_surrogate_def)
  then have "(unat u - 0xD800) * 0x400 + (unat v - 0xDC00) \<le> 0x3FF * 0x400 + 0x3FF"
    by (intro add_mono mult_le_mono1)
  then show ?thesis by simp
qed

lemma code_point_bound: "n \<in> set (code_points s) \<Longrightarrow> n < 0x110000"
proof (induction s rule: code_points.induct)
  case (2 u)
  then show ?case using single_point_bound [of u] by simp
next
  case (3 u v s)
  then show ?case using single_point_bound [of u] pair_bound [of u v] by (auto split: if_splits)
qed simp

lemma digits_64:
  assumes "n div 64 = m div 64" "n mod 64 = m mod 64"
  shows "n = (m :: nat)"
  using assms by (metis div_mult_mod_eq)

text \<open>The first byte tells the number of bytes.\<close>

lemma point_head:
  assumes "n < 0x110000"
  shows "n < 0x80 \<longleftrightarrow> hd (point_bytes n) < 128" "n < 0x800 \<longleftrightarrow> hd (point_bytes n) < 224"
    "n < 0x10000 \<longleftrightarrow> hd (point_bytes n) < 240"
proof -
  have "n < 0x800 \<Longrightarrow> n div 64 < 32" "n < 0x10000 \<Longrightarrow> n div 4096 < 16" by (simp_all add: less_mult_imp_div_less)
  then show "n < 0x80 \<longleftrightarrow> hd (point_bytes n) < 128" "n < 0x800 \<longleftrightarrow> hd (point_bytes n) < 224"
    "n < 0x10000 \<longleftrightarrow> hd (point_bytes n) < 240"
    unfolding point_bytes_def by (cases "n < 0x80"; cases "n < 0x800"; cases "n < 0x10000"; simp)+
qed

lemma point_bytes_cancel:
  assumes eq: "point_bytes n @ x = point_bytes m @ y" and b: "n < 0x110000" "m < 0x110000"
  shows "n = m \<and> x = y"
proof -
  have top: "k div 4096 = k div 64 div 64" "k div 262144 = k div 4096 div 64" for k :: nat
    by (simp_all add: div_mult2_eq [symmetric])
  have "hd (point_bytes k @ z) = hd (point_bytes k)" for k z by (simp add: point_bytes_def)
  with arg_cong [OF eq, of hd] have h: "hd (point_bytes n) = hd (point_bytes m)" by simp
  have same: "n < 0x80 \<longleftrightarrow> m < 0x80" "n < 0x800 \<longleftrightarrow> m < 0x800" "n < 0x10000 \<longleftrightarrow> m < 0x10000"
    unfolding point_head [OF b(1)] point_head [OF b(2)] h by (rule refl)+
  consider "n < 0x80" | "\<not> n < 0x80" "n < 0x800" | "\<not> n < 0x80" "\<not> n < 0x800" "n < 0x10000" | "\<not> n < 0x80" "\<not> n < 0x800" "\<not> n < 0x10000"
    by blast
  then show ?thesis
  proof cases
    case 1
    with eq same show ?thesis by (simp add: point_bytes_def)
  next
    case 2
    with eq same have "n div 64 = m div 64" "n mod 64 = m mod 64" "x = y" by (simp_all add: point_bytes_def)
    then show ?thesis using digits_64 by blast
  next
    case 3
    with eq same have e: "n div 4096 = m div 4096" "n div 64 mod 64 = m div 64 mod 64" "n mod 64 = m mod 64" "x = y"
      by (simp_all add: point_bytes_def)
    from digits_64 [OF e(1) [unfolded top(1)] e(2)] digits_64 e(3,4) show ?thesis by blast
  next
    case 4
    with eq same have e: "n div 262144 = m div 262144" "n div 4096 mod 64 = m div 4096 mod 64"
        "n div 64 mod 64 = m div 64 mod 64" "n mod 64 = m mod 64" "x = y"
      by (simp_all add: point_bytes_def)
    from digits_64 [OF e(1) [unfolded top(2)] e(2)] have "n div 4096 = m div 4096" .
    from digits_64 [OF this [unfolded top(1)] e(3)] digits_64 e(4,5) show ?thesis by blast
  qed
qed

lemma point_bytes_not_Nil [simp]: "point_bytes n \<noteq> []"
  by (simp add: point_bytes_def)

lemma points_bytes_inject:
  "concat (map point_bytes ns) = concat (map point_bytes ms) \<Longrightarrow> \<forall>n \<in> set ns. n < 0x110000 \<Longrightarrow>
    \<forall>m \<in> set ms. m < 0x110000 \<Longrightarrow> ns = ms"
proof (induction ns arbitrary: ms)
  case Nil
  then show ?case by (cases ms) simp_all
next
  case (Cons n ns)
  then show ?case by (cases ms) (auto dest!: point_bytes_cancel)
qed

lemma encode_text_inject: "encode_text s = encode_text t \<longleftrightarrow> code_points s = code_points t"
  using points_bytes_inject [of "code_points s" "code_points t"] code_point_bound by (auto simp: encode_text_def)

subsection \<open>Code points determine well-formed strings\<close>

definition point_units :: "nat \<Rightarrow> utf16" where
  "point_units n =
     (if n < 0x10000 then [of_nat n]
      else [of_nat (0xD800 + (n - 0x10000) div 0x400), of_nat (0xDC00 + (n - 0x10000) mod 0x400)])"

lemma units_of_pair:
  assumes "high_surrogate u" "low_surrogate v"
  shows "point_units (0x10000 + (unat u - 0xD800) * 0x400 + (unat v - 0xDC00)) = [u, v]"
proof -
  let ?h = "unat u - 0xD800" and ?l = "unat v - 0xDC00"
  have *: "(a * 0x400 + b) div 0x400 = a" "(a * 0x400 + b) mod 0x400 = b" if "b < 0x400" for a b :: nat
    using that by simp_all
  have l: "?l < 0x400" "0xD800 + ?h = unat u" "0xDC00 + ?l = unat v"
    using assms by (auto simp: high_surrogate_def low_surrogate_def)
  have joined: "0x10000 + ?h * 0x400 + ?l - 0x10000 = ?h * 0x400 + ?l" "\<not> 0x10000 + ?h * 0x400 + ?l < 0x10000" by simp_all
  show ?thesis unfolding point_units_def joined * [OF l(1)] l(2,3) if_False by simp
qed

lemma units_of_points: "well_formed s \<Longrightarrow> concat (map point_units (code_points s)) = s"
proof (induction s rule: well_formed.induct)
  case (2 u)
  then show ?case using unit_bound [of u] by (simp add: single_point_def point_units_def)
next
  case (3 u v s)
  then show ?case using unit_bound [of u] units_of_pair [of u v]
    by (simp add: single_point_def point_units_def split: if_splits)
qed simp

lemma code_points_inject: "well_formed s \<Longrightarrow> well_formed t \<Longrightarrow> code_points s = code_points t \<Longrightarrow> s = t"
  by (metis units_of_points)

subsection \<open>Strings of 8-bit code units\<close>

lemma char_bound: "(of_char c :: nat) < 0x800"
  by (rule less_trans [OF nat_of_char_less_256]) simp

lemma unit_of_char: "unat (of_char c :: 16 word) = of_char c"
proof -
  have "(of_char c :: 16 word) = of_nat (of_char c)" by (rule of_nat_of_char [symmetric])
  then show ?thesis using char_bound [of c] by (simp add: unsigned_of_nat take_bit_nat_eq_self del: of_nat_of_char)
qed

lemma char_no_surrogate: "\<not> high_surrogate (of_char c)" "\<not> low_surrogate (of_char c)"
proof -
  note char_bound [of c]
  then show "\<not> high_surrogate (of_char c)" "\<not> low_surrogate (of_char c)"
    by (simp_all add: high_surrogate_def low_surrogate_def unit_of_char)
qed

lemma units_well_formed [simp]: "well_formed (units s)"
  by (induction s rule: induct_list012) (simp_all add: units_def char_no_surrogate)

lemma code_points_units: "code_points (units s) = map of_char s"
  by (induction s rule: induct_list012) (simp_all add: units_def single_point_def char_no_surrogate unit_of_char)

text \<open>On such a string the encoder agrees with the one of the other theories.\<close>

lemma encode_units [simp]: "encode_text (units s) = utf8_bytes s"
proof -
  have "point_bytes (of_char c) = char_bytes c" for c
  proof -
    note char_bound [of c]
    then show ?thesis by (simp add: point_bytes_def Let_def)
  qed
  then show ?thesis by (simp add: encode_text_def code_points_units utf8_bytes_def comp_def del: char_bytes.simps)
qed

lemma units_inject [simp]: "units s = units t \<longleftrightarrow> s = t"
proof
  assume "units s = units t"
  then have "map (of_char :: char \<Rightarrow> nat) s = map of_char t" using code_points_units [of s] code_points_units [of t] by simp
  then show "s = t" by (simp add: inj_on_def list.inj_map_strong)
qed simp

end
