(* ===== verification/Canonical.thy ===== *)
theory Canonical
  imports Utf16
begin

unbundle bit_operations_syntax

section \<open>Canonical bytes of the service envelope (\<open>auth/canonical.ts\<close>)\<close>

text \<open>
  The bytes an envelope signature covers, as a list of byte values: a domain prefix and one
  length-prefixed frame per claim, in a fixed order, over strings of 16-bit code units. The
  framing is proved injective up to the replacement of lone surrogates, so two envelopes with
  the same bytes are the same envelope as far as the encoder can tell. The verifier's model
  reads strings of 8-bit units, which it widens.
\<close>

subsection \<open>Claims\<close>

definition envelope_version :: string where
  "envelope_version = ''asimp-env-1''"

record 'text signed_claims =
  claim_v :: 'text
  claim_kid :: 'text
  claim_alg :: 'text
  claim_iss :: 'text
  claim_aud :: 'text
  claim_iat :: int
  claim_exp :: int
  claim_nonce :: 'text
  claim_method :: 'text
  claim_route :: 'text
  claim_action :: 'text
  claim_principal_type :: 'text
  claim_principal_id :: 'text
  claim_payload_sha256 :: 'text

type_synonym service_claims = "string signed_claims"

datatype canonical_field =
  FV | FKid | FAlg | FIss | FAud | FIat | FExp | FNonce | FMethod | FRoute | FAction
| FPrincipalType | FPrincipalId | FPayloadSha256

definition canonical_fields :: "canonical_field list" where
  "canonical_fields =
     [FV, FKid, FAlg, FIss, FAud, FIat, FExp, FNonce, FMethod, FRoute, FAction, FPrincipalType,
      FPrincipalId, FPayloadSha256]"

fun field_name :: "canonical_field \<Rightarrow> string" where
  "field_name FV = ''v''"
| "field_name FKid = ''kid''"
| "field_name FAlg = ''alg''"
| "field_name FIss = ''iss''"
| "field_name FAud = ''aud''"
| "field_name FIat = ''iat''"
| "field_name FExp = ''exp''"
| "field_name FNonce = ''nonce''"
| "field_name FMethod = ''method''"
| "field_name FRoute = ''route''"
| "field_name FAction = ''action''"
| "field_name FPrincipalType = ''principal_type''"
| "field_name FPrincipalId = ''principal_id''"
| "field_name FPayloadSha256 = ''payload_sha256''"

text \<open>\<open>claims[field]\<close>: a string, or one of the two numbers.\<close>

fun claim_value :: "'text signed_claims \<Rightarrow> canonical_field \<Rightarrow> 'text + int" where
  "claim_value c FV = Inl (claim_v c)"
| "claim_value c FKid = Inl (claim_kid c)"
| "claim_value c FAlg = Inl (claim_alg c)"
| "claim_value c FIss = Inl (claim_iss c)"
| "claim_value c FAud = Inl (claim_aud c)"
| "claim_value c FIat = Inr (claim_iat c)"
| "claim_value c FExp = Inr (claim_exp c)"
| "claim_value c FNonce = Inl (claim_nonce c)"
| "claim_value c FMethod = Inl (claim_method c)"
| "claim_value c FRoute = Inl (claim_route c)"
| "claim_value c FAction = Inl (claim_action c)"
| "claim_value c FPrincipalType = Inl (claim_principal_type c)"
| "claim_value c FPrincipalId = Inl (claim_principal_id c)"
| "claim_value c FPayloadSha256 = Inl (claim_payload_sha256 c)"

subsection \<open>The bytes\<close>

text \<open>\<open>None\<close> is the thrown \<open>TypeError\<close> of a number that is not a safe integer.\<close>

definition field_value :: "utf16 signed_claims \<Rightarrow> canonical_field \<Rightarrow> utf16 option" where
  "field_value claims field =
     (case claim_value claims field of
        Inr n \<Rightarrow> if is_safe_integer (num n) then Some (units (show_int n)) else None
      | Inl s \<Rightarrow> Some s)"

definition record_terminator :: nat where
  "record_terminator = 30"

text \<open>The names and the digits are ASCII, the value is any string.\<close>

definition frame :: "string \<Rightarrow> utf16 \<Rightarrow> nat list" where
  "frame name value =
     utf8_bytes (show_nat (length (utf8_bytes name)) @ '':'') @ utf8_bytes name @
     utf8_bytes ('':'' @ show_nat (length (encode_text value)) @ '':'') @ encode_text value @
     [record_terminator]"

fun frames_loop :: "utf16 signed_claims \<Rightarrow> canonical_field list \<Rightarrow> nat list option" where
  "frames_loop claims [] = Some []"
| "frames_loop claims (field # rest) =
     (case field_value claims field of
        None \<Rightarrow> None
      | Some value \<Rightarrow>
          map_option (\<lambda>bytes. frame (field_name field) value @ bytes) (frames_loop claims rest))"

definition canonical_bytes :: "utf16 signed_claims \<Rightarrow> nat list option" where
  "canonical_bytes claims =
     map_option (\<lambda>bytes. utf8_bytes (envelope_version @ [CHR 10]) @ bytes)
       (frames_loop claims canonical_fields)"

text \<open>Claims of 8-bit strings, as the verifier's model has them.\<close>

definition widened :: "service_claims \<Rightarrow> utf16 signed_claims" where
  "widened c =
     \<lparr>claim_v = units (claim_v c), claim_kid = units (claim_kid c), claim_alg = units (claim_alg c),
      claim_iss = units (claim_iss c), claim_aud = units (claim_aud c), claim_iat = claim_iat c,
      claim_exp = claim_exp c, claim_nonce = units (claim_nonce c), claim_method = units (claim_method c),
      claim_route = units (claim_route c), claim_action = units (claim_action c),
      claim_principal_type = units (claim_principal_type c),
      claim_principal_id = units (claim_principal_id c),
      claim_payload_sha256 = units (claim_payload_sha256 c)\<rparr>"

definition service_bytes :: "service_claims \<Rightarrow> nat list option" where
  "service_bytes c = canonical_bytes (widened c)"

subsection \<open>Hexadecimal and comparison\<close>

definition to_hex :: "nat list \<Rightarrow> string" where
  "to_hex bytes = concat (map (\<lambda>b. [hex_lower (b div 16), hex_lower (b mod 16)]) bytes)"

definition hex_value :: "char \<Rightarrow> nat" where
  "hex_value c = (let n = of_char c in if n \<le> 57 then n - 48 else n - 87)"

fun from_hex_pairs :: "string \<Rightarrow> nat list" where
  "from_hex_pairs (a # b # s) = (16 * hex_value a + hex_value b) # from_hex_pairs s"
| "from_hex_pairs _ = []"

text \<open>\<open>None\<close> is the thrown \<open>TypeError\<close>.\<close>

definition from_hex :: "string \<Rightarrow> nat list option" where
  "from_hex hex =
     (if length hex mod 2 \<noteq> 0 \<or> \<not> list_all lower_hex hex then None else Some (from_hex_pairs hex))"

text \<open>The loop over the fixed width, a missing byte read as 0.\<close>

definition byte_at :: "nat list \<Rightarrow> nat \<Rightarrow> nat" where
  "byte_at bytes i = (if i < length bytes then bytes ! i else 0)"

definition constant_time_equal :: "string \<Rightarrow> string \<Rightarrow> bool" where
  "constant_time_equal left right =
     (let a = utf8_bytes left; b = utf8_bytes right; width = max (length a) (length b)
      in foldl (\<lambda>diff i. diff OR (byte_at a i XOR byte_at b i)) (length a XOR length b) [0..<width] = 0)"

subsection \<open>Encoding characters and numbers loses nothing\<close>

lemma char_bytes_cancel:
  assumes "char_bytes c @ x = char_bytes d @ y"
  shows "c = d \<and> x = y"
proof -
  let ?n = "of_char c :: nat" and ?m = "of_char d :: nat"
  have two: "n = m" if "n div 64 = m div 64" "n mod 64 = m mod 64" for n m :: nat
    using that by (metis div_mult_mod_eq)
  have "?n = ?m \<and> x = y"
  proof (cases "?n < 128 \<longleftrightarrow> ?m < 128")
    case True
    with assms two [of ?n ?m] show ?thesis by (cases "?n < 128") (auto simp: Let_def)
  qed (use assms in \<open>auto simp: Let_def split: if_splits\<close>)
  then show ?thesis by simp
qed

lemma utf8_bytes_simps [simp]:
  "utf8_bytes [] = []" "utf8_bytes (c # s) = char_bytes c @ utf8_bytes s"
  "utf8_bytes (s @ t) = utf8_bytes s @ utf8_bytes t"
  by (simp_all add: utf8_bytes_def)

declare char_bytes.simps [simp del]

lemma char_bytes_not_Nil [simp]: "char_bytes c \<noteq> []"
  by (simp add: char_bytes.simps Let_def)

lemma utf8_bytes_inject [simp]: "utf8_bytes s = utf8_bytes t \<longleftrightarrow> s = t"
proof
  show "utf8_bytes s = utf8_bytes t \<Longrightarrow> s = t"
  proof (induction s arbitrary: t)
    case Nil
    then show ?case by (cases t) simp_all
  next
    case (Cons c s)
    then show ?case by (cases t) (auto dest!: char_bytes_cancel)
  qed
qed simp

lemma split_at_first:
  "xs @ c # x = ys @ c # y \<Longrightarrow> c \<notin> set xs \<Longrightarrow> c \<notin> set ys \<Longrightarrow> xs = ys \<and> x = y"
proof (induction xs arbitrary: ys)
  case Nil
  then show ?case by (cases ys) auto
next
  case (Cons a xs)
  then show ?case by (cases ys) auto
qed

lemma show_nat_inject [simp]: "show_nat n = show_nat m \<longleftrightarrow> n = m"
  by (metis read_show_nat)

lemma digits_bytes:
  "list_all ascii_digit s \<Longrightarrow> 58 \<notin> set (utf8_bytes s)"
  by (induction s) (auto simp: char_bytes.simps ascii_digit_def Let_def)

lemma colon_bytes [simp]: "char_bytes CHR '':'' = [58]"
  by (simp add: char_bytes.simps)

text \<open>A decimal length and its separator can be read back from any bytes that follow.\<close>

lemma length_prefix_cancel:
  assumes "utf8_bytes (show_nat n) @ 58 # x = utf8_bytes (show_nat m) @ 58 # y"
  shows "n = m \<and> x = y"
proof -
  have "58 \<notin> set (utf8_bytes (show_nat k))" for k
    using show_nat_digits [of k] by (intro digits_bytes) (simp add: list_all_iff)
  from split_at_first [OF assms this this] show ?thesis by simp
qed

lemma show_int_inject [simp]: "show_int n = show_int m \<longleftrightarrow> n = m"
proof
  have minus: "show_nat a \<noteq> CHR ''-'' # s" for a s
    using show_nat_digits [of a] by (auto simp: ascii_digit_def)
  assume "show_int n = show_int m"
  then show "n = m"
    using minus minus [symmetric] by (auto simp: show_int_def split: if_splits)
qed simp

subsection \<open>The framing is injective\<close>

lemma frame_cancel:
  assumes "frame name v @ x = frame name w @ y"
  shows "code_points v = code_points w \<and> x = y"
proof -
  from assms have "utf8_bytes (show_nat (length (encode_text v))) @ 58 # encode_text v @ record_terminator # x
      = utf8_bytes (show_nat (length (encode_text w))) @ 58 # encode_text w @ record_terminator # y"
    by (simp add: frame_def)
  from length_prefix_cancel [OF this] show ?thesis by (auto simp: append_eq_append_conv simp flip: encode_text_inject)
qed

text \<open>What the bytes of a claim tell: the code points of its text, or its number.\<close>

definition value_points :: "utf16 + int \<Rightarrow> nat list + int" where
  "value_points v = map_sum code_points id v"

lemma frames_loop_cancel:
  "frames_loop c fs = Some a \<Longrightarrow> frames_loop d fs = Some b \<Longrightarrow> a @ x = b @ y \<Longrightarrow>
   (\<forall>f \<in> set fs. map_option code_points (field_value c f) = map_option code_points (field_value d f)) \<and> x = y"
proof (induction fs arbitrary: a b)
  case (Cons f fs)
  then obtain v v' r r' where "field_value c f = Some v" "frames_loop c fs = Some r"
    "field_value d f = Some v'" "frames_loop d fs = Some r'"
    and a: "a = frame (field_name f) v @ r" "b = frame (field_name f) v' @ r'"
    by (auto split: option.splits)
  with Cons.IH [of r r'] Cons.prems(3) show ?case by (auto dest: frame_cancel)
qed simp

lemma all_fields: "f \<in> set canonical_fields"
  by (cases f) (simp_all add: canonical_fields_def)

lemma number_points_inject: "code_points (units (show_int n)) = code_points (units (show_int m)) \<longleftrightarrow> n = m"
  using code_points_inject [of "units (show_int n)" "units (show_int m)"] by auto

lemma field_value_inject:
  assumes "map_option code_points (field_value c f) = map_option code_points (field_value d f)" and "field_value c f \<noteq> None"
  shows "value_points (claim_value c f) = value_points (claim_value d f)"
  using assms by (cases f) (auto simp: field_value_def value_points_def number_points_inject split: if_splits)

lemma claims_eqI:
  assumes "\<And>f. claim_value c f = claim_value d f"
  shows "c = (d :: 'text signed_claims)"
  using assms [of FV] assms [of FKid] assms [of FAlg] assms [of FIss] assms [of FAud]
    assms [of FIat] assms [of FExp] assms [of FNonce] assms [of FMethod] assms [of FRoute]
    assms [of FAction] assms [of FPrincipalType] assms [of FPrincipalId] assms [of FPayloadSha256]
  by simp

lemma frames_loop_Some:
  "frames_loop c fs \<noteq> None \<longleftrightarrow> (\<forall>f \<in> set fs. field_value c f \<noteq> None)"
  by (induction fs) (auto split: option.split)

subsection \<open>Hexadecimal text and comparison\<close>

lemma hex_digit [simp]:
  assumes "n < 16"
  shows "lower_hex (hex_lower n)" and "hex_value (hex_lower n) = n"
  using assms by (auto simp: lower_hex_def hex_value_def hex_lower_def of_char_of Let_def)

lemma hex_value_digit:
  assumes "lower_hex c"
  shows "hex_value c < 16" and "hex_lower (hex_value c) = c"
proof -
  let ?n = "of_char c :: nat"
  have "48 \<le> ?n \<and> ?n \<le> 57 \<or> 97 \<le> ?n \<and> ?n \<le> 102"
    using assms by (simp add: lower_hex_def Let_def)
  then show "hex_value c < 16" by (auto simp: hex_value_def Let_def)
  have "char_of ?n = c" by simp
  moreover have "hex_lower (hex_value c) = char_of ?n"
  proof (cases "?n \<le> 57")
    case True
    with \<open>48 \<le> ?n \<and> ?n \<le> 57 \<or> 97 \<le> ?n \<and> ?n \<le> 102\<close>
    have "?n - 48 < 10" "48 + (?n - 48) = ?n" by auto
    with True show ?thesis by (simp add: hex_value_def hex_lower_def Let_def)
  next
    case False
    with \<open>48 \<le> ?n \<and> ?n \<le> 57 \<or> 97 \<le> ?n \<and> ?n \<le> 102\<close>
    have "\<not> ?n - 87 < 10" "87 + (?n - 87) = ?n" by auto
    moreover from False have "hex_value c = ?n - 87" by (simp add: hex_value_def Let_def)
    ultimately show ?thesis by (simp only: hex_lower_def if_False)
  qed
  ultimately show "hex_lower (hex_value c) = c" by simp
qed

lemma to_hex_simps [simp]:
  "to_hex [] = []" "to_hex (b # bs) = hex_lower (b div 16) # hex_lower (b mod 16) # to_hex bs"
  by (simp_all add: to_hex_def)

lemma from_hex_to_hex:
  assumes "\<forall>b \<in> set bytes. b < 256"
  shows "from_hex (to_hex bytes) = Some bytes"
proof -
  have "length (to_hex bytes) mod 2 = 0 \<and> list_all lower_hex (to_hex bytes) \<and>
      from_hex_pairs (to_hex bytes) = bytes"
    using assms by (induction bytes) (auto simp: less_mult_imp_div_less)
  then show ?thesis by (simp add: from_hex_def)
qed

lemma to_hex_from_hex:
  assumes "from_hex hex = Some bytes"
  shows "to_hex bytes = hex" and "length hex = 2 * length bytes" and "\<forall>b \<in> set bytes. b < 256"
proof -
  from assms have "length hex mod 2 = 0" "list_all lower_hex hex" "bytes = from_hex_pairs hex"
    by (auto simp: from_hex_def split: if_splits)
  moreover have "length hex mod 2 = 0 \<Longrightarrow> list_all lower_hex hex \<Longrightarrow>
      to_hex (from_hex_pairs hex) = hex \<and> length hex = 2 * length (from_hex_pairs hex) \<and>
      (\<forall>b \<in> set (from_hex_pairs hex). b < 256)"
  proof (induction hex rule: from_hex_pairs.induct)
    case (1 a b s)
    then have "hex_value a < 16" "hex_value b < 16" by (auto simp: hex_value_digit)
    then have "16 * hex_value a + hex_value b < 256" by linarith
    with 1 show ?case by (auto simp: hex_value_digit)
  qed auto
  ultimately show "to_hex bytes = hex" "length hex = 2 * length bytes" "\<forall>b \<in> set bytes. b < 256"
    by auto
qed

lemma or_fold_zero:
  "foldl (\<lambda>diff i. diff OR f i) (d :: nat) xs = 0 \<longleftrightarrow> d = 0 \<and> (\<forall>i \<in> set xs. f i = 0)"
  by (induction xs arbitrary: d) (auto simp: or_eq_0_iff)

lemma xor_zero: "(a :: nat) XOR b = 0 \<longleftrightarrow> a = b"
proof
  assume "a XOR b = 0"
  then have "(a XOR b) XOR b = b" by simp
  then show "a = b" by (simp add: xor.assoc)
qed simp

lemma constant_time_equal_iff [simp]: "constant_time_equal left right \<longleftrightarrow> left = right"
proof -
  let ?a = "utf8_bytes left" and ?b = "utf8_bytes right"
  have "constant_time_equal left right \<longleftrightarrow> length ?a = length ?b \<and>
      (\<forall>i < max (length ?a) (length ?b). byte_at ?a i = byte_at ?b i)"
    unfolding constant_time_equal_def Let_def or_fold_zero xor_zero by auto
  also have "\<dots> \<longleftrightarrow> ?a = ?b"
    by (auto simp: byte_at_def list_eq_iff_nth_eq)
  finally show ?thesis by simp
qed

subsection \<open>The properties\<close>

definition well_formed_claims :: "utf16 signed_claims \<Rightarrow> bool" where
  "well_formed_claims c \<longleftrightarrow>
     list_all (\<lambda>f. case claim_value c f of Inl s \<Rightarrow> well_formed s | Inr _ \<Rightarrow> True) canonical_fields"

lemma well_formed_points:
  assumes "value_points (claim_value c f) = value_points (claim_value d f)"
    and "well_formed_claims c" "well_formed_claims d"
  shows "claim_value c f = claim_value d f"
proof -
  have "case claim_value c f of Inl s \<Rightarrow> well_formed s | Inr _ \<Rightarrow> True"
    "case claim_value d f of Inl s \<Rightarrow> well_formed s | Inr _ \<Rightarrow> True"
    using assms(2,3) all_fields [of f] by (auto simp: well_formed_claims_def list_all_iff)
  with assms(1) show ?thesis
    by (cases "claim_value c f"; cases "claim_value d f") (auto simp: value_points_def intro: code_points_inject)
qed

text \<open>
  C40. The signed bytes determine the claims, over all strings of 16-bit code units: when the
  canonical bytes of two envelopes are the same, or one is a prefix of the other, the two
  envelopes have the same numbers and texts of the same code points, and if no text holds a
  lone surrogate, which the encoder replaces by U+FFFD, they are the same envelope. So no
  signature over one envelope's bytes covers another envelope, whatever separators, newlines
  or digits its values hold.
\<close>

theorem canonical_bytes_injective:
  assumes "canonical_bytes c = Some a" and "canonical_bytes d = Some b" and "a @ x = b @ y"
  shows "x = y \<and> (\<forall>f. value_points (claim_value c f) = value_points (claim_value d f)) \<and>
    (well_formed_claims c \<and> well_formed_claims d \<longrightarrow> c = d)"
proof -
  from assms(1,2) obtain r r' where f: "frames_loop c canonical_fields = Some r"
    "frames_loop d canonical_fields = Some r'"
    and a: "a = utf8_bytes (envelope_version @ [CHR 10]) @ r" "b = utf8_bytes (envelope_version @ [CHR 10]) @ r'"
    by (auto simp: canonical_bytes_def)
  with assms(3) have "r @ x = r' @ y" by simp
  from frames_loop_cancel [OF f this]
  have eq: "\<forall>f. map_option code_points (field_value c f) = map_option code_points (field_value d f)" "x = y"
    using all_fields by auto
  moreover have "field_value c f \<noteq> None" for f
    using f(1) frames_loop_Some [of c canonical_fields] all_fields by auto
  ultimately have points: "value_points (claim_value c f) = value_points (claim_value d f)" for f
    using field_value_inject by blast
  have "c = d" if "well_formed_claims c" "well_formed_claims d"
    by (rule claims_eqI) (rule well_formed_points [OF points that])
  with eq(2) points show ?thesis by blast
qed

lemma claim_value_widened: "claim_value (widened c) f = map_sum units id (claim_value c f)"
  by (cases f) (simp_all add: widened_def)

lemma widened_well_formed: "well_formed_claims (widened c)"
proof -
  have "case map_sum units id v of Inl s \<Rightarrow> well_formed s | Inr _ \<Rightarrow> True" for v :: "string + int"
    by (cases v) simp_all
  then show ?thesis by (simp add: well_formed_claims_def claim_value_widened list_all_iff)
qed

lemma widened_inject: "widened c = widened d \<longleftrightarrow> c = d"
proof
  assume "widened c = widened d"
  then have "map_sum units id (claim_value c f) = map_sum units id (claim_value d f)" for f
    by (metis claim_value_widened)
  then have "claim_value c f = claim_value d f" for f
    by (cases "claim_value c f"; cases "claim_value d f"; metis map_sum.simps sum.inject units_inject id_apply sum.distinct(1))
  then show "c = d" by (rule claims_eqI)
qed simp

definition sample_claims :: service_claims where
  "sample_claims =
     \<lparr>claim_v = envelope_version, claim_kid = ''k1'', claim_alg = ''Ed25519'', claim_iss = ''agora'',
      claim_aud = ''stoa'', claim_iat = 1000, claim_exp = 1060,
      claim_nonce = ''abcdefghijklmnopqrstuvwxyz012345'', claim_method = ''POST'',
      claim_route = ''/v1/directives'', claim_action = ''directive.create'',
      claim_principal_type = ''sponsor'', claim_principal_id = ''S1'',
      claim_payload_sha256 = to_hex (replicate 32 171)\<rparr>"

lemma sample_frames: "frames_loop (widened sample_claims) canonical_fields \<noteq> None"
proof -
  have "field_value (widened sample_claims) f \<noteq> None" for f
    by (cases f) (simp_all add: field_value_def sample_claims_def widened_def is_safe_integer_def max_safe_integer_def)
  then show ?thesis unfolding frames_loop_Some by blast
qed

theorem canonical_bytes_injective_witness:
  "service_bytes sample_claims \<noteq> None \<and>
   service_bytes (sample_claims\<lparr>claim_action := ''directive''\<rparr>) \<noteq> service_bytes sample_claims"
proof -
  from sample_frames obtain a where a: "canonical_bytes (widened sample_claims) = Some a"
    by (auto simp: canonical_bytes_def)
  have "sample_claims\<lparr>claim_action := ''directive''\<rparr> \<noteq> sample_claims"
    by (simp add: sample_claims_def)
  with canonical_bytes_injective [of "widened (sample_claims\<lparr>claim_action := ''directive''\<rparr>)" a
      "widened sample_claims" a "[]" "[]"] a show ?thesis
    by (auto simp: service_bytes_def widened_well_formed widened_inject)
qed

text \<open>A lone surrogate and the replacement character have the same bytes.\<close>

lemma lone_surrogate_is_replaced:
  "canonical_bytes (c\<lparr>claim_action := [0xD800]\<rparr>) = canonical_bytes (c\<lparr>claim_action := [0xFFFD]\<rparr>)"
  "c\<lparr>claim_action := [0xD800 :: 16 word]\<rparr> \<noteq> c\<lparr>claim_action := [0xFFFD]\<rparr>"
proof -
  have "encode_text [0xD800] = encode_text [0xFFFD]"
    by (simp add: encode_text_def single_point_def high_surrogate_def low_surrogate_def)
  then have "frame name [0xD800] = frame name [0xFFFD]" for name by (simp add: frame_def)
  then show "canonical_bytes (c\<lparr>claim_action := [0xD800]\<rparr>) = canonical_bytes (c\<lparr>claim_action := [0xFFFD]\<rparr>)"
    by (simp add: canonical_bytes_def canonical_fields_def field_value_def)
  have "claim_action (c\<lparr>claim_action := [0xD800 :: 16 word]\<rparr>) \<noteq> claim_action (c\<lparr>claim_action := [0xFFFD]\<rparr>)" by simp
  then show "c\<lparr>claim_action := [0xD800 :: 16 word]\<rparr> \<noteq> c\<lparr>claim_action := [0xFFFD]\<rparr>" by metis
qed

text \<open>
  Hexadecimal text round trip: a string decodes to some bytes exactly when it is their
  lowercase encoding and every one of them is a byte, so decoding undoes encoding, encoding
  undoes decoding, and no other string is accepted.
\<close>

theorem hex_round_trip:
  "from_hex hex = Some bytes \<longleftrightarrow> hex = to_hex bytes \<and> list_all (\<lambda>b. b < 256) bytes"
  using from_hex_to_hex [of bytes] to_hex_from_hex [of hex bytes] by (auto simp: list_all_iff)

text \<open>
  The digest comparison that never stops early is equality: its loop over the longer
  length, with a missing byte read as zero, finds no difference exactly when the strings
  are the same.
\<close>

theorem constant_time_comparison:
  "constant_time_equal left right \<longleftrightarrow> left = right"
  by simp

end
