(* ===== verification/Keyring.thy ===== *)
theory Keyring
  imports Values Canonical
begin

section \<open>The verification keyring (\<open>auth/keyring.ts\<close>)\<close>

text \<open>
  Construction of the keyring from untrusted configuration, with every configuration error
  as a value, and the lookup of a key at an issue time. Importing a raw key is Web Crypto's:
  it is the parameter \<open>import_key\<close>, which returns no key when the runtime rejects the bytes.
  The keyring's state is its records and the cache of imported keys; a record that throws
  while it is copied is an absent element of the configuration.
\<close>

subsection \<open>Records\<close>

record key_record =
  key_kid :: string
  public_key_hex :: string
  not_before :: int
  not_after :: "int option"

datatype keyring_error =
  RecordsUnreadable | NoRecords | NotAnObject | UnsupportedField | InvalidKid | InvalidPublicKey
| InvalidNotBefore | InvalidNotAfter | EmptyWindow | DuplicateKid | NoSingleCurrentKey

datatype lookup_failure = UnknownKid | KeyNotYetValid | KeyRetired | KeyUnusable

definition kid_char :: "char \<Rightarrow> bool" where
  "kid_char c \<longleftrightarrow> ascii_alnum c \<or> c \<in> set ''._-''"

definition kid_pattern :: "string \<Rightarrow> bool" where
  "kid_pattern s = all_chars kid_char 1 64 s"

definition public_key_pattern :: "string \<Rightarrow> bool" where
  "public_key_pattern s = all_chars lower_hex 64 64 s"

definition verification_key_record_fields :: "string list" where
  "verification_key_record_fields = [''kid'', ''publicKeyHex'', ''notBefore'', ''notAfter'']"

text \<open>The entries of a value whose type is object and which is not null.\<close>

fun object_entries :: "js_value \<Rightarrow> (string \<times> js_value) list option" where
  "object_entries (Obj entries) = Some entries"
| "object_entries (Arr vs) = Some (spread (Arr vs))"
| "object_entries _ = None"

definition validate_fields :: "(string \<times> js_value) list \<Rightarrow> keyring_error + key_record" where
  "validate_fields record =
     (if list_ex (\<lambda>k. k \<notin> set verification_key_record_fields) (map_keys record) then Inl UnsupportedField
      else case own_value record ''kid'' of
        Str kid \<Rightarrow>
          if \<not> kid_pattern kid then Inl InvalidKid
          else (case own_value record ''publicKeyHex'' of
            Str hex \<Rightarrow>
              if \<not> public_key_pattern hex then Inl InvalidPublicKey
              else (case safe_integer_of (own_value record ''notBefore'') of
                None \<Rightarrow> Inl InvalidNotBefore
              | Some nb \<Rightarrow>
                  if nb < 0 then Inl InvalidNotBefore
                  else if own_value record ''notAfter'' = Undefined then
                    Inr \<lparr>key_kid = kid, public_key_hex = hex, not_before = nb, not_after = None\<rparr>
                  else (case safe_integer_of (own_value record ''notAfter'') of
                    None \<Rightarrow> Inl InvalidNotAfter
                  | Some na \<Rightarrow>
                      if na \<le> nb then Inl EmptyWindow
                      else Inr \<lparr>key_kid = kid, public_key_hex = hex, not_before = nb,
                                not_after = Some na\<rparr>))
          | _ \<Rightarrow> Inl InvalidPublicKey)
      | _ \<Rightarrow> Inl InvalidKid)"

definition validate_record :: "js_value \<Rightarrow> keyring_error + key_record" where
  "validate_record record =
     (case object_entries record of None \<Rightarrow> Inl NotAnObject | Some entries \<Rightarrow> validate_fields entries)"

subsection \<open>Construction\<close>

record 'key keyring =
  key_records :: "(string \<times> key_record) list"
  imported :: "(string \<times> 'key) list"

text \<open>The copies, or \<open>None\<close> when reading one of them throws.\<close>

fun seal_records :: "js_value option list \<Rightarrow> js_value list option" where
  "seal_records [] = Some []"
| "seal_records (None # rest) = None"
| "seal_records (Some v # rest) = map_option (\<lambda>sealed. Obj (spread v) # sealed) (seal_records rest)"

fun add_records ::
  "js_value list \<Rightarrow> (string \<times> key_record) list \<Rightarrow>
   keyring_error + (string \<times> key_record) list" where
  "add_records [] records = Inr records"
| "add_records (sealed # rest) records =
     (case validate_record sealed of
        Inl err \<Rightarrow> Inl err
      | Inr record \<Rightarrow>
          if key_kid record \<in> set (map_keys records) then Inl DuplicateKid
          else add_records rest (map_put (key_kid record) record records))"

definition newest_not_before :: "key_record list \<Rightarrow> int" where
  "newest_not_before records = Max (set (map not_before records))"

definition new_keyring :: "js_value option list \<Rightarrow> keyring_error + 'key keyring" where
  "new_keyring config =
     (case seal_records config of
        None \<Rightarrow> Inl RecordsUnreadable
      | Some sealed \<Rightarrow>
          if sealed = [] then Inl NoRecords
          else (case add_records sealed [] of
            Inl err \<Rightarrow> Inl err
          | Inr records \<Rightarrow>
              let open_ended = filter (\<lambda>r. not_after r = None) (map snd records)
              in if length open_ended \<noteq> 1 \<or>
                    not_before (hd open_ended) \<noteq> newest_not_before (map snd records)
                 then Inl NoSingleCurrentKey
                 else Inr \<lparr>key_records = records, imported = []\<rparr>))"

definition kids :: "'key keyring \<Rightarrow> string list" where
  "kids ring = sort (map_keys (key_records ring))"

subsection \<open>Lookup\<close>

text \<open>\<open>fromHex\<close> throwing inside the \<open>try\<close> is the same refusal as a rejected import.\<close>

definition import_record :: "(nat list \<Rightarrow> 'key option) \<Rightarrow> key_record \<Rightarrow> 'key option" where
  "import_record import_key record =
     (case from_hex (public_key_hex record) of None \<Rightarrow> None | Some raw \<Rightarrow> import_key raw)"

definition lookup ::
  "(nat list \<Rightarrow> 'key option) \<Rightarrow> 'key keyring \<Rightarrow> string \<Rightarrow> jsnum \<Rightarrow>
   (lookup_failure + 'key \<times> key_record) \<times> 'key keyring" where
  "lookup import_key ring kid issued_at =
     (case map_of (key_records ring) kid of
        None \<Rightarrow> (Inl UnknownKid, ring)
      | Some record \<Rightarrow>
          (case safe_int issued_at of
             None \<Rightarrow> (Inl KeyUnusable, ring)
           | Some iat \<Rightarrow>
               if iat < 0 then (Inl KeyUnusable, ring)
               else if iat < not_before record then (Inl KeyNotYetValid, ring)
               else if (case not_after record of None \<Rightarrow> False | Some na \<Rightarrow> iat \<ge> na)
               then (Inl KeyRetired, ring)
               else (case map_of (imported ring) kid of
                 Some key \<Rightarrow> (Inr (key, record), ring)
               | None \<Rightarrow>
                   (case import_record import_key record of
                      None \<Rightarrow> (Inl KeyUnusable, ring)
                    | Some key \<Rightarrow>
                        (Inr (key, record), ring\<lparr>imported := map_put kid key (imported ring)\<rparr>)))))"

subsection \<open>What a constructed keyring holds\<close>

definition record_ok :: "key_record \<Rightarrow> bool" where
  "record_ok r \<longleftrightarrow> kid_pattern (key_kid r) \<and> public_key_pattern (public_key_hex r) \<and>
     0 \<le> not_before r \<and>
     (case not_after r of None \<Rightarrow> True | Some na \<Rightarrow> not_before r < na)"

lemma validate_record_ok:
  assumes "validate_record v = Inr r"
  shows "record_ok r"
proof -
  from assms obtain entries where "validate_fields entries = Inr r"
    by (auto simp: validate_record_def split: option.splits)
  then show ?thesis
    by (auto simp: validate_fields_def record_ok_def Let_def
        split: if_splits js_value.splits option.splits)
qed

text \<open>Every stored record is filed under its own key id, once, and is well formed.\<close>

definition records_ok :: "(string \<times> key_record) list \<Rightarrow> bool" where
  "records_ok records \<longleftrightarrow> distinct (map_keys records) \<and>
     list_all (\<lambda>(kid, r). key_kid r = kid \<and> record_ok r) records"

lemma records_ok_put:
  assumes "records_ok records" and "record_ok r" and "key_kid r \<notin> set (map_keys records)"
  shows "records_ok (map_put (key_kid r) r records)"
  using assms by (simp add: records_ok_def map_put_fresh)

lemma add_records_ok:
  "add_records vs records = Inr result \<Longrightarrow> records_ok records \<Longrightarrow> records_ok result"
proof (induction vs records rule: add_records.induct)
  case (2 sealed rest records)
  then show ?case
    by (auto split: sum.splits if_splits intro: records_ok_put validate_record_ok)
qed simp

lemma new_keyring_cases:
  assumes "new_keyring config = Inr ring"
  obtains sealed r where "seal_records config = Some sealed" and "sealed \<noteq> []"
    and "add_records sealed [] = Inr (key_records ring)" and "imported ring = []"
    and "filter (\<lambda>r. not_after r = None) (map snd (key_records ring)) = [r]"
    and "not_before r = newest_not_before (map snd (key_records ring))"
  using assms
  by (auto simp: new_keyring_def Let_def length_Suc_conv split: option.splits if_splits sum.splits)

lemma lookup_record:
  "map_of (key_records ring) kid = Some r \<Longrightarrow> records_ok (key_records ring) \<Longrightarrow> key_kid r = kid \<and> record_ok r"
  by (drule map_of_SomeD) (auto simp: records_ok_def list_all_iff)

subsection \<open>The cache never changes an answer\<close>

definition cache_ok :: "(nat list \<Rightarrow> 'key option) \<Rightarrow> 'key keyring \<Rightarrow> bool" where
  "cache_ok import_key ring \<longleftrightarrow>
     (\<forall>kid key. map_of (imported ring) kid = Some key \<longrightarrow>
        (\<exists>r. map_of (key_records ring) kid = Some r \<and> import_record import_key r = Some key))"

definition valid_at :: "key_record \<Rightarrow> int \<Rightarrow> bool" where
  "valid_at r t \<longleftrightarrow> not_before r \<le> t \<and> (case not_after r of None \<Rightarrow> True | Some na \<Rightarrow> t < na)"

definition after_lookups ::
  "(nat list \<Rightarrow> 'key option) \<Rightarrow> 'key keyring \<Rightarrow> (string \<times> jsnum) list \<Rightarrow> 'key keyring" where
  "after_lookups import_key ring calls =
     foldl (\<lambda>ring (kid, t). snd (lookup import_key ring kid t)) ring calls"

lemma lookup_keeps:
  assumes "cache_ok import_key ring"
  shows "cache_ok import_key (snd (lookup import_key ring kid t)) \<and>
    key_records (snd (lookup import_key ring kid t)) = key_records ring"
  using assms unfolding lookup_def cache_ok_def
  by (auto split: option.split)

lemma after_lookups_keeps:
  "cache_ok import_key ring \<Longrightarrow> cache_ok import_key (after_lookups import_key ring calls) \<and>
     key_records (after_lookups import_key ring calls) = key_records ring"
  unfolding after_lookups_def
proof (induction calls arbitrary: ring)
  case (Cons call calls)
  obtain kid t where "call = (kid, t)" by (cases call)
  with Cons lookup_keeps [of import_key ring kid t] show ?case by simp
qed simp

lemma lookup_Inr:
  assumes "cache_ok import_key ring"
  shows "fst (lookup import_key ring kid t) = Inr (key, r) \<longleftrightarrow>
    map_of (key_records ring) kid = Some r \<and> import_record import_key r = Some key \<and>
    (\<exists>iat. t = num iat \<and> 0 \<le> iat \<and> iat \<le> max_safe_integer \<and> valid_at r iat)"
proof (cases "map_of (key_records ring) kid")
  case None
  then show ?thesis by (simp add: lookup_def)
next
  case (Some r')
  have cached: "import_record import_key r' = Some k" if "map_of (imported ring) kid = Some k" for k
    using assms Some that unfolding cache_ok_def by fastforce
  show ?thesis
  proof (cases "safe_int t")
    case None
    then have "\<not> (\<exists>iat. t = num iat \<and> 0 \<le> iat \<and> iat \<le> max_safe_integer \<and> valid_at r iat)" by auto
    with Some None show ?thesis by (simp add: lookup_def)
  next
    case (Some iat)
    then have t: "t = num iat" "\<bar>iat\<bar> \<le> max_safe_integer" by (auto simp: safe_int_eq_Some)
    then have "(\<exists>i. t = num i \<and> 0 \<le> i \<and> i \<le> max_safe_integer \<and> valid_at r i) \<longleftrightarrow> 0 \<le> iat \<and> valid_at r iat"
      by auto
    with \<open>map_of (key_records ring) kid = Some r'\<close> Some cached show ?thesis
      by (cases "map_of (imported ring) kid"; cases "import_record import_key r'")
        (auto simp: lookup_def valid_at_def split: option.split)
  qed
qed

subsection \<open>The properties\<close>

text \<open>
  A keyring that starts is unambiguous: each key id names one record, every record has
  a 32-byte key and a window that is not empty, exactly one record has no end, and no record
  starts later than that current key. Any other configuration is refused at construction.
\<close>

theorem keyring_is_unambiguous:
  assumes "new_keyring config = Inr ring"
  shows "distinct (map_keys (key_records ring)) \<and>
    (\<forall>(kid, r) \<in> set (key_records ring). key_kid r = kid \<and>
       (\<exists>raw. from_hex (public_key_hex r) = Some raw \<and> length raw = 32) \<and>
       0 \<le> not_before r \<and> (\<exists>t. valid_at r t)) \<and>
    (\<exists>!kid. \<exists>r. map_of (key_records ring) kid = Some r \<and> not_after r = None) \<and>
    (\<exists>kid cur. map_of (key_records ring) kid = Some cur \<and> not_after cur = None \<and>
       (\<forall>(_, r) \<in> set (key_records ring). not_before r \<le> not_before cur))"
proof -
  let ?rs = "key_records ring"
  from assms obtain sealed cur where add: "add_records sealed [] = Inr ?rs"
    and one: "filter (\<lambda>r. not_after r = None) (map snd ?rs) = [cur]"
    and newest: "not_before cur = newest_not_before (map snd ?rs)"
    by (rule new_keyring_cases)
  have ok: "records_ok ?rs" by (rule add_records_ok [OF add]) (simp add: records_ok_def)
  have each: "key_kid r = kid \<and> (\<exists>raw. from_hex (public_key_hex r) = Some raw \<and> length raw = 32) \<and>
      0 \<le> not_before r \<and> (\<exists>t. valid_at r t)" if "(kid, r) \<in> set ?rs" for kid r
  proof -
    from ok that have r: "record_ok r" "key_kid r = kid" by (auto simp: records_ok_def list_all_iff)
    then have hex: "length (public_key_hex r) = 64" "list_all lower_hex (public_key_hex r)"
      by (simp_all add: record_ok_def public_key_pattern_def all_chars_def)
    then have "from_hex (public_key_hex r) = Some (from_hex_pairs (public_key_hex r))"
      by (simp add: from_hex_def)
    with to_hex_from_hex(2) [OF this] hex(1) have "\<exists>raw. from_hex (public_key_hex r) = Some raw \<and> length raw = 32"
      by simp
    moreover have "valid_at r (not_before r)" using r(1)
      by (auto simp: record_ok_def valid_at_def split: option.splits)
    ultimately show ?thesis using r by (auto simp: record_ok_def)
  qed
  from one have "cur \<in> set (filter (\<lambda>r. not_after r = None) (map snd ?rs))" by simp
  then have "cur \<in> set (map snd ?rs)" "not_after cur = None" by auto
  then obtain kid where kid: "(kid, cur) \<in> set ?rs" by auto
  then have cur: "map_of ?rs kid = Some cur" using ok by (simp add: records_ok_def map_keys_def)
  have only: "r = cur" if "(k, r) \<in> set ?rs" "not_after r = None" for k r
  proof -
    from that have "r \<in> set (filter (\<lambda>r. not_after r = None) (map snd ?rs))" by force
    with one show ?thesis by simp
  qed
  have same: "k = kid" if "map_of ?rs k = Some r" "not_after r = None" for k r
    using only [of k r] each [of k r] each [OF kid] map_of_SomeD [OF that(1)] that(2) by simp
  have "not_before r \<le> not_before cur" if "(k, r) \<in> set ?rs" for k r
    using that unfolding newest newest_not_before_def by (intro Max_ge) force+
  then have newest': "\<forall>(_, r) \<in> set ?rs. not_before r \<le> not_before cur" by blast
  have uniq: "\<exists>!kid. \<exists>r. map_of ?rs kid = Some r \<and> not_after r = None"
    by (rule ex1I [of _ kid]) (use cur \<open>not_after cur = None\<close> same in blast)+
  show ?thesis
  proof (intro conjI)
    show "distinct (map_keys ?rs)" using ok by (simp add: records_ok_def)
    show "\<forall>(kid, r) \<in> set ?rs. key_kid r = kid \<and>
       (\<exists>raw. from_hex (public_key_hex r) = Some raw \<and> length raw = 32) \<and>
       0 \<le> not_before r \<and> (\<exists>t. valid_at r t)" using each by blast
  qed (use uniq cur \<open>not_after cur = None\<close> newest' in blast)+
qed

definition sample_key :: "string \<Rightarrow> int \<Rightarrow> int option \<Rightarrow> js_value option" where
  "sample_key kid nb na =
     Some (Obj ([(''kid'', Str kid), (''publicKeyHex'', Str (replicate 64 CHR ''a'')),
                 (''notBefore'', Number (num nb))] @
                (case na of None \<Rightarrow> [] | Some e \<Rightarrow> [(''notAfter'', Number (num e))])))"

definition sample_ring :: "nat list keyring" where
  "sample_ring =
     \<lparr>key_records =
        [(''k1'', \<lparr>key_kid = ''k1'', public_key_hex = replicate 64 CHR ''a'', not_before = 0,
                 not_after = Some 1100\<rparr>),
         (''k2'', \<lparr>key_kid = ''k2'', public_key_hex = replicate 64 CHR ''a'', not_before = 1000,
                 not_after = None\<rparr>)],
      imported = []\<rparr>"

lemma sample_ring_constructed:
  "new_keyring [sample_key ''k1'' 0 (Some 1100), sample_key ''k2'' 1000 None] = Inr sample_ring"
  by (simp add: sample_key_def sample_ring_def new_keyring_def validate_record_def validate_fields_def
      verification_key_record_fields_def own_value_def kid_pattern_def public_key_pattern_def
      all_chars_def kid_char_def ascii_alnum_def ascii_letter_def ascii_digit_def lower_hex_def
      newest_not_before_def max_safe_integer_def Let_def numeral_eq_Suc)

theorem keyring_is_unambiguous_example:
  "new_keyring [sample_key ''k1'' 0 (Some 1100), sample_key ''k2'' 1000 None] = Inr sample_ring \<and>
   (\<exists>!kid. \<exists>r. map_of (key_records sample_ring) kid = Some r \<and> not_after r = None)"
  using keyring_is_unambiguous [OF sample_ring_constructed] sample_ring_constructed by blast

text \<open>
  A lookup depends on the configuration alone: after any sequence of lookups, whatever
  they were asked and whatever they cached, a key is returned exactly when its id is
  configured, its window holds the issue time and the runtime imports the configured bytes,
  and then it is that configured key.
\<close>

theorem lookup_ignores_history:
  assumes "new_keyring config = Inr ring"
  shows "fst (lookup import_key (after_lookups import_key ring calls) kid t) = Inr (key, r) \<longleftrightarrow>
    map_of (key_records ring) kid = Some r \<and> import_record import_key r = Some key \<and>
    (\<exists>iat. t = num iat \<and> 0 \<le> iat \<and> iat \<le> max_safe_integer \<and> valid_at r iat)"
proof -
  from assms have "imported ring = []" by (rule new_keyring_cases)
  then have "cache_ok import_key ring" by (simp add: cache_ok_def)
  from after_lookups_keeps [OF this, of calls] lookup_Inr show ?thesis by metis
qed

lemma to_hex_sample: "to_hex (replicate n 170) = replicate (2 * n) CHR ''a''"
proof (induction n)
  case (Suc n)
  have "hex_lower 10 = CHR ''a''" by code_simp
  with Suc show ?case by simp
qed simp

theorem lookup_ignores_history_example:
  "fst (lookup Some (after_lookups Some sample_ring [(''k1'', num 50), (''k2'', num 1050)]) ''k1'' (num 1050)) =
     Inr (replicate 32 170, snd (hd (key_records sample_ring))) \<and>
   fst (lookup Some (after_lookups Some sample_ring [(''k1'', num 50)]) ''k1'' (num 1100)) \<noteq>
     Inr (replicate 32 170, snd (hd (key_records sample_ring)))"
proof -
  have hex: "from_hex (replicate 64 CHR ''a'') = Some (replicate 32 170)"
    using from_hex_to_hex [of "replicate 32 170"] to_hex_sample [of 32] by simp
  have r: "map_of (key_records sample_ring) ''k1'' = Some (snd (hd (key_records sample_ring)))"
    "import_record Some (snd (hd (key_records sample_ring))) = Some (replicate 32 170)"
    by (simp_all add: sample_ring_def import_record_def hex)
  have w: "valid_at (snd (hd (key_records sample_ring))) t \<longleftrightarrow> 0 \<le> t \<and> t < 1100" for t
    by (simp add: sample_ring_def valid_at_def)
  have ex: "(\<exists>iat. num t = num iat \<and> 0 \<le> iat \<and> iat \<le> max_safe_integer \<and>
      valid_at (snd (hd (key_records sample_ring))) iat) \<longleftrightarrow> 0 \<le> t \<and> t < 1100" for t :: int
    unfolding w by (auto simp: max_safe_integer_def)
  have "0 \<le> (1050 :: int) \<and> (1050 :: int) < 1100" "\<not> (0 \<le> (1100 :: int) \<and> (1100 :: int) < 1100)"
    by simp_all
  with ex r show ?thesis
    unfolding lookup_ignores_history [OF sample_ring_constructed] by blast
qed

end
