(* ===== verification/NonceStore.thy ===== *)
theory NonceStore
  imports Prelude
begin

section \<open>Replay windows (\<open>auth/nonce.ts\<close>)\<close>

text \<open>
  The interface \<open>NonceStore\<close> and its two implementations. The locale \<open>replay_window\<close> is
  the contract the envelope verifier relies on: a nonce is claimed at most once while its
  record is live. \<open>D1NonceStore\<close> keeps a table keyed by the digest of the nonce; the digest
  (Web Crypto's SHA-256) is the parameter \<open>digest\<close>, and its SQL statements are functions on
  the table. \<open>MemoryNonceStore\<close> keeps an insertion-ordered map. Times are numbers of the
  source language until the shared input check has accepted them.
\<close>

subsection \<open>The shared input contract\<close>

datatype nonce_error = NonceStoreInput | NonceStoreConfiguration | NonceStoreFull nat

definition valid_epoch_second :: "jsnum \<Rightarrow> bool" where
  "valid_epoch_second x \<longleftrightarrow> (case safe_int x of None \<Rightarrow> False | Some n \<Rightarrow> n \<ge> 0)"

text \<open>\<open>Inr (e, n)\<close>: the checked expiry and time.\<close>

definition assert_claimable_window :: "jsnum \<Rightarrow> jsnum \<Rightarrow> nonce_error + int \<times> int" where
  "assert_claimable_window expires_at now =
     (if \<not> valid_epoch_second now \<or> \<not> valid_epoch_second expires_at then Inl NonceStoreInput
      else case (safe_int expires_at, safe_int now) of
        (Some e, Some n) \<Rightarrow> if e \<le> n then Inl NonceStoreInput else Inr (e, n)
      | _ \<Rightarrow> Inl NonceStoreInput)"

lemma valid_epoch_num: "valid_epoch_second x \<longleftrightarrow> (\<exists>n. x = num n \<and> 0 \<le> n \<and> n \<le> max_safe_integer)"
  by (cases "safe_int x") (auto simp: valid_epoch_second_def safe_int_eq_Some)

lemma claimable_window_Inr:
  "assert_claimable_window expires_at now = Inr (e, n) \<longleftrightarrow>
     expires_at = num e \<and> now = num n \<and> 0 \<le> n \<and> n < e \<and> e \<le> max_safe_integer"
proof
  assume "assert_claimable_window expires_at now = Inr (e, n)"
  then show "expires_at = num e \<and> now = num n \<and> 0 \<le> n \<and> n < e \<and> e \<le> max_safe_integer"
    by (auto simp: assert_claimable_window_def valid_epoch_num split: if_splits)
qed (auto simp: assert_claimable_window_def valid_epoch_num)

subsection \<open>The contract\<close>

text \<open>
  \<open>expiry s nonce\<close> is the recorded expiry of a nonce. A successful claim records its expiry
  and only overwrites an expired record; no call, whatever its outcome, touches a record that
  is live at the call's time; a call with an unusable window fails without effect. \<open>ok\<close> is
  the store's own invariant.
\<close>

locale replay_window =
  fixes claim :: "'s \<Rightarrow> string \<Rightarrow> jsnum \<Rightarrow> jsnum \<Rightarrow> (nonce_error + bool) \<times> 's"
    and expiry :: "'s \<Rightarrow> string \<Rightarrow> int option"
    and ok :: "'s \<Rightarrow> bool"
  assumes claimed: "ok s \<Longrightarrow> claim s nonce e now = (Inr True, s') \<Longrightarrow>
      \<exists>e' n. assert_claimable_window e now = Inr (e', n) \<and> expiry s' nonce = Some e' \<and>
        (\<forall>x. expiry s nonce = Some x \<longrightarrow> x \<le> n)"
    and retained: "ok s \<Longrightarrow> claim s nonce e now = (r, s') \<Longrightarrow>
      assert_claimable_window e now = Inr (e', n) \<Longrightarrow> expiry s m = Some x \<Longrightarrow> n < x \<Longrightarrow>
      expiry s' m = Some x"
    and rejected: "assert_claimable_window e now = Inl err \<Longrightarrow> claim s nonce e now = (Inl err, s)"
    and ok_kept: "ok s \<Longrightarrow> ok (snd (claim s nonce e now))"
begin

text \<open>The state after a list of calls.\<close>

definition after_calls :: "'s \<Rightarrow> (string \<times> jsnum \<times> jsnum) list \<Rightarrow> 's" where
  "after_calls s calls = foldl (\<lambda>s (nonce, e, now). snd (claim s nonce e now)) s calls"

text \<open>A live record survives calls whose clocks have not reached its expiry.\<close>

lemma live_record_kept:
  assumes "ok s" and "expiry s m = Some x" and "\<forall>(nonce, e, now) \<in> set calls. js_less now (num x)"
  shows "expiry (after_calls s calls) m = Some x"
  using assms unfolding after_calls_def
proof (induction calls arbitrary: s)
  case (Cons call calls)
  obtain nonce e now where call: "call = (nonce, e, now)" by (cases call) auto
  have "expiry (snd (claim s nonce e now)) m = Some x"
  proof (cases "assert_claimable_window e now")
    case (Inl err)
    with rejected [of e now err s nonce] Cons.prems show ?thesis by simp
  next
    case (Inr window)
    obtain e' n where w: "assert_claimable_window e now = Inr (e', n)" using Inr by (cases window) auto
    then have "now = num n" by (simp add: claimable_window_Inr)
    with Cons.prems(3) call have "n < x" by simp
    with retained [OF Cons.prems(1) _ w Cons.prems(2)] show ?thesis by (metis prod.collapse)
  qed
  with Cons ok_kept call show ?case by simp
qed simp

lemma ok_after_calls: "ok s \<Longrightarrow> ok (after_calls s calls)"
  unfolding after_calls_def
  by (induction calls arbitrary: s) (auto simp: ok_kept)

text \<open>
  Single use: after a successful claim recorded until \<open>e\<close>, no later claim of the nonce
  succeeds while no clock has reached \<open>e\<close>.
\<close>

lemma single_use:
  assumes "ok s" and "claim s nonce (num e) now = (Inr True, s1)"
    and "\<forall>(m, x, t) \<in> set calls. js_less t (num e)" and "js_less t (num e)"
  shows "fst (claim (after_calls s1 calls) nonce x t) \<noteq> Inr True"
proof
  assume again: "fst (claim (after_calls s1 calls) nonce x t) = Inr True"
  from claimed [OF assms(1,2)] have "expiry s1 nonce = Some e" by (auto simp: claimable_window_Inr)
  moreover have ok1: "ok s1" using ok_kept [OF assms(1), of nonce "num e" now] assms(2) by simp
  ultimately have "expiry (after_calls s1 calls) nonce = Some e"
    using live_record_kept assms(3) by blast
  moreover have "ok (after_calls s1 calls)" using ok1 by (rule ok_after_calls)
  moreover from again obtain s2 where "claim (after_calls s1 calls) nonce x t = (Inr True, s2)"
    by (metis prod.collapse)
  ultimately obtain n where "t = num n" "e \<le> n"
    using claimed [of "after_calls s1 calls" nonce x t s2] by (auto simp: claimable_window_Inr)
  with assms(4) show False by simp
qed

end

subsection \<open>The D1 store\<close>

text \<open>A row of \<open>auth_envelope_nonces\<close>, keyed by the digest of the nonce.\<close>

record nonce_row =
  expires_at :: int
  claimed_at :: int

record d1_store =
  nonce_rows :: "(string \<times> nonce_row) list"
  cleanup_batch_size :: nat

definition new_d1_store :: "(string \<times> nonce_row) list \<Rightarrow> jsnum \<Rightarrow> nonce_error + d1_store" where
  "new_d1_store rows batch =
     (case safe_int batch of
        None \<Rightarrow> Inl NonceStoreConfiguration
      | Some n \<Rightarrow> if n < 1 then Inl NonceStoreConfiguration
                 else Inr \<lparr>nonce_rows = rows, cleanup_batch_size = nat n\<rparr>)"

text \<open>\<open>CLEANUP_EXPIRED_NONCES_SQL\<close>: the digests it deletes.\<close>

definition cleanup_victims :: "d1_store \<Rightarrow> int \<Rightarrow> string list" where
  "cleanup_victims store now =
     take (cleanup_batch_size store)
       (map fst (sort_key (\<lambda>(_, row). expires_at row)
         (filter (\<lambda>(_, row). expires_at row \<le> now) (nonce_rows store))))"

definition delete_rows :: "string list \<Rightarrow> d1_store \<Rightarrow> d1_store" where
  "delete_rows hashes store =
     store\<lparr>nonce_rows := filter (\<lambda>(h, _). h \<notin> set hashes) (nonce_rows store)\<rparr>"

definition cleanup_expired :: "d1_store \<Rightarrow> jsnum \<Rightarrow> (nonce_error + nat) \<times> d1_store" where
  "cleanup_expired store now =
     (case safe_int now of
        None \<Rightarrow> (Inl NonceStoreInput, store)
      | Some n \<Rightarrow>
          if n < 0 then (Inl NonceStoreInput, store)
          else let victims = cleanup_victims store n
               in (Inr (length victims), delete_rows victims store))"

text \<open>\<open>CLAIM_NONCE_SQL\<close>: insert, or update an expired row; the number of changed rows.\<close>

definition claim_upsert :: "string \<Rightarrow> int \<Rightarrow> int \<Rightarrow> d1_store \<Rightarrow> nat \<times> d1_store" where
  "claim_upsert hash e now store =
     (let write = store\<lparr>nonce_rows :=
            map_put hash \<lparr>expires_at = e, claimed_at = now\<rparr> (nonce_rows store)\<rparr>
      in case map_of (nonce_rows store) hash of
           None \<Rightarrow> (1, write)
         | Some row \<Rightarrow> if expires_at row \<le> now then (1, write) else (0, store))"

definition d1_claim ::
  "(string \<Rightarrow> string) \<Rightarrow> d1_store \<Rightarrow> string \<Rightarrow> jsnum \<Rightarrow> jsnum \<Rightarrow> (nonce_error + bool) \<times> d1_store" where
  "d1_claim digest store nonce expires now =
     (case assert_claimable_window expires now of
        Inl err \<Rightarrow> (Inl err, store)
      | Inr (e, n) \<Rightarrow>
          let store1 = snd (cleanup_expired store now);
              (changes, store2) = claim_upsert (digest nonce) e n store1
          in (Inr (changes = 1), store2))"

definition d1_expiry :: "(string \<Rightarrow> string) \<Rightarrow> d1_store \<Rightarrow> string \<Rightarrow> int option" where
  "d1_expiry digest store nonce = map_option expires_at (map_of (nonce_rows store) (digest nonce))"

subsection \<open>The in-memory store\<close>

record memory_store =
  seen :: "(string \<times> int) list"
  capacity :: nat

definition evict_expired :: "int \<Rightarrow> memory_store \<Rightarrow> memory_store" where
  "evict_expired now store = store\<lparr>seen := filter (\<lambda>(_, e). \<not> e \<le> now) (seen store)\<rparr>"

definition memory_claim ::
  "memory_store \<Rightarrow> string \<Rightarrow> jsnum \<Rightarrow> jsnum \<Rightarrow> (nonce_error + bool) \<times> memory_store" where
  "memory_claim store nonce expires now =
     (case assert_claimable_window expires now of
        Inl err \<Rightarrow> (Inl err, store)
      | Inr (e, n) \<Rightarrow>
          let store1 = evict_expired n store
          in if (case map_of (seen store1) nonce of None \<Rightarrow> False | Some x \<Rightarrow> x > n)
             then (Inr False, store1)
             else if length (seen store1) \<ge> capacity store1
             then (Inl (NonceStoreFull (capacity store1)), store1)
             else (Inr True, store1\<lparr>seen := map_put nonce e (seen store1)\<rparr>))"

definition memory_expiry :: "memory_store \<Rightarrow> string \<Rightarrow> int option" where
  "memory_expiry store nonce = map_of (seen store) nonce"

subsection \<open>Both stores keep the contract\<close>

definition d1_ok :: "d1_store \<Rightarrow> bool" where
  "d1_ok store \<longleftrightarrow> distinct (map_keys (nonce_rows store))"

lemma cleanup_victims_expired:
  assumes "h \<in> set (cleanup_victims store n)"
  shows "\<exists>row. (h, row) \<in> set (nonce_rows store) \<and> expires_at row \<le> n"
proof -
  from assms obtain row where "(h, row) \<in> set (filter (\<lambda>(_, row). expires_at row \<le> n) (nonce_rows store))"
    unfolding cleanup_victims_def by (auto dest!: in_set_takeD)
  then show ?thesis by auto
qed

lemma delete_rows_lookup:
  "map_of (nonce_rows (delete_rows hs store)) h =
     (if h \<in> set hs then None else map_of (nonce_rows store) h)"
  unfolding delete_rows_def by (simp add: map_of_filter_keys)

lemma d1_cleanup_lookup:
  assumes "d1_ok store" and "0 \<le> n" and "n \<le> max_safe_integer"
  shows "d1_ok (snd (cleanup_expired store (num n))) \<and>
    (\<forall>h row. map_of (nonce_rows store) h = Some row \<longrightarrow> n < expires_at row \<longrightarrow>
       map_of (nonce_rows (snd (cleanup_expired store (num n)))) h = Some row) \<and>
    (\<forall>h row. map_of (nonce_rows (snd (cleanup_expired store (num n)))) h = Some row \<longrightarrow>
       map_of (nonce_rows store) h = Some row)"
proof -
  let ?v = "cleanup_victims store n"
  have "h \<notin> set ?v" if "map_of (nonce_rows store) h = Some row" "n < expires_at row" for h row
  proof
    assume "h \<in> set ?v"
    from cleanup_victims_expired [OF this] obtain row' where
      row': "(h, row') \<in> set (nonce_rows store)" "expires_at row' \<le> n" by blast
    then have "map_of (nonce_rows store) h = Some row'"
      using assms(1) by (simp add: d1_ok_def map_keys_def)
    with that row' show False by simp
  qed
  moreover have "d1_ok (delete_rows ?v store)"
    using assms(1) unfolding d1_ok_def delete_rows_def map_keys_def by (simp add: distinct_map_filter)
  ultimately show ?thesis
    using assms(2,3) by (auto simp: cleanup_expired_def delete_rows_lookup Let_def split: if_splits)
qed

lemma map_of_filter_live:
  "map_of m k = Some v \<Longrightarrow> P (k, v) \<Longrightarrow> map_of (filter P m) k = Some v"
  by (induction m) (auto split: if_splits)

text \<open>The decision of the UPSERT as a result of \<open>claim\<close>.\<close>

definition d1_decide :: "string \<Rightarrow> int \<Rightarrow> int \<Rightarrow> d1_store \<Rightarrow> (nonce_error + bool) \<times> d1_store" where
  "d1_decide hash e n store =
     (let (changes, store') = claim_upsert hash e n store in (Inr (changes = 1), store'))"

lemmas d1_decide_simps = d1_decide_def claim_upsert_def Let_def

text \<open>What one call of the D1 store does once its window is accepted.\<close>

lemma d1_claim_cases:
  assumes "d1_ok s" and "assert_claimable_window e now = Inr (e', n)"
  obtains store1 where "d1_ok store1"
    "\<forall>h row. map_of (nonce_rows s) h = Some row \<longrightarrow> n < expires_at row \<longrightarrow>
      map_of (nonce_rows store1) h = Some row"
    "\<forall>h row. map_of (nonce_rows store1) h = Some row \<longrightarrow> map_of (nonce_rows s) h = Some row"
    "d1_claim digest s nonce e now =
      d1_decide (digest nonce) e' n store1"
proof -
  from assms(2) have w: "now = num n" "0 \<le> n" "n \<le> max_safe_integer"
    by (auto simp: claimable_window_Inr)
  let ?s1 = "snd (cleanup_expired s (num n))"
  note look = d1_cleanup_lookup [OF assms(1) w(2,3)]
  have "d1_claim digest s nonce e now =
      d1_decide (digest nonce) e' n ?s1"
    using assms(2) w(1)
    by (simp add: d1_claim_def d1_decide_def Let_def)
  with look that [of ?s1] show ?thesis by blast
qed

interpretation d1: replay_window "d1_claim digest" "d1_expiry digest" d1_ok
  for digest :: "string \<Rightarrow> string"
proof
  fix s s' :: d1_store and nonce m :: string and e now :: jsnum and r e' n x
  show "\<exists>e' n. assert_claimable_window e now = Inr (e', n) \<and> d1_expiry digest s' nonce = Some e' \<and>
        (\<forall>x. d1_expiry digest s nonce = Some x \<longrightarrow> x \<le> n)"
    if given: "d1_ok s" "d1_claim digest s nonce e now = (Inr True, s')"
  proof -
    obtain e' n where w: "assert_claimable_window e now = Inr (e', n)"
      using given(2) by (cases "assert_claimable_window e now") (auto simp: d1_claim_def)
    from given(1) w obtain s1 where s1: "d1_ok s1"
      "\<forall>h row. map_of (nonce_rows s) h = Some row \<longrightarrow> n < expires_at row \<longrightarrow>
        map_of (nonce_rows s1) h = Some row"
      "\<forall>h row. map_of (nonce_rows s1) h = Some row \<longrightarrow> map_of (nonce_rows s) h = Some row"
      and c: "d1_claim digest s nonce e now =
      d1_decide (digest nonce) e' n s1"
      by (rule d1_claim_cases [where digest = digest and nonce = nonce])
    have "d1_expiry digest s' nonce = Some e'"
      using given(2) unfolding c by (auto simp: d1_decide_simps d1_expiry_def split: option.splits if_splits)
    moreover have "expires_at row \<le> n" if "map_of (nonce_rows s) (digest nonce) = Some row" for row
    proof (rule ccontr)
      assume "\<not> expires_at row \<le> n"
      with s1(2) that have "map_of (nonce_rows s1) (digest nonce) = Some row" by simp
      with c \<open>d1_claim digest s nonce e now = (Inr True, s')\<close> \<open>\<not> expires_at row \<le> n\<close>
      show False by (simp add: d1_decide_simps)
    qed
    ultimately show ?thesis using w by (auto simp: d1_expiry_def)
  qed
  show "d1_expiry digest s' m = Some x"
    if given: "d1_ok s" "d1_claim digest s nonce e now = (r, s')"
      "assert_claimable_window e now = Inr (e', n)" "d1_expiry digest s m = Some x" "n < x"
  proof -
    from given(4) obtain row where row: "map_of (nonce_rows s) (digest m) = Some row" "expires_at row = x"
      by (auto simp: d1_expiry_def)
    from given(1,3) obtain s1 where
      s1: "\<forall>h row. map_of (nonce_rows s) h = Some row \<longrightarrow> n < expires_at row \<longrightarrow>
        map_of (nonce_rows s1) h = Some row"
      and c: "d1_claim digest s nonce e now =
      d1_decide (digest nonce) e' n s1"
      by (rule d1_claim_cases [where digest = digest and nonce = nonce])
    from s1 row given(5) have row1: "map_of (nonce_rows s1) (digest m) = Some row" by simp
    show ?thesis
    proof (cases "digest m = digest nonce")
      case True
      with c row1 row(2) given(2,5) have "s' = s1" by (simp add: d1_decide_simps)
      with row1 row(2) show ?thesis by (simp add: d1_expiry_def)
    next
      case False
      with given(2) row1 row(2) show ?thesis
        unfolding c by (auto simp: d1_decide_simps d1_expiry_def split: option.splits if_splits)
    qed
  qed
  show "d1_ok (snd (d1_claim digest s nonce e now))" if "d1_ok s"
  proof (cases "assert_claimable_window e now")
    case (Inl err)
    with that show ?thesis by (simp add: d1_claim_def)
  next
    case (Inr window)
    then obtain e' n where w: "assert_claimable_window e now = Inr (e', n)" by (cases window) auto
    from that w obtain s1 where "d1_ok s1" and c: "d1_claim digest s nonce e now =
      d1_decide (digest nonce) e' n s1"
      by (rule d1_claim_cases [where digest = digest and nonce = nonce])
    then show ?thesis unfolding c by (auto simp: d1_decide_simps d1_ok_def split: option.split)
  qed
qed (simp add: d1_claim_def)

interpretation memory: replay_window memory_claim memory_expiry "\<lambda>_. True"
proof
  fix s s' :: memory_store and nonce m :: string and e now :: jsnum and r e' n x
  show "\<exists>e' n. assert_claimable_window e now = Inr (e', n) \<and> memory_expiry s' nonce = Some e' \<and>
        (\<forall>x. memory_expiry s nonce = Some x \<longrightarrow> x \<le> n)"
    if given: "memory_claim s nonce e now = (Inr True, s')"
  proof -
    obtain e' n where w: "assert_claimable_window e now = Inr (e', n)"
      using given by (cases "assert_claimable_window e now") (auto simp: memory_claim_def)
    have "x \<le> n" if x: "memory_expiry s nonce = Some x" for x
    proof (rule ccontr)
      assume "\<not> x \<le> n"
      with x have "map_of (seen (evict_expired n s)) nonce = Some x"
        unfolding evict_expired_def memory_expiry_def by (simp add: map_of_filter_live)
      with \<open>\<not> x \<le> n\<close> w \<open>memory_claim s nonce e now = (Inr True, s')\<close> show False
        by (simp add: memory_claim_def Let_def)
    qed
    moreover have "memory_expiry s' nonce = Some e'"
      using given w by (auto simp: memory_claim_def memory_expiry_def Let_def split: if_splits option.splits)
    ultimately show ?thesis using w by blast
  qed
  show "memory_expiry s' m = Some x"
    if given: "memory_claim s nonce e now = (r, s')"
      "assert_claimable_window e now = Inr (e', n)" "memory_expiry s m = Some x" "n < x"
  proof -
    have live: "map_of (seen (evict_expired n s)) m = Some x"
      using given(3,4) unfolding evict_expired_def memory_expiry_def by (simp add: map_of_filter_live)
    with given show ?thesis
      by (cases "m = nonce")
        (auto simp: memory_claim_def memory_expiry_def Let_def split: if_splits option.splits)
  qed
qed (simp_all add: memory_claim_def)

end
