(* ===== verification/Envelope.thy ===== *)
theory Envelope
  imports Keyring NonceStore
begin

section \<open>The signed service envelope (\<open>auth/envelope.ts\<close>)\<close>

text \<open>
  Parsing of an untrusted envelope and its verification. Web Crypto is a parameter: the
  import of a key, the Ed25519 check (which may throw) and the SHA-256 digest. The replay
  store is a state with its \<open>claim\<close>; the laws it must keep are those of \<open>NonceStore\<close>. A
  verification returns its result with the keyring and the store after it. Sums of times are
  exact: an accepted envelope passes the code's test that the largest of them is a safe
  integer.
\<close>

subsection \<open>Bounds of the claims\<close>

definition lower_alnum :: "char \<Rightarrow> bool" where
  "lower_alnum c \<longleftrightarrow> ascii_digit c \<or> (let n = (of_char c :: nat) in 97 \<le> n \<and> n \<le> 122)"

definition plus_of :: "(char \<Rightarrow> bool) \<Rightarrow> string \<Rightarrow> bool" where
  "plus_of P s \<longleftrightarrow> s \<noteq> [] \<and> list_all P s"

definition route_pattern :: "string \<Rightarrow> bool" where
  "route_pattern s \<longleftrightarrow>
     (case s of [] \<Rightarrow> False
      | c # rest \<Rightarrow> c = CHR ''/'' \<and> list_all (\<lambda>c. ascii_alnum c \<or> c \<in> set ''/:._-'') rest)"

text \<open>What may follow a letter or digit of an action.\<close>

fun action_rest :: "string \<Rightarrow> bool" where
  "action_rest [] = True"
| "action_rest [c] = lower_alnum c"
| "action_rest (c # d # s) =
     (if lower_alnum c then action_rest (d # s)
      else c \<in> set ''._-'' \<and> lower_alnum d \<and> action_rest s)"

definition action_pattern :: "string \<Rightarrow> bool" where
  "action_pattern s \<longleftrightarrow> (case s of [] \<Rightarrow> False | c # rest \<Rightarrow> lower_alnum c \<and> action_rest rest)"

definition methods :: "string list" where
  "methods = [''GET'', ''HEAD'', ''POST'', ''PUT'', ''PATCH'', ''DELETE'', ''OPTIONS'']"

text \<open>The pattern and the most bytes of each bounded claim.\<close>

definition claim_bounds :: "(string \<times> (string \<Rightarrow> bool) \<times> nat) list" where
  "claim_bounds =
     [(''v'', plus_of kid_char, 32), (''kid'', plus_of kid_char, 64),
      (''alg'', plus_of (\<lambda>c. ascii_alnum c \<or> c \<in> set ''_-''), 32),
      (''iss'', plus_of (\<lambda>c. lower_alnum c \<or> c \<in> set ''.-''), 64),
      (''aud'', plus_of (\<lambda>c. lower_alnum c \<or> c \<in> set ''.-''), 64),
      (''method'', \<lambda>s. s \<in> set methods, 7),
      (''route'', route_pattern, 256),
      (''action'', action_pattern, 64),
      (''principal_type'', plus_of (\<lambda>c. lower_alnum c \<and> \<not> ascii_digit c \<or> c = CHR ''_''), 32),
      (''principal_id'', plus_of (\<lambda>c. ascii_alnum c \<or> c \<in> set ''_-''), 64)]"

definition within_bounds :: "string \<Rightarrow> string \<Rightarrow> bool" where
  "within_bounds field value =
     (case map_of claim_bounds field of
        None \<Rightarrow> True
      | Some (pattern, max_bytes) \<Rightarrow>
          if utf8_length value > max_bytes then False else pattern value)"

subsection \<open>Parsing\<close>

definition signature_hex_length :: nat where "signature_hex_length = 128"
definition nonce_min_length :: nat where "nonce_min_length = 32"
definition nonce_max_length :: nat where "nonce_max_length = 128"

definition nonce_char :: "char \<Rightarrow> bool" where
  "nonce_char c \<longleftrightarrow> ascii_alnum c \<or> c \<in> set ''_-''"

definition is_number_field :: "canonical_field \<Rightarrow> bool" where
  "is_number_field field \<longleftrightarrow> field = FIat \<or> field = FExp"

definition entry_ok :: "(string \<times> js_value) list \<Rightarrow> canonical_field \<Rightarrow> bool" where
  "entry_ok claims field =
     (case own_value claims (field_name field) of
        Number x \<Rightarrow> is_number_field field \<and> is_safe_integer x
      | Str s \<Rightarrow> \<not> is_number_field field \<and> length s \<noteq> 0
      | _ \<Rightarrow> False)"

text \<open>The casts of the code, applied once every entry has its type.\<close>

definition string_entry :: "(string \<times> js_value) list \<Rightarrow> canonical_field \<Rightarrow> string" where
  "string_entry claims field = (case own_value claims (field_name field) of Str s \<Rightarrow> s | _ \<Rightarrow> [])"

definition number_entry :: "(string \<times> js_value) list \<Rightarrow> canonical_field \<Rightarrow> int" where
  "number_entry claims field =
     (case safe_integer_of (own_value claims (field_name field)) of Some n \<Rightarrow> n | None \<Rightarrow> 0)"

definition claims_of :: "(string \<times> js_value) list \<Rightarrow> service_claims" where
  "claims_of e =
     \<lparr>claim_v = string_entry e FV, claim_kid = string_entry e FKid, claim_alg = string_entry e FAlg,
      claim_iss = string_entry e FIss, claim_aud = string_entry e FAud,
      claim_iat = number_entry e FIat, claim_exp = number_entry e FExp,
      claim_nonce = string_entry e FNonce, claim_method = string_entry e FMethod,
      claim_route = string_entry e FRoute, claim_action = string_entry e FAction,
      claim_principal_type = string_entry e FPrincipalType,
      claim_principal_id = string_entry e FPrincipalId,
      claim_payload_sha256 = string_entry e FPayloadSha256\<rparr>"

definition bounded_fields :: "canonical_field list" where
  "bounded_fields =
     [FV, FKid, FAlg, FIss, FAud, FMethod, FRoute, FAction, FPrincipalType, FPrincipalId]"

definition parse_claims :: "(string \<times> js_value) list \<Rightarrow> service_claims option" where
  "parse_claims e =
     (let c = claims_of e in
      if length e \<noteq> length canonical_fields \<or> \<not> list_all (entry_ok e) canonical_fields then None
      else if claim_iat c < 0 \<or> claim_exp c < 0 then None
      else if length (claim_nonce c) < nonce_min_length \<or> length (claim_nonce c) > nonce_max_length
      then None
      else if \<not> plus_of nonce_char (claim_nonce c) then None
      else if \<not> all_chars lower_hex 64 64 (claim_payload_sha256 c) then None
      else if \<not> list_all (\<lambda>f. within_bounds (field_name f) (string_entry e f)) bounded_fields then None
      else Some c)"

definition parse_envelope :: "js_value \<Rightarrow> (service_claims \<times> string) option" where
  "parse_envelope value =
     (case value of
        Obj entries \<Rightarrow>
          (case (own_value entries ''claims'', own_value entries ''signature'') of
             (Obj claims, Str signature) \<Rightarrow>
               if length entries \<noteq> 2 then None
               else if \<not> plus_of lower_hex signature \<or> length signature \<noteq> signature_hex_length
               then None
               else map_option (\<lambda>c. (c, signature)) (parse_claims claims)
           | _ \<Rightarrow> None)
      | _ \<Rightarrow> None)"

subsection \<open>Verification\<close>

datatype envelope_refusal =
  Malformed | UnsupportedVersion | UnsupportedAlg | WrongIssuer | WrongAudience
| WrongPrincipalType | Expired | IssuedInFuture | LifetimeTooLong | LookupFailed lookup_failure
| BadSignature | PayloadMismatch | Replayed | ActionNotPermitted | StoreUnavailable

record attributed_principal =
  principal_type :: string
  principal_id :: string
  principal_action :: string
  principal_kid :: string

text \<open>The options but the keyring and the store; \<open>permitted_actions\<close> is absent when it is not an array.\<close>

record verify_options =
  clock_now :: jsnum
  issuer :: string
  audience :: string
  request_body :: "string + nat list"
  request_method :: string
  request_route :: string
  clock_skew_seconds :: "jsnum option"
  max_lifetime_seconds :: "jsnum option"
  permitted_actions :: "string list option"
  expected_principal_type :: "string option"

definition default_clock_skew :: jsnum where "default_clock_skew = num 60"
definition default_max_lifetime :: jsnum where "default_max_lifetime = num 120"

definition option_default :: "'a option \<Rightarrow> 'a \<Rightarrow> 'a" where
  "option_default x d = (case x of None \<Rightarrow> d | Some y \<Rightarrow> y)"

fun js_plus :: "jsnum \<Rightarrow> int \<Rightarrow> jsnum" where
  "js_plus (Fin q) n = Fin (q + of_int n)"
| "js_plus x n = x"

text \<open>The checks before any key is looked up; the clock skew when they pass.\<close>

definition check_claims :: "service_claims \<Rightarrow> verify_options \<Rightarrow> envelope_refusal + int" where
  "check_claims c opts =
     (if claim_v c \<noteq> envelope_version then Inl UnsupportedVersion
      else if claim_alg c \<noteq> ''Ed25519'' then Inl UnsupportedAlg
      else if claim_iss c \<noteq> issuer opts then Inl WrongIssuer
      else if claim_aud c \<noteq> audience opts then Inl WrongAudience
      else if claim_method c \<noteq> request_method opts \<or> claim_route c \<noteq> request_route opts
      then Inl ActionNotPermitted
      else if (case permitted_actions opts of
                 None \<Rightarrow> True
               | Some actions \<Rightarrow> length actions = 0 \<or> claim_action c \<notin> set actions)
      then Inl ActionNotPermitted
      else case (safe_int (option_default (clock_skew_seconds opts) default_clock_skew),
                 safe_int (option_default (max_lifetime_seconds opts) default_max_lifetime)) of
        (Some skew, Some life) \<Rightarrow>
          if skew < 0 then Inl Malformed
          else if life \<le> 0 then Inl Malformed
          else if claim_exp c \<le> claim_iat c then Inl Malformed
          else if claim_exp c - claim_iat c > life then Inl LifetimeTooLong
          else if js_less (num (claim_exp c + skew)) (clock_now opts) then Inl Expired
          else if js_less (js_plus (clock_now opts) skew) (num (claim_iat c)) then Inl IssuedInFuture
          else Inr skew
      | _ \<Rightarrow> Inl Malformed)"

text \<open>The Ed25519 check: an exception is a refusal like a wrong signature.\<close>

definition signature_valid ::
  "('key \<Rightarrow> nat list \<Rightarrow> nat list \<Rightarrow> bool option) \<Rightarrow> 'key \<Rightarrow> string \<Rightarrow> service_claims \<Rightarrow> bool" where
  "signature_valid ed25519 key signature c =
     (case (from_hex signature, service_bytes c) of
        (Some sig_bytes, Some bytes) \<Rightarrow> ed25519 key sig_bytes bytes = Some True
      | _ \<Rightarrow> False)"

definition payload_digest :: "(nat list \<Rightarrow> nat list) \<Rightarrow> string + nat list \<Rightarrow> string" where
  "payload_digest sha256 body =
     to_hex (sha256 (case body of Inl s \<Rightarrow> utf8_bytes s | Inr bytes \<Rightarrow> bytes))"

definition principal_of :: "service_claims \<Rightarrow> attributed_principal" where
  "principal_of c =
     \<lparr>principal_type = claim_principal_type c, principal_id = claim_principal_id c,
      principal_action = claim_action c, principal_kid = claim_kid c\<rparr>"

definition nonce_expires_at :: "service_claims \<Rightarrow> int \<Rightarrow> int" where
  "nonce_expires_at c skew = claim_exp c + 3 * skew + 1"

text \<open>The checks on authenticated data, and the claim of the nonce last.\<close>

definition claim_envelope ::
  "(nat list \<Rightarrow> nat list) \<Rightarrow>
   ('s \<Rightarrow> string \<Rightarrow> jsnum \<Rightarrow> jsnum \<Rightarrow> (nonce_error + bool) \<times> 's) \<Rightarrow>
   service_claims \<Rightarrow> verify_options \<Rightarrow> int \<Rightarrow> 's \<Rightarrow>
   (envelope_refusal + attributed_principal \<times> service_claims) \<times> 's" where
  "claim_envelope sha256 claim c opts skew store =
     (if \<not> constant_time_equal (payload_digest sha256 (request_body opts)) (claim_payload_sha256 c)
      then (Inl PayloadMismatch, store)
      else if claim_principal_type c \<noteq> option_default (expected_principal_type opts) ''sponsor''
      then (Inl WrongPrincipalType, store)
      else if \<not> is_safe_integer (num (nonce_expires_at c skew)) then (Inl Malformed, store)
      else case claim store (claim_nonce c) (num (nonce_expires_at c skew)) (clock_now opts) of
        (Inl err, store1) \<Rightarrow> (Inl StoreUnavailable, store1)
      | (Inr claimed, store1) \<Rightarrow>
          if \<not> claimed then (Inl Replayed, store1) else (Inr (principal_of c, c), store1))"

definition verify_service_envelope ::
  "(nat list \<Rightarrow> 'key option) \<Rightarrow> ('key \<Rightarrow> nat list \<Rightarrow> nat list \<Rightarrow> bool option) \<Rightarrow>
   (nat list \<Rightarrow> nat list) \<Rightarrow>
   ('s \<Rightarrow> string \<Rightarrow> jsnum \<Rightarrow> jsnum \<Rightarrow> (nonce_error + bool) \<times> 's) \<Rightarrow>
   js_value \<Rightarrow> verify_options \<Rightarrow> 'key keyring \<Rightarrow> 's \<Rightarrow>
   (envelope_refusal + attributed_principal \<times> service_claims) \<times> 'key keyring \<times> 's" where
  "verify_service_envelope import_key ed25519 sha256 claim envelope opts ring store =
     (case parse_envelope envelope of
        None \<Rightarrow> (Inl Malformed, ring, store)
      | Some (c, signature) \<Rightarrow>
          (case check_claims c opts of
             Inl refusal \<Rightarrow> (Inl refusal, ring, store)
           | Inr skew \<Rightarrow>
               (case lookup import_key ring (claim_kid c) (num (claim_iat c)) of
                  (Inl reason, ring1) \<Rightarrow> (Inl (LookupFailed reason), ring1, store)
                | (Inr (key, _), ring1) \<Rightarrow>
                    if \<not> signature_valid ed25519 key signature c
                    then (Inl BadSignature, ring1, store)
                    else let (result, store1) = claim_envelope sha256 claim c opts skew store
                         in (result, ring1, store1))))"

end
