(* ===== verification/EnvelopeLaws.thy ===== *)
theory EnvelopeLaws
  imports Envelope
begin

section \<open>What an accepted envelope proves\<close>

text \<open>
  The laws of envelope verification: what the parser lets through, the exact condition of
  acceptance, what a refused request may change, and the single acceptance of an envelope by
  all isolates that share one store while their clocks stay within the allowed skew.
\<close>

subsection \<open>The parser\<close>

lemma entry_ok_string:
  "entry_ok e f \<Longrightarrow> \<not> is_number_field f \<Longrightarrow> own_value e (field_name f) = Str (string_entry e f) \<and> string_entry e f \<noteq> []"
  by (auto simp: entry_ok_def string_entry_def split: js_value.splits)

lemma entry_ok_number:
  "entry_ok e f \<Longrightarrow> is_number_field f \<Longrightarrow>
     own_value e (field_name f) = Number (num (number_entry e f)) \<and> \<bar>number_entry e f\<bar> \<le> max_safe_integer"
  by (auto simp: entry_ok_def number_entry_def is_safe_integer_def safe_int_eq_Some split: js_value.splits)

text \<open>The claims are the entries, field by field.\<close>

lemma claims_of_value:
  "claim_value (claims_of e) f = (if is_number_field f then Inr (number_entry e f) else Inl (string_entry e f))"
  by (cases f) (simp_all add: claims_of_def is_number_field_def)

lemma parse_claims_Some:
  assumes "parse_claims e = Some c"
  shows "c = claims_of e" and "\<And>f. entry_ok e f" and "0 \<le> claim_iat c" and "0 \<le> claim_exp c"
    and "nonce_min_length \<le> length (claim_nonce c)" and "length (claim_nonce c) \<le> nonce_max_length"
    and "list_all nonce_char (claim_nonce c)" and "all_chars lower_hex 64 64 (claim_payload_sha256 c)"
    and "list_all (\<lambda>f. within_bounds (field_name f) (string_entry e f)) bounded_fields"
    and "length e = 14"
proof -
  note p = assms [unfolded parse_claims_def Let_def]
  show "c = claims_of e" using p by (simp split: if_splits)
  moreover show "entry_ok e f" for f
    using p all_fields [of f] by (simp add: list_all_iff split: if_splits)
  ultimately show "0 \<le> claim_iat c" "0 \<le> claim_exp c"
    "nonce_min_length \<le> length (claim_nonce c)" "length (claim_nonce c) \<le> nonce_max_length"
    "list_all nonce_char (claim_nonce c)" "all_chars lower_hex 64 64 (claim_payload_sha256 c)"
    "list_all (\<lambda>f. within_bounds (field_name f) (string_entry e f)) bounded_fields"
    using p by (simp_all add: plus_of_def split: if_splits)
  show "length e = 14" using p by (simp add: canonical_fields_def split: if_splits)
qed

lemma parse_envelope_Some:
  assumes "parse_envelope v = Some (c, signature)"
  obtains entries claims where "v = Obj entries" and "own_value entries ''claims'' = Obj claims"
    and "own_value entries ''signature'' = Str signature" and "parse_claims claims = Some c"
    and "list_all lower_hex signature" and "length signature = 128" and "length entries = 2"
  using assms
  by (auto simp: parse_envelope_def plus_of_def signature_hex_length_def
      split: js_value.splits if_splits)

subsection \<open>Every parsed claim is short ASCII\<close>

definition short_ascii :: "nat \<Rightarrow> string \<Rightarrow> bool" where
  "short_ascii n s \<longleftrightarrow> length s \<le> n \<and> list_all ascii s"

lemma lower_alnum_ascii [ascii_class]: "lower_alnum c \<Longrightarrow> ascii c"
  by (auto simp: lower_alnum_def ascii_digit_def ascii_def Let_def)

lemma action_rest_ascii [ascii_class]: "action_rest s \<Longrightarrow> list_all ascii s"
  by (induction s rule: action_rest.induct) (auto simp: ascii_class split: if_splits)

lemma plus_of_ascii:
  "plus_of P s \<Longrightarrow> (\<And>c. P c \<Longrightarrow> ascii c) \<Longrightarrow> list_all ascii s"
  by (auto simp: plus_of_def list_all_iff)

lemma route_pattern_ascii [ascii_class]: "route_pattern s \<Longrightarrow> list_all ascii s"
  by (cases s) (auto simp: route_pattern_def list_all_iff ascii_class)

lemma action_pattern_ascii [ascii_class]: "action_pattern s \<Longrightarrow> list_all ascii s"
  by (cases s) (auto simp: action_pattern_def ascii_class)

lemma methods_ascii: "s \<in> set methods \<Longrightarrow> list_all ascii s"
  by (auto simp: methods_def ascii_def)

lemma bound_ascii:
  assumes "map_of claim_bounds f = Some (pattern, n)" and "pattern s"
  shows "list_all ascii s"
  using assms
  by (auto simp: claim_bounds_def kid_char_def ascii_class methods_ascii
      elim!: plus_of_ascii split: if_splits)

lemma within_bounds_short:
  assumes "within_bounds f s" and "map_of claim_bounds f = Some (pattern, n)"
  shows "short_ascii n s"
proof -
  from assms have "utf8_length s \<le> n" "pattern s" by (auto simp: within_bounds_def split: if_splits)
  with bound_ascii [OF assms(2)] show ?thesis
    by (simp add: short_ascii_def utf8_length_ascii list_all_iff)
qed

subsection \<open>Every parsed claim has canonical bytes, and few of them\<close>

text \<open>The most bytes of a field's value in a parsed envelope.\<close>

fun value_limit :: "canonical_field \<Rightarrow> nat" where
  "value_limit FV = 32" | "value_limit FKid = 64" | "value_limit FAlg = 32"
| "value_limit FIss = 64" | "value_limit FAud = 64" | "value_limit FIat = 16"
| "value_limit FExp = 16" | "value_limit FNonce = 128" | "value_limit FMethod = 7"
| "value_limit FRoute = 256" | "value_limit FAction = 64" | "value_limit FPrincipalType = 32"
| "value_limit FPrincipalId = 64" | "value_limit FPayloadSha256 = 64"

lemma short_ascii_length: "short_ascii n s \<Longrightarrow> length (utf8_bytes s) \<le> n"
  using utf8_length_ascii [of s] by (auto simp: short_ascii_def utf8_length_def list_all_iff)

lemma short_ascii_nat: "n < 10 ^ k \<Longrightarrow> 1 \<le> k \<Longrightarrow> short_ascii k (show_nat n)"
  using show_nat_digits [of n] length_show_nat [of n k]
  by (auto simp: short_ascii_def list_all_iff ascii_class)

lemma bounded_field_limit:
  assumes "f \<in> set bounded_fields"
  shows "\<exists>pattern. map_of claim_bounds (field_name f) = Some (pattern, value_limit f)"
  using assms by (auto simp: bounded_fields_def claim_bounds_def)

definition claim_text :: "service_claims \<Rightarrow> canonical_field \<Rightarrow> string option" where
  "claim_text c f =
     (case claim_value c f of
        Inr n \<Rightarrow> if is_safe_integer (num n) then Some (show_int n) else None
      | Inl s \<Rightarrow> Some s)"

lemma field_value_widened: "field_value (widened c) f = map_option units (claim_text c f)"
  by (cases "claim_value c f") (simp_all add: field_value_def claim_text_def claim_value_widened)

lemma parsed_value_short:
  assumes "parse_claims e = Some c"
  shows "\<exists>v. claim_text c f = Some v \<and> short_ascii (value_limit f) v"
proof -
  note p = parse_claims_Some [OF assms]
  consider "is_number_field f" | "f \<in> set bounded_fields" | "f = FNonce" | "f = FPayloadSha256"
    by (cases f) (auto simp: is_number_field_def bounded_fields_def)
  then show ?thesis
  proof cases
    case 1
    let ?n = "number_entry e f"
    from entry_ok_number [OF p(2) 1] have "\<bar>?n\<bar> \<le> max_safe_integer" ..
    moreover have "0 \<le> ?n" using p(1,3,4) 1 by (auto simp: is_number_field_def claims_of_def)
    ultimately have "nat ?n < 10 ^ 16" by (simp add: max_safe_integer_def nat_less_iff)
    then have "short_ascii 16 (show_nat (nat ?n))" by (intro short_ascii_nat) simp_all
    with 1 \<open>0 \<le> ?n\<close> \<open>\<bar>?n\<bar> \<le> max_safe_integer\<close> p(1) show ?thesis
      by (auto simp: claim_text_def claims_of_value is_number_field_def is_safe_integer_def show_int_def)
  next
    case 2
    then have "\<not> is_number_field f" by (auto simp: bounded_fields_def is_number_field_def)
    moreover from 2 p(9) have "within_bounds (field_name f) (string_entry e f)" by (simp add: list_all_iff)
    with bounded_field_limit [OF 2] have "short_ascii (value_limit f) (string_entry e f)"
      by (auto intro: within_bounds_short)
    ultimately show ?thesis using p(1) by (simp add: claim_text_def claims_of_value)
  next
    case 3
    have "list_all ascii (claim_nonce c)"
      using p(7) by (auto simp: list_all_iff nonce_char_def ascii_class)
    with 3 p(6) show ?thesis by (simp add: claim_text_def short_ascii_def nonce_max_length_def)
  next
    case 4
    have "list_all ascii (claim_payload_sha256 c)"
      using p(8) by (auto simp: all_chars_def list_all_iff ascii_class)
    with 4 p(8) show ?thesis by (simp add: claim_text_def short_ascii_def all_chars_def)
  qed
qed

lemma field_name_short: "short_ascii (length (field_name f)) (field_name f)" "length (field_name f) < 100"
  by (cases f; simp add: short_ascii_def ascii_def)+

lemma frame_length:
  assumes "short_ascii n v" and "n < 1000"
  shows "length (frame (field_name f) (units v)) \<le> 9 + length (field_name f) + n"
proof -
  have v: "length (utf8_bytes v) \<le> n" using assms(1) by (rule short_ascii_length)
  have name: "length (utf8_bytes (field_name f)) = length (field_name f)"
    using field_name_short(1) [of f] utf8_length_ascii [of "field_name f"]
    by (simp add: short_ascii_def utf8_length_def list_all_iff)
  have "length (utf8_bytes (show_nat (length (utf8_bytes v)))) \<le> 3"
    using v assms(2) by (intro short_ascii_length short_ascii_nat) simp_all
  moreover have "length (utf8_bytes (show_nat (length (field_name f)))) \<le> 2"
    using field_name_short(2) [of f] by (intro short_ascii_length short_ascii_nat) simp_all
  ultimately show ?thesis using v by (simp add: frame_def name)
qed

lemma frames_loop_length:
  "(\<forall>f \<in> set fs. \<exists>v. claim_text c f = Some v \<and> short_ascii (value_limit f) v) \<Longrightarrow>
   \<exists>bytes. frames_loop (widened c) fs = Some bytes \<and>
     length bytes \<le> sum_list (map (\<lambda>f. 9 + length (field_name f) + value_limit f) fs)"
proof (induction fs)
  case (Cons f fs)
  then obtain v bytes where "claim_text c f = Some v" "short_ascii (value_limit f) v"
    "frames_loop (widened c) fs = Some bytes"
    "length bytes \<le> sum_list (map (\<lambda>f. 9 + length (field_name f) + value_limit f) fs)" by auto
  moreover have "value_limit f < 1000" by (cases f) simp_all
  ultimately show ?case using frame_length [of "value_limit f" v f] by (simp add: field_value_widened)
qed simp

text \<open>
  Whatever passes the parser is small and can always be checked: its claims have
  canonical bytes, at most 1122 of them, and its signature is 64 bytes, so the signature
  check of a parsed envelope never fails for want of bytes and its cost is bounded.
\<close>

theorem parsed_envelope_is_bounded:
  assumes "parse_envelope v = Some (c, signature)"
  shows "(\<exists>bytes. service_bytes c = Some bytes \<and> length bytes \<le> 1122) \<and>
    (\<exists>raw. from_hex signature = Some raw \<and> length raw = 64)"
proof -
  from assms obtain e where c: "parse_claims e = Some c" and sig: "list_all lower_hex signature"
    "length signature = 128" by (rule parse_envelope_Some)
  from parsed_value_short [OF c] have "\<forall>f \<in> set canonical_fields. \<exists>v. claim_text c f = Some v \<and>
      short_ascii (value_limit f) v" by blast
  from frames_loop_length [OF this] obtain bytes where "frames_loop (widened c) canonical_fields = Some bytes"
    "length bytes \<le> 1110" by (auto simp: canonical_fields_def)
  moreover have "length (utf8_bytes (envelope_version @ [CHR 10])) = 12"
    by (simp add: envelope_version_def char_bytes.simps)
  ultimately have "\<exists>bytes. service_bytes c = Some bytes \<and> length bytes \<le> 1122"
    by (auto simp: service_bytes_def canonical_bytes_def)
  moreover have raw: "from_hex signature = Some (from_hex_pairs signature)"
    using sig by (simp add: from_hex_def)
  ultimately show ?thesis using to_hex_from_hex(2) [OF raw] sig(2) by simp
qed

subsection \<open>A sample envelope\<close>

definition envelope_of :: "service_claims \<Rightarrow> string \<Rightarrow> js_value" where
  "envelope_of c signature =
     Obj [(''claims'', Obj (map (\<lambda>f. (field_name f,
             case claim_value c f of Inl s \<Rightarrow> Str s | Inr n \<Rightarrow> Number (num n))) canonical_fields)),
          (''signature'', Str signature)]"

definition sample_signature :: string where
  "sample_signature = to_hex (replicate 64 7)"

definition sample_options :: "jsnum \<Rightarrow> verify_options" where
  "sample_options now =
     \<lparr>clock_now = now, issuer = ''agora'', audience = ''stoa'', request_body = Inl ''{}'',
      request_method = ''POST'', request_route = ''/v1/directives'', clock_skew_seconds = None,
      max_lifetime_seconds = None, permitted_actions = Some [''directive.create''],
      expected_principal_type = None\<rparr>"

text \<open>A digest and a signature check that accept the sample.\<close>

definition sample_sha256 :: "nat list \<Rightarrow> nat list" where
  "sample_sha256 bytes = replicate 32 (171 - (length bytes - 2))"

definition sample_ed25519 :: "nat list \<Rightarrow> nat list \<Rightarrow> nat list \<Rightarrow> bool option" where
  "sample_ed25519 key raw bytes = Some (raw = replicate 64 7)"

lemma sample_hex: "list_all lower_hex (to_hex (replicate n 7))" "length (to_hex (replicate n 7)) = 2 * n"
  "list_all lower_hex (to_hex (replicate n 171))" "length (to_hex (replicate n 171)) = 2 * n"
  by (induction n) simp_all

lemma sample_parses: "parse_envelope (envelope_of sample_claims sample_signature) =
    Some (sample_claims, sample_signature)"
proof -
  define e where "e = map (\<lambda>f. (field_name f,
      case claim_value sample_claims f of Inl s \<Rightarrow> Str s | Inr n \<Rightarrow> Number (num n))) canonical_fields"
  have val: "own_value e (field_name f) =
      (case claim_value sample_claims f of Inl s \<Rightarrow> Str s | Inr n \<Rightarrow> Number (num n))" for f
    unfolding e_def by (cases f) (simp_all add: own_value_def canonical_fields_def)
  have str: "string_entry e f = s" if "claim_value sample_claims f = Inl s" for f s
    using that unfolding string_entry_def val by simp
  have number: "number_entry e f = n" if "claim_value sample_claims f = Inr n" "\<bar>n\<bar> \<le> max_safe_integer" for f n
    using that unfolding number_entry_def val by simp
  have c: "claims_of e = sample_claims"
    by (rule claims_eqI, unfold claims_of_value, rename_tac f, case_tac f)
      (simp_all add: is_number_field_def str number sample_claims_def max_safe_integer_def)
  have ok: "entry_ok e f" for f
    unfolding entry_ok_def val
    by (cases f) (simp_all add: sample_claims_def is_number_field_def is_safe_integer_def
        envelope_version_def max_safe_integer_def to_hex_def)
  have bounds: "list_all (\<lambda>f. within_bounds (field_name f) (string_entry e f)) bounded_fields"
    by (simp add: bounded_fields_def within_bounds_def claim_bounds_def str sample_claims_def
        envelope_version_def plus_of_def kid_char_def lower_alnum_def ascii_alnum_def ascii_letter_def
        ascii_digit_def route_pattern_def action_pattern_def methods_def utf8_length_def
        char_bytes.simps Let_def)
  have "plus_of nonce_char (claim_nonce sample_claims)" "length (claim_nonce sample_claims) = 32"
    by (simp_all add: sample_claims_def plus_of_def nonce_char_def ascii_alnum_def ascii_letter_def
        ascii_digit_def Let_def)
  moreover have "all_chars lower_hex 64 64 (claim_payload_sha256 sample_claims)"
    using sample_hex(3,4) [of 32] by (simp add: sample_claims_def all_chars_def)
  moreover have "length e = length canonical_fields" by (simp add: e_def)
  ultimately have "parse_claims e = Some sample_claims"
    using ok bounds unfolding parse_claims_def Let_def c
    by (simp add: list_all_iff nonce_min_length_def nonce_max_length_def)
      (simp add: sample_claims_def)
  moreover have "plus_of lower_hex sample_signature" "length sample_signature = signature_hex_length"
    using sample_hex(1,2) [of 64]
    by (auto simp: sample_signature_def plus_of_def signature_hex_length_def)
  ultimately show ?thesis
    by (simp add: parse_envelope_def envelope_of_def own_value_def e_def)
qed

theorem parsed_envelope_is_bounded_example:
  "parse_envelope (envelope_of sample_claims sample_signature) = Some (sample_claims, sample_signature) \<and>
   (\<exists>bytes. service_bytes sample_claims = Some bytes \<and> length bytes \<le> 1122)"
  using parsed_envelope_is_bounded [OF sample_parses] sample_parses by blast

subsection \<open>Acceptance\<close>

abbreviation skew_of :: "verify_options \<Rightarrow> int option" where
  "skew_of opts \<equiv> safe_int (option_default (clock_skew_seconds opts) default_clock_skew)"

abbreviation lifetime_of :: "verify_options \<Rightarrow> int option" where
  "lifetime_of opts \<equiv> safe_int (option_default (max_lifetime_seconds opts) default_max_lifetime)"

text \<open>What the request itself must match.\<close>

definition addressed :: "service_claims \<Rightarrow> verify_options \<Rightarrow> bool" where
  "addressed c opts \<longleftrightarrow> claim_v c = envelope_version \<and> claim_alg c = ''Ed25519'' \<and>
     claim_iss c = issuer opts \<and> claim_aud c = audience opts \<and>
     claim_method c = request_method opts \<and> claim_route c = request_route opts \<and>
     (\<exists>actions. permitted_actions opts = Some actions \<and> claim_action c \<in> set actions)"

text \<open>The clock conditions, for a skew.\<close>

definition timely :: "service_claims \<Rightarrow> verify_options \<Rightarrow> int \<Rightarrow> bool" where
  "timely c opts skew \<longleftrightarrow> skew_of opts = Some skew \<and> 0 \<le> skew \<and>
     (\<exists>life. lifetime_of opts = Some life \<and> 0 < life \<and> claim_iat c < claim_exp c \<and>
        claim_exp c - claim_iat c \<le> life) \<and>
     \<not> js_less (num (claim_exp c + skew)) (clock_now opts) \<and>
     \<not> js_less (js_plus (clock_now opts) skew) (num (claim_iat c))"

lemma check_claims_Inr: "check_claims c opts = Inr skew \<longleftrightarrow> addressed c opts \<and> timely c opts skew"
proof (cases "addressed c opts")
  case False
  then have "\<exists>r. check_claims c opts = Inl r"
    by (auto simp: check_claims_def addressed_def split: option.split)
  with False show ?thesis by auto
next
  case True
  then show ?thesis
    by (cases "skew_of opts"; cases "lifetime_of opts")
      (auto simp: check_claims_def addressed_def timely_def)
qed

lemma claim_envelope_Inr:
  "fst (claim_envelope sha256 claim c opts skew store) = Inr (p, c') \<longleftrightarrow>
     c' = c \<and> p = principal_of c \<and> claim_payload_sha256 c = payload_digest sha256 (request_body opts) \<and>
     claim_principal_type c = option_default (expected_principal_type opts) ''sponsor'' \<and>
     \<bar>nonce_expires_at c skew\<bar> \<le> max_safe_integer \<and>
     fst (claim store (claim_nonce c) (num (nonce_expires_at c skew)) (clock_now opts)) = Inr True"
  by (auto simp: claim_envelope_def is_safe_integer_def split: prod.split sum.split)

text \<open>A verification ends before the store is asked, or with what \<open>claim_envelope\<close> says.\<close>

lemma verify_cases:
  obtains
    (refused) refusal ring1 where
      "verify_service_envelope import_key ed25519 sha256 claim v opts ring store =
         (Inl refusal, ring1, store)"
      "\<And>c signature skew key r. parse_envelope v = Some (c, signature) \<Longrightarrow> addressed c opts \<Longrightarrow>
         timely c opts skew \<Longrightarrow>
         fst (lookup import_key ring (claim_kid c) (num (claim_iat c))) = Inr (key, r) \<Longrightarrow>
         \<not> signature_valid ed25519 key signature c"
  | (authentic) c signature skew key r ring1 where
      "parse_envelope v = Some (c, signature)" "addressed c opts" "timely c opts skew"
      "fst (lookup import_key ring (claim_kid c) (num (claim_iat c))) = Inr (key, r)"
      "signature_valid ed25519 key signature c"
      "verify_service_envelope import_key ed25519 sha256 claim v opts ring store =
         (fst (claim_envelope sha256 claim c opts skew store), ring1,
          snd (claim_envelope sha256 claim c opts skew store))"
proof (cases "parse_envelope v")
  case None
  then show ?thesis using refused by (simp add: verify_service_envelope_def)
next
  case (Some parsed)
  then obtain c signature where p: "parse_envelope v = Some (c, signature)" by (cases parsed) simp
  show ?thesis
  proof (cases "check_claims c opts")
    case (Inl refusal)
    with p have "verify_service_envelope import_key ed25519 sha256 claim v opts ring store =
        (Inl refusal, ring, store)" by (simp add: verify_service_envelope_def)
    moreover from Inl have "\<not> (addressed c opts \<and> timely c opts skew)" for skew
      by (metis check_claims_Inr sum.distinct(1))
    ultimately show ?thesis using p by (intro refused) auto
  next
    case k: (Inr skew)
    then have t: "addressed c opts" "timely c opts skew" by (auto simp: check_claims_Inr)
    obtain res ring1 where l: "lookup import_key ring (claim_kid c) (num (claim_iat c)) = (res, ring1)"
      by (cases "lookup import_key ring (claim_kid c) (num (claim_iat c))")
    show ?thesis
    proof (cases res)
      case (Inl reason)
      with p k l show ?thesis by (intro refused) (auto simp: verify_service_envelope_def)
    next
      case (Inr found)
      then obtain key r where res: "res = Inr (key, r)" by (cases found) simp
      show ?thesis
      proof (cases "signature_valid ed25519 key signature c")
        case True
        with p k l res authentic [OF p t, of key r ring1] show ?thesis
          by (simp add: verify_service_envelope_def case_prod_unfold Let_def)
      next
        case False
        with p k l res show ?thesis by (intro refused) (auto simp: verify_service_envelope_def)
      qed
    qed
  qed
qed

lemma timely_skew: "timely c opts skew \<Longrightarrow> timely c opts skew' \<Longrightarrow> skew = skew'"
  by (simp add: timely_def)

lemma verify_Inr:
  "fst (verify_service_envelope import_key ed25519 sha256 claim v opts ring store) = Inr (p, c) \<longleftrightarrow>
     (\<exists>signature skew key r. parse_envelope v = Some (c, signature) \<and> addressed c opts \<and>
        timely c opts skew \<and>
        fst (lookup import_key ring (claim_kid c) (num (claim_iat c))) = Inr (key, r) \<and>
        signature_valid ed25519 key signature c \<and>
        fst (claim_envelope sha256 claim c opts skew store) = Inr (p, c))"
  by (rule verify_cases [of import_key ed25519 sha256 claim v opts ring store])
    (auto simp: claim_envelope_Inr dest: timely_skew)

lemma configured_lookup:
  assumes "new_keyring config = Inr ring"
  shows "fst (lookup import_key (after_lookups import_key ring calls) kid (num iat)) = Inr (key, r) \<longleftrightarrow>
    map_of (key_records ring) kid = Some r \<and> import_record import_key r = Some key \<and>
    0 \<le> iat \<and> iat \<le> max_safe_integer \<and> valid_at r iat"
proof -
  from assms have "imported ring = []" by (rule new_keyring_cases)
  then have "cache_ok import_key ring" by (simp add: cache_ok_def)
  from after_lookups_keeps [OF this, of calls]
  have "cache_ok import_key (after_lookups import_key ring calls)"
    "key_records (after_lookups import_key ring calls) = key_records ring" by blast+
  with lookup_Inr [OF this(1), of kid "num iat" key r] show ?thesis by auto
qed

text \<open>
  C39. An envelope is accepted exactly when every claim about it holds: it parses, names
  this format, algorithm, issuer, audience, method and route and a permitted action; its
  lifetime is positive and within the ceiling and the clock is inside its window widened by
  the skew; the key it names is configured, valid at its issue time and verifies the
  signature over its canonical bytes; its digest is that of the body received; its principal
  class is the one the route expects; and the store claims its nonce until three skews and a
  second after its expiry. The principal is then the one the envelope names.
\<close>

theorem acceptance_is_exact:
  assumes "new_keyring config = Inr ring"
  shows "fst (verify_service_envelope import_key ed25519 sha256 claim v opts
      (after_lookups import_key ring calls) store) = Inr (p, c) \<longleftrightarrow>
    (\<exists>signature skew key r. parse_envelope v = Some (c, signature) \<and>
       addressed c opts \<and> timely c opts skew \<and>
       map_of (key_records ring) (claim_kid c) = Some r \<and> valid_at r (claim_iat c) \<and>
       import_record import_key r = Some key \<and> signature_valid ed25519 key signature c \<and>
       claim_payload_sha256 c = payload_digest sha256 (request_body opts) \<and>
       claim_principal_type c = option_default (expected_principal_type opts) ''sponsor'' \<and>
       nonce_expires_at c skew \<le> max_safe_integer \<and>
       fst (claim store (claim_nonce c) (num (nonce_expires_at c skew)) (clock_now opts)) = Inr True \<and>
       p = \<lparr>principal_type = claim_principal_type c, principal_id = claim_principal_id c,
            principal_action = claim_action c, principal_kid = claim_kid c\<rparr>)"
proof -
  have range: "0 \<le> claim_iat c \<and> claim_iat c \<le> max_safe_integer \<and> 0 \<le> claim_exp c"
    if "parse_envelope v = Some (c, signature)" for signature
  proof -
    from that obtain e where e: "parse_claims e = Some c" by (rule parse_envelope_Some)
    note p = parse_claims_Some [OF e]
    have "\<bar>number_entry e FIat\<bar> \<le> max_safe_integer"
      using entry_ok_number [OF p(2) [of FIat]] by (simp add: is_number_field_def)
    with p(1,3,4) show ?thesis by (simp add: claims_of_def)
  qed
  show ?thesis
    unfolding verify_Inr configured_lookup [OF assms] claim_envelope_Inr
    by (rule iff_exI)+ (auto simp: principal_of_def timely_def nonce_expires_at_def dest: range)
qed

definition empty_store :: d1_store where
  "empty_store = \<lparr>nonce_rows = [], cleanup_batch_size = 100\<rparr>"

lemma sample_claim:
  "fst (d1_claim digest empty_store nonce (num 1241) (num 1010)) = Inr True"
  by (simp add: d1_claim_def empty_store_def assert_claimable_window_def valid_epoch_num
      max_safe_integer_def cleanup_expired_def cleanup_victims_def delete_rows_def claim_upsert_def
      Let_def)

lemma sample_checks:
  "addressed sample_claims (sample_options (num 1010))"
  "timely sample_claims (sample_options (num 1010)) 60"
  "nonce_expires_at sample_claims 60 = 1241" "claim_kid sample_claims = ''k1''"
  "claim_iat sample_claims = 1000" "claim_principal_type sample_claims = ''sponsor''"
  by (simp_all add: addressed_def timely_def nonce_expires_at_def sample_claims_def sample_options_def
      option_default_def default_clock_skew_def default_max_lifetime_def max_safe_integer_def)

lemma sample_payload:
  "claim_payload_sha256 sample_claims = payload_digest sample_sha256 (request_body (sample_options now))"
  by (simp add: sample_claims_def payload_digest_def sample_options_def sample_sha256_def
      char_bytes.simps)

lemma sample_signature_valid: "signature_valid sample_ed25519 key sample_signature sample_claims"
proof -
  have "from_hex sample_signature = Some (replicate 64 7)"
    unfolding sample_signature_def by (rule from_hex_to_hex) simp
  moreover from sample_frames obtain bytes where "service_bytes sample_claims = Some bytes"
    by (auto simp: service_bytes_def canonical_bytes_def)
  ultimately show ?thesis by (simp add: signature_valid_def sample_ed25519_def)
qed

lemma sample_lookup:
  "map_of (key_records sample_ring) ''k1'' = Some (snd (hd (key_records sample_ring)))"
  "import_record Some (snd (hd (key_records sample_ring))) = Some (replicate 32 170)"
  "valid_at (snd (hd (key_records sample_ring))) 1000"
  using from_hex_to_hex [of "replicate 32 170"] to_hex_sample [of 32]
  by (simp_all add: sample_ring_def import_record_def valid_at_def)

theorem acceptance_is_exact_witness:
  "fst (verify_service_envelope Some sample_ed25519 sample_sha256 (d1_claim id)
      (envelope_of sample_claims sample_signature) (sample_options (num 1010))
      (after_lookups Some sample_ring [(''k2'', num 1000)]) empty_store) =
    Inr (\<lparr>principal_type = ''sponsor'', principal_id = ''S1'',
          principal_action = ''directive.create'', principal_kid = ''k1''\<rparr>, sample_claims)"
proof -
  have p: "\<lparr>principal_type = ''sponsor'', principal_id = ''S1'', principal_action = ''directive.create'',
      principal_kid = ''k1''\<rparr> = \<lparr>principal_type = claim_principal_type sample_claims,
        principal_id = claim_principal_id sample_claims,
        principal_action = claim_action sample_claims, principal_kid = claim_kid sample_claims\<rparr>"
    by (simp add: sample_claims_def)
  have "option_default (expected_principal_type (sample_options (num 1010))) ''sponsor'' = ''sponsor''"
    "clock_now (sample_options (num 1010)) = num 1010" "(1241 :: int) \<le> max_safe_integer"
    by (simp_all add: option_default_def sample_options_def max_safe_integer_def)
  then show ?thesis
    unfolding acceptance_is_exact [OF sample_ring_constructed] p
    using sample_parses sample_checks sample_payload sample_signature_valid sample_lookup sample_claim
    by (intro exI [of _ sample_signature] exI [of _ 60] exI [of _ "replicate 32 170"]
        exI [of _ "snd (hd (key_records sample_ring))"]) (simp only: simp_thms)
qed

subsection \<open>What a refused request may change\<close>

text \<open>
  An unauthenticated request cannot touch the replay store: if a verification changes
  the store, the envelope parsed and was addressed to this route in time, a key valid at its
  issue time verified its signature, and its digest and principal class matched the request.
  No forged request can burn a nonce.
\<close>

theorem store_changes_are_authenticated:
  assumes "snd (snd (verify_service_envelope import_key ed25519 sha256 claim v opts ring store)) \<noteq> store"
  shows "\<exists>c signature skew key r. parse_envelope v = Some (c, signature) \<and>
    addressed c opts \<and> timely c opts skew \<and>
    fst (lookup import_key ring (claim_kid c) (num (claim_iat c))) = Inr (key, r) \<and>
    signature_valid ed25519 key signature c \<and>
    claim_payload_sha256 c = payload_digest sha256 (request_body opts) \<and>
    claim_principal_type c = option_default (expected_principal_type opts) ''sponsor''"
proof -
  from verify_cases [of import_key ed25519 sha256 claim v opts ring store] assms
  obtain c signature skew key r where v: "parse_envelope v = Some (c, signature)" "addressed c opts"
    "timely c opts skew" "fst (lookup import_key ring (claim_kid c) (num (claim_iat c))) = Inr (key, r)"
    "signature_valid ed25519 key signature c"
    and e: "snd (claim_envelope sha256 claim c opts skew store) \<noteq> store"
    by (metis snd_conv)
  from e have "claim_payload_sha256 c = payload_digest sha256 (request_body opts)"
    "claim_principal_type c = option_default (expected_principal_type opts) ''sponsor''"
    by (auto simp: claim_envelope_def split: if_splits)
  with v show ?thesis by blast
qed

lemma sample_verification:
  "\<exists>ring1 row. verify_service_envelope Some sample_ed25519 sample_sha256 (d1_claim id)
      (envelope_of sample_claims sample_signature) (sample_options (num 1010)) sample_ring empty_store =
    (Inr (principal_of sample_claims, sample_claims), ring1,
     empty_store\<lparr>nonce_rows := [(claim_nonce sample_claims, row)]\<rparr>)"
proof -
  have k: "check_claims sample_claims (sample_options (num 1010)) = Inr 60"
    using sample_checks by (simp add: check_claims_Inr)
  have l: "lookup Some sample_ring ''k1'' (num 1000) =
      (Inr (replicate 32 170, snd (hd (key_records sample_ring))), sample_ring\<lparr>imported := [(''k1'', replicate 32 170)]\<rparr>)"
    using sample_lookup by (simp add: lookup_def max_safe_integer_def sample_ring_def)
  have c: "\<exists>row. d1_claim id empty_store nonce (num 1241) (num 1010) =
      (Inr True, empty_store\<lparr>nonce_rows := [(nonce, row)]\<rparr>)" for nonce
    by (simp add: d1_claim_def empty_store_def assert_claimable_window_def valid_epoch_num
        max_safe_integer_def cleanup_expired_def cleanup_victims_def delete_rows_def claim_upsert_def
        Let_def)
  have o: "option_default (expected_principal_type (sample_options (num 1010))) ''sponsor'' = ''sponsor''"
    "clock_now (sample_options (num 1010)) = num 1010" "is_safe_integer (num 1241)"
    by (simp_all add: option_default_def sample_options_def is_safe_integer_def max_safe_integer_def)
  from c [of "claim_nonce sample_claims"] obtain row where
    row: "d1_claim id empty_store (claim_nonce sample_claims) (num 1241) (num 1010) =
      (Inr True, empty_store\<lparr>nonce_rows := [(claim_nonce sample_claims, row)]\<rparr>)" by blast
  have "claim_envelope sample_sha256 (d1_claim id) sample_claims (sample_options (num 1010)) 60 empty_store =
      (Inr (principal_of sample_claims, sample_claims),
       empty_store\<lparr>nonce_rows := [(claim_nonce sample_claims, row)]\<rparr>)"
    unfolding claim_envelope_def sample_checks(3) o(2) row
    using sample_checks(6) sample_payload o by simp
  then show ?thesis
    using sample_signature_valid
    by (simp add: verify_service_envelope_def sample_parses k l sample_checks(4,5) del: of_int_numeral)
      blast
qed

theorem store_changes_are_authenticated_example:
  "\<exists>c signature skew key r. parse_envelope (envelope_of sample_claims sample_signature) = Some (c, signature) \<and>
    addressed c (sample_options (num 1010)) \<and> timely c (sample_options (num 1010)) skew \<and>
    fst (lookup Some sample_ring (claim_kid c) (num (claim_iat c))) = Inr (key, r) \<and>
    signature_valid sample_ed25519 key signature c"
proof -
  have "snd (snd (verify_service_envelope Some sample_ed25519 sample_sha256 (d1_claim id)
      (envelope_of sample_claims sample_signature) (sample_options (num 1010)) sample_ring empty_store)) \<noteq>
    empty_store"
    using sample_verification by (auto simp: empty_store_def)
  from store_changes_are_authenticated [OF this] show ?thesis by blast
qed

subsection \<open>Single acceptance\<close>

text \<open>
  Verifications by several isolates on one store, each with its own keyring and clock; a
  call carries the real time at which it runs.
\<close>

definition after_verifications ::
  "(nat list \<Rightarrow> 'key option) \<Rightarrow> ('key \<Rightarrow> nat list \<Rightarrow> nat list \<Rightarrow> bool option) \<Rightarrow>
   (nat list \<Rightarrow> nat list) \<Rightarrow>
   ('s \<Rightarrow> string \<Rightarrow> jsnum \<Rightarrow> jsnum \<Rightarrow> (nonce_error + bool) \<times> 's) \<Rightarrow>
   's \<Rightarrow> (rat \<times> js_value \<times> verify_options \<times> 'key keyring) list \<Rightarrow> 's" where
  "after_verifications import_key ed25519 sha256 claim store calls =
     foldl (\<lambda>s (_, v, opts, ring).
        snd (snd (verify_service_envelope import_key ed25519 sha256 claim v opts ring s))) store calls"

context replay_window
begin

lemma verification_step:
  "\<exists>cs. snd (snd (verify_service_envelope import_key ed25519 sha256 claim v opts ring s)) = after_calls s cs \<and>
     (\<forall>(m, x, t) \<in> set cs. t = clock_now opts)"
proof -
  have env: "\<exists>cs. snd (claim_envelope sha256 claim c opts skew s) = after_calls s cs \<and>
      (\<forall>(m, x, t) \<in> set cs. t = clock_now opts)" for c skew
  proof -
    let ?call = "(claim_nonce c, num (nonce_expires_at c skew), clock_now opts)"
    have "snd (claim_envelope sha256 claim c opts skew s) = after_calls s [] \<or>
        snd (claim_envelope sha256 claim c opts skew s) = after_calls s [?call]"
      by (auto simp: claim_envelope_def after_calls_def split: prod.splits sum.splits)
    then show ?thesis by (elim disjE) (rule exI [of _ "[]"], simp, rule exI [of _ "[?call]"], simp)
  qed
  have "snd (snd (verify_service_envelope import_key ed25519 sha256 claim v opts ring s)) = s \<or>
      (\<exists>c skew. snd (snd (verify_service_envelope import_key ed25519 sha256 claim v opts ring s)) =
         snd (claim_envelope sha256 claim c opts skew s))"
    by (rule verify_cases [of import_key ed25519 sha256 claim v opts ring s]) auto
  then show ?thesis
  proof (elim disjE exE)
    assume "snd (snd (verify_service_envelope import_key ed25519 sha256 claim v opts ring s)) = s"
    then show ?thesis by (intro exI [of _ "[]"]) (simp add: after_calls_def)
  qed (use env in simp)
qed

lemma verifications_are_calls:
  "\<exists>cs. after_verifications import_key ed25519 sha256 claim s calls = after_calls s cs \<and>
     (\<forall>(m, x, t) \<in> set cs. \<exists>(time, v, opts, ring) \<in> set calls. t = clock_now opts)"
proof (induction calls arbitrary: s)
  case Nil
  show ?case by (rule exI [of _ "[]"]) (simp add: after_verifications_def after_calls_def)
next
  case (Cons call calls)
  obtain time v opts ring where call: "call = (time, v, opts, ring)" by (cases call)
  obtain cs where cs: "snd (snd (verify_service_envelope import_key ed25519 sha256 claim v opts ring s)) =
      after_calls s cs" "\<forall>(m, x, t) \<in> set cs. t = clock_now opts"
    using verification_step by blast
  from Cons.IH [of "after_calls s cs"] obtain ds where
    ds: "after_verifications import_key ed25519 sha256 claim (after_calls s cs) calls =
      after_calls (after_calls s cs) ds"
    "\<forall>(m, x, t) \<in> set ds. \<exists>(time, v, opts, ring) \<in> set calls. t = clock_now opts" by blast
  from cs(1) ds(1) call have "after_verifications import_key ed25519 sha256 claim s (call # calls) =
      after_calls s (cs @ ds)" by (simp add: after_verifications_def after_calls_def)
  moreover from cs(2) ds(2) call have "\<forall>(m, x, t) \<in> set (cs @ ds).
      \<exists>(time, v, opts, ring) \<in> set (call # calls). t = clock_now opts" by fastforce
  ultimately show ?case by blast
qed

lemma accepted_once:
  assumes "ok store"
    and first: "fst (verify_service_envelope import_key ed25519 sha256 claim v opts ring store) = Inr (p, c)"
    and skew: "skew_of opts = Some skew" "skew_of opts' = Some skew"
    and drift: "\<forall>(time, _, o1, _) \<in> set calls. time \<le> now \<and>
        (\<exists>q. clock_now o1 = Fin q \<and> \<bar>q - time\<bar> \<le> of_int skew)"
    and clock: "clock_now opts' = Fin q" "\<bar>q - now\<bar> \<le> of_int skew"
  shows "fst (verify_service_envelope import_key ed25519 sha256 claim v' opts' ring'
      (after_verifications import_key ed25519 sha256 claim
        (snd (snd (verify_service_envelope import_key ed25519 sha256 claim v opts ring store))) calls)) \<noteq>
    Inr (p', c)"
proof
  let ?s1 = "snd (snd (verify_service_envelope import_key ed25519 sha256 claim v opts ring store))"
  let ?e = "nonce_expires_at c skew"
  from verification_step obtain cs0 where "?s1 = after_calls store cs0" by blast
  obtain cs where cs: "after_verifications import_key ed25519 sha256 claim ?s1 calls = after_calls ?s1 cs"
    "\<forall>(m, x, t) \<in> set cs. \<exists>(time, v, opts, ring) \<in> set calls. t = clock_now opts"
    using verifications_are_calls by blast
  assume "fst (verify_service_envelope import_key ed25519 sha256 claim v' opts' ring'
      (after_verifications import_key ed25519 sha256 claim ?s1 calls)) = Inr (p', c)"
  then have again: "timely c opts' skew"
    "fst (claim (after_calls ?s1 cs) (claim_nonce c) (num ?e) (clock_now opts')) = Inr True"
    unfolding verify_Inr cs(1) claim_envelope_Inr using skew by (auto simp: timely_def)
  have "fst (claim_envelope sha256 claim c opts skew store) = Inr (p, c) \<and>
      ?s1 = snd (claim_envelope sha256 claim c opts skew store)"
  proof (rule verify_cases [of import_key ed25519 sha256 claim v opts ring store])
  qed (use first skew in \<open>auto simp: claim_envelope_Inr timely_def\<close>)
  then have claim1: "claim store (claim_nonce c) (num ?e) (clock_now opts) = (Inr True, ?s1)"
    by (auto simp: claim_envelope_def split: prod.splits sum.splits if_splits)
  have q: "q \<le> of_int (claim_exp c + skew)"
    using again(1) clock(1) by (simp add: timely_def)
  have "js_less t (num ?e)" if "(m, x, t) \<in> set cs" for m x t
  proof -
    from cs(2) that obtain time v o1 ring where "(time, v, o1, ring) \<in> set calls" "t = clock_now o1"
      by fastforce
    with drift obtain q' where "t = Fin q'" "\<bar>q' - time\<bar> \<le> of_int skew" "time \<le> now" by fastforce
    with q clock(2) show ?thesis by (simp add: nonce_expires_at_def)
  qed
  then have "\<forall>(m, x, t) \<in> set cs. js_less t (num ?e)" by blast
  moreover have "js_less (clock_now opts') (num ?e)"
  proof -
    from again(1) have "0 \<le> skew" by (simp add: timely_def)
    with q clock(1) show ?thesis by (simp add: nonce_expires_at_def)
  qed
  ultimately show False using single_use [OF assms(1) claim1] again(2) by blast
qed

end

text \<open>
  C29. An envelope is accepted once, by all isolates together: after one isolate accepts an
  envelope against the shared D1 store, no isolate accepts the same claims again, whatever
  verifications ran in between, as long as every clock involved is within the allowed skew
  of real time. The retention of three skews and one second past expiry is what makes this
  hold at the boundary.
\<close>

theorem envelope_is_accepted_once:
  assumes "d1_ok store"
    and "fst (verify_service_envelope import_key ed25519 sha256 (d1_claim digest) v opts ring store) = Inr (p, c)"
    and "skew_of opts = Some skew" and "skew_of opts' = Some skew"
    and "\<forall>(time, _, o1, _) \<in> set calls. time \<le> now \<and>
        (\<exists>q. clock_now o1 = Fin q \<and> \<bar>q - time\<bar> \<le> of_int skew)"
    and "clock_now opts' = Fin q" and "\<bar>q - now\<bar> \<le> of_int skew"
  shows "fst (verify_service_envelope import_key ed25519 sha256 (d1_claim digest) v' opts' ring'
      (after_verifications import_key ed25519 sha256 (d1_claim digest)
        (snd (snd (verify_service_envelope import_key ed25519 sha256 (d1_claim digest) v opts ring store)))
        calls)) \<noteq> Inr (p', c)"
  using assms by (rule d1.accepted_once)

theorem envelope_is_accepted_once_witness:
  "fst (verify_service_envelope Some sample_ed25519 sample_sha256 (d1_claim id)
      (envelope_of sample_claims sample_signature) (sample_options (num 1010)) sample_ring empty_store) =
     Inr (principal_of sample_claims, sample_claims) \<and>
   fst (verify_service_envelope Some sample_ed25519 sample_sha256 (d1_claim id)
      (envelope_of sample_claims sample_signature) (sample_options (num 1120)) sample_ring
      (after_verifications Some sample_ed25519 sample_sha256 (d1_claim id)
        (snd (snd (verify_service_envelope Some sample_ed25519 sample_sha256 (d1_claim id)
          (envelope_of sample_claims sample_signature) (sample_options (num 1010)) sample_ring empty_store)))
        [(1100, Null, sample_options (num 1160), sample_ring)])) \<noteq>
     Inr (principal_of sample_claims, sample_claims)"
proof
  show first: "fst (verify_service_envelope Some sample_ed25519 sample_sha256 (d1_claim id)
      (envelope_of sample_claims sample_signature) (sample_options (num 1010)) sample_ring empty_store) =
     Inr (principal_of sample_claims, sample_claims)"
    using sample_verification by auto
  have skew: "skew_of (sample_options t) = Some 60" for t
    by (simp add: sample_options_def option_default_def default_clock_skew_def max_safe_integer_def)
  show "fst (verify_service_envelope Some sample_ed25519 sample_sha256 (d1_claim id)
      (envelope_of sample_claims sample_signature) (sample_options (num 1120)) sample_ring
      (after_verifications Some sample_ed25519 sample_sha256 (d1_claim id)
        (snd (snd (verify_service_envelope Some sample_ed25519 sample_sha256 (d1_claim id)
          (envelope_of sample_claims sample_signature) (sample_options (num 1010)) sample_ring empty_store)))
        [(1100, Null, sample_options (num 1160), sample_ring)])) \<noteq>
     Inr (principal_of sample_claims, sample_claims)"
    by (rule envelope_is_accepted_once [OF _ first skew skew, where now = 1100 and q = 1120])
      (simp_all add: d1_ok_def empty_store_def sample_options_def)
qed

end
