(* ===== verification/Posture.thy ===== *)
theory Posture
  imports Text
begin

section \<open>Graduated screening posture (\<open>moderation/posture.ts\<close>, \<open>inbox/notice-write.ts\<close>)\<close>

text \<open>
  The tables behind a Fellow's screening posture and the operations on them: recording a
  refusal together with its notice in one transaction, clearing the posture, and reading it.
  SQL statements are functions on the tables. A time is its number of milliseconds (the
  code compares fixed-width ISO texts of the same instants); the clock is read by each
  operation and is an argument, once for every reading. Random identifiers and the digest
  of a notice's identity are arguments too. A violated constraint aborts the whole batch.
\<close>

subsection \<open>Tables\<close>

datatype refusal_outcome = RefusedReject | RefusedQuarantine
datatype clearance_class = SponsorClears | OperatorClears

record refusal =
  refusal_id :: string
  refused_fellow :: string
  refused_sponsor :: string
  refused_problem :: string
  refused_outcome :: refusal_outcome
  refused_category :: string
  refused_digest :: string
  refused_at :: int

record clearance =
  clearance_id :: string
  cleared_fellow :: string
  cleared_by_class :: clearance_class
  cleared_by :: string
  cleared_reason :: string
  cleared_at :: int

record inbox_notice =
  notice_id :: string
  notice_fellow :: string
  notice_problem :: "string option"
  notice_type :: string
  notice_seq :: nat
  notice_title :: string
  impact_kind :: "string option"
  caused_by :: "string option"
  notice_target :: "string option"
  notice_at :: int

text \<open>What a producer asks for; the sequence number is allocated by the insert.\<close>

record notice_input =
  input_id :: "string option"
  input_fellow :: string
  input_problem :: "string option"
  input_type :: string
  input_title :: string
  input_impact :: "string option"
  input_cause :: "string option"
  input_target :: "string option"
  input_at :: int

record posture_db =
  refusals :: "refusal list"
  clearances :: "clearance list"
  notices :: "inbox_notice list"
  fellow_sponsors :: "(string \<times> string) list"
  problems :: "string list"

subsection \<open>Notices\<close>

definition json_or_null :: "string option \<Rightarrow> string" where
  "json_or_null x = (case x of None \<Rightarrow> ''null'' | Some s \<Rightarrow> json_string s)"

definition notice_identity :: "notice_input \<Rightarrow> string \<Rightarrow> string" where
  "notice_identity input cause =
     ''['' @ json_string ''inbox-notice-v1'' @ '','' @ json_string (input_fellow input) @ '','' @
     json_or_null (input_problem input) @ '','' @ json_string (input_type input) @ '','' @
     json_or_null (input_impact input) @ '','' @ json_string cause @ '','' @
     json_or_null (input_target input) @ '']''"

text \<open>\<open>uuid\<close> is the random identifier of an uncaused notice.\<close>

definition inbox_notice_id :: "(string \<Rightarrow> string) \<Rightarrow> string \<Rightarrow> notice_input \<Rightarrow> string" where
  "inbox_notice_id sha256 uuid input =
     (case input_id input of
        Some i \<Rightarrow> i
      | None \<Rightarrow> (case input_cause input of
          None \<Rightarrow> ''NOT-'' @ filter (\<lambda>c. c \<noteq> CHR ''-'') uuid
        | Some cause \<Rightarrow> sha256 (notice_identity input cause)))"

definition next_notice_seq :: "inbox_notice list \<Rightarrow> string \<Rightarrow> nat" where
  "next_notice_seq table fellow =
     Max (set (0 # map notice_seq (filter (\<lambda>n. notice_fellow n = fellow) table))) + 1"

definition same_delivery :: "notice_input \<Rightarrow> inbox_notice \<Rightarrow> bool" where
  "same_delivery input n \<longleftrightarrow>
     notice_fellow n = input_fellow input \<and> notice_problem n = input_problem input \<and>
     notice_type n = input_type input \<and> impact_kind n = input_impact input \<and>
     caused_by n = input_cause input \<and> notice_target n = input_target input"

definition insert_notice :: "string \<Rightarrow> notice_input \<Rightarrow> bool \<Rightarrow> inbox_notice list \<Rightarrow> inbox_notice list" where
  "insert_notice nid input guard table =
     (if (input_cause input = None \<or> \<not> list_ex (same_delivery input) table) \<and> guard \<and>
         nid \<notin> set (map notice_id table)
      then table @ [\<lparr>notice_id = nid, notice_fellow = input_fellow input,
        notice_problem = input_problem input, notice_type = input_type input,
        notice_seq = next_notice_seq table (input_fellow input), notice_title = input_title input,
        impact_kind = input_impact input, caused_by = input_cause input,
        notice_target = input_target input, notice_at = input_at input\<rparr>]
      else table)"

subsection \<open>Reading the posture\<close>

definition posture_refusal_threshold :: nat where
  "posture_refusal_threshold = 3"

definition posture_window_ms :: int where
  "posture_window_ms = 7 * 24 * 60 * 60 * 1000"

definition window_start :: "int \<Rightarrow> int" where
  "window_start now = now - posture_window_ms"

text \<open>\<open>MAX(c.created_at)\<close>; without a clearance every text is greater than the empty one.\<close>

definition latest_clearance :: "posture_db \<Rightarrow> string \<Rightarrow> int option" where
  "latest_clearance db fellow =
     (let times = map cleared_at (filter (\<lambda>c. cleared_fellow c = fellow) (clearances db))
      in if times = [] then None else Some (Max (set times)))"

definition counting :: "posture_db \<Rightarrow> string \<Rightarrow> int \<Rightarrow> refusal list" where
  "counting db fellow since =
     filter (\<lambda>r. refused_fellow r = fellow \<and> refused_at r > since \<and>
        (case latest_clearance db fellow of None \<Rightarrow> True | Some c \<Rightarrow> refused_at r > c)) (refusals db)"

record posture_state =
  quarantine_first :: bool
  refusals_in_window :: nat
  posture_since :: "int option"

definition posture_of :: "posture_db \<Rightarrow> string \<Rightarrow> int \<Rightarrow> posture_state" where
  "posture_of db fellow now =
     (let rows = counting db fellow (window_start now);
          times = map refused_at rows
      in \<lparr>quarantine_first = length rows \<ge> posture_refusal_threshold,
          refusals_in_window = length rows,
          posture_since = (if times = [] then None else Some (Min (set times)))\<rparr>)"

subsection \<open>Recording a refusal\<close>

record refusal_input =
  in_fellow :: string
  in_sponsor :: string
  in_problem :: string
  in_outcome :: refusal_outcome
  in_category :: string
  in_digest :: string

definition posture_notice :: "refusal_input \<Rightarrow> string \<Rightarrow> int \<Rightarrow> notice_input" where
  "posture_notice input rid now =
     \<lparr>input_id = None, input_fellow = in_fellow input, input_problem = Some (in_problem input),
      input_type = ''moderation_outcome'', input_title = ''Your public writes now wait for review'',
      input_impact = None, input_cause = Some rid, input_target = Some (in_fellow input),
      input_at = now\<rparr>"

definition refusal_row :: "refusal_input \<Rightarrow> string \<Rightarrow> int \<Rightarrow> refusal" where
  "refusal_row input rid now =
     \<lparr>refusal_id = rid, refused_fellow = in_fellow input, refused_sponsor = in_sponsor input,
      refused_problem = in_problem input, refused_outcome = in_outcome input,
      refused_category = in_category input, refused_digest = in_digest input, refused_at = now\<rparr>"

text \<open>The CHECK, primary key and foreign key constraints of \<open>screening_refusals\<close>.\<close>

definition refusal_admissible :: "posture_db \<Rightarrow> refusal \<Rightarrow> bool" where
  "refusal_admissible db r \<longleftrightarrow>
     take 3 (refusal_id r) = ''SR-'' \<and> refusal_id r \<notin> set (map refusal_id (refusals db)) \<and>
     refused_fellow r \<in> set (map fst (fellow_sponsors db)) \<and> refused_problem r \<in> set (problems db) \<and>
     refused_category r \<noteq> ''provider-unavailable'' \<and>
     length (refused_digest r) = 64 \<and> list_all lower_hex (refused_digest r)"

definition refusal_conflict :: "posture_db \<Rightarrow> refusal \<Rightarrow> bool" where
  "refusal_conflict db r =
     list_ex (\<lambda>x. refused_fellow x = refused_fellow r \<and> refused_digest x = refused_digest r \<and>
        refused_outcome x = refused_outcome r) (refusals db)"

text \<open>The INSERT of the batch; \<open>None\<close> is an aborting constraint.\<close>

definition insert_refusal :: "posture_db \<Rightarrow> refusal \<Rightarrow> int \<Rightarrow> posture_db option" where
  "insert_refusal db r since =
     (if \<not> length (counting db (refused_fellow r) since) < posture_refusal_threshold then Some db
      else if refusal_conflict db r then Some db
      else if \<not> refusal_admissible db r then None
      else Some (db\<lparr>refusals := refusals db @ [r]\<rparr>))"

definition notice_guard :: "posture_db \<Rightarrow> string \<Rightarrow> string \<Rightarrow> int \<Rightarrow> bool" where
  "notice_guard db rid fellow since \<longleftrightarrow>
     list_ex (\<lambda>r. refusal_id r = rid \<and> refused_fellow r = fellow) (refusals db) \<and>
     length (counting db fellow since) = posture_refusal_threshold"

text \<open>\<open>now1\<close> is the clock of the first reading, \<open>now\<close> that of the batch.\<close>

definition record_refusal ::
  "(string \<Rightarrow> string) \<Rightarrow> posture_db \<Rightarrow> refusal_input \<Rightarrow> string \<Rightarrow> int \<Rightarrow> int \<Rightarrow> posture_db option" where
  "record_refusal sha256 db input rid now1 now =
     (if in_category input = ''provider-unavailable'' then Some db
      else if quarantine_first (posture_of db (in_fellow input) now1) then Some db
      else case insert_refusal db (refusal_row input rid now) (window_start now) of
        None \<Rightarrow> None
      | Some db1 \<Rightarrow>
          let notice = posture_notice input rid now
          in Some (db1\<lparr>notices := insert_notice (inbox_notice_id sha256 [] notice) notice
               (notice_guard db1 rid (in_fellow input) (window_start now)) (notices db1)\<rparr>))"

subsection \<open>Clearing the posture\<close>

record clearance_input =
  clear_fellow :: string
  clear_class :: clearance_class
  clear_by :: string
  clear_reason :: string

datatype clearance_error = ClearanceRefused | ClearanceAborted

definition clearance_row :: "clearance_input \<Rightarrow> string \<Rightarrow> int \<Rightarrow> clearance" where
  "clearance_row input cid now =
     \<lparr>clearance_id = cid, cleared_fellow = clear_fellow input, cleared_by_class = clear_class input,
      cleared_by = clear_by input, cleared_reason = clear_reason input, cleared_at = now + 1\<rparr>"

definition clearance_admissible :: "posture_db \<Rightarrow> clearance \<Rightarrow> bool" where
  "clearance_admissible db c \<longleftrightarrow>
     take 3 (clearance_id c) = ''PC-'' \<and> clearance_id c \<notin> set (map clearance_id (clearances db)) \<and>
     cleared_fellow c \<in> set (map fst (fellow_sponsors db)) \<and>
     10 \<le> length (cleared_reason c) \<and> length (cleared_reason c) \<le> 1000"

text \<open>\<open>now\<close> dates the clearance, \<open>now2\<close> is the later reading that starts the window.\<close>

definition clear_posture ::
  "posture_db \<Rightarrow> clearance_input \<Rightarrow> string \<Rightarrow> int \<Rightarrow> int \<Rightarrow>
   (clearance_error + string \<times> int) \<times> posture_db" where
  "clear_posture db input cid now now2 =
     (let row = clearance_row input cid now in
      if (clear_class input = OperatorClears \<or>
            (clear_fellow input, clear_by input) \<in> set (fellow_sponsors db)) \<and>
         length (counting db (clear_fellow input) (window_start now2)) \<ge> posture_refusal_threshold
      then if clearance_admissible db row
           then (Inr (cid, now + 1), db\<lparr>clearances := clearances db @ [row]\<rparr>)
           else (Inl ClearanceAborted, db)
      else (Inl ClearanceRefused, db))"

subsection \<open>Faces\<close>

definition sponsor_owns_fellow :: "posture_db \<Rightarrow> string \<Rightarrow> string \<Rightarrow> bool" where
  "sponsor_owns_fellow db sponsor fellow \<longleftrightarrow> (fellow, sponsor) \<in> set (fellow_sponsors db)"

text \<open>
  The Fellows of a sponsor with a recent refusal, at most 100 in the order of their
  identifiers, and those whose count is not zero. \<open>now\<close> is the query's clock, \<open>now'\<close> the one
  of the readings.
\<close>

definition sponsor_postures :: "posture_db \<Rightarrow> string \<Rightarrow> int \<Rightarrow> int \<Rightarrow> (string \<times> posture_state) list" where
  "sponsor_postures db sponsor now now' =
     filter (\<lambda>(_, p). refusals_in_window p \<noteq> 0)
       (map (\<lambda>fellow. (fellow, posture_of db fellow now'))
         (take 100 (sort (remdups (map fst (filter (\<lambda>(fellow, s). s = sponsor \<and>
             list_ex (\<lambda>r. refused_fellow r = fellow \<and> refused_at r > window_start now) (refusals db))
           (fellow_sponsors db)))))))"

end
