(* ===== verification/PostureLaws.thy ===== *)
theory PostureLaws
  imports Posture
begin

section \<open>What the screening posture guarantees\<close>

text \<open>
  Histories of recordings and clearances, under clocks that may run in any order, the
  invariant they keep, and the properties: the count never passes the threshold, a
  clearance resets it, its engagement is announced exactly once, and what three counted
  refusals say about the bytes that were refused. The instant of a history is the latest at
  which a refusal was recorded.
\<close>

subsection \<open>Histories\<close>

inductive posture_history :: "(string \<Rightarrow> string) \<Rightarrow> int \<Rightarrow> posture_db \<Rightarrow> bool" for sha256 where
  starts: "refusals db = [] \<Longrightarrow> clearances db = [] \<Longrightarrow> notices db = [] \<Longrightarrow> posture_history sha256 t db"
| records: "posture_history sha256 t db \<Longrightarrow> record_refusal sha256 db input rid now1 now = Some db' \<Longrightarrow>
    posture_history sha256 (max t now) db'"
| clears: "posture_history sha256 t db \<Longrightarrow> clear_posture db input cid now now2 = (result, db') \<Longrightarrow>
    posture_history sha256 t db'"

subsection \<open>One step\<close>

lemma counting_shrinks:
  assumes "since \<le> since'"
  shows "length (counting db f since') \<le> length (counting db f since)"
  unfolding counting_def using assms by (intro length_filter_imp) auto

lemma latest_clearance_refusals [simp]:
  "latest_clearance (db\<lparr>refusals := rs\<rparr>) f = latest_clearance db f"
  "latest_clearance (db\<lparr>notices := ns\<rparr>) f = latest_clearance db f"
  by (simp_all add: latest_clearance_def)

lemma counting_notices [simp]: "counting (db\<lparr>notices := ns\<rparr>) f since = counting db f since"
  by (simp add: counting_def)

lemma counting_add:
  "counting (db\<lparr>refusals := refusals db @ [r]\<rparr>) f since =
     counting db f since @
     (if refused_fellow r = f \<and> refused_at r > since \<and>
         (case latest_clearance db f of None \<Rightarrow> True | Some c \<Rightarrow> refused_at r > c) then [r] else [])"
  by (simp add: counting_def)

text \<open>A recording inserts one row or leaves the tables alone.\<close>

lemma record_refusal_cases:
  assumes "record_refusal sha256 db input rid now1 now = Some db'"
  obtains (skipped) "refusals db' = refusals db" "clearances db' = clearances db"
      "db' = db \<or> db' = db\<lparr>notices := insert_notice (inbox_notice_id sha256 [] (posture_notice input rid now))
         (posture_notice input rid now)
         (notice_guard db rid (in_fellow input) (window_start now)) (notices db)\<rparr>"
  | (inserted) db1 where "db1 = db\<lparr>refusals := refusals db @ [refusal_row input rid now]\<rparr>"
      "length (counting db (in_fellow input) (window_start now)) < posture_refusal_threshold"
      "\<not> refusal_conflict db (refusal_row input rid now)"
      "refusal_admissible db (refusal_row input rid now)"
      "db' = db1\<lparr>notices := insert_notice (inbox_notice_id sha256 [] (posture_notice input rid now))
         (posture_notice input rid now)
         (notice_guard db1 rid (in_fellow input) (window_start now)) (notices db)\<rparr>"
proof (cases "in_category input = ''provider-unavailable'' \<or>
    quarantine_first (posture_of db (in_fellow input) now1)")
  case True
  with assms have "db' = db" by (auto simp: record_refusal_def split: if_splits)
  then show ?thesis using skipped by simp
next
  case False
  let ?r = "refusal_row input rid now"
  have f: "refused_fellow ?r = in_fellow input" by (simp add: refusal_row_def)
  show ?thesis
  proof (cases "insert_refusal db ?r (window_start now)")
    case None
    with assms False show ?thesis by (simp add: record_refusal_def)
  next
    case (Some db1)
    with assms False have db': "db' = db1\<lparr>notices := insert_notice
        (inbox_notice_id sha256 [] (posture_notice input rid now)) (posture_notice input rid now)
        (notice_guard db1 rid (in_fellow input) (window_start now)) (notices db1)\<rparr>"
      by (simp add: record_refusal_def Let_def)
    from Some consider "db1 = db"
      | "db1 = db\<lparr>refusals := refusals db @ [?r]\<rparr>" "\<not> refusal_conflict db ?r"
        "refusal_admissible db ?r"
        "length (counting db (in_fellow input) (window_start now)) < posture_refusal_threshold"
      unfolding insert_refusal_def f by (auto split: if_splits)
    then show ?thesis
    proof cases
      case 1
      then show ?thesis using db' skipped by auto
    next
      case 2
      with db' show ?thesis by (intro inserted [of db1]) simp_all
    qed
  qed
qed

text \<open>A clearance only changes its own table.\<close>

lemma clear_posture_cases:
  assumes "clear_posture db input cid now now2 = (result, db')"
  obtains (refused) err where "db' = db" "result = Inl err"
  | (cleared) "db' = db\<lparr>clearances := clearances db @ [clearance_row input cid now]\<rparr>"
      "result = Inr (cid, now + 1)"
      "clear_class input = OperatorClears \<or> (clear_fellow input, clear_by input) \<in> set (fellow_sponsors db)"
      "posture_refusal_threshold \<le> length (counting db (clear_fellow input) (window_start now2))"
  using assms unfolding clear_posture_def Let_def by (auto split: if_splits)

lemma latest_clearance_add:
  "latest_clearance (db\<lparr>clearances := clearances db @ [c]\<rparr>) f =
     (if cleared_fellow c = f
      then Some (case latest_clearance db f of None \<Rightarrow> cleared_at c | Some t \<Rightarrow> max t (cleared_at c))
      else latest_clearance db f)"
proof (cases "filter (\<lambda>c. cleared_fellow c = f) (clearances db) = []")
  case True
  then show ?thesis by (simp add: latest_clearance_def)
next
  case False
  then have "cleared_at ` set (filter (\<lambda>c. cleared_fellow c = f) (clearances db)) \<noteq> {}"
    by (auto simp: filter_empty_conv)
  with False show ?thesis
    unfolding latest_clearance_def Let_def
    by (simp only: posture_db.simps filter_append map_append set_append set_map)
      (simp add: max.commute)
qed

lemma counting_clear_length:
  "length (counting (db\<lparr>clearances := clearances db @ [c]\<rparr>) f since) \<le> length (counting db f since)"
proof -
  have "refusals (db\<lparr>clearances := clearances db @ [c]\<rparr>) = refusals db" by simp
  then show ?thesis
    unfolding counting_def latest_clearance_add
    by (simp only:) (intro length_filter_imp, auto split: option.splits if_splits)
qed

subsection \<open>The invariant of histories\<close>

definition posture_inv :: "int \<Rightarrow> posture_db \<Rightarrow> bool" where
  "posture_inv t db \<longleftrightarrow>
     (\<forall>r \<in> set (refusals db). refused_at r \<le> t) \<and>
     (\<forall>f. length (counting db f (window_start t)) \<le> posture_refusal_threshold) \<and>
     distinct (map (\<lambda>r. (refused_fellow r, refused_digest r, refused_outcome r)) (refusals db)) \<and>
     (\<forall>n \<in> set (notices db). \<exists>r \<in> set (refusals db). caused_by n = Some (refusal_id r))"

lemma insert_notice_mem:
  "n \<in> set (insert_notice nid input guard table) \<Longrightarrow>
     n \<in> set table \<or> guard \<and> caused_by n = input_cause input \<and> notice_fellow n = input_fellow input"
  by (auto simp: insert_notice_def split: if_splits)

lemma posture_inv_later:
  assumes "posture_inv t db" and "t \<le> now"
  shows "posture_inv now db"
proof -
  have "length (counting db f (window_start now)) \<le> posture_refusal_threshold" for f
    using counting_shrinks [of "window_start t" "window_start now" db f] assms
    unfolding posture_inv_def window_start_def by (meson diff_right_mono le_trans)
  with assms show ?thesis by (fastforce simp: posture_inv_def)
qed

lemma posture_inv_records:
  assumes inv: "posture_inv t db" and step: "record_refusal sha256 db input rid now1 now = Some db'"
  shows "posture_inv (max t now) db'"
proof -
  have inv': "posture_inv (max t now) db" using posture_inv_later [OF inv] by simp
  show ?thesis using step
  proof (cases rule: record_refusal_cases)
    case skipped
    have "\<exists>r \<in> set (refusals db). caused_by n = Some (refusal_id r)" if "n \<in> set (notices db')" for n
    proof (cases "n \<in> set (notices db)")
      case False
      with that skipped(3) have "n \<in> set (insert_notice (inbox_notice_id sha256 [] (posture_notice input rid now))
          (posture_notice input rid now)
          (notice_guard db rid (in_fellow input) (window_start now)) (notices db))" by auto
      from insert_notice_mem [OF this] False show ?thesis
        by (auto simp: notice_guard_def list_ex_iff posture_notice_def)
    qed (use inv' in \<open>simp add: posture_inv_def\<close>)
    with skipped inv' show ?thesis
      unfolding posture_inv_def counting_def latest_clearance_def by simp
  next
    case (inserted db1)
    let ?r = "refusal_row input rid now"
    have r: "refused_fellow ?r = in_fellow input" "refused_at ?r = now" "refusal_id ?r = rid"
      by (simp_all add: refusal_row_def)
    have "window_start now \<le> window_start (max t now)" by (simp add: window_start_def)
    from counting_shrinks [OF this, of db "in_fellow input"] inserted(2)
    have "length (counting db (in_fellow input) (window_start (max t now))) < posture_refusal_threshold" by linarith
    then have "length (counting db1 f (window_start (max t now))) \<le> posture_refusal_threshold" for f
      using inv' unfolding inserted(1) counting_add posture_inv_def by (auto simp: r)
    moreover have "distinct (map (\<lambda>r. (refused_fellow r, refused_digest r, refused_outcome r)) (refusals db1))"
      using inv' inserted(3) unfolding inserted(1) posture_inv_def
      by (auto simp: refusal_conflict_def list_ex_iff)
    moreover have "\<exists>r \<in> set (refusals db1). caused_by n = Some (refusal_id r)" if "n \<in> set (notices db')" for n
      using that inv' unfolding inserted(1,5) posture_inv_def
      by (auto simp: r posture_notice_def dest!: insert_notice_mem)
    ultimately show ?thesis
      using inv' unfolding posture_inv_def inserted(1,5) by (auto simp: r)
  qed
qed

lemma history_inv: "posture_history sha256 t db \<Longrightarrow> posture_inv t db"
proof (induction rule: posture_history.induct)
  case (starts db t)
  then show ?case by (simp add: posture_inv_def counting_def)
next
  case (records t db input rid now1 now db')
  then show ?case using posture_inv_records by blast
next
  case (clears t db input cid now now2 result db')
  note inv = clears(3)
  from clears(2) show ?case
  proof (cases rule: clear_posture_cases)
    case cleared
    have "length (counting db' f (window_start t)) \<le> posture_refusal_threshold" for f
      using counting_clear_length [of db _ f "window_start t"] inv
      unfolding cleared(1) posture_inv_def by (meson le_trans)
    with inv cleared(1) show ?thesis by (simp add: posture_inv_def)
  qed (use inv in simp)
qed

subsection \<open>The properties\<close>

lemma history_count:
  assumes "posture_history sha256 t db" and "t \<le> now"
  shows "length (counting db f (window_start now)) \<le> posture_refusal_threshold"
  using posture_inv_later [OF history_inv [OF assms(1)] assms(2)] by (simp add: posture_inv_def)

lemma counting_distinct:
  assumes "posture_inv t db"
  shows "distinct (map (\<lambda>r. (refused_digest r, refused_outcome r)) (counting db f since))"
proof -
  have "distinct (map (\<lambda>r. (refused_fellow r, refused_digest r, refused_outcome r)) (counting db f since))"
    using assms unfolding posture_inv_def counting_def by (auto intro: distinct_map_filter)
  moreover have "\<forall>r \<in> set (counting db f since). refused_fellow r = f" by (simp add: counting_def)
  ultimately show ?thesis by (auto simp: distinct_map inj_on_def)
qed

lemma digests_or_outcomes:
  assumes pairs: "distinct (map (\<lambda>r. (refused_digest r, refused_outcome r)) rows)"
  shows "distinct (map refused_digest rows) \<or>
    (\<exists>r \<in> set rows. \<exists>s \<in> set rows. refused_digest r = refused_digest s \<and>
      refused_outcome r = RefusedReject \<and> refused_outcome s = RefusedQuarantine)"
proof (cases "distinct (map refused_digest rows)")
  case False
  with pairs obtain r s where rs: "r \<in> set rows" "s \<in> set rows" "refused_digest r = refused_digest s"
    "refused_outcome r \<noteq> refused_outcome s" by (auto simp: distinct_map inj_on_def)
  show ?thesis
  proof (cases "refused_outcome r")
    case RefusedReject
    with rs have "refused_outcome s = RefusedQuarantine" by (cases "refused_outcome s") auto
    with rs RefusedReject show ?thesis by blast
  next
    case RefusedQuarantine
    with rs have "refused_outcome s = RefusedReject" by (cases "refused_outcome s") auto
    with rs RefusedQuarantine show ?thesis by metis
  qed
qed simp

text \<open>
  C34. In every history of recordings and clearances, in whatever order their clocks are, and at
  every reading not before the latest recording: the refusals that count - of this Fellow,
  inside the window and after the Fellow's last clearance - are at most three, the posture is
  engaged exactly when they are three, and a retry never counts twice: no two of them have
  the same digest and outcome. So they are of different byte strings, unless
  the same bytes were once rejected and once quarantined.
\<close>

theorem engaged_posture_counts_three:
  assumes "posture_history sha256 t db" and "t \<le> now"
  shows "let rows = counting db f (window_start now) in
    refusals_in_window (posture_of db f now) = length rows \<and> length rows \<le> 3 \<and>
    (quarantine_first (posture_of db f now) \<longleftrightarrow> length rows = 3) \<and>
    distinct (map (\<lambda>r. (refused_digest r, refused_outcome r)) rows) \<and>
    (distinct (map refused_digest rows) \<or>
      (\<exists>r \<in> set rows. \<exists>s \<in> set rows. refused_digest r = refused_digest s \<and>
        refused_outcome r = RefusedReject \<and> refused_outcome s = RefusedQuarantine))"
proof -
  define rows where "rows = counting db f (window_start now)"
  have le: "length rows \<le> 3" using history_count [OF assms(1,2)] by (simp add: rows_def posture_refusal_threshold_def)
  have pairs: "distinct (map (\<lambda>r. (refused_digest r, refused_outcome r)) rows)"
    unfolding rows_def by (rule counting_distinct [OF history_inv [OF assms(1)]])
  note digests_or_outcomes [OF pairs]
  moreover have "quarantine_first (posture_of db f now) \<longleftrightarrow> length rows = 3"
    using le by (auto simp: rows_def posture_of_def Let_def posture_refusal_threshold_def)
  moreover have "refusals_in_window (posture_of db f now) = length rows"
    by (simp add: rows_def posture_of_def Let_def)
  ultimately show ?thesis using le pairs unfolding Let_def rows_def by blast
qed

definition sample_digest :: "char \<Rightarrow> string" where
  "sample_digest c = replicate 64 c"

lemma sample_digest [simp]:
  "length (sample_digest c) = 64" "list_all lower_hex (sample_digest CHR ''a'')"
  "list_all lower_hex (sample_digest CHR ''b'')"
  "sample_digest CHR ''a'' \<noteq> sample_digest CHR ''b''" "sample_digest CHR ''b'' \<noteq> sample_digest CHR ''a''"
proof -
  have r: "list_all P (replicate n c) \<longleftrightarrow> n = 0 \<or> P c" for P n and c :: char by (induction n) auto
  have "sample_digest CHR ''a'' = sample_digest CHR ''b'' \<Longrightarrow> CHR ''a'' = CHR ''b''"
    unfolding sample_digest_def replicate_eq_replicate by simp
  then show "sample_digest CHR ''a'' \<noteq> sample_digest CHR ''b''" "sample_digest CHR ''b'' \<noteq> sample_digest CHR ''a''"
    by auto
  show "length (sample_digest c) = 64" "list_all lower_hex (sample_digest CHR ''a'')"
    "list_all lower_hex (sample_digest CHR ''b'')"
    unfolding sample_digest_def r by (simp_all add: lower_hex_def)
qed

definition sample_refusal :: "refusal_outcome \<Rightarrow> char \<Rightarrow> refusal_input" where
  "sample_refusal outcome c =
     \<lparr>in_fellow = ''F-1'', in_sponsor = ''S-1'', in_problem = ''P-1'', in_outcome = outcome,
      in_category = ''spam'', in_digest = sample_digest c\<rparr>"

definition sample_posture_db :: posture_db where
  "sample_posture_db =
     \<lparr>refusals = [], clearances = [], notices = [], fellow_sponsors = [(''F-1'', ''S-1'')],
      problems = [''P-1'']\<rparr>"

text \<open>Two byte strings, one of them refused with both outcomes.\<close>

definition sample_recorded :: "nat \<Rightarrow> posture_db" where
  "sample_recorded n =
     sample_posture_db\<lparr>refusals := take n
       [refusal_row (sample_refusal RefusedReject CHR ''a'') ''SR-1'' 10,
        refusal_row (sample_refusal RefusedQuarantine CHR ''a'') ''SR-2'' 20,
        refusal_row (sample_refusal RefusedReject CHR ''b'') ''SR-3'' 30]\<rparr>"

lemmas posture_evaluation =
  sample_recorded_def sample_posture_db_def sample_refusal_def refusal_row_def record_refusal_def
  insert_refusal_def refusal_conflict_def refusal_admissible_def posture_of_def counting_def
  latest_clearance_def posture_refusal_threshold_def posture_window_ms_def window_start_def
  notice_guard_def posture_notice_def insert_notice_def same_delivery_def inbox_notice_id_def
  next_notice_seq_def Let_def

lemma sample_steps:
  "record_refusal sha256 (sample_recorded 0) (sample_refusal RefusedReject CHR ''a'') ''SR-1'' 10 10 =
     Some (sample_recorded 1)"
  "record_refusal sha256 (sample_recorded 1) (sample_refusal RefusedQuarantine CHR ''a'') ''SR-2'' 20 20 =
     Some (sample_recorded 2)"
  "\<exists>n. record_refusal sha256 (sample_recorded 2) (sample_refusal RefusedReject CHR ''b'') ''SR-3'' 30 30 =
     Some ((sample_recorded 3)\<lparr>notices := [n]\<rparr>) \<and> notice_fellow n = ''F-1''"
  by (simp_all add: posture_evaluation)

lemma sample_history:
  "posture_history sha256 20 (sample_recorded 2)"
  "\<exists>n. posture_history sha256 30 ((sample_recorded 3)\<lparr>notices := [n]\<rparr>)"
proof -
  have "posture_history sha256 0 (sample_recorded 0)"
    by (rule posture_history.starts) (simp_all add: sample_recorded_def sample_posture_db_def)
  from posture_history.records [OF this sample_steps(1)] have "posture_history sha256 10 (sample_recorded 1)"
    by simp
  from posture_history.records [OF this sample_steps(2)]
  show two: "posture_history sha256 20 (sample_recorded 2)" by simp
  from sample_steps(3) obtain n where
    "record_refusal sha256 (sample_recorded 2) (sample_refusal RefusedReject CHR ''b'') ''SR-3'' 30 30 =
       Some ((sample_recorded 3)\<lparr>notices := [n]\<rparr>)" by blast
  from posture_history.records [OF two this]
  show "\<exists>n. posture_history sha256 30 ((sample_recorded 3)\<lparr>notices := [n]\<rparr>)" by auto
qed

theorem engaged_posture_counts_three_witness:
  "\<exists>n. quarantine_first (posture_of ((sample_recorded 3)\<lparr>notices := [n]\<rparr>) ''F-1'' 40) \<and>
     refusals_in_window (posture_of ((sample_recorded 3)\<lparr>notices := [n]\<rparr>) ''F-1'' 40) = 3"
proof -
  obtain n where h: "posture_history id 30 ((sample_recorded 3)\<lparr>notices := [n]\<rparr>)"
    using sample_history(2) by blast
  have q: "quarantine_first (posture_of ((sample_recorded 3)\<lparr>notices := [n]\<rparr>) ''F-1'' 40)"
    by (simp add: posture_evaluation)
  moreover have "refusals_in_window (posture_of ((sample_recorded 3)\<lparr>notices := [n]\<rparr>) ''F-1'' 40) = 3"
    using engaged_posture_counts_three [OF h, of 40 "''F-1''"] q by (simp add: Let_def)
  ultimately show ?thesis by blast
qed

text \<open>The same bytes, rejected and quarantined, count twice: two byte strings engage the posture.\<close>

lemma two_byte_strings_engage:
  "\<exists>n. posture_history sha256 30 ((sample_recorded 3)\<lparr>notices := [n]\<rparr>) \<and>
     quarantine_first (posture_of ((sample_recorded 3)\<lparr>notices := [n]\<rparr>) ''F-1'' 40) \<and>
     card (refused_digest ` set (refusals ((sample_recorded 3)\<lparr>notices := [n]\<rparr>))) = 2"
proof -
  obtain n where h: "posture_history sha256 30 ((sample_recorded 3)\<lparr>notices := [n]\<rparr>)"
    using sample_history(2) by blast
  moreover have "quarantine_first (posture_of ((sample_recorded 3)\<lparr>notices := [n]\<rparr>) ''F-1'' 40)"
    by (simp add: posture_evaluation)
  moreover have "card (refused_digest ` set (refusals ((sample_recorded 3)\<lparr>notices := [n]\<rparr>))) = 2"
    by (simp add: sample_recorded_def refusal_row_def sample_refusal_def)
  ultimately show ?thesis by blast
qed

text \<open>
  A clearance works and is authorised: in every history a clearance that succeeds was
  made by an operator or by the Fellow's own sponsor, found the posture engaged, and leaves
  that Fellow with no counted refusal at any time of reading, while no other Fellow's
  posture changes.
\<close>

theorem clearance_resets_the_count:
  assumes "posture_history sha256 t db" and "t \<le> now" and "now \<le> now2"
    and "clear_posture db input cid now now2 = (Inr out, db')"
  shows "(clear_class input = OperatorClears \<or> sponsor_owns_fellow db (clear_by input) (clear_fellow input)) \<and>
    quarantine_first (posture_of db (clear_fellow input) now2) \<and>
    refusals_in_window (posture_of db' (clear_fellow input) later) = 0 \<and>
    (f \<noteq> clear_fellow input \<longrightarrow> posture_of db' f later = posture_of db f later)"
  using assms(4)
proof (cases rule: clear_posture_cases)
  case cleared
  let ?c = "clearance_row input cid now"
  have c: "cleared_fellow ?c = clear_fellow input" "cleared_at ?c = now + 1" by (simp_all add: clearance_row_def)
  have rows: "refusals db' = refusals db" using cleared(1) by simp
  have "\<forall>r \<in> set (refusals db). refused_at r \<le> t" using history_inv [OF assms(1)] by (simp add: posture_inv_def)
  then have old: "\<forall>r \<in> set (refusals db). refused_at r < now + 1" using assms(2) by force
  have "counting db' (clear_fellow input) since = []" for since
    unfolding counting_def rows unfolding cleared(1) latest_clearance_add c
    using old by (force simp: filter_empty_conv split: option.splits)
  then have "refusals_in_window (posture_of db' (clear_fellow input) later) = 0"
    by (simp add: posture_of_def Let_def)
  moreover have "posture_of db' f later = posture_of db f later" if "f \<noteq> clear_fellow input"
    using that unfolding posture_of_def counting_def rows unfolding cleared(1) latest_clearance_add c by simp
  moreover have "quarantine_first (posture_of db (clear_fellow input) now2)"
    using cleared(4) by (simp add: posture_of_def Let_def)
  ultimately show ?thesis using cleared(3) by (auto simp: sponsor_owns_fellow_def)
qed simp

theorem clearance_resets_the_count_example:
  "\<exists>n db'. clear_posture ((sample_recorded 3)\<lparr>notices := [n]\<rparr>)
      \<lparr>clear_fellow = ''F-1'', clear_class = SponsorClears, clear_by = ''S-1'',
       clear_reason = ''reviewed with them''\<rparr> ''PC-1'' 30 31 = (Inr (''PC-1'', 31), db') \<and>
    refusals_in_window (posture_of db' ''F-1'' 50) = 0"
proof -
  let ?in = "\<lparr>clear_fellow = ''F-1'', clear_class = SponsorClears, clear_by = ''S-1'',
       clear_reason = ''reviewed with them''\<rparr>"
  obtain n where h: "posture_history id 30 ((sample_recorded 3)\<lparr>notices := [n]\<rparr>)"
    using sample_history(2) by blast
  obtain db' where c: "clear_posture ((sample_recorded 3)\<lparr>notices := [n]\<rparr>) ?in ''PC-1'' 30 31 =
      (Inr (''PC-1'', 31), db')"
    by (simp add: clear_posture_def posture_evaluation clearance_row_def clearance_admissible_def)
  from clearance_resets_the_count [OF h _ _ c, of 50 "''F-2''"]
  have "refusals_in_window (posture_of db' ''F-1'' 50) = 0" by simp
  with c show ?thesis by blast
qed

text \<open>
  Engagement is announced exactly once: in every history, recording a refusal under a
  fresh identifier sends a notice exactly when it takes the Fellow from an open posture to
  an engaged one, and then exactly one, to that Fellow, naming the refusal that caused it.
\<close>

theorem engagement_is_announced_once:
  assumes "posture_history sha256 t db" and "t \<le> now1" and "now1 \<le> now"
    and "record_refusal sha256 db input rid now1 now = Some db'"
    and "rid \<notin> set (map refusal_id (refusals db))"
    and "inbox_notice_id sha256 [] (posture_notice input rid now) \<notin> set (map notice_id (notices db))"
  shows "(notices db' \<noteq> notices db \<longleftrightarrow>
      \<not> quarantine_first (posture_of db (in_fellow input) now) \<and>
      quarantine_first (posture_of db' (in_fellow input) now)) \<and>
    (notices db' \<noteq> notices db \<longrightarrow>
      (\<exists>n. notices db' = notices db @ [n] \<and> notice_fellow n = in_fellow input \<and> caused_by n = Some rid))"
  using assms(4)
proof (cases rule: record_refusal_cases)
  case skipped
  have "\<not> notice_guard db rid (in_fellow input) (window_start now)"
    using assms(5) by (auto simp: notice_guard_def list_ex_iff)
  with skipped(3) have same: "notices db' = notices db" by (auto simp: insert_notice_def)
  have "counting db' f since = counting db f since" for f since
    using skipped unfolding counting_def latest_clearance_def by simp
  with same show ?thesis by (simp add: posture_of_def Let_def)
next
  case (inserted db1)
  let ?n = "posture_notice input rid now" and ?f = "in_fellow input"
  have inv: "posture_inv t db" by (rule history_inv [OF assms(1)])
  have "\<not> list_ex (same_delivery ?n) (notices db)"
    using inv assms(5) by (fastforce simp: posture_inv_def list_ex_iff same_delivery_def posture_notice_def)
  moreover have in1: "list_ex (\<lambda>r. refusal_id r = rid \<and> refused_fellow r = ?f) (refusals db1)"
    unfolding inserted(1) by (simp add: refusal_row_def)
  moreover have count': "counting db' ?f since = counting db1 ?f since" for since
    unfolding inserted(5) by simp
  moreover have open1: "\<not> quarantine_first (posture_of db ?f now)"
    using inserted(2) by (simp add: posture_of_def Let_def)
  moreover have "quarantine_first (posture_of db' ?f now) \<longleftrightarrow> notice_guard db1 rid ?f (window_start now)"
  proof -
    have "length (counting db1 ?f (window_start now)) \<le> posture_refusal_threshold"
      using inserted(2) unfolding inserted(1) counting_add by auto
    then show ?thesis using in1 count' by (auto simp: notice_guard_def posture_of_def Let_def)
  qed
  ultimately show ?thesis
    using assms(6) unfolding inserted(5) by (simp add: insert_notice_def) (simp add: posture_notice_def)
qed

theorem engagement_is_announced_once_example:
  "\<exists>n. record_refusal id (sample_recorded 2) (sample_refusal RefusedReject CHR ''b'') ''SR-3'' 30 30 =
      Some ((sample_recorded 3)\<lparr>notices := [n]\<rparr>) \<and> caused_by n = Some ''SR-3''"
proof -
  from sample_steps(3) obtain n where s:
    "record_refusal id (sample_recorded 2) (sample_refusal RefusedReject CHR ''b'') ''SR-3'' 30 30 =
       Some ((sample_recorded 3)\<lparr>notices := [n]\<rparr>)" by blast
  have "notices (sample_recorded 2) = []" "''SR-3'' \<notin> set (map refusal_id (refusals (sample_recorded 2)))"
    by (simp_all add: sample_recorded_def sample_posture_db_def refusal_row_def)
  with engagement_is_announced_once [OF sample_history(1) _ _ s] have "caused_by n = Some ''SR-3''" by simp
  with s show ?thesis by blast
qed

end
