(* ===== verification/Regex.thy ===== *)
theory Regex
  imports Text
begin

section \<open>Regular expressions as the source runs them\<close>

text \<open>
  The fragment of the source language's regular expressions that its scanners use, with the
  semantics of a backtracking matcher: \<open>ends r s i\<close> lists, in the order in which the
  matcher tries them, the positions where a match of \<open>r\<close> that starts at \<open>i\<close> may end, so the
  first of them is the match. Global replacement scans from the left and continues after
  each match. A pattern is a captured part, echoed by the replacement, and the rest.
\<close>

datatype rx =
  Eps | Cls "char \<Rightarrow> bool" | Seq rx rx | Alt rx rx | Star rx | Lazy rx
| WordBoundary | StartOfInput | EndOfInput | NotAhead rx

definition word_char :: "char \<Rightarrow> bool" where
  "word_char c \<longleftrightarrow> ascii_alnum c \<or> c = CHR ''_''"

definition word_at :: "string \<Rightarrow> nat \<Rightarrow> bool" where
  "word_at s i \<longleftrightarrow> i < length s \<and> word_char (s ! i)"

text \<open>Iterations that advance, longest first; every one consumes a character.\<close>

fun star_ends :: "(nat \<Rightarrow> nat list) \<Rightarrow> nat \<Rightarrow> nat \<Rightarrow> nat list" where
  "star_ends f 0 i = [i]"
| "star_ends f (Suc n) i = concat (map (star_ends f n) (filter (\<lambda>j. i < j) (f i))) @ [i]"

fun lazy_ends :: "(nat \<Rightarrow> nat list) \<Rightarrow> nat \<Rightarrow> nat \<Rightarrow> nat list" where
  "lazy_ends f 0 i = [i]"
| "lazy_ends f (Suc n) i = i # concat (map (lazy_ends f n) (filter (\<lambda>j. i < j) (f i)))"

fun ends :: "rx \<Rightarrow> string \<Rightarrow> nat \<Rightarrow> nat list" where
  "ends Eps s i = [i]"
| "ends (Cls P) s i = (if i < length s \<and> P (s ! i) then [Suc i] else [])"
| "ends (Seq a b) s i = concat (map (ends b s) (ends a s i))"
| "ends (Alt a b) s i = ends a s i @ ends b s i"
| "ends (Star a) s i = star_ends (ends a s) (length s - i) i"
| "ends (Lazy a) s i = lazy_ends (ends a s) (length s - i) i"
| "ends WordBoundary s i = (if word_at s i \<noteq> (0 < i \<and> word_at s (i - 1)) then [i] else [])"
| "ends StartOfInput s i = (if i = 0 then [i] else [])"
| "ends EndOfInput s i = (if i = length s then [i] else [])"
| "ends (NotAhead a) s i = (if ends a s i = [] then [i] else [])"

subsection \<open>Derived forms\<close>

definition lit :: "string \<Rightarrow> rx" where
  "lit w = foldr (\<lambda>c r. Seq (Cls (\<lambda>x. x = c)) r) w Eps"

definition lower_ascii :: "char \<Rightarrow> char" where
  "lower_ascii c = (let n = (of_char c :: nat) in if 65 \<le> n \<and> n \<le> 90 then char_of (n + 32) else c)"

text \<open>A literal under the flag \<open>i\<close>, written in lower case.\<close>

definition lit_ci :: "string \<Rightarrow> rx" where
  "lit_ci w = foldr (\<lambda>c r. Seq (Cls (\<lambda>x. lower_ascii x = c)) r) w Eps"

definition cls_ci :: "(char \<Rightarrow> bool) \<Rightarrow> rx" where
  "cls_ci P = Cls (\<lambda>x. P (lower_ascii x))"

definition chars :: "string \<Rightarrow> rx" where
  "chars w = Cls (\<lambda>x. x \<in> set w)"

definition opt :: "rx \<Rightarrow> rx" where "opt r = Alt r Eps"

fun exactly :: "nat \<Rightarrow> rx \<Rightarrow> rx" where
  "exactly 0 r = Eps"
| "exactly (Suc n) r = Seq r (exactly n r)"

definition at_least :: "nat \<Rightarrow> rx \<Rightarrow> rx" where
  "at_least n r = Seq (exactly n r) (Star r)"

fun at_most :: "nat \<Rightarrow> rx \<Rightarrow> rx" where
  "at_most 0 r = Eps"
| "at_most (Suc n) r = Alt (Seq r (at_most n r)) Eps"

definition between :: "nat \<Rightarrow> nat \<Rightarrow> rx \<Rightarrow> rx" where
  "between lo hi r = Seq (exactly lo r) (at_most (hi - lo) r)"

definition any_of :: "rx list \<Rightarrow> rx" where
  "any_of rs = foldr Alt (butlast rs) (last rs)"

definition seqs :: "rx list \<Rightarrow> rx" where
  "seqs rs = foldr Seq rs Eps"

subsection \<open>Testing and replacing\<close>

definition test_rx :: "rx \<Rightarrow> string \<Rightarrow> bool" where
  "test_rx r s \<longleftrightarrow> list_ex (\<lambda>i. ends r s i \<noteq> []) [0..<Suc (length s)]"

text \<open>The test of an expression anchored at both ends.\<close>

definition full_match :: "rx \<Rightarrow> string \<Rightarrow> bool" where
  "full_match r s \<longleftrightarrow> length s \<in> set (ends r s 0)"

type_synonym pattern = "rx \<times> rx"

text \<open>The first match at a position: the end of the captured part and of the whole.\<close>

definition match_at :: "pattern \<Rightarrow> string \<Rightarrow> nat \<Rightarrow> (nat \<times> nat) option" where
  "match_at p s i =
     (case concat (map (\<lambda>j. map (\<lambda>k. (j, k)) (ends (snd p) s j)) (ends (fst p) s i)) of
        [] \<Rightarrow> None
      | m # _ \<Rightarrow> Some m)"

definition slice :: "string \<Rightarrow> nat \<Rightarrow> nat \<Rightarrow> string" where
  "slice s i j = take (j - i) (drop i s)"

text \<open>\<open>replace\<close> with a global expression; an empty match inserts and advances by one.\<close>

function replace_from :: "pattern \<Rightarrow> string \<Rightarrow> string \<Rightarrow> nat \<Rightarrow> string" where
  "replace_from p w s i =
     (if length s < i then []
      else case match_at p s i of
        None \<Rightarrow> slice s i (Suc i) @ replace_from p w s (Suc i)
      | Some (j, k) \<Rightarrow>
          slice s i j @ w @
          (if i < k then replace_from p w s k else slice s i (Suc i) @ replace_from p w s (Suc i)))"
  by pat_completeness auto
termination by (relation "measure (\<lambda>(p, w, s, i). Suc (length s) - i)") auto

declare replace_from.simps [simp del]

definition replace_all :: "pattern \<Rightarrow> string \<Rightarrow> string \<Rightarrow> string" where
  "replace_all p w s = replace_from p w s 0"

subsection \<open>Laws\<close>

text \<open>The forms without context read only the rest of the input.\<close>

lemma star_ends_bound:
  assumes "\<And>i j. j \<in> set (f i) \<Longrightarrow> i \<le> n \<Longrightarrow> j \<le> n"
  shows "j \<in> set (star_ends f k i) \<Longrightarrow> i \<le> n \<Longrightarrow> i \<le> j \<and> j \<le> n"
proof (induction k arbitrary: i)
  case (Suc k)
  then show ?case using assms by (fastforce dest: less_imp_le)
qed simp

lemma lazy_ends_bound:
  assumes "\<And>i j. j \<in> set (f i) \<Longrightarrow> i \<le> n \<Longrightarrow> j \<le> n"
  shows "j \<in> set (lazy_ends f k i) \<Longrightarrow> i \<le> n \<Longrightarrow> i \<le> j \<and> j \<le> n"
proof (induction k arbitrary: i)
  case (Suc k)
  then show ?case using assms by (fastforce dest: less_imp_le)
qed simp

text \<open>A match ends after it starts and inside the input.\<close>

lemma ends_bound: "j \<in> set (ends r s i) \<Longrightarrow> i \<le> length s \<Longrightarrow> i \<le> j \<and> j \<le> length s"
proof (induction r s i arbitrary: j rule: ends.induct)
  case (3 a b s i)
  then show ?case by fastforce
next
  case (5 a s i)
  show ?case
    by (rule star_ends_bound [of "ends a s" "length s"]) (use 5 in auto)
next
  case (6 a s i)
  show ?case
    by (rule lazy_ends_bound [of "ends a s" "length s"]) (use 6 in auto)
qed (auto split: if_splits)

lemma match_at_bound:
  assumes "match_at p s i = Some (j, k)" and "i \<le> length s"
  shows "i \<le> j \<and> j \<le> k \<and> k \<le> length s \<and> j \<in> set (ends (fst p) s i) \<and> k \<in> set (ends (snd p) s j)"
proof -
  let ?ms = "concat (map (\<lambda>j. map (\<lambda>k. (j, k)) (ends (snd p) s j)) (ends (fst p) s i))"
  from assms(1) obtain rest where "?ms = (j, k) # rest"
    by (auto simp: match_at_def split: list.splits)
  then have "(j, k) \<in> set ?ms" by simp
  then have "j \<in> set (ends (fst p) s i)" "k \<in> set (ends (snd p) s j)" by auto
  with assms(2) ends_bound show ?thesis by blast
qed

lemma match_at_None:
  "match_at p s i = None \<longleftrightarrow> (\<forall>j \<in> set (ends (fst p) s i). ends (snd p) s j = [])"
proof -
  let ?ms = "concat (map (\<lambda>j. map (\<lambda>k. (j, k)) (ends (snd p) s j)) (ends (fst p) s i))"
  have "match_at p s i = None \<longleftrightarrow> ?ms = []"
    unfolding match_at_def by (rule list.exhaust [of ?ms]) (simp_all only: list.case simp_thms option.simps list.simps)
  also have "\<dots> \<longleftrightarrow> (\<forall>j \<in> set (ends (fst p) s i). ends (snd p) s j = [])" by simp
  finally show ?thesis .
qed

lemma ends_lit:
  "j \<in> set (ends (lit w) s i) \<longleftrightarrow> i \<le> length s \<and> take (length w) (drop i s) = w \<and> j = i + length w \<or> i > length s \<and> w = [] \<and> j = i"
proof (induction w arbitrary: i)
  case (Cons c w)
  have "take (Suc (length w)) (drop i s) = c # w \<longleftrightarrow>
      i < length s \<and> s ! i = c \<and> take (length w) (drop (Suc i) s) = w"
    by (cases "i < length s") (auto simp: Cons_nth_drop_Suc [symmetric])
  with Cons show ?case by (auto simp: lit_def)
qed (auto simp: lit_def)

lemma ends_exactly_cls:
  "j \<in> set (ends (exactly n (Cls P)) s i) \<longleftrightarrow>
     (if n = 0 then j = i else i + n \<le> length s \<and> list_all P (take n (drop i s)) \<and> j = i + n)"
proof (induction n arbitrary: i)
  case (Suc n)
  have "i < length s \<Longrightarrow> list_all P (take (Suc n) (drop i s)) \<longleftrightarrow> P (s ! i) \<and> list_all P (take n (drop (Suc i) s))"
    by (simp add: Cons_nth_drop_Suc [symmetric])
  with Suc show ?case by auto
qed simp

subsection \<open>The shortest match\<close>

fun min_length :: "rx \<Rightarrow> nat" where
  "min_length (Cls P) = 1"
| "min_length (Seq a b) = min_length a + min_length b"
| "min_length (Alt a b) = min (min_length a) (min_length b)"
| "min_length _ = 0"

lemma ends_min_length: "j \<in> set (ends r s i) \<Longrightarrow> i + min_length r \<le> j"
proof (induction r arbitrary: i j)
  case (Seq a b)
  then show ?case by fastforce
next
  case (Alt a b)
  then show ?case by fastforce
next
  case (Star a)
  have "j \<in> set (star_ends f n i) \<Longrightarrow> i \<le> j" for f n
    by (induction n arbitrary: i) fastforce+
  with Star show ?case by simp
next
  case (Lazy a)
  have "j \<in> set (lazy_ends f n i) \<Longrightarrow> i \<le> j" for f n
    by (induction n arbitrary: i) fastforce+
  with Lazy show ?case by simp
qed (auto split: if_splits)

text \<open>An input shorter than the shortest match is neither matched nor changed.\<close>

lemma ends_short:
  assumes "length s < min_length r" and "i \<le> length s"
  shows "ends r s i = []"
proof (rule ccontr)
  assume "ends r s i \<noteq> []"
  then obtain j where "j \<in> set (ends r s i)" by (cases "ends r s i") auto
  with ends_min_length ends_bound assms show False by (meson le_trans not_less add_leD2)
qed

lemma test_rx_short: "length s < min_length r \<Longrightarrow> \<not> test_rx r s"
  by (auto simp: test_rx_def list_ex_iff ends_short)

lemma replace_all_short:
  assumes "length s < min_length (fst p) + min_length (snd p)"
  shows "replace_all p w s = s"
proof -
  have none: "match_at p s i = None" if "i \<le> length s" for i
  proof (rule ccontr)
    assume "match_at p s i \<noteq> None"
    then obtain j k where m: "match_at p s i = Some (j, k)" by auto
    from match_at_bound [OF m that] ends_min_length
    have "i + min_length (fst p) \<le> j" "j + min_length (snd p) \<le> k" "k \<le> length s" by blast+
    with assms show False by linarith
  qed
  have "i \<le> length s \<Longrightarrow> replace_from p w s i = drop i s" for i
  proof (induction "length s - i" arbitrary: i)
    case 0
    then show ?case
      by (subst replace_from.simps) (simp add: none slice_def replace_from.simps)
  next
    case (Suc n)
    then have "replace_from p w s (Suc i) = drop (Suc i) s" by simp
    with Suc none [of i] show ?case
      by (subst replace_from.simps) (simp add: slice_def Cons_nth_drop_Suc take_Suc hd_drop_conv_nth)
  qed
  then show ?thesis by (simp add: replace_all_def)
qed

lemma min_length_lit [simp]: "min_length (lit w) = length w" "min_length (lit_ci w) = length w"
  by (induction w) (simp_all add: lit_def lit_ci_def)

lemma min_length_exactly [simp]: "min_length (exactly n r) = n * min_length r"
  by (induction n) simp_all

lemma min_length_at_most [simp]: "min_length (at_most n r) = 0"
  by (cases n) simp_all

lemma min_length_derived [simp]:
  "min_length (at_least n r) = n * min_length r" "min_length (between lo hi r) = lo * min_length r"
  "min_length (opt r) = 0" "min_length (chars w) = 1" "min_length (cls_ci P) = 1"
  by (simp_all add: at_least_def between_def opt_def chars_def cls_ci_def)

lemma min_length_seqs [simp]: "min_length (seqs rs) = sum_list (map min_length rs)"
  by (induction rs) (simp_all add: seqs_def)

end
