(* ===== verification/Redact.thy ===== *)
theory Redact
  imports Regex
begin

section \<open>Path redaction (\<open>http/redact.ts\<close>)\<close>

text \<open>
  What the Worker may echo of a requested path. Percent escapes of ASCII characters are
  decoded pass by pass in search of a credential prefix; the pass limit of the code is
  proved sufficient for every segment short enough to be printed.
\<close>

definition max_segment_length :: nat where "max_segment_length = 24"
definition max_segments :: nat where "max_segments = 8"
definition max_percent_decode_passes :: nat where "max_percent_decode_passes = 12"

definition credential_prefixes :: "string list" where
  "credential_prefixes = [''asimp_'', ''v1.'', ''flow_v1.'']"

definition redacted :: string where "redacted = ''<redacted>''"
definition truncated :: string where "truncated = ''...''"

subsection \<open>Percent escapes\<close>

text \<open>A hexadecimal digit of either case, and its value.\<close>

definition hex_any :: "char \<Rightarrow> bool" where
  "hex_any c \<longleftrightarrow> lower_hex (lower_ascii c)"

definition hex_any_value :: "char \<Rightarrow> nat" where
  "hex_any_value c =
     (let n = (of_char (lower_ascii c) :: nat) in if n \<le> 57 then n - 48 else n - 87)"

text \<open>The replacement of \<open>/%([0-9a-f]{2})/giu\<close>, from the left without overlap.\<close>

fun decode_escapes :: "string \<Rightarrow> string" where
  "decode_escapes (c # a # b # s) =
     (if c = CHR ''%'' \<and> hex_any a \<and> hex_any b
      then let byte = 16 * hex_any_value a + hex_any_value b
           in (if byte \<le> 127 then [char_of byte] else [c, a, b]) @ decode_escapes s
      else c # decode_escapes (a # b # s))"
| "decode_escapes s = s"

subsection \<open>Segments\<close>

fun split_on :: "char \<Rightarrow> string \<Rightarrow> string list" where
  "split_on d [] = [[]]"
| "split_on d (c # s) =
     (if c = d then [] # split_on d s
      else case split_on d s of [] \<Rightarrow> [[c]] | part # parts \<Rightarrow> (c # part) # parts)"

fun join_with :: "string \<Rightarrow> string list \<Rightarrow> string" where
  "join_with d [] = []"
| "join_with d [s] = s"
| "join_with d (s # t # rest) = s @ d @ join_with d (t # rest)"

definition starts_with :: "string \<Rightarrow> string \<Rightarrow> bool" where
  "starts_with part prefix \<longleftrightarrow> take (length prefix) part = prefix"

definition shows_prefix :: "string \<Rightarrow> bool" where
  "shows_prefix inspected =
     list_ex (\<lambda>part. list_ex (starts_with (map lower_ascii part)) credential_prefixes)
       (split_on (CHR ''/'') inspected)"

text \<open>The loop, with the number of decodings that remain.\<close>

fun prefix_loop :: "nat \<Rightarrow> string \<Rightarrow> bool" where
  "prefix_loop passes inspected =
     (if shows_prefix inspected then True
      else case passes of
        0 \<Rightarrow> False
      | Suc n \<Rightarrow>
          let decoded = decode_escapes inspected
          in if decoded = inspected then False else prefix_loop n decoded)"

declare prefix_loop.simps [simp del]

definition carries_credential_prefix :: "string \<Rightarrow> bool" where
  "carries_credential_prefix segment = prefix_loop max_percent_decode_passes segment"

definition redact_segment :: "string \<Rightarrow> string" where
  "redact_segment segment =
     (if length segment = 0 then segment
      else if carries_credential_prefix segment then redacted
      else if length segment > max_segment_length then redacted
      else segment)"

definition redact_pathname :: "string \<Rightarrow> string" where
  "redact_pathname pathname =
     (let segments = split_on (CHR ''/'') pathname;
          kept = map redact_segment (take (max_segments + 1) segments);
          text = join_with ''/'' kept
      in if length segments > max_segments + 1 then text @ ''/'' @ truncated else text)"

subsection \<open>Decoding shortens\<close>

lemma decode_length: "length (decode_escapes s) \<le> length s"
  by (induction s rule: decode_escapes.induct) (auto simp: Let_def)

lemma decode_shortens: "decode_escapes s = s \<or> length (decode_escapes s) + 2 \<le> length s"
proof (induction s rule: decode_escapes.induct)
  case (1 c a b s)
  then show ?case
    using decode_length [of s] by (cases "c = CHR ''%'' \<and> hex_any a \<and> hex_any b") (auto simp: Let_def)
qed auto

lemma decode_fixed_funpow: "decode_escapes s = s \<Longrightarrow> (decode_escapes ^^ n) s = s"
  by (induction n) simp_all

text \<open>Enough passes decide about every number of decodings.\<close>

lemma prefix_loop_complete:
  "length s \<le> 2 * passes + 1 \<Longrightarrow>
     prefix_loop passes s \<longleftrightarrow> (\<exists>n. shows_prefix ((decode_escapes ^^ n) s))"
proof (induction passes arbitrary: s)
  case 0
  then have "decode_escapes s = s" using decode_shortens [of s] by auto
  then show ?case by (subst prefix_loop.simps) (simp add: decode_fixed_funpow)
next
  case (Suc passes)
  have step: "(\<exists>n. shows_prefix ((decode_escapes ^^ n) s)) \<longleftrightarrow>
      shows_prefix s \<or> (\<exists>n. shows_prefix ((decode_escapes ^^ n) (decode_escapes s)))"
  proof
    assume "\<exists>n. shows_prefix ((decode_escapes ^^ n) s)"
    then obtain n where "shows_prefix ((decode_escapes ^^ n) s)" ..
    then show "shows_prefix s \<or> (\<exists>n. shows_prefix ((decode_escapes ^^ n) (decode_escapes s)))"
      by (cases n) (auto simp: funpow_swap1)
  next
    assume "shows_prefix s \<or> (\<exists>n. shows_prefix ((decode_escapes ^^ n) (decode_escapes s)))"
    then show "\<exists>n. shows_prefix ((decode_escapes ^^ n) s)"
      by (metis funpow_0 funpow_Suc_right comp_apply)
  qed
  show ?case
  proof (cases "decode_escapes s = s")
    case True
    then show ?thesis by (subst prefix_loop.simps) (simp add: decode_fixed_funpow)
  next
    case False
    with Suc.prems decode_shortens [of s] have "length (decode_escapes s) \<le> 2 * passes + 1" by auto
    from Suc.IH [OF this] step False show ?thesis by (subst prefix_loop.simps) (simp add: Let_def)
  qed
qed

subsection \<open>The property\<close>

lemma split_on_not_Nil: "split_on d s \<noteq> []"
  by (induction d s rule: split_on.induct) (auto split: list.split)

lemma redact_segment_cases:
  "redact_segment s = redacted \<or>
     redact_segment s = s \<and> length s \<le> max_segment_length \<and> (s = [] \<or> \<not> carries_credential_prefix s)"
  by (auto simp: redact_segment_def)

lemma empty_shows_nothing: "\<not> shows_prefix ((decode_escapes ^^ n) [])"
  by (simp add: decode_fixed_funpow shows_prefix_def starts_with_def credential_prefixes_def)

text \<open>
  C36. A printed path hides no credential prefix: it is made of at most nine segments and a
  truncation mark, and every segment is the redaction mark or a segment of the path, at most
  24 characters long, of which no number of percent decodings starts any component with a
  credential prefix. Twelve passes are enough to know that.
\<close>

theorem printed_path_hides_no_prefix:
  "\<exists>kept. redact_pathname pathname =
       join_with ''/'' kept @ (if max_segments + 1 < length (split_on (CHR ''/'') pathname) then ''/'' @ truncated else []) \<and>
     length kept \<le> 9 \<and>
     list_all (\<lambda>s. s = redacted \<or>
       s \<in> set (split_on (CHR ''/'') pathname) \<and> length s \<le> 24 \<and>
       (\<nexists>n. shows_prefix ((decode_escapes ^^ n) s))) kept"
proof -
  let ?segments = "split_on (CHR ''/'') pathname"
  let ?kept = "map redact_segment (take (max_segments + 1) ?segments)"
  have ok: "redact_segment s = redacted \<or> redact_segment s \<in> set ?segments \<and> length (redact_segment s) \<le> 24 \<and>
      (\<nexists>n. shows_prefix ((decode_escapes ^^ n) (redact_segment s)))" if "s \<in> set ?segments" for s
    using redact_segment_cases [of s]
  proof (elim disjE conjE)
    assume s: "redact_segment s = s" "length s \<le> max_segment_length" "\<not> carries_credential_prefix s"
    then have "\<not> (\<exists>n. shows_prefix ((decode_escapes ^^ n) s))"
      using prefix_loop_complete [of s max_percent_decode_passes]
      by (simp add: carries_credential_prefix_def max_segment_length_def max_percent_decode_passes_def)
    with s that show ?thesis by (simp add: max_segment_length_def)
  qed (use that empty_shows_nothing in \<open>auto simp: max_segment_length_def\<close>)
  have "list_all (\<lambda>s. s = redacted \<or> s \<in> set ?segments \<and> length s \<le> 24 \<and>
      (\<nexists>n. shows_prefix ((decode_escapes ^^ n) s))) ?kept"
    using ok by (auto simp: list_all_iff dest!: in_set_takeD)
  moreover have "length ?kept \<le> 9" by (simp add: max_segments_def)
  moreover have "redact_pathname pathname =
      join_with ''/'' ?kept @ (if max_segments + 1 < length ?segments then ''/'' @ truncated else [])"
    by (simp add: redact_pathname_def Let_def)
  ultimately show ?thesis by blast
qed

end
