(* ===== verification/NeverLog.thy ===== *)
theory NeverLog
  imports Regex "HOL-Library.Sublist"
begin

section \<open>The never-log credential scanner (\<open>diagnostic-safety.ts\<close>)\<close>

text \<open>
  The canonical scanner every diagnostic passes: the credential families, their clipped
  forms and the labelled fields, each the code's regular expression, applied in the code's
  order. The property is the scanner's purpose for the two credentials this project mints:
  no redacted text holds a Fellow token or an enrollment secret, whatever the later
  replacements did to the text around it.
\<close>

subsection \<open>The expressions\<close>

definition token_char :: "char \<Rightarrow> bool" where
  "token_char c \<longleftrightarrow> ascii_alnum c \<or> c \<in> set ''_-''"

definition secret_char :: "char \<Rightarrow> bool" where
  "secret_char c \<longleftrightarrow> ascii_alnum c \<or> c \<in> set ''._~-''"

definition bearer_char :: "char \<Rightarrow> bool" where
  "bearer_char c \<longleftrightarrow> ascii_alnum c \<or> c \<in> set ''._~+/-''"

definition alnum_underscore :: "char \<Rightarrow> bool" where
  "alnum_underscore c \<longleftrightarrow> ascii_alnum c \<or> c = CHR ''_''"

definition space :: rx where "space = Cls js_space"

definition pem_words :: rx where
  "pem_words = Star (Cls (\<lambda>c. (let n = (of_char c :: nat) in 65 \<le> n \<and> n \<le> 90) \<or> c = CHR '' ''))"

definition fellow_token :: rx where
  "fellow_token = Seq (lit ''asimp_ag_'') (at_least 4 (Cls token_char))"

definition fragment_secret :: rx where
  "fragment_secret = Seq (lit ''#v1.'') (at_least 8 (Cls secret_char))"

definition bare_secret :: rx where
  "bare_secret = seqs [WordBoundary, lit ''v1.'', at_least 24 (Cls token_char)]"

definition flow_handle :: rx where
  "flow_handle = seqs [WordBoundary, lit ''flow_v1.'', at_least 24 (Cls token_char)]"

definition json_web_token :: rx where
  "json_web_token =
     seqs [WordBoundary, lit ''eyJ'', at_least 8 (Cls token_char), lit ''.eyJ'',
       at_least 8 (Cls token_char), lit ''.'', at_least 8 (Cls token_char),
       NotAhead (Cls token_char), NotAhead (Seq (lit ''.'') (Cls token_char))]"

definition bearer :: rx where
  "bearer =
     seqs [WordBoundary, Alt (lit_ci ''bearer'') (lit_ci ''basic''), at_least 1 space,
       at_least 8 (cls_ci bearer_char), at_most 2 (lit ''='')]"

definition key_prefix :: rx where
  "key_prefix = any_of [lit ''sk'', lit ''rk'', lit ''pk'']"

definition vendor_key :: rx where
  "vendor_key =
     seqs [WordBoundary, key_prefix, opt (Seq (lit ''_'') (Alt (lit ''live'') (lit ''test''))),
       chars ''-_'', at_least 12 (Cls token_char)]"

definition github_pat :: rx where
  "github_pat = seqs [WordBoundary, lit ''github_pat_'', at_least 22 (Cls alnum_underscore)]"

definition github_token :: rx where
  "github_token = seqs [WordBoundary, lit ''gh'', chars ''pousr'', lit ''_'', at_least 16 (Cls ascii_alnum)]"

definition google_key :: rx where
  "google_key = seqs [WordBoundary, lit ''AIza'', at_least 20 (Cls token_char)]"

definition private_key :: rx where
  "private_key =
     seqs [lit ''-----BEGIN '', pem_words, lit ''PRIVATE KEY-----'', Lazy (Cls (\<lambda>_. True)),
       Alt (seqs [lit ''-----END '', pem_words, lit ''PRIVATE KEY-----'']) EndOfInput]"

definition credential_patterns :: "rx list" where
  "credential_patterns =
     [fellow_token, fragment_secret, bare_secret, flow_handle, json_web_token, bearer, vendor_key,
      github_pat, github_token, google_key, private_key]"

text \<open>A clipped form: at most so many characters, then spaces to the end.\<close>

definition clipped :: "rx list \<Rightarrow> nat \<Rightarrow> nat \<Rightarrow> rx \<Rightarrow> rx" where
  "clipped start lo hi cls = seqs (start @ [between lo hi cls, Star space, EndOfInput])"

definition clipped_credential_patterns :: "rx list" where
  "clipped_credential_patterns =
     [clipped [lit ''asimp_ag_''] 0 3 (Cls token_char),
      clipped [lit ''#v1.''] 0 7 (Cls secret_char),
      clipped [WordBoundary, lit ''flow_v1.''] 0 23 (Cls token_char),
      clipped [WordBoundary, Alt (lit_ci ''bearer'') (lit_ci ''basic''), at_least 1 space] 0 7 (cls_ci bearer_char),
      clipped [WordBoundary, key_prefix, lit ''_'', Alt (lit ''live'') (lit ''test''), lit ''_''] 0 11 (Cls token_char),
      clipped [WordBoundary, key_prefix, lit ''-''] 4 11 (Cls token_char),
      clipped [WordBoundary, lit ''github_pat_''] 0 21 (Cls alnum_underscore),
      clipped [WordBoundary, lit ''gh'', chars ''pousr'', lit ''_''] 0 15 (Cls ascii_alnum),
      clipped [WordBoundary, lit ''AIza''] 0 19 (Cls token_char)]"

text \<open>A quoted value, escapes taken with the character they escape.\<close>

definition line_break :: "char \<Rightarrow> bool" where
  "line_break c \<longleftrightarrow> c \<in> {CHR 10, CHR 13}"

definition quoted :: "char \<Rightarrow> rx" where
  "quoted q =
     seqs [lit [q],
       Star (Alt (Seq (lit [CHR 92]) (Cls (\<lambda>c. \<not> line_break c))) (Cls (\<lambda>c. c \<noteq> q \<and> c \<noteq> CHR 92))),
       lit [q]]"

definition separator :: rx where
  "separator = seqs [opt (lit [CHR 34]), Star space, chars ''=:'', Star space]"

definition label :: "string list \<Rightarrow> rx" where
  "label names = seqs [WordBoundary, any_of (map lit_ci names), separator]"

definition label_value :: "(char \<Rightarrow> bool) \<Rightarrow> rx" where
  "label_value P = any_of [quoted (CHR 34), quoted (CHR 39), at_least 1 (Cls P)]"

definition labelled_secret_patterns :: "pattern list" where
  "labelled_secret_patterns =
     [(label [''authorization'', ''cookie'', ''set-cookie'', ''directive_body'', ''workshop_body''],
       label_value (\<lambda>c. \<not> line_break c)),
      (label [''token'', ''access_token'', ''refresh_token'', ''id_token'', ''secret'', ''password'',
         ''signature'', ''sig'', ''authorization_code'', ''flow_handle'', ''device_code'', ''user_code''],
       label_value (\<lambda>c. \<not> js_space c \<and> c \<notin> set '',;&'')),
      (seqs [chars ''?&'', any_of (map lit_ci [''token'', ''access_token'', ''code'', ''signature'', ''sig'']),
         lit ''=''],
       at_least 1 (Cls (\<lambda>c. c \<notin> set ''&#'' \<and> \<not> js_space c)))]"

subsection \<open>Redaction\<close>

definition redacted_token :: string where
  "redacted_token = ''<redacted>''"

definition redact_credentials :: "string \<Rightarrow> string" where
  "redact_credentials text =
     (let output = foldl (\<lambda>out r. replace_all (Eps, r) redacted_token out) text
            (credential_patterns @ clipped_credential_patterns)
      in foldl (\<lambda>out p. replace_all p redacted_token out) output labelled_secret_patterns)"

definition contains_credential_shape :: "string \<Rightarrow> bool" where
  "contains_credential_shape text \<longleftrightarrow> redact_credentials text \<noteq> text"

subsection \<open>What a replacement can leave behind\<close>

lemma sublist_separator:
  assumes "sublist m (A @ c # B)" and "c \<notin> set m"
  shows "sublist m A \<or> sublist m B"
proof -
  from assms(1) obtain p q where e: "A @ c # B = p @ m @ q" by (auto simp: sublist_def)
  show ?thesis
  proof (cases "length p \<le> length A \<and> length A < length p + length m")
    case True
    from e have "(A @ c # B) ! length A = (p @ m @ q) ! length A" by simp
    moreover from True have "length A - length p < length m" by linarith
    ultimately have "c = m ! (length A - length p)" using True by (simp add: nth_append)
    with True assms(2) show ?thesis by (metis add.commute less_diff_conv2 nth_mem)
  next
    case False
    then consider "length p + length m \<le> length A" | "length A < length p" by linarith
    then show ?thesis
    proof cases
      case 1
      have "take (length A) (A @ c # B) = take (length A) (p @ m @ q)" using e by simp
      with 1 have "A = p @ m @ take (length A - length p - length m) q"
        by (simp add: take_append)
      then show ?thesis by (metis sublist_appendI)
    next
      case 2
      have "drop (Suc (length A)) (A @ c # B) = drop (Suc (length A)) (p @ m @ q)" using e by simp
      with 2 have "B = drop (Suc (length A)) p @ m @ q" by simp
      then show ?thesis by (metis sublist_appendI)
    qed
  qed
qed

lemma sublist_redacted:
  assumes "sublist m (A @ redacted_token @ B)" and "CHR ''<'' \<notin> set m" and "CHR ''>'' \<notin> set m"
    and "8 < length m"
  shows "sublist m A \<or> sublist m B"
proof -
  from assms(1) have "sublist m (A @ CHR ''<'' # (''redacted'' @ CHR ''>'' # B))"
    by (simp add: redacted_token_def)
  from sublist_separator [OF this assms(2)] have "sublist m A \<or> sublist m (''redacted'' @ CHR ''>'' # B)" .
  moreover have "sublist m B" if "sublist m (''redacted'' @ CHR ''>'' # B)"
    using sublist_separator [OF that assms(3)] sublist_length_le [of m "''redacted''"] assms(4) by auto
  ultimately show ?thesis by blast
qed

lemma slice_extend: "a \<le> i \<Longrightarrow> i \<le> j \<Longrightarrow> slice s a i @ slice s i j = slice s a j"
proof -
  assume "a \<le> i" "i \<le> j"
  then have "slice s i j = take (j - i) (drop (i - a) (drop a s))" "j - a = (i - a) + (j - i)"
    by (simp_all add: slice_def)
  then show ?thesis by (simp add: slice_def take_add)
qed

lemma slice_sublist: "sublist (slice s a i) s"
  unfolding slice_def by (metis sublist_drop sublist_order.order_trans sublist_take)

text \<open>A replacement brings no new text but its mark, and never joins what it keeps.\<close>

lemma replace_keeps:
  assumes "CHR ''<'' \<notin> set m" "CHR ''>'' \<notin> set m" "8 < length m"
  shows "sublist m (slice s a i @ replace_from p redacted_token s i) \<Longrightarrow> a \<le> i \<Longrightarrow> sublist m s"
proof (induction p redacted_token s i arbitrary: a rule: replace_from.induct)
  case (1 p s i)
  show ?case
  proof (cases "length s < i")
    case True
    with 1(4) have "sublist m (slice s a i)" by (simp add: replace_from.simps)
    then show ?thesis using slice_sublist sublist_order.order_trans by blast
  next
    case inside: False
    show ?thesis
    proof (cases "match_at p s i")
      case None
      with 1(4) inside have "sublist m (slice s a (Suc i) @ replace_from p redacted_token s (Suc i))"
        using slice_extend [of a i "Suc i" s] 1(5)
        by (subst (asm) replace_from.simps) (simp flip: append_assoc)
      with 1(1) [OF inside None] 1(5) show ?thesis by simp
    next
      case (Some jk)
      obtain j k where jk: "jk = (j, k)" by (cases jk)
      with Some inside have b: "i \<le> j" "j \<le> k" using match_at_bound [of p s i j k] by auto
      let ?rest = "if i < k then replace_from p redacted_token s k
        else slice s i (Suc i) @ replace_from p redacted_token s (Suc i)"
      have "sublist m (slice s a j @ redacted_token @ ?rest)"
        using 1(4) inside Some jk slice_extend [of a i j s] b 1(5)
        by (subst (asm) replace_from.simps) (simp flip: append_assoc)
      from sublist_redacted [OF this assms] show ?thesis
      proof
        assume "sublist m (slice s a j)"
        then show ?thesis using slice_sublist sublist_order.order_trans by blast
      next
        assume rest: "sublist m ?rest"
        show ?thesis
        proof (cases "i < k")
          case True
          with rest have "sublist m (slice s k k @ replace_from p redacted_token s k)"
            by (simp add: slice_def)
          with 1(2) [OF inside Some jk [symmetric] True] show ?thesis by simp
        next
          case False
          with rest 1(3) [OF inside Some jk [symmetric] False] show ?thesis by simp
        qed
      qed
    qed
  qed
qed

lemma sublist_slice_at:
  assumes "sublist m (slice s a i)" and "m \<noteq> []"
  obtains x where "a \<le> x" "x < i" "take (length m) (drop x s) = m"
proof -
  from assms(1) obtain p q where e: "slice s a i = p @ m @ q" by (auto simp: sublist_def)
  have "length p < length (slice s a i)" using assms(2) by (simp add: e)
  then have "a + length p < i" by (auto simp: slice_def)
  moreover have "take (length m) (drop (length p) (slice s a i)) = m" by (simp add: e)
  then have "take (length m) (drop (a + length p) s) = m"
    by (auto simp: slice_def drop_take take_take min_def add.commute split: if_splits)
  ultimately show ?thesis using that [of "a + length p"] by simp
qed

text \<open>A pattern that matches wherever a text occurs leaves no occurrence of it.\<close>

lemma replace_removes:
  assumes hit: "\<And>x. take (length m) (drop x s) = m \<Longrightarrow> ends r s x \<noteq> []"
    and advance: "\<And>x k. k \<in> set (ends r s x) \<Longrightarrow> x < k"
    and m: "CHR ''<'' \<notin> set m" "CHR ''>'' \<notin> set m" "8 < length m"
  shows "sublist m (slice s a i @ replace_from (Eps, r) redacted_token s i) \<Longrightarrow> a \<le> i \<Longrightarrow>
    \<forall>x. a \<le> x \<longrightarrow> x < i \<longrightarrow> ends r s x = [] \<Longrightarrow> False"
proof (induction "Suc (length s) - i" arbitrary: a i rule: less_induct)
  case less
  have kept: "\<not> sublist m (slice s a i)"
  proof
    assume "sublist m (slice s a i)"
    moreover have "m \<noteq> []" using m(3) by auto
    ultimately obtain x where "a \<le> x" "x < i" "take (length m) (drop x s) = m" by (rule sublist_slice_at)
    with hit less.prems(3) show False by blast
  qed
  show False
  proof (cases "length s < i")
    case True
    with less.prems(1) kept show ?thesis by (simp add: replace_from.simps)
  next
    case inside: False
    then have shorter: "Suc (length s) - k < Suc (length s) - i" if "i < k" for k using that by simp
    show ?thesis
    proof (cases "match_at (Eps, r) s i")
      case None
      then have none: "ends r s i = []" by (simp add: match_at_None)
      have "sublist m (slice s a (Suc i) @ replace_from (Eps, r) redacted_token s (Suc i))"
        using less.prems(1,2) inside None slice_extend [of a i "Suc i" s]
        by (subst (asm) replace_from.simps) (simp flip: append_assoc)
      from less.hyps [OF shorter this] none less.prems show ?thesis by (auto simp: less_Suc_eq)
    next
      case (Some jk)
      then obtain k where k: "jk = (i, k)" "i < k"
        using match_at_bound [of "(Eps, r)" s i "fst jk" "snd jk"] advance inside
        by (cases jk) auto
      have "sublist m (slice s a i @ redacted_token @ replace_from (Eps, r) redacted_token s k)"
        using less.prems(1) inside Some k
        by (subst (asm) replace_from.simps) (simp add: slice_def)
      from sublist_redacted [OF this m] kept
      have "sublist m (slice s k k @ replace_from (Eps, r) redacted_token s k)" by (simp add: slice_def)
      from less.hyps [OF shorter this] k(2) show ?thesis by auto
    qed
  qed
qed

lemma star_ends_not_Nil: "star_ends f n i \<noteq> []"
  by (cases n) simp_all

lemma ends_at_least:
  "ends (at_least n (Cls P)) s j \<noteq> [] \<longleftrightarrow> n = 0 \<or> j + n \<le> length s \<and> list_all P (take n (drop j s))"
proof -
  have "ends (at_least n (Cls P)) s j \<noteq> [] \<longleftrightarrow> (\<exists>k. k \<in> set (ends (exactly n (Cls P)) s j))"
    by (auto simp: at_least_def star_ends_not_Nil ex_in_conv)
  then show ?thesis by (auto simp: ends_exactly_cls)
qed

definition prefixed :: "string \<Rightarrow> nat \<Rightarrow> (char \<Rightarrow> bool) \<Rightarrow> rx" where
  "prefixed w n P = Seq (lit w) (at_least n (Cls P))"

lemma prefixed_hit:
  assumes "take (length (w @ body)) (drop x s) = w @ body" and "length body = n" and "list_all P body"
    and "w \<noteq> []"
  shows "ends (prefixed w n P) s x \<noteq> []"
proof -
  have len: "x + length w + n \<le> length s"
  proof -
    have "length (take (length (w @ body)) (drop x s)) = length w + n" using assms(1,2) by simp
    then show ?thesis using assms(4) by (cases "x \<le> length s") (auto simp: min_def split: if_splits)
  qed
  have "take (length w) (drop x s) = w"
    using arg_cong [OF assms(1), of "take (length w)"] by (simp add: take_take)
  then have "x + length w \<in> set (ends (lit w) s x)" using len by (simp add: ends_lit)
  moreover have "take n (drop (x + length w) s) = body"
    using arg_cong [OF assms(1), of "drop (length w)"] assms(2) by (simp add: drop_take add.commute)
  then have "ends (at_least n (Cls P)) s (x + length w) \<noteq> []"
    using assms(3) len by (simp add: ends_at_least)
  ultimately show ?thesis unfolding prefixed_def by auto
qed

lemma prefixed_advance:
  assumes "k \<in> set (ends (prefixed w n P) s x)" and "w \<noteq> []"
  shows "x < k"
proof -
  from assms(1) obtain j where j: "j \<in> set (ends (lit w) s x)" "k \<in> set (ends (at_least n (Cls P)) s j)"
    by (auto simp: prefixed_def)
  from j(1) assms(2) have "x < j" "j \<le> length s"
    by (auto simp: ends_lit min_def dest!: arg_cong [where f = length] split: if_splits)
  with ends_bound [OF j(2)] show ?thesis by simp
qed

lemma replace_all_prefixed:
  assumes "length body = n" "list_all P body" "w \<noteq> []"
    and "CHR ''<'' \<notin> set (w @ body)" "CHR ''>'' \<notin> set (w @ body)" "8 < length (w @ body)"
  shows "\<not> sublist (w @ body) (replace_all (Eps, prefixed w n P) redacted_token s)"
proof
  assume "sublist (w @ body) (replace_all (Eps, prefixed w n P) redacted_token s)"
  then have "sublist (w @ body) (slice s 0 0 @ replace_from (Eps, prefixed w n P) redacted_token s 0)"
    by (simp add: replace_all_def slice_def)
  moreover have "ends (prefixed w n P) s x \<noteq> []" if "take (length (w @ body)) (drop x s) = w @ body" for x
    using that assms(1-3) by (rule prefixed_hit)
  ultimately show False
    using replace_removes [of "w @ body" s "prefixed w n P" 0 0] prefixed_advance [OF _ assms(3)]
      assms(4-6) by simp
qed

lemma replace_all_keeps:
  assumes "CHR ''<'' \<notin> set m" "CHR ''>'' \<notin> set m" "8 < length m" "\<not> sublist m s"
  shows "\<not> sublist m (replace_all p redacted_token s)"
  using replace_keeps [OF assms(1-3), of s 0 0 p] assms(4) by (auto simp: replace_all_def slice_def)

text \<open>Over a list of patterns, one that removes a text is enough.\<close>

lemma fold_keeps:
  assumes "CHR ''<'' \<notin> set m" "CHR ''>'' \<notin> set m" "8 < length m"
  shows "\<not> sublist m s \<Longrightarrow> \<not> sublist m (foldl (\<lambda>out p. replace_all (f p) redacted_token out) s ps)"
  using replace_all_keeps [OF assms] by (induction ps arbitrary: s) simp_all

lemma fold_removes:
  assumes "CHR ''<'' \<notin> set m" "CHR ''>'' \<notin> set m" "8 < length m" "p \<in> set ps"
    and "\<And>s. \<not> sublist m (replace_all (f p) redacted_token s)"
  shows "\<not> sublist m (foldl (\<lambda>out p. replace_all (f p) redacted_token out) s ps)"
  using assms(4)
proof (induction ps arbitrary: s)
  case (Cons q ps)
  then show ?case
    using assms(5) by (cases "p = q") (simp_all add: fold_keeps [OF assms(1-3)])
qed simp

lemma redact_removes:
  assumes "prefixed w n P \<in> set (credential_patterns @ clipped_credential_patterns)"
    and "length body = n" "list_all P body" "w \<noteq> []"
    and "CHR ''<'' \<notin> set (w @ body)" "CHR ''>'' \<notin> set (w @ body)" "8 < length (w @ body)"
  shows "\<not> sublist (w @ body) (redact_credentials text)"
  unfolding redact_credentials_def Let_def
  by (intro fold_keeps [where f = "\<lambda>p. p"] assms(5-7)
      fold_removes [where f = "\<lambda>r. (Eps, r)", OF assms(5-7) assms(1)] replace_all_prefixed [OF assms(2-7)])

text \<open>A text of at most three characters is too short for every rule.\<close>

lemma short_patterns:
  "list_all (\<lambda>r. 4 \<le> min_length r) (credential_patterns @ clipped_credential_patterns)"
  "list_all (\<lambda>p. 4 \<le> min_length (fst p) + min_length (snd p)) labelled_secret_patterns"
  by (simp_all add: credential_patterns_def clipped_credential_patterns_def clipped_def
      labelled_secret_patterns_def fellow_token_def fragment_secret_def bare_secret_def flow_handle_def
      json_web_token_def bearer_def vendor_key_def key_prefix_def github_pat_def github_token_def
      google_key_def private_key_def space_def pem_words_def label_def label_value_def quoted_def
      separator_def any_of_def)

lemma fold_unchanged:
  "\<forall>p \<in> set ps. f p s = s \<Longrightarrow> foldl (\<lambda>out p. f p out) s ps = s"
  by (induction ps) auto

lemma short_text_unchanged:
  assumes "length text \<le> 3"
  shows "redact_credentials text = text"
proof -
  have "replace_all (Eps, r) redacted_token text = text"
    if "r \<in> set (credential_patterns @ clipped_credential_patterns)" for r
  proof -
    from short_patterns(1) that have "4 \<le> min_length r" unfolding list_all_iff by (rule bspec)
    with assms show ?thesis by (intro replace_all_short) simp
  qed
  then have "foldl (\<lambda>out r. replace_all (Eps, r) redacted_token out) text
      (credential_patterns @ clipped_credential_patterns) = text"
    by (intro fold_unchanged [where f = "\<lambda>r out. replace_all (Eps, r) redacted_token out"]) blast
  moreover have "replace_all p redacted_token text = text" if "p \<in> set labelled_secret_patterns" for p
  proof -
    from short_patterns(2) that have "4 \<le> min_length (fst p) + min_length (snd p)"
      unfolding list_all_iff by (rule bspec)
    with assms show ?thesis by (intro replace_all_short) simp
  qed
  then have "foldl (\<lambda>out p. replace_all p redacted_token out) text labelled_secret_patterns = text"
    by (intro fold_unchanged [where f = "\<lambda>p out. replace_all p redacted_token out"]) blast
  ultimately show ?thesis by (simp add: redact_credentials_def)
qed

text \<open>
  C35. No diagnostic carries a minted credential: redacted text never contains the prefix of
  a Fellow token followed by four token characters, nor that of an enrollment fragment
  secret followed by eight secret characters, however the two are embedded, and whatever the
  other twenty-one rules replaced around them.
\<close>

theorem redaction_removes_minted_credentials:
  "\<not> (\<exists>pre body post. redact_credentials text = pre @ ''asimp_ag_'' @ body @ post \<and>
        length body = 4 \<and> list_all token_char body) \<and>
   \<not> (\<exists>pre body post. redact_credentials text = pre @ ''#v1.'' @ body @ post \<and>
        length body = 8 \<and> list_all secret_char body)"
proof -
  have angle: "\<not> token_char CHR ''<''" "\<not> token_char CHR ''>''" "\<not> secret_char CHR ''<''" "\<not> secret_char CHR ''>''"
    by (simp_all add: token_char_def secret_char_def ascii_alnum_def ascii_letter_def ascii_digit_def)
  have p: "prefixed ''asimp_ag_'' 4 token_char = fellow_token" "prefixed ''#v1.'' 8 secret_char = fragment_secret"
    by (simp_all add: prefixed_def fellow_token_def fragment_secret_def)
  have mem: "prefixed ''asimp_ag_'' 4 token_char \<in> set (credential_patterns @ clipped_credential_patterns)"
    "prefixed ''#v1.'' 8 secret_char \<in> set (credential_patterns @ clipped_credential_patterns)"
    unfolding p by (simp_all add: credential_patterns_def)
  have "\<not> sublist (''asimp_ag_'' @ body) (redact_credentials text)" if "length body = 4" "list_all token_char body" for body
    by (rule redact_removes [OF mem(1) that]) (use that angle in \<open>auto simp: list_all_iff\<close>)
  moreover have "\<not> sublist (''#v1.'' @ body) (redact_credentials text)" if "length body = 8" "list_all secret_char body" for body
    by (rule redact_removes [OF mem(2) that]) (use that angle in \<open>auto simp: list_all_iff\<close>)
  moreover have "sublist (w @ body) (redact_credentials text)"
    if "redact_credentials text = pre @ w @ body @ post" for w pre body post
    unfolding that sublist_def by (intro exI [of _ pre] exI [of _ post]) simp
  ultimately show ?thesis by blast
qed

end
