(* ===== verification/ScreeningLabels.thy ===== *)
theory ScreeningLabels
  imports NeverLog Values
begin

section \<open>Labels a screening report may publish (\<open>screening/aggregate.ts\<close>)\<close>

text \<open>
  The predicates that keep credentials out of a published screening report: identifiers and
  versions, digests, and the free-form names of strata.
\<close>

subsection \<open>Secret shapes, without regard to case\<close>

definition alnum_ci :: rx where "alnum_ci = Cls ascii_alnum"
definition token_ci :: rx where "token_ci = Cls token_char"

definition before_secret :: rx where
  "before_secret = Alt StartOfInput (Cls (\<lambda>c. \<not> ascii_alnum c))"

definition secret_words :: rx where
  "secret_words =
     any_of (map lit_ci [''authorization'', ''bearer'', ''token'', ''secret'', ''password'', ''credential''])"

definition secret_shapes :: "rx list" where
  "secret_shapes =
     [seqs [before_secret, lit_ci ''asimp'', opt (chars ''_-''), lit_ci ''ag'', opt (chars ''_-''),
        at_least 8 alnum_ci],
      seqs [before_secret, lit_ci ''sk'', chars ''-_'',
        any_of (map lit_ci [''live'', ''test'', ''proj'', ''svcacct'']), chars ''-_'', at_least 8 token_ci],
      seqs [before_secret, lit_ci ''sk'', chars ''-_'', at_least 16 token_ci],
      seqs [before_secret, lit_ci ''ya29.'', at_least 8 (Cls (\<lambda>c. token_char c \<or> c = CHR ''.''))],
      seqs [before_secret,
        any_of [Seq (lit_ci ''gh'') (cls_ci (\<lambda>c. c \<in> set ''pousr'')),
          seqs [lit_ci ''github'', opt (chars ''_-''), lit_ci ''pat''],
          Seq (lit_ci ''xox'') (cls_ci (\<lambda>c. c \<in> set ''baprs'')),
          lit_ci ''gocspx'', lit_ci ''aiza'', lit_ci ''npm'', lit_ci ''pypi''],
        opt (chars ''_-''), at_least 8 token_ci],
      seqs [before_secret, any_of (map lit_ci [''akia'', ''asia'', ''agpa'', ''aida'', ''aroa'']),
        exactly 16 alnum_ci],
      seqs [before_secret, lit_ci ''eyj'', at_least 8 token_ci, lit ''.'', at_least 8 token_ci, lit ''.'',
        at_least 8 token_ci],
      seqs [before_secret, secret_words, Star space, chars ''=:'', Star space, at_least 1 (Cls (\<lambda>c. \<not> js_space c))],
      seqs [before_secret, secret_words, at_least 1 space, at_least 16 token_ci,
        Alt EndOfInput (Cls (\<lambda>c. \<not> token_char c))],
      seqs [before_secret, lit_ci ''v1.'', at_least 12 token_ci]]"

definition is_secret_shaped_metadata :: "string \<Rightarrow> bool" where
  "is_secret_shaped_metadata value = list_ex (\<lambda>r. test_rx r value) secret_shapes"

subsection \<open>Entropy\<close>

definition ascii_lower :: "char \<Rightarrow> bool" where
  "ascii_lower c \<longleftrightarrow> ascii_letter c \<and> lower_ascii c = c"

definition is_high_entropy_segment :: "string \<Rightarrow> bool" where
  "is_high_entropy_segment segment =
     (if \<not> (length segment \<ge> 24 \<and> list_all ascii_alnum segment) then False
      else let classes = (if list_ex ascii_lower segment then 1 else 0) +
             (if list_ex (\<lambda>c. ascii_letter c \<and> \<not> ascii_lower c) segment then 1 else 0) +
             (if list_ex ascii_digit segment then 1 else (0 :: nat))
           in if length (remdups segment) < 10 then False
              else classes \<ge> 2 \<or> length segment \<ge> 32)"

text \<open>\<open>split\<close> at runs of separators.\<close>

function split_runs :: "(char \<Rightarrow> bool) \<Rightarrow> string \<Rightarrow> string list" where
  "split_runs P s =
     (case dropWhile (\<lambda>c. \<not> P c) s of
        [] \<Rightarrow> [s]
      | c # rest \<Rightarrow> takeWhile (\<lambda>c. \<not> P c) s # split_runs P (dropWhile P rest))"
  by pat_completeness auto
termination
proof (relation "measure (\<lambda>(P, s). length s)")
  fix P s c rest
  assume "dropWhile (\<lambda>c. \<not> P c) s = c # rest"
  then have "length (c # rest) \<le> length s" by (metis length_dropWhile_le)
  moreover have "length (dropWhile P rest) \<le> length rest" by (rule length_dropWhile_le)
  ultimately show "((P, dropWhile P rest), P, s) \<in> measure (\<lambda>(P, s). length s)" by simp
qed simp

declare split_runs.simps [simp del]

definition is_bare_high_entropy_label :: "string \<Rightarrow> bool" where
  "is_bare_high_entropy_label value =
     list_ex is_high_entropy_segment (split_runs (\<lambda>c. c \<in> set ''._:-/'' \<or> js_space c) value)"

subsection \<open>Labels\<close>

definition label_char :: "char \<Rightarrow> bool" where
  "label_char c \<longleftrightarrow> ascii_alnum c \<or> c \<in> set ''._:-''"

definition is_safe_diagnostic_label :: "string \<Rightarrow> bool" where
  "is_safe_diagnostic_label value \<longleftrightarrow>
     all_chars label_char 1 128 value \<and> \<not> is_secret_shaped_metadata value \<and>
     \<not> is_bare_high_entropy_label value \<and> \<not> contains_credential_shape value"

definition is_sha256_digest :: "string \<Rightarrow> bool" where
  "is_sha256_digest value \<longleftrightarrow>
     take 7 value = ''sha256:'' \<and> all_chars lower_hex 64 64 (drop 7 value)"

definition stratum_char :: "char \<Rightarrow> bool" where
  "stratum_char c \<longleftrightarrow> ascii_alnum c \<or> c \<in> set '' &()/+,-'' \<or> c = CHR 39"

definition stratum_shape :: "string \<Rightarrow> bool" where
  "stratum_shape value \<longleftrightarrow>
     (case value of [] \<Rightarrow> False | c # rest \<Rightarrow> ascii_letter c \<and> all_chars stratum_char 2 95 rest)"

definition safe_stratum_label :: "string \<Rightarrow> bool" where
  "safe_stratum_label value \<longleftrightarrow>
     value = js_trim value \<and> stratum_shape value \<and>
     \<not> test_rx (Alt (at_least 2 (lit '' '')) (lit ''--'')) value \<and>
     \<not> is_secret_shaped_metadata value \<and> \<not> is_bare_high_entropy_label value"

subsection \<open>Short labels\<close>

lemma short_secret_shapes: "list_all (\<lambda>r. 4 \<le> min_length r) secret_shapes"
  by (simp add: secret_shapes_def before_secret_def secret_words_def any_of_def alnum_ci_def token_ci_def)

lemma short_not_secret: "length s \<le> 3 \<Longrightarrow> \<not> is_secret_shaped_metadata s"
proof -
  assume short: "length s \<le> 3"
  have "\<not> test_rx r s" if "r \<in> set secret_shapes" for r
  proof (rule test_rx_short)
    from short_secret_shapes that have "4 \<le> min_length r" unfolding list_all_iff by (rule bspec)
    with short show "length s < min_length r" by simp
  qed
  then show ?thesis unfolding is_secret_shaped_metadata_def list_ex_iff by blast
qed

lemma split_runs_parts: "part \<in> set (split_runs P s) \<Longrightarrow> length part \<le> length s"
proof (induction P s rule: split_runs.induct)
  case (1 P s)
  show ?case
  proof (cases "dropWhile (\<lambda>c. \<not> P c) s")
    case Nil
    with 1(2) show ?thesis by (simp add: split_runs.simps)
  next
    case (Cons c rest)
    with 1(2) have "part = takeWhile (\<lambda>c. \<not> P c) s \<or> part \<in> set (split_runs P (dropWhile P rest))"
      by (subst (asm) split_runs.simps) simp
    moreover have "length (dropWhile P rest) \<le> length s"
    proof -
      have "length (c # rest) \<le> length s" using Cons by (metis length_dropWhile_le)
      then show ?thesis using length_dropWhile_le [of P rest] by simp
    qed
    ultimately show ?thesis using 1(1) [OF Cons] length_takeWhile_le [of "\<lambda>c. \<not> P c" s] by force
  qed
qed

lemma short_not_entropic: "length s \<le> 3 \<Longrightarrow> \<not> is_bare_high_entropy_label s"
  by (auto simp: is_bare_high_entropy_label_def list_ex_iff is_high_entropy_segment_def
      dest!: split_runs_parts split: if_splits)

lemma short_label_safe:
  assumes "1 \<le> length s" "length s \<le> 3" "list_all label_char s"
  shows "is_safe_diagnostic_label s"
  using assms short_not_secret short_not_entropic short_text_unchanged
  by (simp add: is_safe_diagnostic_label_def all_chars_def contains_credential_shape_def)

end
