(* ===== verification/ScreeningLaws.thy ===== *)
theory ScreeningLaws
  imports Screening "HOL-Library.Multiset"
begin

section \<open>What a screening verdict means\<close>

text \<open>
  The facts behind the properties of a screening run: what the acceptance of a corpus and of
  its observations gives, that only the contents of both matter and not their order, and the
  failures of a report read as conditions on the examples.
\<close>

subsection \<open>Complete inputs\<close>

lemma corpus_loop_Inr:
  "distinct (map_keys by_id) \<Longrightarrow> corpus_loop corpus by_id = Inr result \<longleftrightarrow>
     list_all (\<lambda>ex. example_error ex = None) corpus \<and>
     distinct (map_keys by_id @ map example_id corpus) \<and>
     result = by_id @ map (\<lambda>ex. (example_id ex, ex)) corpus"
proof (induction corpus arbitrary: by_id)
  case (Cons ex corpus)
  show ?case
  proof (cases "example_error ex = None \<and> example_id ex \<notin> set (map_keys by_id)")
    case True
    with Cons.prems have d: "distinct (map_keys (by_id @ [(example_id ex, ex)]))" by simp
    have step: "corpus_loop (ex # corpus) by_id = corpus_loop corpus (by_id @ [(example_id ex, ex)])"
      using True by (simp add: map_put_fresh)
    show ?thesis unfolding step Cons.IH [OF d] using True by auto
  qed (auto split: option.split)
qed auto

definition observation_ok :: "(string \<times> corpus_example) list \<Rightarrow> observation \<Rightarrow> bool" where
  "observation_ok corpus ob \<longleftrightarrow> observation_error ob = None \<and> timing_ok ob \<and>
     (\<exists>ex. map_of corpus (observed_id ob) = Some ex \<and> body_digest ex = Some (evaluated_body_digest ob))"

lemma observation_loop_Inr:
  "distinct (map_keys by_id) \<Longrightarrow> observation_loop corpus observations by_id = Inr result \<longleftrightarrow>
     list_all (observation_ok corpus) observations \<and>
     distinct (map_keys by_id @ map observed_id observations) \<and>
     result = by_id @ map (\<lambda>ob. (observed_id ob, ob)) observations"
proof (induction observations arbitrary: by_id)
  case (Cons ob observations)
  show ?case
  proof (cases "observation_ok corpus ob \<and> observed_id ob \<notin> set (map_keys by_id)")
    case True
    with Cons.prems have d: "distinct (map_keys (by_id @ [(observed_id ob, ob)]))" by simp
    have step: "observation_loop corpus (ob # observations) by_id =
        observation_loop corpus observations (by_id @ [(observed_id ob, ob)])"
      using True by (auto simp: map_put_fresh observation_ok_def)
    show ?thesis unfolding step Cons.IH [OF d] using True by auto
  next
    case False
    then have "\<exists>err. observation_loop corpus (ob # observations) by_id = Inl err"
      by (cases "map_of corpus (observed_id ob)") (auto simp: observation_ok_def split: option.split)
    then obtain err where err: "observation_loop corpus (ob # observations) by_id = Inl err" ..
    show ?thesis unfolding err using False by auto
  qed
qed auto

definition pairs_of :: "corpus_example list \<Rightarrow> observation list \<Rightarrow> screened list" where
  "pairs_of corpus observations =
     map (\<lambda>ex. (ex, the (map_of (map (\<lambda>ob. (observed_id ob, ob)) observations) (example_id ex))))
       (sort_key example_id corpus)"

lemma require_complete_Inr:
  "require_complete_inputs corpus observations = Inr pairs \<longleftrightarrow>
     list_all (\<lambda>ex. example_error ex = None) corpus \<and> distinct (map example_id corpus) \<and>
     list_all (observation_ok (map (\<lambda>ex. (example_id ex, ex)) corpus)) observations \<and>
     distinct (map observed_id observations) \<and> length observations = length corpus \<and>
     pairs = pairs_of corpus observations"
proof (cases "corpus_loop corpus []")
  case (Inl err)
  then show ?thesis using corpus_loop_Inr [of "[]" corpus] by (auto simp: require_complete_inputs_def)
next
  case (Inr by_id)
  then have c: "list_all (\<lambda>ex. example_error ex = None) corpus" "distinct (map example_id corpus)"
    "by_id = map (\<lambda>ex. (example_id ex, ex)) corpus"
    by (simp_all add: corpus_loop_Inr)
  show ?thesis
  proof (cases "observation_loop by_id observations []")
    case (Inl err)
    then show ?thesis
      using Inr c observation_loop_Inr [of "[]" by_id observations]
      by (auto simp: require_complete_inputs_def)
  next
    case obs: (Inr obs_by_id)
    then have o: "list_all (observation_ok by_id) observations" "distinct (map observed_id observations)"
      "obs_by_id = map (\<lambda>ob. (observed_id ob, ob)) observations"
      by (simp_all add: observation_loop_Inr)
    have "map snd by_id = corpus" by (simp add: c(3) comp_def)
    with Inr obs c o show ?thesis by (auto simp: require_complete_inputs_def pairs_of_def)
  qed
qed

text \<open>The facts an accepted run gives.\<close>

lemma complete_facts:
  assumes "require_complete_inputs corpus observations = Inr pairs"
  shows "mset (map fst pairs) = mset corpus" and "mset (map snd pairs) = mset observations"
    and "\<forall>(ex, ob) \<in> set pairs. observed_id ob = example_id ex \<and> body_digest ex = Some (evaluated_body_digest ob)"
    and "sorted (map (example_id \<circ> fst) pairs)" and "distinct (map (example_id \<circ> fst) pairs)"
    and "\<forall>ob \<in> set observations. observation_error ob = None \<and> timing_ok ob"
    and "\<forall>ex \<in> set corpus. example_error ex = None"
proof -
  let ?om = "map (\<lambda>ob. (observed_id ob, ob)) observations"
  let ?cm = "map (\<lambda>ex. (example_id ex, ex)) corpus"
  from assms have c: "list_all (\<lambda>ex. example_error ex = None) corpus" "distinct (map example_id corpus)"
    and o: "list_all (observation_ok ?cm) observations" "distinct (map observed_id observations)"
    and len: "length observations = length corpus" and p: "pairs = pairs_of corpus observations"
    by (simp_all add: require_complete_Inr)
  have ex_of: "map_of ?cm (example_id ex) = Some ex" if "ex \<in> set corpus" for ex
    using that c(2) by (simp add: comp_def)
  have ob_of: "map_of ?om (observed_id ob) = Some ob" if "ob \<in> set observations" for ob
    using that o(2) by (simp add: comp_def)
  have matched: "\<exists>ex \<in> set corpus. example_id ex = observed_id ob \<and> body_digest ex = Some (evaluated_body_digest ob)"
    if "ob \<in> set observations" for ob
  proof -
    from o(1) that obtain ex where "map_of ?cm (observed_id ob) = Some ex"
      "body_digest ex = Some (evaluated_body_digest ob)" by (auto simp: list_all_iff observation_ok_def)
    then show ?thesis using map_of_SomeD [of ?cm "observed_id ob" ex] by auto
  qed
  have ids: "set (map observed_id observations) = set (map example_id corpus)"
  proof (rule card_subset_eq)
    have "observed_id ob \<in> set (map example_id corpus)" if "ob \<in> set observations" for ob
      using matched [OF that] by (metis imageI list.set_map)
    then show "set (map observed_id observations) \<subseteq> set (map example_id corpus)" by auto
    show "card (set (map observed_id observations)) = card (set (map example_id corpus))"
      using distinct_card [OF o(2)] distinct_card [OF c(2)] len by simp
  qed simp
  have partner: "\<exists>ob \<in> set observations. map_of ?om (example_id ex) = Some ob \<and> observed_id ob = example_id ex \<and>
      body_digest ex = Some (evaluated_body_digest ob)" if ex: "ex \<in> set corpus" for ex
  proof -
    have "example_id ex \<in> set (map observed_id observations)" unfolding ids using ex by simp
    then obtain ob where ob: "ob \<in> set observations" "observed_id ob = example_id ex" by auto
    from matched [OF ob(1)] obtain ex' where ex': "ex' \<in> set corpus" "example_id ex' = example_id ex"
      "body_digest ex' = Some (evaluated_body_digest ob)" unfolding ob(2) by blast
    have "ex' = ex" using ex_of [OF ex'(1)] ex_of [OF ex] unfolding ex'(2) by simp
    with ex'(3) have "body_digest ex = Some (evaluated_body_digest ob)" by simp
    moreover have "map_of ?om (example_id ex) = Some ob" using ob_of [OF ob(1)] unfolding ob(2) .
    ultimately show ?thesis using ob by blast
  qed
  show "mset (map fst pairs) = mset corpus" by (simp add: p pairs_of_def comp_def)
  have "mset (map snd pairs) = image_mset (\<lambda>k. the (map_of ?om k)) (mset (map example_id corpus))"
    by (simp add: p pairs_of_def comp_def image_mset.compositionality)
  also have "mset (map example_id corpus) = mset (map observed_id observations)"
    using ids o(2) c(2) by (metis set_eq_iff_mset_eq_distinct)
  also have "image_mset (\<lambda>k. the (map_of ?om k)) (mset (map observed_id observations)) =
      mset (map (\<lambda>ob. the (map_of ?om (observed_id ob))) observations)"
    by (simp add: image_mset.compositionality comp_def)
  also have "map (\<lambda>ob. the (map_of ?om (observed_id ob))) observations = observations"
    using ob_of by (intro map_idI) simp
  finally show "mset (map snd pairs) = mset observations" .
  show "\<forall>(ex, ob) \<in> set pairs. observed_id ob = example_id ex \<and> body_digest ex = Some (evaluated_body_digest ob)"
    using partner by (fastforce simp: p pairs_of_def)
  have keys: "map (example_id \<circ> fst) pairs = map example_id (sort_key example_id corpus)"
    by (simp add: p pairs_of_def)
  show "sorted (map (example_id \<circ> fst) pairs)" unfolding keys by simp
  show "distinct (map (example_id \<circ> fst) pairs)"
    unfolding keys using c(2) by (metis distinct_map distinct_sort mset_map mset_sort set_mset_mset set_sort)
  show "\<forall>ob \<in> set observations. observation_error ob = None \<and> timing_ok ob"
    using o(1) by (simp add: list_all_iff observation_ok_def)
  show "\<forall>ex \<in> set corpus. example_error ex = None" using c(1) by (simp add: list_all_iff)
qed

subsection \<open>The order of the inputs\<close>

lemma distinct_mset_map: "mset xs = mset ys \<Longrightarrow> distinct (map f xs) \<longleftrightarrow> distinct (map f ys)"
  by (metis distinct_map mset_eq_imp_distinct_iff set_mset_mset)

lemma keyed_map_of:
  assumes "mset xs = mset ys" and "distinct (map f xs)"
  shows "map_of (map (\<lambda>x. (f x, x)) xs) = map_of (map (\<lambda>x. (f x, x)) ys)"
proof -
  have "distinct (map f ys)" using assms distinct_mset_map by blast
  then have "distinct (map fst (map (\<lambda>x. (f x, x)) xs))" "distinct (map fst (map (\<lambda>x. (f x, x)) ys))"
    using assms(2) by (simp_all add: comp_def)
  moreover have "set (map (\<lambda>x. (f x, x)) xs) = set (map (\<lambda>x. (f x, x)) ys)"
    using mset_eq_setD [OF assms(1)] by simp
  ultimately show ?thesis using map_of_inject_set by blast
qed

lemma sort_key_order:
  assumes "mset xs = mset ys" and "distinct (map f xs)"
  shows "sort_key f xs = sort_key f ys"
  by (rule sort_key_inj_key_eq) (use assms in \<open>simp_all add: distinct_map\<close>)

subsection \<open>The verdict\<close>

lemma singleton_list: "distinct xs \<Longrightarrow> xs = [x] \<longleftrightarrow> set xs = {x}"
proof
  assume d: "distinct xs" and s: "set xs = {x}"
  then have "length xs = 1" using distinct_card [of xs] by simp
  with s show "xs = [x]" by (cases xs) auto
qed simp

lemma singleton_hd: "length xs = 1 \<and> hd xs = x \<longleftrightarrow> xs = [x]"
  by (cases xs) auto

lemma version_mismatch_Nil:
  "version_mismatch (sorted_unique values) expected field = [] \<longleftrightarrow> set values = {expected}"
proof -
  have s: "set (sorted_unique values) = set values" "distinct (sorted_unique values)"
    by (simp_all add: sorted_unique_def)
  have "version_mismatch (sorted_unique values) expected field = [] \<longleftrightarrow>
      length (sorted_unique values) = 1 \<and> hd (sorted_unique values) = expected"
    by (auto simp: version_mismatch_def)
  then show ?thesis unfolding singleton_hd singleton_list [OF s(2)] s(1) .
qed

lemma measured_failures_named:
  "f \<in> set (measured_failures pairs identity th) \<Longrightarrow> f \<notin> set outage_failures"
  by (auto simp: measured_failures_def outage_failures_def version_mismatch_def Let_def split: if_splits)

lemma verdict_Pass:
  "run_verdict (run_failures pairs identity th) (number_of (\<lambda>p. \<not> provider_ok p) pairs) = Pass \<longleftrightarrow>
     measured_failures pairs identity th = [] \<and> list_all provider_ok pairs"
proof -
  have none: "number_of (\<lambda>p. \<not> provider_ok p) pairs = 0 \<longleftrightarrow> list_all provider_ok pairs"
    by (simp add: number_of_def filter_empty_conv list_all_iff)
  have "list_ex (\<lambda>f. f \<notin> set outage_failures) (run_failures pairs identity th) \<longleftrightarrow>
      measured_failures pairs identity th \<noteq> []"
  proof (cases "measured_failures pairs identity th")
    case Nil
    then show ?thesis by (simp add: run_failures_def list_ex_iff)
  next
    case (Cons f fs)
    with measured_failures_named [of f pairs identity th] show ?thesis
      by (simp add: run_failures_def)
  qed
  then show ?thesis using none by (auto simp: run_verdict_def)
qed

lemma measured_answered:
  assumes "list_all provider_ok pairs" and "\<And>p. P p \<Longrightarrow> of_truth t p"
  shows "measured t P pairs = rate (number_of P pairs) (number_of (of_truth t) pairs)"
proof -
  have "filter provider_ok pairs = pairs" using assms(1) by (simp add: filter_id_conv list_all_iff)
  moreover have "filter P (filter (of_truth t) pairs) = filter P pairs"
    using assms(2) by (auto simp: filter_filter intro: filter_cong)
  ultimately show ?thesis by (simp add: measured_def number_of_def Let_def)
qed

lemma exceeds_iff:
  "exceeds_exclusive_max (rate n d) (5 / 100) \<longleftrightarrow> 0 < d \<and> d \<le> 20 * n"
proof (cases "d = 0")
  case False
  have "(5 / 100 :: rat) \<le> of_nat n / of_nat d \<longleftrightarrow> of_nat d \<le> (of_nat (20 * n) :: rat)"
    using False by (simp add: field_simps)
  with False show ?thesis by (simp add: exceeds_exclusive_max_def rate_def del: of_nat_mult)
qed (simp add: exceeds_exclusive_max_def rate_def)

lemma number_of_zero: "number_of P ps = 0 \<longleftrightarrow> list_all (\<lambda>p. \<not> P p) ps"
  by (simp add: number_of_def filter_empty_conv list_all_iff)

lemma rate_numerator_le: "n \<le> d \<Longrightarrow> rate_numerator (rate n d) = n"
  by (simp add: rate_def)

lemma number_of_mono: "(\<And>p. P p \<Longrightarrow> Q p) \<Longrightarrow> number_of P ps \<le> number_of Q ps"
  unfolding number_of_def by (rule length_filter_imp)

lemma sentinel_failures_Nil:
  "sentinel_failures pairs = [] \<longleftrightarrow>
     list_all (\<lambda>p. case sentinel (fst p) of None \<Rightarrow> True | Some k \<Rightarrow> provider_ok p \<longrightarrow>
       sentinel_decision_matches (snd (sentinel_definition k)) (decision (snd p))) pairs"
proof -
  let ?f = "\<lambda>p. case sentinel (fst p) of
         None \<Rightarrow> []
       | Some k \<Rightarrow>
           if \<not> provider_ok p then []
           else if sentinel_decision_matches (snd (sentinel_definition k)) (decision (snd p)) then []
           else [\<lparr>failed_id = example_id (fst p), failed_expected = snd (sentinel_definition k),
                  failed_observed = decision (snd p)\<rparr>]"
  have nil: "sort_key f xs = [] \<longleftrightarrow> xs = []" for f :: "sentinel_failure \<Rightarrow> string" and xs
    by (metis length_0_conv length_sort)
  have each: "?f p = [] \<longleftrightarrow> (case sentinel (fst p) of None \<Rightarrow> True | Some k \<Rightarrow> provider_ok p \<longrightarrow>
       sentinel_decision_matches (snd (sentinel_definition k)) (decision (snd p)))" for p
    by (simp split: option.split)
  have "sentinel_failures pairs = [] \<longleftrightarrow> (\<forall>p \<in> set pairs. ?f p = [])"
    unfolding sentinel_failures_def nil concat_eq_Nil_conv by simp
  then show ?thesis unfolding list_all_iff each .
qed

end
