(* ===== verification/ScreeningVerdict.thy ===== *)
theory ScreeningVerdict
  imports ScreeningLaws
begin

section \<open>The passing verdict and the strata of a screening report\<close>

text \<open>
  What a passing report proves of the run example by example, that the rates of the strata
  and of the policy categories add up to the headline rates, and a small accepted run.
\<close>

subsection \<open>Complete and in any order\<close>

text \<open>
  A run is accepted only when it is complete, and its report is a function of what was
  observed, not of the order of arrival: an accepted run has exactly one observation for
  every corpus example, bound to the digest of the body declared for it, and any reordering
  of the corpus and of the observations gives the same report.
\<close>

theorem complete_run_ignores_order:
  assumes "aggregate_screening_run corpus observations identity th = Inr r"
    and "mset corpus' = mset corpus" and "mset observations' = mset observations"
  shows "aggregate_screening_run corpus' observations' identity th = Inr r \<and>
    (\<exists>pairs. require_complete_inputs corpus observations = Inr pairs \<and>
       mset (map fst pairs) = mset corpus \<and> mset (map snd pairs) = mset observations \<and>
       list_all (\<lambda>(ex, ob). observed_id ob = example_id ex \<and>
         body_digest ex = Some (evaluated_body_digest ob)) pairs)"
proof -
  from assms(1) obtain pairs where p: "require_complete_inputs corpus observations = Inr pairs"
    by (auto simp: aggregate_screening_run_def split: if_splits sum.splits)
  note facts = complete_facts [OF p]
  from p have d: "distinct (map example_id corpus)" "distinct (map observed_id observations)"
    by (simp_all add: require_complete_Inr)
  have cm: "map_of (map (\<lambda>ex. (example_id ex, ex)) corpus) = map_of (map (\<lambda>ex. (example_id ex, ex)) corpus')"
    by (rule keyed_map_of) (use assms(2) d in simp_all)
  have om: "map_of (map (\<lambda>ob. (observed_id ob, ob)) observations) =
      map_of (map (\<lambda>ob. (observed_id ob, ob)) observations')"
    by (rule keyed_map_of) (use assms(3) d in simp_all)
  have sorted: "sort_key example_id corpus = sort_key example_id corpus'"
    by (rule sort_key_order) (use assms(2) d in simp_all)
  have "require_complete_inputs corpus' observations' = Inr pairs"
    using p distinct_mset_map [OF assms(2), of example_id] distinct_mset_map [OF assms(3), of observed_id]
      mset_eq_setD [OF assms(2)] mset_eq_setD [OF assms(3)] mset_eq_length [OF assms(2)]
      mset_eq_length [OF assms(3)]
    unfolding require_complete_Inr pairs_of_def observation_ok_def cm om sorted list_all_iff by simp
  then have "aggregate_screening_run corpus' observations' identity th =
      aggregate_screening_run corpus observations identity th"
    by (simp add: aggregate_screening_run_def p)
  with assms(1) p facts(1-3) show ?thesis by (auto simp: list_all_iff)
qed

subsection \<open>A passing verdict\<close>

lemma exceeds_rate:
  "exceeds_exclusive_max (rate n d) bound \<longleftrightarrow> 0 < d \<and> bound * of_nat d \<le> of_nat n"
  by (cases "d = 0") (simp_all add: exceeds_exclusive_max_def rate_def field_simps)

lemma truth_of_errors:
  "is_false_positive p \<Longrightarrow> of_truth ''legitimate'' p"
  "is_false_negative p \<Longrightarrow> of_truth ''hard-reject'' p"
  "is_quarantine_publish p \<Longrightarrow> of_truth ''quarantine'' p"
  "is_quarantine_over_refusal p \<Longrightarrow> of_truth ''quarantine'' p"
  by (simp_all add: is_false_positive_def is_false_negative_def is_quarantine_publish_def
      is_quarantine_over_refusal_def of_truth_def)

lemma measured_of_answered:
  assumes "list_all provider_ok pairs"
  shows "measured ''legitimate'' is_false_positive pairs =
      rate (number_of is_false_positive pairs) (number_of (of_truth ''legitimate'') pairs)"
    and "measured ''hard-reject'' is_false_negative pairs =
      rate (number_of is_false_negative pairs) (number_of (of_truth ''hard-reject'') pairs)"
    and "measured ''quarantine'' is_quarantine_publish pairs =
      rate (number_of is_quarantine_publish pairs) (number_of (of_truth ''quarantine'') pairs)"
    and "measured ''quarantine'' is_quarantine_over_refusal pairs =
      rate (number_of is_quarantine_over_refusal pairs) (number_of (of_truth ''quarantine'') pairs)"
  by (rule measured_answered [OF assms], erule truth_of_errors)+

lemma numerators_of_answered:
  "rate_numerator (rate (number_of is_false_negative pairs) (number_of (of_truth ''hard-reject'') pairs)) =
     number_of is_false_negative pairs"
  "rate_numerator (rate (number_of is_quarantine_publish pairs) (number_of (of_truth ''quarantine'') pairs)) =
     number_of is_quarantine_publish pairs"
  by (rule rate_numerator_le, rule number_of_mono, erule truth_of_errors)+

lemma unless_Nil: "(if b then [x] else []) = [] \<longleftrightarrow> \<not> b"
  by simp

text \<open>The measured failures of a fully answered run, as conditions on its examples.\<close>

lemma measured_failures_Nil:
  assumes ok: "list_all provider_ok pairs"
  shows "measured_failures pairs identity th = [] \<longleftrightarrow>
    minimum_legitimate th \<le> number_of (of_truth ''legitimate'') pairs \<and>
    minimum_hard_reject th \<le> number_of (of_truth ''hard-reject'') pairs \<and>
    minimum_quarantine th \<le> number_of (of_truth ''quarantine'') pairs \<and>
    list_all (\<lambda>k. minimum_sentinels th k \<le> declared_controls pairs k) sentinel_kinds \<and>
    \<not> exceeds_exclusive_max (rate (number_of is_quarantine_over_refusal pairs)
        (number_of (of_truth ''quarantine'') pairs)) (over_refusal_exclusive_max th) \<and>
    number_of is_quarantine_publish pairs \<le> quarantine_publish_max th \<and>
    \<not> exceeds_exclusive_max (rate (number_of is_false_positive pairs)
        (number_of (of_truth ''legitimate'') pairs)) (legitimate_fp_exclusive_max th) \<and>
    number_of is_false_negative pairs \<le> hard_reject_fn_max th \<and>
    sentinel_failures pairs = [] \<and>
    model_version ` snd ` set pairs = {identity_model identity} \<and>
    policy_version ` snd ` set pairs = {identity_policy identity} \<and>
    configuration_digest ` snd ` set pairs = {identity_configuration identity}"
proof -
  have all: "filter provider_ok pairs = pairs" and none: "number_of (\<lambda>p. \<not> provider_ok p) pairs = 0"
    using ok by (simp_all add: filter_id_conv list_all_iff number_of_def filter_empty_conv)
  have missing: "list_ex (\<lambda>k. declared_controls pairs k < minimum_sentinels th k) sentinel_kinds \<longleftrightarrow>
      \<not> list_all (\<lambda>k. minimum_sentinels th k \<le> declared_controls pairs k) sentinel_kinds"
    by (simp add: list_ex_iff list_all_iff not_le)
  show ?thesis
    unfolding measured_failures_def Let_def measured_of_answered [OF ok] numerators_of_answered
      append_is_Nil_conv unless_Nil missing version_mismatch_Nil all none number_of_def [symmetric]
      list.set_map image_comp [symmetric] length_greater_0_conv
    by (simp add: not_less) blast
qed

lemma aggregate_Inr:
  "aggregate_screening_run corpus observations identity th = Inr r \<longleftrightarrow>
     run_identity_ok identity \<and>
     (\<exists>pairs summaries. require_complete_inputs corpus observations = Inr pairs \<and>
        0 < number_of (of_truth ''legitimate'') pairs \<and> 0 < number_of (of_truth ''hard-reject'') pairs \<and>
        aggregation_pairs pairs = Some summaries \<and> r = report_of pairs identity th summaries)"
  by (auto simp: aggregate_screening_run_def split: sum.split option.split)

text \<open>
  C33. A screening run passes for exactly the right reasons: the report of an accepted run is
  a pass if and only if the provider answered every example, the hard-reject examples that
  were not rejected and the quarantine examples that were published stay within their
  ceilings, the rates of refused legitimate examples and of refused quarantine examples stay
  strictly below their bounds, every sample and every kind of control reaches its minimum,
  every control was decided as it had to be, and every observation came from the model,
  policy and configuration the run declares.
\<close>

theorem passing_verdict:
  assumes "aggregate_screening_run corpus observations identity th = Inr r"
  shows "\<exists>pairs. require_complete_inputs corpus observations = Inr pairs \<and>
    (report_verdict r = Pass \<longleftrightarrow>
      list_all provider_ok pairs \<and>
      number_of is_false_negative pairs \<le> hard_reject_fn_max th \<and>
      number_of is_quarantine_publish pairs \<le> quarantine_publish_max th \<and>
      of_nat (number_of is_false_positive pairs) <
        legitimate_fp_exclusive_max th * of_nat (number_of (of_truth ''legitimate'') pairs) \<and>
      (number_of (of_truth ''quarantine'') pairs = 0 \<or>
       of_nat (number_of is_quarantine_over_refusal pairs) <
         over_refusal_exclusive_max th * of_nat (number_of (of_truth ''quarantine'') pairs)) \<and>
      minimum_legitimate th \<le> number_of (of_truth ''legitimate'') pairs \<and>
      minimum_hard_reject th \<le> number_of (of_truth ''hard-reject'') pairs \<and>
      minimum_quarantine th \<le> number_of (of_truth ''quarantine'') pairs \<and>
      list_all (\<lambda>k. minimum_sentinels th k \<le> declared_controls pairs k) sentinel_kinds \<and>
      list_all (\<lambda>p. case sentinel (fst p) of None \<Rightarrow> True
        | Some k \<Rightarrow> sentinel_decision_matches (snd (sentinel_definition k)) (decision (snd p))) pairs \<and>
      model_version ` snd ` set pairs = {identity_model identity} \<and>
      policy_version ` snd ` set pairs = {identity_policy identity} \<and>
      configuration_digest ` snd ` set pairs = {identity_configuration identity})"
proof -
  from assms obtain pairs summaries where p: "require_complete_inputs corpus observations = Inr pairs"
    and l: "0 < number_of (of_truth ''legitimate'') pairs"
    and r: "r = report_of pairs identity th summaries" by (auto simp: aggregate_Inr)
  have verdict: "report_verdict r = Pass \<longleftrightarrow> list_all provider_ok pairs \<and> measured_failures pairs identity th = []"
    using verdict_Pass [of pairs identity th] by (auto simp: r report_of_def Let_def)
  have controls: "sentinel_failures pairs = [] \<longleftrightarrow> list_all (\<lambda>p. case sentinel (fst p) of None \<Rightarrow> True
      | Some k \<Rightarrow> sentinel_decision_matches (snd (sentinel_definition k)) (decision (snd p))) pairs"
    if "list_all provider_ok pairs"
    using that unfolding sentinel_failures_Nil list_all_iff by (auto split: option.splits)
  show ?thesis
    by (rule exI [of _ pairs], cases "list_all provider_ok pairs")
      (use p l in \<open>auto simp: verdict measured_failures_Nil controls exceeds_rate not_le\<close>)
qed

subsection \<open>A small run\<close>

text \<open>One legitimate and one hard-reject example, both decided as they should be.\<close>

definition screening_digest :: string where
  "screening_digest = ''sha256:'' @ replicate 64 CHR ''a''"

definition sample_example :: "string \<Rightarrow> string \<Rightarrow> string \<Rightarrow> corpus_example" where
  "sample_example i t outcome =
     \<lparr>example_id = i, body_digest = Some screening_digest, source_availability = Some ''available'',
      ground_truth = t, expected_outcome = outcome, policy_category = ''off-topic'', stratum = ''abc'',
      aggregation_pair_id = None, aggregation_member = None, sentinel = None\<rparr>"

definition sample_observation :: "string \<Rightarrow> string \<Rightarrow> observation" where
  "sample_observation i d =
     \<lparr>observed_id = i, evaluated_body_digest = screening_digest, decision = d,
      coarse_category = ''spam-commercial'', category_score_bands = Obj [],
      model_version = ''m'', policy_version = ''p'', configuration_digest = screening_digest,
      provider_status = ''ok'', decision_path = ''provider'', status_code = ''SCREENED'',
      latency_ms = num 5, retry_count = num 0\<rparr>"

definition sample_corpus :: "corpus_example list" where
  "sample_corpus = [sample_example ''b'' ''hard-reject'' ''reject'',
     sample_example ''a'' ''legitimate'' ''pass-or-warning'']"

definition sample_observations :: "observation list" where
  "sample_observations = [sample_observation ''b'' ''reject'', sample_observation ''a'' ''pass'']"

definition sample_run :: run_identity where
  "sample_run = \<lparr>corpus_revision = ''r1'', corpus_digest = screening_digest, identity_model = ''m'',
     identity_policy = ''p'', identity_configuration = screening_digest\<rparr>"

definition sample_thresholds :: thresholds where
  "sample_thresholds = s4_thresholds\<lparr>minimum_legitimate := 1, minimum_hard_reject := 1,
     minimum_sentinels := \<lambda>_. 0\<rparr>"

lemma screening_digest_ok [simp]: "is_sha256_digest screening_digest"
  by (simp add: is_sha256_digest_def screening_digest_def all_chars_def lower_hex_def list_all_iff)

lemma sample_labels [simp]:
  "is_safe_diagnostic_label ''a''" "is_safe_diagnostic_label ''b''" "is_safe_diagnostic_label ''m''"
  "is_safe_diagnostic_label ''p''" "is_safe_diagnostic_label ''r1''"
  by (rule short_label_safe; simp add: label_char_def ascii_alnum_def ascii_letter_def ascii_digit_def)+

lemma sample_stratum [simp]: "safe_stratum_label ''abc''"
proof -
  have "\<not> test_rx (Alt (at_least 2 (lit '' '')) (lit ''--'')) ''abc''"
    by (simp add: test_rx_def lit_def at_least_def eval_nat_numeral)
  moreover have "js_trim ''abc'' = ''abc''" by (simp add: js_trim_def js_space_def)
  moreover have "stratum_shape ''abc''"
    by (simp add: stratum_shape_def all_chars_def stratum_char_def ascii_alnum_def ascii_letter_def)
  ultimately show ?thesis using short_not_secret short_not_entropic by (simp add: safe_stratum_label_def)
qed

lemmas sample_defs = sample_corpus_def sample_observations_def sample_example_def sample_observation_def

lemma sample_pairs:
  "require_complete_inputs sample_corpus sample_observations =
     Inr [(sample_example ''a'' ''legitimate'' ''pass-or-warning'', sample_observation ''a'' ''pass''),
          (sample_example ''b'' ''hard-reject'' ''reject'', sample_observation ''b'' ''reject'')]"
  by (simp add: require_complete_Inr pairs_of_def observation_ok_def example_error_def observation_error_def
      sample_defs expected_outcome_for_def policy_categories_def screening_decisions_def
      provider_statuses_def valid_score_bands_def valid_decision_metadata_def timing_ok_def
      max_provider_latency_ms_def)

lemma sample_run_accepted:
  "\<exists>r. aggregate_screening_run sample_corpus sample_observations sample_run sample_thresholds = Inr r"
  unfolding aggregate_Inr sample_pairs
  by (simp add: run_identity_ok_def sample_run_def number_of_def of_truth_def sample_example_def
      aggregation_pairs_def pair_key_def sorted_groups_def)

lemma complete_run_ignores_order_example:
  "\<exists>r. aggregate_screening_run sample_corpus sample_observations sample_run sample_thresholds = Inr r \<and>
     aggregate_screening_run (rev sample_corpus) (rev sample_observations) sample_run sample_thresholds = Inr r"
proof -
  obtain r where r: "aggregate_screening_run sample_corpus sample_observations sample_run sample_thresholds = Inr r"
    using sample_run_accepted by blast
  show ?thesis using complete_run_ignores_order [OF r mset_rev mset_rev] r by blast
qed

text \<open>The run passes.\<close>

lemma passing_verdict_witness:
  "\<exists>r. aggregate_screening_run sample_corpus sample_observations sample_run sample_thresholds = Inr r \<and>
     report_verdict r = Pass"
proof -
  obtain r where r: "aggregate_screening_run sample_corpus sample_observations sample_run sample_thresholds = Inr r"
    using sample_run_accepted by blast
  have "report_verdict r = Pass"
    using passing_verdict [OF r] unfolding sample_pairs
    by (simp add: number_of_def of_truth_def is_false_negative_def is_quarantine_publish_def
        is_false_positive_def is_public_decision_def provider_ok_def sample_example_def
        sample_observation_def sample_thresholds_def s4_thresholds_def sample_run_def sentinel_kinds_def)
  with r show ?thesis by blast
qed

subsection \<open>Strata\<close>

text \<open>A quantity that adds over lists adds over the groups of a grouping.\<close>

lemma sum_put:
  "distinct (map_keys m) \<Longrightarrow>
     sum_list (map (h \<circ> snd) (map_put k v m)) + (case map_of m k of None \<Rightarrow> 0 | Some g \<Rightarrow> h g) =
     sum_list (map (h \<circ> snd) m) + (h v :: nat)"
proof (induction k v m rule: map_put.induct)
  case (2 k v a b m)
  then show ?case by (auto simp: map_of_None_iff split: option.split)
qed simp

lemma group_by_sum:
  assumes "h [] = 0" and "\<And>xs ys. h (xs @ ys) = h xs + (h ys :: nat)"
  shows "distinct (map_keys groups) \<Longrightarrow>
    sum_list (map (h \<circ> snd) (group_by key xs groups)) = sum_list (map (h \<circ> snd) groups) + h xs"
proof (induction xs arbitrary: groups)
  case (Cons x xs)
  have split: "h (x # xs) = h [x] + h xs" using assms(2) [of "[x]" xs] by simp
  show ?case
  proof (cases "map_of groups (key x)")
    case None
    with Cons sum_put [OF Cons.prems, of h "key x" "[x]"] split show ?thesis by (simp add: comp_def)
  next
    case (Some g)
    with Cons sum_put [OF Cons.prems, of h "key x" "g @ [x]"] split assms(2) [of g "[x]"]
    show ?thesis by (simp add: comp_def)
  qed
qed (use assms in simp)

lemma sorted_groups_sum:
  assumes "h [] = 0" and "\<And>xs ys. h (xs @ ys) = h xs + (h ys :: nat)"
  shows "sum_list (map (h \<circ> snd) (sorted_groups key xs)) = h xs"
proof -
  have "sum_list (map (h \<circ> snd) (sorted_groups key xs)) = sum_list (map (h \<circ> snd) (group_by key xs []))"
    unfolding sorted_groups_def by (metis mset_map mset_sort sum_mset_sum_list)
  then show ?thesis using group_by_sum [OF assms, of "[]" key xs] by simp
qed

definition numerators :: "(confusion_metric \<Rightarrow> rate_metric option) \<Rightarrow> confusion_metric list \<Rightarrow> nat" where
  "numerators selected ms = sum_list (map (\<lambda>m. case selected m of None \<Rightarrow> 0 | Some r \<Rightarrow> rate_numerator r) ms)"

definition denominators :: "(confusion_metric \<Rightarrow> rate_metric option) \<Rightarrow> confusion_metric list \<Rightarrow> nat" where
  "denominators selected ms = sum_list (map (\<lambda>m. case selected m of None \<Rightarrow> 0 | Some r \<Rightarrow> rate_denominator r) ms)"

lemma strata_sum:
  assumes "\<And>grp lbl. selected (metric_for grp lbl) = class_rate P (filter (of_truth t) (filter provider_ok grp))"
  shows "numerators selected (grouped_metrics key pairs) = rate_numerator (measured t P pairs)"
    and "denominators selected (grouped_metrics key pairs) = rate_denominator (measured t P pairs)"
proof -
  let ?n = "\<lambda>xs. number_of P (filter (of_truth t) (filter provider_ok xs))"
  let ?d = "\<lambda>xs. length (filter (of_truth t) (filter provider_ok xs))"
  have n: "(case class_rate P xs of None \<Rightarrow> 0 | Some r \<Rightarrow> rate_numerator r) = number_of P xs"
    and d: "(case class_rate P xs of None \<Rightarrow> 0 | Some r \<Rightarrow> rate_denominator r) = length xs" for xs
    by (cases xs; simp add: class_rate_def rate_def number_of_def)+
  have "numerators selected (grouped_metrics key pairs) =
      sum_list (map (?n \<circ> snd) (sorted_groups (\<lambda>p. key (fst p)) pairs))"
    by (simp add: numerators_def grouped_metrics_def assms n split_def comp_def)
  also have "\<dots> = ?n pairs" by (rule sorted_groups_sum) (simp_all add: number_of_def)
  also have "\<dots> = rate_numerator (measured t P pairs)"
    by (auto simp: measured_def rate_def Let_def number_of_def filter_empty_conv)
  finally show "numerators selected (grouped_metrics key pairs) = rate_numerator (measured t P pairs)" .
  have "denominators selected (grouped_metrics key pairs) =
      sum_list (map (?d \<circ> snd) (sorted_groups (\<lambda>p. key (fst p)) pairs))"
    by (simp add: denominators_def grouped_metrics_def assms d split_def comp_def)
  also have "\<dots> = ?d pairs" by (rule sorted_groups_sum) simp_all
  also have "\<dots> = rate_denominator (measured t P pairs)"
    by (simp add: measured_def rate_def Let_def)
  finally show "denominators selected (grouped_metrics key pairs) = rate_denominator (measured t P pairs)" .
qed

lemma metric_for_rates:
  "false_positive_rate (metric_for grp lbl) =
     class_rate is_false_positive (filter (of_truth ''legitimate'') (filter provider_ok grp))"
  "false_negative_rate (metric_for grp lbl) =
     class_rate is_false_negative (filter (of_truth ''hard-reject'') (filter provider_ok grp))"
  "quarantine_publish_rate (metric_for grp lbl) =
     class_rate is_quarantine_publish (filter (of_truth ''quarantine'') (filter provider_ok grp))"
  "quarantine_over_refusal_rate (metric_for grp lbl) =
     class_rate is_quarantine_over_refusal (filter (of_truth ''quarantine'') (filter provider_ok grp))"
  by (simp_all add: metric_for_def Let_def)

text \<open>
  No breakdown of a report disagrees with its headline: over the strata, and over the
  policy categories, the numerators and the denominators of each of the four rates add up to
  those of the headline rate, whatever groups are absent because no answered example of the
  class falls in them.
\<close>

theorem breakdowns_add_up:
  assumes "aggregate_screening_run corpus observations identity th = Inr r"
    and "ms = by_stratum r \<or> ms = by_policy_category r"
  shows "numerators false_positive_rate ms = rate_numerator (legitimate_fp r) \<and>
    denominators false_positive_rate ms = rate_denominator (legitimate_fp r) \<and>
    numerators false_negative_rate ms = rate_numerator (hard_reject_fn r) \<and>
    denominators false_negative_rate ms = rate_denominator (hard_reject_fn r) \<and>
    numerators quarantine_publish_rate ms = rate_numerator (quarantine_publish r) \<and>
    denominators quarantine_publish_rate ms = rate_denominator (quarantine_publish r) \<and>
    numerators quarantine_over_refusal_rate ms = rate_numerator (quarantine_over_refusal r) \<and>
    denominators quarantine_over_refusal_rate ms = rate_denominator (quarantine_over_refusal r)"
proof -
  from assms(1) obtain pairs summaries where r: "r = report_of pairs identity th summaries"
    by (auto simp: aggregate_Inr)
  obtain key where ms: "ms = grouped_metrics key pairs"
    using assms(2) by (auto simp: r report_of_def Let_def)
  show ?thesis
    unfolding ms
    by (simp add: r report_of_def Let_def strata_sum metric_for_rates del: of_truth_def)
qed

lemma breakdowns_add_up_example:
  "\<exists>r. aggregate_screening_run sample_corpus sample_observations sample_run sample_thresholds = Inr r \<and>
     denominators false_negative_rate (by_stratum r) = rate_denominator (hard_reject_fn r)"
  using sample_run_accepted breakdowns_add_up by blast

end
