(* ===== verification/CanonicalJson.thy ===== *)
theory CanonicalJson
  imports Values
begin

section \<open>Canonical JSON (\<open>packages/contracts/src/canonical-json.ts\<close>)\<close>

text \<open>
  The codec behind every digest of the ledger: keys in code-unit order, no white space,
  everything that is not a JSON value refused. The text of a number that is not an integer
  below \<open>10 ^ 21\<close> is the language's shortest decimal and a parameter. The codec identifies
  exactly the values that differ in the order of keys.
\<close>

subsection \<open>The codec\<close>

definition json_number :: "(rat \<Rightarrow> string) \<Rightarrow> rat \<Rightarrow> string" where
  "json_number fmt q =
     (if of_int \<lfloor>q\<rfloor> = q \<and> \<bar>\<lfloor>q\<rfloor>\<bar> < 10 ^ 21 then show_int \<lfloor>q\<rfloor> else fmt q)"

lemma size_entry: "p \<in> set entries \<Longrightarrow> size (snd p) < size (Obj entries)"
  by (induction entries) auto

lemma size_element: "v \<in> set vs \<Longrightarrow> size v < size (Arr vs)"
  by (induction vs) auto

fun commas :: "string list \<Rightarrow> string" where
  "commas [] = []"
| "commas [t] = t"
| "commas (t # u # ts) = t @ '','' @ commas (u # ts)"

function canonical_json :: "(rat \<Rightarrow> string) \<Rightarrow> js_value \<Rightarrow> string option" where
  "canonical_json fmt Null = Some ''null''"
| "canonical_json fmt (Boolean b) = Some (if b then ''true'' else ''false'')"
| "canonical_json fmt (Str s) = Some (json_string s)"
| "canonical_json fmt (Number x) = (case x of Fin q \<Rightarrow> Some (json_number fmt q) | _ \<Rightarrow> None)"
| "canonical_json fmt (Arr vs) =
     map_option (\<lambda>ts. ''['' @ commas ts @ '']'') (those (map (canonical_json fmt) vs))"
| "canonical_json fmt (Obj entries) =
     map_option (\<lambda>ts. ''{'' @ commas ts @ ''}'')
       (those (map (\<lambda>p. map_option (\<lambda>t. json_string (fst p) @ '':'' @ t) (canonical_json fmt (snd p)))
          (sort_key fst entries)))"
| "canonical_json fmt Undefined = None"
  by pat_completeness auto
termination
  by (relation "measure (\<lambda>(fmt, v). size v)") (auto dest: size_entry size_element simp del: js_value.size)

text \<open>A value without the order of its keys.\<close>

function normal :: "js_value \<Rightarrow> js_value" where
  "normal (Arr vs) = Arr (map normal vs)"
| "normal (Obj entries) = Obj (map (\<lambda>p. (fst p, normal (snd p))) (sort_key fst entries))"
| "normal Null = Null"
| "normal Undefined = Undefined"
| "normal (Boolean b) = Boolean b"
| "normal (Number x) = Number x"
| "normal (Str s) = Str s"
  by pat_completeness auto
termination
  by (relation "measure size") (auto dest: size_entry size_element simp del: js_value.size)

text \<open>Every number is an integer printed in full.\<close>

function exact :: "js_value \<Rightarrow> bool" where
  "exact (Number x) = (case x of Fin q \<Rightarrow> of_int \<lfloor>q\<rfloor> = q \<and> \<bar>\<lfloor>q\<rfloor>\<bar> < 10 ^ 21 | _ \<Rightarrow> False)"
| "exact (Arr vs) = list_all exact vs"
| "exact (Obj entries) = list_all (\<lambda>p. exact (snd p)) entries"
| "exact Null = True"
| "exact Undefined = True"
| "exact (Boolean b) = True"
| "exact (Str s) = True"
  by pat_completeness auto
termination
  by (relation "measure size") (auto dest: size_entry size_element simp del: js_value.size)

subsection \<open>Cancellation\<close>

text \<open>Each text ends where its value ends, so equal texts are read off from the left.\<close>

lemma hex_lower_code: "k < 16 \<Longrightarrow> (of_char (hex_lower k) :: nat) = (if k < 10 then 48 + k else 87 + k)"
  by (simp add: hex_lower_def of_char_of)

lemma hex_lower_inject:
  assumes "m < 16" and "n < 16" and "hex_lower m = hex_lower n"
  shows "m = n"
proof -
  from assms(3) have "(of_char (hex_lower m) :: nat) = of_char (hex_lower n)" by simp
  with assms(1,2) show ?thesis by (simp add: hex_lower_code split: if_splits)
qed

text \<open>The class of a character: copied, escaped by a letter, escaped by its code.\<close>

definition short_escape :: "nat \<Rightarrow> char option" where
  "short_escape n = map_of [(34, CHR 34), (92, CHR 92), (8, CHR ''b''), (9, CHR ''t''), (10, CHR ''n''),
     (12, CHR ''f''), (13, CHR ''r'')] n"

lemma json_char_cases:
  obtains (short) e where "short_escape (of_char c) = Some e" "json_char c = [CHR 92, e]"
  | (hex) "short_escape (of_char c) = None" "(of_char c :: nat) < 32"
      "json_char c = [CHR 92, CHR ''u'', CHR ''0'', CHR ''0'', hex_lower (of_char c div 16), hex_lower (of_char c mod 16)]"
  | (plain) "json_char c = [c]" "c \<noteq> CHR 92" "c \<noteq> CHR 34" "\<not> (of_char c :: nat) < 32"
proof -
  let ?n = "of_char c :: nat"
  have e: "c = char_of ?n" by simp
  consider "?n = 34" | "?n = 92" | "?n = 8" | "?n = 9" | "?n = 10" | "?n = 12" | "?n = 13"
    | "?n \<notin> {34, 92, 8, 9, 10, 12, 13}" "?n < 32" | "?n \<notin> {34, 92, 8, 9, 10, 12, 13}" "\<not> ?n < 32"
    by blast
  then show thesis
  proof cases
    case 8
    then show thesis by (intro hex) (simp_all add: short_escape_def json_char_def Let_def)
  next
    case 9
    then have "c \<noteq> CHR 92" "c \<noteq> CHR 34" by auto
    with 9 show thesis by (intro plain) (simp_all add: json_char_def Let_def)
  qed (rule short; simp add: short_escape_def json_char_def Let_def)+
qed

lemma short_escape_inject: "short_escape m = Some e \<Longrightarrow> short_escape n = Some e \<Longrightarrow> m = n"
  by (auto simp: short_escape_def split: if_splits)

lemma short_escape_not_u: "short_escape m \<noteq> Some CHR ''u''"
  by (simp add: short_escape_def)

lemma json_char_cancel:
  assumes "json_char c @ x = json_char d @ y"
  shows "c = d \<and> x = y"
proof (cases c rule: json_char_cases)
  case (short e)
  with assms short_escape_inject [of "of_char c" e "of_char d"] short_escape_not_u [of "of_char c"] show ?thesis
    by (cases d rule: json_char_cases) auto
next
  case hex
  show ?thesis
  proof (cases d rule: json_char_cases)
    case hex2: hex
    have "(of_char c :: nat) div 16 = of_char d div 16" "(of_char c :: nat) mod 16 = of_char d mod 16"
      using assms hex hex2 by (auto intro!: hex_lower_inject)
    then have "(of_char c :: nat) = of_char d" by (metis div_mult_mod_eq)
    with assms hex hex2 show ?thesis by simp
  qed (use assms hex short_escape_not_u [of "of_char d"] in auto)
next
  case plain
  with assms show ?thesis by (cases d rule: json_char_cases) auto
qed

lemma json_char_opens: "\<exists>b bs. json_char c = b # bs \<and> b \<noteq> CHR 34"
  by (cases c rule: json_char_cases) auto

lemma json_chars_cancel:
  "concat (map json_char s) @ CHR 34 # x = concat (map json_char t) @ CHR 34 # y \<Longrightarrow> s = t \<and> x = y"
proof (induction s arbitrary: t)
  case Nil
  show ?case
  proof (cases t)
    case (Cons d t')
    then show ?thesis using Nil json_char_opens [of d] by auto
  qed (use Nil in simp)
next
  case (Cons c s)
  show ?case
  proof (cases t)
    case Nil
    then show ?thesis using Cons.prems json_char_opens [of c] by auto
  next
    case t: (Cons d t')
    with Cons.prems have "json_char c @ (concat (map json_char s) @ CHR 34 # x) =
        json_char d @ (concat (map json_char t') @ CHR 34 # y)" by simp
    from json_char_cancel [OF this] Cons.IH [of t'] t show ?thesis by simp
  qed
qed

lemma json_string_cancel: "json_string s @ x = json_string t @ y \<Longrightarrow> s = t \<and> x = y"
  using json_chars_cancel [of s x t y] by (simp add: json_string_def)

text \<open>A number ends at a separator.\<close>

definition separated :: "string \<Rightarrow> bool" where
  "separated r \<longleftrightarrow> (case r of [] \<Rightarrow> True | c # _ \<Rightarrow> c \<in> set '',]}'')"

definition number_char :: "char \<Rightarrow> bool" where
  "number_char c \<longleftrightarrow> ascii_digit c \<or> c = CHR ''-''"

lemma show_int_chars: "\<forall>c \<in> set (show_int n). number_char c"
  using show_nat_digits by (auto simp: show_int_def number_char_def)

lemma show_int_number: "\<exists>c cs. show_int n = c # cs \<and> number_char c"
proof -
  have "show_int n \<noteq> []" by (simp add: show_int_def)
  then show ?thesis using show_int_chars [of n] by (cases "show_int n") auto
qed

lemma number_separated: "separated r \<Longrightarrow> takeWhile number_char r = []"
  by (cases r) (auto simp: separated_def number_char_def ascii_digit_def)

lemma read_show_int: "(if hd (show_int n) = CHR ''-'' then - int (read_nat (tl (show_int n))) else int (read_nat (show_int n))) = n"
proof -
  have "hd (show_nat k) \<noteq> CHR ''-''" for k
  proof -
    have "ascii_digit (hd (show_nat k))" using show_nat_digits [of k] by (simp add: list.set_sel)
    then show ?thesis by (auto simp: ascii_digit_def)
  qed
  then show ?thesis by (simp add: show_int_def)
qed

lemma show_int_cancel:
  assumes "show_int m @ x = show_int n @ y" and "separated x" and "separated y"
  shows "m = n \<and> x = y"
proof -
  have tw: "takeWhile number_char (show_int k @ r) = show_int k" if "separated r" for k r
    using show_int_chars number_separated [OF that] by (simp add: takeWhile_append2)
  from assms have "show_int m = show_int n" using tw [of x m] tw [of y n] by simp
  moreover from this have "m = n" by (metis read_show_int)
  ultimately show ?thesis using assms(1) by simp
qed

subsection \<open>Lists of texts\<close>

lemma those_Some: "those xs = Some ys \<longleftrightarrow> xs = map Some ys"
proof (induction xs arbitrary: ys)
  case (Cons x xs)
  then show ?case by (cases x; cases ys) auto
qed auto

lemma commas_Cons: "ts \<noteq> [] \<Longrightarrow> commas (t # ts) = t @ '','' @ commas ts"
  by (cases ts) simp_all

lemma separated_marks [simp]:
  "separated []" "separated (CHR '','' # r)" "separated (CHR '']'' # r)" "separated (CHR ''}'' # r)"
  by (simp_all add: separated_def)

text \<open>Items that can be read off before a separator can be read off from a list of them.\<close>

definition reads :: "('a \<Rightarrow> string) \<Rightarrow> ('a \<Rightarrow> 'b) \<Rightarrow> 'a \<Rightarrow> 'a \<Rightarrow> bool" where
  "reads f g x y \<longleftrightarrow> (\<forall>r r'. separated r \<longrightarrow> separated r' \<longrightarrow> f x @ r = f y @ r' \<longrightarrow> g x = g y \<and> r = r')"

definition opens :: "string \<Rightarrow> bool" where
  "opens t \<longleftrightarrow> (case t of [] \<Rightarrow> False | c # _ \<Rightarrow> c \<notin> set '',]}'')"

lemma opens_not_close: "opens t \<Longrightarrow> z \<in> set '',]}'' \<Longrightarrow> t @ r \<noteq> z # r'"
  by (cases t) (auto simp: opens_def)

lemma commas_opens: "ts \<noteq> [] \<Longrightarrow> \<forall>t \<in> set ts. opens t \<Longrightarrow> opens (commas ts)"
  by (cases ts rule: commas.cases) (auto simp: opens_def split: list.splits)

lemma commas_cancel:
  assumes "z \<in> set '']}''"
  shows "\<forall>x \<in> set xs. \<forall>y \<in> set ys. reads f g x y \<Longrightarrow>
    \<forall>x \<in> set xs \<union> set ys. opens (f x) \<Longrightarrow>
    commas (map f xs) @ z # r = commas (map f ys) @ z # r' \<Longrightarrow> map g xs = map g ys \<and> r = r'"
proof (induction xs arbitrary: ys)
  case Nil
  then show ?case
    using assms commas_opens [of "map f ys"] opens_not_close [of "commas (map f ys)" z "z # r'" r]
    by (cases ys) auto
next
  case (Cons x xs)
  have z: "separated (z # s)" for s using assms by (auto simp: separated_def)
  show ?case
  proof (cases ys)
    case Nil
    then show ?thesis
      using Cons.prems assms commas_opens [of "map f (x # xs)"]
        opens_not_close [of "commas (map f (x # xs))" z "z # r" r'] by auto
  next
    case ys: (Cons y ys')
    define rest where "rest us s = (if us = [] then z # s else CHR '','' # commas (map f us) @ z # s)" for us s
    have body: "commas (map f (u # us)) @ z # s = f u @ rest us s" for u us s
      by (cases us) (simp_all add: rest_def commas_Cons)
    have sep: "separated (rest us s)" for us s using z by (simp add: rest_def)
    have "reads f g x y" using Cons.prems(1) ys by simp
    moreover have "f x @ rest xs r = f y @ rest ys' r'" using Cons.prems(3) unfolding ys body .
    ultimately have first: "g x = g y" and tail: "rest xs r = rest ys' r'"
      using sep unfolding reads_def by blast+
    show ?thesis
    proof (cases "xs = [] \<or> ys' = []")
      case True
      then have "xs = [] \<and> ys' = [] \<and> r = r'" using tail assms by (auto simp: rest_def split: if_splits)
      then show ?thesis using first ys by simp
    next
      case False
      then have "commas (map f xs) @ z # r = commas (map f ys') @ z # r'" using tail by (simp add: rest_def)
      with Cons.IH [of ys'] Cons.prems ys first show ?thesis by simp
    qed
  qed
qed

subsection \<open>The first character tells the kind of a value\<close>

definition kind_of :: "char \<Rightarrow> nat" where
  "kind_of c = (if c = CHR ''n'' then 0 else if c = CHR ''t'' then 1 else if c = CHR ''f'' then 2
     else if c = CHR 34 then 3 else if c = CHR ''['' then 4 else if c = CHR ''{'' then 5 else 6)"

lemma kind_of_marks [simp]:
  "kind_of CHR ''n'' = 0" "kind_of CHR ''t'' = 1" "kind_of CHR ''f'' = 2" "kind_of CHR 34 = 3"
  "kind_of CHR ''['' = 4" "kind_of CHR ''{'' = 5"
  by (simp_all add: kind_of_def)

fun value_kind :: "js_value \<Rightarrow> nat" where
  "value_kind Null = 0"
| "value_kind (Boolean b) = (if b then 1 else 2)"
| "value_kind (Str s) = 3"
| "value_kind (Arr vs) = 4"
| "value_kind (Obj es) = 5"
| "value_kind _ = 6"

lemma number_char_kind: "number_char c \<Longrightarrow> kind_of c = 6 \<and> c \<notin> set '',]}''"
proof -
  assume c: "number_char c"
  have "list_all (\<lambda>x. \<not> number_char x) (CHR 34 # ''ntf[{,]}'')"
    by (simp add: number_char_def ascii_digit_def)
  with c have "c \<notin> set (CHR 34 # ''ntf[{,]}'')" unfolding list_all_iff by blast
  then show ?thesis by (simp add: kind_of_def)
qed

lemma exact_number:
  assumes "exact (Number x)"
  shows "\<exists>n. x = num n \<and> canonical_json fmt (Number x) = Some (show_int n)"
proof (cases x)
  case (Fin q)
  with assms have q: "of_int \<lfloor>q\<rfloor> = q" "\<bar>\<lfloor>q\<rfloor>\<bar> < 10 ^ 21" by (simp_all only: exact.simps jsnum.case)
  then have "json_number fmt q = show_int \<lfloor>q\<rfloor>" by (simp only: json_number_def simp_thms if_True)
  then show ?thesis unfolding Fin using q(1) by (intro exI [of _ "\<lfloor>q\<rfloor>"]) (simp only: canonical_json.simps jsnum.case simp_thms)
qed (use assms in simp_all)

lemma text_kind:
  assumes "canonical_json fmt v = Some t" and "exact v"
  shows "\<exists>c cs. t = c # cs \<and> kind_of c = value_kind v \<and> c \<notin> set '',]}''"
proof (cases v)
  case (Number x)
  then obtain n where "t = show_int n" using assms exact_number [of x fmt] by auto
  moreover obtain c cs where "show_int n = c # cs" "number_char c" using show_int_number by blast
  ultimately show ?thesis using number_char_kind [of c] unfolding Number by simp
next
  case (Boolean b)
  with assms have "t = (if b then ''true'' else ''false'')" by simp
  then show ?thesis unfolding Boolean by (cases b) simp_all
next
  case (Str s)
  with assms have "t = CHR 34 # concat (map json_char s) @ [CHR 34]" by (simp add: json_string_def)
  then show ?thesis unfolding Str by simp
next
  case (Arr vs)
  with assms obtain ts where "t = ''['' @ commas ts @ '']''" by auto
  then show ?thesis unfolding Arr by simp
next
  case (Obj es)
  with assms obtain ts where "t = ''{'' @ commas ts @ ''}''" by auto
  then show ?thesis unfolding Obj by simp
next
  case Null
  with assms have "t = ''null''" by simp
  then show ?thesis unfolding Null by simp
qed (use assms in simp_all)

lemma text_opens: "canonical_json fmt v = Some t \<Longrightarrow> exact v \<Longrightarrow> opens t"
  using text_kind [of fmt v t] by (auto simp: opens_def)

lemma json_string_opens: "opens (json_string k @ r)"
  by (simp add: opens_def json_string_def)

subsection \<open>Equal texts, equal values\<close>

definition entry_text :: "(rat \<Rightarrow> string) \<Rightarrow> string \<times> js_value \<Rightarrow> string" where
  "entry_text fmt p = json_string (fst p) @ '':'' @ the (canonical_json fmt (snd p))"

lemma canonical_array:
  "canonical_json fmt (Arr vs) = Some t \<Longrightarrow>
     (\<forall>v \<in> set vs. canonical_json fmt v \<noteq> None) \<and>
     t = ''['' @ commas (map (\<lambda>v. the (canonical_json fmt v)) vs) @ '']''"
proof -
  assume "canonical_json fmt (Arr vs) = Some t"
  then obtain ts where "map (canonical_json fmt) vs = map Some ts" "t = ''['' @ commas ts @ '']''"
    by (auto simp: those_Some)
  moreover from this(1) have "ts = map (\<lambda>v. the (canonical_json fmt v)) vs"
    by (induction vs arbitrary: ts) (auto simp: Cons_eq_map_conv)
  moreover from calculation(1) have "\<forall>v \<in> set vs. canonical_json fmt v \<noteq> None"
    by (induction vs arbitrary: ts) (auto simp: Cons_eq_map_conv)
  ultimately show ?thesis by simp
qed

lemma canonical_object:
  "canonical_json fmt (Obj es) = Some t \<Longrightarrow>
     (\<forall>p \<in> set es. canonical_json fmt (snd p) \<noteq> None) \<and>
     t = ''{'' @ commas (map (entry_text fmt) (sort_key fst es)) @ ''}''"
proof -
  let ?f = "\<lambda>p. map_option (\<lambda>t. json_string (fst p) @ '':'' @ t) (canonical_json fmt (snd p))"
  assume "canonical_json fmt (Obj es) = Some t"
  then obtain ts where ts: "map ?f (sort_key fst es) = map Some ts" "t = ''{'' @ commas ts @ ''}''"
    by (auto simp: those_Some)
  have all: "map ?f ps = map Some ts \<Longrightarrow>
      ts = map (entry_text fmt) ps \<and> (\<forall>p \<in> set ps. canonical_json fmt (snd p) \<noteq> None)" for ps
    by (induction ps arbitrary: ts) (auto simp: Cons_eq_map_conv entry_text_def)
  from all [OF ts(1)] ts(2) show ?thesis by simp
qed

definition cancels :: "(rat \<Rightarrow> string) \<Rightarrow> js_value \<Rightarrow> bool" where
  "cancels fmt v \<longleftrightarrow> (\<forall>w. canonical_json fmt v \<noteq> None \<longrightarrow> canonical_json fmt w \<noteq> None \<longrightarrow> exact v \<longrightarrow> exact w \<longrightarrow>
     reads (\<lambda>v. the (canonical_json fmt v)) normal v w)"

lemma entry_reads:
  assumes "cancels fmt (snd p)" "canonical_json fmt (snd p) \<noteq> None" "canonical_json fmt (snd q) \<noteq> None"
    "exact (snd p)" "exact (snd q)"
  shows "reads (entry_text fmt) (\<lambda>p. (fst p, normal (snd p))) p q"
  unfolding reads_def
proof (intro allI impI)
  fix r r'
  assume sep: "separated r" "separated r'" and eq: "entry_text fmt p @ r = entry_text fmt q @ r'"
  from eq have "fst p = fst q"
    "the (canonical_json fmt (snd p)) @ r = the (canonical_json fmt (snd q)) @ r'"
    by (auto simp: entry_text_def dest!: json_string_cancel)
  with assms sep show "(fst p, normal (snd p)) = (fst q, normal (snd q)) \<and> r = r'"
    unfolding cancels_def reads_def by blast
qed

lemma value_kind_cases:
  assumes "value_kind v = value_kind w" and "exact v" and "exact w"
  obtains "v = Null" "w = Null" | b where "v = Boolean b" "w = Boolean b"
  | s t where "v = Str s" "w = Str t" | vs ws where "v = Arr vs" "w = Arr ws"
  | es fs where "v = Obj es" "w = Obj fs" | x y where "v = Number x" "w = Number y"
  | "v = Undefined \<or> w = Undefined"
  using assms by (cases v; cases w) (auto split: if_splits)

lemma canonical_cancels: "cancels fmt v"
proof (induction v rule: measure_induct_rule [of size])
  case (less v)
  show ?case
    unfolding cancels_def reads_def
  proof (intro allI impI)
    fix w r r'
    assume def: "canonical_json fmt v \<noteq> None" "canonical_json fmt w \<noteq> None" and ex: "exact v" "exact w"
      and sep: "separated r" "separated r'"
      and eq: "the (canonical_json fmt v) @ r = the (canonical_json fmt w) @ r'"
    obtain a b where ab: "canonical_json fmt v = Some a" "canonical_json fmt w = Some b" using def by blast
    with eq have eq: "a @ r = b @ r'" by simp
    from text_kind [OF ab(1) ex(1)] text_kind [OF ab(2) ex(2)] eq
    have "value_kind v = value_kind w" by auto
    then show "normal v = normal w \<and> r = r'"
    proof (cases rule: value_kind_cases [OF _ ex, consumes 1])
      case (4 vs ws)
      let ?f = "\<lambda>v. the (canonical_json fmt v)"
      from canonical_array ab 4 have vs: "\<forall>v \<in> set vs. canonical_json fmt v \<noteq> None" "a = ''['' @ commas (map ?f vs) @ '']''"
        and ws: "\<forall>v \<in> set ws. canonical_json fmt v \<noteq> None" "b = ''['' @ commas (map ?f ws) @ '']''" by blast+
      have exs: "\<forall>v \<in> set vs. exact v" "\<forall>v \<in> set ws. exact v" using ex 4 by (simp_all add: list_all_iff)
      have "\<forall>x \<in> set vs. \<forall>y \<in> set ws. reads ?f normal x y"
      proof (intro ballI)
        fix x y assume "x \<in> set vs" "y \<in> set ws"
        with less.IH [of x] size_element [of x vs] vs(1) ws(1) exs 4 show "reads ?f normal x y"
          unfolding cancels_def by blast
      qed
      moreover have "\<forall>x \<in> set vs \<union> set ws. opens (?f x)"
        using vs(1) ws(1) exs by (auto intro!: text_opens)
      moreover have "commas (map ?f vs) @ CHR '']'' # r = commas (map ?f ws) @ CHR '']'' # r'"
        using eq vs(2) ws(2) by simp
      ultimately have "map normal vs = map normal ws \<and> r = r'" by (intro commas_cancel) auto
      then show ?thesis unfolding 4 by simp
    next
      case (5 es fs)
      let ?g = "\<lambda>p. (fst p, normal (snd p))"
      from canonical_object ab 5 have es: "\<forall>p \<in> set es. canonical_json fmt (snd p) \<noteq> None"
          "a = ''{'' @ commas (map (entry_text fmt) (sort_key fst es)) @ ''}''"
        and fs: "\<forall>p \<in> set fs. canonical_json fmt (snd p) \<noteq> None"
          "b = ''{'' @ commas (map (entry_text fmt) (sort_key fst fs)) @ ''}''" by blast+
      have exs: "\<forall>p \<in> set es. exact (snd p)" "\<forall>p \<in> set fs. exact (snd p)" using ex 5 by (simp_all add: list_all_iff)
      have "\<forall>p \<in> set (sort_key fst es). \<forall>q \<in> set (sort_key fst fs). reads (entry_text fmt) ?g p q"
      proof (intro ballI)
        fix p q assume "p \<in> set (sort_key fst es)" "q \<in> set (sort_key fst fs)"
        with less.IH [of "snd p"] size_entry [of p es] es(1) fs(1) exs 5 show "reads (entry_text fmt) ?g p q"
          by (intro entry_reads) auto
      qed
      moreover have "\<forall>p \<in> set (sort_key fst es) \<union> set (sort_key fst fs). opens (entry_text fmt p)"
        by (simp add: entry_text_def json_string_opens)
      moreover have "commas (map (entry_text fmt) (sort_key fst es)) @ CHR ''}'' # r =
          commas (map (entry_text fmt) (sort_key fst fs)) @ CHR ''}'' # r'"
        using eq es(2) fs(2) by simp
      ultimately have "map ?g (sort_key fst es) = map ?g (sort_key fst fs) \<and> r = r'"
        by (intro commas_cancel) auto
      then show ?thesis unfolding 5 by simp
    next
      case (6 x y)
      obtain m n where mn: "x = num m" "y = num n" "a = show_int m" "b = show_int n"
        using exact_number [of x fmt] exact_number [of y fmt] ex ab 6 by auto
      from eq sep show_int_cancel [of m r n r'] show ?thesis unfolding 6 mn by simp
    next
      case (3 s t)
      with eq ab json_string_cancel [of s r t r'] show ?thesis by simp
    qed (use eq ab in auto)
  qed
qed

lemma canonical_normal: "canonical_json fmt (normal v) = canonical_json fmt v"
proof (induction v rule: measure_induct_rule [of size])
  case (less v)
  show ?case
  proof (cases v)
    case (Arr vs)
    have "map (canonical_json fmt) (map normal vs) = map (canonical_json fmt) vs"
      using less.IH size_element Arr by simp
    then show ?thesis unfolding Arr by (simp only: normal.simps canonical_json.simps)
  next
    case (Obj es)
    let ?g = "\<lambda>p. (fst p, normal (snd p))"
    have "sort_key fst (map ?g (sort_key fst es)) = map ?g (sort_key fst es)"
      by (intro sort_key_id_if_sorted) (simp add: comp_def)
    moreover have "map (\<lambda>p. map_option (\<lambda>t. json_string (fst p) @ '':'' @ t) (canonical_json fmt (snd p)))
          (map ?g (sort_key fst es)) =
        map (\<lambda>p. map_option (\<lambda>t. json_string (fst p) @ '':'' @ t) (canonical_json fmt (snd p))) (sort_key fst es)"
      using less.IH size_entry Obj by simp
    ultimately show ?thesis unfolding Obj by (simp only: normal.simps canonical_json.simps)
  qed simp_all
qed



end
