(* ===== verification/JsonParse.thy ===== *)
theory JsonParse
  imports CanonicalJson
begin

section \<open>Reading JSON (\<open>JSON.parse\<close>)\<close>

text \<open>
  The language's JSON reader on texts of code units below 256: a recursive descent over the
  rest of the text. Numbers are read exactly; a numeral beyond the precision of a double,
  which the source never accepts as a sequence or version, keeps its exact value here, and
  an escape of a code unit above 255 is outside the model. Reading a canonical text gives
  back the value, and the fuel of the reader is enough for every text.
\<close>

subsection \<open>Tokens\<close>

definition json_space :: "char \<Rightarrow> bool" where
  "json_space c \<longleftrightarrow> (of_char c :: nat) \<in> {9, 10, 13, 32}"

definition skip_ws :: "string \<Rightarrow> string" where
  "skip_ws s = dropWhile json_space s"

definition starts :: "char \<Rightarrow> string \<Rightarrow> bool" where
  "starts c s \<longleftrightarrow> s \<noteq> [] \<and> hd s = c"

definition hex_digit_value :: "char \<Rightarrow> nat option" where
  "hex_digit_value c =
     (let n = (of_char c :: nat) in
      if 48 \<le> n \<and> n \<le> 57 then Some (n - 48)
      else if 97 \<le> n \<and> n \<le> 102 then Some (n - 87)
      else if 65 \<le> n \<and> n \<le> 70 then Some (n - 55) else None)"

definition hex4 :: "char \<Rightarrow> char \<Rightarrow> char \<Rightarrow> char \<Rightarrow> nat option" where
  "hex4 a b c d =
     (case (hex_digit_value a, hex_digit_value b, hex_digit_value c, hex_digit_value d) of
        (Some i, Some j, Some k, Some l) \<Rightarrow> Some (((i * 16 + j) * 16 + k) * 16 + l)
      | _ \<Rightarrow> None)"

definition unescape :: "char \<Rightarrow> char option" where
  "unescape c = map_of [(CHR 34, CHR 34), (CHR 92, CHR 92), (CHR ''/'', CHR ''/''), (CHR ''b'', CHR 8),
     (CHR ''f'', CHR 12), (CHR ''n'', CHR 10), (CHR ''r'', CHR 13), (CHR ''t'', CHR 9)] c"

text \<open>The rest of a string after its opening quote.\<close>

fun string_body :: "string \<Rightarrow> (string \<times> string) option" where
  "string_body [] = None"
| "string_body (c # s) =
     (if c = CHR 34 then Some ([], s)
      else if c = CHR 92 then
        (case s of
           [] \<Rightarrow> None
         | e # s' \<Rightarrow>
             if e = CHR ''u'' then
               (case s' of
                  h1 # h2 # h3 # h4 # s'' \<Rightarrow>
                    (case hex4 h1 h2 h3 h4 of
                       None \<Rightarrow> None
                     | Some n \<Rightarrow> if n < 256 then map_option (\<lambda>(t, r). (char_of n # t, r)) (string_body s'') else None)
                | _ \<Rightarrow> None)
             else (case unescape e of
                None \<Rightarrow> None
              | Some d \<Rightarrow> map_option (\<lambda>(t, r). (d # t, r)) (string_body s')))
      else if (of_char c :: nat) < 32 then None
      else map_option (\<lambda>(t, r). (c # t, r)) (string_body s))"

definition digits_of :: "string \<Rightarrow> string \<times> string" where
  "digits_of s = (takeWhile ascii_digit s, dropWhile ascii_digit s)"

text \<open>The optional fraction and exponent: a scaled value and the rest, or a refusal.\<close>

definition fraction_part :: "string \<Rightarrow> (rat \<times> string) option" where
  "fraction_part s =
     (case s of
        c # s' \<Rightarrow>
          if c = CHR ''.'' then
            (let (ds, r) = digits_of s'
             in if ds = [] then None else Some (of_nat (read_nat ds) / 10 ^ length ds, r))
          else Some (0, s)
      | [] \<Rightarrow> Some (0, s))"

definition exponent_part :: "string \<Rightarrow> (rat \<times> string) option" where
  "exponent_part s =
     (case s of
        c # s' \<Rightarrow>
          if c = CHR ''e'' \<or> c = CHR ''E'' then
            (let neg = (s' \<noteq> [] \<and> hd s' = CHR ''-'');
                 t = (if s' \<noteq> [] \<and> (hd s' = CHR ''-'' \<or> hd s' = CHR ''+'') then tl s' else s');
                 (ds, r) = digits_of t
             in if ds = [] then None
                else Some (if neg then 1 / 10 ^ read_nat ds else 10 ^ read_nat ds, r))
          else Some (1, s)
      | [] \<Rightarrow> Some (1, s))"

definition json_numeral :: "string \<Rightarrow> (rat \<times> string) option" where
  "json_numeral s =
     (let neg = (s \<noteq> [] \<and> hd s = CHR ''-'');
          (ds, r) = digits_of (if neg then tl s else s)
      in if ds = [] \<or> (hd ds = CHR ''0'' \<and> length ds > 1) then None
         else case fraction_part r of
           None \<Rightarrow> None
         | Some (f, r1) \<Rightarrow>
             (case exponent_part r1 of
                None \<Rightarrow> None
              | Some (e, r2) \<Rightarrow>
                  Some ((if neg then - 1 else 1) * (of_nat (read_nat ds) + f) * e, r2)))"

definition literal_at :: "string \<Rightarrow> string \<Rightarrow> string option" where
  "literal_at w s = (if take (length w) s = w then Some (drop (length w) s) else None)"

subsection \<open>Values\<close>

text \<open>A later member replaces the value of an earlier one of the same name.\<close>

definition object_of :: "(string \<times> js_value) list \<Rightarrow> (string \<times> js_value) list" where
  "object_of members = foldl (\<lambda>m (k, v). map_put k v m) [] members"

fun json_value :: "nat \<Rightarrow> string \<Rightarrow> (js_value \<times> string) option"
  and json_elements :: "nat \<Rightarrow> string \<Rightarrow> (js_value list \<times> string) option"
  and json_members :: "nat \<Rightarrow> string \<Rightarrow> ((string \<times> js_value) list \<times> string) option" where
  "json_value 0 s = None"
| "json_value (Suc n) s =
     (case skip_ws s of
        [] \<Rightarrow> None
      | c # r \<Rightarrow>
          if c = CHR 34 then map_option (\<lambda>(t, r'). (Str t, r')) (string_body r)
          else if c = CHR ''['' then
            (if starts (CHR '']'') (skip_ws r) then Some (Arr [], tl (skip_ws r))
             else map_option (\<lambda>(vs, r'). (Arr vs, r')) (json_elements n r))
          else if c = CHR ''{'' then
            (if starts (CHR ''}'') (skip_ws r) then Some (Obj [], tl (skip_ws r))
             else map_option (\<lambda>(ms, r'). (Obj (object_of ms), r')) (json_members n r))
          else if c = CHR ''t'' then map_option (\<lambda>r'. (Boolean True, r')) (literal_at ''true'' (c # r))
          else if c = CHR ''f'' then map_option (\<lambda>r'. (Boolean False, r')) (literal_at ''false'' (c # r))
          else if c = CHR ''n'' then map_option (\<lambda>r'. (Null, r')) (literal_at ''null'' (c # r))
          else map_option (\<lambda>(q, r'). (Number (Fin q), r')) (json_numeral (c # r)))"
| "json_elements 0 s = None"
| "json_elements (Suc n) s =
     (case json_value n s of
        None \<Rightarrow> None
      | Some (v, r) \<Rightarrow>
          (case skip_ws r of
             [] \<Rightarrow> None
           | c # r' \<Rightarrow>
               if c = CHR '','' then map_option (\<lambda>(vs, t). (v # vs, t)) (json_elements n r')
               else if c = CHR '']'' then Some ([v], r') else None))"
| "json_members 0 s = None"
| "json_members (Suc n) s =
     (case skip_ws s of
        [] \<Rightarrow> None
      | q # r \<Rightarrow>
          if q \<noteq> CHR 34 then None
          else case string_body r of
            None \<Rightarrow> None
          | Some (k, r1) \<Rightarrow>
              (case skip_ws r1 of
                 [] \<Rightarrow> None
               | c # r2 \<Rightarrow>
                   if c \<noteq> CHR '':'' then None
                   else case json_value n r2 of
                     None \<Rightarrow> None
                   | Some (v, r3) \<Rightarrow>
                       (case skip_ws r3 of
                          [] \<Rightarrow> None
                        | d # r4 \<Rightarrow>
                            if d = CHR '','' then map_option (\<lambda>(ms, t). ((k, v) # ms, t)) (json_members n r4)
                            else if d = CHR ''}'' then Some ([(k, v)], r4) else None)))"

definition json_parse :: "string \<Rightarrow> js_value option" where
  "json_parse s =
     (case json_value (2 * length s + 2) s of
        None \<Rightarrow> None
      | Some (v, r) \<Rightarrow> if skip_ws r = [] then Some v else None)"

declare json_value.simps(2) [simp del] json_elements.simps(2) [simp del] json_members.simps(2) [simp del]

subsection \<open>The fuel is enough\<close>

text \<open>Every token is shorter than what it is read from.\<close>

lemma skip_ws_length: "length (skip_ws s) \<le> length s"
  by (simp add: skip_ws_def length_dropWhile_le)

lemma string_body_length: "string_body s = Some (t, r) \<Longrightarrow> length r < length s"
proof (induction s arbitrary: t rule: string_body.induct)
  case (2 c s)
  then show ?case
    by (auto simp: less_Suc_eq_le split: if_splits option.splits list.splits intro: less_imp_le) force+
qed simp

lemma digits_of_length: "digits_of s = (ds, r) \<Longrightarrow> length s = length ds + length r"
  by (auto simp: digits_of_def simp flip: length_append)

lemma fraction_part_length: "fraction_part s = Some (q, r) \<Longrightarrow> length r \<le> length s"
  by (auto simp: fraction_part_def digits_of_def Let_def intro: le_trans [OF length_dropWhile_le] le_SucI
      split: list.splits if_splits)

lemma exponent_part_length: "exponent_part s = Some (q, r) \<Longrightarrow> length r \<le> length s"
proof -
  have "length (dropWhile ascii_digit (tl u)) \<le> Suc (length u)" "length (dropWhile ascii_digit u) \<le> Suc (length u)" for u
    using length_dropWhile_le [of ascii_digit "tl u"] length_dropWhile_le [of ascii_digit u] by auto
  then show "exponent_part s = Some (q, r) \<Longrightarrow> length r \<le> length s"
    by (cases s) (auto simp: exponent_part_def digits_of_def Let_def split: if_splits)
qed

lemma json_numeral_length:
  assumes "json_numeral s = Some (q, r)"
  shows "length r < length s"
proof -
  let ?u = "if s \<noteq> [] \<and> hd s = CHR ''-'' then tl s else s"
  obtain ds r0 where d: "digits_of ?u = (ds, r0)" by (cases "digits_of ?u") auto
  from assms obtain f r1 e where "ds \<noteq> []" "fraction_part r0 = Some (f, r1)" "exponent_part r1 = Some (e, r)"
    unfolding json_numeral_def Let_def d by (auto split: if_splits option.splits)
  moreover from this have "length r \<le> length r0"
    using fraction_part_length exponent_part_length le_trans by blast
  moreover have "length ?u \<le> length s" by simp
  ultimately show ?thesis using digits_of_length [OF d] by (cases ds) auto
qed

lemma literal_length: "literal_at w s = Some r \<Longrightarrow> w \<noteq> [] \<Longrightarrow> length r < length s"
  by (cases w; cases s) (auto simp: literal_at_def split: if_splits)

lemma json_value_cases:
  assumes "json_value n s = Some (v, r)"
  obtains k c u where "n = Suc k" "skip_ws s = c # u" "length u < length s"
    "length r \<le> length u \<or> (\<exists>vs. json_elements k u = Some (vs, r)) \<or> (\<exists>ms. json_members k u = Some (ms, r))"
proof (cases n)
  case (Suc k)
  show thesis
  proof (cases "skip_ws s")
    case Nil
    with assms Suc show thesis by (simp add: json_value.simps)
  next
    case (Cons c u)
    then have "length u < length s" using skip_ws_length [of s] by simp
    moreover have "length r \<le> length u \<or> (\<exists>vs. json_elements k u = Some (vs, r)) \<or> (\<exists>ms. json_members k u = Some (ms, r))"
      using assms Suc Cons skip_ws_length [of u] literal_length [of _ "c # u" r] json_numeral_length [of "c # u" _ r]
        string_body_length [of u _ r]
      by (auto simp: json_value.simps starts_def less_Suc_eq_le split: if_splits) (force+)?
    ultimately show thesis using that Suc Cons by blast
  qed
qed (use assms in simp)

lemma json_elements_cases:
  assumes "json_elements n s = Some (vs, r)"
  obtains k v u c u' where "n = Suc k" "json_value k s = Some (v, u)" "skip_ws u = c # u'"
    "r = u' \<or> (\<exists>ws. json_elements k u' = Some (ws, r))"
  using assms by (cases n) (auto simp: json_elements.simps split: option.splits list.splits if_splits)

lemma json_members_cases:
  assumes "json_members n s = Some (ms, r)"
  obtains k q t key u u' v w c w' where "n = Suc k" "skip_ws s = q # t" "string_body t = Some (key, u)"
    "skip_ws u = CHR '':'' # u'" "json_value k u' = Some (v, w)" "skip_ws w = c # w'"
    "r = w' \<or> (\<exists>ws. json_members k w' = Some (ws, r))"
  using assms by (cases n) (auto simp: json_members.simps split: option.splits list.splits if_splits)

lemma skip_ws_Cons: "skip_ws s = c # u \<Longrightarrow> length u < length s"
  using skip_ws_length [of s] by simp

lemma json_consumes:
  "(\<forall>s v r. json_value n s = Some (v, r) \<longrightarrow> length r < length s) \<and>
   (\<forall>s vs r. json_elements n s = Some (vs, r) \<longrightarrow> length r < length s) \<and>
   (\<forall>s ms r. json_members n s = Some (ms, r) \<longrightarrow> length r < length s)"
proof (induction n)
  case (Suc n)
  have v: "length r < length s" if "json_value (Suc n) s = Some (v, r)" for s v r
    using that
  proof (cases rule: json_value_cases)
    case (1 k c u)
    from 1(4) show ?thesis
    proof (elim disjE exE)
      fix vs assume "json_elements k u = Some (vs, r)"
      then have "length r < length u" using Suc 1(1) by blast
      with 1(3) show ?thesis by simp
    next
      fix ms assume "json_members k u = Some (ms, r)"
      then have "length r < length u" using Suc 1(1) by blast
      with 1(3) show ?thesis by simp
    qed (use 1(3) in simp)
  qed
  have e: "length r < length s" if "json_elements (Suc n) s = Some (vs, r)" for s vs r
    using that
  proof (cases rule: json_elements_cases)
    case (1 k v u c u')
    have u: "length u < length s" using Suc 1(1,2) by blast
    from 1(4) show ?thesis
    proof (elim disjE exE)
      fix ws assume "json_elements k u' = Some (ws, r)"
      then have "length r < length u'" using Suc 1(1) by blast
      with u skip_ws_Cons [OF 1(3)] show ?thesis by simp
    qed (use u skip_ws_Cons [OF 1(3)] in simp)
  qed
  have m: "length r < length s" if "json_members (Suc n) s = Some (ms, r)" for s ms r
    using that
  proof (cases rule: json_members_cases)
    case (1 k q t key u u' v w c w')
    have lens: "length t < length s" "length u < length t" "length u' < length u" "length w < length u'" "length w' < length w"
      using skip_ws_Cons [OF 1(2)] string_body_length [OF 1(3)] skip_ws_Cons [OF 1(4)] Suc 1(1,5) skip_ws_Cons [OF 1(6)]
      by blast+
    from 1(7) show ?thesis
    proof (elim disjE exE)
      fix ws assume "json_members k w' = Some (ws, r)"
      then have "length r < length w'" using Suc 1(1) by blast
      with lens show ?thesis by simp
    qed (use lens in simp)
  qed
  from v e m show ?case by blast
qed simp

lemma enough_fuel:
  "(\<forall>n m. 2 * length s < n \<longrightarrow> 2 * length s < m \<longrightarrow> json_value n s = json_value m s) \<and>
   (\<forall>n m. 2 * length s + 1 < n \<longrightarrow> 2 * length s + 1 < m \<longrightarrow> json_elements n s = json_elements m s) \<and>
   (\<forall>n m. 2 * length s + 1 < n \<longrightarrow> 2 * length s + 1 < m \<longrightarrow> json_members n s = json_members m s)"
proof (induction s rule: measure_induct_rule [of length])
  case (less s)
  have v: "json_value n s = json_value m s" if "2 * length s < n" "2 * length s < m" for n m
  proof -
    obtain n' m' where nm: "n = Suc n'" "m = Suc m'" using \<open>_ < n\<close> \<open>_ < m\<close> by (cases n; cases m) auto
    show ?thesis
    proof (cases "skip_ws s")
      case (Cons c u)
      then have len: "length u < length s" by (rule skip_ws_Cons)
      then have "2 * length u + 1 < n'" "2 * length u + 1 < m'" using that nm by linarith+
      with less.IH [OF len] have "json_elements n' u = json_elements m' u" "json_members n' u = json_members m' u"
        by blast+
      then show ?thesis unfolding nm json_value.simps Cons by simp
    qed (simp add: nm json_value.simps)
  qed
  have e: "json_elements n s = json_elements m s" if "2 * length s + 1 < n" "2 * length s + 1 < m" for n m
  proof -
    obtain n' m' where nm: "n = Suc n'" "m = Suc m'" using \<open>_ < n\<close> \<open>_ < m\<close> by (cases n; cases m) auto
    then have same: "json_value n' s = json_value m' s" using that by (intro v) linarith+
    show ?thesis
    proof (cases "json_value m' s")
      case (Some p)
      obtain w r where p: "p = (w, r)" by (cases p)
      with Some json_consumes [of m'] have r: "length r < length s" by blast
      show ?thesis
      proof (cases "skip_ws r")
        case (Cons c u)
        then have len: "length u < length s" using skip_ws_Cons [of r c u] r by simp
        then have "2 * length u + 1 < n'" "2 * length u + 1 < m'" using that nm by linarith+
        with less.IH [OF len] have "json_elements n' u = json_elements m' u" by blast
        then show ?thesis unfolding nm json_elements.simps same Some p by (simp add: Cons)
      qed (simp add: nm json_elements.simps same Some p)
    qed (simp add: nm json_elements.simps same)
  qed
  have m: "json_members n s = json_members m s" if "2 * length s + 1 < n" "2 * length s + 1 < m" for n m
  proof -
    obtain n' m' where nm: "n = Suc n'" "m = Suc m'" using \<open>_ < n\<close> \<open>_ < m\<close> by (cases n; cases m) auto
    have same: "json_value n' u = json_value m' u" "json_members n' u = json_members m' u" if u: "length u < length s" for u
    proof -
      have "2 * length u < n'" "2 * length u < m'" "2 * length u + 1 < n'" "2 * length u + 1 < m'"
        using u \<open>_ < n\<close> \<open>_ < m\<close> nm by linarith+
      with less.IH [OF u] show "json_value n' u = json_value m' u" "json_members n' u = json_members m' u" by blast+
    qed
    show ?thesis
    proof (cases "skip_ws s")
      case (Cons q t)
      note t = skip_ws_Cons [OF Cons]
      show ?thesis
      proof (cases "string_body t")
        case (Some p)
        obtain key u where p: "p = (key, u)" by (cases p)
        with Some string_body_length t have u: "length u < length s" by fastforce
        show ?thesis
        proof (cases "skip_ws u")
          case colon: (Cons c u')
          with skip_ws_Cons u have u': "length u' < length s" by fastforce
          show ?thesis
          proof (cases "json_value m' u'")
            case val: (Some vr)
            obtain w r where vr: "vr = (w, r)" by (cases vr)
            with val json_consumes [of m'] u' have r: "length r < length s" by fastforce
            show ?thesis
            proof (cases "skip_ws r")
              case last: (Cons d r')
              with skip_ws_Cons r have "length r' < length s" by fastforce
              from same(2) [OF this] same(1) [OF u'] show ?thesis
                unfolding nm json_members.simps Cons by (simp add: Some p colon val vr last)
            qed (use same(1) [OF u'] in \<open>simp add: nm json_members.simps Cons Some p colon val vr\<close>)
          qed (use same(1) [OF u'] in \<open>simp add: nm json_members.simps Cons Some p colon\<close>)
        qed (simp add: nm json_members.simps Cons Some p)
      qed (simp add: nm json_members.simps Cons)
    qed (simp add: nm json_members.simps)
  qed
  from v e m show ?case by blast
qed

lemma json_parse_fuel:
  assumes "2 * length s < n"
  shows "json_parse s = (case json_value n s of
        None \<Rightarrow> None
      | Some (v, r) \<Rightarrow> if skip_ws r = [] then Some v else None)"
proof -
  have "2 * length s < 2 * length s + 2" by simp
  with enough_fuel [of s] assms have "json_value (2 * length s + 2) s = json_value n s" by blast
  then show ?thesis unfolding json_parse_def by (rule arg_cong)
qed

subsection \<open>Reading back a canonical text\<close>

lemma unescape_short:
  assumes "short_escape (of_char c) = Some e"
  shows "unescape e = Some c \<and> e \<noteq> CHR ''u''"
proof -
  have "(of_char c, e) \<in> set [(34 :: nat, CHR 34), (92, CHR 92), (8, CHR ''b''), (9, CHR ''t''), (10, CHR ''n''),
     (12, CHR ''f''), (13, CHR ''r'')]"
    using assms unfolding short_escape_def by (rule map_of_SomeD)
  then consider "(of_char c :: nat) = of_char CHR 34" "e = CHR 34" | "(of_char c :: nat) = of_char CHR 92" "e = CHR 92"
    | "(of_char c :: nat) = of_char CHR 8" "e = CHR ''b''" | "(of_char c :: nat) = of_char CHR 9" "e = CHR ''t''"
    | "(of_char c :: nat) = of_char CHR 10" "e = CHR ''n''" | "(of_char c :: nat) = of_char CHR 12" "e = CHR ''f''"
    | "(of_char c :: nat) = of_char CHR 13" "e = CHR ''r''"
    by simp linarith
  then show ?thesis unfolding of_char_eq_iff by cases (simp_all add: unescape_def)
qed

lemma hex_digit_value_lower: "n < 16 \<Longrightarrow> hex_digit_value (hex_lower n) = Some n"
  by (simp add: hex_digit_value_def hex_lower_code)

lemma hex4_code:
  assumes "n < 256"
  shows "hex4 CHR ''0'' CHR ''0'' (hex_lower (n div 16)) (hex_lower (n mod 16)) = Some n"
proof -
  have "n div 16 < 16" using assms by simp
  moreover have "hex_digit_value CHR ''0'' = Some 0" by (simp add: hex_digit_value_def)
  moreover have "n div 16 * 16 + n mod 16 = n" by simp
  ultimately show ?thesis by (simp add: hex4_def hex_digit_value_lower)
qed

lemma string_body_json: "string_body (concat (map json_char s) @ CHR 34 # r) = Some (s, r)"
proof (induction s)
  case (Cons c s)
  show ?case
  proof (cases c rule: json_char_cases)
    case (short e)
    with Cons unescape_short [of c e] show ?thesis by simp
  next
    case hex
    have "(of_char c :: nat) < 256" by simp
    with Cons hex hex4_code [of "of_char c"] show ?thesis by simp
  next
    case plain
    with Cons show ?thesis by simp
  qed
qed simp

lemma separated_digits:
  assumes "separated r"
  shows "takeWhile ascii_digit r = []" "fraction_part r = Some (0, r)" "exponent_part r = Some (1, r)"
  using assms by (cases r; auto simp: separated_def fraction_part_def exponent_part_def ascii_digit_def)+

lemma digits_of_show_nat: "separated r \<Longrightarrow> digits_of (show_nat n @ r) = (show_nat n, r)"
proof -
  assume "separated r"
  then have "takeWhile ascii_digit r = []" by (rule separated_digits)
  moreover from this have "dropWhile ascii_digit r = r" by (metis append_Nil takeWhile_dropWhile_id)
  ultimately show ?thesis using show_nat_digits [of n]
    by (simp add: digits_of_def takeWhile_append2 dropWhile_append2)
qed

lemma show_nat_zero: "\<not> (hd (show_nat n) = CHR ''0'' \<and> length (show_nat n) > 1)"
proof -
  have "length (show_nat 0) = 1" by (subst show_nat.simps) simp
  then show ?thesis unfolding hd_show_nat by auto
qed

lemma hd_show_nat_digit: "ascii_digit (hd (show_nat n))"
  using show_nat_digits [of n] by (simp add: list.set_sel)

lemma json_numeral_show_int:
  assumes "separated r"
  shows "json_numeral (show_int n @ r) = Some (of_int n, r)"
proof -
  have not_minus: "hd (show_nat k @ r) \<noteq> CHR ''-''" for k
    using hd_show_nat_digit [of k] by (auto simp: ascii_digit_def)
  note facts = digits_of_show_nat [OF assms] separated_digits [OF assms] show_nat_zero not_minus
  show ?thesis
  proof (cases "n < 0")
    case True
    then have "show_int n = CHR ''-'' # show_nat (nat (- n))" by (simp add: show_int_def)
    with True facts show ?thesis by (simp add: json_numeral_def)
  next
    case False
    then have "show_int n = show_nat (nat n)" by (simp add: show_int_def)
    with False facts show ?thesis by (simp add: json_numeral_def)
  qed
qed

text \<open>Values whose objects have distinct keys.\<close>

function proper :: "js_value \<Rightarrow> bool" where
  "proper (Arr vs) = list_all proper vs"
| "proper (Obj entries) = (distinct (map fst entries) \<and> list_all (\<lambda>p. proper (snd p)) entries)"
| "proper Null = True"
| "proper Undefined = True"
| "proper (Boolean b) = True"
| "proper (Number x) = True"
| "proper (Str s) = True"
  by pat_completeness auto
termination
  by (relation "measure size") (auto dest: size_entry size_element simp del: js_value.size)

lemma object_of_distinct: "distinct (map fst ms) \<Longrightarrow> object_of ms = ms"
proof -
  have "distinct (map fst (m @ ms)) \<Longrightarrow> foldl (\<lambda>m (k, v). map_put k v m) m ms = m @ ms" for m
  proof (induction ms arbitrary: m)
    case (Cons p ms)
    obtain k v where p: "p = (k, v)" by (cases p)
    with Cons.prems have "map_put k v m = m @ [(k, v)]" by (intro map_put_fresh) (auto simp: map_keys_def)
    with Cons.IH [of "m @ [(k, v)]"] Cons.prems p show ?case by simp
  qed simp
  from this [of "[]"] show "distinct (map fst ms) \<Longrightarrow> object_of ms = ms" by (simp add: object_of_def)
qed

lemma number_char_not_space: "number_char c \<Longrightarrow> \<not> json_space c"
  by (auto simp: number_char_def json_space_def ascii_digit_def)

lemma text_not_space:
  assumes "canonical_json fmt v = Some t" and "exact v"
  shows "skip_ws (t @ r) = t @ r"
proof -
  obtain c cs where c: "t = c # cs" "kind_of c = value_kind v" using text_kind [OF assms] by blast
  have "\<not> json_space c"
  proof (cases v)
    case (Number x)
    then obtain n where "t = show_int n" using assms exact_number [of x fmt] by auto
    with c show_int_number [of n] number_char_not_space show ?thesis by auto
  next
    case (Boolean b)
    with assms c have "c = (if b then CHR ''t'' else CHR ''f'')" by auto
    then show ?thesis by (simp add: json_space_def)
  next
    case (Str s)
    with assms c have "c = CHR 34" by (simp add: json_string_def)
    then show ?thesis by (simp add: json_space_def)
  next
    case (Arr vs)
    with assms c show ?thesis by (auto simp: json_space_def)
  next
    case (Obj es)
    with assms c show ?thesis by (auto simp: json_space_def)
  next
    case Null
    with assms c show ?thesis by (auto simp: json_space_def)
  qed (use assms in simp)
  with c(1) show ?thesis by (simp add: skip_ws_def)
qed

lemma skip_ws_marks [simp]:
  "skip_ws (CHR '','' # r) = CHR '','' # r" "skip_ws (CHR '']'' # r) = CHR '']'' # r"
  "skip_ws (CHR ''}'' # r) = CHR ''}'' # r" "skip_ws (CHR '':'' # r) = CHR '':'' # r"
  "skip_ws (CHR 34 # r) = CHR 34 # r" "skip_ws (CHR ''['' # r) = CHR ''['' # r"
  "skip_ws (CHR ''{'' # r) = CHR ''{'' # r"
  by (simp_all add: skip_ws_def json_space_def)

definition reads_back :: "(rat \<Rightarrow> string) \<Rightarrow> js_value \<Rightarrow> bool" where
  "reads_back fmt v \<longleftrightarrow> (\<forall>t r n. canonical_json fmt v = Some t \<longrightarrow> separated r \<longrightarrow> 2 * length t \<le> n \<longrightarrow>
     json_value n (t @ r) = Some (normal v, r))"

lemma reads_backD:
  "reads_back fmt v \<Longrightarrow> canonical_json fmt v = Some t \<Longrightarrow> separated r \<Longrightarrow> 2 * length t \<le> n \<Longrightarrow>
     json_value n (t @ r) = Some (normal v, r)"
  by (simp add: reads_back_def)

lemma elements_back:
  "vs \<noteq> [] \<Longrightarrow> \<forall>v \<in> set vs. reads_back fmt v \<and> canonical_json fmt v \<noteq> None \<Longrightarrow>
   2 * length (commas (map (\<lambda>v. the (canonical_json fmt v)) vs)) + 1 \<le> n \<Longrightarrow>
   json_elements n (commas (map (\<lambda>v. the (canonical_json fmt v)) vs) @ CHR '']'' # r) = Some (map normal vs, r)"
proof (induction vs arbitrary: n)
  case (Cons v vs)
  let ?f = "\<lambda>v. the (canonical_json fmt v)"
  obtain m where n: "n = Suc m" using Cons.prems(3) by (cases n) auto
  have v: "canonical_json fmt v = Some (?f v)" "reads_back fmt v" using Cons.prems(2) by auto
  show ?case
  proof (cases "vs = []")
    case True
    with Cons.prems n have "json_value m (?f v @ CHR '']'' # r) = Some (normal v, CHR '']'' # r)"
      by (intro reads_backD [OF v(2,1)]) simp_all
    with True n show ?thesis by (simp add: json_elements.simps)
  next
    case False
    then have joined: "commas (map ?f (v # vs)) @ CHR '']'' # r = ?f v @ CHR '','' # commas (map ?f vs) @ CHR '']'' # r"
      and len: "length (commas (map ?f (v # vs))) = length (?f v) + length (commas (map ?f vs)) + 1"
      by (simp_all add: commas_Cons)
    have "json_value m (?f v @ CHR '','' # commas (map ?f vs) @ CHR '']'' # r) =
        Some (normal v, CHR '','' # commas (map ?f vs) @ CHR '']'' # r)"
      using Cons.prems(3) n len by (intro reads_backD [OF v(2,1)]) simp_all
    moreover have "json_elements m (commas (map ?f vs) @ CHR '']'' # r) = Some (map normal vs, r)"
      using Cons False n len by simp
    ultimately show ?thesis unfolding joined n by (simp add: json_elements.simps)
  qed
qed simp

lemma members_back:
  "ps \<noteq> [] \<Longrightarrow> \<forall>p \<in> set ps. reads_back fmt (snd p) \<and> canonical_json fmt (snd p) \<noteq> None \<Longrightarrow>
   2 * length (commas (map (entry_text fmt) ps)) + 1 \<le> n \<Longrightarrow>
   json_members n (commas (map (entry_text fmt) ps) @ CHR ''}'' # r) =
     Some (map (\<lambda>p. (fst p, normal (snd p))) ps, r)"
proof (induction ps arbitrary: n)
  case (Cons p ps)
  obtain m where n: "n = Suc m" using Cons.prems(3) by (cases n) auto
  obtain t where t: "canonical_json fmt (snd p) = Some t" and rb: "reads_back fmt (snd p)"
    using Cons.prems(2) by auto
  have entry: "entry_text fmt p @ z = CHR 34 # concat (map json_char (fst p)) @ CHR 34 # CHR '':'' # t @ z" for z
    by (simp add: entry_text_def t json_string_def)
  have entry_len: "length t < length (entry_text fmt p)"
    by (simp add: entry_text_def t json_string_def)
  have step: "json_members (Suc m) (entry_text fmt p @ c # z) =
      (if c = CHR '','' then map_option (\<lambda>(ms, t). ((fst p, normal (snd p)) # ms, t)) (json_members m z)
       else if c = CHR ''}'' then Some ([(fst p, normal (snd p))], z) else None)"
    if "c = CHR '','' \<or> c = CHR ''}''" "2 * length t \<le> m" for c z
  proof -
    have "json_value m (t @ c # z) = Some (normal (snd p), c # z)"
      using that by (intro reads_backD [OF rb t]) auto
    moreover have "skip_ws (c # z) = c # z" using that(1) by auto
    ultimately show ?thesis unfolding entry by (simp add: json_members.simps string_body_json)
  qed
  show ?case
  proof (cases "ps = []")
    case True
    with Cons.prems n entry_len step [of "CHR ''}''" r] show ?thesis by simp
  next
    case False
    then have joined: "commas (map (entry_text fmt) (p # ps)) @ CHR ''}'' # r =
        entry_text fmt p @ CHR '','' # commas (map (entry_text fmt) ps) @ CHR ''}'' # r"
      and len: "length (commas (map (entry_text fmt) (p # ps))) =
        length (entry_text fmt p) + length (commas (map (entry_text fmt) ps)) + 1"
      by (simp_all add: commas_Cons)
    have "json_members m (commas (map (entry_text fmt) ps) @ CHR ''}'' # r) =
        Some (map (\<lambda>p. (fst p, normal (snd p))) ps, r)"
      using Cons False n len by simp
    with step [of "CHR '',''" "commas (map (entry_text fmt) ps) @ CHR ''}'' # r"] Cons.prems(3) n len entry_len
    show ?thesis unfolding joined n by simp
  qed
qed simp

lemma opens_not_starts:
  assumes "opens t" and "skip_ws (t @ r) = t @ r"
  shows "\<not> starts (CHR '']'') (skip_ws (t @ r))" "\<not> starts (CHR ''}'') (skip_ws (t @ r))"
  using assms by (cases t; auto simp: opens_def starts_def)+

lemma json_value_canonical:
  "exact v \<Longrightarrow> proper v \<Longrightarrow> reads_back fmt v"
proof (induction v rule: measure_induct_rule [of size])
  case (less v)
  show ?case
    unfolding reads_back_def
  proof (intro allI impI)
    fix t r n
    assume t: "canonical_json fmt v = Some t" and r: "separated r" and n: "2 * length t \<le> n"
    from text_kind [OF t less.prems(1)] obtain c0 t0 where "t = c0 # t0" by blast
    with n obtain m where m: "n = Suc m" by (cases n) auto
    note ws = text_not_space [OF t less.prems(1)]
    show "json_value n (t @ r) = Some (normal v, r)"
    proof (cases v)
      case (Arr vs)
      let ?f = "\<lambda>v. the (canonical_json fmt v)"
      let ?body = "commas (map ?f vs)"
      from canonical_array t Arr have vs: "\<forall>v \<in> set vs. canonical_json fmt v \<noteq> None" "t = ''['' @ ?body @ '']''"
        by blast+
      have ex: "\<forall>v \<in> set vs. exact v \<and> proper v" using less.prems Arr by (simp add: list_all_iff)
      show ?thesis
      proof (cases "vs = []")
        case True
        with vs(2) m Arr show ?thesis by (simp add: json_value.simps starts_def)
      next
        case False
        have "\<forall>v \<in> set vs. reads_back fmt v \<and> canonical_json fmt v \<noteq> None"
          using less.IH size_element Arr ex vs(1) by blast
        moreover have "2 * length ?body + 1 \<le> m" using n m vs(2) by simp
        ultimately have el: "json_elements m (?body @ CHR '']'' # r) = Some (map normal vs, r)"
          by (rule elements_back [OF False])
        obtain v1 vs' where v1: "vs = v1 # vs'" using False by (cases vs) auto
        then have first: "canonical_json fmt v1 = Some (?f v1)" "exact v1" using vs(1) ex by auto
        obtain z where z: "?body @ CHR '']'' # r = ?f v1 @ z" using v1 by (cases vs') auto
        have "\<not> starts (CHR '']'') (skip_ws (?body @ CHR '']'' # r))"
          unfolding z by (intro opens_not_starts text_opens [OF first] text_not_space [OF first])
        with el m Arr show ?thesis unfolding vs(2) by (simp add: json_value.simps)
      qed
    next
      case (Obj es)
      let ?ps = "sort_key fst es"
      let ?body = "commas (map (entry_text fmt) ?ps)"
      from canonical_object t Obj have es: "\<forall>p \<in> set es. canonical_json fmt (snd p) \<noteq> None" "t = ''{'' @ ?body @ ''}''"
        by blast+
      have ex: "\<forall>p \<in> set es. exact (snd p) \<and> proper (snd p)" and d: "distinct (map fst es)"
        using less.prems Obj by (simp_all add: list_all_iff)
      show ?thesis
      proof (cases "?ps = []")
        case True
        with es(2) m Obj show ?thesis by (simp add: json_value.simps starts_def)
      next
        case False
        have "\<forall>p \<in> set ?ps. reads_back fmt (snd p) \<and> canonical_json fmt (snd p) \<noteq> None"
          using less.IH size_entry Obj ex es(1) by simp
        moreover have "2 * length ?body + 1 \<le> m" using n m es(2) by simp
        ultimately have el: "json_members m (?body @ CHR ''}'' # r) = Some (map (\<lambda>p. (fst p, normal (snd p))) ?ps, r)"
          by (rule members_back [OF False])
        have "distinct (map fst ?ps)" using d by (metis distinct_map distinct_sort set_sort)
        then have obj: "object_of (map (\<lambda>p. (fst p, normal (snd p))) ?ps) = map (\<lambda>p. (fst p, normal (snd p))) ?ps"
          by (intro object_of_distinct) (simp add: comp_def)
        obtain p ps where p: "?ps = p # ps" using False by (cases ?ps) auto
        obtain z where z: "?body @ CHR ''}'' # r = CHR 34 # z" unfolding p
          by (cases ps) (auto simp: entry_text_def json_string_def)
        have "\<not> starts (CHR ''}'') (skip_ws (?body @ CHR ''}'' # r))" unfolding z by (simp add: starts_def)
        with el obj m Obj show ?thesis unfolding es(2) by (simp add: json_value.simps)
      qed
    next
      case (Number x)
      obtain k where k: "x = num k" "t = show_int k" using exact_number [of x fmt] less.prems(1) t Number by auto
      obtain c cs where c: "show_int k = c # cs" "number_char c" using show_int_number by blast
      have "list_all (\<lambda>x. \<not> number_char x) (CHR 34 # ''ntf[{'')"
        by (simp add: number_char_def ascii_digit_def)
      with c(2) have "c \<notin> set (CHR 34 # ''ntf[{'')" unfolding list_all_iff by blast
      moreover have "json_numeral (c # cs @ r) = Some (of_int k, r)"
        using json_numeral_show_int [OF r, of k] c(1) by simp
      ultimately show ?thesis using ws [of r] m k c(1) Number by (simp add: json_value.simps)
    next
      case (Boolean b)
      have lit: "literal_at ''true'' (''true'' @ r) = Some r" "literal_at ''false'' (''false'' @ r) = Some r"
        by (simp_all add: literal_at_def)
      show ?thesis using ws [of r] m t lit Boolean by (cases b) (auto simp: json_value.simps)
    next
      case Null
      have lit: "literal_at ''null'' (''null'' @ r) = Some r" by (simp add: literal_at_def)
      show ?thesis using ws [of r] m t lit Null by (auto simp: json_value.simps)
    next
      case (Str s)
      with t m show ?thesis by (auto simp: json_value.simps json_string_def string_body_json)
    qed (use t in simp)
  qed
qed

lemma json_parse_canonical:
  assumes "canonical_json fmt v = Some t" and "exact v" and "proper v"
  shows "json_parse t = Some (normal v)"
proof -
  have "json_value (2 * length t + 1) (t @ []) = Some (normal v, [])"
    using json_value_canonical [OF assms(2,3)] assms(1) by (intro reads_backD [of fmt v]) simp_all
  then show ?thesis using json_parse_fuel [of t "2 * length t + 1"] by (simp add: skip_ws_def)
qed

end
