(* ===== verification/Timestamps.thy ===== *)
theory Timestamps
  imports Text
begin

section \<open>Canonical UTC timestamps\<close>

text \<open>
  The instants that the ledger accepts at its ingress: texts of the form
  \<open>YYYY-MM-DDTHH:MM:SS.mmmZ\<close> that name a real instant of the calendar, with their number of
  milliseconds since 1970. For such texts the code's \<open>Date.parse\<close> followed by
  \<open>toISOString\<close> gives the text back.
\<close>

definition leap_year :: "int \<Rightarrow> bool" where
  "leap_year y \<longleftrightarrow> y mod 4 = 0 \<and> (y mod 100 \<noteq> 0 \<or> y mod 400 = 0)"

definition days_in_month :: "int \<Rightarrow> nat \<Rightarrow> int" where
  "days_in_month y m =
     (if m = 2 then (if leap_year y then 29 else 28) else if m \<in> {4, 6, 9, 11} then 30 else 31)"

definition day_from_year :: "int \<Rightarrow> int" where
  "day_from_year y = 365 * (y - 1970) + (y - 1969) div 4 - (y - 1901) div 100 + (y - 1601) div 400"

definition day_number :: "int \<Rightarrow> nat \<Rightarrow> int \<Rightarrow> int" where
  "day_number y m d = day_from_year y + sum_list (map (days_in_month y) [1..<m]) + (d - 1)"

definition field_at :: "string \<Rightarrow> nat \<Rightarrow> nat \<Rightarrow> nat" where
  "field_at s i n = read_nat (take n (drop i s))"

definition timestamp_shape :: "string \<Rightarrow> bool" where
  "timestamp_shape s \<longleftrightarrow>
     length s = 24 \<and>
     list_all (\<lambda>i. ascii_digit (s ! i)) [0, 1, 2, 3, 5, 6, 8, 9, 11, 12, 14, 15, 17, 18, 20, 21, 22] \<and>
     s ! 4 = CHR ''-'' \<and> s ! 7 = CHR ''-'' \<and> s ! 10 = CHR ''T'' \<and> s ! 13 = CHR '':'' \<and>
     s ! 16 = CHR '':'' \<and> s ! 19 = CHR ''.'' \<and> s ! 23 = CHR ''Z''"

definition instant_of :: "string \<Rightarrow> int option" where
  "instant_of s =
     (if \<not> timestamp_shape s then None
      else let y = int (field_at s 0 4); m = field_at s 5 2; d = int (field_at s 8 2);
               h = int (field_at s 11 2); mi = int (field_at s 14 2); sec = int (field_at s 17 2);
               ms = int (field_at s 20 3)
           in if 1 \<le> m \<and> m \<le> 12 \<and> 1 \<le> d \<and> d \<le> days_in_month y m \<and> h \<le> 23 \<and> mi \<le> 59 \<and> sec \<le> 59
              then Some (((day_number y m d * 24 + h) * 60 + mi) * 60000 + sec * 1000 + ms)
              else None)"

lemma instant_of_examples:
  "instant_of ''1970-01-01T00:00:00.000Z'' = Some 0"
  "instant_of ''2024-02-29T12:30:45.678Z'' = Some 1709209845678"
  "instant_of ''2023-02-29T00:00:00.000Z'' = None"
  by code_simp+

end
