(* ===== verification/Ledger.thy ===== *)
theory Ledger
  imports JsonParse Timestamps
begin

section \<open>The event ledger: tables, digests and one write attempt (\<open>krater/krater.ts\<close>)\<close>

text \<open>
  The tables of the ledger, the digests that chain its events, and the statements of one
  write attempt with the constraints and triggers of the migrations. A statement is a
  function on the tables that may abort; the statements of a batch commit together or not at
  all. All other tables are one component of an arbitrary type: the projection and companion
  statements of a caller read everything and change only that component. SHA-256 of a text
  in lower-case hexadecimal is a parameter. Columns that a CHECK constraint fixes
  (checkpoint version and mode, the chain version of the version-2 tables) are left out.
\<close>

subsection \<open>Errors\<close>

datatype krater_error =
  InputInvalid | ReadRefused | IdempotencyConflict | ProblemNotFound | ReplayRefused
| BackfillRequired | SequenceExhausted | PreconditionFailed | NotPersisted | BatchFailed | RetriesExhausted

definition and_then :: "'e + 'a \<Rightarrow> ('a \<Rightarrow> 'e + 'b) \<Rightarrow> 'e + 'b" where
  "and_then r f = (case r of Inl e \<Rightarrow> Inl e | Inr a \<Rightarrow> f a)"

definition require :: "bool \<Rightarrow> 'e \<Rightarrow> 'e + unit" where
  "require b e = (if b then Inr () else Inl e)"

lemma and_then_simps [simp]: "and_then (Inl e) f = Inl e" "and_then (Inr a) f = f a"
  by (simp_all add: and_then_def)

lemma and_then_Inr: "and_then r f = Inr b \<longleftrightarrow> (\<exists>a. r = Inr a \<and> f a = Inr b)"
  by (cases r) simp_all

lemma require_Inr [simp]: "require b e = Inr u \<longleftrightarrow> b"
  by (simp add: require_def)

subsection \<open>Tables\<close>

record problem_row =
  public_seq :: int
  head_digest :: "string option"
  head_version :: "int option"
  problem_updated :: string

record envelope_row =
  event_id :: string
  event_problem :: string
  event_seq :: int
  event_type :: string
  object_kind :: string
  object_id :: string
  object_version :: int
  payload_digest :: string
  event_created :: string
  actor_fellow :: "string option"
  actor_sponsor :: "string option"
  actor_session :: "string option"
  model_declared :: "string option"
  harness_declared :: "string option"
  writer_credential :: "string option"

record event_row = envelope_row +
  legacy_row_digest :: "string option"
  legacy_chain_digest :: "string option"

text \<open>\<open>event_chain_v2\<close>.\<close>

record chain_row =
  chain_event :: string
  chain_problem :: string
  chain_seq :: int
  row_digest :: string
  chain_digest :: string

text \<open>\<open>integrity_checkpoints\<close> and \<open>checkpoint_chain_v2\<close>; the latter has no date.\<close>

record checkpoint_row =
  checkpoint_problem :: string
  checkpoint_seq :: int
  root_digest :: string
  checkpoint_hash :: string
  checkpoint_created :: string

record content_row =
  content_event :: string
  content_digest :: string
  content_json :: string
  content_redaction :: "(string \<times> string) option"

record idempotency_row =
  idem_problem :: string
  idem_key :: string
  idem_request :: string
  idem_event :: "string option"
  idem_seq :: "int option"
  idem_created :: string

record backfill_row =
  backfill_complete :: bool
  legacy_event_count :: nat
  backfill_version :: "int option"

record 'p ledger =
  problem_rows :: "(string \<times> problem_row) list"
  event_rows :: "event_row list"
  chain_rows :: "chain_row list"
  content_rows :: "content_row list"
  idempotency_rows :: "idempotency_row list"
  checkpoint_rows :: "checkpoint_row list"
  checkpoint_chain :: "checkpoint_row list"
  backfill_rows :: "(string \<times> backfill_row) list"
  contiguity_guard :: bool
  other_tables :: 'p

subsection \<open>Checks\<close>

definition krater_chain_version :: int where
  "krater_chain_version = 2"

definition identifier_char :: "char \<Rightarrow> bool" where
  "identifier_char c \<longleftrightarrow> ascii_alnum c \<or> c \<in> set ''._:-''"

definition bounded_identifier :: "string \<Rightarrow> bool" where
  "bounded_identifier s \<longleftrightarrow> (case s of [] \<Rightarrow> False | c # cs \<Rightarrow> ascii_alnum c \<and> all_chars identifier_char 0 127 cs)"

definition safe_nonnegative :: "int \<Rightarrow> bool" where
  "safe_nonnegative n \<longleftrightarrow> 0 \<le> n \<and> n \<le> max_safe_integer"

definition require_identifier :: "string \<Rightarrow> krater_error + unit" where
  "require_identifier s = require (bounded_identifier s) InputInvalid"

definition require_input_sequence :: "int \<Rightarrow> bool \<Rightarrow> krater_error + unit" where
  "require_input_sequence n allow_zero =
     require (safe_nonnegative n \<and> (allow_zero \<or> n \<noteq> 0)) InputInvalid"

definition require_stored_sequence :: "int \<Rightarrow> bool \<Rightarrow> krater_error + int" where
  "require_stored_sequence n allow_zero =
     (if safe_nonnegative n \<and> (allow_zero \<or> n \<noteq> 0) then Inr n else Inl ReadRefused)"

text \<open>Refuses texts that name no instant and instants after the server's clock.\<close>

definition validate_ingress_timestamp :: "string \<Rightarrow> int \<Rightarrow> krater_error + unit" where
  "validate_ingress_timestamp created now =
     (if \<not> (safe_nonnegative now \<and> now \<le> 8640000000000000) then Inl InputInvalid
      else case instant_of created of
        None \<Rightarrow> Inl InputInvalid
      | Some t \<Rightarrow> require (t \<le> now) InputInvalid)"

subsection \<open>Digests\<close>

definition optional_text :: "string option \<Rightarrow> js_value" where
  "optional_text x = (case x of None \<Rightarrow> Null | Some s \<Rightarrow> Str s)"

text \<open>Every number in a digested object is a safe integer, so the text of others is not needed.\<close>

definition digest_of :: "(string \<Rightarrow> string) \<Rightarrow> js_value \<Rightarrow> string" where
  "digest_of sha256 v = (case canonical_json (\<lambda>_. []) v of None \<Rightarrow> [] | Some t \<Rightarrow> sha256 t)"

definition genesis_object :: "string \<Rightarrow> js_value" where
  "genesis_object problem =
     Obj [(''chain_version'', Number (num krater_chain_version)), (''kind'', Str ''krater.genesis''),
       (''problem_id'', Str problem)]"

definition genesis_chain_digest :: "(string \<Rightarrow> string) \<Rightarrow> string \<Rightarrow> krater_error + string" where
  "genesis_chain_digest sha256 problem =
     and_then (require_identifier problem) (\<lambda>_. Inr (digest_of sha256 (genesis_object problem)))"

definition chain_object :: "string \<Rightarrow> int \<Rightarrow> string \<Rightarrow> string \<Rightarrow> string \<Rightarrow> js_value" where
  "chain_object problem n payload row previous =
     Obj [(''chain_version'', Number (num krater_chain_version)), (''payload_sha256'', Str payload),
       (''previous_chain_digest'', Str previous), (''problem_id'', Str problem),
       (''row_digest'', Str row), (''seq'', Number (num n))]"

definition event_chain_digest ::
  "(string \<Rightarrow> string) \<Rightarrow> string \<Rightarrow> int \<Rightarrow> string \<Rightarrow> string \<Rightarrow> string \<Rightarrow> krater_error + string" where
  "event_chain_digest sha256 problem n payload row previous =
     and_then (require_identifier problem) (\<lambda>_.
     and_then (require_input_sequence n False) (\<lambda>_.
     Inr (digest_of sha256 (chain_object problem n payload row previous))))"

definition envelope_object :: "'a envelope_row_scheme \<Rightarrow> js_value" where
  "envelope_object e =
     Obj [(''chain_version'', Number (num krater_chain_version)), (''created_at'', Str (event_created e)),
       (''actor_fellow_id'', optional_text (actor_fellow e)),
       (''actor_session_id'', optional_text (actor_session e)),
       (''actor_sponsor_id'', optional_text (actor_sponsor e)),
       (''event_id'', Str (event_id e)), (''harness'', optional_text (harness_declared e)),
       (''model_string_self_declared'', optional_text (model_declared e)),
       (''object_id'', Str (object_id e)), (''object_kind'', Str (object_kind e)),
       (''object_version'', Number (num (object_version e))),
       (''payload_sha256'', Str (payload_digest e)), (''problem_id'', Str (event_problem e)),
       (''seq'', Number (num (event_seq e))), (''type'', Str (event_type e)),
       (''writer_credential_id'', optional_text (writer_credential e))]"

definition event_envelope_row_digest ::
  "(string \<Rightarrow> string) \<Rightarrow> 'a envelope_row_scheme \<Rightarrow> krater_error + string" where
  "event_envelope_row_digest sha256 e =
     and_then (require_input_sequence (event_seq e) False) (\<lambda>_.
     Inr (digest_of sha256 (envelope_object e)))"

definition checkpoint_object :: "string \<Rightarrow> int \<Rightarrow> string \<Rightarrow> js_value" where
  "checkpoint_object problem n root_hash =
     Obj [(''chain_version'', Number (num krater_chain_version)), (''checkpoint_version'', Number (num 1)),
       (''problem_id'', Str problem), (''root_chain_digest'', Str root_hash), (''seq'', Number (num n))]"

definition checkpoint_digest :: "(string \<Rightarrow> string) \<Rightarrow> string \<Rightarrow> int \<Rightarrow> string \<Rightarrow> krater_error + string" where
  "checkpoint_digest sha256 problem n root_hash =
     and_then (require_input_sequence n False) (\<lambda>_.
     Inr (digest_of sha256 (checkpoint_object problem n root_hash)))"

subsection \<open>Commands\<close>

datatype attribution =
  FellowWrites string string string string string "string option"
| SponsorWrites string
| PlatformWrites

text \<open>Fellow, sponsor, session, model, harness, credential.\<close>

fun attribution_fields ::
  "attribution \<Rightarrow> string option \<times> string option \<times> string option \<times> string option \<times> string option \<times> string option" where
  "attribution_fields (FellowWrites f s ses m h c) = (Some f, Some s, Some ses, Some m, Some h, c)"
| "attribution_fields (SponsorWrites s) = (None, Some s, None, None, None, None)"
| "attribution_fields PlatformWrites = (None, None, None, None, None, None)"

record ledger_input =
  in_problem :: string
  in_event :: string
  in_key :: string
  in_request :: string
  in_type :: string
  in_kind :: string
  in_object :: string
  in_version :: int
  in_payload :: string
  in_created :: string
  in_attribution :: attribution

text \<open>What the settlement callbacks receive.\<close>

record settlement =
  settled_seq :: int
  settled_event :: string
  settled_object :: string
  settled_payload :: string
  settled_created :: string
  settled_content :: "string option"

text \<open>
  An aborted batch. \<open>OtherAbort\<close> is the abort of a caller's statement or of a trigger outside
  the ledger, with whether its message reads as a lost race.
\<close>

datatype abort = ChainHeadMismatch | UniqueEvents | UniqueCheckpoints | UniqueContent | UniqueChain
  | ChainTrigger | SequenceCheck | OtherAbort bool

record 'p ledger_plan =
  precondition :: "'p ledger \<Rightarrow> bool"
  projection_statements :: "settlement \<Rightarrow> 'p ledger \<Rightarrow> bool + 'p"
  companion_statements :: "settlement \<Rightarrow> 'p ledger \<Rightarrow> bool + 'p"
  head_triggers :: "'p ledger \<Rightarrow> bool + 'p"
  event_triggers :: "event_row \<Rightarrow> 'p ledger \<Rightarrow> bool + 'p"
  content_triggers :: "content_row \<Rightarrow> 'p ledger \<Rightarrow> bool + 'p"
  settle_triggers :: "'p ledger \<Rightarrow> bool + 'p"

text \<open>
  A caller's statement, or triggers of later migrations on a statement of the ledger (such as
  the event budget of migration 0038). Each can abort the batch, with a message that reads as a
  lost race or not.
\<close>

definition with_other :: "('p ledger \<Rightarrow> bool + 'p) \<Rightarrow> 'p ledger \<Rightarrow> abort + 'p ledger" where
  "with_other f db =
     (case f db of Inl lost_race \<Rightarrow> Inl (OtherAbort lost_race) | Inr p \<Rightarrow> Inr (db\<lparr>other_tables := p\<rparr>))"

record head =
  head_seq :: int
  head_chain :: string

subsection \<open>Statements\<close>

definition idem_of :: "string \<Rightarrow> string \<Rightarrow> idempotency_row \<Rightarrow> bool" where
  "idem_of problem key row \<longleftrightarrow> idem_problem row = problem \<and> idem_key row = key"

definition find_idem :: "'p ledger \<Rightarrow> string \<Rightarrow> string \<Rightarrow> idempotency_row option" where
  "find_idem db problem key = find (idem_of problem key) (idempotency_rows db)"

definition fresh_idem :: "ledger_input \<Rightarrow> idempotency_row" where
  "fresh_idem input =
     \<lparr>idem_problem = in_problem input, idem_key = in_key input, idem_request = in_request input,
      idem_event = None, idem_seq = None, idem_created = in_created input\<rparr>"

text \<open>Dates are fixed-width texts, compared by their instants.\<close>

definition expired :: "int option \<Rightarrow> idempotency_row \<Rightarrow> bool" where
  "expired expired_before row \<longleftrightarrow>
     (case (expired_before, instant_of (idem_created row)) of
        (Some bound, Some t) \<Rightarrow> t \<le> bound
      | _ \<Rightarrow> False)"

definition claim_key :: "ledger_input \<Rightarrow> int option \<Rightarrow> 'p ledger \<Rightarrow> 'p ledger" where
  "claim_key input expired_before db =
     (if in_problem input \<notin> set (map fst (problem_rows db)) then db
      else case find_idem db (in_problem input) (in_key input) of
        None \<Rightarrow> db\<lparr>idempotency_rows := idempotency_rows db @ [fresh_idem input]\<rparr>
      | Some row \<Rightarrow>
          if expired expired_before row
          then db\<lparr>idempotency_rows := map (\<lambda>r. if idem_of (in_problem input) (in_key input) r
                 then fresh_idem input else r) (idempotency_rows db)\<rparr>
          else db)"

definition owns_key :: "ledger_input \<Rightarrow> 'p ledger \<Rightarrow> bool" where
  "owns_key input db \<longleftrightarrow>
     (case find_idem db (in_problem input) (in_key input) of
        None \<Rightarrow> False
      | Some row \<Rightarrow> idem_request row = in_request input \<and> idem_event row = None)"

definition elect_head ::
  "'p ledger_plan \<Rightarrow> ledger_input \<Rightarrow> head \<Rightarrow> string \<Rightarrow> 'p ledger \<Rightarrow> abort + 'p ledger" where
  "elect_head plan input before next_chain db =
     (case map_of (problem_rows db) (in_problem input) of
        None \<Rightarrow> Inr db
      | Some p \<Rightarrow>
          if public_seq p = head_seq before \<and> head_digest p = Some (head_chain before) \<and>
             head_version p = Some 2 \<and> owns_key input db \<and> precondition plan db
          then with_other (head_triggers plan) (db\<lparr>problem_rows := map_put (in_problem input)
                 (p\<lparr>public_seq := public_seq p + 1, head_digest := Some next_chain,
                    problem_updated := in_created input\<rparr>) (problem_rows db)\<rparr>)
          else Inr db)"

definition envelope_for :: "ledger_input \<Rightarrow> int \<Rightarrow> string \<Rightarrow> envelope_row" where
  "envelope_for input n payload =
     (case attribution_fields (in_attribution input) of (f, s, ses, m, h, c) \<Rightarrow>
        \<lparr>event_id = in_event input, event_problem = in_problem input, event_seq = n,
         event_type = in_type input, object_kind = in_kind input, object_id = in_object input,
         object_version = in_version input, payload_digest = payload, event_created = in_created input,
         actor_fellow = f, actor_sponsor = s, actor_session = ses, model_declared = m,
         harness_declared = h, writer_credential = c\<rparr>)"

text \<open>The triggers of \<open>events\<close>, the copy into \<open>event_chain_v2\<close> and its triggers.\<close>

definition insert_chain :: "chain_row \<Rightarrow> 'p ledger \<Rightarrow> abort + 'p ledger" where
  "insert_chain row db =
     (if \<not> list_ex (\<lambda>e. event_id e = chain_event row \<and> event_problem e = chain_problem row \<and>
           event_seq e = chain_seq row) (event_rows db) then Inl ChainTrigger
      else if chain_seq row > 1 \<and> \<not> list_ex (\<lambda>c. chain_problem c = chain_problem row \<and>
           chain_seq c = chain_seq row - 1) (chain_rows db) then Inl ChainTrigger
      else if \<not> chain_seq row > 0 then Inl SequenceCheck
      else if list_ex (\<lambda>c. chain_event c = chain_event row \<or>
           chain_problem c = chain_problem row \<and> chain_seq c = chain_seq row) (chain_rows db)
      then Inl UniqueChain
      else Inr (db\<lparr>chain_rows := chain_rows db @ [row]\<rparr>))"

definition insert_event_row ::
  "'p ledger_plan \<Rightarrow> envelope_row \<Rightarrow> string \<Rightarrow> string \<Rightarrow> 'p ledger \<Rightarrow> abort + 'p ledger" where
  "insert_event_row plan e row_hash chain_hash db =
     (let row = envelope_row.extend e
            \<lparr>legacy_row_digest = Some row_hash, legacy_chain_digest = Some chain_hash\<rparr> in
      if \<not> (\<exists>p \<in> set (problem_rows db). fst p = event_problem e \<and> public_seq (snd p) = event_seq e \<and>
             head_digest (snd p) = Some chain_hash) \<or>
         \<not> (case map_of (backfill_rows db) (event_problem e) of None \<Rightarrow> False | Some b \<Rightarrow> backfill_complete b)
      then Inl ChainHeadMismatch
      else if \<not> (\<exists>p \<in> set (problem_rows db). fst p = event_problem e \<and> head_version (snd p) = Some 2 \<and>
             head_digest (snd p) = Some chain_hash)
      then Inl ChainTrigger
      else if list_ex (\<lambda>x. event_id x = event_id e \<or>
             event_problem x = event_problem e \<and> event_seq x = event_seq e) (event_rows db)
      then Inl UniqueEvents
      else and_then (insert_chain \<lparr>chain_event = event_id e, chain_problem = event_problem e,
               chain_seq = event_seq e, row_digest = row_hash, chain_digest = chain_hash\<rparr>
               (db\<lparr>event_rows := event_rows db @ [row]\<rparr>))
             (with_other (event_triggers plan row)))"

definition insert_event ::
  "'p ledger_plan \<Rightarrow> ledger_input \<Rightarrow> envelope_row \<Rightarrow> string \<Rightarrow> string \<Rightarrow> 'p ledger \<Rightarrow> abort + 'p ledger" where
  "insert_event plan input e row_hash chain_hash db =
     (case map_of (problem_rows db) (in_problem input) of
        None \<Rightarrow> Inr db
      | Some p \<Rightarrow>
          if owns_key input db \<and> public_seq p = event_seq e \<and> head_digest p = Some chain_hash \<and>
             precondition plan db
          then insert_event_row plan e row_hash chain_hash db
          else Inr db)"

definition event_exists :: "'p ledger \<Rightarrow> string \<Rightarrow> bool" where
  "event_exists db i = list_ex (\<lambda>e. event_id e = i) (event_rows db)"

definition insert_content ::
  "'p ledger_plan \<Rightarrow> ledger_input \<Rightarrow> string \<Rightarrow> 'p ledger \<Rightarrow> abort + 'p ledger" where
  "insert_content plan input payload db =
     (let row = \<lparr>content_event = in_event input, content_digest = payload,
           content_json = in_payload input, content_redaction = None\<rparr> in
      if \<not> event_exists db (in_event input) then Inr db
      else if list_ex (\<lambda>c. content_event c = in_event input) (content_rows db) then Inl UniqueContent
      else with_other (content_triggers plan row) (db\<lparr>content_rows := content_rows db @ [row]\<rparr>))"

text \<open>The checkpoint of the event with the given identifier, if there is one.\<close>

definition insert_checkpoint_row :: "checkpoint_row \<Rightarrow> 'p ledger \<Rightarrow> abort + 'p ledger" where
  "insert_checkpoint_row row db =
     (let rooted = list_ex (\<lambda>c. chain_problem c = checkpoint_problem row \<and>
            chain_seq c = checkpoint_seq row \<and> chain_digest c = root_digest row) (chain_rows db);
          taken = list_ex (\<lambda>c. checkpoint_problem c = checkpoint_problem row \<and>
            checkpoint_seq c = checkpoint_seq row)
      in if \<not> rooted then Inl ChainTrigger
         else if \<not> checkpoint_seq row > 0 then Inl SequenceCheck
         else if taken (checkpoint_rows db) then Inl UniqueCheckpoints
         else if checkpoint_seq row > 1 \<and> \<not> list_ex (\<lambda>c. checkpoint_problem c = checkpoint_problem row \<and>
             checkpoint_seq c = checkpoint_seq row - 1) (checkpoint_chain db) then Inl ChainTrigger
         else if taken (checkpoint_chain db) then Inl UniqueChain
         else Inr (db\<lparr>checkpoint_rows := checkpoint_rows db @ [row],
                checkpoint_chain := checkpoint_chain db @ [row\<lparr>checkpoint_created := []\<rparr>]\<rparr>))"

definition insert_checkpoint ::
  "ledger_input \<Rightarrow> string \<Rightarrow> string \<Rightarrow> 'p ledger \<Rightarrow> abort + 'p ledger" where
  "insert_checkpoint input chain_hash hash db =
     (case find (\<lambda>e. event_id e = in_event input) (event_rows db) of
        None \<Rightarrow> Inr db
      | Some e \<Rightarrow> insert_checkpoint_row \<lparr>checkpoint_problem = event_problem e, checkpoint_seq = event_seq e,
             root_digest = chain_hash, checkpoint_hash = hash, checkpoint_created = in_created input\<rparr> db)"

definition unsettled :: "ledger_input \<Rightarrow> idempotency_row \<Rightarrow> bool" where
  "unsettled input r \<longleftrightarrow> idem_of (in_problem input) (in_key input) r \<and>
     idem_request r = in_request input \<and> idem_event r = None"

definition settle_key :: "'p ledger_plan \<Rightarrow> ledger_input \<Rightarrow> int \<Rightarrow> 'p ledger \<Rightarrow> abort + 'p ledger" where
  "settle_key plan input n db =
     (if event_exists db (in_event input) \<and> list_ex (unsettled input) (idempotency_rows db)
      then with_other (settle_triggers plan) (db\<lparr>idempotency_rows := map (\<lambda>r. if unsettled input r
          then r\<lparr>idem_event := Some (in_event input), idem_seq := Some n\<rparr> else r) (idempotency_rows db)\<rparr>)
      else Inr db)"

definition drop_unsettled :: "ledger_input \<Rightarrow> 'p ledger \<Rightarrow> 'p ledger" where
  "drop_unsettled input db =
     db\<lparr>idempotency_rows := filter (\<lambda>r. \<not> unsettled input r) (idempotency_rows db)\<rparr>"

subsection \<open>The content digest of a claim publication\<close>

text \<open>The three keys are written in the order that the canonical text has.\<close>

definition claim_content_digest :: "(string \<Rightarrow> string) \<Rightarrow> string \<Rightarrow> string \<Rightarrow> js_value \<Rightarrow> string" where
  "claim_content_digest sha256 kind statement falsifier =
     ''sha256:'' @ digest_of sha256
       (Obj [(''falsifier'', falsifier), (''kind'', Str kind), (''statement'', Str statement)])"

text \<open>Whether the payload of a publication names the claim and version that its envelope names.\<close>

definition names_version :: "ledger_input \<Rightarrow> (string \<times> js_value) list \<Rightarrow> bool" where
  "names_version input payload \<longleftrightarrow>
     in_kind input = ''claim'' \<and> own_value payload ''claim_id'' = Str (in_object input) \<and>
     (if in_type input = ''claim.created'' then in_version input = 1
      else in_version input \<ge> 2 \<and>
        own_value payload ''base_version'' = Number (num (in_version input - 1)))"

definition ledger_claim_content :: "(string \<Rightarrow> string) \<Rightarrow> ledger_input \<Rightarrow> krater_error + string option" where
  "ledger_claim_content sha256 input =
     (if in_type input \<noteq> ''claim.created'' \<and> in_type input \<noteq> ''claim.revised'' then Inr None
      else case json_parse (in_payload input) of
        Some (Obj payload) \<Rightarrow>
          (let kind = own_value payload ''kind''; falsifier = own_value payload ''falsifier'' in
           if in_type input = ''claim.created'' \<and>
              (kind = Str ''claim'' \<or> kind = Undefined \<or> falsifier = Undefined) then Inr None
           else if \<not> names_version input payload then Inl InputInvalid
           else case (kind, own_value payload ''statement'') of
             (Str k, Str s) \<Rightarrow>
               (case falsifier of
                  Str f \<Rightarrow> Inr (Some (claim_content_digest sha256 k s falsifier))
                | Null \<Rightarrow> Inr (Some (claim_content_digest sha256 k s falsifier))
                | _ \<Rightarrow> Inl InputInvalid)
           | _ \<Rightarrow> Inl InputInvalid)
      | _ \<Rightarrow> Inl InputInvalid)"

subsection \<open>Redaction\<close>

definition redaction_reasons :: "string list" where
  "redaction_reasons = [''legal'', ''privacy'', ''severe-safety'']"

definition redacted_payload :: string where
  "redacted_payload = ''{'' @ json_string ''control'' @ '':'' @ json_string ''redacted'' @ ''}''"

text \<open>\<open>names_date\<close> says whether \<open>Date.parse\<close> reads a text; its leniency is the platform's.\<close>

definition redact_event_content ::
  "(string \<Rightarrow> bool) \<Rightarrow> string \<Rightarrow> string \<Rightarrow> string \<Rightarrow> 'p ledger \<Rightarrow> krater_error + 'p ledger" where
  "redact_event_content names_date event reason redacted_at db =
     and_then (require_identifier event) (\<lambda>_.
     and_then (require (reason \<in> set redaction_reasons \<and> names_date redacted_at) InputInvalid) (\<lambda>_.
     if \<not> list_ex (\<lambda>c. content_event c = event) (content_rows db) then Inl ProblemNotFound
     else Inr (db\<lparr>content_rows := map (\<lambda>c. if content_event c = event
       then c\<lparr>content_json := redacted_payload, content_redaction := Some (redacted_at, reason)\<rparr> else c)
         (content_rows db)\<rparr>)))"

subsection \<open>One attempt\<close>

record prepared_event =
  prepared_envelope :: envelope_row
  prepared_row :: string
  prepared_chain :: string
  prepared_checkpoint :: string
  prepared_content :: "string option"

definition prepare_digests ::
  "(string \<Rightarrow> string) \<Rightarrow> ledger_input \<Rightarrow> head \<Rightarrow> krater_error + prepared_event" where
  "prepare_digests sha256 input before =
     (if \<not> (0 \<le> head_seq before \<and> head_seq before < max_safe_integer) then Inl SequenceExhausted
      else let n = head_seq before + 1;
               payload = sha256 (in_payload input);
               e = envelope_for input n payload in
        and_then (event_envelope_row_digest sha256 e) (\<lambda>row_hash.
        and_then (event_chain_digest sha256 (in_problem input) n payload row_hash (head_chain before)) (\<lambda>chain_hash.
        and_then (checkpoint_digest sha256 (in_problem input) n chain_hash) (\<lambda>hash.
        and_then (ledger_claim_content sha256 input) (\<lambda>content.
        Inr \<lparr>prepared_envelope = e, prepared_row = row_hash, prepared_chain = chain_hash,
             prepared_checkpoint = hash, prepared_content = content\<rparr>)))))"

definition settlement_of :: "ledger_input \<Rightarrow> prepared_event \<Rightarrow> settlement" where
  "settlement_of input pre =
     \<lparr>settled_seq = event_seq (prepared_envelope pre), settled_event = in_event input,
      settled_object = in_object input, settled_payload = payload_digest (prepared_envelope pre),
      settled_created = in_created input, settled_content = prepared_content pre\<rparr>"

definition run_batch ::
  "'p ledger_plan \<Rightarrow> ledger_input \<Rightarrow> head \<Rightarrow> int option \<Rightarrow> prepared_event \<Rightarrow> 'p ledger \<Rightarrow> abort + 'p ledger" where
  "run_batch plan input before expired_before pre db =
     (let settlement = settlement_of input pre;
          payload = payload_digest (prepared_envelope pre) in
      and_then (elect_head plan input before (prepared_chain pre) (claim_key input expired_before db)) (\<lambda>db1.
      and_then (insert_event plan input (prepared_envelope pre) (prepared_row pre) (prepared_chain pre) db1) (\<lambda>db2.
      and_then (insert_content plan input payload db2) (\<lambda>db3.
      and_then (with_other (projection_statements plan settlement) db3) (\<lambda>db4.
      and_then (insert_checkpoint input (prepared_chain pre) (prepared_checkpoint pre) db4) (\<lambda>db5.
      and_then (settle_key plan input (settled_seq settlement) db5) (\<lambda>db6.
      and_then (with_other (companion_statements plan settlement) db6) (\<lambda>db7.
      Inr (drop_unsettled input db7)))))))))"

end
