(* ===== verification/LedgerBackfill.thy ===== *)
theory LedgerBackfill
  imports Ledger
begin

section \<open>Reading heads and replaying old histories (\<open>krater/krater.ts\<close>)\<close>

text \<open>
  The validated reads of a problem's head, of an event and of its checkpoint, and the
  preflight of every write: the fast path of a problem whose version-2 chain is complete, and
  the bounded replay that digests an older history, with its checks and its batch.
\<close>

subsection \<open>Validated reads\<close>

definition read_problem_head :: "'p ledger \<Rightarrow> string \<Rightarrow> krater_error + head" where
  "read_problem_head db problem =
     (case map_of (problem_rows db) problem of
        None \<Rightarrow> Inl ProblemNotFound
      | Some p \<Rightarrow>
          (case head_digest p of
             None \<Rightarrow> Inl BackfillRequired
           | Some d \<Rightarrow>
               if head_version p \<noteq> Some krater_chain_version then Inl BackfillRequired
               else and_then (require_stored_sequence (public_seq p) True) (\<lambda>n.
                 Inr \<lparr>head_seq = n, head_chain = d\<rparr>)))"

definition chain_of :: "'p ledger \<Rightarrow> string \<Rightarrow> chain_row option" where
  "chain_of db i = find (\<lambda>c. chain_event c = i) (chain_rows db)"

text \<open>An event joined with its chain row, read under its recomputed row digest.\<close>

definition read_event_by_id ::
  "(string \<Rightarrow> string) \<Rightarrow> 'p ledger \<Rightarrow> string \<Rightarrow> krater_error + event_row \<times> chain_row" where
  "read_event_by_id sha256 db i =
     (case find (\<lambda>e. event_id e = i) (event_rows db) of
        None \<Rightarrow> Inl NotPersisted
      | Some e \<Rightarrow>
          (case chain_of db i of
             None \<Rightarrow> Inl BackfillRequired
           | Some c \<Rightarrow>
               and_then (require_stored_sequence (event_seq e) False) (\<lambda>_.
               and_then (event_envelope_row_digest sha256 e) (\<lambda>d.
               if row_digest c \<noteq> d then Inl BackfillRequired else Inr (e, c)))))"

definition checkpoint_at :: "checkpoint_row list \<Rightarrow> string \<Rightarrow> int \<Rightarrow> checkpoint_row option" where
  "checkpoint_at rows problem n =
     find (\<lambda>k. checkpoint_problem k = problem \<and> checkpoint_seq k = n) rows"

definition validate_current_checkpoint ::
  "(string \<Rightarrow> string) \<Rightarrow> checkpoint_row \<Rightarrow> checkpoint_row option \<Rightarrow> string \<Rightarrow> int \<Rightarrow> string \<Rightarrow>
   krater_error + checkpoint_row" where
  "validate_current_checkpoint sha256 stored current problem n root_hash =
     and_then (require_stored_sequence (checkpoint_seq stored) False) (\<lambda>s.
       case current of
         None \<Rightarrow> Inl BackfillRequired
       | Some c \<Rightarrow>
           if checkpoint_problem stored \<noteq> problem \<or> s \<noteq> n \<or> root_digest c \<noteq> root_hash
           then Inl BackfillRequired
           else and_then (checkpoint_digest sha256 problem s (root_digest c)) (\<lambda>d.
             if checkpoint_hash c \<noteq> d then Inl BackfillRequired else Inr c))"

definition read_checkpoint_by_event ::
  "(string \<Rightarrow> string) \<Rightarrow> 'p ledger \<Rightarrow> event_row \<times> chain_row \<Rightarrow> krater_error + checkpoint_row" where
  "read_checkpoint_by_event sha256 db ec =
     (let problem = event_problem (fst ec); n = event_seq (fst ec) in
      case checkpoint_at (checkpoint_rows db) problem n of
        None \<Rightarrow> Inl NotPersisted
      | Some stored \<Rightarrow> validate_current_checkpoint sha256 stored
          (checkpoint_at (checkpoint_chain db) problem n) problem n (chain_digest (snd ec)))"

subsection \<open>The frozen version-1 digests\<close>

definition legacy_genesis_v1 :: "(string \<Rightarrow> string) \<Rightarrow> string \<Rightarrow> krater_error + string" where
  "legacy_genesis_v1 sha256 problem =
     and_then (require_identifier problem) (\<lambda>_. Inr (digest_of sha256
       (Obj [(''kind'', Str ''krater.v0.genesis''), (''problem_id'', Str problem)])))"

definition legacy_chain_v1 ::
  "(string \<Rightarrow> string) \<Rightarrow> string \<Rightarrow> int \<Rightarrow> string \<Rightarrow> string \<Rightarrow> krater_error + string" where
  "legacy_chain_v1 sha256 problem n payload previous =
     and_then (require_identifier problem) (\<lambda>_.
     and_then (require_input_sequence n False) (\<lambda>_. Inr (digest_of sha256
       (Obj [(''payload_sha256'', Str payload), (''previous_chain_digest'', Str previous),
         (''problem_id'', Str problem), (''seq'', Number (num n))]))))"

definition legacy_row_v1 :: "(string \<Rightarrow> string) \<Rightarrow> 'a envelope_row_scheme \<Rightarrow> krater_error + string" where
  "legacy_row_v1 sha256 e =
     and_then (require_input_sequence (event_seq e) False) (\<lambda>_. Inr (digest_of sha256
       (Obj [(''created_at'', Str (event_created e)), (''event_id'', Str (event_id e)),
         (''object_id'', Str (object_id e)), (''object_kind'', Str (object_kind e)),
         (''object_version'', Number (num (object_version e))),
         (''payload_sha256'', Str (payload_digest e)), (''problem_id'', Str (event_problem e)),
         (''seq'', Number (num (event_seq e))), (''type'', Str (event_type e))])))"

definition legacy_checkpoint_v1 ::
  "(string \<Rightarrow> string) \<Rightarrow> string \<Rightarrow> int \<Rightarrow> string \<Rightarrow> krater_error + string" where
  "legacy_checkpoint_v1 sha256 problem n root_hash =
     and_then (require_input_sequence n False) (\<lambda>_. Inr (digest_of sha256
       (Obj [(''checkpoint_version'', Number (num 1)), (''problem_id'', Str problem),
         (''root_chain_digest'', Str root_hash), (''seq'', Number (num n))])))"

subsection \<open>The fast path\<close>

definition max_integrity_backfill_events :: nat where
  "max_integrity_backfill_events = 512"

text \<open>The last event and the last checkpoint of the version-2 tables carry the head's digest.\<close>

definition terminal_complete :: "'p ledger \<Rightarrow> string \<Rightarrow> problem_row \<Rightarrow> bool" where
  "terminal_complete db problem p \<longleftrightarrow>
     public_seq p = 0 \<or>
     list_ex (\<lambda>c. chain_problem c = problem \<and> chain_seq c = public_seq p \<and>
        Some (chain_digest c) = head_digest p) (chain_rows db) \<and>
     list_ex (\<lambda>k. checkpoint_problem k = problem \<and> checkpoint_seq k = public_seq p \<and>
        Some (root_digest k) = head_digest p) (checkpoint_chain db)"

definition first_undigested :: "'p ledger \<Rightarrow> string \<Rightarrow> bool" where
  "first_undigested db problem =
     list_ex (\<lambda>e. event_problem e = problem \<and> (legacy_row_digest e = None \<or> legacy_chain_digest e = None))
       (event_rows db)"

definition upgraded :: "(string \<Rightarrow> string) \<Rightarrow> 'p ledger \<Rightarrow> string \<Rightarrow> problem_row \<Rightarrow> bool" where
  "upgraded sha256 db problem p \<longleftrightarrow>
     (case map_of (backfill_rows db) problem of
        None \<Rightarrow> False
      | Some b \<Rightarrow> backfill_complete b \<and> backfill_version b = Some krater_chain_version) \<and>
     head_digest p \<noteq> None \<and> head_version p = Some krater_chain_version \<and>
     (public_seq p \<noteq> 0 \<or> (case genesis_chain_digest sha256 problem of
        Inl _ \<Rightarrow> False | Inr g \<Rightarrow> head_digest p = Some g)) \<and>
     terminal_complete db problem p \<and> \<not> first_undigested db problem"

subsection \<open>The replay\<close>

definition legacy_events :: "'p ledger \<Rightarrow> string \<Rightarrow> event_row list" where
  "legacy_events db problem =
     sort_key event_seq (filter (\<lambda>e. event_problem e = problem) (event_rows db))"

definition legacy_checkpoints :: "'p ledger \<Rightarrow> string \<Rightarrow> checkpoint_row list" where
  "legacy_checkpoints db problem =
     sort_key checkpoint_seq (filter (\<lambda>k. checkpoint_problem k = problem) (checkpoint_rows db))"

text \<open>The state that a replay may start from.\<close>

definition replay_refusal :: "'p ledger \<Rightarrow> string \<Rightarrow> problem_row \<Rightarrow> krater_error option" where
  "replay_refusal db problem p =
     (let events = legacy_events db problem;
          stored = map_of (backfill_rows db) problem;
          digested = list_all (\<lambda>e. legacy_row_digest e \<noteq> None \<and> legacy_chain_digest e \<noteq> None) events;
          undigested = list_all (\<lambda>e. legacy_row_digest e = None \<and> legacy_chain_digest e = None) events;
          complete = (head_digest p \<noteq> None \<and> digested);
          bare = (head_digest p = None \<and> undigested);
          checkpoints = length (legacy_checkpoints db problem)
      in if \<not> list_all (\<lambda>e. safe_nonnegative (event_seq e) \<and> event_seq e \<noteq> 0) events then Some ReadRefused
         else if length events > max_integrity_backfill_events then Some BackfillRequired
         else if head_version p \<noteq> None \<or>
             (case stored of None \<Rightarrow> False | Some b \<Rightarrow> backfill_version b \<noteq> None) \<or>
             list_ex (\<lambda>e. chain_of db (event_id e) \<noteq> None) events then Some BackfillRequired
         else if list_ex (\<lambda>e. (legacy_row_digest e = None) \<noteq> (legacy_chain_digest e = None)) events
         then Some BackfillRequired
         else if stored = None \<and> (public_seq p \<noteq> 0 \<or> length events \<noteq> 0) then Some BackfillRequired
         else if \<not> complete \<and> \<not> bare then Some BackfillRequired
         else if public_seq p \<noteq> int (length events) then Some BackfillRequired
         else if complete \<and> checkpoints \<noteq> length events \<or> bare \<and> checkpoints \<noteq> 0 then Some BackfillRequired
         else None)"

record replayed =
  replayed_event :: event_row
  replayed_row :: string
  replayed_legacy_row :: string
  replayed_chain :: string
  replayed_checkpoint :: string

text \<open>The stored version-1 bytes of one event and of its checkpoint, where they exist.\<close>

definition legacy_bytes_ok ::
  "(string \<Rightarrow> string) \<Rightarrow> event_row \<Rightarrow> checkpoint_row option \<Rightarrow> string \<Rightarrow> string \<Rightarrow> bool" where
  "legacy_bytes_ok sha256 e stored old_row old_chain \<longleftrightarrow>
     legacy_row_digest e = Some old_row \<and> legacy_chain_digest e = Some old_chain \<and>
     (case stored of
        None \<Rightarrow> False
      | Some k \<Rightarrow>
          checkpoint_problem k = event_problem e \<and> checkpoint_seq k = event_seq e \<and>
          root_digest k = old_chain \<and> checkpoint_created k = event_created e \<and>
          legacy_checkpoint_v1 sha256 (event_problem e) (event_seq e) (root_digest k) =
            Inr (checkpoint_hash k))"

fun replay_loop ::
  "(string \<Rightarrow> string) \<Rightarrow> bool \<Rightarrow> nat \<Rightarrow> event_row list \<Rightarrow> checkpoint_row list \<Rightarrow> string \<Rightarrow> string \<Rightarrow>
   krater_error + replayed list \<times> string \<times> string" where
  "replay_loop sha256 full i [] checkpoints chain_hash old_chain = Inr ([], chain_hash, old_chain)"
| "replay_loop sha256 full i (e # events) checkpoints chain_hash old_chain =
     (if event_seq e \<noteq> int i + 1 \<or> event_type e = [] \<or> object_kind e = [] \<or> object_id e = [] \<or>
         \<not> (safe_nonnegative (object_version e) \<and> 1 \<le> object_version e) then Inl BackfillRequired
      else and_then (event_envelope_row_digest sha256 e) (\<lambda>row_hash.
        and_then (legacy_row_v1 sha256 e) (\<lambda>old_row.
        and_then (legacy_chain_v1 sha256 (event_problem e) (event_seq e) (payload_digest e) old_chain) (\<lambda>old.
        if full \<and> \<not> legacy_bytes_ok sha256 e
             (if i < length checkpoints then Some (checkpoints ! i) else None) old_row old
        then Inl BackfillRequired
        else and_then (event_chain_digest sha256 (event_problem e) (event_seq e) (payload_digest e) row_hash chain_hash) (\<lambda>new.
          and_then (checkpoint_digest sha256 (event_problem e) (event_seq e) new) (\<lambda>hash.
          and_then (replay_loop sha256 full (Suc i) events checkpoints new old) (\<lambda>(rest, last_new, last_old).
          Inr (\<lparr>replayed_event = e, replayed_row = row_hash, replayed_legacy_row = old_row,
                 replayed_chain = new, replayed_checkpoint = hash\<rparr> # rest, last_new, last_old))))))))"

text \<open>
  The statements of one replayed event. \<open>rebuild\<close> is the update of the claim projections,
  which are among the other tables.
\<close>

definition undigested_row :: "replayed \<Rightarrow> event_row \<Rightarrow> bool" where
  "undigested_row x e \<longleftrightarrow> event_id e = event_id (replayed_event x) \<and>
     legacy_row_digest e = None \<and> legacy_chain_digest e = None"

text \<open>The trigger on \<open>events\<close> lets only a problem with an open backfill fill in digests.\<close>

definition digest_event :: "replayed \<Rightarrow> 'p ledger \<Rightarrow> abort + 'p ledger" where
  "digest_event x db =
     (if legacy_row_digest (replayed_event x) \<noteq> None \<or> \<not> list_ex (undigested_row x) (event_rows db)
      then Inr db
      else if case map_of (backfill_rows db) (event_problem (replayed_event x)) of
                None \<Rightarrow> True | Some b \<Rightarrow> backfill_complete b
      then Inl ChainTrigger
      else Inr (db\<lparr>event_rows := map (\<lambda>e. if undigested_row x e
           then e\<lparr>legacy_row_digest := Some (replayed_row x), legacy_chain_digest := Some (replayed_chain x)\<rparr>
           else e) (event_rows db)\<rparr>))"

definition checkpoint_for :: "replayed \<Rightarrow> checkpoint_row" where
  "checkpoint_for x =
     \<lparr>checkpoint_problem = event_problem (replayed_event x), checkpoint_seq = event_seq (replayed_event x),
      root_digest = replayed_chain x, checkpoint_hash = replayed_checkpoint x,
      checkpoint_created = event_created (replayed_event x)\<rparr>"

definition insert_checkpoint_once :: "checkpoint_row \<Rightarrow> 'p ledger \<Rightarrow> abort + 'p ledger" where
  "insert_checkpoint_once row db =
     (if checkpoint_at (checkpoint_rows db) (checkpoint_problem row) (checkpoint_seq row) = None
      then insert_checkpoint_row row db
      else if \<not> list_ex (\<lambda>c. chain_problem c = checkpoint_problem row \<and>
            chain_seq c = checkpoint_seq row \<and> chain_digest c = root_digest row) (chain_rows db)
      then Inl ChainTrigger
      else Inr db)"

definition insert_checkpoint_chain_once :: "checkpoint_row \<Rightarrow> 'p ledger \<Rightarrow> abort + 'p ledger" where
  "insert_checkpoint_chain_once row db =
     (if \<not> list_ex (\<lambda>c. chain_problem c = checkpoint_problem row \<and>
            chain_seq c = checkpoint_seq row \<and> chain_digest c = root_digest row) (chain_rows db) \<or>
         checkpoint_seq row > 1 \<and>
           checkpoint_at (checkpoint_chain db) (checkpoint_problem row) (checkpoint_seq row - 1) = None
      then Inl ChainTrigger
      else if checkpoint_at (checkpoint_chain db) (checkpoint_problem row) (checkpoint_seq row) = None
      then Inr (db\<lparr>checkpoint_chain := checkpoint_chain db @ [row\<lparr>checkpoint_created := []\<rparr>]\<rparr>)
      else Inr db)"

definition replay_statements ::
  "(event_row \<Rightarrow> string \<Rightarrow> string \<Rightarrow> 'p \<Rightarrow> 'p) \<Rightarrow> replayed \<Rightarrow> 'p ledger \<Rightarrow> abort + 'p ledger" where
  "replay_statements rebuild x db =
     (let e = replayed_event x in
      and_then (digest_event x db) (\<lambda>db0.
      and_then (insert_chain \<lparr>chain_event = event_id e, chain_problem = event_problem e,
          chain_seq = event_seq e, row_digest = replayed_row x, chain_digest = replayed_chain x\<rparr>
          db0) (\<lambda>db1.
      and_then (insert_checkpoint_once (checkpoint_for x) db1) (\<lambda>db2.
      insert_checkpoint_chain_once (checkpoint_for x)
        (db2\<lparr>other_tables := rebuild e (replayed_row x) (replayed_legacy_row x) (other_tables db2)\<rparr>)))))"

fun run_replay ::
  "(event_row \<Rightarrow> string \<Rightarrow> string \<Rightarrow> 'p \<Rightarrow> 'p) \<Rightarrow> replayed list \<Rightarrow> 'p ledger \<Rightarrow> abort + 'p ledger" where
  "run_replay rebuild [] db = Inr db"
| "run_replay rebuild (x # xs) db = and_then (replay_statements rebuild x db) (run_replay rebuild xs)"

definition open_backfill :: "string \<Rightarrow> nat \<Rightarrow> 'p ledger \<Rightarrow> 'p ledger" where
  "open_backfill problem n db =
     (if map_of (backfill_rows db) problem = None
      then db\<lparr>backfill_rows := map_put problem
             \<lparr>backfill_complete = False, legacy_event_count = n, backfill_version = None\<rparr> (backfill_rows db)\<rparr>
      else db)"

definition close_backfill :: "string \<Rightarrow> nat \<Rightarrow> string \<Rightarrow> 'p ledger \<Rightarrow> 'p ledger" where
  "close_backfill problem n chain_hash db =
     db\<lparr>problem_rows := map (\<lambda>(i, p). if i = problem \<and> head_version p = None
            then (i, p\<lparr>head_digest := Some chain_hash, head_version := Some 2\<rparr>) else (i, p)) (problem_rows db),
        backfill_rows := map (\<lambda>(i, b). if i = problem \<and> \<not> backfill_complete b \<and> backfill_version b = None
            then (i, \<lparr>backfill_complete = True, legacy_event_count = n, backfill_version = Some 2\<rparr>) else (i, b))
          (backfill_rows db)\<rparr>"

definition replay_history ::
  "(string \<Rightarrow> string) \<Rightarrow> (event_row \<Rightarrow> string \<Rightarrow> string \<Rightarrow> 'p \<Rightarrow> 'p) \<Rightarrow> 'p ledger \<Rightarrow> string \<Rightarrow> problem_row \<Rightarrow>
   krater_error + 'p ledger" where
  "replay_history sha256 rebuild db problem p =
     (case replay_refusal db problem p of
        Some e \<Rightarrow> Inl e
      | None \<Rightarrow>
          let events = legacy_events db problem; complete = (head_digest p \<noteq> None) in
          and_then (genesis_chain_digest sha256 problem) (\<lambda>genesis.
          and_then (legacy_genesis_v1 sha256 problem) (\<lambda>old_genesis.
          and_then (replay_loop sha256 complete 0 events (legacy_checkpoints db problem) genesis old_genesis)
            (\<lambda>(replays, last_new, last_old).
            if complete \<and> head_digest p \<noteq> Some last_old then Inl BackfillRequired
            else case run_replay rebuild replays (open_backfill problem (length events) db) of
              Inl _ \<Rightarrow> Inl BackfillRequired
            | Inr db' \<Rightarrow> Inr (close_backfill problem (length events) last_new db')))))"

definition backfill_integrity ::
  "(string \<Rightarrow> string) \<Rightarrow> (event_row \<Rightarrow> string \<Rightarrow> string \<Rightarrow> 'p \<Rightarrow> 'p) \<Rightarrow> 'p ledger \<Rightarrow> string \<Rightarrow> string \<Rightarrow> int \<Rightarrow>
   krater_error + 'p ledger" where
  "backfill_integrity sha256 rebuild db problem completed now =
     and_then (require_identifier problem) (\<lambda>_.
     and_then (validate_ingress_timestamp completed now) (\<lambda>_.
     case map_of (problem_rows db) problem of
       None \<Rightarrow> Inl ProblemNotFound
     | Some p \<Rightarrow>
         if \<not> contiguity_guard db then Inl BackfillRequired
         else and_then (require_stored_sequence (public_seq p) True) (\<lambda>n.
           if n \<ge> max_safe_integer then Inl SequenceExhausted
           else if upgraded sha256 db problem p then Inr db
           else replay_history sha256 rebuild db problem p)))"

definition ensure_problem ::
  "(string \<Rightarrow> string) \<Rightarrow> (event_row \<Rightarrow> string \<Rightarrow> string \<Rightarrow> 'p \<Rightarrow> 'p) \<Rightarrow> 'p ledger \<Rightarrow> string \<Rightarrow> string \<Rightarrow> int \<Rightarrow>
   (krater_error + unit) \<times> 'p ledger" where
  "ensure_problem sha256 rebuild db problem created now =
     (case and_then (require_identifier problem) (\<lambda>_. validate_ingress_timestamp created now) of
        Inl e \<Rightarrow> (Inl e, db)
      | Inr _ \<Rightarrow>
          let db1 = (if map_of (problem_rows db) problem = None
              then db\<lparr>problem_rows := map_put problem
                \<lparr>public_seq = 0, head_digest = None, head_version = None, problem_updated = created\<rparr>
                (problem_rows db)\<rparr> else db)
          in (case backfill_integrity sha256 rebuild db1 problem created now of
               Inl e \<Rightarrow> (Inl e, db1)
             | Inr db2 \<Rightarrow> (Inr (), db2)))"

end
