(* ===== verification/LedgerWrite.thy ===== *)
theory LedgerWrite
  imports LedgerBackfill
begin

section \<open>Writing one event (\<open>krater/krater.ts\<close>, \<open>writeLedgerEvent\<close>)\<close>

text \<open>
  The validation of a command and the write with its retries. One attempt reads the head,
  runs the transaction and reads the outcome back; what other writers do between these
  steps, and what becomes of the transaction's answer, is given for each attempt as a
  round. SQL text is not modelled, so the test of its form is left out; the schema of the
  dormancy receipt is a parameter. Backoff, hooks and the measured costs have no effect
  on the tables.
\<close>

subsection \<open>Validation\<close>

definition governance_event_types :: "string list" where
  "governance_event_types =
     [''problem.admitted'', ''problem.statement-revised'', ''problem.result-review-started'',
      ''problem.resolved'', ''problem.retired'', ''problem.admission-mode-changed'',
      ''problem.steward-updated'', ''problem.member-updated'', ''problem.writer-cap-changed'',
      ''problem.merged'', ''problem.forked'']"

definition commentary_event_types :: "string list" where
  "commentary_event_types = [''commentary.posted'', ''commentary.superseded'', ''commentary.tombstoned'']"

definition governance_object :: "ledger_input \<Rightarrow> bool" where
  "governance_object input \<longleftrightarrow>
     in_kind input = ''problem'' \<and> in_object input = in_problem input \<and>
       in_type input \<in> set governance_event_types \<or>
     in_kind input = ''commentary'' \<and> in_type input \<in> set commentary_event_types \<or>
     in_kind input = ''directive-disclosure'' \<and> in_type input = ''directive.disclosure-recorded''"

definition platform_object :: "(js_value \<Rightarrow> bool) \<Rightarrow> ledger_input \<Rightarrow> bool" where
  "platform_object dormancy_event input \<longleftrightarrow>
     in_type input = ''problem.dormant'' \<and> in_kind input = ''problem'' \<and>
     in_object input = in_problem input \<and>
     (case json_parse (in_payload input) of
        Some (Obj payload) \<Rightarrow>
          dormancy_event (Obj payload) \<and> own_value payload ''problem_id'' = Str (in_problem input) \<and>
          own_value payload ''changed_at'' = Str (in_created input)
      | _ \<Rightarrow> False)"

fun attribution_ok :: "(js_value \<Rightarrow> bool) \<Rightarrow> ledger_input \<Rightarrow> attribution \<Rightarrow> bool" where
  "attribution_ok dormancy_event input PlatformWrites = platform_object dormancy_event input"
| "attribution_ok dormancy_event input (SponsorWrites s) = (bounded_identifier s \<and> governance_object input)"
| "attribution_ok dormancy_event input (FellowWrites f s ses m h c) =
     (bounded_identifier s \<and> bounded_identifier f \<and> bounded_identifier ses)"

definition request_digest_shape :: "string \<Rightarrow> bool" where
  "request_digest_shape s \<longleftrightarrow> all_chars lower_hex 64 64 s"

fun key_expiry :: "attribution \<Rightarrow> int \<Rightarrow> int option" where
  "key_expiry (SponsorWrites _) now = Some (now - 24 * 60 * 60 * 1000)"
| "key_expiry _ now = None"

definition max_payload_bytes :: nat where
  "max_payload_bytes = 512 * 1024"

definition validate_ledger_command ::
  "(js_value \<Rightarrow> bool) \<Rightarrow> ledger_input \<Rightarrow> int \<Rightarrow> krater_error + int option" where
  "validate_ledger_command dormancy_event input now =
     and_then (require (list_all bounded_identifier [in_problem input, in_event input, in_key input,
         in_type input, in_kind input, in_object input]) InputInvalid) (\<lambda>_.
     and_then (require (attribution_ok dormancy_event input (in_attribution input)) InputInvalid) (\<lambda>_.
     and_then (require (1 \<le> in_version input \<and> in_version input \<le> max_safe_integer \<and>
         request_digest_shape (in_request input)) InputInvalid) (\<lambda>_.
     and_then (require (in_payload input \<noteq> [] \<and> utf8_length (in_payload input) \<le> max_payload_bytes)
         InputInvalid) (\<lambda>_.
     and_then (require (json_parse (in_payload input) \<noteq> None) InputInvalid) (\<lambda>_.
     and_then (validate_ingress_timestamp (in_created input) now) (\<lambda>_.
     Inr (key_expiry (in_attribution input) now)))))))"

subsection \<open>One attempt\<close>

text \<open>Whether a statement's failure reads as a lost race.\<close>

fun retryable :: "abort \<Rightarrow> bool" where
  "retryable ChainHeadMismatch = True"
| "retryable UniqueEvents = True"
| "retryable UniqueCheckpoints = True"
| "retryable (OtherAbort lost_race) = lost_race"
| "retryable _ = False"

text \<open>
  The batch runs and answers; or it fails without running, with a message that reads as a
  lost race or not; or it runs and its answer is lost.
\<close>

datatype outcome = Answered | Failed bool | Lost bool

record 'p round =
  others_first :: "'p ledger \<Rightarrow> 'p ledger"
  others_before :: "'p ledger \<Rightarrow> 'p ledger"
  batch_outcome :: outcome
  others_after :: "'p ledger \<Rightarrow> 'p ledger"
  others_later :: "'p ledger \<Rightarrow> 'p ledger"

record receipt =
  receipt_event :: string
  receipt_object :: string
  receipt_seq :: int
  receipt_idempotent :: bool
  receipt_before :: int
  receipt_after :: int
  receipt_payload :: string
  receipt_row :: string
  receipt_chain :: string
  receipt_checkpoint :: string

text \<open>The tables after the batch, and the error it throws with whether that reads as a lost race.\<close>

definition batch_result ::
  "outcome \<Rightarrow> abort + 'p ledger \<Rightarrow> 'p ledger \<Rightarrow> 'p ledger \<times> bool option" where
  "batch_result answer result db =
     (case answer of
        Failed lost_race \<Rightarrow> (db, Some lost_race)
      | Answered \<Rightarrow> (case result of Inl a \<Rightarrow> (db, Some (retryable a)) | Inr db' \<Rightarrow> (db', None))
      | Lost lost_race \<Rightarrow>
          (case result of Inl a \<Rightarrow> (db, Some (retryable a)) | Inr db' \<Rightarrow> (db', Some lost_race)))"

datatype 'a step_result = Stop 'a | Again

text \<open>After an error: another attempt, if one is left and the race was lost.\<close>

definition after_failure ::
  "bool \<Rightarrow> bool \<Rightarrow> krater_error \<Rightarrow> head \<Rightarrow> string \<Rightarrow> 'p ledger \<Rightarrow> (krater_error + receipt) step_result" where
  "after_failure retries_left lost_race err before problem db =
     (case read_problem_head db problem of
        Inl e \<Rightarrow> Stop (Inl e)
      | Inr latest \<Rightarrow>
          if retries_left \<and> (lost_race \<or> head_chain latest \<noteq> head_chain before) then Again
          else Stop (Inl err))"

definition read_receipt ::
  "(string \<Rightarrow> string) \<Rightarrow> ledger_input \<Rightarrow> head \<Rightarrow> string \<Rightarrow> 'p ledger \<Rightarrow> krater_error + receipt" where
  "read_receipt sha256 input before event db =
     and_then (read_event_by_id sha256 db event) (\<lambda>ec.
     and_then (read_checkpoint_by_event sha256 db ec) (\<lambda>k.
     and_then (read_problem_head db (in_problem input)) (\<lambda>after.
     let e = fst ec; c = snd ec in
     Inr \<lparr>receipt_event = event_id e, receipt_object = object_id e, receipt_seq = event_seq e,
          receipt_idempotent = (event_id e \<noteq> in_event input), receipt_before = head_seq before,
          receipt_after = head_seq after, receipt_payload = payload_digest e,
          receipt_row = row_digest c, receipt_chain = chain_digest c,
          receipt_checkpoint = checkpoint_hash k\<rparr>)))"

text \<open>What the owner of the key finds once the batch has answered.\<close>

definition read_settlement ::
  "(string \<Rightarrow> string) \<Rightarrow> ledger_input \<Rightarrow> bool \<Rightarrow> head \<Rightarrow> idempotency_row option \<Rightarrow> 'p ledger \<Rightarrow>
   (krater_error + receipt) step_result" where
  "read_settlement sha256 input retries_left before settled db =
     (case settled of
        None \<Rightarrow> after_failure retries_left False PreconditionFailed before (in_problem input) db
      | Some row \<Rightarrow>
          if idem_request row \<noteq> in_request input then Stop (Inl IdempotencyConflict)
          else (case (idem_event row, idem_seq row) of
            (Some event, Some _) \<Rightarrow> Stop (read_receipt sha256 input before event db)
          | _ \<Rightarrow> Stop (Inl NotPersisted)))"

definition write_attempt ::
  "(string \<Rightarrow> string) \<Rightarrow> 'p ledger_plan \<Rightarrow> ledger_input \<Rightarrow> int option \<Rightarrow> 'p round \<Rightarrow> bool \<Rightarrow> 'p ledger \<Rightarrow>
   (krater_error + receipt) step_result \<times> 'p ledger" where
  "write_attempt sha256 plan input expired_before r retries_left db =
     (let db0 = others_first r db in
      case read_problem_head db0 (in_problem input) of
        Inl e \<Rightarrow> (Stop (Inl e), db0)
      | Inr before \<Rightarrow>
          let db1 = others_before r db0 in
          case prepare_digests sha256 input before of
            Inl e \<Rightarrow>
              let db2 = others_after r db1
              in (after_failure retries_left False e before (in_problem input) db2, db2)
          | Inr pre \<Rightarrow>
              let (db2, failure) = batch_result (batch_outcome r)
                    (run_batch plan input before expired_before pre db1) db1;
                  db3 = others_after r db2
              in (case failure of
                   Some lost_race \<Rightarrow>
                     (after_failure retries_left lost_race BatchFailed before (in_problem input) db3, db3)
                 | None \<Rightarrow>
                     let settled = find_idem db3 (in_problem input) (in_key input);
                         db4 = others_later r db3
                     in (read_settlement sha256 input retries_left before settled db4, db4)))"

subsection \<open>The write\<close>

definition max_chain_retries :: nat where
  "max_chain_retries = 16"

text \<open>Returns the number of retries besides the result and the tables.\<close>

fun write_loop ::
  "(string \<Rightarrow> string) \<Rightarrow> 'p ledger_plan \<Rightarrow> ledger_input \<Rightarrow> int option \<Rightarrow> (nat \<Rightarrow> 'p round) \<Rightarrow> nat \<Rightarrow> nat \<Rightarrow>
   'p ledger \<Rightarrow> (krater_error + receipt) \<times> nat \<times> 'p ledger" where
  "write_loop sha256 plan input expired_before rounds retries 0 db = (Inl RetriesExhausted, retries, db)"
| "write_loop sha256 plan input expired_before rounds retries (Suc left) db =
     (case write_attempt sha256 plan input expired_before (rounds retries) (retries < max_chain_retries) db of
        (Stop result, db') \<Rightarrow> (result, retries, db')
      | (Again, db') \<Rightarrow> write_loop sha256 plan input expired_before rounds (Suc retries) left db')"

text \<open>\<open>rebuild\<close> is the update of the claim projections in a replay of an older history.\<close>

definition write_ledger_event ::
  "(string \<Rightarrow> string) \<Rightarrow> (js_value \<Rightarrow> bool) \<Rightarrow> (event_row \<Rightarrow> string \<Rightarrow> string \<Rightarrow> 'p \<Rightarrow> 'p) \<Rightarrow>
   'p ledger_plan \<Rightarrow> (nat \<Rightarrow> 'p round) \<Rightarrow> ledger_input \<Rightarrow> int \<Rightarrow> 'p ledger \<Rightarrow>
   (krater_error + receipt) \<times> nat \<times> 'p ledger" where
  "write_ledger_event sha256 dormancy_event rebuild plan rounds input now db =
     (case validate_ledger_command dormancy_event input now of
        Inl e \<Rightarrow> (Inl e, 0, db)
      | Inr expired_before \<Rightarrow>
          (case backfill_integrity sha256 rebuild db (in_problem input) (in_created input) now of
             Inl e \<Rightarrow> (Inl e, 0, db)
           | Inr db1 \<Rightarrow>
               write_loop sha256 plan input expired_before rounds 0 (Suc max_chain_retries) db1))"

end
