(* ===== verification/LedgerReplay.thy ===== *)
theory LedgerReplay
  imports LedgerWrite
begin

section \<open>Reading and verifying a problem's events (\<open>krater/krater.ts\<close>)\<close>

text \<open>
  The paged reads of a problem's events and checkpoints, the verification of a stream of
  events by recomputing its chain, and the replay of the claim projections. A read sees one
  state of the tables.
\<close>

subsection \<open>Reads\<close>

definition max_event_page_size :: int where
  "max_event_page_size = 200"

record krater_event = envelope_row +
  stream_row :: string
  stream_chain :: string

definition krater_event_of :: "event_row \<Rightarrow> chain_row \<Rightarrow> krater_event" where
  "krater_event_of e c = envelope_row.extend (envelope_row.truncate e)
     \<lparr>stream_row = row_digest c, stream_chain = chain_digest c\<rparr>"

lemma krater_event_of_fields [simp]:
  "envelope_row.truncate (krater_event_of e c) = envelope_row.truncate e"
  "event_id (krater_event_of e c) = event_id e" "event_problem (krater_event_of e c) = event_problem e"
  "event_seq (krater_event_of e c) = event_seq e" "payload_digest (krater_event_of e c) = payload_digest e"
  "object_version (krater_event_of e c) = object_version e"
  "stream_row (krater_event_of e c) = row_digest c" "stream_chain (krater_event_of e c) = chain_digest c"
  by (simp_all add: krater_event_of_def envelope_row.defs)

definition read_cursor :: "'p ledger \<Rightarrow> string \<Rightarrow> krater_error + int" where
  "read_cursor db problem =
     and_then (require_identifier problem) (\<lambda>_.
     case map_of (problem_rows db) problem of
       None \<Rightarrow> Inl ProblemNotFound
     | Some p \<Rightarrow> require_stored_sequence (public_seq p) True)"

definition page_rows :: "'p ledger \<Rightarrow> string \<Rightarrow> int \<Rightarrow> nat \<Rightarrow> event_row list" where
  "page_rows db problem after limit =
     take limit (sort_key event_seq
       (filter (\<lambda>e. event_problem e = problem \<and> after < event_seq e) (event_rows db)))"

fun collect :: "('a \<Rightarrow> 'e + 'b) \<Rightarrow> 'a list \<Rightarrow> 'e + 'b list" where
  "collect f [] = Inr []"
| "collect f (x # xs) = and_then (f x) (\<lambda>y. and_then (collect f xs) (\<lambda>ys. Inr (y # ys)))"

definition page_event :: "'p ledger \<Rightarrow> event_row \<Rightarrow> krater_error + krater_event" where
  "page_event db e =
     and_then (require_stored_sequence (event_seq e) False) (\<lambda>_.
     case chain_of db (event_id e) of
       None \<Rightarrow> Inl BackfillRequired
     | Some c \<Rightarrow> Inr (krater_event_of e c))"

definition check_row_digest :: "(string \<Rightarrow> string) \<Rightarrow> krater_event \<Rightarrow> krater_error + krater_event" where
  "check_row_digest sha256 e =
     and_then (event_envelope_row_digest sha256 e) (\<lambda>d.
     if stream_row e = d then Inr e else Inl BackfillRequired)"

text \<open>What the handler of \<open>readEvents\<close> rethrows; every other error is a refused read.\<close>

definition as_read :: "krater_error + 'a \<Rightarrow> krater_error + 'a" where
  "as_read r = (case r of
     Inl InputInvalid \<Rightarrow> r | Inl BackfillRequired \<Rightarrow> r | Inl _ \<Rightarrow> Inl ReadRefused | Inr _ \<Rightarrow> r)"

definition read_events ::
  "(string \<Rightarrow> string) \<Rightarrow> 'p ledger \<Rightarrow> string \<Rightarrow> int \<Rightarrow> int \<Rightarrow> krater_error + krater_event list" where
  "read_events sha256 db problem after limit =
     and_then (require_identifier problem) (\<lambda>_.
     if \<not> safe_nonnegative after \<or> limit < 1 \<or> max_event_page_size < limit then Inl InputInvalid
     else as_read
       (and_then (read_problem_head db problem) (\<lambda>_.
        and_then (collect (page_event db) (page_rows db problem after (nat limit))) (\<lambda>es.
        collect (check_row_digest sha256) es))))"

lemma collect_length: "collect f xs = Inr ys \<Longrightarrow> length ys = length xs"
  by (induction xs arbitrary: ys) (auto simp: and_then_Inr)

lemma collect_nth: "collect f xs = Inr ys \<Longrightarrow> i < length xs \<Longrightarrow> f (xs ! i) = Inr (ys ! i)"
proof (induction xs arbitrary: ys i)
  case (Cons x xs)
  then show ?case by (cases i) (auto simp: and_then_Inr)
qed simp

lemma as_read_Inr [simp]: "as_read r = Inr x \<longleftrightarrow> r = Inr x"
  by (auto simp: as_read_def split: sum.splits krater_error.splits)

lemma read_events_rows:
  assumes "read_events sha256 db problem after limit = Inr es"
  shows "map event_seq es = map event_seq (page_rows db problem after (nat limit))"
    and "length es = length (page_rows db problem after (nat limit))"
proof -
  let ?rows = "page_rows db problem after (nat limit)"
  obtain us where us: "collect (page_event db) ?rows = Inr us"
    and es: "collect (check_row_digest sha256) us = Inr es"
    using assms by (auto simp: read_events_def and_then_Inr split: if_splits)
  show len: "length es = length ?rows" using collect_length [OF us] collect_length [OF es] by simp
  show "map event_seq es = map event_seq ?rows"
  proof (rule nth_equalityI)
    fix i assume "i < length (map event_seq es)"
    then have i: "i < length ?rows" "i < length us" "i < length es" using len collect_length [OF us] by auto
    have "page_event db (?rows ! i) = Inr (us ! i)" using collect_nth [OF us i(1)] .
    then have "event_seq (us ! i) = event_seq (?rows ! i)"
      by (auto simp: page_event_def and_then_Inr split: option.splits dest: sym)
    moreover have "us ! i = es ! i"
      using collect_nth [OF es i(2)] by (auto simp: check_row_digest_def and_then_Inr split: if_splits)
    ultimately show "map event_seq es ! i = map event_seq ?rows ! i" using i by simp
  qed (use len in simp)
qed

text \<open>
  The loop of \<open>readAllEvents\<close>. Each round reads a page after the last sequence seen, so fewer
  events are left.
\<close>

definition events_after :: "'p ledger \<Rightarrow> string \<Rightarrow> int \<Rightarrow> event_row list" where
  "events_after db problem after =
     filter (\<lambda>e. event_problem e = problem \<and> after < event_seq e) (event_rows db)"

lemma last_of_page:
  assumes "read_events sha256 db problem after page = Inr es" "es \<noteq> []"
  shows "length (events_after db problem (event_seq (last es))) < length (events_after db problem after)"
proof -
  let ?rows = "page_rows db problem after (nat page)"
  note m = read_events_rows [OF assms(1)]
  from assms(2) m(2) have ne: "?rows \<noteq> []" by auto
  then have "last (map event_seq es) = last (map event_seq ?rows)" by (simp only: m(1))
  with assms(2) ne have l: "event_seq (last es) = event_seq (last ?rows)" by (simp add: last_map)
  have "last ?rows \<in> set ?rows" using ne by simp
  then have r: "last ?rows \<in> set (event_rows db)" "event_problem (last ?rows) = problem"
    "after < event_seq (last ?rows)"
    by (auto simp: page_rows_def dest: in_set_takeD)
  have dropped: "0 < length (filter (\<lambda>e. \<not> event_seq (last es) < event_seq e) (events_after db problem after))"
    using r l by (auto simp: events_after_def filter_empty_conv)
  have "events_after db problem (event_seq (last es)) =
      filter (\<lambda>e. event_seq (last es) < event_seq e) (events_after db problem after)"
    using r l by (auto simp: events_after_def intro!: filter_cong)
  with dropped show ?thesis
    using sum_length_filter_compl [of "\<lambda>e. event_seq (last es) < event_seq e" "events_after db problem after"]
    by (simp only:)
qed

function read_all_loop ::
  "(string \<Rightarrow> string) \<Rightarrow> 'p ledger \<Rightarrow> string \<Rightarrow> int \<Rightarrow> int \<Rightarrow> krater_event list \<Rightarrow>
   krater_error + krater_event list" where
  "read_all_loop sha256 db problem page after acc =
     (case read_events sha256 db problem after page of
        Inl e \<Rightarrow> Inl e
      | Inr [] \<Rightarrow> Inr acc
      | Inr (e # es) \<Rightarrow>
          if event_seq e \<le> after then Inl ReadRefused
          else if int (length (e # es)) < page then Inr (acc @ e # es)
          else read_all_loop sha256 db problem page (event_seq (last (e # es))) (acc @ e # es))"
  by pat_completeness auto
termination
proof (relation "measure (\<lambda>(sha256, db, problem, page, after, acc). length (events_after db problem after))",
    goal_cases)
  case (2 sha256 db problem page after acc r e es)
  then show ?case using last_of_page [of sha256 db problem after page "e # es"] by simp
qed simp

declare read_all_loop.simps [simp del]

definition read_all_events ::
  "(string \<Rightarrow> string) \<Rightarrow> 'p ledger \<Rightarrow> string \<Rightarrow> int \<Rightarrow> krater_error + krater_event list" where
  "read_all_events sha256 db problem page =
     (if page < 1 \<or> max_event_page_size < page then Inl InputInvalid
      else read_all_loop sha256 db problem page 0 [])"

text \<open>A checkpoint joined with the chain row of its sequence.\<close>

definition checkpoint_row_valid ::
  "(string \<Rightarrow> string) \<Rightarrow> 'p ledger \<Rightarrow> string \<Rightarrow> nat \<Rightarrow> checkpoint_row \<Rightarrow> krater_error + checkpoint_row" where
  "checkpoint_row_valid sha256 db problem i row =
     (case find (\<lambda>c. chain_problem c = checkpoint_problem row \<and> chain_seq c = checkpoint_seq row)
         (chain_rows db) of
        None \<Rightarrow> Inl BackfillRequired
      | Some c \<Rightarrow> validate_current_checkpoint sha256 row
          (checkpoint_at (checkpoint_chain db) (checkpoint_problem row) (checkpoint_seq row))
          problem (int i + 1) (chain_digest c))"

text \<open>What the handlers of the checkpoint reads rethrow.\<close>

definition as_state_read :: "krater_error + 'a \<Rightarrow> krater_error + 'a" where
  "as_state_read r = (case r of
     Inl ProblemNotFound \<Rightarrow> r | Inl BackfillRequired \<Rightarrow> r | Inl _ \<Rightarrow> Inl ReadRefused | Inr _ \<Rightarrow> r)"

definition read_checkpoints ::
  "(string \<Rightarrow> string) \<Rightarrow> 'p ledger \<Rightarrow> string \<Rightarrow> krater_error + checkpoint_row list" where
  "read_checkpoints sha256 db problem =
     and_then (require_identifier problem) (\<lambda>_.
     as_state_read
       (and_then (read_problem_head db problem) (\<lambda>h.
        let rows = legacy_checkpoints db problem in
        if int (length rows) \<noteq> head_seq h then Inl BackfillRequired
        else collect (\<lambda>(i, row). checkpoint_row_valid sha256 db problem i row)
          (zip [0..<length rows] rows))))"

definition read_integrity_state ::
  "(string \<Rightarrow> string) \<Rightarrow> 'p ledger \<Rightarrow> string \<Rightarrow> krater_error + string \<times> string option" where
  "read_integrity_state sha256 db problem =
     and_then (require_identifier problem) (\<lambda>_.
     as_state_read
       (and_then (read_problem_head db problem) (\<lambda>h.
        case at_last (legacy_checkpoints db problem) of
          None \<Rightarrow>
            if head_seq h > 0 \<and> list_ex (\<lambda>e. event_problem e = problem) (event_rows db)
            then Inl BackfillRequired else Inr (head_chain h, None)
        | Some row \<Rightarrow>
            and_then (validate_current_checkpoint sha256 row
                (checkpoint_at (checkpoint_chain db) (checkpoint_problem row) (checkpoint_seq row))
                problem (head_seq h) (head_chain h)) (\<lambda>k.
            Inr (head_chain h, Some (checkpoint_hash k))))))"

subsection \<open>Verification of a stream\<close>

fun chain_matches_from :: "(string \<Rightarrow> string) \<Rightarrow> string \<Rightarrow> string \<Rightarrow> int \<Rightarrow> krater_event list \<Rightarrow> bool" where
  "chain_matches_from sha256 problem prior prior_seq [] = True"
| "chain_matches_from sha256 problem prior prior_seq (e # es) =
     (event_problem e = problem \<and> safe_nonnegative (event_seq e) \<and> event_seq e \<noteq> 0 \<and>
      event_seq e = prior_seq + 1 \<and> 1 \<le> object_version e \<and> object_version e \<le> max_safe_integer \<and>
      event_envelope_row_digest sha256 e = Inr (stream_row e) \<and>
      event_chain_digest sha256 (event_problem e) (event_seq e) (payload_digest e) (stream_row e) prior =
        Inr (stream_chain e) \<and>
      chain_matches_from sha256 problem (stream_chain e) (event_seq e) es)"

definition event_chain_matches :: "(string \<Rightarrow> string) \<Rightarrow> krater_event list \<Rightarrow> krater_error + bool" where
  "event_chain_matches sha256 es =
     (case es of
        [] \<Rightarrow> Inr True
      | e # _ \<Rightarrow> and_then (genesis_chain_digest sha256 (event_problem e)) (\<lambda>g.
          Inr (chain_matches_from sha256 (event_problem e) g 0 es)))"

subsection \<open>Replay of the projections\<close>

record claim_projection =
  projected_claim :: string
  projected_problem :: string
  source_seq :: int
  projection_version :: int
  build_digest :: string
  stale :: bool

fun replay_from :: "string option \<Rightarrow> int \<Rightarrow> krater_event list \<Rightarrow> krater_error + claim_projection list" where
  "replay_from problem prior_seq [] = Inr []"
| "replay_from problem prior_seq (e # es) =
     (if event_type e \<noteq> ''claim.created'' \<or> \<not> safe_nonnegative (event_seq e) \<or> event_seq e = 0 \<or>
         event_seq e \<noteq> prior_seq + 1 \<or> (problem \<noteq> None \<and> problem \<noteq> Some (event_problem e))
      then Inl ReplayRefused
      else and_then (replay_from (Some (event_problem e)) (event_seq e) es) (\<lambda>ps.
        Inr (\<lparr>projected_claim = object_id e, projected_problem = event_problem e,
              source_seq = event_seq e, projection_version = 1, build_digest = stream_row e,
              stale = False\<rparr> # ps)))"

definition replay_claim_projections :: "krater_event list \<Rightarrow> krater_error + claim_projection list" where
  "replay_claim_projections es = replay_from None 0 es"

definition projection_replay_matches ::
  "krater_event list \<Rightarrow> claim_projection list \<Rightarrow> krater_error + bool" where
  "projection_replay_matches es projections =
     and_then (replay_claim_projections es) (\<lambda>replayed. Inr (replayed = projections))"

definition cursor_matches_events :: "int \<Rightarrow> krater_event list \<Rightarrow> bool" where
  "cursor_matches_events cursor es \<longleftrightarrow>
     safe_nonnegative cursor \<and> list_all (\<lambda>e. safe_nonnegative (event_seq e) \<and> event_seq e > 0) es \<and>
     cursor = (case at_last es of None \<Rightarrow> 0 | Some e \<Rightarrow> event_seq e)"

record outbox_record =
  outbox_event :: string
  outbox_kind :: string

definition outbox_matches_events :: "krater_event list \<Rightarrow> outbox_record list \<Rightarrow> bool" where
  "outbox_matches_events es outbox \<longleftrightarrow>
     length es = length outbox \<and>
     list_all (\<lambda>e. length (filter (\<lambda>x. outbox_event x = event_id e) outbox) = 1 \<and>
       list_ex (\<lambda>x. outbox_event x = event_id e \<and> outbox_kind x = ''search.index'') outbox) es"

definition transaction_boundary_matches ::
  "int \<Rightarrow> krater_event list \<Rightarrow> claim_projection list \<Rightarrow> outbox_record list \<Rightarrow> krater_error + bool" where
  "transaction_boundary_matches cursor es projections outbox =
     (if \<not> cursor_matches_events cursor es then Inr False
      else and_then (projection_replay_matches es projections) (\<lambda>b.
        Inr (b \<and> outbox_matches_events es outbox)))"

end
