(* ===== verification/LedgerSpec.thy ===== *)
theory LedgerSpec
  imports LedgerReplay
begin

section \<open>What the ledger promises, and the transaction against it\<close>

text \<open>
  The specification of a problem's history: a log of events numbered from one, with the chain
  of digests computed from the log alone. The well-formedness of the tables says that every
  sidecar table is this computation. One committed transaction of the code then refines
  one abstract step: it appends one event to the log or leaves the log alone.
\<close>

subsection \<open>The abstract log\<close>

definition problem_log :: "'p ledger \<Rightarrow> string \<Rightarrow> event_row list" where
  "problem_log db i = filter (\<lambda>e. event_problem e = i) (event_rows db)"

definition row_hash :: "(string \<Rightarrow> string) \<Rightarrow> 'a envelope_row_scheme \<Rightarrow> string" where
  "row_hash sha256 e = digest_of sha256 (envelope_object e)"

definition link :: "(string \<Rightarrow> string) \<Rightarrow> string \<Rightarrow> 'a envelope_row_scheme \<Rightarrow> string" where
  "link sha256 prior e = digest_of sha256
     (chain_object (event_problem e) (event_seq e) (payload_digest e) (row_hash sha256 e) prior)"

definition genesis :: "(string \<Rightarrow> string) \<Rightarrow> string \<Rightarrow> string" where
  "genesis sha256 i = digest_of sha256 (genesis_object i)"

definition head_link :: "(string \<Rightarrow> string) \<Rightarrow> 'p ledger \<Rightarrow> string \<Rightarrow> string" where
  "head_link sha256 db i = foldl (link sha256) (genesis sha256 i) (problem_log db i)"

definition chain_entry :: "(string \<Rightarrow> string) \<Rightarrow> string \<Rightarrow> 'a envelope_row_scheme \<Rightarrow> chain_row" where
  "chain_entry sha256 prior e =
     \<lparr>chain_event = event_id e, chain_problem = event_problem e, chain_seq = event_seq e,
      row_digest = row_hash sha256 e, chain_digest = link sha256 prior e\<rparr>"

fun chained :: "(string \<Rightarrow> string) \<Rightarrow> string \<Rightarrow> 'a envelope_row_scheme list \<Rightarrow> chain_row list" where
  "chained sha256 prior [] = []"
| "chained sha256 prior (e # es) = chain_entry sha256 prior e # chained sha256 (link sha256 prior e) es"

definition root_hash :: "(string \<Rightarrow> string) \<Rightarrow> string \<Rightarrow> int \<Rightarrow> string \<Rightarrow> string" where
  "root_hash sha256 i n d = digest_of sha256 (checkpoint_object i n d)"

definition checkpoint_key :: "checkpoint_row \<Rightarrow> string \<times> int \<times> string \<times> string" where
  "checkpoint_key k = (checkpoint_problem k, checkpoint_seq k, root_digest k, checkpoint_hash k)"

definition checkpoint_entry :: "(string \<Rightarrow> string) \<Rightarrow> chain_row \<Rightarrow> string \<times> int \<times> string \<times> string" where
  "checkpoint_entry sha256 c = (chain_problem c, chain_seq c, chain_digest c,
     root_hash sha256 (chain_problem c) (chain_seq c) (chain_digest c))"

lemma chained_snoc:
  "chained sha256 prior (es @ [e]) =
     chained sha256 prior es @ [chain_entry sha256 (foldl (link sha256) prior es) e]"
  by (induction es arbitrary: prior) simp_all

lemma length_chained [simp]: "length (chained sha256 prior es) = length es"
  by (induction es arbitrary: prior) simp_all

lemma chained_events: "map chain_event (chained sha256 prior es) = map event_id es"
  and chained_seqs: "map chain_seq (chained sha256 prior es) = map event_seq es"
  and chained_problems: "map chain_problem (chained sha256 prior es) = map event_problem es"
  by (induction es arbitrary: prior) (simp_all add: chain_entry_def)

subsection \<open>Well-formed tables\<close>

definition stored_digests :: "event_row \<Rightarrow> string option \<times> string option" where
  "stored_digests e = (legacy_row_digest e, legacy_chain_digest e)"

definition chain_digests :: "chain_row \<Rightarrow> string option \<times> string option" where
  "chain_digests c = (Some (row_digest c), Some (chain_digest c))"

definition version_ok :: "'a envelope_row_scheme \<Rightarrow> bool" where
  "version_ok e \<longleftrightarrow> 1 \<le> object_version e \<and> object_version e \<le> max_safe_integer"

definition stream_ok :: "(string \<Rightarrow> string) \<Rightarrow> 'p ledger \<Rightarrow> string \<Rightarrow> bool" where
  "stream_ok sha256 db i \<longleftrightarrow>
     (let es = problem_log db i; cs = chained sha256 (genesis sha256 i) es in
      map event_seq es = map int [1..<Suc (length es)] \<and>
      filter (\<lambda>c. chain_problem c = i) (chain_rows db) = cs \<and>
      map checkpoint_key (filter (\<lambda>k. checkpoint_problem k = i) (checkpoint_rows db)) =
        map (checkpoint_entry sha256) cs \<and>
      map checkpoint_key (filter (\<lambda>k. checkpoint_problem k = i) (checkpoint_chain db)) =
        map (checkpoint_entry sha256) cs \<and>
      map stored_digests es = map chain_digests cs \<and>
      list_all version_ok es)"

definition head_ok :: "(string \<Rightarrow> string) \<Rightarrow> 'p ledger \<Rightarrow> string \<times> problem_row \<Rightarrow> bool" where
  "head_ok sha256 db ip \<longleftrightarrow>
     (let i = fst ip; p = snd ip in
      bounded_identifier i \<and> public_seq p = int (length (problem_log db i)) \<and>
      public_seq p \<le> max_safe_integer \<and> head_version p = Some 2 \<and>
      head_digest p = Some (head_link sha256 db i) \<and>
      (case map_of (backfill_rows db) i of
         None \<Rightarrow> False | Some b \<Rightarrow> backfill_complete b \<and> backfill_version b = Some 2))"

definition contents_ok :: "(string \<Rightarrow> string) \<Rightarrow> 'p ledger \<Rightarrow> bool" where
  "contents_ok sha256 db \<longleftrightarrow>
     map (\<lambda>c. (content_event c, content_digest c)) (content_rows db) =
       map (\<lambda>e. (event_id e, payload_digest e)) (event_rows db) \<and>
     list_all (\<lambda>c. content_redaction c \<noteq> None \<or> content_digest c = sha256 (content_json c)) (content_rows db)"

definition settles :: "idempotency_row \<Rightarrow> event_row \<Rightarrow> bool" where
  "settles r e \<longleftrightarrow> idem_event r = Some (event_id e) \<and> idem_problem r = event_problem e \<and>
     idem_seq r = Some (event_seq e)"

definition idem_id :: "idempotency_row \<Rightarrow> string \<times> string" where
  "idem_id r = (idem_problem r, idem_key r)"

definition keys_ok :: "'p ledger \<Rightarrow> bool" where
  "keys_ok db \<longleftrightarrow> distinct (map idem_id (idempotency_rows db)) \<and>
     list_all (\<lambda>r. list_ex (settles r) (event_rows db)) (idempotency_rows db)"

definition row_problems :: "'p ledger \<Rightarrow> string list" where
  "row_problems db = map event_problem (event_rows db) @ map chain_problem (chain_rows db) @
     map checkpoint_problem (checkpoint_rows db) @ map checkpoint_problem (checkpoint_chain db) @
     map fst (backfill_rows db)"

definition ledger_ok :: "(string \<Rightarrow> string) \<Rightarrow> 'p ledger \<Rightarrow> bool" where
  "ledger_ok sha256 db \<longleftrightarrow>
     contiguity_guard db \<and> distinct (map fst (problem_rows db)) \<and>
     list_all (head_ok sha256 db) (problem_rows db) \<and>
     distinct (map event_id (event_rows db)) \<and>
     list_all (\<lambda>i. i \<in> set (map fst (problem_rows db))) (row_problems db) \<and>
     list_all (stream_ok sha256 db) (map fst (problem_rows db)) \<and>
     contents_ok sha256 db \<and> keys_ok db"

lemma ledger_ok_stream:
  assumes "ledger_ok sha256 db"
  shows "stream_ok sha256 db i"
proof (cases "i \<in> set (map fst (problem_rows db))")
  case True
  with assms show ?thesis by (auto simp: ledger_ok_def list_all_iff)
next
  case False
  with assms have "i \<notin> set (row_problems db)" by (auto simp: ledger_ok_def list_all_iff)
  then have "problem_log db i = []" "filter (\<lambda>c. chain_problem c = i) (chain_rows db) = []"
    "filter (\<lambda>k. checkpoint_problem k = i) (checkpoint_rows db) = []"
    "filter (\<lambda>k. checkpoint_problem k = i) (checkpoint_chain db) = []"
    by (auto simp: row_problems_def problem_log_def filter_empty_conv)
  then show ?thesis by (simp add: stream_ok_def)
qed

lemma ledger_ok_head:
  "ledger_ok sha256 db \<Longrightarrow> map_of (problem_rows db) i = Some p \<Longrightarrow> head_ok sha256 db (i, p)"
  by (auto simp: ledger_ok_def list_all_iff dest: map_of_SomeD)

lemma ledger_ok_intro:
  assumes "contiguity_guard db" "distinct (map fst (problem_rows db))"
    and "\<And>i p. (i, p) \<in> set (problem_rows db) \<Longrightarrow> head_ok sha256 db (i, p)"
    and "distinct (map event_id (event_rows db))"
    and "\<And>e. e \<in> set (event_rows db) \<Longrightarrow> event_problem e \<in> set (map fst (problem_rows db))"
    and backfills: "set (map fst (backfill_rows db)) \<subseteq> set (map fst (problem_rows db))"
    and stream: "\<And>i. stream_ok sha256 db i" and "contents_ok sha256 db" "keys_ok db"
  shows "ledger_ok sha256 db"
proof -
  have "i \<in> set (map fst (problem_rows db))" if "i \<in> set (row_problems db)" for i
  proof (rule ccontr)
    assume no: "i \<notin> set (map fst (problem_rows db))"
    with assms(5) have "problem_log db i = []" by (auto simp: problem_log_def filter_empty_conv)
    with stream [of i] have "filter (\<lambda>c. chain_problem c = i) (chain_rows db) = []"
      "filter (\<lambda>k. checkpoint_problem k = i) (checkpoint_rows db) = []"
      "filter (\<lambda>k. checkpoint_problem k = i) (checkpoint_chain db) = []"
      by (simp_all add: stream_ok_def)
    then have "i \<notin> set (map chain_problem (chain_rows db))" "i \<notin> set (map checkpoint_problem (checkpoint_rows db))"
      "i \<notin> set (map checkpoint_problem (checkpoint_chain db))"
      by (auto simp: filter_empty_conv)
    moreover have "i \<notin> set (map event_problem (event_rows db))" using no assms(5) by auto
    moreover have "i \<notin> set (map fst (backfill_rows db))" using no backfills by blast
    ultimately show False using that unfolding row_problems_def set_append by blast
  qed
  with assms show ?thesis by (auto simp: ledger_ok_def list_all_iff)
qed

subsection \<open>The abstract step\<close>

definition next_event :: "(string \<Rightarrow> string) \<Rightarrow> 'p ledger \<Rightarrow> ledger_input \<Rightarrow> envelope_row" where
  "next_event sha256 db input =
     envelope_for input (int (length (problem_log db (in_problem input))) + 1) (sha256 (in_payload input))"

definition settled_key :: "ledger_input \<Rightarrow> int \<Rightarrow> idempotency_row" where
  "settled_key input n = (fresh_idem input)\<lparr>idem_event := Some (in_event input), idem_seq := Some n\<rparr>"

definition append_event ::
  "(string \<Rightarrow> string) \<Rightarrow> ledger_input \<Rightarrow> int option \<Rightarrow> 'p ledger \<Rightarrow> 'p ledger" where
  "append_event sha256 input expired_before db =
     (let i = in_problem input; e = next_event sha256 db input; n = event_seq e;
          c = chain_entry sha256 (head_link sha256 db i) e;
          k = \<lparr>checkpoint_problem = i, checkpoint_seq = n, root_digest = chain_digest c,
               checkpoint_hash = root_hash sha256 i n (chain_digest c), checkpoint_created = in_created input\<rparr>
      in db\<lparr>problem_rows := map_put i ((the (map_of (problem_rows db) i))
               \<lparr>public_seq := n, head_digest := Some (chain_digest c), problem_updated := in_created input\<rparr>)
               (problem_rows db),
            event_rows := event_rows db @ [envelope_row.extend e
               \<lparr>legacy_row_digest = Some (row_digest c), legacy_chain_digest = Some (chain_digest c)\<rparr>],
            chain_rows := chain_rows db @ [c],
            content_rows := content_rows db @ [\<lparr>content_event = in_event input,
               content_digest = sha256 (in_payload input), content_json = in_payload input,
               content_redaction = None\<rparr>],
            idempotency_rows := map (\<lambda>r. if idem_of i (in_key input) r then settled_key input n else r)
               (idempotency_rows (claim_key input expired_before db)),
            checkpoint_rows := checkpoint_rows db @ [k],
            checkpoint_chain := checkpoint_chain db @ [k\<lparr>checkpoint_created := []\<rparr>]\<rparr>)"

text \<open>The key is free: unused, or used longer ago than the retention allows.\<close>

definition key_free :: "ledger_input \<Rightarrow> int option \<Rightarrow> 'p ledger \<Rightarrow> bool" where
  "key_free input expired_before db \<longleftrightarrow>
     (case find_idem db (in_problem input) (in_key input) of
        None \<Rightarrow> True | Some r \<Rightarrow> expired expired_before r)"

definition head_current :: "ledger_input \<Rightarrow> head \<Rightarrow> 'p ledger \<Rightarrow> bool" where
  "head_current input before db \<longleftrightarrow>
     (case map_of (problem_rows db) (in_problem input) of
        None \<Rightarrow> False
      | Some p \<Rightarrow> public_seq p = head_seq before \<and> head_digest p = Some (head_chain before))"

definition elected :: "'p ledger_plan \<Rightarrow> ledger_input \<Rightarrow> head \<Rightarrow> int option \<Rightarrow> 'p ledger \<Rightarrow> bool" where
  "elected plan input before expired_before db \<longleftrightarrow>
     head_current input before db \<and> key_free input expired_before db \<and>
     precondition plan (claim_key input expired_before db)"

definition leave_log :: "ledger_input \<Rightarrow> int option \<Rightarrow> 'p ledger \<Rightarrow> 'p ledger" where
  "leave_log input expired_before db = drop_unsettled input (claim_key input expired_before db)"

definition abstract_step ::
  "(string \<Rightarrow> string) \<Rightarrow> 'p ledger_plan \<Rightarrow> ledger_input \<Rightarrow> head \<Rightarrow> int option \<Rightarrow> 'p ledger \<Rightarrow> 'p ledger" where
  "abstract_step sha256 plan input before expired_before db =
     (if elected plan input before expired_before db then append_event sha256 input expired_before db
      else leave_log input expired_before db)"

text \<open>
  The statements read their precondition twice, before and after the head moves; it must not
  depend on the head itself, nor on what the triggers of the head's update change.
\<close>

definition stable_precondition :: "'p ledger_plan \<Rightarrow> bool" where
  "stable_precondition plan \<longleftrightarrow>
     (\<forall>db rows q. head_triggers plan (db\<lparr>problem_rows := rows\<rparr>) = Inr q \<longrightarrow>
        precondition plan (db\<lparr>problem_rows := rows, other_tables := q\<rparr>) = precondition plan db)"

end
