(* ===== verification/LedgerRefine.thy ===== *)
theory LedgerRefine
  imports LedgerSpec
begin

section \<open>The transaction refines the abstract step\<close>

text \<open>
  The statements of \<open>prepareLedgerEventStatements\<close>, run as one batch on well-formed tables, do
  one step of the specification of \<open>LedgerSpec\<close>, and the abstract step keeps the tables
  well-formed. The lemmas follow the statements in their order.
\<close>


subsection \<open>Values and frames\<close>

lemma with_other_Inr: "with_other f db = Inr db' \<longleftrightarrow> (\<exists>q. f db = Inr q \<and> db' = db\<lparr>other_tables := q\<rparr>)"
  by (auto simp: with_other_def split: sum.splits)

lemma find_snoc: "\<forall>y \<in> set xs. \<not> P y \<Longrightarrow> find P (xs @ [x]) = (if P x then Some x else None)"
  by (induction xs) auto

lemma extend_fields [simp]:
  "event_id (envelope_row.extend e m) = event_id e"
  "event_problem (envelope_row.extend e m) = event_problem e"
  "event_seq (envelope_row.extend e m) = event_seq e"
  "payload_digest (envelope_row.extend e m) = payload_digest e"
  "object_version (envelope_row.extend e m) = object_version e"
  "object_id (envelope_row.extend e m) = object_id e"
  by (simp_all add: envelope_row.defs)

lemma envelope_object_extend [simp]: "envelope_object (envelope_row.extend e m) = envelope_object e"
  by (simp add: envelope_object_def envelope_row.defs)

lemma envelope_for_fields [simp]:
  "event_id (envelope_for input n d) = in_event input"
  "event_problem (envelope_for input n d) = in_problem input"
  "event_seq (envelope_for input n d) = n"
  "payload_digest (envelope_for input n d) = d"
  "object_version (envelope_for input n d) = in_version input"
  "object_id (envelope_for input n d) = in_object input"
  by (simp_all add: envelope_for_def split: prod.splits)

lemma prepared_values:
  assumes "prepare_digests sha256 input before = Inr pre"
  shows "prepared_envelope pre = envelope_for input (head_seq before + 1) (sha256 (in_payload input))"
    and "prepared_row pre = row_hash sha256 (prepared_envelope pre)"
    and "prepared_chain pre = link sha256 (head_chain before) (prepared_envelope pre)"
    and "prepared_checkpoint pre = root_hash sha256 (in_problem input) (head_seq before + 1) (prepared_chain pre)"
    and "0 \<le> head_seq before" "head_seq before < max_safe_integer" "bounded_identifier (in_problem input)"
  using assms
  by (auto simp: prepare_digests_def and_then_Inr event_envelope_row_digest_def event_chain_digest_def
      checkpoint_digest_def row_hash_def link_def root_hash_def require_identifier_def Let_def
      split: if_splits)

lemma claim_key_frame:
  "\<exists>rows. claim_key input x db = db\<lparr>idempotency_rows := rows\<rparr>"
proof -
  have "claim_key input x db = db\<lparr>idempotency_rows := idempotency_rows (claim_key input x db)\<rparr>"
    by (simp add: claim_key_def split: option.splits)
  then show ?thesis by blast
qed

lemma claim_key_tables [simp]:
  "problem_rows (claim_key input x db) = problem_rows db"
  "event_rows (claim_key input x db) = event_rows db"
  "chain_rows (claim_key input x db) = chain_rows db"
  "content_rows (claim_key input x db) = content_rows db"
  "checkpoint_rows (claim_key input x db) = checkpoint_rows db"
  "checkpoint_chain (claim_key input x db) = checkpoint_chain db"
  "backfill_rows (claim_key input x db) = backfill_rows db"
  "contiguity_guard (claim_key input x db) = contiguity_guard db"
  "other_tables (claim_key input x db) = other_tables db"
  by (simp_all add: claim_key_def split: option.splits)

lemma find_idem_update [simp]:
  "find_idem (db\<lparr>problem_rows := a\<rparr>) = find_idem db" "find_idem (db\<lparr>other_tables := q\<rparr>) = find_idem db"
  by (simp_all add: find_idem_def fun_eq_iff)

lemma owns_key_update [simp]:
  "owns_key input (db\<lparr>problem_rows := a\<rparr>) = owns_key input db"
  "owns_key input (db\<lparr>other_tables := q\<rparr>) = owns_key input db"
  by (simp_all add: owns_key_def)

lemma find_map_key:
  assumes "find (idem_of i k) rows = Some r" "idem_of i k r'"
  shows "find (idem_of i k) (map (\<lambda>r. if idem_of i k r then r' else r) rows) = Some r'"
  using assms by (induction rows) (auto split: if_splits)

lemma fresh_idem_key [simp]: "idem_of (in_problem input) (in_key input) (fresh_idem input)"
  by (simp add: idem_of_def fresh_idem_def)

text \<open>Claiming a free key makes its row the one to settle.\<close>

lemma claim_free_key:
  assumes "key_free input x db" "map_of (problem_rows db) (in_problem input) = Some p"
  shows "find_idem (claim_key input x db) (in_problem input) (in_key input) = Some (fresh_idem input)"
proof -
  have "in_problem input \<in> set (map fst (problem_rows db))" using assms(2) by (force dest: map_of_SomeD)
  then show ?thesis
  proof (cases "find_idem db (in_problem input) (in_key input)")
    case None
    then have "\<forall>r \<in> set (idempotency_rows db). \<not> idem_of (in_problem input) (in_key input) r"
      by (simp add: find_idem_def find_None_iff)
    with None \<open>in_problem input \<in> _\<close> show ?thesis
      by (simp add: claim_key_def find_idem_def find_snoc)
  next
    case (Some r)
    with assms(1) have "expired x r" by (simp add: key_free_def)
    with Some \<open>in_problem input \<in> _\<close> show ?thesis
      by (simp add: claim_key_def find_idem_def find_map_key)
  qed
qed

lemma keys_ok_settled: "keys_ok db \<Longrightarrow> r \<in> set (idempotency_rows db) \<Longrightarrow> idem_event r \<noteq> None"
  by (auto simp: keys_ok_def list_all_iff list_ex_iff settles_def)

text \<open>The transaction owns its key exactly when the key was free.\<close>

lemma owns_claimed_key:
  assumes "keys_ok db" "map_of (problem_rows db) (in_problem input) = Some p"
  shows "owns_key input (claim_key input x db) \<longleftrightarrow> key_free input x db"
proof
  assume "key_free input x db"
  from claim_free_key [OF this assms(2)] show "owns_key input (claim_key input x db)"
    by (simp add: owns_key_def fresh_idem_def)
next
  assume owns: "owns_key input (claim_key input x db)"
  show "key_free input x db"
  proof (rule ccontr)
    assume "\<not> key_free input x db"
    then obtain r where r: "find_idem db (in_problem input) (in_key input) = Some r" "\<not> expired x r"
      by (auto simp: key_free_def split: option.splits)
    then have "claim_key input x db = db" by (simp add: claim_key_def)
    with owns r have "idem_event r = None" by (simp add: owns_key_def)
    moreover have "r \<in> set (idempotency_rows db)" using r(1) by (auto simp: find_idem_def find_Some_iff)
    ultimately show False using keys_ok_settled [OF assms(1)] by blast
  qed
qed


lemma fresh_sequence:
  assumes "ledger_ok sha256 db" "map_of (problem_rows db) i = Some p" "0 < public_seq p"
  shows "\<exists>e \<in> set (event_rows db). event_problem e = i \<and> event_seq e = public_seq p"
proof -
  have h: "public_seq p = int (length (problem_log db i))" using ledger_ok_head [OF assms(1,2)] by (simp add: head_ok_def)
  have "map event_seq (problem_log db i) = map int [1..<Suc (length (problem_log db i))]"
    using ledger_ok_stream [OF assms(1), of i] by (simp add: stream_ok_def Let_def)
  moreover have "int (length (problem_log db i)) \<in> int ` set [1..<Suc (length (problem_log db i))]"
    using h assms(3) by (intro imageI) (simp add: Suc_le_eq)
  ultimately have "public_seq p \<in> set (map event_seq (problem_log db i))" by (simp only: h set_map)
  then show ?thesis by (auto simp: problem_log_def)
qed

lemma content_exists:
  assumes "contents_ok sha256 db"
  shows "list_ex (\<lambda>c. content_event c = k) (content_rows db) \<longleftrightarrow> event_exists db k"
proof -
  have eq: "map (\<lambda>c. (content_event c, content_digest c)) (content_rows db) =
      map (\<lambda>e. (event_id e, payload_digest e)) (event_rows db)"
    using assms by (simp add: contents_ok_def)
  have "map fst (map (\<lambda>c. (content_event c, content_digest c)) (content_rows db)) =
      map fst (map (\<lambda>e. (event_id e, payload_digest e)) (event_rows db))" by (simp only: eq)
  then have "map content_event (content_rows db) = map event_id (event_rows db)" by (simp add: comp_def)
  then have "k \<in> set (map content_event (content_rows db)) \<longleftrightarrow> k \<in> set (map event_id (event_rows db))" by simp
  then show ?thesis by (auto simp: event_exists_def list_ex_iff)
qed

text \<open>A transaction that does not win the head leaves everything but its key alone.\<close>

lemma elect_head_loses:
  assumes ok: "ledger_ok sha256 db" and lost: "\<not> elected plan input before x db"
  shows "elect_head plan input before c (claim_key input x db) = Inr (claim_key input x db)"
proof (cases "map_of (problem_rows db) (in_problem input)")
  case (Some p)
  from ok have "keys_ok db" by (simp add: ledger_ok_def)
  from owns_claimed_key [OF this Some] lost Some show ?thesis
    by (auto simp: elect_head_def elected_def head_current_def)
qed (simp add: elect_head_def)

lemma insert_event_loses:
  assumes ok: "ledger_ok sha256 db" and e: "event_seq e = head_seq before + 1" "0 \<le> head_seq before"
    "event_problem e = in_problem input"
    and res: "insert_event plan input e r c (claim_key input x db) = Inr db2"
  shows "db2 = claim_key input x db"
proof (cases "map_of (problem_rows db) (in_problem input)")
  case (Some p)
  show ?thesis
  proof (rule ccontr)
    assume "\<not> ?thesis"
    with res Some have "public_seq p = event_seq e" "insert_event_row plan e r c (claim_key input x db) = Inr db2"
      by (auto simp: insert_event_def split: if_splits)
    moreover from fresh_sequence [OF ok Some] e this(1)
    have "list_ex (\<lambda>x. event_id x = event_id e \<or> event_problem x = event_problem e \<and> event_seq x = event_seq e)
        (event_rows db)" by (auto simp: list_ex_iff)
    ultimately show False by (auto simp: insert_event_row_def Let_def split: if_splits)
  qed
qed (use res in \<open>simp add: insert_event_def\<close>)

lemma lost_batch:
  assumes ok: "ledger_ok sha256 db" and pre: "prepare_digests sha256 input before = Inr pre"
    and lost: "\<not> elected plan input before x db"
    and run: "run_batch plan input before x pre db = Inr db'"
  shows "db' = (leave_log input x db)\<lparr>other_tables := other_tables db'\<rparr>"
proof -
  let ?d = "claim_key input x db"
  note v = prepared_values [OF pre]
  from run elect_head_loses [OF ok lost] obtain d2 d3 d4 d5 d6 d7 where
    d2: "insert_event plan input (prepared_envelope pre) (prepared_row pre) (prepared_chain pre) ?d = Inr d2"
    and d3: "insert_content plan input (payload_digest (prepared_envelope pre)) d2 = Inr d3"
    and d4: "with_other (projection_statements plan (settlement_of input pre)) d3 = Inr d4"
    and d5: "insert_checkpoint input (prepared_chain pre) (prepared_checkpoint pre) d4 = Inr d5"
    and d6: "settle_key plan input (settled_seq (settlement_of input pre)) d5 = Inr d6"
    and d7: "with_other (companion_statements plan (settlement_of input pre)) d6 = Inr d7"
    and d8: "db' = drop_unsettled input d7"
    by (auto simp: run_batch_def and_then_Inr Let_def)
  have d2': "d2 = ?d" using insert_event_loses [OF ok _ _ _ d2, of before] v by simp
  have absent: "\<not> event_exists db (in_event input)" and d3': "d3 = ?d"
  proof -
    have c: "list_ex (\<lambda>c. content_event c = in_event input) (content_rows db) \<longleftrightarrow> event_exists db (in_event input)"
      using ok content_exists by (auto simp: ledger_ok_def)
    with d3 d2' show "\<not> event_exists db (in_event input)"
      by (auto simp: insert_content_def event_exists_def Let_def split: if_splits)
    with d3 d2' show "d3 = ?d" by (simp add: insert_content_def event_exists_def)
  qed
  from d4 d3' obtain q where d4': "d4 = ?d\<lparr>other_tables := q\<rparr>" by (auto simp: with_other_Inr)
  have "find (\<lambda>e. event_id e = in_event input) (event_rows db) = None"
    using absent by (auto simp: event_exists_def list_ex_iff find_None_iff)
  with d5 d4' have d5': "d5 = d4" by (simp add: insert_checkpoint_def)
  with d6 d4' absent have d6': "d6 = d4" by (simp add: settle_key_def event_exists_def)
  from d7 d6' d4' obtain q' where "d7 = ?d\<lparr>other_tables := q'\<rparr>" by (auto simp: with_other_Inr)
  with d8 show ?thesis by (simp add: leave_log_def drop_unsettled_def)
qed


lemma owner_found: "owns_key input db \<Longrightarrow> find_idem db (in_problem input) (in_key input) \<noteq> None"
  by (simp add: owns_key_def split: option.splits)

lemma idem_id_iff: "idem_of (in_problem input) (in_key input) r \<longleftrightarrow> idem_id r = (in_problem input, in_key input)"
  by (auto simp: idem_of_def idem_id_def)

lemma idem_of_eq: "idem_of i k = (\<lambda>r. idem_id r = (i, k))"
  by (auto simp: idem_of_def idem_id_def fun_eq_iff)

lemma claim_keeps_ids:
  assumes "keys_ok db"
  shows "distinct (map idem_id (idempotency_rows (claim_key input x db)))"
proof -
  have "map idem_id (map (\<lambda>r. if idem_of (in_problem input) (in_key input) r then fresh_idem input else r) rows)
      = map idem_id rows" for rows
    by (simp add: idem_id_iff) (simp add: idem_id_def fresh_idem_def)
  moreover have "(in_problem input, in_key input) \<notin> idem_id ` set (idempotency_rows db)"
    if "find_idem db (in_problem input) (in_key input) = None"
    using that by (auto simp: find_idem_def find_None_iff idem_id_iff)
  ultimately show ?thesis using assms
    by (auto simp: claim_key_def keys_ok_def split: option.splits simp del: map_map)
      (auto simp: idem_id_def fresh_idem_def)
qed

lemma distinct_find:
  assumes "distinct (map f rows)" "find (\<lambda>r. f r = k) rows = Some r" "r' \<in> set rows"
  shows "f r' = k \<longleftrightarrow> r' = r"
proof -
  from assms(2) have "r \<in> set rows" "f r = k" by (auto simp: find_Some_iff)
  with assms(1,3) show ?thesis by (auto simp: distinct_map dest: inj_onD)
qed

text \<open>The rows of a claimed key: one unsettled row, the others as they were.\<close>

lemma claimed_unsettled:
  assumes "keys_ok db" "find_idem (claim_key input x db) (in_problem input) (in_key input) = Some (fresh_idem input)"
    and "r \<in> set (idempotency_rows (claim_key input x db))"
  shows "unsettled input r \<longleftrightarrow> idem_of (in_problem input) (in_key input) r"
    and "idem_of (in_problem input) (in_key input) r \<Longrightarrow> r = fresh_idem input"
proof -
  have "idem_id r = (in_problem input, in_key input) \<longleftrightarrow> r = fresh_idem input"
    using distinct_find [OF claim_keeps_ids [OF assms(1)] _ assms(3)] assms(2)
    by (simp add: find_idem_def idem_of_eq)
  then show "unsettled input r \<longleftrightarrow> idem_of (in_problem input) (in_key input) r"
    "idem_of (in_problem input) (in_key input) r \<Longrightarrow> r = fresh_idem input"
    by (auto simp: unsettled_def idem_id_iff fresh_idem_def)
qed

lemma elect_head_wins:
  assumes ok: "ledger_ok sha256 db" and won: "elected plan input before x db"
    and res: "elect_head plan input before c (claim_key input x db) = Inr db1"
  shows "\<exists>p q. map_of (problem_rows db) (in_problem input) = Some p \<and> public_seq p = head_seq before \<and>
    head_digest p = Some (head_chain before) \<and>
    head_triggers plan ((claim_key input x db)\<lparr>problem_rows := map_put (in_problem input)
      (p\<lparr>public_seq := head_seq before + 1, head_digest := Some c, problem_updated := in_created input\<rparr>)
      (problem_rows db)\<rparr>) = Inr q \<and>
    db1 = (claim_key input x db)\<lparr>problem_rows := map_put (in_problem input)
      (p\<lparr>public_seq := head_seq before + 1, head_digest := Some c, problem_updated := in_created input\<rparr>)
      (problem_rows db), other_tables := q\<rparr>"
proof -
  from won obtain p where p: "map_of (problem_rows db) (in_problem input) = Some p"
    "public_seq p = head_seq before" "head_digest p = Some (head_chain before)"
    "key_free input x db" "precondition plan (claim_key input x db)"
    by (auto simp: elected_def head_current_def split: option.splits)
  have "head_version p = Some 2" using ledger_ok_head [OF ok p(1)] by (simp add: head_ok_def Let_def)
  moreover have "owns_key input (claim_key input x db)"
    using owns_claimed_key [OF _ p(1)] p(4) ok by (simp add: ledger_ok_def)
  ultimately show ?thesis using res p by (auto simp: elect_head_def with_other_Inr)
qed

lemma insert_event_row_Inr:
  assumes "insert_event_row plan e r c db = Inr db2"
  shows "\<not> event_exists db (event_id e)"
    and "\<exists>q. db2 = db\<lparr>event_rows := event_rows db @ [envelope_row.extend e
            \<lparr>legacy_row_digest = Some r, legacy_chain_digest = Some c\<rparr>],
          chain_rows := chain_rows db @ [\<lparr>chain_event = event_id e, chain_problem = event_problem e,
            chain_seq = event_seq e, row_digest = r, chain_digest = c\<rparr>], other_tables := q\<rparr>"
  using assms
  by (auto simp: insert_event_row_def insert_chain_def Let_def and_then_Inr with_other_Inr event_exists_def
      list_ex_iff split: if_splits)

lemma insert_content_Inr:
  assumes "insert_content plan input d db = Inr db2" "event_exists db (in_event input)"
  shows "\<exists>q. db2 = db\<lparr>content_rows := content_rows db @ [\<lparr>content_event = in_event input,
    content_digest = d, content_json = in_payload input, content_redaction = None\<rparr>], other_tables := q\<rparr>"
  using assms by (auto simp: insert_content_def Let_def with_other_Inr split: if_splits)

lemma insert_checkpoint_Inr:
  assumes "insert_checkpoint input c h db = Inr db2"
    "find (\<lambda>e. event_id e = in_event input) (event_rows db) = Some e"
  shows "db2 = db\<lparr>
    checkpoint_rows := checkpoint_rows db @ [\<lparr>checkpoint_problem = event_problem e,
      checkpoint_seq = event_seq e, root_digest = c, checkpoint_hash = h, checkpoint_created = in_created input\<rparr>],
    checkpoint_chain := checkpoint_chain db @ [\<lparr>checkpoint_problem = event_problem e,
      checkpoint_seq = event_seq e, root_digest = c, checkpoint_hash = h, checkpoint_created = []\<rparr>]\<rparr>"
  using assms by (auto simp: insert_checkpoint_def insert_checkpoint_row_def Let_def split: if_splits)


text \<open>What an elected transaction appends is the next event of the log under the current head.\<close>

lemma elected_values:
  assumes ok: "ledger_ok sha256 db" and won: "elected plan input before x db"
    and pre: "prepare_digests sha256 input before = Inr pre"
  shows "prepared_envelope pre = next_event sha256 db input"
    and "\<lparr>chain_event = in_event input, chain_problem = in_problem input, chain_seq = head_seq before + 1,
         row_digest = prepared_row pre, chain_digest = prepared_chain pre\<rparr> =
       chain_entry sha256 (head_link sha256 db (in_problem input)) (next_event sha256 db input)"
    and "event_seq (next_event sha256 db input) = head_seq before + 1"
proof -
  from won obtain p where p: "map_of (problem_rows db) (in_problem input) = Some p"
    "public_seq p = head_seq before" "head_digest p = Some (head_chain before)"
    by (auto simp: elected_def head_current_def split: option.splits)
  have h: "head_seq before = int (length (problem_log db (in_problem input)))"
    "head_chain before = head_link sha256 db (in_problem input)"
    using ledger_ok_head [OF ok p(1)] p by (simp_all add: head_ok_def Let_def)
  show e: "prepared_envelope pre = next_event sha256 db input"
    using prepared_values(1) [OF pre] h by (simp add: next_event_def)
  show n: "event_seq (next_event sha256 db input) = head_seq before + 1" using h by (simp add: next_event_def)
  show "\<lparr>chain_event = in_event input, chain_problem = in_problem input, chain_seq = head_seq before + 1,
         row_digest = prepared_row pre, chain_digest = prepared_chain pre\<rparr> =
       chain_entry sha256 (head_link sha256 db (in_problem input)) (next_event sha256 db input)"
    using prepared_values(2,3) [OF pre] e n h by (simp add: chain_entry_def next_event_def)
qed

lemma settle_key_wins:
  assumes ok: "keys_ok db"
    and key: "find_idem (claim_key input x db) (in_problem input) (in_key input) = Some (fresh_idem input)"
    and rows: "idempotency_rows db5 = idempotency_rows (claim_key input x db)"
    and e: "event_exists db5 (in_event input)"
    and res: "settle_key plan input n db5 = Inr db6"
  shows "\<exists>q. db6 = db5\<lparr>idempotency_rows := map (\<lambda>r. if idem_of (in_problem input) (in_key input) r
      then settled_key input n else r) (idempotency_rows (claim_key input x db)), other_tables := q\<rparr>"
proof -
  let ?rows = "idempotency_rows (claim_key input x db)"
  note u = claimed_unsettled [OF ok key]
  have "list_ex (unsettled input) ?rows"
    using key u by (auto simp: find_idem_def find_Some_iff list_ex_iff intro: nth_mem)
  then obtain q where "db6 = db5\<lparr>idempotency_rows := map (\<lambda>r. if unsettled input r
      then r\<lparr>idem_event := Some (in_event input), idem_seq := Some n\<rparr> else r) ?rows, other_tables := q\<rparr>"
    using res e rows by (auto simp: settle_key_def with_other_Inr)
  moreover have "map (\<lambda>r. if unsettled input r then r\<lparr>idem_event := Some (in_event input), idem_seq := Some n\<rparr> else r) ?rows
      = map (\<lambda>r. if idem_of (in_problem input) (in_key input) r then settled_key input n else r) ?rows"
    using u by (auto simp: settled_key_def)
  ultimately show ?thesis by (simp only:) blast
qed

lemma no_unsettled_left:
  assumes "keys_ok db" "find_idem (claim_key input x db) (in_problem input) (in_key input) = Some (fresh_idem input)"
  shows "filter (\<lambda>r. \<not> unsettled input r) (map (\<lambda>r. if idem_of (in_problem input) (in_key input) r
      then settled_key input n else r) (idempotency_rows (claim_key input x db))) =
    map (\<lambda>r. if idem_of (in_problem input) (in_key input) r then settled_key input n else r)
      (idempotency_rows (claim_key input x db))"
  using claimed_unsettled [OF assms] by (auto simp: filter_id_conv unsettled_def settled_key_def)

text \<open>The first two statements: the head moves and the event row appears under it.\<close>

lemma won_head:
  assumes ok: "ledger_ok sha256 db" and pre: "prepare_digests sha256 input before = Inr pre"
    and won: "elected plan input before x db" and stable: "stable_precondition plan"
    and d1: "elect_head plan input before (prepared_chain pre) (claim_key input x db) = Inr d1"
    and d2: "insert_event plan input (prepared_envelope pre) (prepared_row pre) (prepared_chain pre) d1 = Inr d2"
  shows "\<not> event_exists db (in_event input)"
    and "\<exists>p q. map_of (problem_rows db) (in_problem input) = Some p \<and>
      d2 = (claim_key input x db)\<lparr>
        problem_rows := map_put (in_problem input) (p\<lparr>public_seq := head_seq before + 1,
          head_digest := Some (prepared_chain pre), problem_updated := in_created input\<rparr>) (problem_rows db),
        event_rows := event_rows db @ [envelope_row.extend (prepared_envelope pre)
          \<lparr>legacy_row_digest = Some (prepared_row pre), legacy_chain_digest = Some (prepared_chain pre)\<rparr>],
        chain_rows := chain_rows db @ [\<lparr>chain_event = in_event input, chain_problem = in_problem input,
          chain_seq = head_seq before + 1, row_digest = prepared_row pre, chain_digest = prepared_chain pre\<rparr>],
        other_tables := q\<rparr>"
proof -
  let ?d = "claim_key input x db" and ?i = "in_problem input"
  let ?p' = "\<lambda>p. p\<lparr>public_seq := head_seq before + 1, head_digest := Some (prepared_chain pre),
    problem_updated := in_created input\<rparr>"
  from elect_head_wins [OF ok won d1] obtain p q where p: "map_of (problem_rows db) ?i = Some p"
    and t: "head_triggers plan (?d\<lparr>problem_rows := map_put ?i (?p' p) (problem_rows db)\<rparr>) = Inr q"
    and d1': "d1 = ?d\<lparr>problem_rows := map_put ?i (?p' p) (problem_rows db), other_tables := q\<rparr>" by auto
  have e: "event_id (prepared_envelope pre) = in_event input" "event_problem (prepared_envelope pre) = ?i"
    "event_seq (prepared_envelope pre) = head_seq before + 1"
    using prepared_values(1) [OF pre] by simp_all
  have key: "find_idem ?d ?i (in_key input) = Some (fresh_idem input)"
    using claim_free_key [OF _ p] won by (simp add: elected_def)
  then have "owns_key input d1" using d1' by (simp add: owns_key_def fresh_idem_def)
  moreover have "precondition plan d1"
    using stable t d1' won by (auto simp: stable_precondition_def elected_def)
  ultimately have row: "insert_event_row plan (prepared_envelope pre) (prepared_row pre) (prepared_chain pre) d1 = Inr d2"
    using d2 d1' e(3) by (simp add: insert_event_def)
  show "\<not> event_exists db (in_event input)"
    using insert_event_row_Inr(1) [OF row] d1' e(1) by (simp add: event_exists_def)
  from insert_event_row_Inr(2) [OF row] d1' e p show "\<exists>p q. map_of (problem_rows db) ?i = Some p \<and> d2 =
      ?d\<lparr>problem_rows := map_put ?i (?p' p) (problem_rows db),
        event_rows := event_rows db @ [envelope_row.extend (prepared_envelope pre)
          \<lparr>legacy_row_digest = Some (prepared_row pre), legacy_chain_digest = Some (prepared_chain pre)\<rparr>],
        chain_rows := chain_rows db @ [\<lparr>chain_event = in_event input, chain_problem = ?i,
          chain_seq = head_seq before + 1, row_digest = prepared_row pre, chain_digest = prepared_chain pre\<rparr>],
        other_tables := q\<rparr>" by auto
qed

lemma won_batch:
  assumes ok: "ledger_ok sha256 db" and pre: "prepare_digests sha256 input before = Inr pre"
    and won: "elected plan input before x db" and stable: "stable_precondition plan"
    and run: "run_batch plan input before x pre db = Inr db'"
  shows "db' = (append_event sha256 input x db)\<lparr>other_tables := other_tables db'\<rparr>"
    and "\<not> event_exists db (in_event input)"
proof -
  let ?d = "claim_key input x db" and ?i = "in_problem input" and ?n = "head_seq before + 1"
    and ?c = "prepared_chain pre"
  have keys: "keys_ok db" using ok by (simp add: ledger_ok_def)
  from run obtain d1 d2 d3 d4 d5 d6 d7 where
    d1: "elect_head plan input before ?c ?d = Inr d1"
    and d2: "insert_event plan input (prepared_envelope pre) (prepared_row pre) ?c d1 = Inr d2"
    and d3: "insert_content plan input (payload_digest (prepared_envelope pre)) d2 = Inr d3"
    and d4: "with_other (projection_statements plan (settlement_of input pre)) d3 = Inr d4"
    and d5: "insert_checkpoint input ?c (prepared_checkpoint pre) d4 = Inr d5"
    and d6: "settle_key plan input (settled_seq (settlement_of input pre)) d5 = Inr d6"
    and d7: "with_other (companion_statements plan (settlement_of input pre)) d6 = Inr d7"
    and d8: "db' = drop_unsettled input d7"
    by (auto simp: run_batch_def and_then_Inr Let_def)
  from won_head [OF ok pre won stable d1 d2] obtain p q
    where absent: "\<not> event_exists db (in_event input)"
      and p: "map_of (problem_rows db) ?i = Some p" and d2': "d2 = ?d\<lparr>
        problem_rows := map_put ?i (p\<lparr>public_seq := ?n, head_digest := Some ?c,
          problem_updated := in_created input\<rparr>) (problem_rows db),
        event_rows := event_rows db @ [envelope_row.extend (prepared_envelope pre)
          \<lparr>legacy_row_digest = Some (prepared_row pre), legacy_chain_digest = Some ?c\<rparr>],
        chain_rows := chain_rows db @ [\<lparr>chain_event = in_event input, chain_problem = ?i, chain_seq = ?n,
          row_digest = prepared_row pre, chain_digest = ?c\<rparr>], other_tables := q\<rparr>" by blast
  show "\<not> event_exists db (in_event input)" by (rule absent)
  note e = prepared_values(1) [OF pre] elected_values(1) [OF ok won pre, symmetric]
  have n: "settled_seq (settlement_of input pre) = ?n" using e(1) by (simp add: settlement_of_def)
  have key: "find_idem ?d ?i (in_key input) = Some (fresh_idem input)"
    using claim_free_key [OF _ p] won by (simp add: elected_def)
  from insert_content_Inr [OF d3] d2' e(1) obtain q3 where d3': "d3 = d2\<lparr>content_rows := content_rows db @
      [\<lparr>content_event = in_event input, content_digest = sha256 (in_payload input),
        content_json = in_payload input, content_redaction = None\<rparr>], other_tables := q3\<rparr>"
    by (auto simp: event_exists_def)
  from d4 obtain q4 where d4': "d4 = d3\<lparr>other_tables := q4\<rparr>" by (auto simp: with_other_Inr)
  have "find (\<lambda>x. event_id x = in_event input) (event_rows d4) = Some (last (event_rows d4))"
    using absent e(1) d4' d3' d2' by (simp add: event_exists_def list_ex_iff find_snoc)
  from insert_checkpoint_Inr [OF d5 this] have d5': "d5 = d4\<lparr>
      checkpoint_rows := checkpoint_rows db @ [\<lparr>checkpoint_problem = ?i, checkpoint_seq = ?n, root_digest = ?c,
        checkpoint_hash = prepared_checkpoint pre, checkpoint_created = in_created input\<rparr>],
      checkpoint_chain := checkpoint_chain db @ [\<lparr>checkpoint_problem = ?i, checkpoint_seq = ?n,
        root_digest = ?c, checkpoint_hash = prepared_checkpoint pre, checkpoint_created = []\<rparr>]\<rparr>"
    using d4' d3' d2' e(1) by simp
  have "idempotency_rows d5 = idempotency_rows ?d" "event_exists d5 (in_event input)"
    using d5' d4' d3' d2' e(1) by (simp_all add: event_exists_def)
  from settle_key_wins [OF keys key this d6 [unfolded n]]
  obtain q6 where d6': "d6 = d5\<lparr>idempotency_rows := map (\<lambda>r. if idem_of ?i (in_key input) r
      then settled_key input ?n else r) (idempotency_rows ?d), other_tables := q6\<rparr>" by blast
  from d7 obtain q7 where d7': "d7 = d6\<lparr>other_tables := q7\<rparr>" by (auto simp: with_other_Inr)
  from claim_key_frame [of input x db] obtain rows where frame: "?d = db\<lparr>idempotency_rows := rows\<rparr>" by blast
  have "db' = d7" using d8 d7' d6' no_unsettled_left [OF keys key] by (simp add: drop_unsettled_def)
  then show "db' = (append_event sha256 input x db)\<lparr>other_tables := other_tables db'\<rparr>"
    using d7' d6' d5' d4' d3' d2' frame elected_values(2,3) [OF ok won pre, symmetric] e(2) p
      prepared_values(4) [OF pre]
    by (simp add: append_event_def Let_def)
qed


subsection \<open>The abstract step keeps the tables well-formed\<close>

lemma ledger_ok_other [simp]: "ledger_ok sha256 (db\<lparr>other_tables := q\<rparr>) = ledger_ok sha256 db"
  by (simp add: ledger_ok_def head_ok_def stream_ok_def contents_ok_def keys_ok_def row_problems_def
      problem_log_def head_link_def cong: list.pred_cong)

lemma expired_key_rows:
  assumes "keys_ok db"
  shows "filter (\<lambda>r. \<not> unsettled input r) (idempotency_rows (claim_key input x db)) =
    filter (\<lambda>r. \<not> (in_problem input \<in> set (map fst (problem_rows db)) \<and>
      idem_of (in_problem input) (in_key input) r \<and> expired x r)) (idempotency_rows db)"
    (is "?left = ?right")
proof (cases "in_problem input \<in> set (map fst (problem_rows db))")
  case known: True
  have old: "\<not> unsettled input r" if "r \<in> set (idempotency_rows db)" for r
    using keys_ok_settled [OF assms that] by (simp add: unsettled_def)
  have new: "unsettled input (fresh_idem input)" by (simp add: unsettled_def) (simp add: fresh_idem_def)
  show ?thesis
  proof (cases "find_idem db (in_problem input) (in_key input)")
    case None
    then have "\<forall>r \<in> set (idempotency_rows db). \<not> idem_of (in_problem input) (in_key input) r"
      by (simp add: find_idem_def find_None_iff)
    with None known old new show ?thesis by (simp add: claim_key_def filter_id_conv)
  next
    case (Some r)
    let ?k = "idem_of (in_problem input) (in_key input)"
    have same: "?k s \<longleftrightarrow> s = r" if "s \<in> set (idempotency_rows db)" for s
      using distinct_find [of idem_id _ "(in_problem input, in_key input)" r, OF _ _ that] assms Some by (simp add: find_idem_def idem_of_eq keys_ok_def)
    have "filter (\<lambda>r. \<not> unsettled input r) (map (\<lambda>s. if ?k s then fresh_idem input else s) rows) =
        filter (\<lambda>s. \<not> (?k s \<and> expired x s)) rows"
      if "expired x r" "set rows \<subseteq> set (idempotency_rows db)" for rows
      using that(2) by (induction rows) (use that(1) same old new in auto)
    with Some known same old show ?thesis
      by (auto simp: claim_key_def filter_id_conv intro!: filter_cong)
  qed
next
  case False
  with keys_ok_settled [OF assms] show ?thesis by (auto simp: claim_key_def filter_id_conv unsettled_def)
qed

lemma leave_log_frame:
  assumes "keys_ok db"
  shows "leave_log input x db = db\<lparr>idempotency_rows := filter (\<lambda>r. \<not> (in_problem input \<in> set (map fst (problem_rows db)) \<and>
      idem_of (in_problem input) (in_key input) r \<and> expired x r)) (idempotency_rows db)\<rparr>"
proof -
  from claim_key_frame [of input x db] obtain rows where "claim_key input x db = db\<lparr>idempotency_rows := rows\<rparr>" by blast
  then show ?thesis using expired_key_rows [OF assms, of input x] by (simp add: leave_log_def drop_unsettled_def)
qed

lemma leave_log_ok:
  assumes "ledger_ok sha256 db"
  shows "ledger_ok sha256 (leave_log input x db)"
proof -
  have k: "keys_ok db" using assms by (simp add: ledger_ok_def)
  then have "keys_ok (db\<lparr>idempotency_rows := filter P (idempotency_rows db)\<rparr>)" for P
    by (auto simp: keys_ok_def list_all_iff distinct_map_filter)
  with assms show ?thesis unfolding leave_log_frame [OF k]
    by (simp add: ledger_ok_def head_ok_def stream_ok_def contents_ok_def row_problems_def
        problem_log_def head_link_def cong: list.pred_cong)
qed

lemma log_append [simp]:
  "problem_log (append_event sha256 input x db) i =
     problem_log db i @ (if i = in_problem input then [last (event_rows (append_event sha256 input x db))] else [])"
  by (simp add: problem_log_def append_event_def Let_def next_event_def)

lemma link_extend [simp]: "link sha256 d (envelope_row.extend e m) = link sha256 d e"
  and row_hash_extend [simp]: "row_hash sha256 (envelope_row.extend e m) = row_hash sha256 e"
  and chain_entry_extend [simp]: "chain_entry sha256 d (envelope_row.extend e m) = chain_entry sha256 d e"
  by (simp_all add: link_def row_hash_def chain_entry_def)

lemma append_stream_ok:
  assumes "stream_ok sha256 db i" "1 \<le> in_version input" "in_version input \<le> max_safe_integer"
  shows "stream_ok sha256 (append_event sha256 input x db) i"
proof (cases "i = in_problem input")
  case True
  let ?e = "next_event sha256 db input"
  have n: "event_seq ?e = int (length (problem_log db i)) + 1" "event_problem ?e = i" "event_id ?e = in_event input"
    "object_version ?e = in_version input" using True by (simp_all add: next_event_def)
  have r: "last (event_rows (append_event sha256 input x db)) = envelope_row.extend ?e
      \<lparr>legacy_row_digest = Some (row_hash sha256 ?e), legacy_chain_digest = Some (link sha256 (head_link sha256 db i) ?e)\<rparr>"
    using True by (simp add: append_event_def Let_def chain_entry_def)
  have d: "stored_digests (envelope_row.extend ?e m) = (legacy_row_digest (envelope_row.extend ?e m), legacy_chain_digest (envelope_row.extend ?e m))" for m
    by (simp add: stored_digests_def)
  show ?thesis using assms True n r
    by (simp add: stream_ok_def Let_def chained_snoc)
      (simp add: append_event_def Let_def chain_entry_def head_link_def checkpoint_key_def checkpoint_entry_def
        stored_digests_def chain_digests_def version_ok_def envelope_row.defs)
next
  case False
  with assms(1) show ?thesis
    by (simp add: stream_ok_def Let_def) (simp add: append_event_def Let_def chain_entry_def next_event_def)
qed


lemma distinct_fst_put [simp]: "distinct (map fst (map_put k v m)) = distinct (map fst m)"
  using distinct_keys_put [of k v m] unfolding map_keys_def .

lemma map_put_distinct_cases:
  assumes "distinct (map fst m)" "(j, v') \<in> set (map_put k v m)"
  shows "if j = k then v' = v else (j, v') \<in> set m"
proof -
  have "map_of (map_put k v m) j = Some v'"
    using assms by (simp del: map_of_put add: map_of_eq_Some_iff)
  then have "(if j = k then Some v else map_of m j) = Some v'" by simp
  then show ?thesis by (auto dest: map_of_SomeD split: if_splits)
qed

lemma append_tables [simp]:
  "backfill_rows (append_event sha256 input x db) = backfill_rows db"
  "contiguity_guard (append_event sha256 input x db) = contiguity_guard db"
  "other_tables (append_event sha256 input x db) = other_tables db"
  by (simp_all add: append_event_def Let_def)

lemma append_heads:
  assumes ok: "ledger_ok sha256 db" and p: "map_of (problem_rows db) (in_problem input) = Some p"
    and room: "public_seq p < max_safe_integer"
    and m: "(i, p') \<in> set (problem_rows (append_event sha256 input x db))"
  shows "head_ok sha256 (append_event sha256 input x db) (i, p')"
proof (cases "i = in_problem input")
  case True
  have "distinct (map fst (problem_rows db))" using ok by (simp add: ledger_ok_def)
  from map_put_distinct_cases [OF this, of i p'] m True
  have p': "p' = p\<lparr>public_seq := event_seq (next_event sha256 db input),
      head_digest := Some (chain_digest (chain_entry sha256 (head_link sha256 db i) (next_event sha256 db input))),
      problem_updated := in_created input\<rparr>"
    using p by (simp add: append_event_def Let_def)
  have r: "link sha256 d (last (event_rows (append_event sha256 input x db))) = link sha256 d (next_event sha256 db input)" for d
    by (simp add: append_event_def Let_def)
  from p' ledger_ok_head [OF ok p] True room r show ?thesis
    by (simp add: head_ok_def Let_def head_link_def chain_entry_def next_event_def)
next
  case False
  have "distinct (map fst (problem_rows db))" using ok by (simp add: ledger_ok_def)
  from map_put_distinct_cases [OF this, of i p'] m False
  have "(i, p') \<in> set (problem_rows db)" by (simp add: append_event_def Let_def)
  with ok have "head_ok sha256 db (i, p')" by (auto simp: ledger_ok_def list_all_iff)
  with False show ?thesis by (simp add: head_ok_def Let_def head_link_def)
qed

lemma append_contents_ok:
  "contents_ok sha256 db \<Longrightarrow> contents_ok sha256 (append_event sha256 input x db)"
  by (simp add: contents_ok_def append_event_def Let_def next_event_def)

lemma claim_key_rows:
  "r \<in> set (idempotency_rows (claim_key input x db)) \<Longrightarrow> r = fresh_idem input \<or> r \<in> set (idempotency_rows db)"
  by (auto simp: claim_key_def split: option.splits if_splits)

lemma append_keys_ok:
  assumes "keys_ok db"
  shows "keys_ok (append_event sha256 input x db)"
proof -
  let ?f = "\<lambda>r. if idem_of (in_problem input) (in_key input) r
    then settled_key input (event_seq (next_event sha256 db input)) else r"
  let ?rows = "idempotency_rows (claim_key input x db)" and ?es = "event_rows (append_event sha256 input x db)"
  have "idem_id (?f r) = idem_id r" for r
    by (simp add: idem_id_iff) (simp add: idem_id_def settled_key_def fresh_idem_def)
  then have "map idem_id (map ?f ?rows) = map idem_id ?rows" by simp
  then have "distinct (map idem_id (map ?f ?rows))" using claim_keeps_ids [OF assms] by (simp only:)
  moreover have "list_ex (settles (?f r)) ?es" if r: "r \<in> set ?rows" for r
  proof (cases "idem_of (in_problem input) (in_key input) r")
    case True
    then show ?thesis
      by (simp add: append_event_def Let_def settles_def settled_key_def fresh_idem_def next_event_def)
  next
    case False
    with claim_key_rows [OF r] have "r \<in> set (idempotency_rows db)" by auto
    with assms have "list_ex (settles r) (event_rows db)" by (simp add: keys_ok_def list_all_iff)
    with False show ?thesis by (auto simp: append_event_def Let_def list_ex_iff)
  qed
  then have "list_all (\<lambda>r. list_ex (settles r) ?es) (map ?f ?rows)"
    unfolding list_all_iff set_map by blast
  ultimately show ?thesis unfolding keys_ok_def by (simp add: append_event_def Let_def)
qed

lemma append_ok:
  assumes ok: "ledger_ok sha256 db" and p: "map_of (problem_rows db) (in_problem input) = Some p"
    and room: "public_seq p < max_safe_integer" and fresh: "\<not> event_exists db (in_event input)"
    and v: "1 \<le> in_version input" "in_version input \<le> max_safe_integer"
  shows "ledger_ok sha256 (append_event sha256 input x db)"
proof (rule ledger_ok_intro)
  have keys: "set (map fst (problem_rows (append_event sha256 input x db))) =
      insert (in_problem input) (set (map fst (problem_rows db)))"
    using set_keys_put by (simp add: append_event_def Let_def map_keys_def)
  show "e \<in> set (event_rows (append_event sha256 input x db)) \<Longrightarrow>
      event_problem e \<in> set (map fst (problem_rows (append_event sha256 input x db)))" for e
    unfolding keys using ok
    by (auto simp: append_event_def Let_def next_event_def ledger_ok_def row_problems_def list_all_iff)
  show "distinct (map fst (problem_rows (append_event sha256 input x db)))"
    using ok by (simp add: append_event_def Let_def ledger_ok_def)
  show "distinct (map event_id (event_rows (append_event sha256 input x db)))"
    using ok fresh
    by (auto simp: append_event_def Let_def next_event_def ledger_ok_def event_exists_def list_ex_iff)
  show "contents_ok sha256 (append_event sha256 input x db)" "keys_ok (append_event sha256 input x db)"
    using ok append_contents_ok append_keys_ok by (auto simp: ledger_ok_def)
  show "set (map fst (backfill_rows (append_event sha256 input x db))) \<subseteq> set (map fst (problem_rows (append_event sha256 input x db)))"
    unfolding keys using ok by (auto simp: ledger_ok_def row_problems_def list_all_iff)
qed (use ok append_heads [OF ok p room] append_stream_ok [OF ledger_ok_stream [OF ok] v]
    in \<open>simp_all add: ledger_ok_def\<close>)

lemma batch_keeps_ledger:
  assumes ok: "ledger_ok sha256 db" and pre: "prepare_digests sha256 input before = Inr pre"
    and stable: "stable_precondition plan"
    and v: "1 \<le> in_version input" "in_version input \<le> max_safe_integer"
    and run: "run_batch plan input before x pre db = Inr db'"
  shows "ledger_ok sha256 db'"
proof (cases "elected plan input before x db")
  case True
  then obtain p where p: "map_of (problem_rows db) (in_problem input) = Some p" "public_seq p = head_seq before"
    by (auto simp: elected_def head_current_def split: option.splits)
  have "ledger_ok sha256 (append_event sha256 input x db)"
    using append_ok [OF ok p(1) _ won_batch(2) [OF ok pre True stable run] v] p(2) prepared_values(6) [OF pre] by simp
  with won_batch(1) [OF ok pre True stable run] ledger_ok_other show ?thesis by metis
next
  case False
  with lost_batch [OF ok pre False run] leave_log_ok [OF ok] ledger_ok_other show ?thesis by metis
qed

end
