(* ===== verification/LedgerRuns.thy ===== *)
theory LedgerRuns
  imports LedgerRefine Machine
begin

section \<open>Every history of the ledger\<close>

text \<open>
  The steps that the writers of krater.ts can take, in any order and by any number of writers,
  and the invariant of every state that they reach. A call of the event writer is itself such a
  history, with other writers between all of its steps.
\<close>

subsection \<open>The preflight of a well-formed problem\<close>

lemma chained_last:
  "es \<noteq> [] \<Longrightarrow> last (chained sha256 prior es) = chain_entry sha256 (foldl (link sha256) prior (butlast es)) (last es) \<and>
     chained sha256 prior es \<noteq> []"
  by (induction es rule: rev_induct) (simp_all add: chained_snoc)

lemma map_last: "es \<noteq> [] \<Longrightarrow> map f es = map g cs \<Longrightarrow> f (last es) = g (last cs)"
  by (metis last_map list.map_disc_iff)

text \<open>The last row of every stream is the one the head names.\<close>

lemma last_of_stream:
  assumes ok: "ledger_ok sha256 db" and p: "map_of (problem_rows db) i = Some p" "public_seq p \<noteq> 0"
  shows "\<exists>c \<in> set (chain_rows db). chain_problem c = i \<and> chain_seq c = public_seq p \<and>
      Some (chain_digest c) = head_digest p"
    and "\<exists>k \<in> set (checkpoint_chain db). checkpoint_problem k = i \<and> checkpoint_seq k = public_seq p \<and>
      Some (root_digest k) = head_digest p"
proof -
  let ?es = "problem_log db i" and ?g = "genesis sha256 i"
  let ?cs = "chained sha256 ?g ?es" and ?ks = "filter (\<lambda>k. checkpoint_problem k = i) (checkpoint_chain db)"
  have s: "map event_seq ?es = map int [1..<Suc (length ?es)]"
    "filter (\<lambda>c. chain_problem c = i) (chain_rows db) = ?cs"
    "map checkpoint_key ?ks = map (checkpoint_entry sha256) ?cs"
    using ledger_ok_stream [OF ok, of i] by (simp_all add: stream_ok_def Let_def)
  have h: "public_seq p = int (length ?es)" "head_digest p = Some (foldl (link sha256) ?g ?es)"
    using ledger_ok_head [OF ok p(1)] by (simp_all add: head_ok_def Let_def head_link_def)
  have ne: "?es \<noteq> []" using h(1) p(2) by auto
  have l: "foldl (link sha256) ?g ?es = link sha256 (foldl (link sha256) ?g (butlast ?es)) (last ?es)"
    using ne by (metis append_butlast_last_id foldl.simps foldl_append)
  have seq: "event_seq (last ?es) = public_seq p"
    using arg_cong [OF s(1), of last] ne h(1) by (simp add: last_map Suc_le_eq)
  have c: "last ?cs = chain_entry sha256 (foldl (link sha256) ?g (butlast ?es)) (last ?es)" "?cs \<noteq> []"
    using chained_last [OF ne] by auto
  have prob: "event_problem (last ?es) = i" using ne last_in_set [of ?es] by (auto simp: problem_log_def)
  have m: "last ?cs \<in> set (chain_rows db)" using c(2) s(2) last_in_set by (metis filter_is_subset subsetD)
  with c(1) seq h l prob show "\<exists>c \<in> set (chain_rows db). chain_problem c = i \<and> chain_seq c = public_seq p \<and>
      Some (chain_digest c) = head_digest p" by (intro bexI [of _ "last ?cs"]) (simp_all add: chain_entry_def)
  have "length ?ks = length ?cs" using arg_cong [OF s(3), of length] by simp
  then have kne: "?ks \<noteq> []" using c(2) by auto
  have k: "checkpoint_key (last ?ks) = checkpoint_entry sha256 (last ?cs)" using map_last [OF kne s(3)] .
  have "last ?ks \<in> set (checkpoint_chain db)" using kne last_in_set by (metis filter_is_subset subsetD)
  with k c(1) seq h l prob show "\<exists>k \<in> set (checkpoint_chain db). checkpoint_problem k = i \<and>
      checkpoint_seq k = public_seq p \<and> Some (root_digest k) = head_digest p"
    by (intro bexI [of _ "last ?ks"]) (simp_all add: checkpoint_key_def checkpoint_entry_def chain_entry_def)
qed

lemma no_undigested:
  assumes "ledger_ok sha256 db"
  shows "\<not> first_undigested db i"
proof -
  have "map stored_digests (problem_log db i) = map chain_digests (chained sha256 (genesis sha256 i) (problem_log db i))"
    using ledger_ok_stream [OF assms, of i] by (simp add: stream_ok_def Let_def)
  then have "stored_digests ` set (problem_log db i) \<subseteq> range chain_digests" by (metis list.set_map image_mono subset_UNIV)
  then show ?thesis
    by (auto simp: first_undigested_def list_ex_iff problem_log_def stored_digests_def chain_digests_def image_subset_iff)
qed

lemma preflight_passes:
  assumes ok: "ledger_ok sha256 db" and p: "map_of (problem_rows db) i = Some p"
  shows "upgraded sha256 db i p"
proof -
  have h: "head_ok sha256 db (i, p)" using ledger_ok_head [OF ok p] .
  have "public_seq p = 0 \<Longrightarrow> head_digest p = Some (genesis sha256 i)"
    using h by (simp add: head_ok_def Let_def head_link_def)
  moreover have "genesis_chain_digest sha256 i = Inr (genesis sha256 i)"
    using h by (simp add: head_ok_def Let_def genesis_chain_digest_def require_identifier_def require_def genesis_def)
  moreover have "terminal_complete db i p"
    using last_of_stream [OF ok p] by (auto simp: terminal_complete_def list_ex_iff)
  ultimately show ?thesis using h no_undigested [OF ok, of i]
    by (auto simp: upgraded_def head_ok_def Let_def krater_chain_version_def split: option.splits)
qed

lemma preflight_is_idle:
  assumes ok: "ledger_ok sha256 db" and p: "map_of (problem_rows db) i = Some p"
    and run: "backfill_integrity sha256 rebuild db i t now = Inr db'"
  shows "db' = db"
  using run preflight_passes [OF ok p] p
  by (auto simp: backfill_integrity_def and_then_Inr split: if_splits)

text \<open>Creating a problem that is not there yet: an empty log at its genesis.\<close>

definition created_problem :: "(string \<Rightarrow> string) \<Rightarrow> string \<Rightarrow> string \<Rightarrow> 'p ledger \<Rightarrow> 'p ledger" where
  "created_problem sha256 i t db =
     db\<lparr>problem_rows := problem_rows db @ [(i, \<lparr>public_seq = 0, head_digest = Some (genesis sha256 i),
          head_version = Some 2, problem_updated = t\<rparr>)],
        backfill_rows := backfill_rows db @ [(i, \<lparr>backfill_complete = True, legacy_event_count = 0,
          backfill_version = Some 2\<rparr>)]\<rparr>"

lemma absent_problem:
  assumes ok: "ledger_ok sha256 db" and no: "map_of (problem_rows db) i = None"
  shows "problem_log db i = []" "map_of (backfill_rows db) i = None" "i \<notin> set (map fst (problem_rows db))"
    "legacy_checkpoints db i = []" "legacy_events db i = []" "i \<notin> set (map fst (backfill_rows db))"
proof -
  show k: "i \<notin> set (map fst (problem_rows db))" using no by (simp add: map_of_eq_None_iff)
  with ok have r: "i \<notin> set (row_problems db)" by (auto simp: ledger_ok_def list_all_iff)
  then have "filter (\<lambda>e. event_problem e = i) (event_rows db) = []"
    "filter (\<lambda>k. checkpoint_problem k = i) (checkpoint_rows db) = []"
    by (auto simp: row_problems_def filter_empty_conv)
  then show "problem_log db i = []" "legacy_events db i = []" "legacy_checkpoints db i = []"
    by (simp_all add: problem_log_def legacy_events_def legacy_checkpoints_def)
  from r show "map_of (backfill_rows db) i = None" "i \<notin> set (map fst (backfill_rows db))"
    by (auto simp: row_problems_def map_of_eq_None_iff)
qed

lemma map_absent: "i \<notin> set (map fst m) \<Longrightarrow> map (\<lambda>(j, p). if j = i \<and> P p then (j, f p) else (j, p)) m = m"
  by (induction m) auto

lemma created_backfill:
  assumes ok: "ledger_ok sha256 db" and no: "map_of (problem_rows db) i = None" and "bounded_identifier i"
    and "validate_ingress_timestamp t now = Inr u"
  shows "backfill_integrity sha256 rebuild (db\<lparr>problem_rows := map_put i
      \<lparr>public_seq = 0, head_digest = None, head_version = None, problem_updated = t\<rparr> (problem_rows db)\<rparr>) i t now =
    Inr (created_problem sha256 i t db)"
proof -
  note a = absent_problem [OF ok no]
  let ?p = "\<lparr>public_seq = 0, head_digest = None, head_version = None, problem_updated = t\<rparr>"
  let ?db = "db\<lparr>problem_rows := map_put i ?p (problem_rows db)\<rparr>"
  have legacy: "legacy_events ?db i = []" "legacy_checkpoints ?db i = []"
    using a by (simp_all add: legacy_events_def legacy_checkpoints_def)
  have "replay_refusal ?db i ?p = None"
    using legacy a(2) by (simp add: replay_refusal_def max_integrity_backfill_events_def)
  moreover have "genesis_chain_digest sha256 i = Inr (genesis sha256 i)" "\<exists>d. legacy_genesis_v1 sha256 i = Inr d"
    using assms(3) by (simp_all add: genesis_chain_digest_def require_identifier_def require_def genesis_def legacy_genesis_v1_def)
  moreover have "close_backfill i 0 (genesis sha256 i) (open_backfill i 0 ?db) = created_problem sha256 i t db"
    using a(2,3,6) by (simp add: close_backfill_def open_backfill_def created_problem_def map_put_fresh map_keys_def
        map_absent)
  ultimately have "replay_history sha256 rebuild ?db i ?p = Inr (created_problem sha256 i t db)"
    using legacy by (auto simp: replay_history_def Let_def)
  moreover have "\<not> upgraded sha256 ?db i ?p" by (simp add: upgraded_def)
  ultimately show ?thesis using assms(3,4) ok
    by (simp add: backfill_integrity_def require_identifier_def require_def require_stored_sequence_def
        safe_nonnegative_def max_safe_integer_def ledger_ok_def)
qed

lemma created_problem_ok:
  assumes ok: "ledger_ok sha256 db" and no: "map_of (problem_rows db) i = None" and i: "bounded_identifier i"
  shows "ledger_ok sha256 (created_problem sha256 i t db)"
proof (rule ledger_ok_intro)
  note a = absent_problem [OF ok no]
  show "head_ok sha256 (created_problem sha256 i t db) (j, p)"
    if "(j, p) \<in> set (problem_rows (created_problem sha256 i t db))" for j p
  proof (cases "j = i")
    case True
    with that a(3) have "p = \<lparr>public_seq = 0, head_digest = Some (genesis sha256 i), head_version = Some 2, problem_updated = t\<rparr>"
      by (force simp: created_problem_def)
    with True a(1,2) i show ?thesis
      by (simp add: head_ok_def Let_def created_problem_def problem_log_def head_link_def max_safe_integer_def map_add_def)
  next
    case False
    with that have "(j, p) \<in> set (problem_rows db)" by (auto simp: created_problem_def)
    with ok have "head_ok sha256 db (j, p)" by (auto simp: ledger_ok_def list_all_iff)
    with False show ?thesis
      by (auto simp: head_ok_def Let_def created_problem_def problem_log_def head_link_def map_add_def
          split: option.splits)
  qed
  show "stream_ok sha256 (created_problem sha256 i t db) j" for j
    using ledger_ok_stream [OF ok, of j] by (simp add: stream_ok_def created_problem_def problem_log_def)
qed (use ok absent_problem [OF ok no] in \<open>auto simp: created_problem_def ledger_ok_def list_all_iff row_problems_def
    contents_ok_def keys_ok_def\<close>)

lemma ensure_problem_shape:
  assumes ok: "ledger_ok sha256 db" and run: "ensure_problem sha256 rebuild db i t now = (r, db')"
  shows "db' = db \<or> map_of (problem_rows db) i = None \<and> bounded_identifier i \<and> db' = created_problem sha256 i t db"
proof (cases "and_then (require_identifier i) (\<lambda>_. validate_ingress_timestamp t now)")
  case (Inl e)
  with run ok show ?thesis by (simp add: ensure_problem_def)
next
  case (Inr u)
  then have v: "bounded_identifier i" "validate_ingress_timestamp t now = Inr u"
    by (auto simp: require_identifier_def and_then_Inr)
  show ?thesis
  proof (cases "map_of (problem_rows db) i")
    case None
    with created_backfill [OF ok None v] run Inr v show ?thesis
      by (auto simp: ensure_problem_def Let_def)
  next
    case (Some p)
    with run Inr preflight_is_idle [OF ok Some] ok show ?thesis
      by (auto simp: ensure_problem_def Let_def split: sum.splits)
  qed
qed

lemma ensure_problem_ok:
  assumes "ledger_ok sha256 db" "ensure_problem sha256 rebuild db i t now = (r, db')"
  shows "ledger_ok sha256 db'"
  using ensure_problem_shape [OF assms] created_problem_ok [OF assms(1)] assms(1) by auto

lemma redact_ok:
  assumes "ledger_ok sha256 db" "redact_event_content names_date event reason t db = Inr db'"
  shows "ledger_ok sha256 db'"
proof -
  let ?f = "\<lambda>c. if content_event c = event
    then c\<lparr>content_json := redacted_payload, content_redaction := Some (t, reason)\<rparr> else c"
  have db': "db' = db\<lparr>content_rows := map ?f (content_rows db)\<rparr>"
    using assms(2) by (auto simp: redact_event_content_def and_then_Inr split: if_splits)
  have m: "map (\<lambda>c. (content_event c, content_digest c)) (map ?f (content_rows db)) =
      map (\<lambda>c. (content_event c, content_digest c)) (content_rows db)" by simp
  have "list_all (\<lambda>c. content_redaction c \<noteq> None \<or> content_digest c = sha256 (content_json c)) (map ?f (content_rows db))"
    using assms(1) by (auto simp: ledger_ok_def contents_ok_def list_all_iff)
  with m have "contents_ok sha256 db'"
    using assms(1) db' by (simp add: ledger_ok_def contents_ok_def del: map_map map_eq_conv)
  with assms(1) db' show ?thesis
    by (simp add: ledger_ok_def head_ok_def stream_ok_def keys_ok_def row_problems_def problem_log_def
        head_link_def cong: list.pred_cong)
qed

subsection \<open>All histories\<close>

definition empty_ledger :: "'p \<Rightarrow> 'p ledger" where
  "empty_ledger q = \<lparr>problem_rows = [], event_rows = [], chain_rows = [], content_rows = [],
     idempotency_rows = [], checkpoint_rows = [], checkpoint_chain = [], backfill_rows = [],
     contiguity_guard = True, other_tables = q\<rparr>"

text \<open>
  One step of any writer: creating a problem, one committed transaction of a validated command
  under a head read at any earlier time, a redaction, or a change of the other tables.
\<close>

inductive ledger_step :: "(string \<Rightarrow> string) \<Rightarrow> 'p ledger \<Rightarrow> 'p ledger \<Rightarrow> bool" for sha256 where
  create: "ensure_problem sha256 rebuild db i t now = (r, db') \<Longrightarrow> ledger_step sha256 db db'"
| transact: "validate_ledger_command dormancy_event input now = Inr x \<Longrightarrow> stable_precondition plan \<Longrightarrow>
    prepare_digests sha256 input before = Inr pre \<Longrightarrow> run_batch plan input before x pre db = Inr db' \<Longrightarrow>
    ledger_step sha256 db db'"
| redact: "redact_event_content names_date event reason t db = Inr db' \<Longrightarrow> ledger_step sha256 db db'"
| elsewhere: "ledger_step sha256 db (db\<lparr>other_tables := q\<rparr>)"

definition ledger_runs :: "(string \<Rightarrow> string) \<Rightarrow> 'p ledger \<Rightarrow> 'p ledger \<Rightarrow> bool" where
  "ledger_runs sha256 = (ledger_step sha256)\<^sup>*\<^sup>*"

inductive_cases ledger_stepE: "ledger_step sha256 db db'"

lemma validated_version:
  "validate_ledger_command dormancy_event input now = Inr x \<Longrightarrow>
     1 \<le> in_version input \<and> in_version input \<le> max_safe_integer"
  by (auto simp: validate_ledger_command_def and_then_Inr)

lemma ledger_step_ok: "ledger_step sha256 db db' \<Longrightarrow> ledger_ok sha256 db \<Longrightarrow> ledger_ok sha256 db'"
  by (induction rule: ledger_step.induct)
    (use ensure_problem_ok batch_keeps_ledger validated_version redact_ok in \<open>fastforce+\<close>)

lemma empty_ledger_ok: "ledger_ok sha256 (empty_ledger q)"
  by (simp add: ledger_ok_def empty_ledger_def contents_ok_def keys_ok_def row_problems_def)

interpretation ledger: invariant_steps "ledger_step sha256" "ledger_ok sha256" for sha256
  by unfold_locales (rule ledger_step_ok)

lemma runs_ok: "ledger_runs sha256 db db' \<Longrightarrow> ledger_ok sha256 db \<Longrightarrow> ledger_ok sha256 db'"
  unfolding ledger_runs_def by (rule ledger.runs_keep)

subsection \<open>The write is a run\<close>

text \<open>The interference of other writers in a round is itself a run.\<close>

definition orderly_round :: "(string \<Rightarrow> string) \<Rightarrow> 'p round \<Rightarrow> bool" where
  "orderly_round sha256 r \<longleftrightarrow>
     (\<forall>db. ledger_runs sha256 db (others_first r db) \<and> ledger_runs sha256 db (others_before r db) \<and>
       ledger_runs sha256 db (others_after r db) \<and> ledger_runs sha256 db (others_later r db))"

lemma runs_trans [trans]: "ledger_runs sha256 a b \<Longrightarrow> ledger_runs sha256 b c \<Longrightarrow> ledger_runs sha256 a c"
  and runs_refl [simp]: "ledger_runs sha256 a a"
  and runs_step: "ledger_step sha256 a b \<Longrightarrow> ledger_runs sha256 a b"
  by (auto simp: ledger_runs_def)

lemma batch_result_runs:
  assumes "validate_ledger_command dormancy_event input now = Inr x" "stable_precondition plan"
    and "prepare_digests sha256 input before = Inr pre"
  shows "ledger_runs sha256 db (fst (batch_result answer (run_batch plan input before x pre db) db))"
  using transact [OF assms] by (auto simp: batch_result_def split: outcome.splits sum.splits intro!: runs_step)

lemma write_attempt_runs:
  assumes v: "validate_ledger_command dormancy_event input now = Inr x" and "stable_precondition plan"
    and r: "orderly_round sha256 r"
    and run: "write_attempt sha256 plan input x r left db = (res, db')"
  shows "ledger_runs sha256 db db'"
proof -
  let ?d0 = "others_first r db"
  let ?d1 = "others_before r ?d0"
  have d0: "ledger_runs sha256 db ?d0" and d1: "ledger_runs sha256 ?d0 ?d1"
    and after: "ledger_runs sha256 d (others_after r d)" and later: "ledger_runs sha256 d (others_later r d)" for d
    using r by (auto simp: orderly_round_def)
  have "ledger_runs sha256 ?d0 db'"
  proof (cases "read_problem_head ?d0 (in_problem input)")
    case (Inl e)
    with run show ?thesis by (simp add: write_attempt_def)
  next
    case (Inr before)
    show ?thesis
    proof (cases "prepare_digests sha256 input before")
      case (Inl e)
      with run Inr after [of ?d1] d1 show ?thesis by (auto simp: write_attempt_def Let_def intro: runs_trans)
    next
      case pre: (Inr pre)
      obtain d2 f where b: "batch_result (batch_outcome r) (run_batch plan input before x pre ?d1) ?d1 = (d2, f)"
        by (meson surj_pair)
      with d1 batch_result_runs [OF v assms(2) pre] have "ledger_runs sha256 ?d0 d2" by (metis fst_conv runs_trans)
      then have d3: "ledger_runs sha256 ?d0 (others_after r d2)" using after runs_trans by blast
      then have "ledger_runs sha256 ?d0 (others_later r (others_after r d2))" using later runs_trans by blast
      with d3 run Inr pre b show ?thesis by (auto simp: write_attempt_def Let_def split: option.splits)
    qed
  qed
  with d0 show ?thesis by (auto intro: runs_trans)
qed

lemma write_loop_runs:
  assumes v: "validate_ledger_command dormancy_event input now = Inr x" and "stable_precondition plan"
    and "\<forall>n. orderly_round sha256 (rounds n)"
  shows "ledger_runs sha256 db (snd (snd (write_loop sha256 plan input x rounds k left db)))"
proof (induction left arbitrary: k db)
  case (Suc left)
  obtain res db' where a: "write_attempt sha256 plan input x (rounds k) (k < max_chain_retries) db = (res, db')"
    by (meson surj_pair)
  have "ledger_runs sha256 db db'" using write_attempt_runs [OF v assms(2) _ a] assms(3) by blast
  with Suc [of db' "Suc k"] a show ?case by (auto split: step_result.splits intro: runs_trans)
qed simp

lemma replay_of_present_problem:
  assumes "ledger_ok sha256 db" "backfill_integrity sha256 rebuild db i t now = Inr db1"
  shows "db1 = db"
proof (cases "map_of (problem_rows db) i")
  case None
  with assms(2) show ?thesis by (auto simp: backfill_integrity_def and_then_Inr)
next
  case (Some p)
  with preflight_is_idle [OF assms(1) Some assms(2)] show ?thesis by simp
qed

lemma write_ledger_event_runs:
  assumes "ledger_ok sha256 db" "stable_precondition plan" "\<forall>n. orderly_round sha256 (rounds n)"
  shows "ledger_runs sha256 db (snd (snd (write_ledger_event sha256 dormancy_event rebuild plan rounds input now db)))"
  using replay_of_present_problem [OF assms(1), of rebuild "in_problem input" "in_created input" now]
    write_loop_runs [OF _ assms(2,3)]
  by (auto simp: write_ledger_event_def simp del: write_loop.simps split: sum.splits)

end
