(* ===== verification/LedgerVerify.thy ===== *)
theory LedgerVerify
  imports LedgerRuns
begin

section \<open>Reading a history back\<close>

text \<open>
  The paged reads and the verification of a stream, on the tables that the writers reach, and
  what a verified chain digest commits to.
\<close>

subsection \<open>Every page of a well-formed log\<close>

lemma filter_after:
  "map f xs = map int [Suc m..<Suc (m + length xs)] \<Longrightarrow> filter (\<lambda>x. int a < f x) xs = drop (a - m) xs"
proof (induction xs arbitrary: m)
  case (Cons x xs)
  have "[Suc m..<Suc (m + length (x # xs))] = Suc m # [Suc (Suc m)..<Suc (Suc m + length xs)]"
    by (simp add: upt_rec)
  with Cons.prems have x: "f x = int (Suc m)" and xs: "map f xs = map int [Suc (Suc m)..<Suc (Suc m + length xs)]"
    by (simp_all del: upt_Suc)
  from Cons.IH [OF xs] have ih: "filter (\<lambda>x. int a < f x) xs = drop (a - Suc m) xs" .
  show ?case
  proof (cases "a \<le> m")
    case False
    then have "a - m = Suc (a - Suc m)" by simp
    with x ih False show ?thesis by simp
  qed (use x ih in simp)
qed simp

lemma page_of_log:
  assumes "stream_ok sha256 db i"
  shows "page_rows db i (int a) n = take n (drop a (problem_log db i))"
proof -
  have m: "map event_seq (problem_log db i) = map int [Suc 0..<Suc (0 + length (problem_log db i))]"
    using assms by (simp add: stream_ok_def Let_def del: upt_Suc)
  have f: "filter (\<lambda>e. event_problem e = i \<and> int a < event_seq e) (event_rows db) = drop a (problem_log db i)"
    using filter_after [OF m, of a]
    by (simp add: problem_log_def filter_filter conj_commute)
  have "sorted (map event_seq (drop a (problem_log db i)))"
    unfolding drop_map [symmetric] m by (intro sorted_wrt_drop) (simp add: sorted_map sorted_wrt_upt del: upt_Suc)
  then show ?thesis unfolding page_rows_def f by (simp add: sort_key_id_if_sorted)
qed

lemma chain_of_logged:
  assumes ok: "ledger_ok sha256 db" and k: "k < length (problem_log db i)"
  shows "chain_of db (event_id (problem_log db i ! k)) =
    Some (chained sha256 (genesis sha256 i) (problem_log db i) ! k)"
proof -
  let ?log = "problem_log db" and ?cs = "\<lambda>j. chained sha256 (genesis sha256 j) (problem_log db j)"
  let ?e = "?log i ! k" and ?c = "?cs i ! k"
  have rows: "filter (\<lambda>c. chain_problem c = j) (chain_rows db) = ?cs j" for j
    using ledger_ok_stream [OF ok, of j] by (simp add: stream_ok_def Let_def)
  have id: "chain_event (?cs j ! l) = event_id (?log j ! l)" if "l < length (?log j)" for j l
    using that arg_cong [OF chained_events [of sha256 "genesis sha256 j" "?log j"], of "\<lambda>xs. xs ! l"] by simp
  have uniq: "distinct (map event_id (event_rows db))" using ok by (simp add: ledger_ok_def)
  have only: "c = ?c" if c: "c \<in> set (chain_rows db)" "chain_event c = event_id ?e" for c
  proof -
    let ?j = "chain_problem c"
    have "c \<in> set (filter (\<lambda>c. chain_problem c = ?j) (chain_rows db))" using c(1) by simp
    then have "c \<in> set (?cs ?j)" unfolding rows .
    then obtain l where l: "l < length (?log ?j)" "c = ?cs ?j ! l" by (auto simp: in_set_conv_nth)
    have same: "event_id (?log ?j ! l) = event_id ?e"
      using trans [OF id [OF l(1), folded l(2), symmetric] c(2)] .
    have mem: "?log ?j ! l \<in> set (event_rows db)" "?e \<in> set (event_rows db)"
      "event_problem (?log ?j ! l) = ?j" "event_problem ?e = i"
      using nth_mem [OF l(1)] nth_mem [OF k] by (auto simp: problem_log_def)
    with uniq same have "?log ?j ! l = ?e" by (auto simp: distinct_map dest: inj_onD)
    with mem have ji: "?j = i" by simp
    have "distinct (?log i)" using uniq by (auto simp: problem_log_def distinct_map)
    with \<open>?log ?j ! l = ?e\<close> ji l(1) k have "l = k" by (simp add: nth_eq_iff_index_eq)
    with ji have "?cs ?j ! l = ?c" by simp
    with l(2) show ?thesis by (rule trans)
  qed
  have "?c \<in> set (filter (\<lambda>c. chain_problem c = i) (chain_rows db))" unfolding rows using k by (simp add: nth_mem)
  then have "?c \<in> set (chain_rows db)" by simp
  with id [OF k] have "find (\<lambda>c. chain_event c = event_id ?e) (chain_rows db) \<noteq> None"
    unfolding find_None_iff by blast
  then obtain c where c: "find (\<lambda>c. chain_event c = event_id ?e) (chain_rows db) = Some c" by blast
  then have "c \<in> set (chain_rows db)" "chain_event c = event_id ?e" by (auto simp: find_Some_iff)
  with only c show ?thesis by (simp add: chain_of_def)
qed

definition stream_of :: "(string \<Rightarrow> string) \<Rightarrow> 'p ledger \<Rightarrow> string \<Rightarrow> krater_event list" where
  "stream_of sha256 db i =
     map2 krater_event_of (problem_log db i) (chained sha256 (genesis sha256 i) (problem_log db i))"

lemma length_stream [simp]: "length (stream_of sha256 db i) = length (problem_log db i)"
  by (simp add: stream_of_def)

lemma chained_row:
  "k < length es \<Longrightarrow> row_digest (chained sha256 prior es ! k) = row_hash sha256 (es ! k)"
proof (induction es arbitrary: prior k)
  case (Cons e es)
  then show ?case by (cases k) (simp_all add: chain_entry_def)
qed simp

lemma collect_all:
  "(\<And>k. k < length xs \<Longrightarrow> f (xs ! k) = Inr (ys ! k)) \<Longrightarrow> length ys = length xs \<Longrightarrow> collect f xs = Inr ys"
proof (induction xs arbitrary: ys)
  case (Cons x xs)
  then obtain y ys' where y: "ys = y # ys'" by (cases ys) auto
  have "collect f xs = Inr ys'"
  proof (rule Cons.IH)
    show "f (xs ! k) = Inr (ys' ! k)" if "k < length xs" for k using Cons.prems(1) [of "Suc k"] that y by simp
  qed (use Cons.prems(2) y in simp)
  moreover have "f x = Inr y" using Cons.prems(1) [of 0] y by simp
  ultimately show ?case using y by simp
qed simp

lemma envelope_object_stream [simp]: "envelope_object (krater_event_of e c) = envelope_object e"
  by (simp add: envelope_object_def krater_event_of_def envelope_row.defs)

lemma logged_sequence_safe:
  assumes ok: "ledger_ok sha256 db" and p: "map_of (problem_rows db) i = Some p" and k: "k < length (problem_log db i)"
  shows "event_seq (problem_log db i ! k) = int k + 1" "safe_nonnegative (int k + 1)"
proof -
  have "public_seq p = int (length (problem_log db i))" "public_seq p \<le> max_safe_integer"
    using ledger_ok_head [OF ok p] by (simp_all add: head_ok_def Let_def)
  with k show "safe_nonnegative (int k + 1)" by (simp add: safe_nonnegative_def)
  have m: "map event_seq (problem_log db i) = map int [1..<Suc (length (problem_log db i))]"
    using ledger_ok_stream [OF ok, of i] by (simp add: stream_ok_def Let_def)
  have "map event_seq (problem_log db i) ! k = map int [1..<Suc (length (problem_log db i))] ! k" by (simp only: m)
  with k show "event_seq (problem_log db i ! k) = int k + 1" by (simp del: upt_Suc)
qed

lemma read_events_page:
  assumes ok: "ledger_ok sha256 db" and p: "map_of (problem_rows db) i = Some p"
    and a: "int a \<le> max_safe_integer" and n: "1 \<le> n" "n \<le> max_event_page_size"
  shows "read_events sha256 db i (int a) n = Inr (take (nat n) (drop a (stream_of sha256 db i)))"
proof -
  let ?log = "problem_log db i" and ?page = "take (nat n) (drop a (stream_of sha256 db i))"
  let ?rows = "take (nat n) (drop a (problem_log db i))"
  have rows: "page_rows db i (int a) (nat n) = ?rows" using page_of_log [OF ledger_ok_stream [OF ok]] .
  have at: "?rows ! k = ?log ! (a + k)" "?page ! k = krater_event_of (?log ! (a + k))
      (chained sha256 (genesis sha256 i) ?log ! (a + k))" "a + k < length ?log" if "k < length ?rows" for k
    using that by (simp_all add: stream_of_def less_diff_conv add.commute)
  have "page_event db (?rows ! k) = Inr (?page ! k)" if k: "k < length ?rows" for k
    using chain_of_logged [OF ok at(3) [OF k]] logged_sequence_safe [OF ok p at(3) [OF k]]
    by (simp add: at(1,2) [OF k] page_event_def require_stored_sequence_def)
  then have "collect (page_event db) ?rows = Inr ?page" by (intro collect_all) simp_all
  moreover have "check_row_digest sha256 (?page ! k) = Inr (?page ! k)" if k: "k < length ?page" for k
  proof -
    from k have k: "k < length ?rows" by simp
    show ?thesis using chained_row [OF at(3) [OF k]] logged_sequence_safe [OF ok p at(3) [OF k]]
      by (simp add: at(2) [OF k] check_row_digest_def event_envelope_row_digest_def require_input_sequence_def
          require_def row_hash_def)
  qed
  then have "collect (check_row_digest sha256) ?page = Inr ?page" by (intro collect_all) simp_all
  moreover have "\<exists>h. read_problem_head db i = Inr h" "bounded_identifier i"
    using ledger_ok_head [OF ok p] p
    by (auto simp: head_ok_def Let_def read_problem_head_def krater_chain_version_def require_stored_sequence_def
        safe_nonnegative_def)
  ultimately show ?thesis using a n rows
    by (auto simp: read_events_def require_identifier_def require_def safe_nonnegative_def as_read_def)
qed

lemma stream_seq: "k < length (stream_of sha256 db i) \<Longrightarrow> event_seq (stream_of sha256 db i ! k) = event_seq (problem_log db i ! k)"
  by (simp add: stream_of_def)

lemma read_all_loop_stream:
  assumes ok: "ledger_ok sha256 db" and p: "map_of (problem_rows db) i = Some p"
    and n: "1 \<le> n" "n \<le> max_event_page_size"
  shows "a \<le> length (problem_log db i) \<Longrightarrow>
    read_all_loop sha256 db i n (int a) acc = Inr (acc @ drop a (stream_of sha256 db i))"
proof (induction "length (problem_log db i) - a" arbitrary: a acc rule: less_induct)
  case less
  let ?s = "stream_of sha256 db i" and ?page = "take (nat n) (drop a (stream_of sha256 db i))"
  have "int (length (problem_log db i)) \<le> max_safe_integer"
    using ledger_ok_head [OF ok p] by (simp add: head_ok_def Let_def)
  then have read: "read_events sha256 db i (int a) n = Inr ?page"
    using read_events_page [OF ok p _ n] less.prems by simp
  show ?case
  proof (cases "a = length ?s")
    case True
    with read show ?thesis by (simp add: read_all_loop.simps)
  next
    case False
    with less.prems have a: "a < length ?s" by simp
    have first: "hd ?page = ?s ! a" "?page \<noteq> []" using a n by (simp_all add: hd_drop_conv_nth)
    have up: "\<not> event_seq (hd ?page) \<le> int a"
      using first(1) stream_seq [OF a] logged_sequence_safe(1) [OF ok p] a by simp
    from first(2) obtain e es where pg: "?page = e # es" by (cases ?page) auto
    show ?thesis
    proof (cases "int (length ?page) < n")
      case True
      then have "drop a ?s = ?page" by (simp add: min_def split: if_splits)
      with True read up pg show ?thesis by (simp add: read_all_loop.simps)
    next
      case full: False
      then have len: "length ?page = nat n" "a + nat n \<le> length ?s" using n a by (auto simp: min_def split: if_splits)
      have "last ?page = ?s ! (a + nat n - 1)"
        using len first(2) n by (simp add: last_conv_nth)
      then have l: "event_seq (last ?page) = int (a + nat n)"
        using stream_seq [of "a + nat n - 1" sha256 db i] logged_sequence_safe(1) [OF ok p, of "a + nat n - 1"] len n
        by (simp add: of_nat_diff)
      have "read_all_loop sha256 db i n (int (a + nat n)) (acc @ ?page) =
          Inr ((acc @ ?page) @ drop (a + nat n) ?s)"
        using less.hyps [of "a + nat n" "acc @ ?page"] len n a by simp
      moreover have "?page @ drop (a + nat n) ?s = drop a ?s"
        by (metis add.commute append_take_drop_id drop_drop)
      ultimately show ?thesis using read up pg full l by (simp add: read_all_loop.simps)
    qed
  qed
qed

lemma chain_matches_chained:
  assumes "map event_seq es = map int [Suc m..<Suc (m + length es)]" "int (m + length es) \<le> max_safe_integer"
    and "list_all (\<lambda>e. event_problem e = i \<and> version_ok e) es" "bounded_identifier i"
  shows "chain_matches_from sha256 i prior (int m) (map2 krater_event_of es (chained sha256 prior es))"
  using assms
proof (induction es arbitrary: prior m)
  case (Cons e es)
  have "[Suc m..<Suc (m + length (e # es))] = Suc m # [Suc (Suc m)..<Suc (Suc m + length es)]"
    by (simp add: upt_rec)
  with Cons.prems(1) have e: "event_seq e = int m + 1"
    and es: "map event_seq es = map int [Suc (Suc m)..<Suc (Suc m + length es)]"
    by (simp_all del: upt_Suc)
  have "chain_matches_from sha256 i (link sha256 prior e) (int (Suc m))
      (map2 krater_event_of es (chained sha256 (link sha256 prior e) es))"
    using Cons.IH [OF es] Cons.prems(2-4) by simp
  moreover have "safe_nonnegative (int m + 1)" using Cons.prems(2) by (simp add: safe_nonnegative_def)
  ultimately show ?case using e Cons.prems(3,4)
    by (simp add: version_ok_def chain_entry_def event_envelope_row_digest_def event_chain_digest_def
        require_input_sequence_def require_identifier_def require_def row_hash_def link_def add.commute)
qed simp

lemma stream_matches:
  assumes ok: "ledger_ok sha256 db" and p: "map_of (problem_rows db) i = Some p"
  shows "event_chain_matches sha256 (stream_of sha256 db i) = Inr True"
proof -
  let ?log = "problem_log db i"
  have h: "bounded_identifier i" "int (length ?log) \<le> max_safe_integer"
    using ledger_ok_head [OF ok p] by (simp_all add: head_ok_def Let_def)
  have s: "map event_seq ?log = map int [Suc 0..<Suc (0 + length ?log)]" "list_all version_ok ?log"
    using ledger_ok_stream [OF ok, of i] by (simp_all add: stream_ok_def Let_def del: upt_Suc)
  have "list_all (\<lambda>e. event_problem e = i \<and> version_ok e) ?log"
    using s(2) by (auto simp: list_all_iff problem_log_def)
  then have m: "chain_matches_from sha256 i (genesis sha256 i) 0 (stream_of sha256 db i)"
    using chain_matches_chained [OF s(1), of i sha256 "genesis sha256 i"] h by (simp add: stream_of_def)
  have g: "genesis_chain_digest sha256 i = Inr (genesis sha256 i)"
    using h(1) by (simp add: genesis_chain_digest_def require_identifier_def require_def genesis_def)
  have "event_problem (hd (stream_of sha256 db i)) = i" if "stream_of sha256 db i \<noteq> []"
    using that m by (cases "stream_of sha256 db i") simp_all
  with m g show ?thesis by (cases "stream_of sha256 db i") (auto simp: event_chain_matches_def)
qed

lemma stream_cursor:
  assumes ok: "ledger_ok sha256 db" and p: "map_of (problem_rows db) i = Some p"
  shows "cursor_matches_events (public_seq p) (stream_of sha256 db i)"
proof -
  let ?s = "stream_of sha256 db i"
  have h: "public_seq p = int (length ?s)" "int (length ?s) \<le> max_safe_integer"
    using ledger_ok_head [OF ok p] by (simp_all add: head_ok_def Let_def)
  have q: "event_seq (?s ! k) = int k + 1" "safe_nonnegative (int k + 1)" if "k < length ?s" for k
    using that stream_seq [of k sha256 db i] logged_sequence_safe [OF ok p, of k] by simp_all
  have "list_all (\<lambda>e. safe_nonnegative (event_seq e) \<and> event_seq e > 0) ?s"
    using q by (auto simp: list_all_length)
  moreover have "event_seq (last ?s) = int (length ?s)" if "?s \<noteq> []"
  proof -
    from that have "0 < length ?s" by (rule length_greater_0_conv [THEN iffD2])
    with q(1) [of "length ?s - 1"] have "event_seq (?s ! (length ?s - 1)) = int (length ?s)" by simp
    with that show ?thesis by (simp add: last_conv_nth del: length_stream)
  qed
  ultimately show ?thesis using h
    by (simp add: cursor_matches_events_def at_last_def safe_nonnegative_def del: length_stream)
qed

subsection \<open>Tampering shows\<close>

definition text_of :: "js_value \<Rightarrow> string" where
  "text_of v = (case canonical_json (\<lambda>_. []) v of None \<Rightarrow> [] | Some t \<Rightarrow> t)"

text \<open>The texts that the verification of a stream hashes.\<close>

fun stream_texts :: "string \<Rightarrow> krater_event list \<Rightarrow> string list" where
  "stream_texts prior [] = []"
| "stream_texts prior (e # es) =
     text_of (envelope_object e) #
     text_of (chain_object (event_problem e) (event_seq e) (payload_digest e) (stream_row e) prior) #
     stream_texts (stream_chain e) es"

definition clash :: "(string \<Rightarrow> string) \<Rightarrow> string list \<Rightarrow> string list \<Rightarrow> bool" where
  "clash sha256 ss ts \<longleftrightarrow> list_ex (\<lambda>s. list_ex (\<lambda>t. s \<noteq> t \<and> sha256 s = sha256 t) ts) ss"

lemma those_None: "those xs = None \<longleftrightarrow> None \<in> set xs"
  by (induction xs) (auto split: option.splits)

lemma object_text:
  "list_all (\<lambda>p. canonical_json f (snd p) \<noteq> None) es \<Longrightarrow> canonical_json f (Obj es) \<noteq> None"
  by (auto simp: those_None list_all_iff)

lemma same_text_normal:
  assumes "exact v" "exact w" "canonical_json (\<lambda>_. []) v \<noteq> None" "canonical_json (\<lambda>_. []) w \<noteq> None"
    and "text_of v = text_of w"
  shows "normal v = normal w"
  using canonical_cancels [of "\<lambda>_. []" v] assms separated_marks(1)
  unfolding cancels_def reads_def text_of_def by (fastforce split: option.splits)

lemma normal_entries:
  assumes "normal (Obj es) = normal (Obj fs)" "map fst es = map fst fs" "distinct (map fst es)"
  shows "map (\<lambda>p. normal (snd p)) es = map (\<lambda>p. normal (snd p)) fs"
proof (rule nth_equalityI)
  have "length es = length fs" using assms(2) by (rule map_eq_imp_length_eq)
  then show "length (map (\<lambda>p. normal (snd p)) es) = length (map (\<lambda>p. normal (snd p)) fs)" by simp
  fix k assume "k < length (map (\<lambda>p. normal (snd p)) es)"
  then have k: "k < length es" "k < length fs" using \<open>length es = length fs\<close> by auto
  have "set (map (\<lambda>p. (fst p, normal (snd p))) (sort_key fst es)) =
      set (map (\<lambda>p. (fst p, normal (snd p))) (sort_key fst fs))" using assms(1) by simp
  then have "(\<lambda>p. (fst p, normal (snd p))) ` set es = (\<lambda>p. (fst p, normal (snd p))) ` set fs" by simp
  moreover have "(fst (es ! k), normal (snd (es ! k))) \<in> (\<lambda>p. (fst p, normal (snd p))) ` set es"
    using k by (intro image_eqI [of _ _ "es ! k"]) simp_all
  ultimately have "(fst (es ! k), normal (snd (es ! k))) \<in> (\<lambda>p. (fst p, normal (snd p))) ` set fs" by blast
  then obtain p where p: "p \<in> set fs" "fst p = fst (es ! k)" "normal (snd p) = normal (snd (es ! k))" by auto
  have "fst (fs ! k) = fst (es ! k)" using arg_cong [OF assms(2), of "\<lambda>xs. xs ! k"] k by simp
  with p(2) have "fst p = fst (fs ! k)" by simp
  moreover have "inj_on fst (set fs)" using assms(2,3) by (simp add: distinct_map)
  ultimately have "p = fs ! k" using p(1) nth_mem [OF k(2)] by (blast dest: inj_onD)
  with p k show "map (\<lambda>p. normal (snd p)) es ! k = map (\<lambda>p. normal (snd p)) fs ! k" by simp
qed

lemma optional_text_simps [simp]:
  "normal (optional_text x) = optional_text x" "exact (optional_text x)"
  "canonical_json f (optional_text x) = Some (case x of None \<Rightarrow> ''null'' | Some s \<Rightarrow> json_string s)"
  "optional_text x = optional_text y \<longleftrightarrow> x = y"
  by (cases x; cases y; simp add: optional_text_def)+

lemma safe_exact:
  "\<bar>n\<bar> \<le> max_safe_integer \<Longrightarrow> exact (Number (num n))" "exact (Number (Fin 1))" "exact (Number (Fin 2))"
  by (simp_all add: max_safe_integer_def)

lemma envelope_text_binds:
  fixes e f :: krater_event
  assumes "text_of (envelope_object e) = text_of (envelope_object f)"
    and "\<bar>event_seq e\<bar> \<le> max_safe_integer" "\<bar>object_version e\<bar> \<le> max_safe_integer"
      "\<bar>event_seq f\<bar> \<le> max_safe_integer" "\<bar>object_version f\<bar> \<le> max_safe_integer"
    and "stream_row e = stream_row f" "stream_chain e = stream_chain f"
  shows "e = f"
proof -
  have "exact (envelope_object e)" "exact (envelope_object f)"
    using assms(2-5) safe_exact by (simp_all add: envelope_object_def krater_chain_version_def del: exact.simps(1))
  moreover have "canonical_json (\<lambda>_. []) (envelope_object g) \<noteq> None" for g :: krater_event
    unfolding envelope_object_def by (rule object_text) simp
  ultimately have "normal (envelope_object e) = normal (envelope_object f)"
    using same_text_normal assms(1) by blast
  from normal_entries [OF this [unfolded envelope_object_def]] assms(6,7) show "e = f"
    by simp
qed

lemma chain_text_binds:
  assumes "text_of (chain_object i m d r g) = text_of (chain_object j n d' r' h)"
    and "\<bar>m\<bar> \<le> max_safe_integer" "\<bar>n\<bar> \<le> max_safe_integer"
  shows "m = n \<and> r = r' \<and> g = h"
proof -
  have "exact (chain_object i m d r g)" "exact (chain_object j n d' r' h)"
    using assms(2,3) safe_exact by (simp_all add: chain_object_def krater_chain_version_def del: exact.simps(1))
  moreover have "canonical_json (\<lambda>_. []) (chain_object i m d r g) \<noteq> None" for i m d r g
    unfolding chain_object_def by (rule object_text) simp
  ultimately have "normal (chain_object i m d r g) = normal (chain_object j n d' r' h)"
    using same_text_normal assms(1) by blast
  from normal_entries [OF this [unfolded chain_object_def]] show ?thesis by simp
qed

lemma digest_of_text:
  "canonical_json (\<lambda>_. []) v \<noteq> None \<Longrightarrow> digest_of sha256 v = sha256 (text_of v)"
  by (auto simp: digest_of_def text_of_def)

lemma envelope_digest_text:
  "digest_of sha256 (envelope_object e) = sha256 (text_of (envelope_object e))"
  by (rule digest_of_text) (unfold envelope_object_def, rule object_text, simp)

lemma chain_digest_text:
  "digest_of sha256 (chain_object i n d r g) = sha256 (text_of (chain_object i n d r g))"
  by (rule digest_of_text) (unfold chain_object_def, rule object_text, simp)

lemmas object_digests = envelope_digest_text chain_digest_text

text \<open>The digest and the sequence reached at the end of a stream.\<close>

definition end_chain :: "string \<Rightarrow> krater_event list \<Rightarrow> string" where
  "end_chain prior es = (if es = [] then prior else stream_chain (last es))"

definition stream_entry_ok :: "(string \<Rightarrow> string) \<Rightarrow> string \<Rightarrow> int \<Rightarrow> krater_event \<Rightarrow> bool" where
  "stream_entry_ok sha256 prior n e \<longleftrightarrow>
     event_seq e = n \<and> \<bar>event_seq e\<bar> \<le> max_safe_integer \<and> \<bar>object_version e\<bar> \<le> max_safe_integer \<and>
     stream_row e = sha256 (text_of (envelope_object e)) \<and>
     stream_chain e = sha256 (text_of (chain_object (event_problem e) (event_seq e) (payload_digest e) (stream_row e) prior))"

lemma chain_matches_snoc:
  "chain_matches_from sha256 i prior n (es @ [e]) \<Longrightarrow>
     chain_matches_from sha256 i prior n es \<and>
     stream_entry_ok sha256 (end_chain prior es) (n + int (length es) + 1) e"
proof (induction es arbitrary: prior n)
  case Nil
  then show ?case
    by (auto simp: stream_entry_ok_def end_chain_def event_envelope_row_digest_def event_chain_digest_def
        and_then_Inr object_digests safe_nonnegative_def)
next
  case (Cons a es)
  then have m: "chain_matches_from sha256 i (stream_chain a) (event_seq a) (es @ [e])" "event_seq a = n + 1" by auto
  then have seq: "n + int (length (a # es)) + 1 = event_seq a + int (length es) + 1" by simp
  show ?case unfolding seq using Cons.IH [OF m(1)] Cons.prems by (auto simp: end_chain_def)
qed

lemma stream_texts_append:
  "stream_texts prior (es @ [e]) = stream_texts prior es @ stream_texts (end_chain prior es) [e]"
  by (induction es arbitrary: prior) (simp_all add: end_chain_def)

lemma no_clash_append:
  "\<not> clash sha256 (ss @ ss') (ts @ ts') \<Longrightarrow> \<not> clash sha256 ss ts \<and> \<not> clash sha256 ss' ts'"
  by (auto simp: clash_def list_ex_iff)

lemma same_end_same_stream:
  assumes "chain_matches_from sha256 i g 0 es" "chain_matches_from sha256 j h 0 fs"
    and "\<not> clash sha256 (stream_texts g es) (stream_texts h fs)"
    and "es \<noteq> []" "fs \<noteq> []" "stream_chain (last es) = stream_chain (last fs)"
  shows "es = fs"
  using assms
proof (induction es arbitrary: fs rule: rev_induct)
  case (snoc e es)
  from \<open>fs \<noteq> []\<close> obtain f fs' where fs: "fs = fs' @ [f]" by (meson rev_exhaust)
  from snoc.prems(1) have e: "stream_entry_ok sha256 (end_chain g es) (int (length es) + 1) e"
    and es: "chain_matches_from sha256 i g 0 es" by (auto dest!: chain_matches_snoc)
  from snoc.prems(2) fs have f: "stream_entry_ok sha256 (end_chain h fs') (int (length fs') + 1) f"
    and fs': "chain_matches_from sha256 j h 0 fs'" by (auto dest!: chain_matches_snoc)
  from snoc.prems(3) fs have c: "\<not> clash sha256 (stream_texts g es) (stream_texts h fs')"
    "\<not> clash sha256 (stream_texts (end_chain g es) [e]) (stream_texts (end_chain h fs') [f])"
    by (auto simp: stream_texts_append dest!: no_clash_append)
  let ?chain = "\<lambda>e prior. text_of (chain_object (event_problem e) (event_seq e) (payload_digest e) (stream_row e) prior)"
  have last: "stream_chain e = stream_chain f" using snoc.prems(6) fs by simp
  with e f have "sha256 (?chain e (end_chain g es)) = sha256 (?chain f (end_chain h fs'))"
    by (simp add: stream_entry_ok_def)
  with c(2) have "?chain e (end_chain g es) = ?chain f (end_chain h fs')" by (auto simp: clash_def)
  with e f have b: "event_seq e = event_seq f" "stream_row e = stream_row f" "end_chain g es = end_chain h fs'"
    by (auto simp: stream_entry_ok_def dest!: chain_text_binds)
  then have "sha256 (text_of (envelope_object e)) = sha256 (text_of (envelope_object f))"
    using e f by (simp add: stream_entry_ok_def)
  with c(2) have "text_of (envelope_object e) = text_of (envelope_object f)" by (auto simp: clash_def)
  with e f b(2) last have ef: "e = f" by (intro envelope_text_binds) (auto simp: stream_entry_ok_def)
  have len: "length es = length fs'" using e f b(1) by (simp add: stream_entry_ok_def)
  have "es = fs'"
  proof (cases "es = []")
    case True
    with len show ?thesis by simp
  next
    case False
    with len have ne: "fs' \<noteq> []" by auto
    with snoc.IH [OF es fs' c(1) False ne] b(3) False show ?thesis by (simp add: end_chain_def)
  qed
  with ef fs show ?case by simp
qed simp

end
