(* ===== verification/LedgerKeys.thy ===== *)
theory LedgerKeys
  imports LedgerVerify
begin

section \<open>Keys that are settled\<close>

text \<open>
  What a call of the event writer does when its key is already settled and no other writer
  interferes.
\<close>

subsection \<open>A settled key can be answered\<close>

lemma find_at:
  assumes "distinct (map f xs)" "k < length xs"
  shows "find (\<lambda>x. f x = f (xs ! k)) xs = Some (xs ! k)"
proof -
  have "xs ! k \<in> set xs" using assms(2) by simp
  then have "find (\<lambda>x. f x = f (xs ! k)) xs \<noteq> None" unfolding find_None_iff by blast
  then obtain x where x: "find (\<lambda>x. f x = f (xs ! k)) xs = Some x" by blast
  with distinct_find [OF assms(1) x \<open>xs ! k \<in> set xs\<close>] show ?thesis by simp
qed

lemma find_filter: "find (\<lambda>x. P x \<and> Q x) xs = find Q (filter P xs)"
  by (induction xs) auto

lemma log_seqs:
  "ledger_ok sha256 db \<Longrightarrow> map event_seq (problem_log db i) = map int [1..<Suc (length (problem_log db i))]"
  using ledger_ok_stream [of sha256 db i] by (simp add: stream_ok_def Let_def)

lemma log_seqs_distinct: "ledger_ok sha256 db \<Longrightarrow> distinct (map event_seq (problem_log db i))"
  by (simp add: log_seqs distinct_map inj_on_def del: upt_Suc)

text \<open>Both checkpoint tables hold the checkpoint of each logged event.\<close>

lemma checkpoint_of_entry:
  assumes keys: "map checkpoint_key (filter (\<lambda>k. checkpoint_problem k = i) rows) =
      map (checkpoint_entry sha256) (chained sha256 g es)"
    and "distinct (map event_seq es)" and k: "k < length es"
  shows "\<exists>r. checkpoint_at rows i (event_seq (es ! k)) = Some r \<and>
    checkpoint_key r = checkpoint_entry sha256 (chained sha256 g es ! k)"
proof -
  let ?ks = "filter (\<lambda>k. checkpoint_problem k = i) rows"
  have len: "length ?ks = length es" using arg_cong [OF keys, of length] by simp
  have key: "checkpoint_key (?ks ! l) = checkpoint_entry sha256 (chained sha256 g es ! l)" if "l < length es" for l
    using arg_cong [OF keys, of "\<lambda>xs. xs ! l"] that len by simp
  have seq: "chain_seq (chained sha256 g es ! l) = event_seq (es ! l)" if "l < length es" for l
    using that arg_cong [OF chained_seqs [of sha256 g es], of "\<lambda>xs. xs ! l"] by simp
  have "map checkpoint_seq ?ks = map event_seq es"
    by (rule nth_equalityI) (use len key seq in \<open>auto simp: checkpoint_key_def checkpoint_entry_def\<close>)
  then have "distinct (map checkpoint_seq ?ks)" "checkpoint_seq (?ks ! k) = event_seq (es ! k)"
    using assms(2) key [OF k] seq [OF k] by (simp_all add: checkpoint_key_def checkpoint_entry_def)
  with find_at [of checkpoint_seq ?ks k] len k have "find (\<lambda>r. checkpoint_seq r = event_seq (es ! k)) ?ks = Some (?ks ! k)"
    by simp
  with key [OF k] show ?thesis by (auto simp: checkpoint_at_def find_filter)
qed

definition receipt_for :: "(string \<Rightarrow> string) \<Rightarrow> ledger_input \<Rightarrow> head \<Rightarrow> 'p ledger \<Rightarrow> event_row \<Rightarrow> chain_row \<Rightarrow> receipt" where
  "receipt_for sha256 input before db e c =
     \<lparr>receipt_event = event_id e, receipt_object = object_id e, receipt_seq = event_seq e,
      receipt_idempotent = (event_id e \<noteq> in_event input), receipt_before = head_seq before,
      receipt_after = int (length (problem_log db (in_problem input))), receipt_payload = payload_digest e,
      receipt_row = row_digest c, receipt_chain = chain_digest c,
      receipt_checkpoint = root_hash sha256 (event_problem e) (event_seq e) (chain_digest c)\<rparr>"

lemma head_of_problem:
  assumes "ledger_ok sha256 db" "map_of (problem_rows db) i = Some p"
  shows "read_problem_head db i = Inr \<lparr>head_seq = int (length (problem_log db i)), head_chain = head_link sha256 db i\<rparr>"
  using ledger_ok_head [OF assms] assms(2)
  by (simp add: read_problem_head_def head_ok_def Let_def krater_chain_version_def require_stored_sequence_def
      safe_nonnegative_def)

lemma logged_chain:
  assumes "k < length es"
  shows "chain_problem (chained sha256 g es ! k) = event_problem (es ! k)"
    and "chain_seq (chained sha256 g es ! k) = event_seq (es ! k)"
  using assms arg_cong [OF chained_problems [of sha256 g es], of "\<lambda>xs. xs ! k"]
    arg_cong [OF chained_seqs [of sha256 g es], of "\<lambda>xs. xs ! k"] by simp_all

lemma read_receipt_logged:
  assumes ok: "ledger_ok sha256 db" and p: "map_of (problem_rows db) (in_problem input) = Some p"
    and k: "k < length (problem_log db (in_problem input))"
  shows "read_receipt sha256 input before (event_id (problem_log db (in_problem input) ! k)) db =
    Inr (receipt_for sha256 input before db (problem_log db (in_problem input) ! k)
      (chained sha256 (genesis sha256 (in_problem input)) (problem_log db (in_problem input)) ! k))"
proof -
  let ?i = "in_problem input" let ?log = "problem_log db ?i" let ?g = "genesis sha256 ?i"
  let ?e = "?log ! k" and ?c = "chained sha256 ?g ?log ! k"
  have e: "?e \<in> set (event_rows db)" "event_problem ?e = ?i" using nth_mem [OF k] by (auto simp: problem_log_def)
  have seq: "event_seq ?e = int k + 1" "safe_nonnegative (int k + 1)" using logged_sequence_safe [OF ok p k] .
  obtain l where l: "l < length (event_rows db)" "event_rows db ! l = ?e" using e(1) by (auto simp: in_set_conv_nth)
  have "distinct (map event_id (event_rows db))" using ok by (simp add: ledger_ok_def)
  from find_at [OF this l(1)] l(2) have find: "find (\<lambda>x. event_id x = event_id ?e) (event_rows db) = Some ?e" by simp
  have read: "read_event_by_id sha256 db (event_id ?e) = Inr (?e, ?c)"
    using find chain_of_logged [OF ok k] seq chained_row [OF k]
    by (simp add: read_event_by_id_def require_stored_sequence_def event_envelope_row_digest_def
        require_input_sequence_def require_def row_hash_def)
  have s: "map checkpoint_key (filter (\<lambda>k. checkpoint_problem k = ?i) (checkpoint_rows db)) = map (checkpoint_entry sha256) (chained sha256 ?g ?log)"
    "map checkpoint_key (filter (\<lambda>k. checkpoint_problem k = ?i) (checkpoint_chain db)) = map (checkpoint_entry sha256) (chained sha256 ?g ?log)"
    using ledger_ok_stream [OF ok, of ?i] by (simp_all add: stream_ok_def Let_def)
  obtain r1 where r1: "checkpoint_at (checkpoint_rows db) ?i (event_seq ?e) = Some r1"
    "checkpoint_key r1 = checkpoint_entry sha256 ?c"
    using checkpoint_of_entry [OF s(1) log_seqs_distinct [OF ok] k] by blast
  obtain r2 where r2: "checkpoint_at (checkpoint_chain db) ?i (event_seq ?e) = Some r2"
    "checkpoint_key r2 = checkpoint_entry sha256 ?c"
    using checkpoint_of_entry [OF s(2) log_seqs_distinct [OF ok] k] by blast
  note c = logged_chain [OF k, of sha256 ?g]
  have "read_checkpoint_by_event sha256 db (?e, ?c) = Inr r2"
    using r1 r2 e(2) c seq
    by (simp add: read_checkpoint_by_event_def Let_def validate_current_checkpoint_def checkpoint_key_def
        checkpoint_entry_def require_stored_sequence_def checkpoint_digest_def require_input_sequence_def
        require_def root_hash_def)
  then show ?thesis using read r2(2) c head_of_problem [OF ok p]
    by (simp add: read_receipt_def receipt_for_def Let_def checkpoint_key_def checkpoint_entry_def root_hash_def)
qed

subsection \<open>Writes without interference\<close>

definition idle_round :: "'p round" where
  "idle_round = \<lparr>others_first = \<lambda>db. db, others_before = \<lambda>db. db, batch_outcome = Answered,
     others_after = \<lambda>db. db, others_later = \<lambda>db. db\<rparr>"

text \<open>
  The statements of the caller and the triggers of other tables may abort a batch. A run is
  clean if that is the only way in which it aborts, and what it returns satisfies \<open>Q\<close>.
\<close>

abbreviation logged_head :: "(string \<Rightarrow> string) \<Rightarrow> 'p ledger \<Rightarrow> string \<Rightarrow> head" where
  "logged_head sha256 db i \<equiv> \<lparr>head_seq = int (length (problem_log db i)), head_chain = head_link sha256 db i\<rparr>"

definition caller_aborts :: "'p ledger_plan \<Rightarrow> bool \<Rightarrow> bool" where
  "caller_aborts plan lost_race \<longleftrightarrow>
     (\<exists>db s. projection_statements plan s db = Inl lost_race \<or> companion_statements plan s db = Inl lost_race) \<or>
     (\<exists>db e c. head_triggers plan db = Inl lost_race \<or> event_triggers plan e db = Inl lost_race \<or>
        content_triggers plan c db = Inl lost_race \<or> settle_triggers plan db = Inl lost_race)"

definition clean :: "'p ledger_plan \<Rightarrow> abort + 'p ledger \<Rightarrow> ('p ledger \<Rightarrow> bool) \<Rightarrow> bool" where
  "clean plan r Q \<longleftrightarrow>
     (case r of Inl a \<Rightarrow> \<exists>race. a = OtherAbort race \<and> caller_aborts plan race | Inr db \<Rightarrow> Q db)"

lemma clean_simps [simp]: "clean plan (Inr db) Q = Q db"
  by (simp add: clean_def)

lemma clean_bind:
  assumes "clean plan r Q" "\<And>d. r = Inr d \<Longrightarrow> Q d \<Longrightarrow> clean plan (f d) R"
  shows "clean plan (and_then r f) R"
  using assms by (cases r) (simp_all add: clean_def)

lemma clean_weaken: "clean plan r Q \<Longrightarrow> (\<And>d. Q d \<Longrightarrow> R d) \<Longrightarrow> clean plan r R"
  by (auto simp: clean_def split: sum.splits)

lemma clean_with_other:
  "(\<And>race. f db = Inl race \<Longrightarrow> caller_aborts plan race) \<Longrightarrow>
    clean plan (with_other f db) (\<lambda>d. \<exists>q. f db = Inr q \<and> d = db\<lparr>other_tables := q\<rparr>)"
  by (cases "f db") (simp_all add: clean_def with_other_def)

lemma callback_aborts:
  "projection_statements plan s db = Inl race \<Longrightarrow> caller_aborts plan race"
  "companion_statements plan s db = Inl race \<Longrightarrow> caller_aborts plan race"
  "head_triggers plan db = Inl race \<Longrightarrow> caller_aborts plan race"
  "event_triggers plan e db = Inl race \<Longrightarrow> caller_aborts plan race"
  "content_triggers plan c db = Inl race \<Longrightarrow> caller_aborts plan race"
  "settle_triggers plan db = Inl race \<Longrightarrow> caller_aborts plan race"
  unfolding caller_aborts_def by blast+

lemma clean_callback:
  "clean plan (with_other (projection_statements plan s) db) (\<lambda>d. \<exists>q. projection_statements plan s db = Inr q \<and> d = db\<lparr>other_tables := q\<rparr>)"
  "clean plan (with_other (companion_statements plan s) db) (\<lambda>d. \<exists>q. companion_statements plan s db = Inr q \<and> d = db\<lparr>other_tables := q\<rparr>)"
  "clean plan (with_other (head_triggers plan) db) (\<lambda>d. \<exists>q. head_triggers plan db = Inr q \<and> d = db\<lparr>other_tables := q\<rparr>)"
  "clean plan (with_other (event_triggers plan e) db) (\<lambda>d. \<exists>q. event_triggers plan e db = Inr q \<and> d = db\<lparr>other_tables := q\<rparr>)"
  "clean plan (with_other (content_triggers plan c) db) (\<lambda>d. \<exists>q. content_triggers plan c db = Inr q \<and> d = db\<lparr>other_tables := q\<rparr>)"
  "clean plan (with_other (settle_triggers plan) db) (\<lambda>d. \<exists>q. settle_triggers plan db = Inr q \<and> d = db\<lparr>other_tables := q\<rparr>)"
  by (blast intro: clean_with_other callback_aborts)+

lemma preflight_succeeds:
  assumes ok: "ledger_ok sha256 db" and p: "map_of (problem_rows db) (in_problem input) = Some p"
    and "public_seq p < max_safe_integer" and v: "validate_ledger_command dormancy_event input now = Inr x"
  shows "backfill_integrity sha256 rebuild db (in_problem input) (in_created input) now = Inr db"
proof -
  have "bounded_identifier (in_problem input)" "validate_ingress_timestamp (in_created input) now = Inr ()"
    using v by (auto simp: validate_ledger_command_def and_then_Inr)
  moreover have "0 \<le> public_seq p" using ledger_ok_head [OF ok p] by (simp add: head_ok_def Let_def)
  ultimately show ?thesis using preflight_passes [OF ok p] p ok assms(3)
    by (simp add: backfill_integrity_def require_identifier_def require_def require_stored_sequence_def
        safe_nonnegative_def ledger_ok_def)
qed

lemma prepare_succeeds:
  assumes "validate_ledger_command dormancy_event input now = Inr x"
    and "0 \<le> head_seq before" "head_seq before < max_safe_integer" "ledger_claim_content sha256 input = Inr c"
  shows "\<exists>pre. prepare_digests sha256 input before = Inr pre"
proof -
  have "bounded_identifier (in_problem input)"
    using assms(1) by (auto simp: validate_ledger_command_def and_then_Inr)
  with assms(2-4) show ?thesis
    by (simp add: prepare_digests_def event_envelope_row_digest_def event_chain_digest_def checkpoint_digest_def
        require_input_sequence_def require_identifier_def require_def safe_nonnegative_def Let_def)
qed

lemma used_key_batch:
  assumes ok: "ledger_ok sha256 db" and p: "map_of (problem_rows db) (in_problem input) = Some p"
    and used: "\<not> key_free input x db"
  shows "\<not> event_exists db (in_event input) \<Longrightarrow>
      clean plan (run_batch plan input before x pre db) (\<lambda>d. \<exists>q. d = db\<lparr>other_tables := q\<rparr>)"
    and "event_exists db (in_event input) \<Longrightarrow> run_batch plan input before x pre db = Inl UniqueContent"
proof -
  have keys: "keys_ok db" using ok by (simp add: ledger_ok_def)
  from used obtain r where r: "find_idem db (in_problem input) (in_key input) = Some r" "\<not> expired x r"
    by (auto simp: key_free_def split: option.splits)
  have same: "claim_key input x db = db" using r by (simp add: claim_key_def)
  have "\<not> owns_key input db" using owns_claimed_key [OF keys p, of x] used same by simp
  then have e: "elect_head plan input before c db = Inr db" "insert_event plan input en rh ch db = Inr db" for c en rh ch
    by (simp_all add: elect_head_def insert_event_def p)
  {
    assume fresh: "\<not> event_exists db (in_event input)"
    then have absent: "find (\<lambda>e. event_id e = in_event input) (event_rows db) = None"
      by (auto simp: event_exists_def list_ex_iff find_None_iff)
    have "filter (\<lambda>r. \<not> unsettled input r) (idempotency_rows db) = idempotency_rows db"
      using keys_ok_settled [OF keys] by (auto simp: filter_id_conv unsettled_def)
    then have d: "drop_unsettled input (db\<lparr>other_tables := q\<rparr>) = db\<lparr>other_tables := q\<rparr>"
      "insert_content plan input g db = Inr db"
      "insert_checkpoint input c h (db\<lparr>other_tables := q\<rparr>) = Inr (db\<lparr>other_tables := q\<rparr>)"
      "settle_key plan input n (db\<lparr>other_tables := q\<rparr>) = Inr (db\<lparr>other_tables := q\<rparr>)" for q g c h n
      using fresh absent
      by (simp_all add: drop_unsettled_def insert_content_def insert_checkpoint_def settle_key_def event_exists_def)
    show "clean plan (run_batch plan input before x pre db) (\<lambda>d. \<exists>q. d = db\<lparr>other_tables := q\<rparr>)"
      unfolding run_batch_def Let_def same e and_then_simps d
    proof (rule clean_bind [OF clean_callback(1)], elim exE conjE)
      fix d' q assume d': "d' = db\<lparr>other_tables := q\<rparr>"
      let ?s = "settlement_of input pre"
      have "clean plan (and_then (with_other (companion_statements plan ?s) d') (\<lambda>db7. Inr (drop_unsettled input db7)))
          (\<lambda>d. \<exists>q. d = db\<lparr>other_tables := q\<rparr>)"
        by (rule clean_bind [OF clean_callback(2)]) (auto simp: d' d)
      then show "clean plan (and_then (insert_checkpoint input (prepared_chain pre) (prepared_checkpoint pre) d')
          (\<lambda>db5. and_then (settle_key plan input (settled_seq ?s) db5) (\<lambda>db6. and_then
            (with_other (companion_statements plan ?s) db6) (\<lambda>db7. Inr (drop_unsettled input db7)))))
          (\<lambda>d. \<exists>q. d = db\<lparr>other_tables := q\<rparr>)" by (simp add: d' d)
    qed
  }
  {
    assume known: "event_exists db (in_event input)"
    then have "list_ex (\<lambda>c. content_event c = in_event input) (content_rows db)"
      using content_exists [of sha256 db] ok by (simp add: ledger_ok_def)
    with known show "run_batch plan input before x pre db = Inl UniqueContent"
      by (simp add: run_batch_def Let_def same e insert_content_def)
  }
qed

lemma settled_row:
  assumes ok: "ledger_ok sha256 db" and r: "find_idem db i key = Some r"
  shows "\<exists>k < length (problem_log db i). idem_event r = Some (event_id (problem_log db i ! k)) \<and> idem_seq r \<noteq> None"
proof -
  have "r \<in> set (idempotency_rows db)" "idem_problem r = i" using r by (auto simp: find_idem_def find_Some_iff idem_of_def)
  then obtain e where "e \<in> set (event_rows db)" "settles r e"
    using ok by (auto simp: ledger_ok_def keys_ok_def list_all_iff list_ex_iff)
  with \<open>idem_problem r = i\<close> have "e \<in> set (problem_log db i)" "idem_event r = Some (event_id e)" "idem_seq r \<noteq> None"
    by (auto simp: problem_log_def settles_def)
  then show ?thesis by (auto simp: in_set_conv_nth)
qed

lemma other_tables_frame [simp]:
  "problem_log (db\<lparr>other_tables := q\<rparr>) = problem_log db" "find_idem (db\<lparr>other_tables := q\<rparr>) = find_idem db"
  "receipt_for sha256 input before (db\<lparr>other_tables := q\<rparr>) = receipt_for sha256 input before db"
  by (auto simp: problem_log_def find_idem_def receipt_for_def fun_eq_iff)

lemma idle_attempt:
  assumes ok: "ledger_ok sha256 db" and p: "map_of (problem_rows db) (in_problem input) = Some p"
    and v: "validate_ledger_command dormancy_event input now = Inr x" and room: "public_seq p < max_safe_integer"
    and content: "ledger_claim_content sha256 input = Inr c"
  shows "\<exists>pre. prepare_digests sha256 input (logged_head sha256 db (in_problem input)) = Inr pre \<and>
    (\<forall>left. write_attempt sha256 plan input x idle_round left db =
      (case run_batch plan input (logged_head sha256 db (in_problem input)) x pre db of
         Inr db' \<Rightarrow> (read_settlement sha256 input left (logged_head sha256 db (in_problem input))
           (find_idem db' (in_problem input) (in_key input)) db', db')
       | Inl a \<Rightarrow> (if left \<and> retryable a then Again else Stop (Inl BatchFailed), db)))"
proof -
  let ?before = "logged_head sha256 db (in_problem input)"
  have "head_seq ?before < max_safe_integer" using ledger_ok_head [OF ok p] room by (simp add: head_ok_def Let_def)
  then obtain pre where pre: "prepare_digests sha256 input ?before = Inr pre"
    using prepare_succeeds [OF v _ _ content, of ?before] by auto
  have "write_attempt sha256 plan input x idle_round left db =
      (case run_batch plan input ?before x pre db of
         Inr db' \<Rightarrow> (read_settlement sha256 input left ?before (find_idem db' (in_problem input) (in_key input)) db', db')
       | Inl a \<Rightarrow> (if left \<and> retryable a then Again else Stop (Inl BatchFailed), db))" for left
    using head_of_problem [OF ok p] pre
    by (cases "run_batch plan input ?before x pre db")
      (simp_all add: write_attempt_def idle_round_def batch_result_def after_failure_def)
  with pre show ?thesis by blast
qed

text \<open>A batch that aborts every time is given up: at once, or after the last retry of a lost race.\<close>

definition retries_of :: "abort \<Rightarrow> nat" where
  "retries_of a = (if retryable a then max_chain_retries else 0)"

lemma aborted_loop:
  assumes "\<And>left. write_attempt sha256 plan input x idle_round left db =
    (if left \<and> retryable a then Again else Stop (Inl BatchFailed), db)"
  shows "k + left = max_chain_retries \<Longrightarrow> write_loop sha256 plan input x (\<lambda>_. idle_round) k (Suc left) db =
    (Inl BatchFailed, if retryable a then max_chain_retries else k, db)"
proof (induction left arbitrary: k)
  case 0
  then show ?case by (simp add: assms)
next
  case (Suc left)
  then have "k < max_chain_retries" "Suc k + left = max_chain_retries" by simp_all
  with Suc.IH [of "Suc k"] show ?case by (subst write_loop.simps) (simp add: assms del: write_loop.simps)
qed

lemma aborted_write:
  assumes v: "validate_ledger_command dormancy_event input now = Inr x"
    and same: "backfill_integrity sha256 rebuild db (in_problem input) (in_created input) now = Inr db"
    and "\<And>left. write_attempt sha256 plan input x idle_round left db =
      (if left \<and> retryable a then Again else Stop (Inl BatchFailed), db)"
  shows "write_ledger_event sha256 dormancy_event rebuild plan (\<lambda>_. idle_round) input now db =
    (Inl BatchFailed, retries_of a, db)"
  using aborted_loop [OF assms(3), of 0 max_chain_retries] v same by (simp add: write_ledger_event_def retries_of_def del: write_loop.simps)

lemma first_attempt_decides:
  assumes "validate_ledger_command dormancy_event input now = Inr x"
    and "backfill_integrity sha256 rebuild db (in_problem input) (in_created input) now = Inr db"
    and "write_attempt sha256 plan input x (rounds 0) True db = (Stop r, db')"
  shows "write_ledger_event sha256 dormancy_event rebuild plan rounds input now db = (r, 0, db')"
  using assms by (simp add: write_ledger_event_def) (simp add: max_chain_retries_def)

text \<open>
  The answers of a call whose batch does or does not abort, in the form in which both kinds of
  call below use it.
\<close>

lemma idle_write:
  assumes ok: "ledger_ok sha256 db" and v: "validate_ledger_command dormancy_event input now = Inr x"
    and p: "map_of (problem_rows db) (in_problem input) = Some p" "public_seq p < max_safe_integer"
    and content: "ledger_claim_content sha256 input = Inr c"
  shows "\<exists>pre. prepare_digests sha256 input (logged_head sha256 db (in_problem input)) = Inr pre \<and>
    (\<forall>a. run_batch plan input (logged_head sha256 db (in_problem input)) x pre db = Inl a \<longrightarrow>
      write_ledger_event sha256 dormancy_event rebuild plan (\<lambda>_. idle_round) input now db =
        (Inl BatchFailed, retries_of a, db)) \<and>
    (\<forall>db' r. run_batch plan input (logged_head sha256 db (in_problem input)) x pre db = Inr db' \<longrightarrow>
      read_settlement sha256 input True (logged_head sha256 db (in_problem input))
        (find_idem db' (in_problem input) (in_key input)) db' = Stop r \<longrightarrow>
      write_ledger_event sha256 dormancy_event rebuild plan (\<lambda>_. idle_round) input now db = (r, 0, db'))"
proof -
  note same = preflight_succeeds [OF ok p v, of rebuild]
  obtain pre where pre: "prepare_digests sha256 input (logged_head sha256 db (in_problem input)) = Inr pre"
    and attempt: "\<And>left. write_attempt sha256 plan input x idle_round left db =
      (case run_batch plan input (logged_head sha256 db (in_problem input)) x pre db of
         Inr db' \<Rightarrow> (read_settlement sha256 input left (logged_head sha256 db (in_problem input))
           (find_idem db' (in_problem input) (in_key input)) db', db')
       | Inl a \<Rightarrow> (if left \<and> retryable a then Again else Stop (Inl BatchFailed), db))"
    using idle_attempt [OF ok p(1) v p(2) content, of plan] by blast
  show ?thesis
    using pre aborted_write [OF v same] first_attempt_decides [OF v same] by (auto simp: attempt intro!: exI [of _ pre])
qed

lemma settled_key_answer:
  assumes "ledger_ok sha256 db"
    and "validate_ledger_command dormancy_event input now = Inr x"
    and "map_of (problem_rows db) (in_problem input) = Some p" "public_seq p < max_safe_integer"
    and "find_idem db (in_problem input) (in_key input) = Some row" "\<not> expired x row"
    and "ledger_claim_content sha256 input = Inr c"
  shows "\<exists>k < length (problem_log db (in_problem input)).
    idem_event row = Some (event_id (problem_log db (in_problem input) ! k)) \<and>
    (let answer = write_ledger_event sha256 dormancy_event rebuild plan (\<lambda>_. idle_round) input now db in
      if event_exists db (in_event input) then answer = (Inl BatchFailed, 0, db)
      else (\<exists>q. answer = (if idem_request row = in_request input
         then Inr (receipt_for sha256 input (logged_head sha256 db (in_problem input)) db (problem_log db (in_problem input) ! k)
           (chained sha256 (genesis sha256 (in_problem input)) (problem_log db (in_problem input)) ! k))
         else Inl IdempotencyConflict, 0, db\<lparr>other_tables := q\<rparr>)) \<or>
       (\<exists>race. caller_aborts plan race \<and> answer = (Inl BatchFailed, retries_of (OtherAbort race), db)))"
proof -
  let ?i = "in_problem input" let ?before = "logged_head sha256 db ?i"
  note ok = assms(1)
  obtain k where k: "k < length (problem_log db ?i)" "idem_event row = Some (event_id (problem_log db ?i ! k))"
    "idem_seq row \<noteq> None" using settled_row [OF ok assms(5)] by blast
  have used: "\<not> key_free input x db" using assms(5,6) by (simp add: key_free_def)
  obtain pre where w: "\<And>a. run_batch plan input ?before x pre db = Inl a \<Longrightarrow>
      write_ledger_event sha256 dormancy_event rebuild plan (\<lambda>_. idle_round) input now db = (Inl BatchFailed, retries_of a, db)"
    "\<And>db' r. run_batch plan input ?before x pre db = Inr db' \<Longrightarrow>
      read_settlement sha256 input True ?before (find_idem db' ?i (in_key input)) db' = Stop r \<Longrightarrow>
      write_ledger_event sha256 dormancy_event rebuild plan (\<lambda>_. idle_round) input now db = (r, 0, db')"
    using idle_write [OF ok assms(2-4,7), of plan rebuild] by blast
  note batch = used_key_batch [OF ok assms(3) used, where plan = plan and before = ?before and pre = pre]
  have receipt: "read_receipt sha256 input ?before (event_id (problem_log db ?i ! k)) (db\<lparr>other_tables := q\<rparr>) =
      Inr (receipt_for sha256 input ?before db (problem_log db ?i ! k)
        (chained sha256 (genesis sha256 ?i) (problem_log db ?i) ! k))" for q
    using read_receipt_logged [of sha256 "db\<lparr>other_tables := q\<rparr>" input p k ?before] ok k(1) assms(3) by simp
  let ?answer = "write_ledger_event sha256 dormancy_event rebuild plan (\<lambda>_. idle_round) input now db"
  have "if event_exists db (in_event input) then ?answer = (Inl BatchFailed, 0, db)
      else (\<exists>q. ?answer = (if idem_request row = in_request input
         then Inr (receipt_for sha256 input ?before db (problem_log db ?i ! k)
           (chained sha256 (genesis sha256 ?i) (problem_log db ?i) ! k))
         else Inl IdempotencyConflict, 0, db\<lparr>other_tables := q\<rparr>)) \<or>
       (\<exists>race. caller_aborts plan race \<and> ?answer = (Inl BatchFailed, retries_of (OtherAbort race), db))"
  proof (cases "event_exists db (in_event input)")
    case True
    with w(1) [OF batch(2)] show ?thesis by (simp add: retries_of_def)
  next
    case False
    show ?thesis
      using batch(1) [OF False] False w k(3) assms(5) receipt k(2)
      by (cases "run_batch plan input ?before x pre db") (auto simp: clean_def read_settlement_def)
  qed
  with k show ?thesis by (auto simp: Let_def)
qed

end
