(* ===== verification/LedgerHistory.thy ===== *)
theory LedgerHistory
  imports LedgerKeys "HOL-Library.Sublist"
begin

section \<open>Nothing that was written goes away\<close>

text \<open>
  A history of writers only appends to the tables of events, chain rows and checkpoints, so a
  receipt that a call answered stays true.
\<close>

subsection \<open>History is only appended to\<close>

definition extends :: "'p ledger \<Rightarrow> 'p ledger \<Rightarrow> bool" where
  "extends db db' \<longleftrightarrow>
     prefix (event_rows db) (event_rows db') \<and> prefix (chain_rows db) (chain_rows db') \<and>
     prefix (map (\<lambda>c. (content_event c, content_digest c)) (content_rows db))
       (map (\<lambda>c. (content_event c, content_digest c)) (content_rows db')) \<and>
     prefix (checkpoint_rows db) (checkpoint_rows db')"

lemma extends_refl [simp]: "extends db db"
  and extends_trans [trans]: "extends a b \<Longrightarrow> extends b c \<Longrightarrow> extends a c"
  by (auto simp: extends_def)

lemma extends_other [simp]: "extends a (b\<lparr>other_tables := q\<rparr>) = extends a b"
  by (simp add: extends_def)

lemma abstract_step_extends: "extends db (abstract_step sha256 plan input before x db)"
  using claim_key_frame [of input x db]
  by (auto simp: abstract_step_def append_event_def leave_log_def drop_unsettled_def Let_def extends_def)

lemma redact_extends:
  "redact_event_content names_date event reason t db = Inr db' \<Longrightarrow> extends db db'"
  by (auto simp: redact_event_content_def and_then_Inr extends_def comp_def if_distrib split: if_splits
      cong: if_cong)

lemma step_extends:
  assumes "ledger_step sha256 db db'" "ledger_ok sha256 db"
  shows "extends db db'"
  using assms
proof (cases rule: ledger_step.cases)
  case (create rebuild i t now r)
  from ensure_problem_shape [OF assms(2) this] show ?thesis by (auto simp: created_problem_def extends_def)
next
  case (transact dormancy_event input now x plan before pre)
  have "db' = (abstract_step sha256 plan input before x db)\<lparr>other_tables := other_tables db'\<rparr>"
    using won_batch(1) [OF assms(2) transact(3) _ transact(2,4)] lost_batch [OF assms(2) transact(3) _ transact(4)]
    by (simp add: abstract_step_def)
  then show ?thesis using abstract_step_extends extends_other by metis
qed (use redact_extends in auto)

interpretation history: growing_steps "ledger_step sha256" "ledger_ok sha256" extends for sha256
  by unfold_locales (auto intro: step_extends extends_trans)

lemma runs_extend: "ledger_runs sha256 db db' \<Longrightarrow> ledger_ok sha256 db \<Longrightarrow> extends db db'"
  unfolding ledger_runs_def by (rule history.runs_grow)

lemma log_extends: "extends db db' \<Longrightarrow> prefix (problem_log db i) (problem_log db' i)"
  by (auto simp: extends_def problem_log_def prefix_def)

subsection \<open>What is acknowledged is logged\<close>

lemma not_answered [simp]: "after_failure left l err before i db \<noteq> Stop (Inr r)"
  by (auto simp: after_failure_def split: sum.splits)

lemma write_attempt_answered:
  assumes v: "validate_ledger_command dormancy_event input now = Inr x" "stable_precondition plan"
    and r: "orderly_round sha256 w"
    and run: "write_attempt sha256 plan input x w left db = (Stop (Inr r), db')"
  shows "\<exists>before d3. ledger_runs sha256 db d3 \<and> ledger_runs sha256 d3 db' \<and>
    read_settlement sha256 input left before (find_idem d3 (in_problem input) (in_key input)) db' = Stop (Inr r)"
proof -
  let ?d1 = "others_before w (others_first w db)"
  obtain before where before: "read_problem_head (others_first w db) (in_problem input) = Inr before"
    using run by (cases "read_problem_head (others_first w db) (in_problem input)") (auto simp: write_attempt_def)
  obtain pre where pre: "prepare_digests sha256 input before = Inr pre"
    using run before by (cases "prepare_digests sha256 input before") (auto simp: write_attempt_def Let_def)
  obtain d2 f where b: "batch_result (batch_outcome w) (run_batch plan input before x pre ?d1) ?d1 = (d2, f)"
    by (meson surj_pair)
  have none: "f = None" using run before pre b by (auto simp: write_attempt_def Let_def split: option.splits)
  let ?d3 = "others_after w d2"
  have "ledger_runs sha256 db ?d1" using r runs_trans unfolding orderly_round_def by blast
  moreover have "ledger_runs sha256 ?d1 d2" using batch_result_runs [OF v pre] b by (metis fst_conv)
  moreover have "ledger_runs sha256 d2 ?d3" "ledger_runs sha256 ?d3 (others_later w ?d3)"
    using r by (auto simp: orderly_round_def)
  ultimately show ?thesis using run before pre b none runs_trans
    by (auto simp: write_attempt_def Let_def split: option.splits) blast
qed

definition acknowledges ::
  "(string \<Rightarrow> string) \<Rightarrow> ledger_input \<Rightarrow> receipt \<Rightarrow> 'p ledger \<Rightarrow> bool" where
  "acknowledges sha256 input r db \<longleftrightarrow>
     (\<exists>k < length (problem_log db (in_problem input)). \<exists>before.
        r = receipt_for sha256 input before db (problem_log db (in_problem input) ! k)
          (chained sha256 (genesis sha256 (in_problem input)) (problem_log db (in_problem input)) ! k))"

lemma settlement_acknowledges:
  assumes ok: "ledger_ok sha256 d3" and later: "ledger_runs sha256 d3 db"
    and s: "read_settlement sha256 input left before (find_idem d3 (in_problem input) (in_key input)) db = Stop (Inr r)"
  shows "acknowledges sha256 input r db"
proof -
  let ?i = "in_problem input"
  obtain row event where row: "find_idem d3 ?i (in_key input) = Some row" "idem_event row = Some event"
    and read: "read_receipt sha256 input before event db = Inr r"
    using s by (auto simp: read_settlement_def split: option.splits if_splits)
  obtain k where k: "k < length (problem_log d3 ?i)" "event = event_id (problem_log d3 ?i ! k)"
    using settled_row [OF ok row(1)] row(2) by auto
  have "prefix (problem_log d3 ?i) (problem_log db ?i)" using log_extends [OF runs_extend [OF later ok]] .
  with k have k': "k < length (problem_log db ?i)" "event = event_id (problem_log db ?i ! k)"
    by (auto simp: prefix_def nth_append)
  have ok': "ledger_ok sha256 db" using runs_ok [OF later ok] .
  have "problem_log db ?i ! k \<in> set (event_rows db)" "event_problem (problem_log db ?i ! k) = ?i"
    using nth_mem [OF k'(1)] by (auto simp: problem_log_def)
  then have "?i \<in> set (row_problems db)" by (force simp: row_problems_def)
  with ok' have "?i \<in> set (map fst (problem_rows db))" by (auto simp: ledger_ok_def list_all_iff)
  then obtain p where p: "map_of (problem_rows db) ?i = Some p"
    by (cases "map_of (problem_rows db) ?i") (auto simp: map_of_eq_None_iff)
  from read_receipt_logged [OF ok' p k'(1), of before] read k' show ?thesis
    by (auto simp: acknowledges_def)
qed

lemma write_loop_acknowledges:
  assumes v: "validate_ledger_command dormancy_event input now = Inr x" "stable_precondition plan"
    and r: "\<forall>n. orderly_round sha256 (rounds n)"
  shows "ledger_ok sha256 db \<Longrightarrow> write_loop sha256 plan input x rounds k left db = (Inr r, n, db') \<Longrightarrow>
    acknowledges sha256 input r db'"
proof (induction left arbitrary: k db)
  case (Suc left)
  obtain res d where a: "write_attempt sha256 plan input x (rounds k) (k < max_chain_retries) db = (res, d)"
    by (meson surj_pair)
  show ?case
  proof (cases res)
    case (Stop res')
    with Suc.prems(2) a have "write_attempt sha256 plan input x (rounds k) (k < max_chain_retries) db = (Stop (Inr r), db')"
      by simp
    with r v obtain before d3 where "ledger_runs sha256 db d3" "ledger_runs sha256 d3 db'"
      "read_settlement sha256 input (k < max_chain_retries) before (find_idem d3 (in_problem input) (in_key input)) db' = Stop (Inr r)"
      using write_attempt_answered by blast
    with settlement_acknowledges runs_ok Suc.prems(1) show ?thesis by metis
  next
    case Again
    have "ledger_ok sha256 d" using runs_ok [OF write_attempt_runs [OF v _ a] Suc.prems(1)] r by blast
    with Suc.IH Suc.prems(2) a Again show ?thesis by auto
  qed
qed simp

lemma write_ledger_event_acknowledges:
  assumes ok: "ledger_ok sha256 db" and "stable_precondition plan" "\<forall>n. orderly_round sha256 (rounds n)"
    and run: "write_ledger_event sha256 dormancy_event rebuild plan rounds input now db = (Inr r, n, db')"
  shows "acknowledges sha256 input r db'"
  using run replay_of_present_problem [OF ok, of rebuild "in_problem input" "in_created input" now]
    write_loop_acknowledges [OF _ assms(2,3) ok]
  by (auto simp: write_ledger_event_def simp del: write_loop.simps split: sum.splits)

lemma acknowledged_later:
  assumes "acknowledges sha256 input r db" "extends db db'"
  shows "\<exists>k < length (problem_log db' (in_problem input)).
    event_id (problem_log db' (in_problem input) ! k) = receipt_event r \<and>
    event_seq (problem_log db' (in_problem input) ! k) = receipt_seq r \<and>
    payload_digest (problem_log db' (in_problem input) ! k) = receipt_payload r \<and>
    chain_digest (chained sha256 (genesis sha256 (in_problem input)) (problem_log db' (in_problem input)) ! k) = receipt_chain r"
proof -
  let ?i = "in_problem input"
  from assms(1) obtain k where k: "k < length (problem_log db ?i)" "event_id (problem_log db ?i ! k) = receipt_event r"
    "event_seq (problem_log db ?i ! k) = receipt_seq r" "payload_digest (problem_log db ?i ! k) = receipt_payload r"
    "chain_digest (chained sha256 (genesis sha256 ?i) (problem_log db ?i) ! k) = receipt_chain r"
    by (auto simp: acknowledges_def receipt_for_def)
  from log_extends [OF assms(2)] obtain zs where zs: "problem_log db' ?i = problem_log db ?i @ zs" by (auto simp: prefix_def)
  have "chained sha256 g (xs @ ys) ! k = chained sha256 g xs ! k" if "k < length xs" for g and xs ys :: "event_row list"
    using that by (induction xs arbitrary: g k) (auto simp: nth_Cons split: nat.splits)
  with k zs show ?thesis by (auto simp: nth_append intro!: exI [of _ k])
qed

end
