(* ===== verification/LedgerLive.thy ===== *)
theory LedgerLive
  imports LedgerHistory
begin

section \<open>Writes under no interference\<close>

text \<open>
  What a call of the event writer does when its key is free and no other writer interferes: no
  statement of the ledger aborts, so only a statement of the caller or a trigger outside the
  ledger can, and without such an abort the receipt is the one of the log.
\<close>

subsection \<open>A fresh key under no interference\<close>

lemma not_list_ex: "(\<And>x. x \<in> set xs \<Longrightarrow> \<not> P x) \<Longrightarrow> \<not> list_ex P xs"
  by (auto simp: list_ex_iff)

lemma no_later_sequence:
  assumes ok: "ledger_ok sha256 db" and e: "e \<in> set (event_rows db)" "event_problem e = i"
  shows "1 \<le> event_seq e \<and> event_seq e \<le> int (length (problem_log db i))"
proof -
  have "event_seq e \<in> set (map event_seq (problem_log db i))" using e by (auto simp: problem_log_def)
  then show ?thesis unfolding log_seqs [OF ok] by auto
qed

lemma chain_row_sequence:
  assumes ok: "ledger_ok sha256 db" and c: "c \<in> set (chain_rows db)" "chain_problem c = i"
  shows "chain_seq c \<le> int (length (problem_log db i))" and "event_exists db (chain_event c)"
proof -
  have rows: "filter (\<lambda>c. chain_problem c = i) (chain_rows db) = chained sha256 (genesis sha256 i) (problem_log db i)"
    using ledger_ok_stream [OF ok, of i] by (simp add: stream_ok_def Let_def)
  have "c \<in> set (filter (\<lambda>c. chain_problem c = i) (chain_rows db))" using c by simp
  then have m: "c \<in> set (chained sha256 (genesis sha256 i) (problem_log db i))" unfolding rows .
  then have "chain_seq c \<in> set (map event_seq (problem_log db i))"
    unfolding chained_seqs [of sha256 "genesis sha256 i", symmetric] by simp
  then show "chain_seq c \<le> int (length (problem_log db i))" unfolding log_seqs [OF ok] by auto
  have "chain_event c \<in> set (map event_id (problem_log db i))"
    using m unfolding chained_events [of sha256 "genesis sha256 i", symmetric] by simp
  then show "event_exists db (chain_event c)" by (auto simp: event_exists_def list_ex_iff problem_log_def)
qed

lemma checkpoint_sequence:
  assumes ok: "ledger_ok sha256 db" and k: "k \<in> set (checkpoint_rows db) \<union> set (checkpoint_chain db)"
  shows "checkpoint_seq k \<le> int (length (problem_log db (checkpoint_problem k)))"
proof -
  let ?i = "checkpoint_problem k" let ?cs = "chained sha256 (genesis sha256 ?i) (problem_log db ?i)"
  have "map checkpoint_key (filter (\<lambda>k. checkpoint_problem k = ?i) (checkpoint_rows db)) = map (checkpoint_entry sha256) ?cs"
    "map checkpoint_key (filter (\<lambda>k. checkpoint_problem k = ?i) (checkpoint_chain db)) = map (checkpoint_entry sha256) ?cs"
    using ledger_ok_stream [OF ok, of ?i] by (simp_all add: stream_ok_def Let_def)
  moreover have "checkpoint_key k \<in> set (map checkpoint_key (filter (\<lambda>k. checkpoint_problem k = ?i) (checkpoint_rows db))) \<union>
      set (map checkpoint_key (filter (\<lambda>k. checkpoint_problem k = ?i) (checkpoint_chain db)))"
    using k by auto
  ultimately obtain c where "c \<in> set ?cs" "checkpoint_key k = checkpoint_entry sha256 c" by auto
  then have "checkpoint_seq k \<in> set (map chain_seq ?cs)" by (auto simp: checkpoint_key_def checkpoint_entry_def)
  then show ?thesis unfolding chained_seqs log_seqs [OF ok] by auto
qed

lemma insert_event_row_clean:
  assumes ok: "ledger_ok sha256 db" and p: "map_of (problem_rows db) i = Some p"
    and d: "d = db\<lparr>idempotency_rows := keys, problem_rows := map_put i p' (problem_rows db), other_tables := q\<rparr>"
    and p': "public_seq p' = n" "head_digest p' = Some c" "head_version p' = Some 2"
    and n: "n = int (length (problem_log db i)) + 1"
    and e: "event_problem e = i" "event_seq e = n" "\<not> event_exists db (event_id e)"
  shows "clean plan (insert_event_row plan e r c d) (\<lambda>_. True)"
proof -
  have m: "map_of (problem_rows d) i = Some p'" using d by simp
  then have mem: "(i, p') \<in> set (problem_rows d)" by (rule map_of_SomeD)
  have filled: "\<exists>b. map_of (backfill_rows d) i = Some b \<and> backfill_complete b"
    using ledger_ok_head [OF ok p] d by (auto simp: head_ok_def Let_def split: option.splits)
  have seq: "event_seq x \<noteq> n" if "x \<in> set (event_rows db)" "event_problem x = i" for x
    using no_later_sequence [OF ok that] n by simp
  have uniq: "\<not> list_ex (\<lambda>x. event_id x = event_id e \<or> event_problem x = event_problem e \<and> event_seq x = event_seq e) (event_rows db)"
    using e seq by (intro not_list_ex) (auto simp: event_exists_def list_ex_iff)
  have chain: "\<not> list_ex (\<lambda>c. chain_event c = event_id e \<or> chain_problem c = i \<and> chain_seq c = n) (chain_rows db)"
    using e(3) chain_row_sequence [OF ok] n by (intro not_list_ex) fastforce
  have prior: "n > 1 \<Longrightarrow> list_ex (\<lambda>c. chain_problem c = i \<and> chain_seq c = n - 1) (chain_rows db)"
    using last_of_stream(1) [OF ok p] ledger_ok_head [OF ok p] n
    by (auto simp: head_ok_def Let_def list_ex_iff)
  let ?row = "envelope_row.extend e \<lparr>legacy_row_digest = Some r, legacy_chain_digest = Some c\<rparr>"
  let ?entry = "\<lparr>chain_event = event_id e, chain_problem = i, chain_seq = n, row_digest = r, chain_digest = c\<rparr>"
  have entry: "insert_chain ?entry (d\<lparr>event_rows := event_rows db @ [?row]\<rparr>) =
      Inr (d\<lparr>event_rows := event_rows db @ [?row], chain_rows := chain_rows db @ [?entry]\<rparr>)"
    using e chain prior n d by (auto simp: insert_chain_def)
  have heads: "\<exists>x \<in> set (problem_rows d). fst x = i \<and> public_seq (snd x) = n \<and> head_digest (snd x) = Some c"
    "\<exists>x \<in> set (problem_rows d). fst x = i \<and> head_version (snd x) = Some 2 \<and> head_digest (snd x) = Some c"
    using mem p' by force+
  have rows: "event_rows d = event_rows db" using d by simp
  from filled obtain b where b: "map_of (backfill_rows d) i = Some b" "backfill_complete b" by blast
  have "insert_event_row plan e r c d = with_other (event_triggers plan ?row)
      (d\<lparr>event_rows := event_rows db @ [?row], chain_rows := chain_rows db @ [?entry]\<rparr>)"
    unfolding insert_event_row_def Let_def e(1,2) rows entry
    using heads uniq b e by simp
  then show ?thesis by (simp only:) (rule clean_weaken [OF clean_callback(4)], rule TrueI)
qed

lemma insert_checkpoint_row_succeeds:
  assumes ok: "ledger_ok sha256 db" and p: "map_of (problem_rows db) i = Some p"
    and n: "n = int (length (problem_log db i)) + 1"
    and d: "checkpoint_rows d = checkpoint_rows db" "checkpoint_chain d = checkpoint_chain db"
      "list_ex (\<lambda>c. chain_problem c = i \<and> chain_seq c = n \<and> chain_digest c = g) (chain_rows d)"
    and k: "checkpoint_problem k = i" "checkpoint_seq k = n" "root_digest k = g"
  shows "\<exists>d'. insert_checkpoint_row k d = Inr d'"
proof -
  have free: "\<not> list_ex (\<lambda>c. checkpoint_problem c = i \<and> checkpoint_seq c = n) rows"
    if "set rows \<subseteq> set (checkpoint_rows db) \<union> set (checkpoint_chain db)" for rows
    using checkpoint_sequence [OF ok] that n by (intro not_list_ex) fastforce
  have "n > 1 \<Longrightarrow> list_ex (\<lambda>c. checkpoint_problem c = i \<and> checkpoint_seq c = n - 1) (checkpoint_chain db)"
    using last_of_stream(2) [OF ok p] ledger_ok_head [OF ok p] n
    by (auto simp: head_ok_def Let_def list_ex_iff)
  with free [of "checkpoint_rows db"] free [of "checkpoint_chain db"] d k n show ?thesis
    by (auto simp: insert_checkpoint_row_def)
qed

lemma insert_content_clean:
  assumes "event_exists d (in_event input)" "\<not> list_ex (\<lambda>c. content_event c = in_event input) (content_rows d)"
  shows "clean plan (insert_content plan input g d) (\<lambda>d'. \<exists>q. d' = d\<lparr>content_rows := content_rows d @
    [\<lparr>content_event = in_event input, content_digest = g, content_json = in_payload input,
      content_redaction = None\<rparr>], other_tables := q\<rparr>)"
  using assms by (auto simp: insert_content_def Let_def intro!: clean_weaken [OF clean_callback(5)])

lemma settle_key_clean: "clean plan (settle_key plan input n d) (\<lambda>_. True)"
  by (auto simp: settle_key_def intro: clean_weaken [OF clean_callback(6)])

lemma elect_head_clean:
  assumes ok: "ledger_ok sha256 db" and p: "map_of (problem_rows db) (in_problem input) = Some p"
    and won: "elected plan input before x db"
  shows "clean plan (elect_head plan input before c (claim_key input x db)) (\<lambda>d. \<exists>q.
    d = (claim_key input x db)\<lparr>problem_rows := map_put (in_problem input) (p\<lparr>public_seq := head_seq before + 1,
        head_digest := Some c, problem_updated := in_created input\<rparr>) (problem_rows db), other_tables := q\<rparr> \<and>
    head_triggers plan ((claim_key input x db)\<lparr>problem_rows := map_put (in_problem input) (p\<lparr>public_seq := head_seq before + 1,
        head_digest := Some c, problem_updated := in_created input\<rparr>) (problem_rows db)\<rparr>) = Inr q)"
proof -
  let ?d = "claim_key input x db"
  have now: "public_seq p = head_seq before" "head_digest p = Some (head_chain before)" "key_free input x db" "precondition plan ?d"
    using won p by (auto simp: elected_def head_current_def)
  have owns: "owns_key input ?d" using owns_claimed_key [OF _ p] now(3) ok by (simp add: ledger_ok_def)
  have "elect_head plan input before c ?d = with_other (head_triggers plan)
      (?d\<lparr>problem_rows := map_put (in_problem input) (p\<lparr>public_seq := head_seq before + 1,
        head_digest := Some c, problem_updated := in_created input\<rparr>) (problem_rows db)\<rparr>)"
    using owns p now ledger_ok_head [OF ok p] by (simp add: elect_head_def head_ok_def Let_def)
  then show ?thesis by (simp only:) (rule clean_weaken [OF clean_callback(3)], auto)
qed

text \<open>The statements that follow the event: content, projections, checkpoint, key and companions.\<close>

lemma later_statements_clean:
  assumes ok: "ledger_ok sha256 db" and p: "map_of (problem_rows db) (in_problem input) = Some p"
    and fresh: "\<not> event_exists db (in_event input)"
    and n: "n = int (length (problem_log db (in_problem input))) + 1"
    and d: "event_rows d = event_rows db @ [e]" "chain_rows d = chain_rows db @ [ch]"
      "content_rows d = content_rows db" "checkpoint_rows d = checkpoint_rows db" "checkpoint_chain d = checkpoint_chain db"
    and e: "event_id e = in_event input" "event_problem e = in_problem input" "event_seq e = n"
    and ch: "chain_problem ch = in_problem input" "chain_seq ch = n" "chain_digest ch = c"
  shows "clean plan (and_then (insert_content plan input g d) (\<lambda>d3.
     and_then (with_other (projection_statements plan s) d3) (\<lambda>d4.
     and_then (insert_checkpoint input c h d4) (\<lambda>d5.
     and_then (settle_key plan input m d5) (\<lambda>d6.
     and_then (with_other (companion_statements plan s) d6) (\<lambda>d7. Inr (drop_unsettled input d7))))))) (\<lambda>_. True)"
proof (rule clean_bind [OF insert_content_clean]; (elim exE)?)
  show "\<not> list_ex (\<lambda>c. content_event c = in_event input) (content_rows d)"
    using content_exists [of sha256 db] ok fresh d by (simp add: ledger_ok_def)
  show "event_exists d (in_event input)" using d e by (simp add: event_exists_def)
  fix d3 q assume d3: "d3 = d\<lparr>content_rows := content_rows d @ [\<lparr>content_event = in_event input, content_digest = g,
    content_json = in_payload input, content_redaction = None\<rparr>], other_tables := q\<rparr>"
  show "clean plan (and_then (with_other (projection_statements plan s) d3) (\<lambda>d4.
     and_then (insert_checkpoint input c h d4) (\<lambda>d5.
     and_then (settle_key plan input m d5) (\<lambda>d6.
     and_then (with_other (companion_statements plan s) d6) (\<lambda>d7. Inr (drop_unsettled input d7)))))) (\<lambda>_. True)"
  proof (rule clean_bind [OF clean_callback(1)], elim exE conjE)
    fix d4 q' assume d4: "d4 = d3\<lparr>other_tables := q'\<rparr>"
    have find: "find (\<lambda>y. event_id y = in_event input) (event_rows d4) = Some e"
      using d4 d3 d e fresh by (simp add: event_exists_def list_ex_iff find_snoc)
    let ?k = "\<lparr>checkpoint_problem = in_problem input, checkpoint_seq = n, root_digest = c,
      checkpoint_hash = h, checkpoint_created = in_created input\<rparr>"
    obtain d5 where "insert_checkpoint_row ?k d4 = Inr d5"
      using insert_checkpoint_row_succeeds [OF ok p n, where d = d4 and g = c and k = ?k] d4 d3 d ch by auto
    then have "insert_checkpoint input c h d4 = Inr d5" using find e by (simp add: insert_checkpoint_def)
    moreover have "clean plan (and_then (settle_key plan input m d5) (\<lambda>d6.
        and_then (with_other (companion_statements plan s) d6) (\<lambda>d7. Inr (drop_unsettled input d7)))) (\<lambda>_. True)"
      by (intro clean_bind [OF settle_key_clean] clean_bind [OF clean_callback(2)]) simp
    ultimately show "clean plan (and_then (insert_checkpoint input c h d4) (\<lambda>d5.
       and_then (settle_key plan input m d5) (\<lambda>d6.
       and_then (with_other (companion_statements plan s) d6) (\<lambda>d7. Inr (drop_unsettled input d7))))) (\<lambda>_. True)"
      by simp
  qed
qed

lemma free_key_batch:
  assumes ok: "ledger_ok sha256 db" and pre: "prepare_digests sha256 input before = Inr pre"
    and won: "elected plan input before x db" and stable: "stable_precondition plan"
    and fresh: "\<not> event_exists db (in_event input)"
  shows "clean plan (run_batch plan input before x pre db) (\<lambda>_. True)"
proof -
  let ?d = "claim_key input x db" and ?i = "in_problem input" and ?n = "head_seq before + 1" and ?c = "prepared_chain pre"
  from won obtain p where p: "map_of (problem_rows db) ?i = Some p" "public_seq p = head_seq before" "precondition plan ?d"
    "key_free input x db"
    by (auto simp: elected_def head_current_def split: option.splits)
  have h: "head_version p = Some 2" "?n = int (length (problem_log db ?i)) + 1"
    using ledger_ok_head [OF ok p(1)] p(2) by (simp_all add: head_ok_def Let_def)
  let ?p' = "p\<lparr>public_seq := ?n, head_digest := Some ?c, problem_updated := in_created input\<rparr>"
  let ?u = "?d\<lparr>problem_rows := map_put ?i ?p' (problem_rows db)\<rparr>"
  note e = prepared_values(1) [OF pre]
  from claim_key_frame [of input x db] obtain keys where keys: "?d = db\<lparr>idempotency_rows := keys\<rparr>" by blast
  show ?thesis unfolding run_batch_def Let_def
  proof (rule clean_bind [OF elect_head_clean [OF ok p(1) won]], elim exE conjE)
    fix d1 q1 assume d1: "d1 = ?u\<lparr>other_tables := q1\<rparr>" and q1: "head_triggers plan ?u = Inr q1"
    have row: "clean plan (insert_event_row plan (prepared_envelope pre) (prepared_row pre) ?c d1) (\<lambda>_. True)"
      using insert_event_row_clean [OF ok p(1), where d = "?u\<lparr>other_tables := q1\<rparr>" and keys = keys and p' = ?p' and q = q1
        and n = ?n and c = ?c and e = "prepared_envelope pre" and plan = plan and r = "prepared_row pre"]
        keys h e fresh d1 by auto
    have "precondition plan d1" using stable q1 p(3) d1 by (auto simp: stable_precondition_def)
    moreover have "owns_key input d1"
      using owns_claimed_key [OF _ p(1)] p(4) ok d1 by (simp add: ledger_ok_def)
    ultimately have same: "insert_event plan input (prepared_envelope pre) (prepared_row pre) ?c d1 =
        insert_event_row plan (prepared_envelope pre) (prepared_row pre) ?c d1"
      using e p(1) d1 by (simp add: insert_event_def)
    let ?s = "settlement_of input pre"
    show "clean plan (and_then (insert_event plan input (prepared_envelope pre) (prepared_row pre) ?c d1) (\<lambda>d2.
       and_then (insert_content plan input (payload_digest (prepared_envelope pre)) d2) (\<lambda>d3.
       and_then (with_other (projection_statements plan ?s) d3) (\<lambda>d4.
       and_then (insert_checkpoint input ?c (prepared_checkpoint pre) d4) (\<lambda>d5.
       and_then (settle_key plan input (settled_seq ?s) d5) (\<lambda>d6.
       and_then (with_other (companion_statements plan ?s) d6) (\<lambda>d7. Inr (drop_unsettled input d7)))))))) (\<lambda>_. True)"
    proof (unfold same, rule clean_bind [OF row])
      fix d2 assume "insert_event_row plan (prepared_envelope pre) (prepared_row pre) ?c d1 = Inr d2"
      note rows = insert_event_row_Inr(2) [OF this]
      show "clean plan (and_then (insert_content plan input (payload_digest (prepared_envelope pre)) d2) (\<lambda>d3.
         and_then (with_other (projection_statements plan ?s) d3) (\<lambda>d4.
         and_then (insert_checkpoint input ?c (prepared_checkpoint pre) d4) (\<lambda>d5.
         and_then (settle_key plan input (settled_seq ?s) d5) (\<lambda>d6.
         and_then (with_other (companion_statements plan ?s) d6) (\<lambda>d7. Inr (drop_unsettled input d7))))))) (\<lambda>_. True)"
        by (rule later_statements_clean [OF ok p(1) fresh h(2), where d = d2 and c = ?c and
          e = "envelope_row.extend (prepared_envelope pre)
            \<lparr>legacy_row_digest = Some (prepared_row pre), legacy_chain_digest = Some ?c\<rparr>" and
          ch = "\<lparr>chain_event = in_event input, chain_problem = ?i, chain_seq = ?n, row_digest = prepared_row pre, chain_digest = ?c\<rparr>"])
          (use rows e d1 keys in auto)
    qed
  qed
qed

definition fresh_receipt :: "(string \<Rightarrow> string) \<Rightarrow> ledger_input \<Rightarrow> 'p ledger \<Rightarrow> receipt" where
  "fresh_receipt sha256 input db =
     (let n = int (length (problem_log db (in_problem input))) + 1; e = next_event sha256 db input;
          d = link sha256 (head_link sha256 db (in_problem input)) e in
      \<lparr>receipt_event = in_event input, receipt_object = in_object input, receipt_seq = n,
       receipt_idempotent = False, receipt_before = n - 1, receipt_after = n,
       receipt_payload = sha256 (in_payload input), receipt_row = row_hash sha256 e, receipt_chain = d,
       receipt_checkpoint = root_hash sha256 (in_problem input) n d\<rparr>)"

lemma appended_key:
  assumes p: "map_of (problem_rows db) (in_problem input) = Some p" and free: "key_free input x db"
  shows "find_idem (append_event sha256 input x db) (in_problem input) (in_key input) =
    Some (settled_key input (int (length (problem_log db (in_problem input))) + 1))"
proof -
  from claim_free_key [OF free p]
  have "find (idem_of (in_problem input) (in_key input)) (idempotency_rows (claim_key input x db)) = Some (fresh_idem input)"
    by (simp add: find_idem_def)
  moreover have "idem_of (in_problem input) (in_key input) (settled_key input n)" for n
    by (simp add: settled_key_def idem_of_def fresh_idem_def)
  ultimately show ?thesis using find_map_key
    by (simp add: append_event_def Let_def find_idem_def next_event_def envelope_for_fields)
qed

lemma appended_log:
  "problem_log (append_event sha256 input x db) (in_problem input) =
     problem_log db (in_problem input) @ [envelope_row.extend (next_event sha256 db input)
       \<lparr>legacy_row_digest = Some (row_hash sha256 (next_event sha256 db input)),
        legacy_chain_digest = Some (link sha256 (head_link sha256 db (in_problem input)) (next_event sha256 db input))\<rparr>]"
  by (simp add: append_event_def Let_def problem_log_def chain_entry_def next_event_def)

lemma appended_receipt:
  assumes "before = \<lparr>head_seq = int (length (problem_log db (in_problem input))),
      head_chain = head_link sha256 db (in_problem input)\<rparr>" "k = length (problem_log db (in_problem input))"
    and "db' = (append_event sha256 input x db)\<lparr>other_tables := q\<rparr>"
  shows "receipt_for sha256 input before db' (problem_log db' (in_problem input) ! k)
      (chained sha256 (genesis sha256 (in_problem input)) (problem_log db' (in_problem input)) ! k) =
    fresh_receipt sha256 input db"
  using assms appended_log [of sha256 input x db]
  by (simp add: receipt_for_def fresh_receipt_def Let_def chained_snoc nth_append chain_entry_def
      next_event_def head_link_def row_hash_def)

lemma fresh_write:
  assumes "ledger_ok sha256 db"
    and "validate_ledger_command dormancy_event input now = Inr x"
    and "map_of (problem_rows db) (in_problem input) = Some p" "public_seq p < max_safe_integer"
    and "key_free input x db" "precondition plan (claim_key input x db)" "stable_precondition plan"
    and "\<not> event_exists db (in_event input)" "ledger_claim_content sha256 input = Inr c"
  shows "(\<exists>q. write_ledger_event sha256 dormancy_event rebuild plan (\<lambda>_. idle_round) input now db =
      (Inr (fresh_receipt sha256 input db), 0, (append_event sha256 input x db)\<lparr>other_tables := q\<rparr>)) \<or>
    (\<exists>race. caller_aborts plan race \<and> write_ledger_event sha256 dormancy_event rebuild plan (\<lambda>_. idle_round) input now db =
      (Inl BatchFailed, retries_of (OtherAbort race), db))"
proof -
  let ?i = "in_problem input" let ?k = "length (problem_log db ?i)" let ?before = "logged_head sha256 db ?i"
  note ok = assms(1)
  have won: "elected plan input ?before x db"
    using ledger_ok_head [OF ok assms(3)] assms(3,5,6) by (simp add: elected_def head_current_def head_ok_def Let_def)
  obtain pre where pre: "prepare_digests sha256 input ?before = Inr pre"
    and w: "\<And>a. run_batch plan input ?before x pre db = Inl a \<Longrightarrow>
      write_ledger_event sha256 dormancy_event rebuild plan (\<lambda>_. idle_round) input now db = (Inl BatchFailed, retries_of a, db)"
    "\<And>db' r. run_batch plan input ?before x pre db = Inr db' \<Longrightarrow>
      read_settlement sha256 input True ?before (find_idem db' ?i (in_key input)) db' = Stop r \<Longrightarrow>
      write_ledger_event sha256 dormancy_event rebuild plan (\<lambda>_. idle_round) input now db = (r, 0, db')"
    using idle_write [OF ok assms(2-4,9), of plan rebuild] by blast
  show ?thesis
  proof (cases "run_batch plan input ?before x pre db")
    case (Inl a)
    then show ?thesis using free_key_batch [OF ok pre won assms(7,8)] w(1) [OF Inl] by (auto simp: clean_def)
  next
    case run: (Inr db')
    note db' = won_batch(1) [OF ok pre won assms(7) run]
    have ok': "ledger_ok sha256 db'"
      using batch_keeps_ledger [OF ok pre assms(7) _ _ run] validated_version [OF assms(2)] by simp
    have key: "find_idem db' ?i (in_key input) = Some (settled_key input (int ?k + 1))"
      using appended_key [OF assms(3,5)] by (subst db') simp
    have len: "?k < length (problem_log db' ?i)" by (subst db') simp
    have new: "event_id (problem_log db' ?i ! ?k) = in_event input"
      by (subst db') (simp add: appended_log next_event_def del: log_append)
    have "map_of (problem_rows db') ?i \<noteq> None" by (subst db') (simp add: append_event_def Let_def)
    then obtain p' where p': "map_of (problem_rows db') ?i = Some p'" by blast
    have "read_settlement sha256 input True ?before (find_idem db' ?i (in_key input)) db' =
        Stop (Inr (fresh_receipt sha256 input db))"
      using read_receipt_logged [OF ok' p' len, of ?before] appended_receipt [OF refl refl db'] key new
      by (simp add: read_settlement_def settled_key_def fresh_idem_def)
    from w(2) [OF run this] db' show ?thesis by metis
  qed
qed

end
