(* ===== verification/LedgerSamples.thy ===== *)
theory LedgerSamples
  imports LedgerLive
begin

section \<open>Sample ledgers\<close>

text \<open>
  A ledger with one problem, and the ledger after one call of the event writer on it. The
  identity stands for SHA-256; the caller's statements do nothing.
\<close>

definition sample_plan :: "unit ledger_plan" where
  "sample_plan = \<lparr>precondition = \<lambda>_. True, projection_statements = \<lambda>_ _. Inr (), companion_statements = \<lambda>_ _. Inr (),
     head_triggers = \<lambda>_. Inr (), event_triggers = \<lambda>_ _. Inr (), content_triggers = \<lambda>_ _. Inr (),
     settle_triggers = \<lambda>_. Inr ()\<rparr>"

definition sample_input :: "string \<Rightarrow> string \<Rightarrow> ledger_input" where
  "sample_input event key = \<lparr>in_problem = ''P-1'', in_event = event, in_key = key,
     in_request = replicate 64 CHR ''0'', in_type = ''attempt.created'', in_kind = ''attempt'', in_object = ''A-1'',
     in_version = 1, in_payload = ''{}'', in_created = ''1970-01-01T00:00:00.000Z'',
     in_attribution = FellowWrites ''F-1'' ''S-1'' ''V-1'' ''model'' ''harness'' None\<rparr>"

definition first_ledger :: "unit ledger" where
  "first_ledger = created_problem (\<lambda>s. s) ''P-1'' ''1970-01-01T00:00:00.000Z'' (empty_ledger ())"

definition second_ledger :: "unit ledger" where
  "second_ledger = append_event (\<lambda>s. s) (sample_input ''E-1'' ''K-1'') None first_ledger"

lemma sample_plan_fields [simp]:
  "stable_precondition sample_plan" "\<not> caller_aborts sample_plan race" "precondition sample_plan db"
  by (simp_all add: sample_plan_def stable_precondition_def caller_aborts_def)

text \<open>The plan of a caller whose own statement aborts each batch.\<close>

definition refused_plan :: "unit ledger_plan" where
  "refused_plan = sample_plan\<lparr>companion_statements := \<lambda>_ _. Inl False\<rparr>"

lemma refused_plan_fields [simp]: "stable_precondition refused_plan" "precondition refused_plan db"
  by (simp_all add: refused_plan_def sample_plan_def stable_precondition_def)

lemma refused_batch: "run_batch refused_plan input before x pre db \<noteq> Inr db'"
  by (auto simp: run_batch_def Let_def and_then_Inr with_other_Inr refused_plan_def)

lemma sample_input_fields [simp]:
  "in_problem (sample_input e k) = ''P-1''" "in_event (sample_input e k) = e" "in_key (sample_input e k) = k"
  "in_request (sample_input e k) = replicate 64 CHR ''0''"
  by (simp_all add: sample_input_def)

lemma sample_instant: "validate_ingress_timestamp ''1970-01-01T00:00:00.000Z'' 0 = Inr ()"
  by code_simp

lemma sample_validates:
  "bounded_identifier e \<Longrightarrow> bounded_identifier k \<Longrightarrow> validate_ledger_command (\<lambda>_. False) (sample_input e k) 0 = Inr None"
proof -
  have "bounded_identifier ''P-1''" "bounded_identifier ''attempt.created''" "bounded_identifier ''attempt''"
    "bounded_identifier ''A-1''" "bounded_identifier ''F-1''" "bounded_identifier ''S-1''" "bounded_identifier ''V-1''"
    by code_simp+
  moreover have "lower_hex CHR ''0''" "utf8_length ''{}'' = 2" by code_simp+
  then have "request_digest_shape (replicate 64 CHR ''0'')" "utf8_length ''{}'' \<le> max_payload_bytes"
    by (simp_all add: request_digest_shape_def all_chars_def max_payload_bytes_def list_all_iff)
  moreover have "json_parse ''{}'' \<noteq> None" by code_simp
  moreover assume "bounded_identifier e" "bounded_identifier k"
  ultimately show ?thesis
    by (simp add: validate_ledger_command_def sample_input_def require_def sample_instant max_safe_integer_def)
qed

lemma sample_keys: "bounded_identifier ''E-1''" "bounded_identifier ''K-1''" "bounded_identifier ''E-2''" "bounded_identifier ''K-2''"
  by code_simp+

lemma sample_content: "ledger_claim_content sha256 (sample_input e k) = Inr None"
  by (simp add: ledger_claim_content_def sample_input_def)

lemma first_ledger_run: "ledger_runs (\<lambda>s. s) (empty_ledger ()) first_ledger"
proof (rule runs_step)
  have i: "bounded_identifier ''P-1''" by code_simp
  have "map_of (problem_rows (empty_ledger ())) ''P-1'' = None" by (simp add: empty_ledger_def)
  from created_backfill [OF empty_ledger_ok this i sample_instant, of "\<lambda>s. s" "\<lambda>_ _ _ q. q"]
  have "ensure_problem (\<lambda>s. s) (\<lambda>_ _ _ q. q) (empty_ledger ()) ''P-1'' ''1970-01-01T00:00:00.000Z'' 0 = (Inr (), first_ledger)"
    by (simp add: ensure_problem_def require_identifier_def require_def i sample_instant first_ledger_def empty_ledger_def)
  then show "ledger_step (\<lambda>s. s) (empty_ledger ()) first_ledger" by (rule create)
qed


lemma first_ledger_tables:
  "event_rows first_ledger = []" "idempotency_rows first_ledger = []"
  "map_of (problem_rows first_ledger) ''P-1'' = Some \<lparr>public_seq = 0,
     head_digest = Some (genesis (\<lambda>s. s) ''P-1''), head_version = Some 2, problem_updated = ''1970-01-01T00:00:00.000Z''\<rparr>"
  "problem_log first_ledger ''P-1'' = []"
  by (simp_all add: first_ledger_def created_problem_def empty_ledger_def problem_log_def)

lemma first_ledger_ok: "ledger_ok (\<lambda>s. s) first_ledger"
  by (rule runs_ok [OF first_ledger_run empty_ledger_ok])

lemma first_ledger_free: "key_free (sample_input e k) x first_ledger" "\<not> event_exists first_ledger e"
  by (simp_all add: key_free_def find_idem_def event_exists_def first_ledger_tables)

lemma unit_tables [simp]: "(db::unit ledger)\<lparr>other_tables := q\<rparr> = db"
  by simp

lemma second_ledger_write:
  "write_ledger_event (\<lambda>s. s) (\<lambda>_. False) (\<lambda>_ _ _ q. q) sample_plan (\<lambda>_. idle_round) (sample_input ''E-1'' ''K-1'') 0
     first_ledger = (Inr (fresh_receipt (\<lambda>s. s) (sample_input ''E-1'' ''K-1'') first_ledger), 0, second_ledger)"
  using fresh_write [OF first_ledger_ok sample_validates [OF sample_keys(1,2)], of _ sample_plan None "\<lambda>_ _ _ q. q"]
    sample_content first_ledger_tables first_ledger_free
  by (simp add: second_ledger_def max_safe_integer_def)

lemma refused_write:
  "write_ledger_event (\<lambda>s. s) (\<lambda>_. False) (\<lambda>_ _ _ q. q) refused_plan (\<lambda>_. idle_round) (sample_input ''E-1'' ''K-1'') 0
     first_ledger = (Inl BatchFailed, 0, first_ledger)"
proof -
  obtain p where p: "map_of (problem_rows first_ledger) ''P-1'' = Some p" "public_seq p = 0"
    using first_ledger_tables(3) by simp
  let ?before = "logged_head (\<lambda>s. s) first_ledger ''P-1''"
  have v: "validate_ledger_command (\<lambda>_. False) (sample_input ''E-1'' ''K-1'') 0 = Inr None"
    by (rule sample_validates [OF sample_keys(1,2)])
  obtain pre where pre: "prepare_digests (\<lambda>s. s) (sample_input ''E-1'' ''K-1'') ?before = Inr pre"
    and w: "\<And>a. run_batch refused_plan (sample_input ''E-1'' ''K-1'') ?before None pre first_ledger = Inl a \<Longrightarrow>
      write_ledger_event (\<lambda>s. s) (\<lambda>_. False) (\<lambda>_ _ _ q. q) refused_plan (\<lambda>_. idle_round) (sample_input ''E-1'' ''K-1'') 0
        first_ledger = (Inl BatchFailed, retries_of a, first_ledger)"
    using idle_write [OF first_ledger_ok v, of p, where plan = refused_plan and rebuild = "\<lambda>_ _ _ q. q"] p sample_content
    by (auto simp: max_safe_integer_def)
  have won: "elected refused_plan (sample_input ''E-1'' ''K-1'') ?before None first_ledger"
    using first_ledger_tables first_ledger_free by (simp add: elected_def head_current_def head_link_def)
  show ?thesis
  proof (cases "run_batch refused_plan (sample_input ''E-1'' ''K-1'') ?before None pre first_ledger")
    case (Inl a)
    then obtain race where race: "a = OtherAbort race" "caller_aborts refused_plan race"
      using free_key_batch [OF first_ledger_ok pre won refused_plan_fields(1)] first_ledger_free by (auto simp: clean_def)
    then have "\<not> race" by (auto simp: caller_aborts_def refused_plan_def sample_plan_def)
    with w [OF Inl] race show ?thesis by (simp add: retries_of_def)
  qed (simp add: refused_batch)
qed

lemma idle_round_orderly [simp]: "orderly_round sha256 idle_round"
  by (simp add: orderly_round_def idle_round_def)

lemma second_ledger_run': "ledger_runs (\<lambda>s. s) first_ledger second_ledger"
  using write_ledger_event_runs [OF first_ledger_ok sample_plan_fields(1), of "\<lambda>_. idle_round"]
    second_ledger_write by (metis idle_round_orderly snd_conv)

lemma second_ledger_run: "ledger_runs (\<lambda>s. s) (empty_ledger ()) second_ledger"
  using first_ledger_run second_ledger_run' by (rule runs_trans)

lemma second_ledger_tables:
  "length (problem_log second_ledger ''P-1'') = 1" "map_of (problem_rows second_ledger) ''P-1'' \<noteq> None"
  "find_idem second_ledger ''P-1'' ''K-1'' = Some (settled_key (sample_input ''E-1'' ''K-1'') 1)"
  "\<not> event_exists second_ledger ''E-2''"
proof -
  show l: "length (problem_log second_ledger ''P-1'') = 1"
    by (simp add: second_ledger_def first_ledger_tables)
  show m: "map_of (problem_rows second_ledger) ''P-1'' \<noteq> None"
    by (simp add: second_ledger_def append_event_def Let_def)
  show "find_idem second_ledger ''P-1'' ''K-1'' = Some (settled_key (sample_input ''E-1'' ''K-1'') 1)"
    using appended_key [of first_ledger "sample_input ''E-1'' ''K-1''" _ None "\<lambda>s. s"] first_ledger_tables first_ledger_free
    by (simp add: second_ledger_def)
  show "\<not> event_exists second_ledger ''E-2''"
    by (simp add: second_ledger_def append_event_def Let_def event_exists_def next_event_def first_ledger_tables)
qed

lemma second_ledger_ok: "ledger_ok (\<lambda>s. s) second_ledger"
  by (rule runs_ok [OF second_ledger_run empty_ledger_ok])

lemma second_ledger_problem:
  obtains p where "map_of (problem_rows second_ledger) ''P-1'' = Some p" "public_seq p = 1"
proof -
  obtain p where p: "map_of (problem_rows second_ledger) ''P-1'' = Some p" using second_ledger_tables(2) by blast
  moreover have "public_seq p = 1"
    using ledger_ok_head [OF second_ledger_ok p] second_ledger_tables(1) by (simp add: head_ok_def Let_def)
  ultimately show thesis by (rule that)
qed

lemma second_ledger_elects:
  "elected sample_plan (sample_input e ''K-2'') \<lparr>head_seq = 1, head_chain = head_link (\<lambda>s. s) second_ledger ''P-1''\<rparr>
     None second_ledger"
proof -
  obtain p where p: "map_of (problem_rows second_ledger) ''P-1'' = Some p" "public_seq p = 1" by (rule second_ledger_problem)
  have "find_idem second_ledger ''P-1'' ''K-2'' = None"
    by (simp add: second_ledger_def append_event_def Let_def find_idem_def claim_key_def first_ledger_tables
        idem_of_def settled_key_def fresh_idem_def split: option.splits)
  with p ledger_ok_head [OF second_ledger_ok p(1)] show ?thesis
    by (simp add: elected_def head_current_def key_free_def head_ok_def Let_def)
qed

lemma second_ledger_stream:
  "\<exists>e. stream_of (\<lambda>s. s) second_ledger ''P-1'' = [e] \<and> event_type e = ''attempt.created''"
proof -
  have t: "event_type (krater_event_of (envelope_row.extend e m) c) = event_type e" for e m c
    by (simp add: krater_event_of_def envelope_row.defs event_row.defs)
  show ?thesis using appended_log [of "\<lambda>s. s" "sample_input ''E-1'' ''K-1''" None first_ledger]
    by (simp add: stream_of_def second_ledger_def first_ledger_tables t next_event_def envelope_for_def sample_input_def
        del: log_append)
qed

end
