(* ===== verification/LedgerProperties.thy ===== *)
theory LedgerProperties
  imports LedgerSamples
begin

section \<open>The properties of the event ledger\<close>

text \<open>
  What the ledger promises, over the histories of its writers, with a sample ledger on which
  the hypotheses hold.
\<close>









text \<open>
  C4. Tamper evidence: two verified streams that end in the same chain digest are the same
  stream, event by event and field by field, unless SHA-256 collides on two of the very texts that
  the verifications hash - so a rewritten, dropped, inserted or reordered event is seen by
  whoever holds one published chain digest.
\<close>

theorem tampering_shows:
  assumes "event_chain_matches sha256 es = Inr True" "event_chain_matches sha256 fs = Inr True"
    and "es \<noteq> []" "fs \<noteq> []" "stream_chain (last es) = stream_chain (last fs)"
    and "\<not> clash sha256 (stream_texts (genesis sha256 (event_problem (hd es))) es)
      (stream_texts (genesis sha256 (event_problem (hd fs))) fs)"
  shows "es = fs"
proof -
  have m: "chain_matches_from sha256 (event_problem (hd xs)) (genesis sha256 (event_problem (hd xs))) 0 xs"
    if "event_chain_matches sha256 xs = Inr True" "xs \<noteq> []" for xs
    using that by (cases xs)
      (auto simp: event_chain_matches_def and_then_Inr genesis_chain_digest_def genesis_def)
  show ?thesis by (rule same_end_same_stream [OF m m]) (use assms in auto)
qed

theorem tampering_shows_witness:
  "event_chain_matches (\<lambda>s. s) (stream_of (\<lambda>s. s) second_ledger ''P-1'') = Inr True \<and>
   event_chain_matches (\<lambda>s. s) (map (\<lambda>e. e\<lparr>event_type := ''attempt.withdrawn''\<rparr>) (stream_of (\<lambda>s. s) second_ledger ''P-1'')) \<noteq> Inr True"
proof -
  let ?es = "stream_of (\<lambda>s. s) second_ledger ''P-1''" let ?f = "\<lambda>e. e\<lparr>event_type := ''attempt.withdrawn''\<rparr>"
  obtain p where p: "map_of (problem_rows second_ledger) ''P-1'' = Some p" by (rule second_ledger_problem)
  have m: "event_chain_matches (\<lambda>s. s) ?es = Inr True" by (rule stream_matches [OF second_ledger_ok p])
  obtain e where e: "?es = [e]" "event_type e = ''attempt.created''" using second_ledger_stream by blast
  have "?f e \<noteq> e"
  proof
    assume "?f e = e"
    from arg_cong [OF this, of event_type] e(2) show False by simp
  qed
  with e have "?es \<noteq> []" "stream_chain (last (map ?f ?es)) = stream_chain (last ?es)" "map ?f ?es \<noteq> ?es" by auto
  with tampering_shows [OF _ m, of "map ?f ?es"] m show ?thesis by (auto simp: clash_def list_ex_iff)
qed







end
