(* ===== verification/Closure.thy ===== *)
theory Closure
  imports DependencyCeiling JsonParse
begin

section \<open>The closure of a claim's declared premises (\<open>ledger/claim-dependency-closure.ts\<close>)\<close>

text \<open>
  The rows that the recursive query proposes are checked one by one: the bytes of a row count
  only under their digest, and only pins in counted bytes are followed. The rows are an
  argument; \<open>crypto.subtle.digest\<close> of a text, in lower-case hexadecimal, is the parameter
  \<open>sha256\<close>.
\<close>

subsection \<open>Limits and the query's arguments\<close>

definition dependency_closure_limit :: nat where "dependency_closure_limit = 64"

definition dependency_source_bytes :: nat where "dependency_source_bytes = 65536"

definition dependency_total_bytes :: nat where "dependency_total_bytes = 262144"

text \<open>What \<open>prepareDependencyClosure\<close> binds, or nothing when it throws.\<close>

definition closure_arguments :: "string \<Rightarrow> jsnum \<Rightarrow> string \<Rightarrow> (string \<times> string \<times> int \<times> int) option" where
  "closure_arguments problem cursor target =
     (case safe_int cursor of
        None \<Rightarrow> None
      | Some n \<Rightarrow>
          if target_shape target \<and> length target \<le> max_target_characters \<and>
             is_safe_integer (num (target_version target)) \<and> target_version target \<ge> 1 \<and> n \<ge> 0
          then Some (problem, identity_part target, target_version target, n) else None)"

subsection \<open>Pins\<close>

record dependency_pin =
  pin_claim :: string
  pin_version :: int
  pin_content :: string
  pin_event :: string
  pin_payload :: string

definition claim_id_shape :: "string \<Rightarrow> bool" where
  "claim_id_shape s \<longleftrightarrow> take 2 s = ''C-'' \<and> drop 2 s \<noteq> [] \<and> list_all is_digit (drop 2 s)"

definition hex_digest :: "string \<Rightarrow> bool" where
  "hex_digest s \<longleftrightarrow> all_chars lower_hex 64 64 s"

definition event_id_char :: "char \<Rightarrow> bool" where
  "event_id_char c \<longleftrightarrow> ascii_alnum c \<or> c \<in> set ''._:-''"

definition event_id_shape :: "string \<Rightarrow> bool" where
  "event_id_shape s \<longleftrightarrow>
     (case s of [] \<Rightarrow> False | c # cs \<Rightarrow> ascii_alnum c \<and> all_chars event_id_char 0 127 cs)"

definition pin_keys :: "string list" where
  "pin_keys = [''claim_id'', ''version'', ''content_digest'', ''event_id'', ''payload_digest'']"

text \<open>\<open>ClaimDependencyPinSchema\<close>: a strict object.\<close>

fun parse_pin :: "js_value \<Rightarrow> dependency_pin option" where
  "parse_pin (Obj entries) =
     (if \<not> list_all (\<lambda>k. k \<in> set pin_keys) (map fst entries) then None
      else case (own_value entries ''claim_id'', safe_integer_of (own_value entries ''version''),
          own_value entries ''content_digest'', own_value entries ''event_id'', own_value entries ''payload_digest'') of
        (Str c, Some v, Str g, Str e, Str d) \<Rightarrow>
          if claim_id_shape c \<and> length c \<le> 47 \<and> 1 \<le> v \<and>
             take 7 g = ''sha256:'' \<and> hex_digest (drop 7 g) \<and> event_id_shape e \<and> hex_digest d
          then Some \<lparr>pin_claim = c, pin_version = v, pin_content = g, pin_event = e, pin_payload = d\<rparr>
          else None
      | _ \<Rightarrow> None)"
| "parse_pin _ = None"

text \<open>\<open>ClaimDependencyPinsSchema\<close>.\<close>

fun parse_pins :: "js_value \<Rightarrow> dependency_pin list option" where
  "parse_pins (Arr vs) =
     (case those (map parse_pin vs) of
        None \<Rightarrow> None
      | Some pins \<Rightarrow>
          if length pins \<le> 16 \<and> distinct (map pin_claim pins) then Some pins else None)"
| "parse_pins _ = None"

subsection \<open>Rows and what is verified of them\<close>

record closure_row =
  row_event :: string
  row_problem :: string
  row_claim :: string
  row_version :: jsnum
  row_type :: string
  row_seq :: jsnum
  row_payload_sha :: string
  row_content_digest :: "string option"
  row_author :: "string option \<times> string option \<times> string option \<times> string option \<times> string option"
  row_ordinal :: jsnum
  row_payload :: "string option"

text \<open>The author fields are fellow, sponsor, session, model and harness.\<close>

record verified_source =
  source_target :: string
  source_row :: closure_row
  source_version :: int
  source_seq :: int
  source_statement :: string
  source_falsifier :: "string option"
  source_kind :: "string option"
  source_pins :: "dependency_pin list option"

text \<open>The safe integers of the row are kept beside it.\<close>

definition text_field :: "js_value \<Rightarrow> string option" where
  "text_field v = (case v of Str s \<Rightarrow> Some s | _ \<Rightarrow> None)"

definition publication_names :: "closure_row \<Rightarrow> int \<Rightarrow> (string \<times> js_value) list \<Rightarrow> bool" where
  "publication_names row v payload \<longleftrightarrow>
     (if row_type row = ''claim.created'' then v = 1
      else row_type row = ''claim.revised'' \<and> v \<ge> 2 \<and>
        own_value payload ''base_version'' = Number (num (v - 1)))"

definition source_of_payload :: "closure_row \<Rightarrow> (string \<times> js_value) list \<Rightarrow> verified_source option" where
  "source_of_payload row payload =
     (case (own_value payload ''statement'', safe_int (row_version row), safe_int (row_seq row)) of
        (Str statement, Some v, Some n) \<Rightarrow>
          if own_value payload ''claim_id'' = Str (row_claim row) \<and> \<not> js_blank statement \<and>
             v \<ge> 1 \<and> n \<ge> 1 \<and> claim_id_shape (row_claim row) \<and>
             row_content_digest row \<noteq> None \<and> row_content_digest row \<noteq> Some [] \<and>
             publication_names row v payload
          then Some \<lparr>source_target = row_claim row @ ''@'' @ show_int v, source_row = row,
             source_version = v, source_seq = n, source_statement = statement,
             source_falsifier = text_field (own_value payload ''falsifier''),
             source_kind = text_field (own_value payload ''kind''),
             source_pins = (case parse_pins (own_value payload ''dependency_pins'') of
                None \<Rightarrow> None
              | Some pins \<Rightarrow>
                  if list_ex (\<lambda>pin. pin_claim pin = row_claim row) pins then None else Some pins)\<rparr>
          else None
      | _ \<Rightarrow> None)"

definition source_of_text :: "(string \<Rightarrow> string) \<Rightarrow> closure_row \<Rightarrow> string \<Rightarrow> verified_source option" where
  "source_of_text sha256 row text =
     (if sha256 text \<noteq> row_payload_sha row then None
      else case json_parse text of
        Some (Obj payload) \<Rightarrow> source_of_payload row payload
      | _ \<Rightarrow> None)"

text \<open>One row: the bytes read so far, and what is verified of the row.\<close>

definition read_row ::
  "(string \<Rightarrow> string) \<Rightarrow> string \<Rightarrow> closure_row \<Rightarrow> nat \<Rightarrow> nat \<times> verified_source option" where
  "read_row sha256 problem row bytes =
     (case row_payload row of
        None \<Rightarrow> (bytes, None)
      | Some text \<Rightarrow>
          if row_problem row \<noteq> problem \<or> length text > dependency_source_bytes then (bytes, None)
          else
            let n = utf8_length text; total = bytes + n in
            if n > dependency_source_bytes \<or> total > dependency_total_bytes then (total, None)
            else (total, source_of_text sha256 row text))"

text \<open>The loop over the rows, with the events seen, the duplicates and the map built.\<close>

fun verify_rows ::
  "(string \<Rightarrow> string) \<Rightarrow> string \<Rightarrow> closure_row list \<Rightarrow> nat \<Rightarrow> string list \<Rightarrow> string list \<Rightarrow>
   (string \<times> verified_source) list \<Rightarrow> string list \<times> (string \<times> verified_source) list" where
  "verify_rows sha256 problem [] bytes seen duplicates verified = (duplicates, verified)"
| "verify_rows sha256 problem (row # rows) bytes seen duplicates verified =
     (let e = row_event row; (total, source) = read_row sha256 problem row bytes in
      verify_rows sha256 problem rows total (e # seen)
        (if e \<in> set seen then e # duplicates else duplicates)
        (case source of None \<Rightarrow> verified | Some s \<Rightarrow> map_put e s verified))"

definition verified_sources ::
  "(string \<Rightarrow> string) \<Rightarrow> string \<Rightarrow> closure_row list \<Rightarrow> (string \<times> verified_source) list" where
  "verified_sources sha256 problem rows =
     (let (duplicates, verified) = verify_rows sha256 problem (take dependency_closure_limit rows) 0 [] [] []
      in filter (\<lambda>(e, _). e \<notin> set duplicates) verified)"

subsection \<open>The walk along verified pins\<close>

record closure_node =
  node_source :: verified_source
  node_depth :: nat
  node_path :: "string list"

record closure_edge =
  edge_from :: string
  edge_to :: string
  edge_available :: bool

record closure =
  root_available :: bool
  closure_complete :: bool
  closure_nodes :: "closure_node list"
  closure_edges :: "closure_edge list"
  closure_unavailable :: "string list"

definition pin_target :: "dependency_pin \<Rightarrow> string" where
  "pin_target pin = pin_claim pin @ ''@'' @ show_int (pin_version pin)"

definition pin_available ::
  "(string \<times> verified_source) list \<Rightarrow> closure_node \<Rightarrow> dependency_pin \<Rightarrow> bool" where
  "pin_available verified node pin \<longleftrightarrow>
     (case map_of verified (pin_event pin) of
        None \<Rightarrow> False
      | Some child \<Rightarrow>
          source_target child = pin_target pin \<and>
          row_payload_sha (source_row child) = pin_payload pin \<and>
          row_content_digest (source_row child) = Some (pin_content pin) \<and>
          source_seq child < source_seq (node_source node) \<and>
          \<not> list_ex (\<lambda>step. identity_part step = pin_claim pin) (node_path node))"

text \<open>The state of the walk besides the queue.\<close>

record walk_state =
  walk_complete :: bool
  walk_edges :: "closure_edge list"
  walk_unavailable :: "string list"
  walk_reached :: "string list"

definition set_add :: "'a \<Rightarrow> 'a list \<Rightarrow> 'a list" where
  "set_add x xs = (if x \<in> set xs then xs else xs @ [x])"

fun follow_pins ::
  "(string \<times> verified_source) list \<Rightarrow> closure_node \<Rightarrow> dependency_pin list \<Rightarrow> walk_state \<Rightarrow>
   walk_state \<times> closure_node list" where
  "follow_pins verified node [] w = (w, [])"
| "follow_pins verified node (pin # pins) w =
     (let available = pin_available verified node pin;
          w1 = w\<lparr>walk_edges := walk_edges w @ [\<lparr>edge_from = source_target (node_source node),
            edge_to = pin_target pin, edge_available = available\<rparr>]\<rparr>
      in if \<not> available
         then follow_pins verified node pins
           (w1\<lparr>walk_complete := False, walk_unavailable := set_add (pin_target pin) (walk_unavailable w1)\<rparr>)
         else if pin_event pin \<in> set (walk_reached w) then follow_pins verified node pins w1
         else
           let child = \<lparr>node_source = the (map_of verified (pin_event pin)), node_depth = node_depth node + 1,
                 node_path = node_path node @ [pin_target pin]\<rparr>;
               (w2, pushed) = follow_pins verified node pins
                 (w1\<lparr>walk_reached := walk_reached w1 @ [pin_event pin]\<rparr>)
           in (w2, child # pushed))"

definition walk_node ::
  "(string \<times> verified_source) list \<Rightarrow> closure_node \<Rightarrow> walk_state \<Rightarrow> walk_state \<times> closure_node list" where
  "walk_node verified node w =
     (case source_pins (node_source node) of
        None \<Rightarrow> (w\<lparr>walk_complete := False,
            walk_unavailable := set_add (source_target (node_source node)) (walk_unavailable w)\<rparr>, [])
      | Some pins \<Rightarrow> follow_pins verified node pins w)"

text \<open>Every pushed node is a verified source that was not reached before.\<close>

definition node_event :: "closure_node \<Rightarrow> string" where
  "node_event node = row_event (source_row (node_source node))"

definition keyed_by_event :: "(string \<times> verified_source) list \<Rightarrow> bool" where
  "keyed_by_event verified \<longleftrightarrow> list_all (\<lambda>(e, s). row_event (source_row s) = e) verified"

lemma follow_pins_reached:
  assumes "follow_pins verified node pins w = (w', pushed)"
  shows "\<exists>es. walk_reached w' = walk_reached w @ es \<and> length es = length pushed \<and>
    distinct es \<and> set es \<inter> set (walk_reached w) = {} \<and> set es \<subseteq> set (map_keys verified)"
  using assms
proof (induction verified node pins w arbitrary: w' pushed rule: follow_pins.induct)
  case (2 verified node pin pins w)
  show ?case
  proof (cases "pin_available verified node pin \<and> pin_event pin \<notin> set (walk_reached w)")
    case False
    then show ?thesis using 2 by (auto simp: Let_def split: if_splits)
  next
    case True
    then have k: "pin_event pin \<in> set (map_keys verified)"
      using map_of_None_iff [of verified "pin_event pin"] by (auto simp: pin_available_def split: option.splits)
    obtain w2 pushed' where r: "follow_pins verified node pins (w\<lparr>walk_edges := walk_edges w @
        [\<lparr>edge_from = source_target (node_source node), edge_to = pin_target pin, edge_available = True\<rparr>],
        walk_reached := walk_reached w @ [pin_event pin]\<rparr>) = (w2, pushed')"
      by (meson surj_pair)
    with 2 True have ih: "\<exists>es. walk_reached w2 = walk_reached w @ [pin_event pin] @ es \<and> length es = length pushed' \<and>
        distinct es \<and> set es \<inter> set (walk_reached w @ [pin_event pin]) = {} \<and> set es \<subseteq> set (map_keys verified)"
      by (auto simp: Let_def)
    then obtain es where "walk_reached w2 = walk_reached w @ [pin_event pin] @ es" "length es = length pushed'"
      "distinct es" "set es \<inter> set (walk_reached w @ [pin_event pin]) = {}" "set es \<subseteq> set (map_keys verified)" by blast
    moreover have "w' = w2" "length pushed = Suc (length pushed')" using 2(4) r True by (auto simp: Let_def)
    ultimately show ?thesis using True k by (intro exI [of _ "pin_event pin # es"]) auto
  qed
qed simp

lemma walk_node_measure:
  assumes "walk_node verified node w = (w', pushed)"
  shows "card (set (map_keys verified) - set (walk_reached w')) + length pushed \<le>
    card (set (map_keys verified) - set (walk_reached w))"
proof (cases "source_pins (node_source node)")
  case (Some pins)
  with assms have "follow_pins verified node pins w = (w', pushed)" by (simp add: walk_node_def)
  from follow_pins_reached [OF this] obtain es where es: "walk_reached w' = walk_reached w @ es"
    "length es = length pushed" "distinct es" "set es \<inter> set (walk_reached w) = {}" "set es \<subseteq> set (map_keys verified)" by blast
  let ?K = "set (map_keys verified)" and ?R = "set (walk_reached w)"
  have "card (?K - (?R \<union> set es)) + card (set es) = card ((?K - (?R \<union> set es)) \<union> set es)"
    by (subst card_Un_disjoint) auto
  also have "\<dots> \<le> card (?K - ?R)" using es(4,5) by (intro card_mono) auto
  finally show ?thesis using es(1-3) by (simp add: distinct_card)
qed (use assms in \<open>auto simp: walk_node_def\<close>)

function walk_queue ::
  "(string \<times> verified_source) list \<Rightarrow> closure_node list \<Rightarrow> walk_state \<Rightarrow> walk_state \<times> closure_node list" where
  "walk_queue verified [] w = (w, [])"
| "walk_queue verified (node # queue) w =
     (let (w1, pushed) = walk_node verified node w;
          (w2, nodes) = walk_queue verified (queue @ pushed) w1
      in (w2, (if node_depth node > 0 then node # nodes else nodes)))"
  by pat_completeness auto

termination walk_queue
proof (relation "measure (\<lambda>(verified, queue, w).
    card (set (map_keys verified) - set (walk_reached w)) + length queue)")
  fix verified node queue w x w1 pushed
  assume "x = walk_node verified node w" "(w1, pushed) = x"
  then have "walk_node verified node w = (w1, pushed)" by simp
  from walk_node_measure [OF this]
  show "((verified, queue @ pushed, w1), verified, node # queue, w) \<in> measure (\<lambda>(verified, queue, w).
      card (set (map_keys verified) - set (walk_reached w)) + length queue)" by simp
qed simp

text \<open>The first row is the root.\<close>

definition compose_dependency_closure ::
  "(string \<Rightarrow> string) \<Rightarrow> closure_row list \<Rightarrow> string \<Rightarrow> string \<Rightarrow> closure" where
  "compose_dependency_closure sha256 rows problem target =
     (let verified = verified_sources sha256 problem rows;
          missing = \<lparr>root_available = False, closure_complete = False, closure_nodes = [], closure_edges = [],
            closure_unavailable = [target]\<rparr>
      in case rows of
        [] \<Rightarrow> missing
      | first # _ \<Rightarrow>
          (case map_of verified (row_event first) of
            None \<Rightarrow> missing
          | Some r \<Rightarrow>
              if source_target r \<noteq> target then missing
              else
                let (w, nodes) = walk_queue verified
                      [\<lparr>node_source = r, node_depth = 0, node_path = [target]\<rparr>]
                      \<lparr>walk_complete = (length rows \<le> dependency_closure_limit), walk_edges = [],
                       walk_unavailable = [], walk_reached = [row_event (source_row r)]\<rparr>
                in \<lparr>root_available = True, closure_complete = walk_complete w, closure_nodes = nodes,
                    closure_edges = walk_edges w, closure_unavailable = walk_unavailable w\<rparr>))"

end
