(* ===== verification/ClosureLaws.thy ===== *)
theory ClosureLaws
  imports Closure
begin

section \<open>Laws of the premise closure\<close>

text \<open>
  What the loop over the rows verifies, and what the walk along pins does to its queue: every
  node it pushes is reached by available pins, and what it leaves out is listed.
\<close>

definition keyed :: "(string \<times> verified_source) list \<Rightarrow> bool" where
  "keyed verified \<longleftrightarrow> (\<forall>e s. map_of verified e = Some s \<longrightarrow> row_event (source_row s) = e)"

definition child_of :: "(string \<times> verified_source) list \<Rightarrow> closure_node \<Rightarrow> dependency_pin \<Rightarrow> closure_node" where
  "child_of verified node pin =
     \<lparr>node_source = the (map_of verified (pin_event pin)), node_depth = node_depth node + 1,
      node_path = node_path node @ [pin_target pin]\<rparr>"

lemma child_event: "keyed verified \<Longrightarrow> pin_available verified node pin \<Longrightarrow> node_event (child_of verified node pin) = pin_event pin"
  by (auto simp: child_of_def node_event_def keyed_def pin_available_def split: option.splits)

text \<open>A node with the path of available pins that leads to it.\<close>

inductive pinned :: "(string \<times> verified_source) list \<Rightarrow> closure_node \<Rightarrow> closure_node \<Rightarrow> bool" for verified origin where
  origin: "pinned verified origin origin"
| pin: "pinned verified origin node \<Longrightarrow> source_pins (node_source node) = Some pins \<Longrightarrow> pin \<in> set pins \<Longrightarrow>
    pin_available verified node pin \<Longrightarrow> pinned verified origin (child_of verified node pin)"

definition resolved :: "(string \<times> verified_source) list \<Rightarrow> closure_node \<Rightarrow> bool" where
  "resolved verified node \<longleftrightarrow>
     (\<exists>pins. source_pins (node_source node) = Some pins \<and> (\<forall>pin \<in> set pins. pin_available verified node pin))"

definition usable_pins :: "(string \<times> verified_source) list \<Rightarrow> closure_node \<Rightarrow> dependency_pin set" where
  "usable_pins verified node =
     {pin. \<exists>pins. source_pins (node_source node) = Some pins \<and> pin \<in> set pins \<and> pin_available verified node pin}"

text \<open>Why a target is listed as unavailable.\<close>

definition lacking :: "(string \<times> verified_source) list \<Rightarrow> closure_node \<Rightarrow> string \<Rightarrow> bool" where
  "lacking verified node t \<longleftrightarrow>
     source_pins (node_source node) = None \<and> t = source_target (node_source node) \<or>
     (\<exists>pins pin. source_pins (node_source node) = Some pins \<and> pin \<in> set pins \<and>
       \<not> pin_available verified node pin \<and> t = pin_target pin)"

lemma set_set_add [simp]: "set (set_add x xs) = insert x (set xs)"
  by (auto simp: set_add_def)

lemma set_add_not_Nil [simp]: "set_add x xs \<noteq> []"
  by (auto simp: set_add_def)

definition followed ::
  "(string \<times> verified_source) list \<Rightarrow> closure_node \<Rightarrow> dependency_pin list \<Rightarrow> walk_state \<Rightarrow> walk_state \<Rightarrow> closure_node list \<Rightarrow> bool" where
  "followed verified node pins w w' pushed \<longleftrightarrow>
     walk_reached w' = walk_reached w @ map node_event pushed \<and>
     (distinct (walk_reached w) \<longrightarrow> distinct (walk_reached w')) \<and>
     (walk_complete w' \<longleftrightarrow> walk_complete w \<and> (\<forall>pin \<in> set pins. pin_available verified node pin)) \<and>
     (\<forall>pin \<in> set pins. pin_available verified node pin \<longrightarrow> pin_event pin \<in> set (walk_reached w')) \<and>
     set (walk_unavailable w') = set (walk_unavailable w) \<union> pin_target ` {pin \<in> set pins. \<not> pin_available verified node pin} \<and>
     (\<forall>m \<in> set pushed. \<exists>pin \<in> set pins. pin_available verified node pin \<and> m = child_of verified node pin)"

lemma follow_pins_laws:
  assumes "follow_pins verified node pins w = (w', pushed)" "keyed verified"
  shows "followed verified node pins w w' pushed"
  using assms
proof (induction verified node pins w arbitrary: w' pushed rule: follow_pins.induct)
  case (2 verified node pin pins w)
  let ?w = "w\<lparr>walk_edges := walk_edges w @ [\<lparr>edge_from = source_target (node_source node), edge_to = pin_target pin,
    edge_available = pin_available verified node pin\<rparr>]\<rparr>"
  consider (missing) "\<not> pin_available verified node pin"
    | (again) "pin_available verified node pin" "pin_event pin \<in> set (walk_reached w)"
    | (fresh) "pin_available verified node pin" "pin_event pin \<notin> set (walk_reached w)" by blast
  then show ?case
  proof cases
    case missing
    let ?w1 = "?w\<lparr>walk_complete := False, walk_unavailable := set_add (pin_target pin) (walk_unavailable ?w)\<rparr>"
    from missing 2 have "followed verified node pins ?w1 w' pushed" by (simp add: Let_def)
    with missing show ?thesis unfolding followed_def by (auto simp del: distinct_append)
  next
    case again
    with 2 have "followed verified node pins ?w w' pushed" by (simp add: Let_def)
    with again show ?thesis unfolding followed_def by (auto simp del: distinct_append)
  next
    case fresh
    let ?w1 = "?w\<lparr>walk_reached := walk_reached w @ [pin_event pin]\<rparr>"
    obtain w2 pushed' where r: "follow_pins verified node pins ?w1 = (w2, pushed')" by (meson surj_pair)
    with fresh 2 have ih: "followed verified node pins ?w1 w2 pushed'" by (simp add: Let_def)
    have "w' = w2" "pushed = child_of verified node pin # pushed'"
      using 2(4) r fresh by (simp_all add: Let_def child_of_def)
    moreover have "distinct (walk_reached w) \<longrightarrow> distinct (walk_reached w @ [pin_event pin])" using fresh(2) by simp
    ultimately show ?thesis using ih fresh(1) child_event [OF 2(5) fresh(1)] unfolding followed_def
      by (auto simp del: distinct_append)
  qed
qed (simp add: followed_def)


definition walked ::
  "(string \<times> verified_source) list \<Rightarrow> closure_node list \<Rightarrow> walk_state \<Rightarrow> walk_state \<Rightarrow> closure_node list \<Rightarrow> bool" where
  "walked verified nodes w w' later \<longleftrightarrow>
     walk_reached w' = walk_reached w @ map node_event later \<and>
     (distinct (walk_reached w) \<longrightarrow> distinct (walk_reached w')) \<and>
     (walk_complete w' \<longleftrightarrow> walk_complete w \<and> (\<forall>n \<in> set nodes. resolved verified n)) \<and>
     (\<forall>n \<in> set nodes. \<forall>pin \<in> usable_pins verified n. pin_event pin \<in> set (walk_reached w')) \<and>
     set (walk_unavailable w') = set (walk_unavailable w) \<union> {t. \<exists>n \<in> set nodes. lacking verified n t} \<and>
     (\<forall>m \<in> set later. node_depth m > 0)"

lemma walk_node_laws:
  assumes "walk_node verified node w = (w1, pushed)" "keyed verified"
  shows "walked verified [node] w w1 pushed"
    and "pinned verified origin node \<Longrightarrow> \<forall>m \<in> set pushed. pinned verified origin m"
proof -
  have "walked verified [node] w w1 pushed \<and> (pinned verified origin node \<longrightarrow> (\<forall>m \<in> set pushed. pinned verified origin m))"
  proof (cases "source_pins (node_source node)")
    case None
    with assms(1) show ?thesis by (auto simp: walk_node_def walked_def resolved_def usable_pins_def lacking_def)
  next
    case (Some pins)
    with assms(1) have f: "followed verified node pins w w1 pushed"
      using follow_pins_laws [OF _ assms(2)] by (simp add: walk_node_def)
    then have "walked verified [node] w w1 pushed" using Some
      by (auto simp: walked_def followed_def resolved_def usable_pins_def lacking_def child_of_def simp del: distinct_append)
    moreover have "pinned verified origin m" if "pinned verified origin node" "m \<in> set pushed" for m
      using that f Some pinned.pin [of verified origin node pins] by (auto simp: followed_def)
    ultimately show ?thesis by blast
  qed
  then show "walked verified [node] w w1 pushed" "pinned verified origin node \<Longrightarrow> \<forall>m \<in> set pushed. pinned verified origin m"
    by auto
qed

lemma walked_step:
  assumes "walked verified [n] w w1 pushed" "walked verified (queue @ pushed @ later) w1 w2 later"
  shows "walked verified (n # queue @ pushed @ later) w w2 (pushed @ later)"
proof -
  note a = assms(1) [unfolded walked_def] and b = assms(2) [unfolded walked_def]
  let ?ns = "n # queue @ pushed @ later"
  have "walk_reached w2 = walk_reached w @ map node_event (pushed @ later)" using a b by simp
  moreover have "walk_complete w2 \<longleftrightarrow> walk_complete w \<and> (\<forall>n \<in> set ?ns. resolved verified n)"
    using a b by (simp add: ball_Un)
  moreover have "pin_event pin \<in> set (walk_reached w2)" if "m \<in> set ?ns" "pin \<in> usable_pins verified m" for m pin
  proof (cases "m = n")
    case True
    with that(2) a have "pin_event pin \<in> set (walk_reached w1)" by auto
    moreover have "set (walk_reached w1) \<subseteq> set (walk_reached w2)" using b by auto
    ultimately show ?thesis by blast
  next
    case False
    moreover from b have "\<forall>n \<in> set (queue @ pushed @ later). \<forall>pin \<in> usable_pins verified n. pin_event pin \<in> set (walk_reached w2)"
      by blast
    ultimately show ?thesis using that by auto
  qed
  moreover have "set (walk_unavailable w2) = set (walk_unavailable w) \<union> {t. \<exists>m \<in> set ?ns. lacking verified m t}"
    using a b by (simp add: bex_Un) blast
  moreover have "distinct (walk_reached w) \<longrightarrow> distinct (walk_reached w2)" using a b by blast
  moreover have "\<forall>m \<in> set (pushed @ later). node_depth m > 0" using a b by auto
  ultimately show ?thesis unfolding walked_def by blast
qed

lemma walk_queue_laws:
  assumes "walk_queue verified queue w = (w', nodes)" "keyed verified"
  shows "\<exists>later. nodes = filter (\<lambda>n. node_depth n > 0) queue @ later \<and> walked verified (queue @ later) w w' later \<and>
    ((\<forall>n \<in> set queue. pinned verified origin n) \<longrightarrow> (\<forall>n \<in> set later. pinned verified origin n))"
  using assms
proof (induction verified queue w arbitrary: w' nodes rule: walk_queue.induct)
  case (1 verified w)
  then show ?case by (auto simp: walked_def)
next
  case (2 verified node queue w)
  obtain w1 pushed where n: "walk_node verified node w = (w1, pushed)" by (meson surj_pair)
  obtain w2 rest where q: "walk_queue verified (queue @ pushed) w1 = (w2, rest)" by (meson surj_pair)
  from 2(1) [OF n [symmetric] refl q 2(3)] obtain later where l:
    "rest = filter (\<lambda>n. node_depth n > 0) (queue @ pushed) @ later" "walked verified (queue @ pushed @ later) w1 w2 later"
    "(\<forall>n \<in> set (queue @ pushed). pinned verified origin n) \<longrightarrow> (\<forall>n \<in> set later. pinned verified origin n)" by auto
  note nl = walk_node_laws [OF n 2(3)]
  have "filter (\<lambda>n. node_depth n > 0) pushed = pushed" using nl(1) by (simp add: walked_def)
  moreover have w: "w' = w2" "nodes = (if node_depth node > 0 then node # rest else rest)" using 2(2) n q by simp_all
  ultimately have e1: "nodes = filter (\<lambda>n. node_depth n > 0) (node # queue) @ pushed @ later" using l(1) by simp
  have e2: "walked verified ((node # queue) @ pushed @ later) w w' (pushed @ later)"
    using walked_step [OF nl(1) l(2)] w(1) by simp
  have e3: "(\<forall>n \<in> set (node # queue). pinned verified origin n) \<longrightarrow> (\<forall>n \<in> set (pushed @ later). pinned verified origin n)"
  proof
    assume p: "\<forall>n \<in> set (node # queue). pinned verified origin n"
    then have "pinned verified origin node" by (simp only: list.set_intros)
    from nl(2) [OF this] have a: "\<forall>m \<in> set pushed. pinned verified origin m" .
    then have "\<forall>n \<in> set (queue @ pushed). pinned verified origin n" using p unfolding set_append by (metis UnE list.set_intros(2))
    from l(3) [rule_format, OF this [rule_format]] a show "\<forall>n \<in> set (pushed @ later). pinned verified origin n"
      unfolding set_append by (metis UnE)
  qed
  show ?case by (rule exI [of _ "pushed @ later"]) (intro conjI e1 e2 e3)
qed

subsection \<open>What a verified source is\<close>

definition pins_shaped :: "verified_source \<Rightarrow> bool" where
  "pins_shaped s \<longleftrightarrow> (\<forall>pins. source_pins s = Some pins \<longrightarrow> (\<forall>pin \<in> set pins. claim_id_shape (pin_claim pin)))"

definition checked :: "(string \<Rightarrow> string) \<Rightarrow> string \<Rightarrow> closure_row list \<Rightarrow> verified_source \<Rightarrow> bool" where
  "checked sha256 problem rows s \<longleftrightarrow>
     source_row s \<in> set rows \<and> row_problem (source_row s) = problem \<and> pins_shaped s \<and>
     source_target s = row_claim (source_row s) @ ''@'' @ show_int (source_version s) \<and>
     safe_int (row_version (source_row s)) = Some (source_version s) \<and>
     safe_int (row_seq (source_row s)) = Some (source_seq s) \<and>
     (\<exists>text. row_payload (source_row s) = Some text \<and> utf8_length text \<le> dependency_source_bytes \<and>
       sha256 text = row_payload_sha (source_row s))"

lemma parse_pin_shaped: "parse_pin v = Some pin \<Longrightarrow> claim_id_shape (pin_claim pin)"
  by (induction v rule: parse_pin.induct) (auto split: if_splits js_value.splits option.splits)

lemma parse_pins_shaped: "parse_pins v = Some pins \<Longrightarrow> pin \<in> set pins \<Longrightarrow> claim_id_shape (pin_claim pin)"
proof (induction v rule: parse_pins.induct)
  case (1 vs)
  then have "those (map parse_pin vs) = Some pins" by (auto split: option.splits if_splits)
  then have "map parse_pin vs = map Some pins" by (simp add: those_Some)
  then have "Some pin \<in> set (map parse_pin vs)" using 1(2) by simp
  then show ?case using parse_pin_shaped by auto
qed auto

lemma source_of_text_checked:
  assumes "source_of_text sha256 row text = Some s"
  shows "source_row s = row" "sha256 text = row_payload_sha row" "pins_shaped s"
    "source_target s = row_claim row @ ''@'' @ show_int (source_version s)"
    "safe_int (row_version row) = Some (source_version s)" "safe_int (row_seq row) = Some (source_seq s)"
  using assms parse_pins_shaped
  by (auto simp: source_of_text_def source_of_payload_def pins_shaped_def split: if_splits option.splits js_value.splits)

lemma set_map_put: "set (map_put k v m) \<subseteq> insert (k, v) (set m)"
  by (induction k v m rule: map_put.induct) auto

lemma read_row_checked:
  assumes "read_row sha256 problem row bytes = (m, Some s)"
  shows "checked sha256 problem [row] s" "source_row s = row"
proof -
  obtain t where t: "row_payload row = Some t" "row_problem row = problem" "utf8_length t \<le> dependency_source_bytes"
    "source_of_text sha256 row t = Some s"
    using assms by (auto simp: read_row_def Let_def split: option.splits if_splits)
  show "source_row s = row" by (rule source_of_text_checked(1) [OF t(4)])
  with t source_of_text_checked [OF t(4)] show "checked sha256 problem [row] s" by (simp add: checked_def)
qed

lemma verify_rows_checked:
  assumes "verify_rows sha256 problem rows bytes seen dups verified = (dups', verified')"
    and "(e, s) \<in> set verified'"
  shows "(e, s) \<in> set verified \<or> checked sha256 problem rows s \<and> row_event (source_row s) = e"
  using assms
proof (induction sha256 problem rows bytes seen dups verified rule: verify_rows.induct)
  case (2 sha256 problem row rows bytes seen duplicates verified)
  obtain m source where r: "read_row sha256 problem row bytes = (m, source)" by (meson surj_pair)
  let ?put = "case source of None \<Rightarrow> verified | Some s \<Rightarrow> map_put (row_event row) s verified"
  have "(e, s) \<in> set ?put \<or> checked sha256 problem rows s \<and> row_event (source_row s) = e"
    using 2 r by (auto simp: Let_def)
  moreover have "(e, s) \<in> set verified \<or> checked sha256 problem [row] s \<and> row_event (source_row s) = e" if "(e, s) \<in> set ?put"
  proof (cases source)
    case None
    with that show ?thesis by simp
  next
    case (Some a)
    with that have "(e, s) \<in> insert (row_event row, a) (set verified)" using set_map_put by fastforce
    with read_row_checked [OF r [unfolded Some]] show ?thesis by auto
  qed
  ultimately show ?case by (auto simp: checked_def)
qed auto

lemma verified_sources_checked:
  assumes "map_of (verified_sources sha256 problem rows) e = Some s"
  shows "checked sha256 problem (take dependency_closure_limit rows) s" "row_event (source_row s) = e"
proof -
  obtain dups verified where v: "verify_rows sha256 problem (take dependency_closure_limit rows) 0 [] [] [] = (dups, verified)"
    by (meson surj_pair)
  have "(e, s) \<in> set verified" using map_of_SomeD [OF assms] v by (auto simp: verified_sources_def)
  from verify_rows_checked [OF v this]
  show "checked sha256 problem (take dependency_closure_limit rows) s" "row_event (source_row s) = e" by auto
qed

lemma verified_sources_keyed: "keyed (verified_sources sha256 problem rows)"
  using verified_sources_checked(2) by (auto simp: keyed_def)

subsection \<open>Paths\<close>

lemma claim_id_part: "claim_id_shape c \<Longrightarrow> identity_part (c @ ''@'' @ v) = c"
proof -
  assume "claim_id_shape c"
  then have c: "c = ''C-'' @ drop 2 c" "list_all is_digit (drop 2 c)"
    unfolding claim_id_shape_def by (metis append_take_drop_id)+
  have "x \<noteq> CHR ''@''" if "x \<in> set c" for x
  proof -
    have "x \<in> {CHR ''C'', CHR ''-''} \<or> is_digit x" using that c by (subst (asm) c(1)) (auto simp: list_all_iff)
    then show ?thesis by (auto simp: is_digit_def less_eq_char_def)
  qed
  then show "identity_part (c @ ''@'' @ v) = c" by (simp add: identity_part_def takeWhile_append2)
qed

definition root_node :: "verified_source \<Rightarrow> closure_node" where
  "root_node r = \<lparr>node_source = r, node_depth = 0, node_path = [source_target r]\<rparr>"

definition well_placed :: "(string \<times> verified_source) list \<Rightarrow> verified_source \<Rightarrow> closure_node \<Rightarrow> bool" where
  "well_placed verified r node \<longleftrightarrow>
     (\<exists>e. map_of verified e = Some (node_source node)) \<and>
     length (node_path node) = node_depth node + 1 \<and> hd (node_path node) = source_target r \<and>
     last (node_path node) = source_target (node_source node) \<and>
     distinct (map identity_part (node_path node)) \<and>
     source_seq (node_source node) + int (node_depth node) \<le> source_seq r"

definition shaped :: "(string \<times> verified_source) list \<Rightarrow> bool" where
  "shaped verified \<longleftrightarrow> (\<forall>e s. map_of verified e = Some s \<longrightarrow> pins_shaped s)"

lemma verified_sources_shaped: "shaped (verified_sources sha256 problem rows)"
  using verified_sources_checked(1) by (auto simp: shaped_def checked_def)

lemma well_placed_child:
  assumes w: "well_placed verified r node" and pins: "source_pins (node_source node) = Some pins" "pin \<in> set pins"
    and a: "pin_available verified node pin" and s: "shaped verified"
  shows "well_placed verified r (child_of verified node pin)"
proof -
  from a obtain c where c: "map_of verified (pin_event pin) = Some c" "source_target c = pin_target pin"
    "source_seq c < source_seq (node_source node)" "\<forall>step \<in> set (node_path node). identity_part step \<noteq> pin_claim pin"
    by (auto simp: pin_available_def list_ex_iff split: option.splits)
  have "claim_id_shape (pin_claim pin)" using w s pins by (auto simp: well_placed_def pins_shaped_def shaped_def)
  then have "identity_part (pin_target pin) = pin_claim pin" using claim_id_part by (simp add: pin_target_def)
  with c w show ?thesis by (auto simp: well_placed_def child_of_def hd_append)
qed

lemma pinned_path:
  assumes "pinned verified (root_node r) node" "map_of verified e = Some r"
    and s: "shaped verified"
  shows "well_placed verified r node"
  using assms(1)
proof (induction rule: pinned.induct)
  case origin
  then show ?case using assms(2) by (auto simp: well_placed_def root_node_def)
qed (rule well_placed_child [OF _ _ _ _ s])

subsection \<open>The whole closure\<close>

definition closure_start :: "closure_row list \<Rightarrow> string \<Rightarrow> walk_state" where
  "closure_start rows e = \<lparr>walk_complete = (length rows \<le> dependency_closure_limit), walk_edges = [],
     walk_unavailable = [], walk_reached = [e]\<rparr>"

definition closed_nodes :: "(string \<times> verified_source) list \<Rightarrow> verified_source \<Rightarrow> closure_node list \<Rightarrow> bool" where
  "closed_nodes verified r nodes \<longleftrightarrow>
     (\<forall>n \<in> set (root_node r # nodes). \<forall>pin \<in> usable_pins verified n. \<exists>m \<in> set nodes.
        node_event m = pin_event pin \<and> Some (node_source m) = map_of verified (pin_event pin))"

lemma compose_root:
  assumes "root_available (compose_dependency_closure sha256 rows problem target)"
  defines "verified \<equiv> verified_sources sha256 problem rows"
  obtains r w nodes where "rows \<noteq> []" "map_of verified (row_event (hd rows)) = Some r" "source_target r = target"
    "row_event (source_row r) = row_event (hd rows)"
    "walk_queue verified [root_node r] (closure_start rows (row_event (hd rows))) = (w, nodes)"
    "compose_dependency_closure sha256 rows problem target = \<lparr>root_available = True, closure_complete = walk_complete w,
       closure_nodes = nodes, closure_edges = walk_edges w, closure_unavailable = walk_unavailable w\<rparr>"
proof -
  obtain first rest r where r: "rows = first # rest" "map_of verified (row_event first) = Some r" "source_target r = target"
    using assms by (auto simp: compose_dependency_closure_def Let_def split: list.splits option.splits if_splits)
  have e: "row_event (source_row r) = row_event first" using verified_sources_checked(2) r(2) verified_def by blast
  obtain w nodes where q: "walk_queue verified [root_node r] (closure_start rows (row_event first)) = (w, nodes)"
    by (meson surj_pair)
  with r e verified_def have "compose_dependency_closure sha256 rows problem target = \<lparr>root_available = True, closure_complete = walk_complete w,
       closure_nodes = nodes, closure_edges = walk_edges w, closure_unavailable = walk_unavailable w\<rparr>"
    by (simp add: compose_dependency_closure_def root_node_def closure_start_def)
  with r e q that show thesis by simp
qed

lemma closure_laws:
  assumes q: "walk_queue verified [root_node r] (closure_start rows e) = (w, nodes)" and k: "keyed verified"
  shows "\<forall>n \<in> set nodes. pinned verified (root_node r) n \<and> node_depth n > 0"
    and "distinct (e # map node_event nodes)"
    and "walk_complete w \<longleftrightarrow> length rows \<le> dependency_closure_limit \<and> (\<forall>n \<in> set (root_node r # nodes). resolved verified n)"
    and "set (walk_unavailable w) = {t. \<exists>n \<in> set (root_node r # nodes). lacking verified n t}"
    and "\<forall>n \<in> set (root_node r # nodes). \<forall>pin \<in> usable_pins verified n. pin_event pin \<in> set (e # map node_event nodes)"
proof -
  from walk_queue_laws [OF q k, of "root_node r"] pinned.origin [of verified "root_node r"]
  have l: "walked verified (root_node r # nodes) (closure_start rows e) w nodes" "\<forall>n \<in> set nodes. pinned verified (root_node r) n"
    by (auto simp: root_node_def)
  then show "\<forall>n \<in> set nodes. pinned verified (root_node r) n \<and> node_depth n > 0"
    by (auto simp: walked_def)
  have r: "walk_reached w = e # map node_event nodes" using l(1) by (simp add: walked_def closure_start_def)
  from l(1) show "\<forall>n \<in> set (root_node r # nodes). \<forall>pin \<in> usable_pins verified n. pin_event pin \<in> set (e # map node_event nodes)"
    unfolding walked_def r by blast
  from l(1) show "walk_complete w \<longleftrightarrow> length rows \<le> dependency_closure_limit \<and> (\<forall>n \<in> set (root_node r # nodes). resolved verified n)"
    by (simp add: walked_def closure_start_def)
  from l(1) show "set (walk_unavailable w) = {t. \<exists>n \<in> set (root_node r # nodes). lacking verified n t}"
    by (simp add: walked_def closure_start_def)
  from l(1) have "distinct (walk_reached (closure_start rows e)) \<longrightarrow> distinct (walk_reached w)"
    unfolding walked_def by blast
  moreover have "distinct (walk_reached (closure_start rows e))" by (simp add: closure_start_def)
  ultimately have "distinct (walk_reached w)" by blast
  then show "distinct (e # map node_event nodes)" unfolding r .
qed

lemma closure_closed:
  assumes q: "walk_queue verified [root_node r] (closure_start rows e) = (w, nodes)" and k: "keyed verified"
    and r: "map_of verified e = Some r" and s: "shaped verified"
  shows "closed_nodes verified r nodes"
proof -
  have place: "well_placed verified r n" if "n \<in> set (root_node r # nodes)" for n
    using that closure_laws(1) [OF q k] pinned_path [OF _ r s] pinned.origin by auto
  have "\<exists>m \<in> set nodes. node_event m = pin_event pin \<and> Some (node_source m) = map_of verified (pin_event pin)"
    if n: "n \<in> set (root_node r # nodes)" and pin: "pin \<in> usable_pins verified n" for n pin
  proof -
    have "pin_event pin \<in> set (e # map node_event nodes)" using closure_laws(5) [OF q k] n pin by blast
    moreover obtain c where c: "map_of verified (pin_event pin) = Some c" "source_seq c < source_seq (node_source n)"
      using pin by (auto simp: usable_pins_def pin_available_def split: option.splits)
    moreover have "pin_event pin \<noteq> e" using c r place [OF n] by (auto simp: well_placed_def)
    ultimately obtain m where m: "m \<in> set nodes" "node_event m = pin_event pin" by auto
    then have "map_of verified (node_event m) = Some (node_source m)"
      using k place [of m] by (auto simp: well_placed_def keyed_def node_event_def)
    with m show ?thesis by auto
  qed
  then show ?thesis by (simp only: closed_nodes_def) blast
qed

end
