(* ===== verification/ClosureSamples.thy ===== *)
theory ClosureSamples
  imports ClosureLaws
begin

section \<open>Sample closures\<close>

text \<open>
  Rows whose texts are parsed by evaluation, for the examples of the closure. The digest of every
  text is the same constant.
\<close>

definition sample_hash :: string where
  "sample_hash = replicate 64 CHR ''a''"

definition sample_content :: string where
  "sample_content = ''sha256:'' @ replicate 64 CHR ''b''"

definition sample_pin_text :: "string \<Rightarrow> string \<Rightarrow> string \<Rightarrow> string" where
  "sample_pin_text c v e = ''{\"claim_id\":\"'' @ c @ ''\",\"version\":'' @ v @ '',\"content_digest\":\"'' @ sample_content
     @ ''\",\"event_id\":\"'' @ e @ ''\",\"payload_digest\":\"'' @ sample_hash @ ''\"}''"

definition sample_text :: "string \<Rightarrow> string \<Rightarrow> string \<Rightarrow> string" where
  "sample_text c base pins = ''{\"claim_id\":\"'' @ c @ ''\",\"statement\":\"s\",'' @ base @ ''\"dependency_pins\":['' @ pins @ '']}''"

definition sample_row :: "string \<Rightarrow> string \<Rightarrow> int \<Rightarrow> int \<Rightarrow> string \<Rightarrow> closure_row" where
  "sample_row e c v n t = \<lparr>row_event = e, row_problem = ''P-1'', row_claim = c, row_version = num v,
     row_type = (if v = 1 then ''claim.created'' else ''claim.revised''), row_seq = num n,
     row_payload_sha = sample_hash, row_content_digest = Some sample_content,
     row_author = (None, None, None, None, None), row_ordinal = num 1, row_payload = Some t\<rparr>"

definition sample_digest :: "string \<Rightarrow> string" where
  "sample_digest _ = sample_hash"

definition pin_value :: "string \<Rightarrow> int \<Rightarrow> string \<Rightarrow> js_value" where
  "pin_value c v e = Obj [(''claim_id'', Str c), (''version'', Number (num v)),
     (''content_digest'', Str sample_content), (''event_id'', Str e),
     (''payload_digest'', Str sample_hash)]"

definition sample_pin :: "string \<Rightarrow> int \<Rightarrow> string \<Rightarrow> dependency_pin" where
  "sample_pin c v e = \<lparr>pin_claim = c, pin_version = v, pin_content = sample_content,
     pin_event = e, pin_payload = sample_hash\<rparr>"

definition payload_value :: "string \<Rightarrow> (string \<times> js_value) list \<Rightarrow> js_value list \<Rightarrow> (string \<times> js_value) list" where
  "payload_value c base pins = [(''claim_id'', Str c), (''statement'', Str ''s'')] @ base @ [(''dependency_pins'', Arr pins)]"

definition sample_source :: "string \<Rightarrow> string \<Rightarrow> int \<Rightarrow> int \<Rightarrow> string \<Rightarrow> dependency_pin list \<Rightarrow> verified_source" where
  "sample_source e c v n t pins = \<lparr>source_target = c @ ''@'' @ show_int v, source_row = sample_row e c v n t,
     source_version = v, source_seq = n, source_statement = ''s'', source_falsifier = None, source_kind = None,
     source_pins = Some pins\<rparr>"

lemma sample_digits: "lower_hex CHR ''a''" "lower_hex CHR ''b''" "\<not> js_blank ''s''"
  by code_simp+

lemma sample_hashes: "hex_digest sample_hash" "take 7 sample_content = ''sha256:''" "hex_digest (drop 7 sample_content)"
    "sample_content \<noteq> []"
  by (simp_all add: sample_hash_def sample_content_def hex_digest_def all_chars_def list_all_iff sample_digits)

lemma parse_pin_value:
  "claim_id_shape c \<Longrightarrow> length c \<le> 47 \<Longrightarrow> 1 \<le> v \<Longrightarrow> v \<le> max_safe_integer \<Longrightarrow> event_id_shape e \<Longrightarrow>
     parse_pin (pin_value c v e) = Some (sample_pin c v e)"
  by (simp add: pin_value_def sample_pin_def pin_keys_def own_value_def sample_hashes)

lemma sample_source_of_payload:
  assumes "claim_id_shape c" "1 \<le> v" "v \<le> max_safe_integer" "1 \<le> n" "n \<le> max_safe_integer"
    and "base = (if v = 1 then [] else [(''base_version'', Number (num (v - 1)))])"
    and "parse_pins (Arr vs) = Some pins" "\<not> list_ex (\<lambda>pin. pin_claim pin = c) pins"
  shows "source_of_payload (sample_row e c v n t) (payload_value c base vs) = Some (sample_source e c v n t pins)"
proof -
  have "own_value (payload_value c base vs) ''dependency_pins'' = Arr vs"
    "own_value (payload_value c base vs) ''statement'' = Str ''s''" "own_value (payload_value c base vs) ''claim_id'' = Str c"
    "text_field (own_value (payload_value c base vs) ''falsifier'') = None"
    "text_field (own_value (payload_value c base vs) ''kind'') = None"
    "v \<noteq> 1 \<Longrightarrow> own_value (payload_value c base vs) ''base_version'' = Number (num (v - 1))"
    using assms(6) by (simp_all add: payload_value_def own_value_def text_field_def)
  note own = this
  have row: "row_claim (sample_row e c v n t) = c" "row_version (sample_row e c v n t) = num v" "row_seq (sample_row e c v n t) = num n"
    "row_content_digest (sample_row e c v n t) = Some sample_content"
    "row_type (sample_row e c v n t) = (if v = 1 then ''claim.created'' else ''claim.revised'')"
    by (simp_all add: sample_row_def)
  have "publication_names (sample_row e c v n t) v (payload_value c base vs)"
    using own(6) assms(2) unfolding publication_names_def row by (cases "v = 1") simp_all
  moreover have "safe_int (num v) = Some v" "safe_int (num n) = Some n" using assms(2-5) by simp_all
  ultimately show ?thesis
    unfolding source_of_payload_def own(1-5) row sample_source_def assms(7)
    using assms(1,2,4,8) sample_hashes(4) sample_digits(3) by simp
qed

lemma utf8_length_bound: "utf8_length s \<le> 2 * length s"
  by (induction s) (auto simp: utf8_length_def utf8_bytes_def Let_def)

type_synonym sample = "string \<times> string \<times> int \<times> int \<times> string \<times> dependency_pin list"

definition row_of :: "sample \<Rightarrow> closure_row" where
  "row_of x = (case x of (e, c, v, n, t, pins) \<Rightarrow> sample_row e c v n t)"

definition source_of :: "sample \<Rightarrow> verified_source" where
  "source_of x = (case x of (e, c, v, n, t, pins) \<Rightarrow> sample_source e c v n t pins)"

definition fits :: "sample \<Rightarrow> bool" where
  "fits x \<longleftrightarrow> (case x of (e, c, v, n, t, pins) \<Rightarrow>
     length t \<le> 2000 \<and> source_of_text sample_digest (sample_row e c v n t) t = Some (sample_source e c v n t pins))"

lemma read_sample:
  assumes "fits x" "bytes \<le> 100000"
  shows "\<exists>m. read_row sample_digest ''P-1'' (row_of x) bytes = (m, Some (source_of x)) \<and> m \<le> bytes + 4000"
proof -
  obtain e c v n t pins where x: "x = (e, c, v, n, t, pins)" by (cases x)
  with assms(1) have "utf8_length t \<le> 4000" "length t \<le> 2000" using utf8_length_bound [of t] by (auto simp: fits_def)
  with assms x show ?thesis
    by (auto simp: read_row_def row_of_def source_of_def fits_def sample_row_def dependency_source_bytes_def dependency_total_bytes_def)
qed

lemma verify_samples:
  "list_all fits xs \<Longrightarrow> distinct (seen @ map fst xs) \<Longrightarrow> bytes + 4000 * length xs \<le> 100000 \<Longrightarrow>
   verify_rows sample_digest ''P-1'' (map row_of xs) bytes seen dups verified =
     (dups, foldl (\<lambda>m x. map_put (fst x) (source_of x) m) verified xs)"
proof (induction xs arbitrary: bytes seen verified)
  case (Cons x xs)
  then obtain m where m: "read_row sample_digest ''P-1'' (row_of x) bytes = (m, Some (source_of x))" "m \<le> bytes + 4000"
    using read_sample [of x bytes] by auto
  have e: "row_event (row_of x) = fst x" by (cases x) (simp add: row_of_def sample_row_def)
  have "distinct ((fst x # seen) @ map fst xs)" "fst x \<notin> set seen" using Cons.prems(2) by auto
  with Cons.IH [of "fst x # seen" m "map_put (fst x) (source_of x) verified"] Cons.prems m e show ?case by simp
qed simp

lemma verified_samples:
  assumes "list_all fits xs" "distinct (map fst xs)" "length xs \<le> 25"
  shows "verified_sources sample_digest ''P-1'' (map row_of xs) = foldl (\<lambda>m x. map_put (fst x) (source_of x) m) [] xs"
proof -
  have "take dependency_closure_limit (map row_of xs) = map row_of xs" using assms(3) by (simp add: dependency_closure_limit_def)
  then show ?thesis using verify_samples [OF assms(1), of "[]" 0 "[]" "[]"] assms(2,3)
    by (simp add: verified_sources_def)
qed

lemma fits_intro:
  assumes "json_parse t = Some (Obj (payload_value c base vs))" "length t \<le> 2000"
    and "claim_id_shape c" "1 \<le> v" "v \<le> max_safe_integer" "1 \<le> n" "n \<le> max_safe_integer"
    and "base = (if v = 1 then [] else [(''base_version'', Number (num (v - 1)))])"
    and "parse_pins (Arr vs) = Some pins" "\<not> list_ex (\<lambda>pin. pin_claim pin = c) pins"
  shows "fits (e, c, v, n, t, pins)"
  using assms(1,2) sample_source_of_payload [OF assms(3-)]
  by (simp add: fits_def source_of_text_def sample_row_def sample_digest_def)

lemma sample_shapes: "claim_id_shape ''C-1''" "claim_id_shape ''C-2''" "claim_id_shape ''C-3''" "claim_id_shape ''C-9''"
    "event_id_shape ''E-2''" "event_id_shape ''E-3''" "event_id_shape ''E-11''" "event_id_shape ''E-12''"
  by code_simp+

lemma sample_text_length:
  "length b \<le> 20 \<Longrightarrow> length p \<le> 2000 \<Longrightarrow> length c \<le> 5 \<Longrightarrow> length (sample_text c b p) \<le> 4000"
  "length c \<le> 5 \<Longrightarrow> length v \<le> 5 \<Longrightarrow> length e \<le> 5 \<Longrightarrow> length (sample_pin_text c v e) \<le> 900"
  by (simp_all add: sample_text_def sample_pin_text_def sample_content_def sample_hash_def)

lemma show_sample: "show_int 1 = ''1''" "show_int 2 = ''2''"
  by code_simp+

lemma sample_json:
  "json_parse (sample_text ''C-1'' [] (sample_pin_text ''C-2'' ''1'' ''E-2'')) = Some (Obj (payload_value ''C-1'' [] [pin_value ''C-2'' 1 ''E-2'']))"
  "json_parse (sample_text ''C-2'' [] []) = Some (Obj (payload_value ''C-2'' [] []))"
  by code_simp+

definition sample_rows :: "closure_row list" where
  "sample_rows = map row_of
     [(''E-1'', ''C-1'', 1, 2, sample_text ''C-1'' [] (sample_pin_text ''C-2'' ''1'' ''E-2''), [sample_pin ''C-2'' 1 ''E-2'']),
      (''E-2'', ''C-2'', 1, 1, sample_text ''C-2'' [] [], [])]"

lemma sample_verified:
  "verified_sources sample_digest ''P-1'' sample_rows =
     [(''E-1'', sample_source ''E-1'' ''C-1'' 1 2 (sample_text ''C-1'' [] (sample_pin_text ''C-2'' ''1'' ''E-2'')) [sample_pin ''C-2'' 1 ''E-2'']),
      (''E-2'', sample_source ''E-2'' ''C-2'' 1 1 (sample_text ''C-2'' [] []) [])]"
proof -
  have "fits (''E-1'', ''C-1'', 1, 2, sample_text ''C-1'' [] (sample_pin_text ''C-2'' ''1'' ''E-2''), [sample_pin ''C-2'' 1 ''E-2''])"
    by (rule fits_intro [OF sample_json(1)])
      (simp_all add: sample_shapes max_safe_integer_def parse_pin_value sample_pin_def sample_text_def sample_pin_text_def
        sample_hash_def sample_content_def)
  moreover have "fits (''E-2'', ''C-2'', 1, 1, sample_text ''C-2'' [] [], [])"
    by (rule fits_intro [OF sample_json(2)]) (simp_all add: sample_shapes max_safe_integer_def sample_text_def)
  ultimately show ?thesis unfolding sample_rows_def by (subst verified_samples) (simp_all add: source_of_def)
qed

lemma sample_fields [simp]:
  "source_target (sample_source e c v n t pins) = c @ ''@'' @ show_int v"
  "source_row (sample_source e c v n t pins) = sample_row e c v n t"
  "source_seq (sample_source e c v n t pins) = n" "source_pins (sample_source e c v n t pins) = Some pins"
  "row_event (sample_row e c v n t) = e" "row_payload_sha (sample_row e c v n t) = sample_hash"
  "row_content_digest (sample_row e c v n t) = Some sample_content"
  "pin_claim (sample_pin c v e) = c" "pin_event (sample_pin c v e) = e" "pin_payload (sample_pin c v e) = sample_hash"
  "pin_content (sample_pin c v e) = sample_content" "pin_target (sample_pin c v e) = c @ ''@'' @ show_int v"
  by (simp_all add: sample_source_def sample_row_def sample_pin_def pin_target_def)

lemmas walk_rules = compose_dependency_closure_def walk_node_def pin_available_def identity_part_def set_add_def
  dependency_closure_limit_def show_sample Let_def

lemma sample_closure:
  "map_of (verified_sources sample_digest ''P-1'' sample_rows) (row_event (hd sample_rows)) =
     Some (sample_source ''E-1'' ''C-1'' 1 2 (sample_text ''C-1'' [] (sample_pin_text ''C-2'' ''1'' ''E-2'')) [sample_pin ''C-2'' 1 ''E-2''])"
  "root_available (compose_dependency_closure sample_digest sample_rows ''P-1'' ''C-1@1'')"
  "closure_complete (compose_dependency_closure sample_digest sample_rows ''P-1'' ''C-1@1'')"
  "map node_path (closure_nodes (compose_dependency_closure sample_digest sample_rows ''P-1'' ''C-1@1'')) = [[''C-1@1'', ''C-2@1'']]"
proof -
  obtain rest where rows: "sample_rows = sample_row ''E-1'' ''C-1'' 1 2 (sample_text ''C-1'' [] (sample_pin_text ''C-2'' ''1'' ''E-2'')) # rest"
    "length rest = 1" by (simp add: sample_rows_def row_of_def)
  note v = sample_verified [unfolded rows(1)]
  show "map_of (verified_sources sample_digest ''P-1'' sample_rows) (row_event (hd sample_rows)) =
     Some (sample_source ''E-1'' ''C-1'' 1 2 (sample_text ''C-1'' [] (sample_pin_text ''C-2'' ''1'' ''E-2'')) [sample_pin ''C-2'' 1 ''E-2''])"
    by (simp add: rows(1) v)
  show "root_available (compose_dependency_closure sample_digest sample_rows ''P-1'' ''C-1@1'')"
    "closure_complete (compose_dependency_closure sample_digest sample_rows ''P-1'' ''C-1@1'')"
    "map node_path (closure_nodes (compose_dependency_closure sample_digest sample_rows ''P-1'' ''C-1@1'')) = [[''C-1@1'', ''C-2@1'']]"
    by (simp_all add: walk_rules rows v)
qed

text \<open>Two versions of C-1 around C-2: whether the earlier one counts as a premise depends on the order of the root's pins.\<close>

definition diamond :: "string \<Rightarrow> dependency_pin list \<Rightarrow> sample list" where
  "diamond t pins =
     [(''E-9'', ''C-9'', 1, 9, t, pins),
      (''E-11'', ''C-1'', 1, 3, sample_text ''C-1'' [] [], []),
      (''E-12'', ''C-1'', 2, 8, sample_text ''C-1'' ''\"base_version\":1,'' (sample_pin_text ''C-2'' ''1'' ''E-2''), [sample_pin ''C-2'' 1 ''E-2'']),
      (''E-2'', ''C-2'', 1, 5, sample_text ''C-2'' [] (sample_pin_text ''C-1'' ''1'' ''E-11''), [sample_pin ''C-1'' 1 ''E-11'']),
      (''E-3'', ''C-3'', 1, 7, sample_text ''C-3'' [] (sample_pin_text ''C-2'' ''1'' ''E-2''), [sample_pin ''C-2'' 1 ''E-2''])]"

lemma diamond_json:
  "json_parse (sample_text ''C-1'' [] []) = Some (Obj (payload_value ''C-1'' [] []))"
  "json_parse (sample_text ''C-1'' ''\"base_version\":1,'' (sample_pin_text ''C-2'' ''1'' ''E-2'')) =
     Some (Obj (payload_value ''C-1'' [(''base_version'', Number (num 1))] [pin_value ''C-2'' 1 ''E-2'']))"
  "json_parse (sample_text ''C-2'' [] (sample_pin_text ''C-1'' ''1'' ''E-11'')) = Some (Obj (payload_value ''C-2'' [] [pin_value ''C-1'' 1 ''E-11'']))"
  "json_parse (sample_text ''C-3'' [] (sample_pin_text ''C-2'' ''1'' ''E-2'')) = Some (Obj (payload_value ''C-3'' [] [pin_value ''C-2'' 1 ''E-2'']))"
  by code_simp+

lemma roots_json:
  "json_parse (sample_text ''C-9'' [] (sample_pin_text ''C-3'' ''1'' ''E-3'' @ '','' @ sample_pin_text ''C-1'' ''2'' ''E-12'')) =
     Some (Obj (payload_value ''C-9'' [] [pin_value ''C-3'' 1 ''E-3'', pin_value ''C-1'' 2 ''E-12'']))"
  "json_parse (sample_text ''C-9'' [] (sample_pin_text ''C-1'' ''2'' ''E-12'' @ '','' @ sample_pin_text ''C-3'' ''1'' ''E-3'')) =
     Some (Obj (payload_value ''C-9'' [] [pin_value ''C-1'' 2 ''E-12'', pin_value ''C-3'' 1 ''E-3'']))"
  by code_simp+


lemma diamond_fits:
  assumes "json_parse t = Some (Obj (payload_value ''C-9'' [] vs))" "length t \<le> 2000" "parse_pins (Arr vs) = Some pins"
    and "\<not> list_ex (\<lambda>pin. pin_claim pin = ''C-9'') pins"
  shows "list_all fits (diamond t pins)"
proof -
  have "fits (''E-9'', ''C-9'', 1, 9, t, pins)"
    by (rule fits_intro [OF assms(1,2)]) (use assms(3,4) in \<open>simp_all add: sample_shapes max_safe_integer_def\<close>)
  moreover note r = sample_shapes max_safe_integer_def parse_pin_value sample_text_def sample_pin_text_def sample_hash_def sample_content_def
  have "fits (''E-11'', ''C-1'', 1, 3, sample_text ''C-1'' [] [], [])"
    by (rule fits_intro [OF diamond_json(1)]) (simp_all add: r)
  moreover have "fits (''E-12'', ''C-1'', 2, 8, sample_text ''C-1'' ''\"base_version\":1,'' (sample_pin_text ''C-2'' ''1'' ''E-2''), [sample_pin ''C-2'' 1 ''E-2''])"
    by (rule fits_intro [OF diamond_json(2)]) (simp_all add: r)
  moreover have "fits (''E-2'', ''C-2'', 1, 5, sample_text ''C-2'' [] (sample_pin_text ''C-1'' ''1'' ''E-11''), [sample_pin ''C-1'' 1 ''E-11''])"
    by (rule fits_intro [OF diamond_json(3)]) (simp_all add: r)
  moreover have "fits (''E-3'', ''C-3'', 1, 7, sample_text ''C-3'' [] (sample_pin_text ''C-2'' ''1'' ''E-2''), [sample_pin ''C-2'' 1 ''E-2''])"
    by (rule fits_intro [OF diamond_json(4)]) (simp_all add: r)
  ultimately show ?thesis by (simp add: diamond_def)
qed

definition first_root :: string where
  "first_root = sample_text ''C-9'' [] (sample_pin_text ''C-3'' ''1'' ''E-3'' @ '','' @ sample_pin_text ''C-1'' ''2'' ''E-12'')"

definition second_root :: string where
  "second_root = sample_text ''C-9'' [] (sample_pin_text ''C-1'' ''2'' ''E-12'' @ '','' @ sample_pin_text ''C-3'' ''1'' ''E-3'')"

lemma diamonds_verified:
  "verified_sources sample_digest ''P-1'' (map row_of (diamond first_root [sample_pin ''C-3'' 1 ''E-3'', sample_pin ''C-1'' 2 ''E-12''])) =
     map (\<lambda>x. (fst x, source_of x)) (diamond first_root [sample_pin ''C-3'' 1 ''E-3'', sample_pin ''C-1'' 2 ''E-12''])"
  "verified_sources sample_digest ''P-1'' (map row_of (diamond second_root [sample_pin ''C-1'' 2 ''E-12'', sample_pin ''C-3'' 1 ''E-3''])) =
     map (\<lambda>x. (fst x, source_of x)) (diamond second_root [sample_pin ''C-1'' 2 ''E-12'', sample_pin ''C-3'' 1 ''E-3''])"
proof -
  note r = sample_shapes max_safe_integer_def parse_pin_value sample_text_def sample_pin_text_def sample_hash_def sample_content_def
  have a: "list_all fits (diamond first_root [sample_pin ''C-3'' 1 ''E-3'', sample_pin ''C-1'' 2 ''E-12''])"
    unfolding first_root_def by (rule diamond_fits [OF roots_json(1)]) (simp_all add: r)
  have b: "list_all fits (diamond second_root [sample_pin ''C-1'' 2 ''E-12'', sample_pin ''C-3'' 1 ''E-3''])"
    unfolding second_root_def by (rule diamond_fits [OF roots_json(2)]) (simp_all add: r)
  show "verified_sources sample_digest ''P-1'' (map row_of (diamond first_root [sample_pin ''C-3'' 1 ''E-3'', sample_pin ''C-1'' 2 ''E-12''])) =
     map (\<lambda>x. (fst x, source_of x)) (diamond first_root [sample_pin ''C-3'' 1 ''E-3'', sample_pin ''C-1'' 2 ''E-12''])"
    by (subst verified_samples [OF a]) (simp_all add: diamond_def)
  show "verified_sources sample_digest ''P-1'' (map row_of (diamond second_root [sample_pin ''C-1'' 2 ''E-12'', sample_pin ''C-3'' 1 ''E-3''])) =
     map (\<lambda>x. (fst x, source_of x)) (diamond second_root [sample_pin ''C-1'' 2 ''E-12'', sample_pin ''C-3'' 1 ''E-3''])"
    by (subst verified_samples [OF b]) (simp_all add: diamond_def)
qed

text \<open>The two orders name the same premises, yet only one of the closures is reported complete.\<close>

lemma completeness_depends_on_pin_order:
  "closure_complete (compose_dependency_closure sample_digest
     (map row_of (diamond first_root [sample_pin ''C-3'' 1 ''E-3'', sample_pin ''C-1'' 2 ''E-12''])) ''P-1'' ''C-9@1'') \<and>
   \<not> closure_complete (compose_dependency_closure sample_digest
     (map row_of (diamond second_root [sample_pin ''C-1'' 2 ''E-12'', sample_pin ''C-3'' 1 ''E-3''])) ''P-1'' ''C-9@1'')"
proof
  have rows: "map row_of (diamond t pins) = sample_row ''E-9'' ''C-9'' 1 9 t # map row_of (tl (diamond t pins))"
    "length (map row_of (tl (diamond t pins))) = 4" for t pins by (simp_all add: diamond_def row_of_def)
  show "closure_complete (compose_dependency_closure sample_digest
     (map row_of (diamond first_root [sample_pin ''C-3'' 1 ''E-3'', sample_pin ''C-1'' 2 ''E-12''])) ''P-1'' ''C-9@1'')"
    unfolding compose_dependency_closure_def diamonds_verified
    by (subst rows(1)) (simp add: walk_rules diamond_def source_of_def row_of_def)
  show "\<not> closure_complete (compose_dependency_closure sample_digest
     (map row_of (diamond second_root [sample_pin ''C-1'' 2 ''E-12'', sample_pin ''C-3'' 1 ''E-3''])) ''P-1'' ''C-9@1'')"
    unfolding compose_dependency_closure_def diamonds_verified
    by (subst rows(1)) (simp add: walk_rules diamond_def source_of_def row_of_def)
qed

end
