(* ===== verification/ClosureProperties.thy ===== *)
theory ClosureProperties
  imports ClosureSamples
begin

section \<open>The properties of the premise closure\<close>

text \<open>
  What a reader of a closure may rely on.
\<close>

text \<open>
  C12. What the closure shows is what the bytes say: every node is the verified source of one of
  the first 64 rows - its problem is the asked one and its text has the digest that the
  ledger recorded - and it is reached from the target by pins that such texts name, along a
  path of pairwise different claims with falling sequence numbers, whose length is its depth.
\<close>

theorem closure_nodes_are_verified:
  assumes "node \<in> set (closure_nodes (compose_dependency_closure sha256 rows problem target))"
  shows "source_row (node_source node) \<in> set (take dependency_closure_limit rows) \<and>
    row_problem (source_row (node_source node)) = problem \<and>
    map_option sha256 (row_payload (source_row (node_source node))) = Some (row_payload_sha (source_row (node_source node))) \<and>
    (\<exists>r. map_of (verified_sources sha256 problem rows) (row_event (hd rows)) = Some r \<and> source_target r = target \<and>
      pinned (verified_sources sha256 problem rows) (root_node r) node \<and>
      source_seq (node_source node) + int (node_depth node) \<le> source_seq r) \<and>
    0 < node_depth node \<and> length (node_path node) = node_depth node + 1 \<and> hd (node_path node) = target \<and>
    last (node_path node) = source_target (node_source node) \<and> distinct (map identity_part (node_path node))"
proof -
  let ?c = "compose_dependency_closure sha256 rows problem target" and ?v = "verified_sources sha256 problem rows"
  have "root_available ?c" using assms
    by (auto simp: compose_dependency_closure_def Let_def split: list.splits option.splits if_splits prod.splits)
  then obtain r w nodes where c: "map_of ?v (row_event (hd rows)) = Some r" "source_target r = target"
    "walk_queue ?v [root_node r] (closure_start rows (row_event (hd rows))) = (w, nodes)" "node \<in> set nodes"
    using assms by (elim compose_root) auto
  from closure_laws(1) [OF c(3) verified_sources_keyed] c(4)
  have p: "pinned ?v (root_node r) node" "node_depth node > 0" by auto
  note w = pinned_path [OF p(1) c(1) verified_sources_shaped, unfolded well_placed_def]
  then obtain e where "map_of ?v e = Some (node_source node)" by blast
  from verified_sources_checked(1) [OF this] w p c(1,2) show ?thesis by (auto simp: checked_def)
qed

theorem closure_nodes_are_verified_witness:
  "\<exists>node. node \<in> set (closure_nodes (compose_dependency_closure sample_digest sample_rows ''P-1'' ''C-1@1'')) \<and>
     node_path node = [''C-1@1'', ''C-2@1''] \<and> source_target (node_source node) = ''C-2@1'' \<and> node_depth node = 1 \<and>
     row_problem (source_row (node_source node)) = ''P-1''"
proof -
  have "[''C-1@1'', ''C-2@1''] \<in> node_path ` set (closure_nodes (compose_dependency_closure sample_digest sample_rows ''P-1'' ''C-1@1''))"
    unfolding set_map [symmetric] sample_closure(4) by simp
  then obtain node where node: "node \<in> set (closure_nodes (compose_dependency_closure sample_digest sample_rows ''P-1'' ''C-1@1''))"
    "node_path node = [''C-1@1'', ''C-2@1'']" by auto
  from closure_nodes_are_verified [OF node(1)] node show ?thesis by auto
qed

text \<open>
  C13. Completeness is not overstated: a closure is reported complete exactly when the query was not
  cut off and nothing is listed as unavailable, and then the target and every node name
  their premises, and each premise is one of the nodes, with the pinned digests.
\<close>

theorem complete_closure_is_closed:
  assumes "compose_dependency_closure sha256 rows problem target = c" "root_available c"
    and "map_of (verified_sources sha256 problem rows) (row_event (hd rows)) = Some r"
  shows "(closure_complete c \<longleftrightarrow> length rows \<le> dependency_closure_limit \<and> closure_unavailable c = []) \<and>
    (closure_complete c \<longrightarrow> (\<forall>s \<in> insert r (node_source ` set (closure_nodes c)). \<exists>pins. source_pins s = Some pins \<and>
      (\<forall>pin \<in> set pins. \<exists>m \<in> set (closure_nodes c).
        source_target (node_source m) = pin_target pin \<and> node_event m = pin_event pin \<and>
        row_payload_sha (source_row (node_source m)) = pin_payload pin \<and>
        row_content_digest (source_row (node_source m)) = Some (pin_content pin) \<and>
        source_seq (node_source m) < source_seq s)))"
proof -
  let ?v = "verified_sources sha256 problem rows"
  obtain w nodes where q: "walk_queue ?v [root_node r] (closure_start rows (row_event (hd rows))) = (w, nodes)"
    "closure_complete c = walk_complete w" "closure_nodes c = nodes" "closure_unavailable c = walk_unavailable w"
    using compose_root [OF assms(2) [folded assms(1)]] assms(1,3) by force
  note l = closure_laws [OF q(1) verified_sources_keyed]
  note cl = closure_closed [OF q(1) verified_sources_keyed assms(3) verified_sources_shaped]
  have "resolved ?v n \<longleftrightarrow> (\<nexists>t. lacking ?v n t)" for n
    by (cases "source_pins (node_source n)") (auto simp: resolved_def lacking_def)
  then have "(\<forall>n \<in> set (root_node r # nodes). resolved ?v n) \<longleftrightarrow> set (walk_unavailable w) = {}"
    unfolding l(4) by blast
  with l(3) q have iff: "closure_complete c \<longleftrightarrow> length rows \<le> dependency_closure_limit \<and> closure_unavailable c = []" by simp
  have m: "\<exists>pins. source_pins (node_source n) = Some pins \<and> (\<forall>pin \<in> set pins. \<exists>m \<in> set nodes.
        source_target (node_source m) = pin_target pin \<and> node_event m = pin_event pin \<and>
        row_payload_sha (source_row (node_source m)) = pin_payload pin \<and>
        row_content_digest (source_row (node_source m)) = Some (pin_content pin) \<and>
        source_seq (node_source m) < source_seq (node_source n))"
    if "walk_complete w" and n: "n \<in> set (root_node r # nodes)" for n
  proof -
    from l(3) that obtain pins where pins: "source_pins (node_source n) = Some pins" "\<forall>pin \<in> set pins. pin_available ?v n pin"
      by (auto simp: resolved_def)
    have "\<exists>m \<in> set nodes. node_event m = pin_event pin \<and> map_of ?v (pin_event pin) = Some (node_source m)" if "pin \<in> set pins" for pin
      using cl n pins that unfolding closed_nodes_def usable_pins_def by fastforce
    then show ?thesis using pins by (fastforce simp: pin_available_def split: option.splits)
  qed
  have "node_source (root_node r) = r" by (simp add: root_node_def)
  with m [of "root_node r"] m iff show ?thesis unfolding q(2,3) by (simp only: ball_simps insert_iff) auto
qed

theorem complete_closure_is_closed_witness:
  "\<exists>r m. map_of (verified_sources sample_digest ''P-1'' sample_rows) ''E-1'' = Some r \<and>
     source_pins r = Some [sample_pin ''C-2'' 1 ''E-2''] \<and>
     m \<in> set (closure_nodes (compose_dependency_closure sample_digest sample_rows ''P-1'' ''C-1@1'')) \<and>
     source_target (node_source m) = ''C-2@1'' \<and> source_seq (node_source m) < source_seq r"
  using complete_closure_is_closed [OF refl sample_closure(2,1)] sample_closure(1,3)
  by (auto simp: sample_rows_def row_of_def show_sample)

text \<open>
  The closure is bounded: whatever the query returns, it has fewer nodes than the 64 rows it
  may read, and each event appears once and is not the target's own.
\<close>

theorem closure_is_bounded:
  "length (closure_nodes (compose_dependency_closure sha256 rows problem target)) < dependency_closure_limit \<and>
   distinct (map node_event (closure_nodes (compose_dependency_closure sha256 rows problem target)))"
proof (cases "root_available (compose_dependency_closure sha256 rows problem target)")
  case False
  then show ?thesis
    by (auto simp: compose_dependency_closure_def Let_def dependency_closure_limit_def
        split: list.splits option.splits if_splits prod.splits)
next
  case True
  let ?v = "verified_sources sha256 problem rows"
  from True obtain r w nodes where q: "map_of ?v (row_event (hd rows)) = Some r"
    "walk_queue ?v [root_node r] (closure_start rows (row_event (hd rows))) = (w, nodes)"
    "closure_nodes (compose_dependency_closure sha256 rows problem target) = nodes"
    by (elim compose_root) auto
  note l = closure_laws [OF q(2) verified_sources_keyed]
  have "e \<in> row_event ` set (take dependency_closure_limit rows)" if "map_of ?v e = Some s" for e s
    using verified_sources_checked [OF that] by (auto simp: checked_def)
  moreover have "\<exists>s. map_of ?v (node_event n) = Some s" if "n \<in> set nodes" for n
    using that l(1) pinned_path [OF _ q(1) verified_sources_shaped] verified_sources_keyed
    by (fastforce simp: well_placed_def keyed_def node_event_def)
  ultimately have "set (row_event (hd rows) # map node_event nodes) \<subseteq> row_event ` set (take dependency_closure_limit rows)"
    using q(1) by (simp add: subset_eq) blast
  then have "card (set (row_event (hd rows) # map node_event nodes)) \<le> card (row_event ` set (take dependency_closure_limit rows))"
    by (intro card_mono) auto
  also have "\<dots> \<le> dependency_closure_limit"
    by (rule order_trans [OF card_image_le]) (auto intro: order_trans [OF card_length])
  finally have "length (row_event (hd rows) # map node_event nodes) \<le> dependency_closure_limit"
    unfolding distinct_card [OF l(2)] .
  with l(2) q(3) show ?thesis by simp
qed

end
