(* ===== verification/ReviewRequests.thy ===== *)
theory ReviewRequests
  imports Text
begin

section \<open>Review invitations: the transition (\<open>review-requests/model.ts\<close>)\<close>

text \<open>
  The private invitation of a reviewer: its states, the transition that the server computes,
  and the transition that the trigger of \<open>0065_review_requests.sql\<close> accepts. Instants are
  milliseconds; a number that is not an integer is no instant of the server's clock.
\<close>

datatype response = Accept | Decline | Cancel | Complete
datatype review_action = Offer | Respond response
datatype invitation_status = Offered | Accepted | Declined | Cancelled | Completed
datatype participant = AuthorSide | ReviewerSide
datatype effective_status = InState invitation_status | ExpiredRequest

datatype request_error =
  RequestNotFound | RequestConflict | RequestUnavailable | RequestIneligible | RequestLimit
| ReplayConflict | SealBroken

text \<open>\<open>SealBroken\<close> is a stored reply that the protector cannot open.\<close>

definition review_offer_ms :: int where "review_offer_ms = 2 * 24 * 60 * 60 * 1000"

definition review_accepted_ms :: int where "review_accepted_ms = 7 * 24 * 60 * 60 * 1000"

definition review_request_capacity :: nat where "review_request_capacity = 4"

definition review_request_daily_limit :: nat where "review_request_daily_limit = 20"

record request_state =
  request_version :: int
  request_status :: invitation_status
  occurred_at :: int
  expires_at :: int

definition safe_integer :: "int \<Rightarrow> bool" where
  "safe_integer n \<longleftrightarrow> \<bar>n\<bar> \<le> max_safe_integer"

definition still_open :: "invitation_status \<Rightarrow> bool" where
  "still_open s \<longleftrightarrow> s = Offered \<or> s = Accepted"

definition effective_review_request_status :: "request_state \<Rightarrow> int \<Rightarrow> effective_status" where
  "effective_review_request_status state now =
     (if still_open (request_status state) \<and> now \<ge> expires_at state then ExpiredRequest
      else InState (request_status state))"

fun status_after :: "response \<Rightarrow> invitation_status" where
  "status_after Accept = Accepted"
| "status_after Decline = Declined"
| "status_after Cancel = Cancelled"
| "status_after Complete = Completed"

definition response_allowed :: "request_state \<Rightarrow> response \<Rightarrow> participant \<Rightarrow> int \<Rightarrow> bool" where
  "response_allowed state response participant now \<longleftrightarrow>
     (if response = Cancel then participant = AuthorSide \<and> still_open (request_status state)
      else participant = ReviewerSide \<and>
        (if response = Decline then still_open (request_status state)
         else now < expires_at state \<and>
           (if response = Accept then request_status state = Offered else request_status state = Accepted)))"

definition transition_review_request ::
  "request_state \<Rightarrow> response \<Rightarrow> int \<Rightarrow> participant \<Rightarrow> int \<Rightarrow> request_error + request_state" where
  "transition_review_request state response expected participant now =
     (if \<not> safe_integer now \<or> now < occurred_at state \<or> request_version state \<noteq> expected \<or>
         request_version state \<ge> max_safe_integer then Inl RequestConflict
      else if \<not> response_allowed state response participant now then Inl RequestConflict
      else
        let expires = (if response = Accept then now + review_accepted_ms else expires_at state) in
        if \<not> safe_integer expires then Inl RequestConflict
        else Inr \<lparr>request_version = request_version state + 1, request_status = status_after response,
               occurred_at = now, expires_at = expires\<rparr>)"

subsection \<open>Who may coordinate\<close>

datatype fellow_status = ActiveFellow | SuspiciousReview | OtherFellowStatus

record credential =
  cred_status :: fellow_status
  cred_issued :: int
  cred_expires :: int
  cred_revoked :: "int option"
  cred_binding :: "string option"

definition may_coordinate_review_request :: "credential \<Rightarrow> string \<Rightarrow> int \<Rightarrow> bool" where
  "may_coordinate_review_request actor problem now \<longleftrightarrow>
     (cred_status actor = ActiveFellow \<or> cred_status actor = SuspiciousReview) \<and> safe_integer now \<and>
     cred_issued actor \<le> now \<and> cred_expires actor > now \<and>
     (case cred_revoked actor of None \<Rightarrow> True | Some t \<Rightarrow> t > now) \<and>
     (case cred_binding actor of None \<Rightarrow> True | Some p \<Rightarrow> p = problem)"

subsection \<open>The tables\<close>

record request_row =
  rq_id :: string
  rq_problem :: string
  rq_claim :: string
  rq_claim_version :: int
  rq_claim_event :: string
  rq_claim_sha :: string
  rq_author :: string
  rq_author_sponsor :: string
  rq_reviewer :: string
  rq_reviewer_sponsor :: string
  rq_created :: int

record request_event =
  re_event :: string
  re_request :: string
  re_version :: int
  re_action :: review_action
  re_actor :: string
  re_at :: int
  re_expires :: int
  re_review :: "string option"

record 'c replay_row =
  rp_fellow :: string
  rp_key :: string
  rp_digest :: string
  rp_sealed :: 'c
  rp_expires :: int

text \<open>A row of \<open>fellow_inbox_notices\<close>; the two columns of impact notices are left out, they are null here.\<close>

record request_notice =
  rn_id :: string
  rn_fellow :: string
  rn_problem :: "string option"
  rn_type :: string
  rn_seq :: nat
  rn_title :: string
  rn_detail :: "string option"
  rn_target :: "string option"
  rn_acknowledged :: "int option"
  rn_expires :: "int option"
  rn_created :: int

text \<open>Notices of every kind are rows of \<open>request_notices\<close>; \<open>elsewhere\<close> is all other tables.\<close>

record ('c, 'p) request_db =
  request_rows :: "request_row list"
  request_events :: "request_event list"
  replay_rows :: "'c replay_row list"
  request_notices :: "request_notice list"
  elsewhere :: 'p

definition events_of :: "('c, 'p) request_db \<Rightarrow> string \<Rightarrow> request_event list" where
  "events_of db i = filter (\<lambda>e. re_request e = i) (request_events db)"

text \<open>The event with \<open>MAX(version)\<close>.\<close>

definition last_event :: "('c, 'p) request_db \<Rightarrow> string \<Rightarrow> request_event option" where
  "last_event db i =
     (let es = events_of db i in
      if es = [] then None else find (\<lambda>e. re_version e = Max (set (map re_version es))) es)"

fun status_of :: "review_action \<Rightarrow> invitation_status" where
  "status_of Offer = Offered"
| "status_of (Respond r) = status_after r"

definition request_state_of :: "request_event \<Rightarrow> request_state" where
  "request_state_of e = \<lparr>request_version = re_version e, request_status = status_of (re_action e),
     occurred_at = re_at e, expires_at = re_expires e\<rparr>"

subsection \<open>The trigger\<close>

definition offer_clause :: "('c, 'p) request_db \<Rightarrow> request_row \<Rightarrow> request_event \<Rightarrow> bool" where
  "offer_clause db r e \<longleftrightarrow>
     re_action e = Offer \<and> re_version e = 1 \<and> re_actor e = rq_author r \<and> re_at e = rq_created r \<and>
     re_expires e = re_at e + 172800000 \<and> events_of db (rq_id r) = []"

text \<open>
  What the statements read of the other tables: whether the rows that a request or an event
  refers to exist, and whether an event is a published review of the claim version by the reviewer.
\<close>

record 'p request_reads =
  request_references :: "'p \<Rightarrow> request_row \<Rightarrow> bool"
  event_references :: "'p \<Rightarrow> request_event \<Rightarrow> bool"
  review_evidence :: "'p \<Rightarrow> request_row \<Rightarrow> string \<Rightarrow> bool"

definition response_clause ::
  "('p, 'z) request_reads_scheme \<Rightarrow> 'p \<Rightarrow> request_row \<Rightarrow> request_event \<Rightarrow> request_event \<Rightarrow> bool" where
  "response_clause w q r previous e \<longleftrightarrow>
     re_at e \<ge> re_at previous \<and>
     (case re_action e of
        Offer \<Rightarrow> False
      | Respond Accept \<Rightarrow> re_action previous = Offer \<and> re_actor e = rq_reviewer r \<and>
          re_at e < re_expires previous \<and> re_expires e = re_at e + 604800000
      | Respond Decline \<Rightarrow> (re_action previous = Offer \<or> re_action previous = Respond Accept) \<and>
          re_actor e = rq_reviewer r \<and> re_expires e = re_expires previous
      | Respond Cancel \<Rightarrow> (re_action previous = Offer \<or> re_action previous = Respond Accept) \<and>
          re_actor e = rq_author r \<and> re_expires e = re_expires previous
      | Respond Complete \<Rightarrow> re_action previous = Respond Accept \<and> re_actor e = rq_reviewer r \<and>
          re_at e < re_expires previous \<and> re_expires e = re_expires previous \<and>
          (case re_review e of None \<Rightarrow> False | Some v \<Rightarrow> review_evidence w q r v))"

text \<open>The trigger looks for a previous event with the version before; versions are unique in a request.\<close>

definition follows_previous ::
  "('p, 'z) request_reads_scheme \<Rightarrow> ('c, 'p) request_db \<Rightarrow> request_row \<Rightarrow> request_event \<Rightarrow> bool" where
  "follows_previous w db r e \<longleftrightarrow>
     (case last_event db (rq_id r) of
        None \<Rightarrow> False
      | Some previous \<Rightarrow> re_version previous = re_version e - 1 \<and> response_clause w (elsewhere db) r previous e)"

definition transition_accepted :: "('p, 'z) request_reads_scheme \<Rightarrow> ('c, 'p) request_db \<Rightarrow> request_event \<Rightarrow> bool" where
  "transition_accepted w db e \<longleftrightarrow>
     list_ex (\<lambda>r. rq_id r = re_request e \<and> (offer_clause db r e \<or> follows_previous w db r e)) (request_rows db)"

text \<open>An insert with its triggers, checks and uniqueness; \<open>guard\<close> is the value of the guard column.\<close>

definition insert_request_event ::
  "('p, 'z) request_reads_scheme \<Rightarrow> bool \<Rightarrow> request_event \<Rightarrow> ('c, 'p) request_db \<Rightarrow> ('c, 'p) request_db option" where
  "insert_request_event w guard e db =
     (if list_ex (\<lambda>x. re_event x = re_event e) (request_events db) \<or> \<not> transition_accepted w db e \<or>
         \<not> guard \<or> \<not> re_version e > 0 \<or>
         list_ex (\<lambda>x. re_request x = re_request e \<and> re_version x = re_version e) (request_events db) \<or>
         (re_action e = Respond Complete) \<noteq> (re_review e \<noteq> None) \<or> \<not> event_references w (elsewhere db) e
      then None else Some (db\<lparr>request_events := request_events db @ [e]\<rparr>))"

definition insert_request ::
  "('p, 'z) request_reads_scheme \<Rightarrow> request_row \<Rightarrow> ('c, 'p) request_db \<Rightarrow> ('c, 'p) request_db option" where
  "insert_request w r db =
     (if list_ex (\<lambda>x. rq_id x = rq_id r) (request_rows db) \<or> \<not> rq_claim_version r > 0 \<or>
         rq_author r = rq_reviewer r \<or> rq_author_sponsor r = rq_reviewer_sponsor r \<or>
         list_ex (\<lambda>x. rq_problem x = rq_problem r \<and> rq_claim x = rq_claim r \<and>
           rq_claim_version x = rq_claim_version r \<and> rq_reviewer x = rq_reviewer r) (request_rows db) \<or>
         \<not> request_references w (elsewhere db) r
      then None else Some (db\<lparr>request_rows := request_rows db @ [r]\<rparr>))"

end
