(* ===== verification/ReviewStore.thy ===== *)
theory ReviewStore
  imports ReviewRequests Machine
begin

section \<open>Review invitations: one transaction (\<open>review-requests/store.ts\<close>)\<close>

text \<open>
  The commit of an offer or of a response: the replay of a settled key, the guard, the batch
  and the recovery after a failure. The parts of the guard that read the tables of enrollment,
  problems, events and reviews are arguments, as is the protector of the stored replies.
\<close>

record request_receipt =
  rc_request :: string
  rc_problem :: string
  rc_claim :: string
  rc_claim_version :: int
  rc_claim_event :: string
  rc_claim_sha :: string
  rc_author :: string
  rc_reviewer :: string
  rc_version :: int
  rc_status :: invitation_status
  rc_created :: int
  rc_updated :: int
  rc_expires :: int
  rc_review_event :: "string option"

datatype request_role = ObserverRole | ContributorRole | StewardRole | NoRole
datatype request_scope = PromoteScope | ReviewScope | CoordinateScope

record content_pin =
  pin_event_id :: string
  pin_content_digest :: string
  pin_payload :: string

record match_eligibility =
  match_credential :: string
  match_role :: request_role
  match_binding :: string
  match_grant :: string

record request_actor =
  ac_fellow :: string
  ac_sponsor :: string
  ac_credential :: string
  ac_token_hash :: string

record request_command =
  cm_receipt :: request_receipt
  cm_actor :: request_actor
  cm_role :: request_role
  cm_action :: review_action
  cm_scope :: request_scope
  cm_cursor :: int
  cm_author_sponsor :: string
  cm_reviewer_sponsor :: string
  cm_pins :: "content_pin list"
  cm_key :: string
  cm_digest :: string
  cm_event :: string
  cm_match :: "match_eligibility option"

text \<open>The sealed form of a reply and its opening, each under the context of its key.\<close>

record 'c protector =
  seal_reply :: "string \<Rightarrow> request_receipt \<Rightarrow> 'c option"
  open_reply :: "string \<Rightarrow> 'c \<Rightarrow> request_receipt option"

definition replay_context :: "string \<Rightarrow> string \<Rightarrow> string" where
  "replay_context fellow key = ''review-request-v1:'' @ fellow @ '':'' @ key"

text \<open>What the guard reads elsewhere; \<open>author_sponsor_of\<close> is the sponsor of an enrolled Fellow.\<close>

record 'p guard_reads = "'p request_reads" +
  author_sponsor_of :: "'p \<Rightarrow> string \<Rightarrow> string option"
  authority_of :: "'p \<Rightarrow> request_command \<Rightarrow> bool"
  content_readable :: "'p \<Rightarrow> request_command \<Rightarrow> bool"
  recipient_eligible :: "'p \<Rightarrow> request_command \<Rightarrow> bool"
  already_reviewed :: "'p \<Rightarrow> request_command \<Rightarrow> bool"
  match_recipient :: "'p \<Rightarrow> request_command \<Rightarrow> bool"
  notice_references :: "'p \<Rightarrow> request_notice \<Rightarrow> bool"

subsection \<open>The replay of a key\<close>

definition request_replay ::
  "'c protector \<Rightarrow> ('c, 'p) request_db \<Rightarrow> string \<Rightarrow> string \<Rightarrow> string \<Rightarrow> int \<Rightarrow> request_error + request_receipt option" where
  "request_replay p db fellow key digest now =
     (case find (\<lambda>x. rp_fellow x = fellow \<and> rp_key x = key \<and> rp_expires x > now) (replay_rows db) of
        None \<Rightarrow> Inr None
      | Some x \<Rightarrow>
          if rp_digest x \<noteq> digest then Inl ReplayConflict
          else case open_reply p (replay_context fellow key) (rp_sealed x) of
            None \<Rightarrow> Inl SealBroken
          | Some r \<Rightarrow> Inr (Some r))"

text \<open>The first hundred expired rows by expiry leave, and the expired row of the key.\<close>

definition purge_replays :: "int \<Rightarrow> ('c, 'p) request_db \<Rightarrow> ('c, 'p) request_db" where
  "purge_replays now db =
     (let doomed = take 100 (sort_key rp_expires (filter (\<lambda>x. rp_expires x \<le> now) (replay_rows db))) in
      db\<lparr>replay_rows := filter (\<lambda>x. (rp_fellow x, rp_key x) \<notin> set (map (\<lambda>y. (rp_fellow y, rp_key y)) doomed))
        (replay_rows db)\<rparr>)"

definition forget_expired_key :: "string \<Rightarrow> string \<Rightarrow> int \<Rightarrow> ('c, 'p) request_db \<Rightarrow> ('c, 'p) request_db" where
  "forget_expired_key fellow key now db =
     db\<lparr>replay_rows := filter (\<lambda>x. \<not> (rp_fellow x = fellow \<and> rp_key x = key \<and> rp_expires x \<le> now)) (replay_rows db)\<rparr>"

text \<open>A live row of the same key has its digest set to null, which the column refuses.\<close>

definition insert_replay :: "'c replay_row \<Rightarrow> ('c, 'p) request_db \<Rightarrow> ('c, 'p) request_db option" where
  "insert_replay x db =
     (if list_ex (\<lambda>y. rp_fellow y = rp_fellow x \<and> rp_key y = rp_key x) (replay_rows db) then None
      else Some (db\<lparr>replay_rows := replay_rows db @ [x]\<rparr>))"

subsection \<open>The guard\<close>

definition action_allowed :: "request_command \<Rightarrow> bool" where
  "action_allowed c \<longleftrightarrow>
     cm_action c = Offer \<and> cm_scope c = PromoteScope \<or>
     cm_action c = Respond Accept \<and> cm_scope c = ReviewScope \<or>
     cm_action c \<in> {Respond Decline, Respond Cancel, Respond Complete} \<and> cm_scope c = CoordinateScope"

definition open_until :: "int \<Rightarrow> request_event \<Rightarrow> bool" where
  "open_until now e \<longleftrightarrow> (re_action e = Offer \<or> re_action e = Respond Accept) \<and> re_expires e > now"

text \<open>The requests whose last event is an offer or an acceptance that has not expired.\<close>

definition is_pending :: "('c, 'p) request_db \<Rightarrow> int \<Rightarrow> request_row \<Rightarrow> bool" where
  "is_pending db now r \<longleftrightarrow> (case last_event db (rq_id r) of None \<Rightarrow> False | Some e \<Rightarrow> open_until now e)"

definition pending_for :: "('c, 'p) request_db \<Rightarrow> string \<Rightarrow> int \<Rightarrow> request_row list" where
  "pending_for db reviewer now = filter (\<lambda>r. rq_reviewer r = reviewer \<and> is_pending db now r) (request_rows db)"

definition recent_of_sponsor ::
  "('p \<Rightarrow> string \<Rightarrow> string option) \<Rightarrow> ('c, 'p) request_db \<Rightarrow> string \<Rightarrow> int \<Rightarrow> request_row list" where
  "recent_of_sponsor sponsor_of db sponsor now =
     filter (\<lambda>r. sponsor_of (elsewhere db) (rq_author r) = Some sponsor \<and> rq_created r > now - 86400000)
       (request_rows db)"

definition no_active_request :: "('c, 'p) request_db \<Rightarrow> request_receipt \<Rightarrow> int \<Rightarrow> bool" where
  "no_active_request db r now \<longleftrightarrow>
     \<not> list_ex (\<lambda>x. rq_problem x = rc_problem r \<and> rq_claim x = rc_claim r \<and>
       rq_claim_version x = rc_claim_version r \<and> rq_id x \<noteq> rc_request r \<and> is_pending db now x) (request_rows db)"

definition offer_allowed :: "'p guard_reads \<Rightarrow> ('c, 'p) request_db \<Rightarrow> request_command \<Rightarrow> bool" where
  "offer_allowed w db c \<longleftrightarrow>
     (let r = cm_receipt c; now = rc_updated r in
      \<not> already_reviewed w (elsewhere db) c \<and>
      length (recent_of_sponsor (author_sponsor_of w) db (ac_sponsor (cm_actor c)) now) \<le> review_request_daily_limit \<and>
      length (pending_for db (rc_reviewer r) now) < review_request_capacity)"

definition request_guard :: "'p guard_reads \<Rightarrow> ('c, 'p) request_db \<Rightarrow> request_command \<Rightarrow> bool" where
  "request_guard w db c \<longleftrightarrow>
     action_allowed c \<and>
     author_sponsor_of w (elsewhere db) (ac_fellow (cm_actor c)) = Some (ac_sponsor (cm_actor c)) \<and>
     authority_of w (elsewhere db) c \<and>
     content_readable w (elsewhere db) c \<and>
     (cm_action c \<in> {Offer, Respond Accept} \<longrightarrow> recipient_eligible w (elsewhere db) c) \<and>
     (cm_action c = Offer \<longrightarrow> offer_allowed w db c) \<and>
     (cm_match c \<noteq> None \<longrightarrow>
       cm_action c = Offer \<and> no_active_request db (cm_receipt c) (rc_updated (cm_receipt c)) \<and>
       match_recipient w (elsewhere db) c)"

subsection \<open>The batch\<close>

definition row_of_offer :: "request_command \<Rightarrow> request_row" where
  "row_of_offer c =
     (let r = cm_receipt c in
      \<lparr>rq_id = rc_request r, rq_problem = rc_problem r, rq_claim = rc_claim r, rq_claim_version = rc_claim_version r,
       rq_claim_event = rc_claim_event r, rq_claim_sha = rc_claim_sha r, rq_author = rc_author r,
       rq_author_sponsor = cm_author_sponsor c, rq_reviewer = rc_reviewer r,
       rq_reviewer_sponsor = cm_reviewer_sponsor c, rq_created = rc_created r\<rparr>)"

definition event_of_command :: "request_command \<Rightarrow> request_event" where
  "event_of_command c =
     (let r = cm_receipt c in
      \<lparr>re_event = cm_event c, re_request = rc_request r, re_version = rc_version r, re_action = cm_action c,
       re_actor = ac_fellow (cm_actor c), re_at = rc_updated r, re_expires = rc_expires r,
       re_review = rc_review_event r\<rparr>)"

definition action_name :: "review_action \<Rightarrow> string" where
  "action_name a = (case a of Offer \<Rightarrow> ''offer'' | Respond Accept \<Rightarrow> ''accept'' | Respond Decline \<Rightarrow> ''decline''
     | Respond Cancel \<Rightarrow> ''cancel'' | Respond Complete \<Rightarrow> ''complete'')"

definition notice_recipient :: "request_command \<Rightarrow> string" where
  "notice_recipient c =
     (if cm_action c = Offer \<or> cm_action c = Respond Cancel then rc_reviewer (cm_receipt c)
      else rc_author (cm_receipt c))"

definition next_request_seq :: "request_notice list \<Rightarrow> string \<Rightarrow> nat" where
  "next_request_seq table fellow = Max (set (0 # map rn_seq (filter (\<lambda>n. rn_fellow n = fellow) table))) + 1"

definition request_notice_of :: "request_command \<Rightarrow> nat \<Rightarrow> request_notice" where
  "request_notice_of c n =
     (let r = cm_receipt c in
      \<lparr>rn_id = ''IN-'' @ cm_event c, rn_fellow = notice_recipient c, rn_problem = Some (rc_problem r),
       rn_type = (if cm_action c = Respond Decline then ''review_decline'' else ''review_request''),
       rn_seq = n, rn_title = ''Review invitation update'',
       rn_detail = Some (''Review invitation '' @ action_name (cm_action c) @ ''. Read its current state at /v1/p/'' @
         rc_problem r @ ''/review-requests/'' @ rc_request r @ ''. This notice is not scientific evidence.''),
       rn_target = Some (rc_request r), rn_acknowledged = None,
       rn_expires = (if cm_action c = Offer \<or> cm_action c = Respond Accept then Some (rc_expires r) else None),
       rn_created = rc_updated r\<rparr>)"

definition insert_request_notice ::
  "'p guard_reads \<Rightarrow> request_command \<Rightarrow> ('c, 'p) request_db \<Rightarrow> ('c, 'p) request_db option" where
  "insert_request_notice w c db =
     (let n = request_notice_of c (next_request_seq (request_notices db) (notice_recipient c)) in
      if rn_id n \<in> set (map rn_id (request_notices db)) \<or> \<not> notice_references w (elsewhere db) n then None
      else Some (db\<lparr>request_notices := request_notices db @ [n]\<rparr>))"

definition acknowledge_requests :: "string \<Rightarrow> string \<Rightarrow> int \<Rightarrow> ('c, 'p) request_db \<Rightarrow> ('c, 'p) request_db" where
  "acknowledge_requests fellow target now db =
     db\<lparr>request_notices := map (\<lambda>n.
       if rn_fellow n = fellow \<and> rn_target n = Some target \<and> rn_type n = ''review_request'' \<and> rn_acknowledged n = None
       then n\<lparr>rn_acknowledged := Some now\<rparr> else n) (request_notices db)\<rparr>"

definition replay_of_command :: "request_command \<Rightarrow> 'c \<Rightarrow> 'c replay_row" where
  "replay_of_command c x =
     \<lparr>rp_fellow = ac_fellow (cm_actor c), rp_key = cm_key c, rp_digest = cm_digest c, rp_sealed = x,
      rp_expires = rc_updated (cm_receipt c) + 86400000\<rparr>"

text \<open>The statements of the batch in order; the first that fails undoes all of them.\<close>

definition commit_batch ::
  "'p guard_reads \<Rightarrow> request_command \<Rightarrow> 'c \<Rightarrow> ('c, 'p) request_db \<Rightarrow> ('c, 'p) request_db option" where
  "commit_batch w c x db =
     (let r = cm_receipt c; now = rc_updated r; me = ac_fellow (cm_actor c);
        cleared = forget_expired_key me (cm_key c) now (purge_replays now db) in
      Option.bind (if cm_action c = Offer then insert_request w (row_of_offer c) cleared else Some cleared)
        (\<lambda>db1. Option.bind (insert_request_event w (request_guard w db1 c) (event_of_command c) db1)
        (\<lambda>db2. Option.bind (insert_request_notice w c db2)
        (\<lambda>db3. insert_replay (replay_of_command c x) (acknowledge_requests me (rc_request r) now db3)))))"

subsection \<open>The commit\<close>

text \<open>
  What the other writers do between the statements of one commit, and whether the reply of the
  batch reaches the worker: it is delivered, lost after the batch ran, or the batch never ran.
\<close>

datatype delivery = Delivered | ReplyLost | NeverRan

record ('c, 'p) commit_round =
  while_sealing :: "('c, 'p) request_db \<Rightarrow> ('c, 'p) request_db"
  before_recovery :: "('c, 'p) request_db \<Rightarrow> ('c, 'p) request_db"
  batch_delivery :: delivery

definition recover_reply ::
  "'c protector \<Rightarrow> request_command \<Rightarrow> request_error \<Rightarrow> ('c, 'p) request_db \<Rightarrow>
     (request_error + request_receipt) \<times> ('c, 'p) request_db" where
  "recover_reply p c e db =
     (case request_replay p db (ac_fellow (cm_actor c)) (cm_key c) (cm_digest c) (rc_updated (cm_receipt c)) of
        Inl e' \<Rightarrow> (Inl e', db)
      | Inr (Some r) \<Rightarrow> (Inr r, db)
      | Inr None \<Rightarrow> (Inl e, db))"

definition commit_request ::
  "'p guard_reads \<Rightarrow> 'c protector \<Rightarrow> request_command \<Rightarrow> ('c, 'p) commit_round \<Rightarrow> ('c, 'p) request_db \<Rightarrow>
     (request_error + request_receipt) \<times> ('c, 'p) request_db" where
  "commit_request w p c turn db =
     (let r = cm_receipt c; me = ac_fellow (cm_actor c) in
      if cm_match c \<noteq> None \<and> cm_action c \<noteq> Offer then (Inl RequestConflict, db)
      else case request_replay p db me (cm_key c) (cm_digest c) (rc_updated r) of
        Inl e \<Rightarrow> (Inl e, db)
      | Inr (Some prior) \<Rightarrow> (Inr prior, db)
      | Inr None \<Rightarrow>
          (case seal_reply p (replay_context me (cm_key c)) r of
             None \<Rightarrow> (Inl SealBroken, db)
           | Some x \<Rightarrow>
               let db1 = while_sealing turn db in
               (case (batch_delivery turn, commit_batch w c x db1) of
                  (NeverRan, _) \<Rightarrow> recover_reply p c RequestUnavailable (before_recovery turn db1)
                | (Delivered, None) \<Rightarrow> recover_reply p c RequestConflict (before_recovery turn db1)
                | (ReplyLost, None) \<Rightarrow> recover_reply p c RequestUnavailable (before_recovery turn db1)
                | (Delivered, Some db2) \<Rightarrow> (Inr r, db2)
                | (ReplyLost, Some db2) \<Rightarrow> recover_reply p c RequestUnavailable (before_recovery turn db2))))"

end
