(* ===== verification/ReviewLaws.thy ===== *)
theory ReviewLaws
  imports ReviewStore "HOL-Library.Sublist"
begin

section \<open>Laws of the invitation tables\<close>

text \<open>
  What every committed transaction keeps of the tables: identifiers, the history of each
  invitation as a run of the state machine of \<open>model.ts\<close>, and the replies of settled keys.
\<close>

subsection \<open>Histories\<close>

definition side_fellow :: "request_row \<Rightarrow> participant \<Rightarrow> string" where
  "side_fellow r side = (case side of AuthorSide \<Rightarrow> rq_author r | ReviewerSide \<Rightarrow> rq_reviewer r)"

lemma side_fellow_simps [simp]: "side_fellow r AuthorSide = rq_author r" "side_fellow r ReviewerSide = rq_reviewer r"
  by (simp_all add: side_fellow_def)

text \<open>One event follows another as the state machine computes it.\<close>

definition moves :: "request_row \<Rightarrow> request_event \<Rightarrow> request_event \<Rightarrow> bool" where
  "moves r previous e \<longleftrightarrow> (\<exists>x side. re_action e = Respond x \<and> re_actor e = side_fellow r side \<and>
     transition_review_request (request_state_of previous) x (re_version previous) side (re_at e) =
       Inr (request_state_of e) \<and> (x = Complete) = (re_review e \<noteq> None))"

definition opens_request :: "request_row \<Rightarrow> request_event \<Rightarrow> bool" where
  "opens_request r e \<longleftrightarrow> re_action e = Offer \<and> re_version e = 1 \<and> re_actor e = rq_author r \<and>
     re_at e = rq_created r \<and> re_expires e = re_at e + review_offer_ms \<and> safe_integer (re_expires e) \<and> re_review e = None"

definition history_ok :: "request_row \<Rightarrow> request_event list \<Rightarrow> bool" where
  "history_ok r es \<longleftrightarrow> es \<noteq> [] \<and> opens_request r (hd es) \<and> successively (moves r) es"

definition invitation_key :: "request_row \<Rightarrow> string \<times> string \<times> int \<times> string" where
  "invitation_key r = (rq_problem r, rq_claim r, rq_claim_version r, rq_reviewer r)"

definition requests_ok :: "('c, 'p) request_db \<Rightarrow> bool" where
  "requests_ok db \<longleftrightarrow>
     distinct (map rq_id (request_rows db)) \<and> distinct (map invitation_key (request_rows db)) \<and>
     distinct (map (\<lambda>x. (rp_fellow x, rp_key x)) (replay_rows db)) \<and>
     (\<forall>e \<in> set (request_events db). \<exists>r \<in> set (request_rows db). rq_id r = re_request e) \<and>
     (\<forall>r \<in> set (request_rows db). rq_author r \<noteq> rq_reviewer r \<and> history_ok r (events_of db (rq_id r)))"

lemmas time_defs = review_offer_ms_def review_accepted_ms_def

lemma moves_facts:
  assumes "moves r p e"
  shows "re_version e = re_version p + 1" and "re_action p = Offer \<or> re_action p = Respond Accept"
    and "re_action e \<noteq> Offer" and "re_action e = Respond Accept \<Longrightarrow> re_action p = Offer"
    and "re_action e = Respond Accept \<Longrightarrow> re_at e < re_expires p"
    and "re_at p \<le> re_at e" and "safe_integer (re_expires e)"
    and "re_action e = Respond Complete \<Longrightarrow> re_action p = Respond Accept"
proof -
  obtain x side where m: "re_action e = Respond x"
    "transition_review_request (request_state_of p) x (re_version p) side (re_at e) = Inr (request_state_of e)"
    using assms by (auto simp: moves_def)
  have t: "response_allowed (request_state_of p) x side (re_at e)" "re_version e = re_version p + 1"
    "re_at p \<le> re_at e" "safe_integer (re_expires e)"
    using m(2) by (auto simp: transition_review_request_def request_state_of_def Let_def split: if_splits)
  have s: "status_of (re_action p) = Offered \<longleftrightarrow> re_action p = Offer"
    "status_of (re_action p) = Accepted \<longleftrightarrow> re_action p = Respond Accept"
    by (cases "re_action p"; simp; cases "case re_action p of Respond y \<Rightarrow> y"; simp)+
  from t m(1) s show "re_version e = re_version p + 1" "re_action p = Offer \<or> re_action p = Respond Accept"
    "re_action e \<noteq> Offer" "re_action e = Respond Accept \<Longrightarrow> re_action p = Offer"
    "re_action e = Respond Accept \<Longrightarrow> re_at e < re_expires p" "re_at p \<le> re_at e" "safe_integer (re_expires e)"
    "re_action e = Respond Complete \<Longrightarrow> re_action p = Respond Accept"
    by (auto simp: response_allowed_def still_open_def request_state_of_def split: if_splits)
qed

text \<open>An offer, an acceptance and one final answer: no history is longer.\<close>

lemma history_short:
  assumes "history_ok r es"
  shows "length es \<le> 3"
proof (rule ccontr)
  assume "\<not> length es \<le> 3"
  then obtain a b c d rest where es: "es = a # b # c # d # rest"
    by (auto simp: not_le numeral_3_eq_3 Suc_less_eq2 length_Suc_conv dest!: Suc_leI elim!: list_all2_lengthD) (metis Suc_le_length_iff)
  with assms have "moves r a b" "moves r b c" "moves r c d" by (auto simp: history_ok_def)
  from this(2,3) this(1) show False using moves_facts [of r a b] moves_facts [of r b c] moves_facts [of r c d] by auto
qed

lemma history_versions:
  assumes "history_ok r es"
  shows "map re_version es = map int [1..<Suc (length es)]"
  using assms
proof (induction es rule: rev_induct)
  case (snoc e es)
  show ?case
  proof (cases "es = []")
    case True
    with snoc.prems show ?thesis by (simp add: history_ok_def opens_request_def)
  next
    case False
    with snoc.prems have h: "history_ok r es" "moves r (last es) e"
      by (auto simp: history_ok_def successively_append_iff)
    have "re_version (last es) = int (length es)"
      using arg_cong [OF snoc.IH [OF h(1)], of last] False by (simp add: last_map Suc_le_eq)
    with snoc.IH [OF h(1)] moves_facts(1) [OF h(2)] show ?thesis by simp
  qed
qed (simp add: history_ok_def)

lemma history_last:
  assumes "history_ok r es"
  shows "find (\<lambda>e. re_version e = Max (set (map re_version es))) es = Some (last es)" and "es \<noteq> []"
proof -
  show ne: "es \<noteq> []" using assms by (simp add: history_ok_def)
  have v: "map re_version es = map int [1..<Suc (length es)]" using history_versions [OF assms] .
  then have d: "distinct (map re_version es)" by (simp add: distinct_map)
  have l: "re_version (last es) = int (length es)" using arg_cong [OF v, of last] ne by (simp add: last_map Suc_le_eq)
  have "set (map re_version es) = int ` {1..length es}" unfolding v by auto
  then have m: "Max (set (map re_version es)) = int (length es)"
    using ne by (subst Max_eq_iff) (auto simp: Suc_le_eq)
  obtain e where e: "find (\<lambda>e. re_version e = int (length es)) es = Some e"
    using l ne last_in_set by (cases "find (\<lambda>e. re_version e = int (length es)) es") (force simp: find_None_iff)+
  then have "e \<in> set es" "re_version e = re_version (last es)"
    using l by (auto simp: find_Some_iff)
  with d ne have "e = last es" by (metis distinct_map inj_on_contraD last_in_set)
  with e m show "find (\<lambda>e. re_version e = Max (set (map re_version es))) es = Some (last es)" by simp
qed

lemma last_of_request:
  assumes "requests_ok db" and "r \<in> set (request_rows db)"
  shows "last_event db (rq_id r) = Some (last (events_of db (rq_id r)))"
  using assms history_last [of r "events_of db (rq_id r)"] by (simp add: requests_ok_def last_event_def)

lemma unique_request:
  assumes "requests_ok db" and "r \<in> set (request_rows db)" and "s \<in> set (request_rows db)" and "rq_id r = rq_id s"
  shows "r = s"
proof -
  have "inj_on rq_id (set (request_rows db))" using assms(1) by (simp add: requests_ok_def distinct_map)
  with assms(2-4) show ?thesis by (auto dest: inj_onD)
qed

subsection \<open>The trigger and the state machine\<close>

lemma status_cases:
  "status_of a = Offered \<longleftrightarrow> a = Offer" "status_of a = Accepted \<longleftrightarrow> a = Respond Accept"
  by (cases a; simp; cases "case a of Respond y \<Rightarrow> y"; simp)+

lemma response_clause_iff:
  assumes ne: "rq_author r \<noteq> rq_reviewer r" and x: "re_action e = Respond x"
    and v: "re_version p < max_safe_integer" and at: "safe_integer (re_at e)" and ex: "safe_integer (re_expires p)"
    and acc: "x = Accept \<Longrightarrow> safe_integer (re_at e + review_accepted_ms)"
  shows "re_version p = re_version e - 1 \<and> response_clause w q r p e \<longleftrightarrow>
    (\<exists>side. re_actor e = side_fellow r side \<and>
       transition_review_request (request_state_of p) x (re_version e - 1) side (re_at e) = Inr (request_state_of e)) \<and>
    (x = Complete \<longrightarrow> (\<exists>z. re_review e = Some z \<and> review_evidence w q r z))"
    (is "?l \<longleftrightarrow> (\<exists>side. ?a side \<and> ?t side) \<and> ?c")
proof -
  have side: "(\<exists>side. ?a side \<and> ?t side) \<longleftrightarrow>
      re_actor e = rq_author r \<and> ?t AuthorSide \<or> re_actor e = rq_reviewer r \<and> ?t ReviewerSide"
    by (metis (full_types) participant.exhaust side_fellow_simps)
  have s: "status_of (Respond x) = status_after x" by simp
  have e: "request_state_of e = \<lparr>request_version = re_version e, request_status = status_after x,
      occurred_at = re_at e, expires_at = re_expires e\<rparr>" using x by (simp add: request_state_of_def)
  have p: "request_version (request_state_of p) = re_version p" "request_status (request_state_of p) = status_of (re_action p)"
    "occurred_at (request_state_of p) = re_at p" "expires_at (request_state_of p) = re_expires p"
    by (simp_all add: request_state_of_def)
  show ?thesis unfolding side e using v at ex acc ne x
    by (cases x) (simp_all add: response_clause_def transition_review_request_def response_allowed_def still_open_def
      p status_cases Let_def time_defs split: option.splits, (auto)[4])
qed

subsection \<open>One transaction\<close>

text \<open>Commands carry an instant of the clock whose deadlines are safe integers.\<close>

definition well_timed :: "request_command \<Rightarrow> bool" where
  "well_timed c \<longleftrightarrow> safe_integer (rc_updated (cm_receipt c)) \<and> safe_integer (rc_updated (cm_receipt c) + review_accepted_ms)"

definition kept_replays :: "request_command \<Rightarrow> ('c, 'p) request_db \<Rightarrow> 'c replay_row list" where
  "kept_replays c db = replay_rows (forget_expired_key (ac_fellow (cm_actor c)) (cm_key c) (rc_updated (cm_receipt c))
     (purge_replays (rc_updated (cm_receipt c)) db))"

definition with_offer :: "request_command \<Rightarrow> ('c, 'p) request_db \<Rightarrow> ('c, 'p) request_db" where
  "with_offer c db = (if cm_action c = Offer then db\<lparr>request_rows := request_rows db @ [row_of_offer c]\<rparr> else db)"

lemma event_of_command_simps [simp]:
  "re_request (event_of_command c) = rc_request (cm_receipt c)" "re_version (event_of_command c) = rc_version (cm_receipt c)"
  "re_action (event_of_command c) = cm_action c" "re_actor (event_of_command c) = ac_fellow (cm_actor c)"
  "re_at (event_of_command c) = rc_updated (cm_receipt c)" "re_expires (event_of_command c) = rc_expires (cm_receipt c)"
  "re_review (event_of_command c) = rc_review_event (cm_receipt c)" "re_event (event_of_command c) = cm_event c"
  by (simp_all add: event_of_command_def Let_def)

lemma with_offer_simps [simp]:
  "request_events (with_offer c db) = request_events db" "elsewhere (with_offer c db) = elsewhere db"
  "replay_rows (with_offer c db) = replay_rows db" "request_notices (with_offer c db) = request_notices db"
  "events_of (with_offer c db) i = events_of db i" "last_event (with_offer c db) i = last_event db i"
  by (simp_all add: with_offer_def events_of_def last_event_def)

lemma replay_frame [simp]:
  "request_rows (db\<lparr>replay_rows := x\<rparr>) = request_rows db" "events_of (db\<lparr>replay_rows := x\<rparr>) i = events_of db i"
  "last_event (db\<lparr>replay_rows := x\<rparr>) i = last_event db i"
  by (simp_all add: events_of_def last_event_def)

lemma replay_guard [simp]:
  "transition_accepted w (db\<lparr>replay_rows := x\<rparr>) e = transition_accepted w db e"
  "request_guard w (db\<lparr>replay_rows := x\<rparr>) c = request_guard w db c"
  "is_pending (db\<lparr>replay_rows := x\<rparr>) = is_pending db"
  by (simp_all add: transition_accepted_def offer_clause_def follows_previous_def request_guard_def offer_allowed_def
    recent_of_sponsor_def pending_for_def is_pending_def no_active_request_def fun_eq_iff cong: option.case_cong)

lemma cleared_shape:
  "forget_expired_key (ac_fellow (cm_actor c)) (cm_key c) (rc_updated (cm_receipt c))
     (purge_replays (rc_updated (cm_receipt c)) db) = db\<lparr>replay_rows := kept_replays c db\<rparr>"
  by (simp add: kept_replays_def forget_expired_key_def purge_replays_def Let_def)

lemma insert_event_SomeD:
  "insert_request_event w g e db = Some db' \<Longrightarrow> db' = db\<lparr>request_events := request_events db @ [e]\<rparr>"
  by (auto simp: insert_request_event_def split: if_splits)

lemma commit_batch_facts:
  assumes "commit_batch w c x db = Some db'"
  shows "request_rows db' = request_rows (with_offer c db)"
    and "request_events db' = request_events db @ [event_of_command c]"
    and "replay_rows db' = kept_replays c db @ [replay_of_command c x]"
    and "elsewhere db' = elsewhere db"
    and "(ac_fellow (cm_actor c), cm_key c) \<notin> set (map (\<lambda>y. (rp_fellow y, rp_key y)) (kept_replays c db))"
    and "transition_accepted w (with_offer c db) (event_of_command c)"
    and "request_guard w (with_offer c db) c"
    and "(cm_action c = Respond Complete) = (rc_review_event (cm_receipt c) \<noteq> None)"
    and "cm_action c = Offer \<Longrightarrow> rc_request (cm_receipt c) \<notin> rq_id ` set (request_rows db) \<and>
      invitation_key (row_of_offer c) \<notin> invitation_key ` set (request_rows db) \<and>
      rq_author (row_of_offer c) \<noteq> rq_reviewer (row_of_offer c)"
proof -
  let ?d = "db\<lparr>replay_rows := kept_replays c db\<rparr>"
  from assms obtain d1 d2 d3 where
    d: "(if cm_action c = Offer then insert_request w (row_of_offer c) ?d else Some ?d) = Some d1"
    "insert_request_event w (request_guard w d1 c) (event_of_command c) d1 = Some d2"
    "insert_request_notice w c d2 = Some d3"
    "insert_replay (replay_of_command c x)
       (acknowledge_requests (ac_fellow (cm_actor c)) (rc_request (cm_receipt c)) (rc_updated (cm_receipt c)) d3) = Some db'"
    unfolding commit_batch_def Let_def cleared_shape by (auto simp: bind_eq_Some_conv)
  have d1: "d1 = (with_offer c db)\<lparr>replay_rows := kept_replays c db\<rparr>"
    using d(1) by (auto simp: with_offer_def insert_request_def split: if_splits)
  have d2: "d2 = d1\<lparr>request_events := request_events db @ [event_of_command c]\<rparr>"
    using insert_event_SomeD [OF d(2)] d1 by simp
  have t: "transition_accepted w d1 (event_of_command c)" "request_guard w d1 c"
    "(cm_action c = Respond Complete) = (rc_review_event (cm_receipt c) \<noteq> None)"
    using d(2) by (auto simp: insert_request_event_def split: if_splits)
  from t d1 show "transition_accepted w (with_offer c db) (event_of_command c)" "request_guard w (with_offer c db) c"
    "(cm_action c = Respond Complete) = (rc_review_event (cm_receipt c) \<noteq> None)" by simp_all
  have d3: "request_rows d3 = request_rows d2 \<and> request_events d3 = request_events d2 \<and>
      replay_rows d3 = replay_rows d2 \<and> elsewhere d3 = elsewhere d2"
    using d(3) by (auto simp: insert_request_notice_def Let_def split: if_splits)
  have d4: "request_rows db' = request_rows d3 \<and> request_events db' = request_events d3 \<and>
      replay_rows db' = replay_rows d3 @ [replay_of_command c x] \<and> elsewhere db' = elsewhere d3"
    and fresh: "(ac_fellow (cm_actor c), cm_key c) \<notin> set (map (\<lambda>y. (rp_fellow y, rp_key y)) (replay_rows d3))"
    using d(4) by (auto simp: insert_replay_def acknowledge_requests_def replay_of_command_def list_ex_iff split: if_splits)
  from d1 d2 d3 d4 show "request_rows db' = request_rows (with_offer c db)"
    "request_events db' = request_events db @ [event_of_command c]"
    "replay_rows db' = kept_replays c db @ [replay_of_command c x]" "elsewhere db' = elsewhere db" by simp_all
  from fresh d1 d2 d3 show "(ac_fellow (cm_actor c), cm_key c) \<notin> set (map (\<lambda>y. (rp_fellow y, rp_key y)) (kept_replays c db))"
    by simp
  assume "cm_action c = Offer"
  with d(1) show "rc_request (cm_receipt c) \<notin> rq_id ` set (request_rows db) \<and>
      invitation_key (row_of_offer c) \<notin> invitation_key ` set (request_rows db) \<and>
      rq_author (row_of_offer c) \<noteq> rq_reviewer (row_of_offer c)"
    by (auto simp: insert_request_def list_ex_iff invitation_key_def row_of_offer_def Let_def split: if_splits)
qed


subsection \<open>Every transaction keeps the tables in order\<close>

lemma history_end:
  assumes "history_ok r es"
  shows "safe_integer (re_expires (last es))" and "re_version (last es) \<le> 3"
proof -
  have ne: "es \<noteq> []" using assms by (simp add: history_ok_def)
  have "re_version (last es) = int (length es)"
    using arg_cong [OF history_versions [OF assms], of last] ne by (simp add: last_map Suc_le_eq)
  with history_short [OF assms] show "re_version (last es) \<le> 3" by simp
  show "safe_integer (re_expires (last es))"
  proof (cases es rule: rev_cases)
    case (snoc xs e)
    with assms show ?thesis
      by (cases "xs = []") (auto simp: history_ok_def opens_request_def successively_append_iff dest: moves_facts(7))
  qed (use ne in simp)
qed

lemma kept_replays_filter: "\<exists>P. kept_replays c db = filter P (replay_rows db)"
  by (auto simp: kept_replays_def forget_expired_key_def purge_replays_def Let_def)

lemma events_after_commit:
  assumes "commit_batch w c x db = Some db'"
  shows "events_of db' i = events_of db i @ (if rc_request (cm_receipt c) = i then [event_of_command c] else [])"
  using commit_batch_facts(2) [OF assms] by (simp add: events_of_def)

lemma no_stray_events:
  assumes "requests_ok db" and "i \<notin> rq_id ` set (request_rows db)"
  shows "events_of db i = []"
  using assms unfolding requests_ok_def events_of_def filter_empty_conv by (metis imageI)

text \<open>An offer opens a new history; a response continues the one of its row.\<close>

lemma committed_offer:
  assumes b: "commit_batch w c x db = Some db'" and ok: "requests_ok db" and t: "well_timed c" and a: "cm_action c = Offer"
  shows "history_ok (row_of_offer c) (events_of db' (rc_request (cm_receipt c)))"
proof -
  let ?i = "rc_request (cm_receipt c)" and ?e = "event_of_command c"
  have f: "?i \<notin> rq_id ` set (request_rows db)" using commit_batch_facts(9) [OF b a] by simp
  then have none: "events_of db ?i = []" by (rule no_stray_events [OF ok])
  have rid: "rq_id (row_of_offer c) = ?i" by (simp add: row_of_offer_def Let_def)
  have rows: "request_rows (with_offer c db) = request_rows db @ [row_of_offer c]" by (simp add: with_offer_def a)
  have "offer_clause (with_offer c db) (row_of_offer c) ?e"
    using commit_batch_facts(6) [OF b] f none unfolding transition_accepted_def rows
    by (auto simp: list_ex_iff follows_previous_def last_event_def rid image_iff)
  moreover have "safe_integer (rc_updated (cm_receipt c) + 172800000)"
    using t by (auto simp: well_timed_def safe_integer_def time_defs abs_le_iff)
  ultimately have "opens_request (row_of_offer c) ?e"
    using commit_batch_facts(8) [OF b] a by (simp add: opens_request_def offer_clause_def time_defs)
  then show ?thesis using events_after_commit [OF b, of ?i] none by (simp add: history_ok_def)
qed

lemma committed_response:
  assumes b: "commit_batch w c x db = Some db'" and ok: "requests_ok db" and t: "well_timed c" and a: "cm_action c = Respond y"
  shows "\<exists>r \<in> set (request_rows db). rq_id r = rc_request (cm_receipt c) \<and>
    moves r (last (events_of db (rq_id r))) (event_of_command c)"
proof -
  let ?e = "event_of_command c"
  have "request_rows (with_offer c db) = request_rows db" by (simp add: with_offer_def a)
  then obtain r where r: "r \<in> set (request_rows db)" "rq_id r = rc_request (cm_receipt c)"
    and p: "follows_previous w (with_offer c db) r ?e"
    using commit_batch_facts(6) [OF b] a by (auto simp: transition_accepted_def list_ex_iff offer_clause_def)
  let ?p = "last (events_of db (rq_id r))"
  have h: "history_ok r (events_of db (rq_id r))" "rq_author r \<noteq> rq_reviewer r" 
    using ok r(1) by (simp_all add: requests_ok_def)
  have l: "re_version ?p = re_version ?e - 1 \<and> response_clause w (elsewhere db) r ?p ?e"
    using p last_of_request [OF ok r(1)] by (simp add: follows_previous_def)
  have v: "re_version ?p < max_safe_integer" using history_end(2) [OF h(1)] by (simp add: max_safe_integer_def)
  from l response_clause_iff [OF h(2), of ?e y ?p w "elsewhere db"] history_end(1) [OF h(1)] a t v
  obtain side where "re_actor ?e = side_fellow r side"
    "transition_review_request (request_state_of ?p) y (re_version ?e - 1) side (re_at ?e) = Inr (request_state_of ?e)"
    by (auto simp: well_timed_def)
  moreover have "re_version ?e - 1 = re_version ?p" using l by simp
  ultimately have "moves r ?p ?e" using commit_batch_facts(8) [OF b] a by (auto simp: moves_def)
  with r show ?thesis by blast
qed

lemma history_grows:
  assumes "history_ok r es" and "moves r (last es) e"
  shows "history_ok r (es @ [e])"
  using assms by (auto simp: history_ok_def successively_append_iff hd_append)

lemma row_of_offer_id [simp]: "rq_id (row_of_offer c) = rc_request (cm_receipt c)"
  by (simp add: row_of_offer_def Let_def)

lemma commit_keeps_histories:
  assumes b: "commit_batch w c x db = Some db'" and ok: "requests_ok db" and t: "well_timed c"
    and r: "r \<in> set (request_rows db')"
  shows "rq_author r \<noteq> rq_reviewer r \<and> history_ok r (events_of db' (rq_id r))"
proof (cases "r \<in> set (request_rows db)")
  case True
  then have h: "history_ok r (events_of db (rq_id r))" "rq_author r \<noteq> rq_reviewer r" using ok by (simp_all add: requests_ok_def)
  show ?thesis
  proof (cases "rc_request (cm_receipt c) = rq_id r")
    case same: True
    then obtain y where a: "cm_action c = Respond y"
      using commit_batch_facts(9) [OF b] True by (cases "cm_action c") auto
    obtain s where s: "s \<in> set (request_rows db)" "rq_id s = rq_id r"
      "moves s (last (events_of db (rq_id s))) (event_of_command c)"
      using committed_response [OF b ok t a] same by auto
    have "s = r" by (rule unique_request [OF ok s(1) True s(2)])
    with s(3) h same show ?thesis using history_grows by (simp add: events_after_commit [OF b])
  qed (use h in \<open>simp add: events_after_commit [OF b]\<close>)
next
  case False
  then have a: "cm_action c = Offer" "r = row_of_offer c"
    using r commit_batch_facts(1) [OF b] by (auto simp: with_offer_def split: if_splits)
  then show ?thesis using committed_offer [OF b ok t a(1)] commit_batch_facts(9) [OF b a(1)] by simp
qed

lemma commit_keeps_order:
  assumes b: "commit_batch w c x db = Some db'" and ok: "requests_ok db" and t: "well_timed c"
  shows "requests_ok db'"
proof -
  note f = commit_batch_facts [OF b]
  have rows: "set (request_rows db) \<subseteq> set (request_rows db')" using f(1) by (auto simp: with_offer_def)
  have "rc_request (cm_receipt c) \<in> rq_id ` set (request_rows db')"
  proof (cases "cm_action c")
    case (Respond y)
    then show ?thesis using committed_response [OF b ok t Respond] rows by (metis imageI subsetD)
  qed (use f(1) in \<open>auto simp: with_offer_def\<close>)
  with f(2) rows ok have e: "\<forall>e \<in> set (request_events db'). \<exists>r \<in> set (request_rows db'). rq_id r = re_request e"
    unfolding requests_ok_def by (fastforce simp: image_iff)
  have d: "distinct (map rq_id (request_rows db'))" "distinct (map invitation_key (request_rows db'))"
    using ok f(1) f(9) by (auto simp: requests_ok_def with_offer_def split: if_splits)
  obtain P where "kept_replays c db = filter P (replay_rows db)" using kept_replays_filter by blast
  with ok f(3,5) have "distinct (map (\<lambda>x. (rp_fellow x, rp_key x)) (replay_rows db'))"
    by (auto simp: requests_ok_def distinct_map_filter replay_of_command_def)
  with d e commit_keeps_histories [OF b ok t] show ?thesis by (simp add: requests_ok_def)
qed

lemma others_keep_order: "requests_ok (db\<lparr>request_notices := ns, elsewhere := q\<rparr>) = requests_ok db"
  by (simp add: requests_ok_def events_of_def)

subsection \<open>Every history of the tables\<close>

text \<open>
  A state is the latest instant of any clock so far and the tables. A step is a committed
  transaction of a well-timed command, whose instant was read before and may lie before those of
  transactions that committed earlier, or a change of the inbox or of other tables.
\<close>

inductive request_step :: "'p guard_reads \<Rightarrow> int \<times> ('c, 'p) request_db \<Rightarrow> int \<times> ('c, 'p) request_db \<Rightarrow> bool" for w where
  committed: "commit_batch w c x db = Some db' \<Longrightarrow> well_timed c \<Longrightarrow>
    request_step w (u, db) (max u (rc_updated (cm_receipt c)), db')"
| others: "u \<le> v \<Longrightarrow> request_step w (u, db) (v, db\<lparr>request_notices := ns, elsewhere := q\<rparr>)"

inductive_cases request_stepE: "request_step w s t"

text \<open>
  The events are stored in the order of their commits. No acceptance was overtaken if the instant
  of each is not before that of any event that committed before it.
\<close>

definition none_overtaken :: "request_event list \<Rightarrow> bool" where
  "none_overtaken es \<longleftrightarrow> (\<forall>k < length es. re_action (es ! k) = Respond Accept \<longrightarrow>
     list_all (\<lambda>e. re_at e \<le> re_at (es ! k)) (take k es))"

lemma none_overtaken_simps [simp]:
  "none_overtaken []"
  "none_overtaken (es @ [e]) \<longleftrightarrow> none_overtaken es \<and>
     (re_action e = Respond Accept \<longrightarrow> (\<forall>x \<in> set es. re_at x \<le> re_at e))"
  by (auto simp: none_overtaken_def list_all_iff nth_append less_Suc_eq)

text \<open>Then the pending invitations of a reviewer are few, from the latest instant of an event on.\<close>

definition within_capacity :: "('c, 'p) request_db \<Rightarrow> bool" where
  "within_capacity db \<longleftrightarrow> (none_overtaken (request_events db) \<longrightarrow>
     (\<forall>f t. (\<forall>e \<in> set (request_events db). re_at e \<le> t) \<longrightarrow> length (pending_for db f t) \<le> review_request_capacity))"

definition requests_inv :: "int \<times> ('c, 'p) request_db \<Rightarrow> bool" where
  "requests_inv s \<longleftrightarrow> requests_ok (snd s) \<and> within_capacity (snd s)"

lemma others_frame [simp]:
  "pending_for (db\<lparr>request_notices := ns, elsewhere := q\<rparr>) f t = pending_for db f t"
  by (simp add: pending_for_def is_pending_def last_event_def events_of_def)

lemma pending_fades: "u \<le> t \<Longrightarrow> is_pending db t r \<Longrightarrow> is_pending db u r"
  by (auto simp: is_pending_def open_until_def split: option.splits)

lemma pending_cong: "last_event db (rq_id r) = last_event db' (rq_id r) \<Longrightarrow> is_pending db t r = is_pending db' t r"
  by (simp add: is_pending_def)

lemma last_event_commit:
  assumes "commit_batch w c x db = Some db'" and "i \<noteq> rc_request (cm_receipt c)"
  shows "last_event db' i = last_event db i"
  using assms by (simp add: last_event_def events_after_commit)

text \<open>
  A response makes no invitation pending that was not pending at its instant, and one that is no
  acceptance makes none pending at all.
\<close>

lemma response_pending:
  assumes b: "commit_batch w c x db = Some db'" and ok: "requests_ok db" and t: "well_timed c" and a: "cm_action c = Respond y"
    and u: "rc_updated (cm_receipt c) \<le> u" and r: "r \<in> set (request_rows db)" and p: "is_pending db' u r"
  shows "is_pending db (rc_updated (cm_receipt c)) r"
proof (cases "rq_id r = rc_request (cm_receipt c)")
  case True
  obtain s where s: "s \<in> set (request_rows db)" "rq_id s = rq_id r"
    "moves s (last (events_of db (rq_id s))) (event_of_command c)"
    using committed_response [OF b ok t a] True by auto
  have sr: "s = r" by (rule unique_request [OF ok s(1) r s(2)])
  have "r \<in> set (request_rows db')" using r commit_batch_facts(1) [OF b] by (simp add: with_offer_def a)
  then have "last_event db' (rq_id r) = Some (event_of_command c)"
    using last_of_request [OF commit_keeps_order [OF b ok t], of r] by (simp add: events_after_commit [OF b] True)
  then have "cm_action c = Respond Accept" using p a by (simp add: is_pending_def open_until_def)
  then show ?thesis using last_of_request [OF ok r] moves_facts(4,5) [OF s(3)] sr
    by (simp add: is_pending_def open_until_def)
next
  case False
  then have "is_pending db u r" using p pending_cong [OF last_event_commit [OF b False]] by simp
  then show ?thesis using u pending_fades by blast
qed

lemma answer_pending:
  assumes b: "commit_batch w c x db = Some db'" and ok: "requests_ok db" and t: "well_timed c"
    and a: "cm_action c = Respond y" "y \<noteq> Accept" and r: "r \<in> set (request_rows db)" and p: "is_pending db' u r"
  shows "is_pending db u r"
proof (cases "rq_id r = rc_request (cm_receipt c)")
  case True
  have "r \<in> set (request_rows db')" using r commit_batch_facts(1) [OF b] by (simp add: with_offer_def a)
  then have "last_event db' (rq_id r) = Some (event_of_command c)"
    using last_of_request [OF commit_keeps_order [OF b ok t], of r] by (simp add: events_after_commit [OF b] True)
  then show ?thesis using p a by (simp add: is_pending_def open_until_def)
next
  case False
  then show ?thesis using p pending_cong [OF last_event_commit [OF b False]] by simp
qed

lemma response_keeps_capacity:
  assumes b: "commit_batch w c x db = Some db'" and ok: "requests_ok db" and t: "well_timed c" and a: "cm_action c = Respond y"
    and cap: "within_capacity db" and order: "none_overtaken (request_events db')"
    and u: "\<forall>e \<in> set (request_events db'). re_at e \<le> u"
  shows "length (pending_for db' f u) \<le> review_request_capacity"
proof -
  note events = commit_batch_facts(2) [OF b]
  define v where "v = (if y = Accept then rc_updated (cm_receipt c) else u)"
  have "is_pending db v r" if "r \<in> set (request_rows db)" "is_pending db' u r" for r
    using response_pending [OF b ok t a _ that] answer_pending [OF b ok t a _ that] u events
    by (auto simp: v_def split: if_splits)
  then have "length (pending_for db' f u) \<le> length (pending_for db f v)"
    unfolding pending_for_def commit_batch_facts(1) [OF b] with_offer_def by (simp add: a) (rule length_filter_imp, blast)
  moreover have "none_overtaken (request_events db)" "\<forall>e \<in> set (request_events db). re_at e \<le> v"
    using order u by (auto simp: events v_def a)
  ultimately show ?thesis using cap unfolding within_capacity_def by (meson le_trans)
qed

text \<open>At its own instant an offer finds fewer pending invitations than the capacity, and leaves no more.\<close>

lemma offer_keeps_capacity:
  assumes b: "commit_batch w c x db = Some db'" and ok: "requests_ok db" and a: "cm_action c = Offer"
    and u: "rc_updated (cm_receipt c) \<le> u"
  shows "length (pending_for db' f u) \<le>
    (if f = rc_reviewer (cm_receipt c) then review_request_capacity else length (pending_for db f u))"
proof -
  let ?r = "row_of_offer c" and ?v = "rc_updated (cm_receipt c)"
  note new = commit_batch_facts(9) [OF b a]
  have same: "is_pending db' u r = is_pending db u r" if "r \<in> set (request_rows db)" for r
  proof -
    have "rq_id r \<noteq> rc_request (cm_receipt c)" using new that by (metis imageI)
    then show ?thesis using pending_cong [OF last_event_commit [OF b]] by blast
  qed
  have rows: "request_rows (with_offer c db) = request_rows db @ [?r]" by (simp add: with_offer_def a)
  have old: "filter (\<lambda>r. rq_reviewer r = f \<and> is_pending db' u r) (request_rows db) = pending_for db f u"
    unfolding pending_for_def using same by (intro filter_cong) auto
  have "length (pending_for db g u) \<le> length (pending_for db g ?v)" for g
    unfolding pending_for_def using u pending_fades by (intro length_filter_imp) blast
  moreover have "\<not> is_pending (with_offer c db) ?v ?r"
    using no_stray_events [OF ok] new by (simp add: is_pending_def last_event_def)
  then have "pending_for (with_offer c db) g ?v = pending_for db g ?v" for g
    unfolding pending_for_def rows by (simp add: is_pending_def)
  moreover have reviewer: "rc_reviewer (cm_receipt c) = rq_reviewer ?r" by (simp add: row_of_offer_def Let_def)
  moreover have "offer_allowed w (with_offer c db) c" using commit_batch_facts(7) [OF b] a by (simp add: request_guard_def)
  ultimately have "length (pending_for db (rq_reviewer ?r) u) < review_request_capacity"
    by (metis (no_types, lifting) offer_allowed_def le_less_trans)
  then show ?thesis
    unfolding reviewer pending_for_def [of db'] commit_batch_facts(1) [OF b] rows filter_append old by auto
qed

lemma commit_keeps_capacity:
  assumes b: "commit_batch w c x db = Some db'" and ok: "requests_ok db" and t: "well_timed c" and cap: "within_capacity db"
  shows "within_capacity db'"
  unfolding within_capacity_def
proof (intro impI allI)
  fix f u assume order: "none_overtaken (request_events db')" and u: "\<forall>e \<in> set (request_events db'). re_at e \<le> u"
  show "length (pending_for db' f u) \<le> review_request_capacity"
  proof (cases "cm_action c")
    case Offer
    have o: "none_overtaken (request_events db)" "\<forall>e \<in> set (request_events db). re_at e \<le> u" "rc_updated (cm_receipt c) \<le> u"
      using order u by (auto simp: commit_batch_facts(2) [OF b])
    then have "length (pending_for db f u) \<le> review_request_capacity" using cap by (simp add: within_capacity_def)
    with offer_keeps_capacity [OF b ok Offer o(3), of f] show ?thesis by (simp split: if_splits)
  qed (rule response_keeps_capacity [OF b ok t _ cap order u])
qed

lemma request_step_inv: "request_step w s t \<Longrightarrow> requests_inv s \<Longrightarrow> requests_inv t"
proof (induction rule: request_step.induct)
  case (committed c x db db' u)
  then show ?case using commit_keeps_order commit_keeps_capacity by (fastforce simp: requests_inv_def)
next
  case (others u v db ns q)
  then show ?case by (auto simp: requests_inv_def within_capacity_def others_keep_order)
qed

text \<open>What every later state keeps: the rows and events, in order, and the replies that have not expired.\<close>

definition later_tables :: "int \<times> ('c, 'p) request_db \<Rightarrow> int \<times> ('c, 'p) request_db \<Rightarrow> bool" where
  "later_tables s t \<longleftrightarrow> fst s \<le> fst t \<and> prefix (request_rows (snd s)) (request_rows (snd t)) \<and>
     prefix (request_events (snd s)) (request_events (snd t)) \<and>
     (\<forall>x \<in> set (replay_rows (snd s)). fst t < rp_expires x \<longrightarrow> x \<in> set (replay_rows (snd t)))"

lemma live_reply_kept:
  assumes ok: "requests_ok db" and x: "x \<in> set (replay_rows db)" and live: "rc_updated (cm_receipt c) < rp_expires x"
  shows "x \<in> set (kept_replays c db)"
proof -
  have inj: "inj_on (\<lambda>x. (rp_fellow x, rp_key x)) (set (replay_rows db))"
    using ok by (simp add: requests_ok_def distinct_map)
  let ?d = "take 100 (sort_key rp_expires (filter (\<lambda>y. rp_expires y \<le> rc_updated (cm_receipt c)) (replay_rows db)))"
  have d: "y \<in> set (replay_rows db) \<and> rp_expires y \<le> rc_updated (cm_receipt c)" if "y \<in> set ?d" for y
    using in_set_takeD [OF that] by simp
  have "(rp_fellow x, rp_key x) \<notin> (\<lambda>y. (rp_fellow y, rp_key y)) ` set ?d"
  proof
    assume "(rp_fellow x, rp_key x) \<in> (\<lambda>y. (rp_fellow y, rp_key y)) ` set ?d"
    then obtain y where y: "y \<in> set ?d" "(rp_fellow x, rp_key x) = (rp_fellow y, rp_key y)" by blast
    with inj_onD [OF inj y(2) x] d [OF y(1)] live show False by simp
  qed
  with x live show ?thesis
    by (auto simp: kept_replays_def forget_expired_key_def purge_replays_def Let_def)
qed

lemma request_step_later: "request_step w s t \<Longrightarrow> requests_inv s \<Longrightarrow> later_tables s t"
proof (induction rule: request_step.induct)
  case (committed c x db db' u)
  note f = commit_batch_facts [OF committed(1)]
  have "\<forall>y \<in> set (replay_rows db). rc_updated (cm_receipt c) < rp_expires y \<longrightarrow> y \<in> set (replay_rows db')"
    using committed.prems live_reply_kept [of db] by (simp add: f(3) requests_inv_def)
  with committed.hyps f(1,2) show ?case by (simp add: later_tables_def with_offer_def)
qed (simp add: later_tables_def)

interpretation invitations: growing_steps "request_step w" requests_inv later_tables for w
proof unfold_locales
  show "later_tables s u" if "later_tables s t" "later_tables t u" for s t u :: "int \<times> ('c, 'p) request_db"
    using that unfolding later_tables_def by (auto intro: prefix_order.trans)
  show "later_tables s s" for s :: "int \<times> ('c, 'p) request_db" by (simp add: later_tables_def)
qed (rule request_step_inv request_step_later; assumption)+

definition empty_requests :: "'p \<Rightarrow> ('c, 'p) request_db" where
  "empty_requests q = \<lparr>request_rows = [], request_events = [], replay_rows = [], request_notices = [], elsewhere = q\<rparr>"

lemma empty_requests_inv: "requests_inv (t, empty_requests q)"
  by (simp add: requests_inv_def requests_ok_def within_capacity_def empty_requests_def pending_for_def)

lemma reached_requests: "(request_step w)\<^sup>*\<^sup>* (t, empty_requests q) s \<Longrightarrow> requests_inv s"
  by (rule invitations.runs_keep [OF _ empty_requests_inv])

subsection \<open>Settled keys\<close>

lemma replay_of_row:
  assumes "requests_ok db" and x: "x \<in> set (replay_rows db)" and "now < rp_expires x"
  shows "find (\<lambda>y. rp_fellow y = rp_fellow x \<and> rp_key y = rp_key x \<and> rp_expires y > now) (replay_rows db) = Some x"
proof (cases "find (\<lambda>y. rp_fellow y = rp_fellow x \<and> rp_key y = rp_key x \<and> rp_expires y > now) (replay_rows db)")
  case None
  with assms show ?thesis by (auto simp: find_None_iff)
next
  case (Some y)
  then have "y \<in> set (replay_rows db)" "(rp_fellow y, rp_key y) = (rp_fellow x, rp_key x)"
    by (auto simp: find_Some_iff)
  moreover have "inj_on (\<lambda>x. (rp_fellow x, rp_key x)) (set (replay_rows db))"
    using assms(1) by (simp add: requests_ok_def distinct_map)
  ultimately have "y = x" using x by (auto dest: inj_onD)
  with Some show ?thesis by simp
qed

text \<open>The reply of a committed transaction is read back from every later state, until it expires.\<close>

lemma settled_reply:
  assumes b: "commit_batch w c x db = Some db'" and inv: "requests_inv (u, db)" and c: "well_timed c"
    and run: "(request_step w)\<^sup>*\<^sup>* (rc_updated (cm_receipt c), db') (v, later)"
    and t: "now < rc_updated (cm_receipt c) + 86400000" and v: "v < rc_updated (cm_receipt c) + 86400000"
    and seal: "open_reply p (replay_context (ac_fellow (cm_actor c)) (cm_key c)) x = Some (cm_receipt c)"
  shows "request_replay p later (ac_fellow (cm_actor c)) (cm_key c) digest now =
    (if digest = cm_digest c then Inr (Some (cm_receipt c)) else Inl ReplayConflict)"
proof -
  have inv': "requests_inv (rc_updated (cm_receipt c), db')" using request_step_inv [OF committed [OF b c] inv] by (simp add: requests_inv_def)
  let ?x = "replay_of_command c x"
  have x: "rp_fellow ?x = ac_fellow (cm_actor c)" "rp_key ?x = cm_key c" "rp_digest ?x = cm_digest c" "rp_sealed ?x = x"
    "rp_expires ?x = rc_updated (cm_receipt c) + 86400000" by (simp_all add: replay_of_command_def)
  have "?x \<in> set (replay_rows db')" by (simp add: commit_batch_facts(3) [OF b])
  then have "?x \<in> set (replay_rows later)"
    using invitations.runs_grow [OF run inv'] v x(5) by (simp add: later_tables_def)
  moreover have "requests_ok later" using invitations.runs_keep [OF run inv'] by (simp add: requests_inv_def)
  ultimately have "find (\<lambda>y. rp_fellow y = ac_fellow (cm_actor c) \<and> rp_key y = cm_key c \<and> rp_expires y > now)
      (replay_rows later) = Some ?x" using replay_of_row [of later ?x now] t x by simp
  with seal x show ?thesis by (simp add: request_replay_def)
qed

end
