(* ===== verification/ReviewProperties.thy ===== *)
theory ReviewProperties
  imports ReviewLaws
begin

section \<open>Review invitations: properties\<close>

text \<open>
  The properties of the invitation tables in every state that the transactions reach, with the
  runs on which they are applied: one invitation offered, accepted and completed.
\<close>

subsection \<open>A run\<close>

definition open_reads :: "unit guard_reads" where
  "open_reads = \<lparr>request_references = \<lambda>_ _. True, event_references = \<lambda>_ _. True, review_evidence = \<lambda>_ _ _. True,
     author_sponsor_of = \<lambda>_ f. Some (if f = ''F-A'' then ''S-A'' else ''S-R''),
     authority_of = \<lambda>_ _. True, content_readable = \<lambda>_ _. True, recipient_eligible = \<lambda>_ _. True,
     already_reviewed = \<lambda>_ _. False, match_recipient = \<lambda>_ _. True, notice_references = \<lambda>_ _. True\<rparr>"

definition sample_protector :: "(string \<times> request_receipt) protector" where
  "sample_protector = \<lparr>seal_reply = \<lambda>c r. Some (c, r), open_reply = \<lambda>c x. if fst x = c then Some (snd x) else None\<rparr>"

definition offered_receipt :: request_receipt where
  "offered_receipt = \<lparr>rc_request = ''RR-1'', rc_problem = ''P-1'', rc_claim = ''C-1'', rc_claim_version = 1,
     rc_claim_event = ''E-1'', rc_claim_sha = ''ab'', rc_author = ''F-A'', rc_reviewer = ''F-R'', rc_version = 1,
     rc_status = Offered, rc_created = 1000, rc_updated = 1000, rc_expires = 172801000, rc_review_event = None\<rparr>"

definition accepted_receipt :: request_receipt where
  "accepted_receipt = offered_receipt\<lparr>rc_version := 2, rc_status := Accepted, rc_updated := 2000, rc_expires := 604802000\<rparr>"

definition offer_command :: request_command where
  "offer_command = \<lparr>cm_receipt = offered_receipt,
     cm_actor = \<lparr>ac_fellow = ''F-A'', ac_sponsor = ''S-A'', ac_credential = ''c'', ac_token_hash = ''h''\<rparr>,
     cm_role = ContributorRole, cm_action = Offer, cm_scope = PromoteScope, cm_cursor = 1,
     cm_author_sponsor = ''S-A'', cm_reviewer_sponsor = ''S-R'', cm_pins = [], cm_key = ''k'', cm_digest = ''d'',
     cm_event = ''RRE-1'', cm_match = None\<rparr>"

definition accept_command :: request_command where
  "accept_command = offer_command\<lparr>cm_receipt := accepted_receipt,
     cm_actor := \<lparr>ac_fellow = ''F-R'', ac_sponsor = ''S-R'', ac_credential = ''c'', ac_token_hash = ''h''\<rparr>,
     cm_action := Respond Accept, cm_scope := ReviewScope, cm_event := ''RRE-2''\<rparr>"

lemmas sample_commands = offered_receipt_def accepted_receipt_def offer_command_def accept_command_def open_reads_def

lemmas batch_rules = commit_batch_def Let_def purge_replays_def forget_expired_key_def insert_request_def
  insert_request_event_def transition_accepted_def offer_clause_def follows_previous_def response_clause_def
  events_of_def last_event_def request_guard_def action_allowed_def offer_allowed_def recent_of_sponsor_def
  pending_for_def is_pending_def open_until_def row_of_offer_def event_of_command_def insert_request_notice_def
  request_notice_of_def next_request_seq_def notice_recipient_def insert_replay_def acknowledge_requests_def
  replay_of_command_def review_request_daily_limit_def review_request_capacity_def

definition offered_db :: "(string \<times> request_receipt, unit) request_db" where
  "offered_db = the (commit_batch open_reads offer_command (replay_context ''F-A'' ''k'', offered_receipt) (empty_requests ()))"

definition accepted_db :: "(string \<times> request_receipt, unit) request_db" where
  "accepted_db = the (commit_batch open_reads accept_command (replay_context ''F-R'' ''k'', accepted_receipt) offered_db)"

lemma offer_commits:
  "commit_batch open_reads offer_command (replay_context ''F-A'' ''k'', offered_receipt) (empty_requests ()) = Some offered_db"
  unfolding offered_db_def by (simp add: batch_rules sample_commands empty_requests_def)

lemma accept_commits:
  "commit_batch open_reads accept_command (replay_context ''F-R'' ''k'', accepted_receipt) offered_db = Some accepted_db"
  unfolding accepted_db_def offered_db_def
  by (simp add: batch_rules sample_commands empty_requests_def)

lemma sample_times: "well_timed offer_command" "well_timed accept_command"
  "rc_updated (cm_receipt offer_command) = 1000" "rc_updated (cm_receipt accept_command) = 2000"
  by (simp_all add: well_timed_def safe_integer_def max_safe_integer_def time_defs sample_commands)

lemma sample_run:
  "(request_step open_reads)\<^sup>*\<^sup>* (0, empty_requests ()) (1000, offered_db)"
  "request_step open_reads (1000, offered_db) (2000, accepted_db)"
  "(request_step open_reads)\<^sup>*\<^sup>* (0, empty_requests ()) (2000, accepted_db)"
proof -
  have a: "request_step open_reads (0, empty_requests ()) (1000, offered_db)"
    using committed [OF offer_commits sample_times(1), of 0] by (simp add: sample_times max_def)
  show b: "request_step open_reads (1000, offered_db) (2000, accepted_db)"
    using committed [OF accept_commits sample_times(2), of 1000] by (simp add: sample_times max_def)
  show "(request_step open_reads)\<^sup>*\<^sup>* (0, empty_requests ()) (1000, offered_db)" using a by blast
  with b show "(request_step open_reads)\<^sup>*\<^sup>* (0, empty_requests ()) (2000, accepted_db)" by simp
qed

lemma sample_tables:
  "request_rows offered_db = [row_of_offer offer_command]" "request_events offered_db = [event_of_command offer_command]"
  "request_rows accepted_db = [row_of_offer offer_command]"
  "request_events accepted_db = [event_of_command offer_command, event_of_command accept_command]"
  using commit_batch_facts(1,2) [OF offer_commits] commit_batch_facts(1,2) [OF accept_commits]
  by (simp_all add: with_offer_def empty_requests_def) (simp_all add: sample_commands)

subsection \<open>The properties\<close>

text \<open>
  C23. The trigger of the event table accepts a response exactly when the state machine of
  model.ts computes its row from the last event of the request, for the participant the actor
  is, and, for a completion, the review it names exists. So the two implementations of the
  transition cannot disagree.
\<close>

theorem trigger_agrees_with_transition:
  assumes "(request_step w)\<^sup>*\<^sup>* (t, empty_requests q) (u, db)" and "r \<in> set (request_rows db)"
    and "re_request e = rq_id r" and "re_action e = Respond x"
    and "safe_integer (re_at e)" and "safe_integer (re_at e + review_accepted_ms)"
  shows "transition_accepted w db e \<longleftrightarrow>
    (\<exists>side. re_actor e = side_fellow r side \<and>
       transition_review_request (request_state_of (last (events_of db (rq_id r)))) x (re_version e - 1) side (re_at e) =
         Inr (request_state_of e)) \<and>
    (x = Complete \<longrightarrow> (\<exists>z. re_review e = Some z \<and> review_evidence w (elsewhere db) r z))"
proof -
  have ok: "requests_ok db" using reached_requests [OF assms(1)] by (simp add: requests_inv_def)
  let ?p = "last (events_of db (rq_id r))"
  have h: "history_ok r (events_of db (rq_id r))" "rq_author r \<noteq> rq_reviewer r"
    using ok assms(2) by (simp_all add: requests_ok_def)
  have "transition_accepted w db e \<longleftrightarrow> follows_previous w db r e"
    using assms(2-4) unique_request [OF ok] by (auto simp: transition_accepted_def list_ex_iff offer_clause_def)
  also have "\<dots> \<longleftrightarrow> re_version ?p = re_version e - 1 \<and> response_clause w (elsewhere db) r ?p e"
    by (simp add: follows_previous_def last_of_request [OF ok assms(2)])
  also have "re_version ?p < max_safe_integer" using history_end(2) [OF h(1)] by (simp add: max_safe_integer_def)
  note response_clause_iff [OF h(2) assms(4) this assms(5) history_end(1) [OF h(1)] assms(6)]
  finally show ?thesis .
qed

lemma trigger_agrees_with_transition_witness:
  "transition_accepted open_reads offered_db (event_of_command accept_command)"
proof (subst trigger_agrees_with_transition [OF sample_run(1), where r = "row_of_offer offer_command" and x = Accept])
  show "(\<exists>side. re_actor (event_of_command accept_command) = side_fellow (row_of_offer offer_command) side \<and>
      transition_review_request (request_state_of (last (events_of offered_db (rq_id (row_of_offer offer_command))))) Accept
        (re_version (event_of_command accept_command) - 1) side (re_at (event_of_command accept_command)) =
        Inr (request_state_of (event_of_command accept_command))) \<and>
    (Accept = Complete \<longrightarrow> (\<exists>z. re_review (event_of_command accept_command) = Some z \<and>
      review_evidence open_reads (elsewhere offered_db) (row_of_offer offer_command) z))"
    by (simp add: events_of_def sample_tables, intro exI [of _ ReviewerSide])
      (simp add: sample_commands row_of_offer_def Let_def transition_review_request_def
        request_state_of_def response_allowed_def safe_integer_def max_safe_integer_def time_defs)
qed (simp_all add: sample_tables sample_commands safe_integer_def max_safe_integer_def time_defs)

text \<open>
  C15. In every state that transactions reach, the events of an invitation are one offer by its
  author, with the deadline of an offer, and at most two further events, each of them the row
  that the state machine computes from the event before. Declined, cancelled and completed
  invitations therefore never move again.
\<close>

theorem invitation_history_is_a_run:
  assumes "(request_step w)\<^sup>*\<^sup>* (t, empty_requests q) (u, db)" and "r \<in> set (request_rows db)"
  shows "\<exists>e es. events_of db (rq_id r) = e # es \<and> opens_request r e \<and> length es \<le> 2 \<and>
    (\<forall>i < length es. moves r ((e # es) ! i) (es ! i))"
proof -
  have h: "history_ok r (events_of db (rq_id r))"
    using reached_requests [OF assms(1)] assms(2) by (simp add: requests_inv_def requests_ok_def)
  then obtain e es where e: "events_of db (rq_id r) = e # es" by (cases "events_of db (rq_id r)") (auto simp: history_ok_def)
  moreover have "length es \<le> 2" using history_short [OF h] e by simp
  moreover have "\<forall>i < length es. moves r ((e # es) ! i) (es ! i)"
    using h e by (auto simp: history_ok_def successively_conv_nth)
  ultimately show ?thesis using h by (auto simp: history_ok_def)
qed

lemma invitation_history_is_a_run_witness:
  "\<exists>e es. events_of accepted_db ''RR-1'' = e # es \<and> opens_request (row_of_offer offer_command) e \<and> length es \<le> 2 \<and>
     (\<forall>i < length es. moves (row_of_offer offer_command) ((e # es) ! i) (es ! i))"
  using invitation_history_is_a_run [OF sample_run(3), of "row_of_offer offer_command"]
  by (simp add: sample_tables) (simp add: sample_commands)

text \<open>
  C22. In every state that transactions of well-timed commands reach, in whatever order their instants
  are: no two invitations ask the same reviewer for the same version of a claim, whatever became of
  the first. An offer that commits leaves its reviewer with at most four pending
  invitations at its own instant and at any later one. And no reviewer has more than four, at the latest instant
  of an event and at any later one, as long as no acceptance was overtaken, that is, committed after an event
  of a later instant - which the code does not prevent, as an instant is read before the
  transaction.
\<close>

theorem invitations_within_limits:
  assumes "(request_step w)\<^sup>*\<^sup>* (t, empty_requests q) (u, db)"
  shows "distinct (map invitation_key (request_rows db)) \<and>
    (\<forall>c x db' v. cm_action c = Offer \<and> commit_batch w c x db = Some db' \<and> rc_updated (cm_receipt c) \<le> v \<longrightarrow>
       length (pending_for db' (rc_reviewer (cm_receipt c)) v) \<le> review_request_capacity) \<and>
    (none_overtaken (request_events db) \<longrightarrow>
       (\<forall>f v. (\<forall>e \<in> set (request_events db). re_at e \<le> v) \<longrightarrow> length (pending_for db f v) \<le> review_request_capacity))"
proof -
  have inv: "requests_ok db" "within_capacity db" using reached_requests [OF assms] by (simp_all add: requests_inv_def)
  have "length (pending_for db' (rc_reviewer (cm_receipt c)) v) \<le> review_request_capacity"
    if "cm_action c = Offer \<and> commit_batch w c x db = Some db' \<and> rc_updated (cm_receipt c) \<le> v" for c x db' v
    using offer_keeps_capacity [OF _ inv(1), of w c x db' v "rc_reviewer (cm_receipt c)"] that by simp
  moreover have "distinct (map invitation_key (request_rows db))" using inv(1) by (simp add: requests_ok_def)
  ultimately show ?thesis using inv(2) unfolding within_capacity_def by blast
qed

lemma invitations_within_limits_witness:
  "length (pending_for accepted_db ''F-R'' 2000) \<le> review_request_capacity \<and>
   length (pending_for accepted_db ''F-R'' 2000) = 1"
proof
  have "none_overtaken (request_events accepted_db)" "\<forall>e \<in> set (request_events accepted_db). re_at e \<le> 2000"
    by (simp_all add: sample_tables sample_times none_overtaken_simps(2) [of "[x]" for x, simplified]
        none_overtaken_simps(2) [of "[]", simplified])
  then show "length (pending_for accepted_db ''F-R'' 2000) \<le> review_request_capacity"
    using invitations_within_limits [OF sample_run(3)] by blast
  show "length (pending_for accepted_db ''F-R'' 2000) = 1"
    by (simp add: pending_for_def is_pending_def last_event_def events_of_def sample_tables)
      (simp add: sample_commands row_of_offer_def Let_def open_until_def)
qed

text \<open>
  Without that order the limit is passed: four offers expire as a fifth is made, then acceptances of
  the four commit whose instants were read a millisecond before their expiry.
\<close>

definition offer_of :: "char \<Rightarrow> int \<Rightarrow> request_command" where
  "offer_of c t = offer_command\<lparr>cm_receipt := offered_receipt\<lparr>rc_request := [c], rc_claim := [c], rc_created := t,
     rc_updated := t, rc_expires := t + 172800000\<rparr>, cm_key := [c], cm_event := ''O'' @ [c]\<rparr>"

definition accept_of :: "char \<Rightarrow> int \<Rightarrow> int \<Rightarrow> request_command" where
  "accept_of c s t = accept_command\<lparr>cm_receipt := accepted_receipt\<lparr>rc_request := [c], rc_claim := [c], rc_created := s,
     rc_updated := t, rc_expires := t + 604800000\<rparr>, cm_key := [c], cm_event := ''A'' @ [c]\<rparr>"

definition commit_all :: "request_command list \<Rightarrow> (unit, unit) request_db option" where
  "commit_all cs = foldl (\<lambda>s c. Option.bind s (commit_batch open_reads c ())) (Some (empty_requests ())) cs"

definition overtaken_commands :: "request_command list" where
  "overtaken_commands = map (\<lambda>c. offer_of c 1000) ''abcd'' @ [offer_of CHR ''e'' 172801000] @
     map (\<lambda>c. accept_of c 1000 172800999) ''abcd''"

lemma commit_all_runs:
  "commit_all cs = Some db \<Longrightarrow> list_all well_timed cs \<Longrightarrow> \<exists>u. (request_step open_reads)\<^sup>*\<^sup>* (0, empty_requests ()) (u, db)"
proof (induction cs arbitrary: db rule: rev_induct)
  case Nil
  then show ?case by (auto simp: commit_all_def)
next
  case (snoc c cs)
  then obtain d where d: "commit_all cs = Some d" "commit_batch open_reads c () d = Some db" "well_timed c"
    by (auto simp: commit_all_def bind_eq_Some_conv)
  then obtain u where "(request_step open_reads)\<^sup>*\<^sup>* (0, empty_requests ()) (u, d)" using snoc by auto
  with committed [OF d(2,3), of u] show ?case by (meson rtranclp.rtrancl_into_rtrancl)
qed

lemma overtaken_acceptances_pass_the_limit:
  "\<exists>u (db :: (unit, unit) request_db). (request_step open_reads)\<^sup>*\<^sup>* (0, empty_requests ()) (u, db) \<and>
     length (pending_for db ''F-R'' 172801000) = review_request_capacity + 1"
proof -
  have "map_option (\<lambda>db. length (pending_for db ''F-R'' 172801000)) (commit_all overtaken_commands) =
      Some (review_request_capacity + 1)" by code_simp
  then obtain db where db: "commit_all overtaken_commands = Some db"
    "length (pending_for db ''F-R'' 172801000) = review_request_capacity + 1" by auto
  have "list_all well_timed overtaken_commands"
    by (simp add: overtaken_commands_def offer_of_def accept_of_def well_timed_def safe_integer_def max_safe_integer_def time_defs)
  with db commit_all_runs show ?thesis by blast
qed

text \<open>
  C14. The receipt of a committed response or offer is not lost with its answer: the call whose
  answer went missing returns it, and so does every retry of the key for the same request within
  a day, with no second transaction, whatever other transactions ran meanwhile.
\<close>

theorem committed_receipt_is_recovered:
  assumes reached: "(request_step w)\<^sup>*\<^sup>* (t, empty_requests q) (u, while_sealing turn db)"
    and start: "request_replay p db (ac_fellow (cm_actor c)) (cm_key c) (cm_digest c) (rc_updated (cm_receipt c)) = Inr None"
    and seal: "seal_reply p (replay_context (ac_fellow (cm_actor c)) (cm_key c)) (cm_receipt c) = Some x"
      "open_reply p (replay_context (ac_fellow (cm_actor c)) (cm_key c)) x = Some (cm_receipt c)"
    and commit: "commit_batch w c x (while_sealing turn db) = Some db'"
    and c: "well_timed c" "cm_match c = None \<or> cm_action c = Offer"
    and meanwhile: "(request_step w)\<^sup>*\<^sup>* (rc_updated (cm_receipt c), db') (v, before_recovery turn db')"
      "v < rc_updated (cm_receipt c) + 86400000" and ran: "batch_delivery turn \<noteq> NeverRan"
    and retry: "(request_step w)\<^sup>*\<^sup>* (rc_updated (cm_receipt c), db') (v', later)"
      "v' < rc_updated (cm_receipt c) + 86400000" "rc_updated (cm_receipt d) < rc_updated (cm_receipt c) + 86400000"
      "ac_fellow (cm_actor d) = ac_fellow (cm_actor c)" "cm_key d = cm_key c" "cm_digest d = cm_digest c"
      "cm_match d = None \<or> cm_action d = Offer"
  shows "fst (commit_request w p c turn db) = Inr (cm_receipt c) \<and>
    commit_request w p d turn' later = (Inr (cm_receipt c), later)"
proof
  have inv: "requests_inv (u, while_sealing turn db)" by (rule reached_requests [OF reached])
  note settled = settled_reply [OF commit inv c(1) _ _ _ seal(2)]
  show "fst (commit_request w p c turn db) = Inr (cm_receipt c)"
    using start seal(1) commit c(2) ran settled [OF meanwhile(1) _ meanwhile(2), of "rc_updated (cm_receipt c)" "cm_digest c"]
    by (cases "batch_delivery turn") (auto simp: commit_request_def recover_reply_def Let_def)
  show "commit_request w p d turn' later = (Inr (cm_receipt c), later)"
    using settled [OF retry(1,3,2), of "cm_digest d"] retry(4-7) by (auto simp: commit_request_def Let_def)
qed

definition lossy_turn :: "(string \<times> request_receipt, unit) commit_round" where
  "lossy_turn = \<lparr>while_sealing = \<lambda>d. d, before_recovery = \<lambda>d. d, batch_delivery = ReplyLost\<rparr>"

lemma committed_receipt_is_recovered_witness:
  "fst (commit_request open_reads sample_protector offer_command lossy_turn (empty_requests ())) = Inr offered_receipt \<and>
   commit_request open_reads sample_protector offer_command lossy_turn accepted_db = (Inr offered_receipt, accepted_db)"
proof -
  have later: "(request_step open_reads)\<^sup>*\<^sup>* (1000, offered_db) (2000, accepted_db)" using sample_run(2) by blast
  have r: "cm_receipt offer_command = offered_receipt" "cm_action offer_command = Offer" by (simp_all add: offer_command_def)
  have f: "ac_fellow (cm_actor offer_command) = ''F-A''" "cm_key offer_command = ''k''" by (simp_all add: offer_command_def)
  show ?thesis
    using committed_receipt_is_recovered [where w = open_reads and t = 0 and q = "()" and u = 0 and turn = lossy_turn and
        db = "empty_requests ()" and p = sample_protector and c = offer_command and d = offer_command and
        x = "(replay_context ''F-A'' ''k'', offered_receipt)" and db' = offered_db and v = 1000 and v' = 2000 and
        later = accepted_db and turn' = lossy_turn] offer_commits later sample_times
    by (simp add: lossy_turn_def sample_protector_def request_replay_def empty_requests_def r f)
qed

end
