(* ===== verification/FellowPolicy.thy ===== *)
theory FellowPolicy
  imports Prelude
begin

section \<open>Central write authorization (\<open>enrollment/service.ts\<close>)\<close>

text \<open>
  The account states of a Fellow with their transitions, the resources of a grant, the
  credential binding, and the one function that decides an effectful write. An instant is its
  number of milliseconds. The reason of a refusal is for operators; callers see one face.
\<close>

datatype lifecycle_status = Pending | Active | Paused | Revoked | Archived | Compromised | SuspiciousReview
datatype requested_scope = Promote | Review | ProposeProblems | UploadArtifacts
datatype credential_profile = Bearer | Dpop | HttpMessageSignature
datatype membership_role = Observer | Contributor | Steward
datatype publication = Published | PrivateDraft

datatype write_effect = ScopedWrite requested_scope | WorkshopPush | SessionOpen | SessionClose | PublicationRetry

record resource_grants =
  problem_binding :: "string option"
  first_directive :: "string option"
  event_budget :: "int option"
  artifact_budget :: "int option"
  grant_expires :: "int option"

record credential_binding =
  cb_fellow :: string
  cb_credential :: string
  cb_sponsor :: string
  cb_name :: string
  cb_model :: string
  cb_harness :: string
  cb_scopes :: "requested_scope list"
  cb_resources :: resource_grants
  cb_token_hash :: string
  cb_issued :: int
  cb_expires :: int
  cb_last_used :: "int option"
  cb_revoked :: "int option"
  cb_profile :: credential_profile
  cb_status :: lifecycle_status

datatype write_target =
  ExistingProblem string publication bool "membership_role option" "string option"
| NewProblem publication bool
| SessionAdmission string
| SessionClosing string "membership_role option"

record grant_usage =
  events_recorded :: int
  artifact_bytes_recorded :: int

datatype refusal_reason =
  CredentialRevoked | CredentialNotYetValid | CredentialExpired | FellowStatusNotWritable | ScopeNotGranted
| GrantExpired | ProblemBindingMismatch | NotAMember | RoleNotPermitted | TargetNotWritable
| EventBudgetExhausted | ArtifactBudgetUnverifiable | ArtifactBudgetExhausted | SuspiciousReviewWriteBlocked

datatype write_evaluation = Allow | Quarantine | Refuse refusal_reason

subsection \<open>Account states\<close>

definition fellow_status_can_authenticate :: "lifecycle_status \<Rightarrow> bool" where
  "fellow_status_can_authenticate s \<longleftrightarrow> s = Active \<or> s = SuspiciousReview"

definition fellow_lifecycle_transition_allowed :: "lifecycle_status \<Rightarrow> lifecycle_status \<Rightarrow> bool" where
  "fellow_lifecycle_transition_allowed from_status to_status \<longleftrightarrow>
     from_status = Pending \<and> to_status = Active \<or>
     from_status = Active \<and> to_status \<in> {Paused, Revoked, Compromised, SuspiciousReview} \<or>
     from_status = Paused \<and> to_status \<in> {Active, Revoked, Compromised, SuspiciousReview} \<or>
     from_status = SuspiciousReview \<and> to_status \<in> {Active, Paused, Revoked, Compromised} \<or>
     (from_status = Revoked \<or> from_status = Compromised) \<and> to_status = Archived"

definition step_up_window_seconds :: int where "step_up_window_seconds = 15 * 60"
definition step_up_skew_seconds :: int where "step_up_skew_seconds = 60"

text \<open>Both instants are integers here; the code refuses those that are not safe.\<close>

definition sponsor_step_up_is_fresh :: "int \<Rightarrow> int \<Rightarrow> bool" where
  "sponsor_step_up_is_fresh authenticated_at now =
     (let now_seconds = now div 1000; age = now_seconds - authenticated_at in
      \<bar>authenticated_at\<bar> \<le> max_safe_integer \<and> \<bar>now_seconds\<bar> \<le> max_safe_integer \<and>
      age \<ge> - step_up_skew_seconds \<and> age \<le> step_up_window_seconds + step_up_skew_seconds)"

text \<open>An expiry that is set and reached.\<close>

definition grant_over :: "resource_grants \<Rightarrow> int \<Rightarrow> bool" where
  "grant_over g now \<longleftrightarrow> (case grant_expires g of None \<Rightarrow> False | Some t \<Rightarrow> now \<ge> t)"

definition bound_elsewhere :: "resource_grants \<Rightarrow> string \<Rightarrow> bool" where
  "bound_elsewhere g problem \<longleftrightarrow> (case problem_binding g of None \<Rightarrow> False | Some p \<Rightarrow> p \<noteq> problem)"

definition fellow_can_access_private_problem ::
  "credential_binding \<Rightarrow> string \<Rightarrow> string option \<Rightarrow> string option \<Rightarrow> int \<Rightarrow> bool" where
  "fellow_can_access_private_problem c problem sponsor creator now \<longleftrightarrow>
     Some (cb_sponsor c) = sponsor \<and> (cb_status c = Active \<or> cb_status c = SuspiciousReview) \<and>
     cb_revoked c = None \<and> cb_issued c \<le> now \<and> cb_expires c > now \<and> \<not> grant_over (cb_resources c) now \<and>
     \<not> bound_elsewhere (cb_resources c) problem \<and>
     (Some (cb_fellow c) = creator \<or> problem_binding (cb_resources c) = Some problem)"

subsection \<open>The decision\<close>

text \<open>The checks in the order of the code; the first that fails names the reason.\<close>

definition credential_refusal :: "credential_binding \<Rightarrow> int \<Rightarrow> refusal_reason option" where
  "credential_refusal c now =
     (if (case cb_revoked c of None \<Rightarrow> False | Some t \<Rightarrow> t \<le> now) then Some CredentialRevoked
      else if now < cb_issued c then Some CredentialNotYetValid
      else if now \<ge> cb_expires c then Some CredentialExpired
      else if cb_status c \<noteq> Active \<and> cb_status c \<noteq> SuspiciousReview then Some FellowStatusNotWritable
      else None)"

definition scope_refusal :: "write_effect \<Rightarrow> requested_scope list \<Rightarrow> refusal_reason option" where
  "scope_refusal effect scopes =
     (case effect of
        PublicationRetry \<Rightarrow>
          if Promote \<notin> set scopes \<or> UploadArtifacts \<notin> set scopes then Some ScopeNotGranted else None
      | ScopedWrite s \<Rightarrow> if s \<notin> set scopes then Some ScopeNotGranted else None
      | _ \<Rightarrow> None)"

definition problem_write_refusal ::
  "write_effect \<Rightarrow> resource_grants \<Rightarrow> string \<Rightarrow> publication \<Rightarrow> membership_role option \<Rightarrow> string option \<Rightarrow> refusal_reason option" where
  "problem_write_refusal effect g problem published role action =
     (if effect = PublicationRetry \<and> action \<noteq> Some ''evidence'' then Some TargetNotWritable
      else if bound_elsewhere g problem then Some ProblemBindingMismatch
      else if role = None then Some NotAMember
      else if effect = ScopedWrite Promote \<and> role = Some Observer \<and> (action = None \<or> action = Some ''claim'')
        then Some RoleNotPermitted
      else if published = PrivateDraft \<and> effect \<in> {ScopedWrite Promote, ScopedWrite Review, PublicationRetry}
        then Some TargetNotWritable
      else None)"

definition target_refusal :: "write_effect \<Rightarrow> resource_grants \<Rightarrow> write_target \<Rightarrow> refusal_reason option" where
  "target_refusal effect g target =
     (case effect of
        ScopedWrite ProposeProblems \<Rightarrow>
          if problem_binding g \<noteq> None then Some ProblemBindingMismatch
          else (case target of NewProblem PrivateDraft _ \<Rightarrow> None | _ \<Rightarrow> Some TargetNotWritable)
      | SessionOpen \<Rightarrow>
          (case target of
             SessionAdmission p \<Rightarrow> if bound_elsewhere g p then Some ProblemBindingMismatch else None
           | _ \<Rightarrow> Some TargetNotWritable)
      | SessionClose \<Rightarrow>
          (case target of
             SessionClosing p role \<Rightarrow>
               if bound_elsewhere g p then Some ProblemBindingMismatch
               else if role = None then Some NotAMember else None
           | _ \<Rightarrow> Some TargetNotWritable)
      | _ \<Rightarrow>
          (case target of
             ExistingProblem p published unlisted role action \<Rightarrow> problem_write_refusal effect g p published role action
           | _ \<Rightarrow> Some TargetNotWritable))"

definition event_refusal :: "write_effect \<Rightarrow> resource_grants \<Rightarrow> grant_usage \<Rightarrow> refusal_reason option" where
  "event_refusal effect g u =
     (case event_budget g of
        None \<Rightarrow> None
      | Some budget \<Rightarrow>
          if (if effect = PublicationRetry then events_recorded u > budget else events_recorded u \<ge> budget)
          then Some EventBudgetExhausted else None)"

definition artifact_refusal ::
  "write_effect \<Rightarrow> resource_grants \<Rightarrow> grant_usage \<Rightarrow> jsnum option \<Rightarrow> refusal_reason option" where
  "artifact_refusal effect g u requested =
     (if effect = ScopedWrite UploadArtifacts \<or> effect = PublicationRetry then
        (case (if effect = PublicationRetry then Some 0 else Option.bind requested safe_int) of
           None \<Rightarrow> Some ArtifactBudgetUnverifiable
         | Some n \<Rightarrow>
             if n < 0 then Some ArtifactBudgetUnverifiable
             else (case artifact_budget g of
                None \<Rightarrow> None
              | Some budget \<Rightarrow>
                  if artifact_bytes_recorded u > budget - n \<or> n > budget then Some ArtifactBudgetExhausted else None))
      else None)"

text \<open>The first refusal of a list of checks.\<close>

definition first_refusal :: "refusal_reason option list \<Rightarrow> refusal_reason option" where
  "first_refusal checks = Option.bind (find (\<lambda>c. c \<noteq> None) checks) (\<lambda>c. c)"

definition evaluate_fellow_write ::
  "write_effect \<Rightarrow> credential_binding \<Rightarrow> write_target \<Rightarrow> grant_usage \<Rightarrow> jsnum option \<Rightarrow> int \<Rightarrow> write_evaluation" where
  "evaluate_fellow_write effect c target u requested now =
     (let g = cb_resources c in
      case first_refusal [credential_refusal c now, scope_refusal effect (cb_scopes c),
          if grant_over g now then Some GrantExpired else None,
          target_refusal effect g target, event_refusal effect g u, artifact_refusal effect g u requested] of
        Some r \<Rightarrow> Refuse r
      | None \<Rightarrow>
          if cb_status c = SuspiciousReview then
            (if effect = SessionOpen \<or> effect = SessionClose then Refuse SuspiciousReviewWriteBlocked else Quarantine)
          else Allow)"

lemma first_refusal_simps [simp]:
  "first_refusal [] = None" "first_refusal (None # cs) = first_refusal cs" "first_refusal (Some r # cs) = Some r"
  by (simp_all add: first_refusal_def)

lemma first_refusal_None: "first_refusal cs = None \<longleftrightarrow> (\<forall>c \<in> set cs. c = None)"
proof (induction cs)
  case (Cons c cs)
  then show ?case by (cases c) simp_all
qed simp

end
