(* ===== verification/EnrollmentGrants.thy ===== *)
theory EnrollmentGrants
  imports FellowPolicy Text
begin

section \<open>Grants, reductions, pacing and names (\<open>enrollment/service.ts\<close>)\<close>

text \<open>
  The comparison of a granted authority with the requested one, the reduction of a request by
  its sponsor, the pacing of polls, and the rules for names. A reduction names the resources it
  changes; clearing a binding or a directive is a flag, as the only value of its key is null.
\<close>

datatype enrollment_error =
  FlowInvalid | HarnessAsName | IdempotencyConflict | NameInvalid | NameReserved | NameTaken | ModelAsName
| DeviceCodeUnknown | DeviceLookupLocked | DeviceStartRateLimited | FellowCapReached | FellowLifecycleNotCurrent
| OperatorFellowCapNotCurrent | PairingInvalid | ProposalExpired | ProposalNotPending | ScopeEscalation
| ScopeNotReduced | SponsorEnrollmentRateLimited int | WrongPrincipal | TransferNotFound | TransferNotPending
| TransferExpired | TransferSelfForbidden | TransferUnauthorized | TransferTargetInvalid | TransferFellowNotOwned
| TransferPendingExists | RebindNotFound | RebindFellowNotEligible | RebindClaimInvalid | RebindNotDecidable
| RebindDeclarationMismatch | SponsorAccountDeleted | ObjectVersionConflict | IdempotencyRace | PersistenceFailed
| IdentifierCollision

subsection \<open>Scopes\<close>

definition scope_name :: "requested_scope \<Rightarrow> string" where
  "scope_name s = (case s of Promote \<Rightarrow> ''promote'' | Review \<Rightarrow> ''review''
     | ProposeProblems \<Rightarrow> ''propose-problems'' | UploadArtifacts \<Rightarrow> ''upload-artifacts'')"

definition unique_enrollment_scopes :: "requested_scope list \<Rightarrow> requested_scope list" where
  "unique_enrollment_scopes scopes = sort_key scope_name (remdups scopes)"

definition same_scopes :: "requested_scope list \<Rightarrow> requested_scope list \<Rightarrow> bool" where
  "same_scopes l r \<longleftrightarrow> unique_enrollment_scopes l = unique_enrollment_scopes r"

definition is_strict_enrollment_scope_reduction :: "requested_scope list \<Rightarrow> requested_scope list \<Rightarrow> bool" where
  "is_strict_enrollment_scope_reduction requested reduced \<longleftrightarrow>
     length reduced > 0 \<and> list_all (\<lambda>s. s \<in> set requested) reduced \<and> \<not> same_scopes requested reduced"

subsection \<open>The ceiling of a grant\<close>

text \<open>A text may stay or go; a cap may only be set or lowered.\<close>

definition text_within :: "string option \<Rightarrow> string option \<Rightarrow> bool" where
  "text_within requested granted \<longleftrightarrow> granted = None \<or> granted = requested"

definition cap_within :: "int option \<Rightarrow> int option \<Rightarrow> bool" where
  "cap_within requested granted \<longleftrightarrow>
     (case requested of None \<Rightarrow> True | Some r \<Rightarrow> (case granted of None \<Rightarrow> False | Some g \<Rightarrow> g \<le> r))"

definition enrollment_grant_is_within_request ::
  "bool \<Rightarrow> requested_scope list \<Rightarrow> resource_grants \<Rightarrow> requested_scope list \<Rightarrow> resource_grants \<Rightarrow> bool" where
  "enrollment_grant_is_within_request approved requested_scopes requested granted_scopes granted \<longleftrightarrow>
     length granted_scopes \<noteq> 0 \<and> \<not> list_ex (\<lambda>s. s \<notin> set requested_scopes) granted_scopes \<and>
     text_within (problem_binding requested) (problem_binding granted) \<and>
     text_within (first_directive requested) (first_directive granted) \<and>
     cap_within (event_budget requested) (event_budget granted) \<and>
     cap_within (artifact_budget requested) (artifact_budget granted) \<and>
     cap_within (grant_expires requested) (grant_expires granted) \<and>
     (let scopes_match = same_scopes requested_scopes granted_scopes; resources_match = (requested = granted) in
      if approved then scopes_match \<and> resources_match else \<not> scopes_match \<or> \<not> resources_match)"

subsection \<open>The reduction of a request\<close>

record grant_reduction =
  rd_scopes :: "requested_scope list option"
  rd_clear_binding :: bool
  rd_clear_directive :: bool
  rd_event_budget :: "int option"
  rd_artifact_budget :: "int option"
  rd_expires_in :: "int option"

definition lowers :: "int option \<Rightarrow> int \<Rightarrow> bool" where
  "lowers current n \<longleftrightarrow> (case current of None \<Rightarrow> True | Some c \<Rightarrow> n < c)"

definition resources_named :: "grant_reduction \<Rightarrow> bool" where
  "resources_named r \<longleftrightarrow> rd_clear_binding r \<or> rd_clear_directive r \<or> rd_event_budget r \<noteq> None \<or>
     rd_artifact_budget r \<noteq> None \<or> rd_expires_in r \<noteq> None"

definition reduce_enrollment_resources ::
  "resource_grants \<Rightarrow> grant_reduction \<Rightarrow> int \<Rightarrow> enrollment_error + resource_grants" where
  "reduce_enrollment_resources requested r now =
     (if rd_clear_binding r \<and> problem_binding requested = None \<or>
         rd_clear_directive r \<and> first_directive requested = None \<or>
         (case rd_event_budget r of None \<Rightarrow> False | Some n \<Rightarrow> \<not> lowers (event_budget requested) n) \<or>
         (case rd_artifact_budget r of None \<Rightarrow> False | Some n \<Rightarrow> \<not> lowers (artifact_budget requested) n) \<or>
         (case rd_expires_in r of None \<Rightarrow> False | Some n \<Rightarrow> \<not> lowers (grant_expires requested) (now + n)) \<or>
         \<not> resources_named r
      then Inl ScopeNotReduced
      else Inr
       \<lparr>problem_binding = (if rd_clear_binding r then None else problem_binding requested),
        first_directive = (if rd_clear_directive r then None else first_directive requested),
        event_budget = (case rd_event_budget r of None \<Rightarrow> event_budget requested | Some n \<Rightarrow> Some n),
        artifact_budget = (case rd_artifact_budget r of None \<Rightarrow> artifact_budget requested | Some n \<Rightarrow> Some n),
        grant_expires = (case rd_expires_in r of None \<Rightarrow> grant_expires requested | Some n \<Rightarrow> Some (now + n))\<rparr>)"

text \<open>The scopes and resources of a reduced decision, as the decision of the store computes them.\<close>

definition reduced_scopes :: "requested_scope list \<Rightarrow> grant_reduction \<Rightarrow> enrollment_error + requested_scope list" where
  "reduced_scopes requested r =
     (case rd_scopes r of
        None \<Rightarrow> Inr requested
      | Some wanted \<Rightarrow>
          (let proposed = unique_enrollment_scopes wanted in
           if \<not> list_all (\<lambda>s. s \<in> set requested) proposed then Inl ScopeEscalation
           else if \<not> is_strict_enrollment_scope_reduction requested proposed then Inl ScopeNotReduced
           else Inr proposed))"

definition reduced_grant ::
  "requested_scope list \<Rightarrow> resource_grants \<Rightarrow> grant_reduction \<Rightarrow> int \<Rightarrow> enrollment_error + requested_scope list \<times> resource_grants" where
  "reduced_grant scopes resources r now =
     (case reduced_scopes scopes r of
        Inl e \<Rightarrow> Inl e
      | Inr proposed \<Rightarrow>
          (case if resources_named r then reduce_enrollment_resources resources r now else Inr resources of
             Inl e \<Rightarrow> Inl e
           | Inr next \<Rightarrow> if rd_scopes r = None \<and> \<not> resources_named r then Inl ScopeNotReduced else Inr (proposed, next)))"

subsection \<open>Pacing\<close>

definition initial_poll_interval :: int where "initial_poll_interval = 5"
definition max_poll_interval :: int where "max_poll_interval = 30"
definition poll_slow_down :: int where "poll_slow_down = 5"

datatype pacing = KeepPending int | SlowDown int

definition pace_interval :: "int \<Rightarrow> int" where
  "pace_interval seconds = min max_poll_interval (max initial_poll_interval seconds)"

definition next_enrollment_poll_pacing :: "int option \<Rightarrow> int \<Rightarrow> int \<Rightarrow> pacing" where
  "next_enrollment_poll_pacing last_poll seconds now =
     (let interval = pace_interval seconds in
      case last_poll of
        None \<Rightarrow> KeepPending interval
      | Some t \<Rightarrow>
          (let elapsed = max 0 (now - t);
             decayed = (if elapsed \<ge> interval * 2000 then max initial_poll_interval (interval - poll_slow_down) else interval) in
           if elapsed < decayed * 1000 then SlowDown (min max_poll_interval (decayed + poll_slow_down))
           else KeepPending decayed))"

fun retry_after :: "pacing \<Rightarrow> int" where
  "retry_after (KeepPending n) = n"
| "retry_after (SlowDown n) = n"

end
