(* ===== verification/EnrollmentStore.thy ===== *)
theory EnrollmentStore
  imports EnrollmentGrants Canonical
begin

section \<open>The enrollment store: state and pairing (\<open>enrollment/service.ts\<close>)\<close>

text \<open>
  The atomic store of enrollments, in the order of its class: the maps, an enrollment from its
  creation over the claim of its secret to the decision of its sponsor. Every operation runs
  under the lock of the store, so it is one function; a thrown error is the left value, with
  the state it leaves. Sets of the source are lists without repetition.
\<close>

datatype proposal_status = ProposalPending | ProposalApproved | ProposalReduced | ProposalDenied | ProposalLapsed
datatype enrollment_kind = JoinUrl | Device

record proposal =
  pr_id :: string
  pr_fellow :: string
  pr_flow :: string
  pr_name :: string
  pr_model :: string
  pr_harness :: string
  pr_effort :: "string option"
  pr_tools :: "string option"
  pr_created :: int
  pr_expires :: int
  pr_status :: proposal_status
  pr_scopes :: "requested_scope list option"
  pr_resources :: "resource_grants option"
  pr_granted :: "int option"
  pr_token :: "string option"
  pr_token_issued :: "int option"
  pr_interval :: int
  pr_last_poll :: "int option"

record enrollment =
  en_id :: string
  en_sponsor :: string
  en_secret :: string
  en_created :: int
  en_secret_expires :: int
  en_scopes :: "requested_scope list"
  en_resources :: resource_grants
  en_kind :: enrollment_kind
  en_device_expires :: "int option"
  en_invalidated :: bool
  en_consumed :: "int option"
  en_proposal :: "proposal option"

record sponsor_row =
  sp_created :: int
  sp_seen :: int
  sp_limit :: int
  sp_tombstoned :: "int option"

datatype transfer_status = TransferPending | TransferAccepted | TransferRejected | TransferCancelled | TransferLapsed

record transfer_row =
  tr_id :: string
  tr_fellow :: string
  tr_source :: string
  tr_target :: string
  tr_status :: transfer_status
  tr_created :: int
  tr_expires :: int
  tr_resolved :: "int option"

datatype rebind_status = AwaitingClaim | AwaitingApproval | RebindApproved | RebindDenied | RebindExpired | Superseded | Redeemed

record rebind_row =
  rb_id :: string
  rb_fellow :: string
  rb_sponsor :: string
  rb_transfer :: string
  rb_secret :: string
  rb_status :: rebind_status
  rb_created :: int
  rb_expires :: int
  rb_flow :: "string option"
  rb_claim :: "(string \<times> string \<times> string \<times> int) option"
  rb_decided :: "int option"
  rb_credential :: "string option"
  rb_redeemed :: "int option"

record 'c idempotency_write =
  iw_scope :: string
  iw_principal :: string
  iw_key :: string
  iw_digest :: string
  iw_now :: int
  iw_sealed :: 'c

record 'c kept_reply =
  ix_digest :: string
  ix_sealed :: 'c
  ix_expires :: int

record cap_audit =
  ca_event :: string
  ca_sponsor :: string
  ca_operator :: string
  ca_seq :: int
  ca_previous :: int
  ca_limit :: int
  ca_reason :: string
  ca_step_up :: int
  ca_signer :: string
  ca_effective :: int

record 'c enrollment_store =
  es_records :: "(string \<times> enrollment) list"
  es_rebinds :: "(string \<times> rebind_row) list"
  es_transfer_granted :: "(string \<times> int) list"
  es_names :: "(string \<times> string) list"
  es_credentials :: "(string \<times> credential_binding) list"
  es_statuses :: "(string \<times> lifecycle_status) list"
  es_status_changed :: "(string \<times> int) list"
  es_panic :: "(string \<times> int) list"
  es_family_revoked :: "(string \<times> int) list"
  es_lifecycle_seq :: "(string \<times> int) list"
  es_lifecycle_events :: "string list"
  es_lifecycle_requests :: "string list"
  es_cap_events :: "string list"
  es_cap_requests :: "string list"
  es_cap_seq :: "(string \<times> int) list"
  es_cap_audit :: "(string \<times> cap_audit list) list"
  es_review_windows :: "(string \<times> int \<times> int) list"
  es_sponsors :: "(string \<times> sponsor_row) list"
  es_transfers :: "(string \<times> transfer_row) list"
  es_device_codes :: "(string \<times> string \<times> int) list"
  es_device_expiry :: "(string \<times> int) list"
  es_active_mappings :: "string list"
  es_reclaimed_mappings :: "string list"
  es_device_starts :: "(string \<times> int) list"
  es_lookup_failures :: "(string \<times> int) list"
  es_idempotency :: "(string \<times> 'c kept_reply) list"

type_synonym ('c, 'a) store_result = "(enrollment_error + 'a) \<times> 'c enrollment_store"

definition idempotency_ttl :: int where "idempotency_ttl = 24 * 60 * 60 * 1000"
definition fellow_token_ttl :: int where "fellow_token_ttl = 365 * 24 * 60 * 60 * 1000"
definition default_active_fellow_limit :: int where "default_active_fellow_limit = 5"
definition enrollment_rate_attempts :: nat where "enrollment_rate_attempts = 10"
definition enrollment_rate_window :: int where "enrollment_rate_window = 24 * 60 * 60 * 1000"

subsection \<open>Idempotency\<close>

definition idempotency_key :: "string \<Rightarrow> string \<Rightarrow> string \<Rightarrow> string" where
  "idempotency_key scope who key = scope @ '':'' @ who @ '':'' @ key"

definition write_key :: "'c idempotency_write \<Rightarrow> string" where
  "write_key i = idempotency_key (iw_scope i) (iw_principal i) (iw_key i)"

definition idempotency_vacant :: "'c idempotency_write option \<Rightarrow> 'c enrollment_store \<Rightarrow> bool" where
  "idempotency_vacant w s =
     (case w of
        None \<Rightarrow> True
      | Some i \<Rightarrow> (case map_of (es_idempotency s) (write_key i) of None \<Rightarrow> True | Some x \<Rightarrow> \<not> iw_now i < ix_expires x))"

definition put_idempotency :: "'c idempotency_write option \<Rightarrow> 'c enrollment_store \<Rightarrow> 'c enrollment_store" where
  "put_idempotency w s =
     (case w of
        None \<Rightarrow> s
      | Some i \<Rightarrow> s\<lparr>es_idempotency := map_put (write_key i)
          \<lparr>ix_digest = iw_digest i, ix_sealed = iw_sealed i, ix_expires = iw_now i + idempotency_ttl\<rparr> (es_idempotency s)\<rparr>)"

text \<open>\<open>commitIdempotency\<close> at the end of an operation.\<close>

definition commit_idempotency :: "'c idempotency_write option \<Rightarrow> 'a \<Rightarrow> 'c enrollment_store \<Rightarrow> ('c, 'a) store_result" where
  "commit_idempotency w result s =
     (if idempotency_vacant w s then (Inr result, put_idempotency w s) else (Inl IdempotencyRace, s))"

definition idempotency_replay ::
  "string \<Rightarrow> string \<Rightarrow> string \<Rightarrow> string \<Rightarrow> int \<Rightarrow> 'c enrollment_store \<Rightarrow> enrollment_error + (string \<times> 'c) option" where
  "idempotency_replay scope who key digest now s =
     (case map_of (es_idempotency s) (idempotency_key scope who key) of
        None \<Rightarrow> Inr None
      | Some x \<Rightarrow>
          if \<not> now < ix_expires x then Inr None
          else if \<not> constant_time_equal (ix_digest x) digest then Inl IdempotencyConflict
          else Inr (Some (ix_digest x, ix_sealed x)))"

subsection \<open>Counts\<close>

definition record_list :: "'c enrollment_store \<Rightarrow> enrollment list" where
  "record_list s = map snd (es_records s)"

definition can_serve :: "'c enrollment_store \<Rightarrow> string \<Rightarrow> bool" where
  "can_serve s fellow = (case map_of (es_statuses s) fellow of None \<Rightarrow> False | Some x \<Rightarrow> fellow_status_can_authenticate x)"

definition active_fellows :: "'c enrollment_store \<Rightarrow> string \<Rightarrow> string list" where
  "active_fellows s sponsor = remdups (concat (map (\<lambda>r. case en_proposal r of
     None \<Rightarrow> [] | Some p \<Rightarrow> if en_sponsor r = sponsor \<and> can_serve s (pr_fellow p) then [pr_fellow p] else []) (record_list s)))"

definition active_fellow_count :: "'c enrollment_store \<Rightarrow> string \<Rightarrow> int" where
  "active_fellow_count s sponsor = int (length (active_fellows s sponsor))"

definition fellow_limit :: "'c enrollment_store \<Rightarrow> string \<Rightarrow> int" where
  "fellow_limit s sponsor = (case map_of (es_sponsors s) sponsor of None \<Rightarrow> default_active_fellow_limit | Some x \<Rightarrow> sp_limit x)"

text \<open>The instants of the enrollments that count against the daily budget.\<close>

definition budget_instant :: "enrollment \<Rightarrow> int option" where
  "budget_instant r = (if en_kind r = Device then Option.bind (en_proposal r) pr_granted else Some (en_created r))"

definition recent_enrollments :: "'c enrollment_store \<Rightarrow> string \<Rightarrow> int \<Rightarrow> int list" where
  "recent_enrollments s sponsor now =
     concat (map (\<lambda>r. case budget_instant r of
       None \<Rightarrow> [] | Some t \<Rightarrow> if en_sponsor r = sponsor \<and> t > now - enrollment_rate_window then [t] else []) (record_list s))"

definition budget_spent :: "'c enrollment_store \<Rightarrow> string \<Rightarrow> int \<Rightarrow> bool" where
  "budget_spent s sponsor now \<longleftrightarrow> length (recent_enrollments s sponsor now) \<ge> enrollment_rate_attempts"

definition rate_limit_error :: "'c enrollment_store \<Rightarrow> string \<Rightarrow> int \<Rightarrow> enrollment_error" where
  "rate_limit_error s sponsor now =
     (case recent_enrollments s sponsor now of
        [] \<Rightarrow> PersistenceFailed
      | t # ts \<Rightarrow> SponsorEnrollmentRateLimited (max 0 (- ((- (foldl max t ts + enrollment_rate_window - now)) div 1000)) + 1))"

definition tombstoned :: "'c enrollment_store \<Rightarrow> string \<Rightarrow> bool" where
  "tombstoned s sponsor = (case map_of (es_sponsors s) sponsor of None \<Rightarrow> False | Some x \<Rightarrow> sp_tombstoned x \<noteq> None)"

subsection \<open>Creation and claim\<close>

definition put_record :: "enrollment \<Rightarrow> 'c enrollment_store \<Rightarrow> 'c enrollment_store" where
  "put_record r s = s\<lparr>es_records := map_put (en_id r) r (es_records s)\<rparr>"

definition replaceable :: "enrollment \<Rightarrow> enrollment \<Rightarrow> bool" where
  "replaceable record predecessor \<longleftrightarrow>
     en_sponsor predecessor = en_sponsor record \<and> en_consumed predecessor = None \<and> \<not> en_invalidated predecessor"

definition create_enrollment ::
  "enrollment \<Rightarrow> string option \<Rightarrow> 'c idempotency_write option \<Rightarrow> 'c enrollment_store \<Rightarrow> ('c, bool) store_result" where
  "create_enrollment record replaces w s =
     (let predecessor = Option.bind replaces (map_of (es_records s)) in
      if \<not> idempotency_vacant w s then (Inl IdempotencyRace, s)
      else if tombstoned s (en_sponsor record) then (Inl SponsorAccountDeleted, s)
      else if map_of (es_records s) (en_id record) \<noteq> None then (Inr False, s)
      else if replaces \<noteq> None \<and> (case predecessor of None \<Rightarrow> True | Some r \<Rightarrow> \<not> replaceable record r)
        then (Inl PairingInvalid, s)
      else if budget_spent s (en_sponsor record) (en_created record)
        then (Inl (rate_limit_error s (en_sponsor record) (en_created record)), s)
      else commit_idempotency w True (put_record record
        (case predecessor of None \<Rightarrow> s | Some r \<Rightarrow> put_record (r\<lparr>en_invalidated := True\<rparr>) s)))"

definition claimable :: "enrollment \<Rightarrow> string \<Rightarrow> int \<Rightarrow> bool" where
  "claimable r secret now \<longleftrightarrow> constant_time_equal (en_secret r) secret \<and> \<not> en_invalidated r \<and>
     \<not> now \<ge> en_secret_expires r \<and> en_consumed r = None"

definition verify_claim_credentials :: "string \<Rightarrow> string \<Rightarrow> int \<Rightarrow> 'c enrollment_store \<Rightarrow> ('c, unit) store_result" where
  "verify_claim_credentials i secret now s =
     (case map_of (es_records s) i of
        Some r \<Rightarrow> if claimable r secret now then (Inr (), s) else (Inl PairingInvalid, s)
      | None \<Rightarrow> (Inl PairingInvalid, s))"

definition claim_enrollment ::
  "string \<Rightarrow> string \<Rightarrow> proposal \<Rightarrow> int \<Rightarrow> 'c idempotency_write option \<Rightarrow> 'c enrollment_store \<Rightarrow> ('c, unit) store_result" where
  "claim_enrollment i secret p now w s =
     (if \<not> idempotency_vacant w s then (Inl IdempotencyRace, s)
      else case map_of (es_records s) i of
        None \<Rightarrow> (Inl PairingInvalid, s)
      | Some r \<Rightarrow>
          if \<not> claimable r secret now then (Inl PairingInvalid, s)
          else commit_idempotency w () (put_record (r\<lparr>en_consumed := Some now, en_proposal := Some p\<rparr>) s))"

definition enrollment_capsule :: "string \<Rightarrow> int \<Rightarrow> 'c enrollment_store \<Rightarrow> enrollment_error + string \<times> int" where
  "enrollment_capsule i now s =
     (case map_of (es_records s) i of
        None \<Rightarrow> Inl PairingInvalid
      | Some r \<Rightarrow>
          if en_invalidated r \<or> en_consumed r \<noteq> None \<or> now \<ge> en_secret_expires r then Inl PairingInvalid
          else Inr (en_id r, en_secret_expires r))"

subsection \<open>Sponsors\<close>

definition new_sponsor :: "int \<Rightarrow> sponsor_row" where
  "new_sponsor now = \<lparr>sp_created = now, sp_seen = now, sp_limit = default_active_fellow_limit, sp_tombstoned = None\<rparr>"

definition ensure_sponsor :: "string \<Rightarrow> int \<Rightarrow> 'c enrollment_store \<Rightarrow> 'c enrollment_store" where
  "ensure_sponsor sponsor now s =
     (case map_of (es_sponsors s) sponsor of
        Some x \<Rightarrow> s\<lparr>es_sponsors := map_put sponsor (x\<lparr>sp_seen := now\<rparr>) (es_sponsors s)\<rparr>
      | None \<Rightarrow> s\<lparr>es_sponsors := map_put sponsor (new_sponsor now) (es_sponsors s),
          es_cap_seq := map_put sponsor 0 (es_cap_seq s)\<rparr>)"

definition bootstrap_sponsor :: "string \<Rightarrow> int \<Rightarrow> 'c enrollment_store \<Rightarrow> ('c, bool) store_result" where
  "bootstrap_sponsor sponsor now s =
     (if tombstoned s sponsor then (Inl SponsorAccountDeleted, s)
      else (Inr (map_of (es_sponsors s) sponsor = None), ensure_sponsor sponsor now s))"

subsection \<open>The decision of the sponsor\<close>

datatype sponsor_decision = Approve | Deny | Reduce grant_reduction

definition put_proposal :: "enrollment \<Rightarrow> proposal \<Rightarrow> 'c enrollment_store \<Rightarrow> 'c enrollment_store" where
  "put_proposal r p s = put_record (r\<lparr>en_proposal := Some p\<rparr>) s"

definition unbound_device :: "enrollment \<Rightarrow> bool" where
  "unbound_device r \<longleftrightarrow> en_kind r = Device \<and> en_sponsor r = ''''"

definition device_mapping_live :: "'c enrollment_store \<Rightarrow> string \<Rightarrow> int \<Rightarrow> bool" where
  "device_mapping_live s i now \<longleftrightarrow>
     (case map_of (es_device_expiry s) i of None \<Rightarrow> False | Some t \<Rightarrow> \<not> now \<ge> t) \<and> i \<in> set (es_active_mappings s)"

definition proposed_grant :: "enrollment \<Rightarrow> sponsor_decision \<Rightarrow> int \<Rightarrow> enrollment_error + requested_scope list \<times> resource_grants" where
  "proposed_grant r d now =
     (case d of Reduce reduction \<Rightarrow> reduced_grant (en_scopes r) (en_resources r) reduction now
      | _ \<Rightarrow> Inr (en_scopes r, en_resources r))"

definition panicked_by :: "'c enrollment_store \<Rightarrow> string \<Rightarrow> int \<Rightarrow> bool" where
  "panicked_by s sponsor t = (case map_of (es_panic s) sponsor of None \<Rightarrow> False | Some x \<Rightarrow> t \<le> x)"

definition grant_proposal ::
  "enrollment \<Rightarrow> proposal \<Rightarrow> string \<Rightarrow> sponsor_decision \<Rightarrow> int \<Rightarrow> requested_scope list \<Rightarrow> resource_grants \<Rightarrow>
     'c enrollment_store \<Rightarrow> 'c enrollment_store" where
  "grant_proposal r p sponsor d now scopes resources s =
     (let s1 = ensure_sponsor sponsor now s;
        p' = p\<lparr>pr_status := (if d = Approve then ProposalApproved else ProposalReduced), pr_scopes := Some scopes,
          pr_resources := Some resources, pr_granted := Some now\<rparr>;
        s2 = put_proposal (r\<lparr>en_sponsor := sponsor\<rparr>) p' (s1\<lparr>es_names := map_put (pr_name p) (pr_id p) (es_names s1)\<rparr>) in
      s2\<lparr>es_statuses := map_put (pr_fellow p) Active (es_statuses s2),
        es_status_changed := map_put (pr_fellow p) now (es_status_changed s2)\<rparr>)"

definition settle_grant ::
  "enrollment \<Rightarrow> proposal \<Rightarrow> string \<Rightarrow> sponsor_decision \<Rightarrow> int \<Rightarrow> 'c idempotency_write option \<Rightarrow>
     'c enrollment_store \<Rightarrow> ('c, unit) store_result" where
  "settle_grant r p sponsor d now w s =
     (case proposed_grant r d now of
        Inl e \<Rightarrow> (Inl e, s)
      | Inr (scopes, resources) \<Rightarrow>
          if grant_over resources now then (Inl ProposalExpired, put_proposal r (p\<lparr>pr_status := ProposalLapsed\<rparr>) s)
          else if panicked_by s sponsor now then (Inl PersistenceFailed, s)
          else if active_fellow_count s sponsor \<ge> fellow_limit s sponsor then (Inl FellowCapReached, s)
          else if (case map_of (es_names s) (pr_name p) of None \<Rightarrow> False | Some owner \<Rightarrow> owner \<noteq> pr_id p)
            then (Inl NameTaken, s)
          else if unbound_device r \<and> budget_spent s sponsor now then (Inl (rate_limit_error s sponsor now), s)
          else commit_idempotency w () (grant_proposal r p sponsor d now scopes resources s))"

definition decide_enrollment ::
  "string \<Rightarrow> string \<Rightarrow> sponsor_decision \<Rightarrow> int \<Rightarrow> 'c idempotency_write option \<Rightarrow> 'c enrollment_store \<Rightarrow> ('c, unit) store_result" where
  "decide_enrollment i sponsor d now w s =
     (if \<not> idempotency_vacant w s then (Inl IdempotencyRace, s)
      else case map_of (es_records s) i of
        None \<Rightarrow> (Inl WrongPrincipal, s)
      | Some r \<Rightarrow>
          if en_sponsor r \<noteq> sponsor \<and> \<not> unbound_device r then (Inl WrongPrincipal, s)
          else (case en_proposal r of
            None \<Rightarrow> (Inl ProposalNotPending, s)
          | Some p \<Rightarrow>
              if pr_status p = ProposalLapsed then (Inl ProposalExpired, s)
              else if pr_status p \<noteq> ProposalPending then (Inl ProposalNotPending, s)
              else if now \<ge> pr_expires p then (Inl ProposalExpired, put_proposal r (p\<lparr>pr_status := ProposalLapsed\<rparr>) s)
              else if unbound_device r \<and> \<not> device_mapping_live s (en_id r) now then (Inl PairingInvalid, s)
              else if d = Deny then
                commit_idempotency w () (put_proposal (r\<lparr>en_sponsor := sponsor\<rparr>) (p\<lparr>pr_status := ProposalDenied\<rparr>)
                  (ensure_sponsor sponsor now s))
              else settle_grant r p sponsor d now w s))"

subsection \<open>Cards\<close>

text \<open>A pending proposal is due when its own deadline or the one of the requested grant is reached.\<close>

definition proposal_due :: "enrollment \<Rightarrow> proposal \<Rightarrow> int \<Rightarrow> bool" where
  "proposal_due r p now \<longleftrightarrow> pr_status p = ProposalPending \<and> (now \<ge> pr_expires p \<or> grant_over (en_resources r) now)"

definition lapse_due :: "enrollment \<Rightarrow> int \<Rightarrow> enrollment" where
  "lapse_due r now =
     (case en_proposal r of
        None \<Rightarrow> r
      | Some p \<Rightarrow> if proposal_due r p now then r\<lparr>en_proposal := Some (p\<lparr>pr_status := ProposalLapsed\<rparr>)\<rparr> else r)"

record approval_card =
  ac_enrollment :: string
  ac_proposal :: proposal
  ac_requested_scopes :: "requested_scope list"
  ac_requested_resources :: resource_grants

definition card_from_record :: "enrollment \<Rightarrow> enrollment_error + approval_card" where
  "card_from_record r =
     (case en_proposal r of
        None \<Rightarrow> Inl ProposalNotPending
      | Some p \<Rightarrow> Inr \<lparr>ac_enrollment = en_id r, ac_proposal = p, ac_requested_scopes = en_scopes r,
          ac_requested_resources = en_resources r\<rparr>)"

definition read_card :: "enrollment \<Rightarrow> int \<Rightarrow> 'c enrollment_store \<Rightarrow> ('c, approval_card) store_result" where
  "read_card r now s = (card_from_record (lapse_due r now), put_record (lapse_due r now) s)"

definition approval_card_of :: "string \<Rightarrow> string \<Rightarrow> int \<Rightarrow> 'c enrollment_store \<Rightarrow> ('c, approval_card) store_result" where
  "approval_card_of i sponsor now s =
     (case map_of (es_records s) i of
        None \<Rightarrow> (Inl WrongPrincipal, s)
      | Some r \<Rightarrow>
          if en_sponsor r \<noteq> sponsor then (Inl WrongPrincipal, s)
          else if en_proposal r = None then (Inl ProposalNotPending, s)
          else read_card r now s)"

definition pending_approval_cards :: "string \<Rightarrow> int \<Rightarrow> 'c enrollment_store \<Rightarrow> ('c, approval_card list) store_result" where
  "pending_approval_cards sponsor now s =
     (let swept = map (\<lambda>(i, r). (i, if en_sponsor r = sponsor then lapse_due r now else r)) (es_records s);
        pending = filter (\<lambda>r. en_sponsor r = sponsor \<and>
          (case en_proposal r of None \<Rightarrow> False | Some p \<Rightarrow> pr_status p = ProposalPending)) (map snd swept) in
      (Inr (sort_key (\<lambda>c. pr_expires (ac_proposal c))
         (map (\<lambda>r. \<lparr>ac_enrollment = en_id r, ac_proposal = the (en_proposal r), ac_requested_scopes = en_scopes r,
           ac_requested_resources = en_resources r\<rparr>) pending)), s\<lparr>es_records := swept\<rparr>))"

end
