(* ===== verification/EnrollmentFlow.thy ===== *)
theory EnrollmentFlow
  imports EnrollmentStore
begin

section \<open>The enrollment store: devices, polls and credentials (\<open>enrollment/service.ts\<close>)\<close>

text \<open>
  The device flow with its bounded clean-up and lock-outs, the poll that issues a credential,
  and the authentication of a credential. A fresh token with its hash and the reply that is
  sealed for a decision are arguments.
\<close>

subsection \<open>Bounded clean-up\<close>

text \<open>At most so many of the matching entries leave, the first ones.\<close>

fun drop_some :: "('a \<Rightarrow> bool) \<Rightarrow> nat \<Rightarrow> 'a list \<Rightarrow> 'a list" where
  "drop_some P 0 xs = xs"
| "drop_some P (Suc n) [] = []"
| "drop_some P (Suc n) (x # xs) = (if P x then drop_some P n xs else x # drop_some P (Suc n) xs)"

fun expired_codes :: "nat \<Rightarrow> int \<Rightarrow> (string \<times> string \<times> int) list \<Rightarrow> (string \<times> string \<times> int) list" where
  "expired_codes 0 now codes = []"
| "expired_codes (Suc n) now [] = []"
| "expired_codes (Suc n) now ((h, i, t) # codes) =
     (if t \<le> now then (h, i, t) # expired_codes n now codes else expired_codes (Suc n) now codes)"

definition reclaim_codes :: "nat \<Rightarrow> int \<Rightarrow> 'c enrollment_store \<Rightarrow> 'c enrollment_store" where
  "reclaim_codes n now s =
     (let gone = expired_codes n now (es_device_codes s); ids = map (\<lambda>(h, i, t). i) gone in
      s\<lparr>es_device_codes := filter (\<lambda>c. c \<notin> set gone) (es_device_codes s),
        es_active_mappings := filter (\<lambda>i. i \<notin> set ids) (es_active_mappings s),
        es_reclaimed_mappings := es_reclaimed_mappings s @ filter (\<lambda>i. i \<notin> set (es_reclaimed_mappings s)) (remdups ids)\<rparr>)"

subsection \<open>Devices\<close>

record device_input =
  di_record :: enrollment
  di_proposal :: proposal
  di_code :: string
  di_expires :: int
  di_bucket :: string
  di_window :: int
  di_limit :: nat
  di_batch :: nat

definition identifiers_taken :: "device_input \<Rightarrow> 'c enrollment_store \<Rightarrow> bool" where
  "identifiers_taken d s \<longleftrightarrow>
     map_of (es_records s) (en_id (di_record d)) \<noteq> None \<or> map_of (es_device_codes s) (di_code d) \<noteq> None \<or>
     list_ex (\<lambda>r. case en_proposal r of None \<Rightarrow> False
       | Some p \<Rightarrow> pr_id p = pr_id (di_proposal d) \<or> pr_fellow p = pr_fellow (di_proposal d) \<or>
           pr_flow p = pr_flow (di_proposal d)) (record_list s)"

definition starts_in_window :: "device_input \<Rightarrow> 'c enrollment_store \<Rightarrow> nat" where
  "starts_in_window d s = length (filter (\<lambda>(b, t). b = di_bucket d \<and> t \<ge> di_window d \<and> t \<le> en_created (di_record d)) (es_device_starts s))"

definition device_create :: "device_input \<Rightarrow> 'c idempotency_write option \<Rightarrow> 'c enrollment_store \<Rightarrow> ('c, unit) store_result" where
  "device_create d w s =
     (if \<not> idempotency_vacant w s then (Inl IdempotencyRace, s)
      else
        let s1 = reclaim_codes (di_batch d) (en_created (di_record d))
              (s\<lparr>es_device_starts := drop_some (\<lambda>(b, t). t < di_window d) (di_batch d) (es_device_starts s)\<rparr>);
          i = en_id (di_record d) in
        if starts_in_window d s1 \<ge> di_limit d then (Inl DeviceStartRateLimited, s1)
        else if identifiers_taken d s1 then (Inl IdentifierCollision, s1)
        else commit_idempotency w ()
          ((put_record ((di_record d)\<lparr>en_device_expires := Some (di_expires d), en_proposal := Some (di_proposal d)\<rparr>) s1)
            \<lparr>es_device_codes := map_put (di_code d) (i, di_expires d) (es_device_codes s1),
             es_device_expiry := map_put i (di_expires d) (es_device_expiry s1),
             es_active_mappings := (if i \<in> set (es_active_mappings s1) then es_active_mappings s1 else es_active_mappings s1 @ [i]),
             es_device_starts := es_device_starts s1 @ [(di_bucket d, en_created (di_record d))]\<rparr>))"

record lookup_attempt =
  la_sponsor :: string
  la_code :: string
  la_now :: int
  la_window :: int
  la_limit :: nat
  la_batch :: nat

definition failed_lookup :: "lookup_attempt \<Rightarrow> 'c enrollment_store \<Rightarrow> 'c enrollment_store" where
  "failed_lookup a s = s\<lparr>es_lookup_failures := es_lookup_failures s @ [(la_sponsor a, la_now a)]\<rparr>"

definition recent_failures :: "lookup_attempt \<Rightarrow> 'c enrollment_store \<Rightarrow> nat" where
  "recent_failures a s =
     length (filter (\<lambda>(p, t). p = la_sponsor a \<and> t \<ge> la_window a \<and> t \<le> la_now a) (es_lookup_failures s))"

definition device_lookup :: "lookup_attempt \<Rightarrow> 'c enrollment_store \<Rightarrow> ('c, approval_card) store_result" where
  "device_lookup a s =
     (let s1 = reclaim_codes (la_batch a) (la_now a)
           (s\<lparr>es_lookup_failures := drop_some (\<lambda>(p, t). t < la_window a) (la_batch a) (es_lookup_failures s)\<rparr>) in
      if recent_failures a s1 \<ge> la_limit a then (Inl DeviceLookupLocked, s1)
      else case map_of (es_device_codes s1) (la_code a) of
        None \<Rightarrow> (Inl DeviceCodeUnknown, failed_lookup a s1)
      | Some (i, expires) \<Rightarrow>
          if la_now a \<ge> expires then (Inl DeviceCodeUnknown, failed_lookup a s1)
          else (case map_of (es_records s1) i of
            None \<Rightarrow> (Inl DeviceCodeUnknown, failed_lookup a s1)
          | Some r \<Rightarrow>
              (case en_proposal (lapse_due r (la_now a)) of
                None \<Rightarrow> (Inl DeviceCodeUnknown, failed_lookup a s1)
              | Some p \<Rightarrow>
                  (let s2 = put_record (lapse_due r (la_now a)) s1 in
                   if pr_status p \<noteq> ProposalPending then (Inl DeviceCodeUnknown, failed_lookup a s2)
                   else (card_from_record (lapse_due r (la_now a)), s2)))))"

definition device_card_for_decision :: "string \<Rightarrow> int \<Rightarrow> 'c enrollment_store \<Rightarrow> ('c, approval_card) store_result" where
  "device_card_for_decision i now s =
     (case map_of (es_records s) i of
        None \<Rightarrow> (Inl PairingInvalid, s)
      | Some r \<Rightarrow>
          if \<not> unbound_device r \<or> en_proposal r = None \<or> \<not> device_mapping_live s i now then (Inl PairingInvalid, s)
          else read_card r now s)"

subsection \<open>The poll\<close>

datatype poll_decision = PollPending int | PollSlowDown int | PollDenied | PollExpired | PollIssued string | AlreadyIssued

type_synonym 'c reply_for = "poll_decision \<Rightarrow> 'c idempotency_write option"

fun poll_of_pacing :: "pacing \<Rightarrow> poll_decision" where
  "poll_of_pacing (KeepPending n) = PollPending n"
| "poll_of_pacing (SlowDown n) = PollSlowDown n"

definition flow_record :: "string \<Rightarrow> 'c enrollment_store \<Rightarrow> enrollment option" where
  "flow_record flow s =
     find (\<lambda>r. case en_proposal r of None \<Rightarrow> False | Some p \<Rightarrow> constant_time_equal (pr_flow p) flow) (record_list s)"

text \<open>An expiry is settled only when its reply can be stored.\<close>

definition settle_expiry :: "enrollment \<Rightarrow> proposal \<Rightarrow> 'c reply_for \<Rightarrow> 'c enrollment_store \<Rightarrow> ('c, poll_decision) store_result" where
  "settle_expiry r p reply s =
     (if \<not> idempotency_vacant (reply PollExpired) s then (Inl IdempotencyRace, s)
      else commit_idempotency (reply PollExpired) PollExpired (put_proposal r (p\<lparr>pr_status := ProposalLapsed\<rparr>) s))"

text \<open>What the device mapping of a flow answers: an error, an expiry that settles nothing, or nothing.\<close>

definition device_gate :: "'c enrollment_store \<Rightarrow> enrollment \<Rightarrow> int \<Rightarrow> (enrollment_error + poll_decision) option" where
  "device_gate s r now =
     (if en_kind r \<noteq> Device then None
      else case map_of (es_device_expiry s) (en_id r) of
        None \<Rightarrow> Some (Inl FlowInvalid)
      | Some t \<Rightarrow>
          (let active = en_id r \<in> set (es_active_mappings s); reclaimed = en_id r \<in> set (es_reclaimed_mappings s) in
           if \<not> active \<and> \<not> reclaimed then Some (Inl FlowInvalid)
           else if \<not> active \<and> now < t then Some (Inl FlowInvalid)
           else if now \<ge> t then Some (Inr PollExpired) else None))"

definition binding_of_proposal ::
  "enrollment \<Rightarrow> proposal \<Rightarrow> requested_scope list \<Rightarrow> resource_grants \<Rightarrow> string \<Rightarrow> lifecycle_status \<Rightarrow> int \<Rightarrow> credential_binding" where
  "binding_of_proposal r p scopes resources token_hash status now =
     \<lparr>cb_fellow = pr_fellow p, cb_credential = ''cred-'' @ pr_id p, cb_sponsor = en_sponsor r, cb_name = pr_name p,
      cb_model = pr_model p, cb_harness = pr_harness p, cb_scopes = scopes, cb_resources = resources,
      cb_token_hash = token_hash, cb_issued = now, cb_expires = now + fellow_token_ttl, cb_last_used = None,
      cb_revoked = None, cb_profile = Bearer, cb_status = status\<rparr>"

definition issue_token ::
  "enrollment \<Rightarrow> proposal \<Rightarrow> requested_scope list \<Rightarrow> resource_grants \<Rightarrow> lifecycle_status \<Rightarrow> string \<times> string \<Rightarrow> int \<Rightarrow>
     'c reply_for \<Rightarrow> 'c enrollment_store \<Rightarrow> ('c, poll_decision) store_result" where
  "issue_token r p scopes resources status token now reply s =
     (let decision = PollIssued (fst token) in
      if \<not> idempotency_vacant (reply decision) s then (Inl IdempotencyRace, s)
      else commit_idempotency (reply decision) decision
        ((put_proposal r (p\<lparr>pr_token := Some (snd token), pr_token_issued := Some now\<rparr>) s)
          \<lparr>es_credentials := map_put (snd token) (binding_of_proposal r p scopes resources (snd token) status now) (es_credentials s)\<rparr>))"

definition poll_granted ::
  "enrollment \<Rightarrow> proposal \<Rightarrow> string \<times> string \<Rightarrow> int \<Rightarrow> 'c reply_for \<Rightarrow> 'c enrollment_store \<Rightarrow> ('c, poll_decision) store_result" where
  "poll_granted r p token now reply s =
     (case (pr_scopes p, pr_resources p) of
        (Some scopes, Some resources) \<Rightarrow>
          if grant_over resources now then settle_expiry r p reply s
          else if \<not> enrollment_grant_is_within_request (pr_status p = ProposalApproved) (en_scopes r) (en_resources r) scopes resources
            then (Inl PersistenceFailed, s)
          else if map_of (es_panic s) (en_sponsor r) \<noteq> None \<and>
              (case pr_granted p of None \<Rightarrow> True | Some t \<Rightarrow> panicked_by s (en_sponsor r) t) then (Inl FlowInvalid, s)
          else (case map_of (es_statuses s) (pr_fellow p) of
            None \<Rightarrow> (Inl FlowInvalid, s)
          | Some status \<Rightarrow>
              if \<not> fellow_status_can_authenticate status then (Inl FlowInvalid, s)
              else issue_token r p scopes resources status token now reply s)
      | _ \<Rightarrow> (Inl ProposalNotPending, s))"

definition poll_enrollment ::
  "string \<Rightarrow> string \<times> string \<Rightarrow> int \<Rightarrow> 'c reply_for \<Rightarrow> 'c enrollment_store \<Rightarrow> ('c, poll_decision) store_result" where
  "poll_enrollment flow token now reply s =
     (case flow_record flow s of
        None \<Rightarrow> (Inl FlowInvalid, s)
      | Some r \<Rightarrow>
          (case en_proposal r of
             None \<Rightarrow> (Inl FlowInvalid, s)
           | Some p \<Rightarrow>
               if pr_token p \<noteq> None then (Inr AlreadyIssued, s)
               else if proposal_due r p now then settle_expiry r p reply s
               else (case device_gate s r now of
                 Some answer \<Rightarrow> (answer, s)
               | None \<Rightarrow>
                   (case pr_status p of
                      ProposalPending \<Rightarrow>
                        (let pace = next_enrollment_poll_pacing (pr_last_poll p) (pr_interval p) now in
                         (Inr (poll_of_pacing pace),
                          put_proposal r (p\<lparr>pr_interval := retry_after pace, pr_last_poll := Some now\<rparr>) s))
                    | ProposalDenied \<Rightarrow> commit_idempotency (reply PollDenied) PollDenied s
                    | ProposalLapsed \<Rightarrow> commit_idempotency (reply PollExpired) PollExpired s
                    | _ \<Rightarrow> poll_granted r p token now reply s))))"

subsection \<open>Authentication\<close>

definition fellow_record :: "string \<Rightarrow> 'c enrollment_store \<Rightarrow> enrollment option" where
  "fellow_record fellow s =
     find (\<lambda>r. case en_proposal r of None \<Rightarrow> False | Some p \<Rightarrow> pr_fellow p = fellow) (record_list s)"

definition granted_at :: "string \<Rightarrow> 'c enrollment_store \<Rightarrow> int option" where
  "granted_at fellow s =
     (case map_of (es_transfer_granted s) fellow of
        Some t \<Rightarrow> Some t
      | None \<Rightarrow> Option.bind (fellow_record fellow s) (\<lambda>r. Option.bind (en_proposal r) pr_granted))"

definition cut_by_panic :: "'c enrollment_store \<Rightarrow> credential_binding \<Rightarrow> bool" where
  "cut_by_panic s c \<longleftrightarrow>
     (case map_of (es_panic s) (cb_sponsor c) of
        None \<Rightarrow> False
      | Some t \<Rightarrow> (case granted_at (cb_fellow c) s of None \<Rightarrow> True | Some g \<Rightarrow> g \<le> t) \<or> cb_issued c \<le> t)"

definition cut_by_revocation :: "'c enrollment_store \<Rightarrow> credential_binding \<Rightarrow> bool" where
  "cut_by_revocation s c \<longleftrightarrow>
     (case map_of (es_family_revoked s) (cb_fellow c) of None \<Rightarrow> False | Some t \<Rightarrow> cb_issued c \<le> t)"

definition current_status :: "'c enrollment_store \<Rightarrow> credential_binding \<Rightarrow> lifecycle_status" where
  "current_status s c = (case map_of (es_statuses s) (cb_fellow c) of None \<Rightarrow> cb_status c | Some x \<Rightarrow> x)"

definition authenticate_credential ::
  "string \<Rightarrow> int \<Rightarrow> credential_profile \<Rightarrow> 'c enrollment_store \<Rightarrow> credential_binding option \<times> 'c enrollment_store" where
  "authenticate_credential token_hash now profile s =
     (case map_of (es_credentials s) token_hash of
        None \<Rightarrow> (None, s)
      | Some c \<Rightarrow>
          if cb_profile c \<noteq> profile \<or> \<not> fellow_status_can_authenticate (current_status s c) \<or> cb_revoked c \<noteq> None \<or>
             now < cb_issued c \<or> now \<ge> cb_expires c \<or> cut_by_panic s c \<or> cut_by_revocation s c \<or>
             grant_over (cb_resources c) now then (None, s)
          else
            let seen = c\<lparr>cb_status := current_status s c,
                  cb_last_used := Some (max (case cb_last_used c of None \<Rightarrow> cb_issued c | Some t \<Rightarrow> t) now)\<rparr> in
            (Some seen, s\<lparr>es_credentials := map_put token_hash seen (es_credentials s)\<rparr>))"

end
