(* ===== verification/EnrollmentLifecycle.thy ===== *)
theory EnrollmentLifecycle
  imports EnrollmentFlow
begin

section \<open>The enrollment store: lifecycle, transfers and rebinds (\<open>enrollment/service.ts\<close>)\<close>

text \<open>
  The commands of a sponsor and of an operator on Fellows that exist: revoking a credential,
  changing a status, the panic of a sponsor, the cap of active Fellows, the transfer to another
  sponsor, the rebind that issues a credential after a transfer, and the deletion of an account.
\<close>

subsection \<open>Lifecycle events\<close>

record lifecycle_result =
  lr_seq :: int
  lr_effective :: int

record lifecycle_attempt =
  lc_sponsor :: string
  lc_event :: string
  lc_request :: string
  lc_at :: int

definition next_lifecycle_result :: "lifecycle_attempt \<Rightarrow> int \<Rightarrow> 'c enrollment_store \<Rightarrow> enrollment_error + lifecycle_result" where
  "next_lifecycle_result a effective s =
     (if lc_event a \<in> set (es_lifecycle_events s) \<or> lc_request a \<in> set (es_lifecycle_requests s) then Inl IdempotencyRace
      else Inr \<lparr>lr_seq = (case map_of (es_lifecycle_seq s) (lc_sponsor a) of None \<Rightarrow> 0 | Some n \<Rightarrow> n) + 1, lr_effective = effective\<rparr>)"

definition commit_lifecycle :: "lifecycle_attempt \<Rightarrow> lifecycle_result \<Rightarrow> 'c enrollment_store \<Rightarrow> 'c enrollment_store" where
  "commit_lifecycle a result s =
     s\<lparr>es_lifecycle_events := es_lifecycle_events s @ [lc_event a],
       es_lifecycle_requests := es_lifecycle_requests s @ [lc_request a],
       es_lifecycle_seq := map_put (lc_sponsor a) (lr_seq result) (es_lifecycle_seq s)\<rparr>"

text \<open>A command with its event: the reply is stored first, then the change, then the event.\<close>

definition lifecycle_command ::
  "lifecycle_attempt \<Rightarrow> int \<Rightarrow> (lifecycle_result \<Rightarrow> 'c idempotency_write option) \<Rightarrow>
     ('c enrollment_store \<Rightarrow> 'c enrollment_store) \<Rightarrow> 'c enrollment_store \<Rightarrow> ('c, lifecycle_result) store_result" where
  "lifecycle_command a effective reply change s =
     (case next_lifecycle_result a effective s of
        Inl e \<Rightarrow> (Inl e, s)
      | Inr result \<Rightarrow>
          (case commit_idempotency (reply result) result s of
             (Inl e, s1) \<Rightarrow> (Inl e, s1)
           | (Inr _, s1) \<Rightarrow> (Inr result, commit_lifecycle a result (change s1))))"

definition owned_credential :: "string \<Rightarrow> string \<Rightarrow> string \<Rightarrow> 'c enrollment_store \<Rightarrow> (string \<times> credential_binding) option" where
  "owned_credential sponsor fellow credential s =
     find (\<lambda>(h, c). cb_sponsor c = sponsor \<and> cb_fellow c = fellow \<and> cb_credential c = credential \<and> cb_revoked c = None)
       (es_credentials s)"

definition revoke_credential ::
  "lifecycle_attempt \<Rightarrow> string \<Rightarrow> string \<Rightarrow> (lifecycle_result \<Rightarrow> 'c idempotency_write option) \<Rightarrow>
     'c enrollment_store \<Rightarrow> ('c, lifecycle_result) store_result" where
  "revoke_credential a fellow credential reply s =
     (case owned_credential (lc_sponsor a) fellow credential s of
        None \<Rightarrow> (Inl FellowLifecycleNotCurrent, s)
      | Some (h, c) \<Rightarrow>
          if map_of (es_sponsors s) (lc_sponsor a) = None then (Inl FellowLifecycleNotCurrent, s)
          else lifecycle_command a (lc_at a) reply
            (\<lambda>s1. s1\<lparr>es_credentials := map_put h (c\<lparr>cb_revoked := Some (max (max (lc_at a) (cb_issued c))
               (case cb_last_used c of None \<Rightarrow> 0 | Some t \<Rightarrow> t))\<rparr>) (es_credentials s1)\<rparr>) s)"

definition owns_fellow :: "string \<Rightarrow> string \<Rightarrow> 'c enrollment_store \<Rightarrow> bool" where
  "owns_fellow sponsor fellow s \<longleftrightarrow> list_ex (\<lambda>r. en_sponsor r = sponsor \<and>
     (case en_proposal r of None \<Rightarrow> False | Some p \<Rightarrow> pr_fellow p = fellow)) (record_list s)"

text \<open>The writes of a compromised Fellow that need a review begin with its first credential.\<close>

definition review_window :: "string \<Rightarrow> int \<Rightarrow> 'c enrollment_store \<Rightarrow> int \<times> int" where
  "review_window fellow effective s =
     (let issued = map cb_issued (filter (\<lambda>c. cb_fellow c = fellow) (map snd (es_credentials s)));
        granted = Option.bind (fellow_record fellow s) (\<lambda>r. Option.bind (en_proposal r) pr_granted);
        from_grant = (case granted of None \<Rightarrow> effective | Some t \<Rightarrow> t) in
      (max from_grant (if issued = [] then from_grant else Min (set issued)), effective))"

definition change_status :: "string \<Rightarrow> lifecycle_status \<Rightarrow> int \<Rightarrow> 'c enrollment_store \<Rightarrow> 'c enrollment_store" where
  "change_status fellow to_status effective s =
     (let s1 = (if to_status = Revoked \<or> to_status = Compromised
            then s\<lparr>es_family_revoked := map_put fellow effective (es_family_revoked s)\<rparr> else s);
        s2 = (if to_status = Compromised
            then s1\<lparr>es_review_windows := map_put fellow (review_window fellow effective s1) (es_review_windows s1)\<rparr> else s1) in
      s2\<lparr>es_statuses := map_put fellow to_status (es_statuses s2),
         es_status_changed := map_put fellow effective (es_status_changed s2)\<rparr>)"

definition transition_fellow ::
  "lifecycle_attempt \<Rightarrow> string \<Rightarrow> lifecycle_status \<Rightarrow> (lifecycle_result \<Rightarrow> 'c idempotency_write option) \<Rightarrow>
     'c enrollment_store \<Rightarrow> ('c, lifecycle_result) store_result" where
  "transition_fellow a fellow to_status reply s =
     (case map_of (es_statuses s) fellow of
        None \<Rightarrow> (Inl FellowLifecycleNotCurrent, s)
      | Some current \<Rightarrow>
          if \<not> owns_fellow (lc_sponsor a) fellow s \<or> map_of (es_sponsors s) (lc_sponsor a) = None \<or>
             \<not> fellow_lifecycle_transition_allowed current to_status then (Inl FellowLifecycleNotCurrent, s)
          else if \<not> fellow_status_can_authenticate current \<and> fellow_status_can_authenticate to_status \<and>
             active_fellow_count s (lc_sponsor a) \<ge> fellow_limit s (lc_sponsor a) then (Inl FellowCapReached, s)
          else
            let effective = max (lc_at a) (case map_of (es_status_changed s) fellow of None \<Rightarrow> lc_at a | Some t \<Rightarrow> t) in
            lifecycle_command a effective reply (change_status fellow to_status effective) s)"

definition panic_sponsor ::
  "lifecycle_attempt \<Rightarrow> (lifecycle_result \<Rightarrow> 'c idempotency_write option) \<Rightarrow>
     'c enrollment_store \<Rightarrow> ('c, lifecycle_result) store_result" where
  "panic_sponsor a reply s =
     (if map_of (es_sponsors s) (lc_sponsor a) = None then (Inl FellowLifecycleNotCurrent, s)
      else
        let effective = max (lc_at a) ((case map_of (es_panic s) (lc_sponsor a) of None \<Rightarrow> -1 | Some t \<Rightarrow> t) + 1) in
        lifecycle_command a effective reply (\<lambda>s1. s1\<lparr>es_panic := map_put (lc_sponsor a) effective (es_panic s1)\<rparr>) s)"

subsection \<open>The cap of active Fellows\<close>

record cap_override =
  co_sponsor :: string
  co_operator :: string
  co_event :: string
  co_expected_limit :: int
  co_expected_seq :: int
  co_limit :: int
  co_reason :: string
  co_step_up :: int
  co_signer :: string
  co_request :: string
  co_at :: int

record cap_result =
  cr_seq :: int
  cr_previous :: int
  cr_limit :: int
  cr_effective :: int

definition override_sponsor_fellow_cap ::
  "cap_override \<Rightarrow> (cap_result \<Rightarrow> 'c idempotency_write option) \<Rightarrow> 'c enrollment_store \<Rightarrow> ('c, cap_result) store_result" where
  "override_sponsor_fellow_cap a reply s =
     (case (map_of (es_sponsors s) (co_sponsor a), map_of (es_cap_seq s) (co_sponsor a)) of
        (Some x, Some n) \<Rightarrow>
          if sp_limit x \<noteq> co_expected_limit a \<or> n \<noteq> co_expected_seq a \<or> sp_limit x = co_limit a \<or>
             active_fellow_count s (co_sponsor a) > co_limit a \<or>
             co_event a \<in> set (es_cap_events s) \<or> co_request a \<in> set (es_cap_requests s)
          then (Inl OperatorFellowCapNotCurrent, s)
          else
            let result = \<lparr>cr_seq = n + 1, cr_previous = sp_limit x, cr_limit = co_limit a, cr_effective = co_at a\<rparr> in
            (case commit_idempotency (reply result) result s of
               (Inl e, s1) \<Rightarrow> (Inl e, s1)
             | (Inr _, s1) \<Rightarrow> (Inr result, s1
                 \<lparr>es_sponsors := map_put (co_sponsor a) (x\<lparr>sp_limit := co_limit a\<rparr>) (es_sponsors s1),
                  es_cap_seq := map_put (co_sponsor a) (n + 1) (es_cap_seq s1),
                  es_cap_events := es_cap_events s1 @ [co_event a],
                  es_cap_requests := es_cap_requests s1 @ [co_request a],
                  es_cap_audit := map_put (co_sponsor a)
                    ((case map_of (es_cap_audit s1) (co_sponsor a) of None \<Rightarrow> [] | Some es \<Rightarrow> es) @
                     [\<lparr>ca_event = co_event a, ca_sponsor = co_sponsor a, ca_operator = co_operator a, ca_seq = n + 1,
                       ca_previous = sp_limit x, ca_limit = co_limit a, ca_reason = co_reason a, ca_step_up = co_step_up a,
                       ca_signer = co_signer a, ca_effective = co_at a\<rparr>]) (es_cap_audit s1)\<rparr>))
      | _ \<Rightarrow> (Inl OperatorFellowCapNotCurrent, s))"

subsection \<open>Transfers\<close>

definition status_or_active :: "'c enrollment_store \<Rightarrow> string \<Rightarrow> lifecycle_status" where
  "status_or_active s fellow = (case map_of (es_statuses s) fellow of None \<Rightarrow> Active | Some x \<Rightarrow> x)"

definition put_transfer :: "transfer_row \<Rightarrow> 'c enrollment_store \<Rightarrow> 'c enrollment_store" where
  "put_transfer t s = s\<lparr>es_transfers := map_put (tr_id t) t (es_transfers s)\<rparr>"

definition lapsed_transfer :: "transfer_row \<Rightarrow> int \<Rightarrow> transfer_row" where
  "lapsed_transfer t now = t\<lparr>tr_status := TransferLapsed, tr_resolved := Some now\<rparr>"

text \<open>
  The pending transfers of a Fellow, in order: those over are closed until one that is not
  over is found, which refuses the new one.
\<close>

fun close_pending :: "string \<Rightarrow> int \<Rightarrow> (string \<times> transfer_row) list \<Rightarrow> bool \<times> (string \<times> transfer_row) list" where
  "close_pending fellow now [] = (False, [])"
| "close_pending fellow now ((i, t) # ts) =
     (if tr_fellow t = fellow \<and> tr_status t = TransferPending then
        (if tr_expires t > now then (True, (i, t) # ts)
         else (case close_pending fellow now ts of (found, ts') \<Rightarrow> (found, (i, lapsed_transfer t now) # ts')))
      else (case close_pending fellow now ts of (found, ts') \<Rightarrow> (found, (i, t) # ts')))"

definition initiate_transfer ::
  "string \<Rightarrow> string \<Rightarrow> string \<Rightarrow> string \<Rightarrow> int \<Rightarrow> int \<Rightarrow> 'c idempotency_write option \<Rightarrow> 'c idempotency_write option \<Rightarrow>
     'c enrollment_store \<Rightarrow> ('c, transfer_row) store_result" where
  "initiate_transfer i fellow source target now expires w replay s =
     (if \<not> idempotency_vacant w s then (Inl IdempotencyRace, s)
      else if source = target then (Inl TransferSelfForbidden, s)
      else if tombstoned s source then (Inl SponsorAccountDeleted, s)
      else if map_of (es_sponsors s) target = None \<or> tombstoned s target then (Inl TransferTargetInvalid, s)
      else if (case fellow_record fellow s of None \<Rightarrow> True | Some r \<Rightarrow> en_sponsor r \<noteq> source) then (Inl TransferFellowNotOwned, s)
      else if status_or_active s fellow = Revoked then (Inl TransferFellowNotOwned, s)
      else case close_pending fellow now (es_transfers s) of
        (True, ts) \<Rightarrow> (Inl TransferPendingExists, s\<lparr>es_transfers := ts\<rparr>)
      | (False, ts) \<Rightarrow>
          (let t = \<lparr>tr_id = i, tr_fellow = fellow, tr_source = source, tr_target = target, tr_status = TransferPending,
                tr_created = now, tr_expires = expires, tr_resolved = None\<rparr> in
           commit_idempotency (if replay = None then w else replay) t (put_transfer t (s\<lparr>es_transfers := ts\<rparr>))))"

definition lapse_transfer :: "transfer_row \<Rightarrow> int \<Rightarrow> transfer_row" where
  "lapse_transfer t now = (if tr_status t = TransferPending \<and> tr_expires t \<le> now then lapsed_transfer t now else t)"

definition list_transfers :: "string \<Rightarrow> int \<Rightarrow> 'c enrollment_store \<Rightarrow> (transfer_row list \<times> transfer_row list) \<times> 'c enrollment_store" where
  "list_transfers sponsor now s =
     (let swept = map (\<lambda>(i, t). (i, lapse_transfer t now)) (es_transfers s); rows = map snd swept;
        newest = sort_key (\<lambda>t. - tr_created t) in
      ((newest (filter (\<lambda>t. tr_target t = sponsor) rows), newest (filter (\<lambda>t. tr_source t = sponsor) rows)),
       s\<lparr>es_transfers := swept\<rparr>))"

definition get_transfer :: "string \<Rightarrow> string \<Rightarrow> int \<Rightarrow> 'c enrollment_store \<Rightarrow> ('c, transfer_row) store_result" where
  "get_transfer i sponsor now s =
     (case map_of (es_transfers s) i of
        None \<Rightarrow> (Inl TransferNotFound, s)
      | Some t \<Rightarrow>
          if tr_source t \<noteq> sponsor \<and> tr_target t \<noteq> sponsor then (Inl TransferUnauthorized, s)
          else (Inr (lapse_transfer t now), put_transfer (lapse_transfer t now) s))"

text \<open>The checks that every resolution of a transfer makes; \<open>party\<close> is the side that may make it.\<close>

definition resolving_transfer ::
  "string \<Rightarrow> (transfer_row \<Rightarrow> bool) \<Rightarrow> int \<Rightarrow> 'c idempotency_write option \<Rightarrow>
     (transfer_row \<Rightarrow> 'c enrollment_store \<Rightarrow> ('c, 'a) store_result) \<Rightarrow> 'c enrollment_store \<Rightarrow> ('c, 'a) store_result" where
  "resolving_transfer i party now w act s =
     (if \<not> idempotency_vacant w s then (Inl IdempotencyRace, s)
      else case map_of (es_transfers s) i of
        None \<Rightarrow> (Inl TransferNotFound, s)
      | Some t \<Rightarrow>
          if \<not> party t then (Inl TransferUnauthorized, s)
          else if tr_status t = TransferPending \<and> tr_expires t \<le> now
            then (Inl TransferExpired, put_transfer (lapsed_transfer t now) s)
          else if tr_status t \<noteq> TransferPending then (Inl TransferNotPending, s)
          else act t s)"

definition resolve_transfer :: "transfer_status \<Rightarrow> transfer_row \<Rightarrow> int \<Rightarrow> 'c enrollment_store \<Rightarrow> 'c enrollment_store" where
  "resolve_transfer status t now s = put_transfer (t\<lparr>tr_status := status, tr_resolved := Some now\<rparr>) s"

definition reject_transfer ::
  "string \<Rightarrow> string \<Rightarrow> int \<Rightarrow> 'c idempotency_write option \<Rightarrow> 'c idempotency_write option \<Rightarrow> 'c enrollment_store \<Rightarrow> ('c, unit) store_result" where
  "reject_transfer i target now w replay = resolving_transfer i (\<lambda>t. tr_target t = target) now w
     (\<lambda>t s. commit_idempotency (if replay = None then w else replay) () (resolve_transfer TransferRejected t now s))"

definition cancel_transfer ::
  "string \<Rightarrow> string \<Rightarrow> int \<Rightarrow> 'c idempotency_write option \<Rightarrow> 'c idempotency_write option \<Rightarrow> 'c enrollment_store \<Rightarrow> ('c, unit) store_result" where
  "cancel_transfer i source now w replay = resolving_transfer i (\<lambda>t. tr_source t = source) now w
     (\<lambda>t s. commit_idempotency (if replay = None then w else replay) () (resolve_transfer TransferCancelled t now s))"

text \<open>The acceptance counts the Fellows of the target whose status is active, once per record.\<close>

definition transfer_active_count :: "'c enrollment_store \<Rightarrow> string \<Rightarrow> int" where
  "transfer_active_count s sponsor = int (length (filter (\<lambda>r. en_sponsor r = sponsor \<and>
     (case en_proposal r of None \<Rightarrow> False | Some p \<Rightarrow> pr_fellow p \<noteq> '''' \<and> status_or_active s (pr_fellow p) = Active)) (record_list s)))"

definition live_rebind :: "rebind_row \<Rightarrow> bool" where
  "live_rebind b \<longleftrightarrow> rb_status b = AwaitingClaim \<or> rb_status b = AwaitingApproval \<or> rb_status b = RebindApproved"

definition supersede_rebinds :: "(rebind_row \<Rightarrow> bool) \<Rightarrow> 'c enrollment_store \<Rightarrow> 'c enrollment_store" where
  "supersede_rebinds P s = s\<lparr>es_rebinds := map (\<lambda>(i, b).
     (i, if P b \<and> live_rebind b then b\<lparr>rb_status := Superseded\<rparr> else b)) (es_rebinds s)\<rparr>"

definition revoke_all :: "(credential_binding \<Rightarrow> bool) \<Rightarrow> int \<Rightarrow> 'c enrollment_store \<Rightarrow> 'c enrollment_store" where
  "revoke_all P now s = s\<lparr>es_credentials := map (\<lambda>(h, c).
     (h, if P c then c\<lparr>cb_revoked := Some now\<rparr> else c)) (es_credentials s)\<rparr>"

definition move_fellow :: "transfer_row \<Rightarrow> enrollment \<Rightarrow> int \<Rightarrow> 'c enrollment_store \<Rightarrow> 'c enrollment_store" where
  "move_fellow t r now s =
     (let s1 = put_record (r\<lparr>en_sponsor := tr_target t\<rparr>) (resolve_transfer TransferAccepted t now s);
        s2 = s1\<lparr>es_transfer_granted := map_put (tr_fellow t) now (es_transfer_granted s1),
          es_status_changed := (if status_or_active s (tr_fellow t) \<noteq> Paused
             then map_put (tr_fellow t) now (es_status_changed s1) else es_status_changed s1),
          es_statuses := map_put (tr_fellow t) Paused (es_statuses s1)\<rparr> in
      revoke_all (\<lambda>c. cb_fellow c = tr_fellow t \<and> cb_revoked c = None) now
        (supersede_rebinds (\<lambda>b. rb_fellow b = tr_fellow t) s2))"

definition live_credentials :: "'c enrollment_store \<Rightarrow> string \<Rightarrow> nat" where
  "live_credentials s fellow = length (filter (\<lambda>c. cb_fellow c = fellow \<and> cb_revoked c = None) (map snd (es_credentials s)))"

definition accept_transfer ::
  "string \<Rightarrow> string \<Rightarrow> int \<Rightarrow> 'c idempotency_write option \<Rightarrow> 'c idempotency_write option \<Rightarrow> 'c enrollment_store \<Rightarrow> ('c, nat) store_result" where
  "accept_transfer i target now w replay = resolving_transfer i (\<lambda>t. tr_target t = target) now w
     (\<lambda>t s.
       if tombstoned s target then (Inl SponsorAccountDeleted, s)
       else if transfer_active_count s target + 1 > fellow_limit s target then (Inl FellowCapReached, s)
       else (case fellow_record (tr_fellow t) s of
         None \<Rightarrow> (Inl TransferFellowNotOwned, s)
       | Some r \<Rightarrow>
           if en_sponsor r \<noteq> tr_source t \<or> status_or_active s (tr_fellow t) = Revoked then (Inl TransferFellowNotOwned, s)
           else commit_idempotency (if replay = None then w else replay) (live_credentials s (tr_fellow t)) (move_fellow t r now s)))"

end
