(* ===== verification/EnrollmentRebind.thy ===== *)
theory EnrollmentRebind
  imports EnrollmentLifecycle
begin

section \<open>The enrollment store: rebinds and deletion (\<open>enrollment/service.ts\<close>)\<close>

text \<open>
  The rebind that gives a transferred Fellow a credential again, and the deletion of the
  account of a sponsor. The digest of the deletion review and the text of its receipt are
  arguments: the operation compares the one and returns the other.
\<close>

subsection \<open>The authority of a rebind\<close>

definition rebind_authority :: "string \<Rightarrow> string \<Rightarrow> 'c enrollment_store \<Rightarrow> string option" where
  "rebind_authority fellow sponsor s =
     (case fellow_record fellow s of
        None \<Rightarrow> None
      | Some r \<Rightarrow>
          if en_sponsor r \<noteq> sponsor \<or> status_or_active s fellow \<notin> {Active, Paused, SuspiciousReview} then None
          else (case map_of (es_transfer_granted s) fellow of
            None \<Rightarrow> None
          | Some g \<Rightarrow>
              if panicked_by s sponsor g then None
              else map_option tr_id (find (\<lambda>t. tr_fellow t = fellow \<and> tr_target t = sponsor \<and>
                 tr_status t = TransferAccepted \<and> tr_resolved t = Some g) (map snd (es_transfers s)))))"

definition rebind_current :: "rebind_row \<Rightarrow> 'c enrollment_store \<Rightarrow> bool" where
  "rebind_current b s \<longleftrightarrow> rebind_authority (rb_fellow b) (rb_sponsor b) s = Some (rb_transfer b)"

definition put_rebind :: "rebind_row \<Rightarrow> 'c enrollment_store \<Rightarrow> 'c enrollment_store" where
  "put_rebind b s = s\<lparr>es_rebinds := map_put (rb_id b) b (es_rebinds s)\<rparr>"

definition create_rebind ::
  "string \<Rightarrow> string \<Rightarrow> string \<Rightarrow> string \<Rightarrow> int \<Rightarrow> int \<Rightarrow> 'c idempotency_write option \<Rightarrow> 'c enrollment_store \<Rightarrow> ('c, unit) store_result" where
  "create_rebind i fellow sponsor secret now expires w s =
     (if \<not> idempotency_vacant w s then (Inl IdempotencyRace, s)
      else case rebind_authority fellow sponsor s of
        None \<Rightarrow> (Inl RebindFellowNotEligible, s)
      | Some t \<Rightarrow> commit_idempotency w ()
          (put_rebind \<lparr>rb_id = i, rb_fellow = fellow, rb_sponsor = sponsor, rb_transfer = t, rb_secret = secret,
             rb_status = AwaitingClaim, rb_created = now, rb_expires = expires, rb_flow = None, rb_claim = None,
             rb_decided = None, rb_credential = None, rb_redeemed = None\<rparr>
            (supersede_rebinds (\<lambda>b. rb_fellow b = fellow) s)))"

definition rebind_capsule :: "string \<Rightarrow> int \<Rightarrow> 'c enrollment_store \<Rightarrow> enrollment_error + string \<times> string \<times> int" where
  "rebind_capsule i now s =
     (case map_of (es_rebinds s) i of
        None \<Rightarrow> Inl RebindClaimInvalid
      | Some b \<Rightarrow>
          if rb_status b \<noteq> AwaitingClaim \<or> rb_expires b \<le> now \<or> \<not> rebind_current b s then Inl RebindClaimInvalid
          else (case Option.bind (fellow_record (rb_fellow b) s) en_proposal of
            None \<Rightarrow> Inl RebindClaimInvalid
          | Some p \<Rightarrow> Inr (i, pr_name p, rb_expires b)))"

definition claim_rebind ::
  "string \<Rightarrow> string \<Rightarrow> string \<Rightarrow> string \<times> string \<times> string \<Rightarrow> int \<Rightarrow> 'c idempotency_write option \<Rightarrow>
     'c enrollment_store \<Rightarrow> ('c, unit) store_result" where
  "claim_rebind i secret flow declared now w s =
     (if \<not> idempotency_vacant w s then (Inl IdempotencyRace, s)
      else case map_of (es_rebinds s) i of
        None \<Rightarrow> (Inl RebindClaimInvalid, s)
      | Some b \<Rightarrow>
          if \<not> constant_time_equal (rb_secret b) secret \<or> rb_status b \<noteq> AwaitingClaim \<or> rb_expires b \<le> now \<or>
             \<not> rebind_current b s then (Inl RebindClaimInvalid, s)
          else commit_idempotency w () (put_rebind (b\<lparr>rb_status := AwaitingApproval, rb_flow := Some flow,
            rb_claim := Some (fst declared, fst (snd declared), snd (snd declared), now)\<rparr>) s))"

text \<open>The declaration of a claim must be the identity of the Fellow.\<close>

definition declared_identity :: "rebind_row \<Rightarrow> proposal \<Rightarrow> bool" where
  "declared_identity b p \<longleftrightarrow>
     (case rb_claim b of None \<Rightarrow> False
      | Some (name, model, harness, since) \<Rightarrow> name = pr_name p \<and> model = pr_model p \<and> harness = pr_harness p)"

definition decide_rebind ::
  "string \<Rightarrow> string \<Rightarrow> bool \<Rightarrow> int \<Rightarrow> 'c idempotency_write option \<Rightarrow> 'c enrollment_store \<Rightarrow> ('c, rebind_status) store_result" where
  "decide_rebind i sponsor approve now w s =
     (case map_of (es_rebinds s) i of
        None \<Rightarrow> (Inl RebindNotFound, s)
      | Some b \<Rightarrow>
          if rb_sponsor b \<noteq> sponsor then (Inl RebindNotFound, s)
          else if rb_status b \<noteq> AwaitingApproval \<or> rb_expires b \<le> now then (Inl RebindNotDecidable, s)
          else (case Option.bind (fellow_record (rb_fellow b) s) en_proposal of
            None \<Rightarrow> (Inl PersistenceFailed, s)
          | Some p \<Rightarrow>
              if approve \<and> \<not> declared_identity b p then (Inl RebindDeclarationMismatch, s)
              else if approve \<and> rebind_authority (rb_fellow b) (rb_sponsor b) s = None then (Inl RebindNotDecidable, s)
              else if \<not> idempotency_vacant w s then (Inl IdempotencyRace, s)
              else
                let status = (if approve then RebindApproved else RebindDenied) in
                commit_idempotency w status (put_rebind (b\<lparr>rb_status := status, rb_decided := Some now\<rparr>) s)))"

definition rebind_poll_interval :: int where "rebind_poll_interval = 5"

definition rebind_terminal :: "rebind_row \<Rightarrow> int \<Rightarrow> bool \<Rightarrow> poll_decision option" where
  "rebind_terminal b now current =
     (let live = (rb_status b = AwaitingApproval \<or> rb_status b = RebindApproved) in
      if rb_status b = RebindDenied then Some PollDenied
      else if rb_status b = RebindExpired \<or> rb_status b = Superseded \<or> live \<and> now \<ge> rb_expires b \<or> live \<and> \<not> current
        then Some PollExpired
      else None)"

definition rebind_binding ::
  "rebind_row \<Rightarrow> proposal \<Rightarrow> requested_scope list \<Rightarrow> resource_grants \<Rightarrow> string \<Rightarrow> lifecycle_status \<Rightarrow> int \<Rightarrow> credential_binding" where
  "rebind_binding b p scopes resources token_hash status now =
     \<lparr>cb_fellow = rb_fellow b, cb_credential = ''cred-rebind-'' @ rb_id b, cb_sponsor = rb_sponsor b, cb_name = pr_name p,
      cb_model = pr_model p, cb_harness = pr_harness p, cb_scopes = scopes, cb_resources = resources,
      cb_token_hash = token_hash, cb_issued = now, cb_expires = now + fellow_token_ttl, cb_last_used = None,
      cb_revoked = None, cb_profile = Bearer, cb_status = status\<rparr>"

definition redeem_rebind ::
  "rebind_row \<Rightarrow> proposal \<Rightarrow> requested_scope list \<Rightarrow> resource_grants \<Rightarrow> string \<times> string \<Rightarrow> int \<Rightarrow> 'c reply_for \<Rightarrow>
     'c enrollment_store \<Rightarrow> ('c, poll_decision) store_result" where
  "redeem_rebind b p scopes resources token now reply s =
     (let decision = PollIssued (fst token);
        status = (case map_of (es_statuses s) (rb_fellow b) of None \<Rightarrow> Paused | Some x \<Rightarrow> x) in
      if \<not> idempotency_vacant (reply decision) s then (Inl IdempotencyRace, s)
      else commit_idempotency (reply decision) decision
        ((put_rebind (b\<lparr>rb_status := Redeemed, rb_credential := Some (''cred-rebind-'' @ rb_id b), rb_redeemed := Some now\<rparr>) s)
          \<lparr>es_credentials := map_put (snd token) (rebind_binding b p scopes resources (snd token) status now) (es_credentials s)\<rparr>))"

definition rebind_of_flow :: "string \<Rightarrow> 'c enrollment_store \<Rightarrow> rebind_row option" where
  "rebind_of_flow flow s =
     find (\<lambda>b. case rb_flow b of None \<Rightarrow> False | Some f \<Rightarrow> constant_time_equal f flow) (map snd (es_rebinds s))"

definition poll_rebind ::
  "string \<Rightarrow> string \<times> string \<Rightarrow> int \<Rightarrow> 'c reply_for \<Rightarrow> 'c enrollment_store \<Rightarrow> ('c, poll_decision) store_result" where
  "poll_rebind flow token now reply s =
     (case rebind_of_flow flow s of
        None \<Rightarrow> (Inl FlowInvalid, s)
      | Some b \<Rightarrow>
          (let current = rebind_current b s in
           if rb_status b = Redeemed then (Inr AlreadyIssued, s)
           else if rb_status b = AwaitingApproval \<and> now < rb_expires b \<and> current
             then (Inr (PollPending rebind_poll_interval), s)
           else (case rebind_terminal b now current of
             Some decision \<Rightarrow>
               if \<not> idempotency_vacant (reply decision) s then (Inl IdempotencyRace, s)
               else commit_idempotency (reply decision) decision
                 (if rb_status b = AwaitingApproval \<or> rb_status b = RebindApproved
                  then put_rebind (b\<lparr>rb_status := RebindExpired\<rparr>) s else s)
           | None \<Rightarrow>
               (case Option.bind (fellow_record (rb_fellow b) s) en_proposal of
                  None \<Rightarrow> (Inl PersistenceFailed, s)
                | Some p \<Rightarrow>
                    (case (pr_scopes p, pr_resources p) of
                       (Some scopes, Some resources) \<Rightarrow> redeem_rebind b p scopes resources token now reply s
                     | _ \<Rightarrow> (Inl PersistenceFailed, s))))))"

subsection \<open>The deletion of an account\<close>

text \<open>What a deletion revokes: the granted Fellows that are not revoked, and the credentials.\<close>

definition deleted_fellows :: "string \<Rightarrow> 'c enrollment_store \<Rightarrow> string list" where
  "deleted_fellows sponsor s = concat (map (\<lambda>r. case en_proposal r of
     None \<Rightarrow> []
   | Some p \<Rightarrow> if en_sponsor r = sponsor \<and> pr_granted p \<noteq> None \<and> status_or_active s (pr_fellow p) \<noteq> Revoked
       then [pr_fellow p] else []) (record_list s))"

definition deleted_credentials :: "string \<Rightarrow> 'c enrollment_store \<Rightarrow> string list" where
  "deleted_credentials sponsor s =
     map cb_credential (filter (\<lambda>c. cb_sponsor c = sponsor \<and> cb_revoked c = None) (map snd (es_credentials s)))"

definition close_record :: "string \<Rightarrow> enrollment \<Rightarrow> enrollment" where
  "close_record sponsor r =
     (if en_sponsor r \<noteq> sponsor then r
      else r\<lparr>en_invalidated := True, en_proposal := map_option (\<lambda>p.
        if pr_status p = ProposalPending then p\<lparr>pr_status := ProposalDenied\<rparr> else p) (en_proposal r)\<rparr>)"

definition revoke_fellows :: "string list \<Rightarrow> int \<Rightarrow> 'c enrollment_store \<Rightarrow> 'c enrollment_store" where
  "revoke_fellows fellows now s =
     fold (\<lambda>f s. s\<lparr>es_statuses := map_put f Revoked (es_statuses s), es_status_changed := map_put f now (es_status_changed s)\<rparr>)
       (remdups fellows) s"

definition cancel_transfers :: "string \<Rightarrow> int \<Rightarrow> 'c enrollment_store \<Rightarrow> 'c enrollment_store" where
  "cancel_transfers sponsor now s = s\<lparr>es_transfers := map (\<lambda>(i, t).
     (i, if (tr_source t = sponsor \<or> tr_target t = sponsor) \<and> tr_status t = TransferPending
         then t\<lparr>tr_status := TransferCancelled, tr_resolved := Some now\<rparr> else t)) (es_transfers s)\<rparr>"

definition erase_sponsor :: "string \<Rightarrow> int \<Rightarrow> 'c enrollment_store \<Rightarrow> 'c enrollment_store" where
  "erase_sponsor sponsor now s =
     (let fellows = deleted_fellows sponsor s; credentials = deleted_credentials sponsor s;
        s1 = s\<lparr>es_sponsors := map_put sponsor (case map_of (es_sponsors s) sponsor of
              None \<Rightarrow> (new_sponsor now)\<lparr>sp_tombstoned := Some now\<rparr> | Some x \<Rightarrow> x\<lparr>sp_tombstoned := Some now\<rparr>) (es_sponsors s),
            es_records := map (\<lambda>(i, r). (i, close_record sponsor r)) (es_records s)\<rparr> in
      supersede_rebinds (\<lambda>b. rb_sponsor b = sponsor)
        (cancel_transfers sponsor now
          (revoke_all (\<lambda>c. cb_credential c \<in> set credentials) now (revoke_fellows fellows now s1))))"

definition revoked_credentials :: "string \<Rightarrow> 'c enrollment_store \<Rightarrow> nat" where
  "revoked_credentials sponsor s =
     length (filter (\<lambda>c. cb_credential c \<in> set (deleted_credentials sponsor s)) (map snd (es_credentials s)))"

definition delete_sponsor_account ::
  "('c enrollment_store \<Rightarrow> string \<Rightarrow> string) \<Rightarrow> string \<Rightarrow> string \<Rightarrow> int \<Rightarrow> 'c idempotency_write option \<Rightarrow>
     'c idempotency_write option \<Rightarrow> 'c enrollment_store \<Rightarrow> ('c, nat \<times> nat) store_result" where
  "delete_sponsor_account review_digest sponsor expected now w replay s =
     (if \<not> idempotency_vacant w s then (Inl IdempotencyRace, s)
      else if map_of (es_sponsors s) sponsor = None \<or> tombstoned s sponsor then (Inl SponsorAccountDeleted, s)
      else if review_digest s sponsor \<noteq> expected then (Inl ObjectVersionConflict, s)
      else commit_idempotency (if replay = None then w else replay)
        (length (remdups (deleted_fellows sponsor s)), revoked_credentials sponsor s) (erase_sponsor sponsor now s))"

end
