(* ===== verification/EnrollmentReads.thy ===== *)
theory EnrollmentReads
  imports EnrollmentRebind Redact "HOL-Library.Product_Lexorder"
begin

section \<open>The enrollment store: names, pages and lists (\<open>enrollment/service.ts\<close>)\<close>

text \<open>
  The policy of Fellow names and the reads of the store: the paged list of the Fellows of a
  sponsor, the paged audit of its cap, the list of rebinds, and the export. A sort with a
  comparison function is an insertion sort, which is stable as the one of the language.
\<close>

subsection \<open>Names\<close>

definition name_char :: "char \<Rightarrow> bool" where
  "name_char c \<longleftrightarrow> c \<in> set ''abcdefghijklmnopqrstuvwxyz0123456789-''"

definition fellow_name_schema :: "string \<Rightarrow> bool" where
  "fellow_name_schema name \<longleftrightarrow> name \<noteq> [] \<and> hd name \<in> set ''abcdefghijklmnopqrstuvwxyz'' \<and>
     list_all name_char (tl name) \<and> 2 \<le> length (tl name) \<and> length (tl name) \<le> 31"

definition is_or_extends :: "string \<Rightarrow> string \<Rightarrow> bool" where
  "is_or_extends word name \<longleftrightarrow> name = word \<or> starts_with name (word @ ''-'')"

definition segments :: "string \<Rightarrow> string list" where
  "segments name = split_on (CHR ''-'') name"

text \<open>The signs that stand for letters, after the change to lower case.\<close>

definition leet_char :: "char \<Rightarrow> char" where
  "leet_char c =
     (if c = CHR ''@'' \<or> c = CHR ''4'' then CHR ''a'' else if c = CHR ''3'' then CHR ''e''
      else if c = CHR ''1'' \<or> c = CHR ''!'' then CHR ''i'' else if c = CHR ''0'' then CHR ''o''
      else if c = CHR ''5'' \<or> c = CHR ''$'' then CHR ''s'' else if c = CHR ''7'' then CHR ''t'' else c)"

definition leet_normalized :: "string \<Rightarrow> string" where
  "leet_normalized name = map (\<lambda>c. leet_char (lower_ascii c)) name"

definition reserved_fellow_names :: "string list" where
  "reserved_fellow_names = [''admin'', ''charter'', ''claude'', ''claude-code'', ''codex'', ''gemini'', ''gpt-5-6'', ''grok'',
     ''system'', ''symposiarch'']"
definition model_names :: "string list" where
  "model_names = [''claude'', ''codex'', ''gemini'', ''gpt-5-6'', ''grok'']"
definition harness_names :: "string list" where
  "harness_names = [''claude-code'', ''codex'', ''gemini-cli'', ''grok-build'']"
definition unambiguous_harness_names :: "string list" where
  "unambiguous_harness_names = [''claude-code'', ''gemini-cli'', ''grok-build'']"
definition profanity_denylist :: "string list" where
  "profanity_denylist = [''asshole'', ''bitch'', ''cunt'', ''fuck'', ''shit'']"
definition product_identities :: "string list" where
  "product_identities = [''anthropic'', ''claude'', ''codex'', ''gemini'', ''gpt-5-6'', ''grok'', ''openai'']"

text \<open>The expression for titles: a segment \<open>official\<close> or \<open>real\<close>, or the ending \<open>-mod\<close>.\<close>

definition claims_a_title :: "string \<Rightarrow> bool" where
  "claims_a_title name \<longleftrightarrow> list_ex (\<lambda>p. p = ''official'' \<or> p = ''real'') (segments name) \<or>
     (length name \<ge> 4 \<and> drop (length name - 4) name = ''-mod'')"

definition enrollment_name_failure :: "string \<Rightarrow> enrollment_error option" where
  "enrollment_name_failure name =
     (if \<not> fellow_name_schema name then Some NameInvalid
      else if list_ex (\<lambda>w. is_or_extends w name) unambiguous_harness_names then Some HarnessAsName
      else if list_ex (\<lambda>w. is_or_extends w name) model_names then Some ModelAsName
      else if list_ex (\<lambda>w. is_or_extends w name) harness_names then Some HarnessAsName
      else if list_ex (\<lambda>w. is_or_extends w name) product_identities then Some NameReserved
      else if list_ex (\<lambda>p. leet_normalized p \<in> set profanity_denylist) (segments name) then Some NameReserved
      else if name \<in> set reserved_fellow_names \<or> claims_a_title name then Some NameReserved
      else None)"

subsection \<open>Sorting with a comparison\<close>

primrec insert_by :: "('a \<Rightarrow> 'a \<Rightarrow> int) \<Rightarrow> 'a \<Rightarrow> 'a list \<Rightarrow> 'a list" where
  "insert_by compare x [] = [x]"
| "insert_by compare x (y # ys) = (if compare x y \<le> 0 then x # y # ys else y # insert_by compare x ys)"

definition sort_by :: "('a \<Rightarrow> 'a \<Rightarrow> int) \<Rightarrow> 'a list \<Rightarrow> 'a list" where
  "sort_by compare xs = foldr (insert_by compare) xs []"

fun compare_bytes :: "nat list \<Rightarrow> nat list \<Rightarrow> int" where
  "compare_bytes (a # as) (b # bs) = (if a \<noteq> b then int a - int b else compare_bytes as bs)"
| "compare_bytes as bs = int (length as) - int (length bs)"

definition compare_fellow_id_binary :: "string \<Rightarrow> string \<Rightarrow> int" where
  "compare_fellow_id_binary left right = compare_bytes (utf8_bytes left) (utf8_bytes right)"

subsection \<open>The Fellows of a sponsor\<close>

record sponsor_credential =
  sc_credential :: string
  sc_profile :: credential_profile
  sc_issued :: int
  sc_expires :: int
  sc_used :: "int option"
  sc_active :: bool

record sponsor_fellow =
  sf_fellow :: string
  sf_name :: string
  sf_model :: string
  sf_harness :: string
  sf_status :: lifecycle_status
  sf_scopes :: "requested_scope list"
  sf_resources :: resource_grants
  sf_granted :: int
  sf_credentials :: "sponsor_credential list"

definition sponsor_fellow_page_size :: nat where "sponsor_fellow_page_size = 500"

definition compare_fellow_page_order :: "sponsor_fellow \<Rightarrow> sponsor_fellow \<Rightarrow> int" where
  "compare_fellow_page_order left right =
     (if sf_granted left \<noteq> sf_granted right then sf_granted right - sf_granted left
      else compare_fellow_id_binary (sf_fellow left) (sf_fellow right))"

definition follows_fellow_cursor :: "sponsor_fellow \<Rightarrow> int \<times> string \<Rightarrow> bool" where
  "follows_fellow_cursor f after \<longleftrightarrow> sf_granted f < fst after \<or>
     sf_granted f = fst after \<and> compare_fellow_id_binary (sf_fellow f) (snd after) > 0"

definition compare_credentials :: "sponsor_credential \<Rightarrow> sponsor_credential \<Rightarrow> int" where
  "compare_credentials left right =
     (if sc_issued right - sc_issued left \<noteq> 0 then sc_issued right - sc_issued left
      else compare_fellow_id_binary (sc_credential left) (sc_credential right))"

definition credential_shown :: "string \<Rightarrow> proposal \<Rightarrow> int \<Rightarrow> int \<Rightarrow> 'c enrollment_store \<Rightarrow> credential_binding \<Rightarrow> bool" where
  "credential_shown sponsor p granted now s c \<longleftrightarrow>
     cb_fellow c = pr_fellow p \<and> cb_revoked c = None \<and> cb_issued c \<le> now \<and> now < cb_expires c \<and>
     (case map_of (es_panic s) sponsor of None \<Rightarrow> True | Some t \<Rightarrow> granted > t \<and> cb_issued c > t) \<and>
     (case map_of (es_family_revoked s) (pr_fellow p) of None \<Rightarrow> True | Some t \<Rightarrow> cb_issued c > t) \<and>
     \<not> grant_over (cb_resources c) now"

definition credential_view :: "lifecycle_status \<Rightarrow> int \<Rightarrow> credential_binding \<Rightarrow> sponsor_credential" where
  "credential_view status now c = \<lparr>sc_credential = cb_credential c, sc_profile = cb_profile c, sc_issued = cb_issued c,
     sc_expires = cb_expires c, sc_used = cb_last_used c,
     sc_active = (fellow_status_can_authenticate status \<and> cb_issued c \<le> now \<and> now < cb_expires c)\<rparr>"

definition fellow_view :: "string \<Rightarrow> int \<Rightarrow> 'c enrollment_store \<Rightarrow> enrollment \<Rightarrow> sponsor_fellow option" where
  "fellow_view sponsor now s r =
     (if en_sponsor r \<noteq> sponsor then None
      else case en_proposal r of
        None \<Rightarrow> None
      | Some p \<Rightarrow>
          (case (pr_scopes p, pr_resources p, pr_granted p) of
             (Some scopes, Some resources, Some granted) \<Rightarrow>
               Some \<lparr>sf_fellow = pr_fellow p, sf_name = pr_name p, sf_model = pr_model p, sf_harness = pr_harness p,
                 sf_status = status_or_active s (pr_fellow p), sf_scopes = scopes, sf_resources = resources, sf_granted = granted,
                 sf_credentials = sort_by compare_credentials (map (credential_view (status_or_active s (pr_fellow p)) now)
                   (filter (credential_shown sponsor p granted now s) (map snd (es_credentials s))))\<rparr>
           | _ \<Rightarrow> None))"

definition granted_fellows :: "string \<Rightarrow> int \<Rightarrow> 'c enrollment_store \<Rightarrow> sponsor_fellow list" where
  "granted_fellows sponsor now s = List.map_filter (fellow_view sponsor now s) (record_list s)"

definition fellows_by_sponsor ::
  "string \<Rightarrow> int \<Rightarrow> (int \<times> string) option \<Rightarrow> 'c enrollment_store \<Rightarrow> sponsor_fellow list \<times> (int \<times> string) option" where
  "fellows_by_sponsor sponsor now after s =
     (let ordered = take (sponsor_fellow_page_size + 1) (sort_by compare_fellow_page_order
            (filter (\<lambda>f. case after of None \<Rightarrow> True | Some c \<Rightarrow> follows_fellow_cursor f c) (granted_fellows sponsor now s)));
        page = take sponsor_fellow_page_size ordered in
      (page, if length ordered \<le> sponsor_fellow_page_size \<or> page = [] then None
             else Some (sf_granted (last page), sf_fellow (last page))))"

subsection \<open>The audit of a cap\<close>

definition cap_audit_page_size :: nat where "cap_audit_page_size = 100"

definition sponsor_fellow_cap :: "string \<Rightarrow> 'c enrollment_store \<Rightarrow> enrollment_error + int \<times> int" where
  "sponsor_fellow_cap sponsor s =
     (case (map_of (es_sponsors s) sponsor, map_of (es_cap_seq s) sponsor) of
        (Some x, Some n) \<Rightarrow> Inr (sp_limit x, n)
      | _ \<Rightarrow> Inl OperatorFellowCapNotCurrent)"

definition sponsor_fellow_cap_audit :: "string \<Rightarrow> int option \<Rightarrow> 'c enrollment_store \<Rightarrow> enrollment_error + cap_audit list \<times> int option" where
  "sponsor_fellow_cap_audit sponsor after s =
     (if map_of (es_sponsors s) sponsor = None then Inl OperatorFellowCapNotCurrent
      else
        let events = (case map_of (es_cap_audit s) sponsor of None \<Rightarrow> [] | Some es \<Rightarrow> es);
          ordered = filter (\<lambda>e. case after of None \<Rightarrow> True | Some n \<Rightarrow> ca_seq e < n)
            (sort_by (\<lambda>left right. ca_seq right - ca_seq left) events);
          window = take (cap_audit_page_size + 1) ordered;
          more = length window > cap_audit_page_size;
          page = (if more then butlast window else window) in
        Inr (page, if more \<and> page \<noteq> [] then Some (ca_seq (last page)) else None))"

subsection \<open>Rebinds, names that are held, and the export\<close>

definition shown_rebind_status :: "rebind_row \<Rightarrow> int \<Rightarrow> bool \<Rightarrow> rebind_status" where
  "shown_rebind_status b now current =
     (if live_rebind b \<and> (rb_expires b \<le> now \<or> \<not> current) then RebindExpired else rb_status b)"

definition compare_rebinds :: "rebind_row \<Rightarrow> rebind_row \<Rightarrow> int" where
  "compare_rebinds a b =
     (if rb_created b - rb_created a \<noteq> 0 then rb_created b - rb_created a else if rb_id a < rb_id b then 1 else -1)"

text \<open>The rebinds of a sponsor with the status shown; a Fellow that has no record is an error.\<close>

definition list_rebinds :: "string \<Rightarrow> int \<Rightarrow> 'c enrollment_store \<Rightarrow> enrollment_error + (rebind_row \<times> rebind_status \<times> bool) list" where
  "list_rebinds sponsor now s =
     (let rows = take 50 (sort_by compare_rebinds (filter (\<lambda>b. rb_sponsor b = sponsor) (map snd (es_rebinds s)))) in
      if list_ex (\<lambda>b. Option.bind (fellow_record (rb_fellow b) s) en_proposal = None) rows then Inl PersistenceFailed
      else Inr (map (\<lambda>b. (b, shown_rebind_status b now (rebind_current b s),
        (case Option.bind (fellow_record (rb_fellow b) s) en_proposal of None \<Rightarrow> False | Some p \<Rightarrow> declared_identity b p))) rows))"

record exported_fellow =
  xf_fellow :: string
  xf_name :: string
  xf_status :: lifecycle_status
  xf_proposal_status :: proposal_status
  xf_created :: int
  xf_active_credentials :: nat

definition export_sponsor_account :: "string \<Rightarrow> int \<Rightarrow> 'c enrollment_store \<Rightarrow> enrollment_error + exported_fellow list" where
  "export_sponsor_account sponsor now s =
     (if tombstoned s sponsor then Inl SponsorAccountDeleted
      else Inr (concat (map (\<lambda>r. case en_proposal r of
          None \<Rightarrow> []
        | Some p \<Rightarrow> if en_sponsor r \<noteq> sponsor then [] else
            [\<lparr>xf_fellow = pr_fellow p, xf_name = pr_name p, xf_status = status_or_active s (pr_fellow p),
              xf_proposal_status = pr_status p, xf_created = pr_created p,
              xf_active_credentials = length (filter (\<lambda>c. cb_fellow c = pr_fellow p \<and> cb_revoked c = None \<and>
                cb_issued c \<le> now \<and> cb_expires c > now) (map snd (es_credentials s)))\<rparr>]) (record_list s))))"

end
