(* ===== verification/EnrollmentLaws.thy ===== *)
theory EnrollmentLaws
  imports EnrollmentRebind Machine
begin

section \<open>Laws of the enrollment store\<close>

text \<open>
  The invariant of the store and the order in which it grows, with the primitive changes that
  its operations are composed of. An operation is good when it keeps the one and respects the
  other; good changes compose.
\<close>

subsection \<open>The invariant\<close>

abbreviation recs :: "'c enrollment_store \<Rightarrow> string \<Rightarrow> enrollment option" where
  "recs s \<equiv> map_of (es_records s)"

abbreviation statuses :: "'c enrollment_store \<Rightarrow> string \<Rightarrow> lifecycle_status option" where
  "statuses s \<equiv> map_of (es_statuses s)"

abbreviation creds :: "'c enrollment_store \<Rightarrow> string \<Rightarrow> credential_binding option" where
  "creds s \<equiv> map_of (es_credentials s)"

text \<open>A record of the store with its proposal.\<close>

definition proposed :: "'c enrollment_store \<Rightarrow> string \<Rightarrow> enrollment \<Rightarrow> proposal \<Rightarrow> bool" where
  "proposed s i r p \<longleftrightarrow> recs s i = Some r \<and> en_proposal r = Some p"

definition serving :: "'c enrollment_store \<Rightarrow> string \<Rightarrow> string set" where
  "serving s sponsor = {f. \<exists>i r p. proposed s i r p \<and> pr_fellow p = f \<and> en_sponsor r = sponsor \<and> can_serve s f}"

definition records_keyed :: "'c enrollment_store \<Rightarrow> bool" where
  "records_keyed s \<longleftrightarrow> distinct (map fst (es_records s)) \<and> (\<forall>(i, r) \<in> set (es_records s). en_id r = i)"

definition proposals_unique :: "'c enrollment_store \<Rightarrow> bool" where
  "proposals_unique s \<longleftrightarrow> (\<forall>i r p j q p'. proposed s i r p \<longrightarrow> proposed s j q p' \<longrightarrow>
     pr_fellow p = pr_fellow p' \<or> pr_flow p = pr_flow p' \<longrightarrow> i = j)"

definition records_ok :: "'c enrollment_store \<Rightarrow> bool" where
  "records_ok s \<longleftrightarrow>
     (\<forall>i r. recs s i = Some r \<longrightarrow> en_kind r = JoinUrl \<and> en_consumed r = None \<longrightarrow> en_proposal r = None) \<and>
     (\<forall>i r p. proposed s i r p \<longrightarrow> (pr_scopes p \<noteq> None \<longrightarrow> pr_status p \<noteq> ProposalPending) \<and>
       (en_sponsor r = '''' \<longrightarrow> statuses s (pr_fellow p) = None))"

definition statuses_ok :: "'c enrollment_store \<Rightarrow> bool" where
  "statuses_ok s \<longleftrightarrow> (\<forall>f. statuses s f \<noteq> None \<longrightarrow> (\<exists>i r p. proposed s i r p \<and> pr_fellow p = f))"

definition credentials_ok :: "'c enrollment_store \<Rightarrow> bool" where
  "credentials_ok s \<longleftrightarrow> distinct (map fst (es_credentials s)) \<and> (\<forall>h c. creds s h = Some c \<longrightarrow>
     (\<exists>i r p. proposed s i r p \<and> pr_fellow p = cb_fellow c \<and> pr_status p \<noteq> ProposalPending))"

text \<open>A transfer is between two sponsors; the empty name is that of an unbound device.\<close>

definition transfers_ok :: "'c enrollment_store \<Rightarrow> bool" where
  "transfers_ok s \<longleftrightarrow> (\<forall>(i, t) \<in> set (es_transfers s). tr_source t \<noteq> '''' \<and> tr_target t \<noteq> '''')"

definition caps_ok :: "'c enrollment_store \<Rightarrow> bool" where
  "caps_ok s \<longleftrightarrow> (\<forall>sponsor. int (card (serving s sponsor)) \<le> fellow_limit s sponsor)"

definition enrollment_ok :: "'c enrollment_store \<Rightarrow> bool" where
  "enrollment_ok s \<longleftrightarrow> records_keyed s \<and> proposals_unique s \<and> records_ok s \<and> statuses_ok s \<and> credentials_ok s \<and>
     transfers_ok s \<and> caps_ok s"

lemmas ok_defs = records_keyed_def proposals_unique_def records_ok_def statuses_ok_def credentials_ok_def transfers_ok_def caps_ok_def

subsection \<open>The order\<close>

definition proposal_grows :: "proposal \<Rightarrow> proposal \<Rightarrow> bool" where
  "proposal_grows p p' \<longleftrightarrow> pr_id p' = pr_id p \<and> pr_fellow p' = pr_fellow p \<and> pr_flow p' = pr_flow p \<and>
     (pr_token p \<noteq> None \<longrightarrow> pr_token p' = pr_token p) \<and> (pr_status p' = ProposalPending \<longrightarrow> pr_status p = ProposalPending)"

definition record_grows :: "enrollment \<Rightarrow> enrollment \<Rightarrow> bool" where
  "record_grows r r' \<longleftrightarrow> en_id r' = en_id r \<and> en_secret r' = en_secret r \<and> en_kind r' = en_kind r \<and>
     (en_consumed r \<noteq> None \<longrightarrow> en_consumed r' = en_consumed r) \<and>
     (\<forall>p. en_proposal r = Some p \<longrightarrow> (\<exists>p'. en_proposal r' = Some p' \<and> proposal_grows p p'))"

definition ended :: "'c enrollment_store \<Rightarrow> string \<Rightarrow> bool" where
  "ended s fellow \<longleftrightarrow> statuses s fellow \<in> {Some Revoked, Some Compromised, Some Archived}"

definition same_authority :: "credential_binding \<Rightarrow> credential_binding \<Rightarrow> bool" where
  "same_authority c c' \<longleftrightarrow> cb_fellow c' = cb_fellow c \<and> cb_sponsor c' = cb_sponsor c \<and> cb_issued c' = cb_issued c \<and>
     cb_expires c' = cb_expires c \<and> cb_scopes c' = cb_scopes c \<and> cb_resources c' = cb_resources c"

definition credential_grows :: "'c enrollment_store \<Rightarrow> 'c enrollment_store \<Rightarrow> credential_binding \<Rightarrow> credential_binding \<Rightarrow> bool" where
  "credential_grows s t c c' \<longleftrightarrow> same_authority c c' \<and> (cb_revoked c \<noteq> None \<longrightarrow> cb_revoked c' \<noteq> None) \<and>
     (ended s (cb_fellow c) \<longrightarrow> ended t (cb_fellow c) \<or> cb_revoked c' \<noteq> None)"

definition evolves :: "'c enrollment_store \<Rightarrow> 'c enrollment_store \<Rightarrow> bool" where
  "evolves s t \<longleftrightarrow>
     (\<forall>i r. recs s i = Some r \<longrightarrow> (\<exists>r'. recs t i = Some r' \<and> record_grows r r')) \<and>
     (\<forall>p x. map_of (es_panic s) p = Some x \<longrightarrow> (\<exists>y. map_of (es_panic t) p = Some y \<and> x \<le> y)) \<and>
     (\<forall>h c. creds s h = Some c \<longrightarrow> (\<exists>c'. creds t h = Some c' \<and> credential_grows s t c c'))"

lemma proposal_grows_refl [simp]: "proposal_grows p p"
  by (simp add: proposal_grows_def)

lemma record_grows_refl [simp]: "record_grows r r"
  by (simp add: record_grows_def)

lemma record_grows_trans: "record_grows r r' \<Longrightarrow> record_grows r' r'' \<Longrightarrow> record_grows r r''"
  unfolding record_grows_def proposal_grows_def by fastforce

lemma credential_grows_refl [simp]: "credential_grows s s c c"
  by (simp add: credential_grows_def same_authority_def)

lemma credential_grows_trans:
  "credential_grows s t c c' \<Longrightarrow> credential_grows t u c' c'' \<Longrightarrow> credential_grows s u c c''"
  by (auto simp: credential_grows_def same_authority_def)

lemma evolves_refl [simp]: "evolves s s"
  unfolding evolves_def by (metis credential_grows_refl order_refl record_grows_refl)

lemma evolves_trans:
  assumes a: "evolves s t" and b: "evolves t u"
  shows "evolves s u"
  unfolding evolves_def
proof (intro conjI allI impI)
  fix i r assume "recs s i = Some r"
  with a obtain r' where r': "recs t i = Some r'" "record_grows r r'" unfolding evolves_def by blast
  with b obtain r'' where "recs u i = Some r''" "record_grows r' r''" unfolding evolves_def by blast
  with r' show "\<exists>r''. recs u i = Some r'' \<and> record_grows r r''" using record_grows_trans by blast
next
  fix p x assume "map_of (es_panic s) p = Some x"
  with a obtain y where y: "map_of (es_panic t) p = Some y" "x \<le> y" unfolding evolves_def by blast
  with b obtain z where "map_of (es_panic u) p = Some z" "y \<le> z" unfolding evolves_def by blast
  with y show "\<exists>z. map_of (es_panic u) p = Some z \<and> x \<le> z" by force
next
  fix h c assume "creds s h = Some c"
  with a obtain c' where c': "creds t h = Some c'" "credential_grows s t c c'" unfolding evolves_def by blast
  with b obtain c'' where "creds u h = Some c''" "credential_grows t u c' c''" unfolding evolves_def by blast
  with c' show "\<exists>c''. creds u h = Some c'' \<and> credential_grows s u c c''" using credential_grows_trans by blast
qed

definition good :: "'c enrollment_store \<Rightarrow> 'c enrollment_store \<Rightarrow> bool" where
  "good s t \<longleftrightarrow> (enrollment_ok s \<longrightarrow> enrollment_ok t \<and> evolves s t)"

lemma good_refl [simp, intro]: "good s s"
  by (simp add: good_def)

lemma good_trans: "good s t \<Longrightarrow> good t u \<Longrightarrow> good s u"
  unfolding good_def using evolves_trans by blast

lemma good_ok: "good s t \<Longrightarrow> enrollment_ok s \<Longrightarrow> enrollment_ok t"
  by (simp add: good_def)

subsection \<open>Frames\<close>

definition same_view :: "'c enrollment_store \<Rightarrow> 'c enrollment_store \<Rightarrow> bool" where
  "same_view s t \<longleftrightarrow> es_records t = es_records s \<and> es_statuses t = es_statuses s \<and> es_credentials t = es_credentials s \<and>
     es_panic t = es_panic s \<and> transfers_ok t = transfers_ok s \<and> (\<forall>sponsor. fellow_limit t sponsor = fellow_limit s sponsor)"

lemma good_frame: "same_view s t \<Longrightarrow> good s t"
proof -
  assume v: "same_view s t"
  then have ok: "enrollment_ok t = enrollment_ok s"
    by (simp add: same_view_def enrollment_ok_def ok_defs proposed_def serving_def can_serve_def)
  have "credential_grows s t c c" for c
    using v by (simp add: same_view_def credential_grows_def same_authority_def ended_def)
  then have "evolves s t"
    using v unfolding evolves_def same_view_def by (metis order_refl record_grows_refl)
  with ok show ?thesis by (simp add: good_def)
qed

lemma fellow_limit_frame:
  "es_sponsors t = es_sponsors s \<Longrightarrow> fellow_limit t sponsor = fellow_limit s sponsor"
  by (simp add: fellow_limit_def)

lemma good_put_idempotency: "good s (put_idempotency w s)"
  by (rule good_frame) (simp add: same_view_def transfers_ok_def put_idempotency_def fellow_limit_def split: option.split)

lemma good_commit [intro]: "good s t \<Longrightarrow> good s (snd (commit_idempotency w a t))"
  by (auto simp: commit_idempotency_def intro: good_trans good_put_idempotency)

lemma good_commit_if: "(idempotency_vacant w t \<Longrightarrow> good s t) \<Longrightarrow> good s s' \<Longrightarrow>
    good s (snd (if \<not> idempotency_vacant w t then (Inl e, s') else commit_idempotency w a t))"
  by auto

lemma ensure_sponsor_view: "same_view s (ensure_sponsor sponsor now s)"
  by (auto simp: same_view_def transfers_ok_def ensure_sponsor_def fellow_limit_def new_sponsor_def split: option.split)

lemmas good_ensure_sponsor = good_frame [OF ensure_sponsor_view]

subsection \<open>The Fellows that count\<close>

lemma proposed_sub: "{pr_fellow p | i r p. proposed s i r p} \<subseteq> (\<lambda>r. pr_fellow (the (en_proposal r))) ` snd ` set (es_records s)"
  by (force simp: proposed_def dest: map_of_SomeD)

lemma finite_serving [simp]: "finite (serving s sponsor)"
proof (rule finite_subset)
  show "serving s sponsor \<subseteq> {pr_fellow p | i r p. proposed s i r p}" by (auto simp: serving_def)
  show "finite {pr_fellow p | i r p. proposed s i r p}" by (rule finite_subset [OF proposed_sub]) simp
qed

lemma record_map_of: "records_keyed s \<Longrightarrow> (\<exists>i. recs s i = Some r) \<longleftrightarrow> r \<in> set (record_list s)"
  by (force simp: records_keyed_def record_list_def dest: map_of_SomeD map_of_is_SomeI)

lemma active_fellows_set: "records_keyed s \<Longrightarrow> set (active_fellows s sponsor) = serving s sponsor"
proof -
  assume k: "records_keyed s"
  have "f \<in> set (active_fellows s sponsor) \<longleftrightarrow>
      (\<exists>r \<in> set (record_list s). \<exists>p. en_proposal r = Some p \<and> pr_fellow p = f \<and> en_sponsor r = sponsor \<and> can_serve s f)" for f
    unfolding active_fellows_def set_remdups set_concat set_map UN_iff bex_simps
    by (rule bex_cong [OF refl]) (auto split: option.splits dest: sym)
  moreover have "(\<exists>r \<in> set (record_list s). Q r) \<longleftrightarrow> (\<exists>i r. recs s i = Some r \<and> Q r)" for Q
    unfolding Bex_def record_map_of [OF k, symmetric] by blast
  ultimately show ?thesis
    by (simp add: serving_def proposed_def set_eq_iff conj_assoc)
qed

lemma active_count: "records_keyed s \<Longrightarrow> active_fellow_count s sponsor = int (card (serving s sponsor))"
proof -
  assume k: "records_keyed s"
  have "distinct (active_fellows s sponsor)" by (simp add: active_fellows_def)
  then show ?thesis
    by (simp add: active_fellow_count_def active_fellows_set [OF k, symmetric] distinct_card)
qed

lemma key_of_record: "records_keyed s \<Longrightarrow> recs s i = Some r \<Longrightarrow> en_id r = i"
  by (force simp: records_keyed_def dest: map_of_SomeD)

lemma one_owner:
  "enrollment_ok s \<Longrightarrow> proposed s i r p \<Longrightarrow> proposed s j q p' \<Longrightarrow> pr_fellow p = pr_fellow p' \<Longrightarrow> i = j \<and> r = q \<and> p = p'"
  unfolding enrollment_ok_def proposals_unique_def proposed_def by (metis option.inject)

subsection \<open>Writing a record\<close>

definition unused_proposal :: "'c enrollment_store \<Rightarrow> enrollment \<Rightarrow> bool" where
  "unused_proposal s r \<longleftrightarrow> (\<forall>p. en_proposal r = Some p \<longrightarrow>
     (\<forall>j q p'. proposed s j q p' \<longrightarrow> pr_fellow p' \<noteq> pr_fellow p \<and> pr_flow p' \<noteq> pr_flow p))"

definition fine_record :: "enrollment \<Rightarrow> bool" where
  "fine_record r \<longleftrightarrow> (en_kind r = JoinUrl \<and> en_consumed r = None \<longrightarrow> en_proposal r = None) \<and>
     (\<forall>p. en_proposal r = Some p \<longrightarrow> pr_scopes p \<noteq> None \<longrightarrow> pr_status p \<noteq> ProposalPending)"

definition follows :: "'c enrollment_store \<Rightarrow> enrollment \<Rightarrow> enrollment \<Rightarrow> bool" where
  "follows s r0 r \<longleftrightarrow> record_grows r0 r \<and> (en_proposal r0 = None \<longrightarrow> unused_proposal s r) \<and>
     (en_sponsor r = en_sponsor r0 \<or> en_sponsor r \<noteq> '''' \<and> (\<forall>p. en_proposal r0 = Some p \<longrightarrow> \<not> can_serve s (pr_fellow p)))"

definition may_put :: "'c enrollment_store \<Rightarrow> enrollment \<Rightarrow> bool" where
  "may_put s r \<longleftrightarrow> fine_record r \<and> (case recs s (en_id r) of None \<Rightarrow> unused_proposal s r | Some r0 \<Rightarrow> follows s r0 r)"

lemma recs_put [simp]: "recs (put_record r s) = (recs s)(en_id r \<mapsto> r)"
  by (simp add: put_record_def)

lemma put_record_frame [simp]:
  "es_statuses (put_record r s) = es_statuses s" "es_credentials (put_record r s) = es_credentials s"
  "es_panic (put_record r s) = es_panic s" "es_sponsors (put_record r s) = es_sponsors s"
  "es_transfers (put_record r s) = es_transfers s"
  by (simp_all add: put_record_def)

lemma proposed_put:
  "proposed (put_record r s) i q p \<longleftrightarrow> (if i = en_id r then q = r \<and> en_proposal r = Some p else proposed s i q p)"
  by (auto simp: proposed_def)

text \<open>The proposal that a written record replaces, if it is one of the store.\<close>

lemma put_source:
  assumes "may_put s r" and "en_proposal r = Some p"
  shows "(\<exists>r0 p0. proposed s (en_id r) r0 p0 \<and> proposal_grows p0 p \<and> follows s r0 r) \<or> unused_proposal s r"
proof (cases "recs s (en_id r)")
  case (Some r0)
  with assms have f: "follows s r0 r" by (simp add: may_put_def)
  show ?thesis
  proof (cases "en_proposal r0")
    case (Some p0)
    then have "proposal_grows p0 p" using f assms(2) by (auto simp: follows_def record_grows_def)
    then show ?thesis using f Some \<open>recs s (en_id r) = Some r0\<close> unfolding proposed_def by blast
  qed (use f in \<open>simp add: follows_def\<close>)
qed (use assms in \<open>simp add: may_put_def\<close>)

lemma put_kept:
  assumes "may_put s r" and "proposed s i q p"
  shows "\<exists>q' p'. proposed (put_record r s) i q' p' \<and> proposal_grows p p'"
proof (cases "i = en_id r")
  case True
  then have "follows s q r" using assms by (simp add: may_put_def proposed_def)
  then show ?thesis using assms True by (auto simp: proposed_put follows_def record_grows_def proposed_def)
next
  case False
  then show ?thesis using assms proposal_grows_refl unfolding proposed_put by metis
qed

lemma put_serving:
  assumes ok: "enrollment_ok s" and m: "may_put s r"
  shows "serving (put_record r s) sponsor \<subseteq> serving s sponsor"
proof
  fix f assume "f \<in> serving (put_record r s) sponsor"
  then obtain i q p where p: "proposed (put_record r s) i q p" "pr_fellow p = f" "en_sponsor q = sponsor" "can_serve s f"
    by (auto simp: serving_def can_serve_def)
  show "f \<in> serving s sponsor"
  proof (cases "i = en_id r")
    case True
    then have q: "q = r" "en_proposal r = Some p" using p by (auto simp: proposed_put)
    have known: "\<exists>j q' p'. proposed s j q' p' \<and> pr_fellow p' = f"
      using ok p(4) unfolding enrollment_ok_def statuses_ok_def can_serve_def by (auto split: option.splits)
    then have "\<not> unused_proposal s r" using q p(2) unfolding unused_proposal_def by metis
    then obtain r0 p0 where o: "proposed s (en_id r) r0 p0" "proposal_grows p0 p" "follows s r0 r"
      using put_source [OF m q(2)] by blast
    then have "en_sponsor r = en_sponsor r0"
      using p(2,4) by (auto simp: follows_def proposed_def proposal_grows_def)
    then show ?thesis using o p q by (auto simp: serving_def proposal_grows_def intro!: exI)
  qed (use p in \<open>auto simp: serving_def proposed_put\<close>)
qed

lemma put_unique:
  assumes ok: "enrollment_ok s" and m: "may_put s r"
  shows "proposals_unique (put_record r s)"
proof -
  have u: "proposals_unique s" using ok by (simp add: enrollment_ok_def)
  have key: "en_id r = j"
    if r: "en_proposal r = Some p" and q: "proposed s j q p'" and same: "pr_fellow p = pr_fellow p' \<or> pr_flow p = pr_flow p'"
    for j q p p'
  proof -
    have "\<not> unused_proposal s r" using r q same unfolding unused_proposal_def by metis
    then obtain r0 p0 where "proposed s (en_id r) r0 p0" "proposal_grows p0 p" using put_source [OF m r] by blast
    then show ?thesis using u q same unfolding proposals_unique_def proposal_grows_def by metis
  qed
  show ?thesis
    unfolding proposals_unique_def proposed_put
  proof (intro allI impI)
    fix i q p j q' p'
    assume a: "if i = en_id r then q = r \<and> en_proposal r = Some p else proposed s i q p"
      and b: "if j = en_id r then q' = r \<and> en_proposal r = Some p' else proposed s j q' p'"
      and c: "pr_fellow p = pr_fellow p' \<or> pr_flow p = pr_flow p'"
    consider "i = en_id r" | "j = en_id r" | "i \<noteq> en_id r" "j \<noteq> en_id r" by blast
    then show "i = j"
    proof cases
      case 1
      then have "en_proposal r = Some p" using a by simp
      show ?thesis
      proof (cases "j = en_id r")
        case False
        then have "proposed s j q' p'" using b by simp
        then show ?thesis using 1 c key [OF \<open>en_proposal r = Some p\<close>, of j q' p'] by (simp only:)
      qed (simp add: 1)
    next
      case 2
      then have r: "en_proposal r = Some p'" using b by simp
      show ?thesis
      proof (cases "i = en_id r")
        case False
        then have "proposed s i q p" using a by simp
        then show ?thesis using 2 c key [OF r, of i q p] by (simp only: eq_commute)
      qed (simp add: 2)
    next
      case 3
      then have "proposed s i q p" "proposed s j q' p'" using a b by simp_all
      with c u show ?thesis unfolding proposals_unique_def by blast
    qed
  qed
qed

lemma put_keyed: "records_keyed s \<Longrightarrow> records_keyed (put_record r s)"
proof -
  assume k: "records_keyed s"
  have "set (map_put i r m) \<subseteq> insert (i, r) (set m)" for i and m :: "(string \<times> enrollment) list"
    by (induction i r m rule: map_put.induct) auto
  then show ?thesis
    using k distinct_keys_put [of "en_id r" r "es_records s"]
    by (fastforce simp: records_keyed_def put_record_def map_keys_def)
qed

lemma put_records_ok:
  assumes ok: "enrollment_ok s" and m: "may_put s r"
  shows "records_ok (put_record r s)"
proof -
  have fine: "fine_record r" using m by (simp add: may_put_def)
  have lone: "statuses s (pr_fellow p) = None" if p: "en_proposal r = Some p" and e: "en_sponsor r = ''''" for p
  proof (rule ccontr)
    assume some: "statuses s (pr_fellow p) \<noteq> None"
    then have "\<not> unused_proposal s r"
      using ok p unfolding enrollment_ok_def statuses_ok_def unused_proposal_def by metis
    then obtain r0 p0 where o: "proposed s (en_id r) r0 p0" "proposal_grows p0 p" "follows s r0 r"
      using put_source [OF m p] by blast
    then have "en_sponsor r0 = ''''" "pr_fellow p0 = pr_fellow p" using e by (auto simp: follows_def proposal_grows_def)
    then show False using ok o(1) some unfolding enrollment_ok_def records_ok_def by metis
  qed
  show ?thesis
    using ok fine lone unfolding records_ok_def proposed_put fine_record_def enrollment_ok_def
    by (auto split: if_splits)
qed

lemma good_put: assumes "may_put s r" shows "good s (put_record r s)"
  unfolding good_def
proof (intro impI conjI)
  assume ok: "enrollment_ok s"
  let ?t = "put_record r s"
  have kept: "\<exists>q' p'. proposed ?t i q' p' \<and> proposal_grows p p'" if "proposed s i q p" for i q p
    using put_kept [OF assms that] .
  have st: "statuses_ok ?t"
    using ok kept unfolding enrollment_ok_def statuses_ok_def proposal_grows_def put_record_frame by metis
  have cr: "credentials_ok ?t"
    using ok kept unfolding enrollment_ok_def credentials_ok_def proposal_grows_def put_record_frame by metis
  have "card (serving ?t sponsor) \<le> card (serving s sponsor)" for sponsor
    by (rule card_mono) (simp_all add: put_serving [OF ok assms])
  then have cap: "caps_ok ?t"
    using ok unfolding enrollment_ok_def caps_ok_def fellow_limit_def put_record_frame
    by (meson of_nat_le_iff order_trans)
  show "enrollment_ok ?t"
    using ok put_keyed put_unique [OF ok assms] put_records_ok [OF ok assms] st cr cap
    unfolding enrollment_ok_def transfers_ok_def put_record_frame by blast
  have "record_grows r0 r" if "recs s (en_id r) = Some r0" for r0
    using assms that by (simp add: may_put_def follows_def)
  then have "\<exists>r'. recs ?t i = Some r' \<and> record_grows r0 r'" if "recs s i = Some r0" for i r0
    using that by (cases "i = en_id r") auto
  moreover have "credential_grows s ?t c c" for c
    by (simp add: credential_grows_def same_authority_def ended_def)
  ultimately show "evolves s ?t"
    unfolding evolves_def put_record_frame by (metis order_refl)
qed

subsection \<open>Writing a status\<close>

definition set_status :: "string \<Rightarrow> lifecycle_status \<Rightarrow> 'c enrollment_store \<Rightarrow> 'c enrollment_store" where
  "set_status f x s = s\<lparr>es_statuses := map_put f x (es_statuses s)\<rparr>"

text \<open>The Fellow is that of a record with a sponsor, which has room if the status adds to its count.\<close>

definition may_serve :: "'c enrollment_store \<Rightarrow> string \<Rightarrow> lifecycle_status \<Rightarrow> bool" where
  "may_serve s f x \<longleftrightarrow> (\<exists>i r p. proposed s i r p \<and> pr_fellow p = f \<and> en_sponsor r \<noteq> '''' \<and>
     (can_serve s f \<or> \<not> fellow_status_can_authenticate x \<or>
      int (card (serving s (en_sponsor r))) < fellow_limit s (en_sponsor r)))"

definition stays_ended :: "'c enrollment_store \<Rightarrow> string \<Rightarrow> lifecycle_status \<Rightarrow> bool" where
  "stays_ended s f x \<longleftrightarrow> x \<in> {Revoked, Compromised, Archived} \<or> \<not> ended s f \<or>
     (\<forall>h c. creds s h = Some c \<longrightarrow> cb_fellow c = f \<longrightarrow> cb_revoked c \<noteq> None)"

lemma set_status_frame [simp]:
  "es_records (set_status f x s) = es_records s" "es_credentials (set_status f x s) = es_credentials s"
  "es_panic (set_status f x s) = es_panic s" "es_sponsors (set_status f x s) = es_sponsors s"
  "es_transfers (set_status f x s) = es_transfers s"
  "statuses (set_status f x s) = (statuses s)(f \<mapsto> x)"
  "proposed (set_status f x s) = proposed s"
  by (simp_all add: set_status_def proposed_def fun_eq_iff)

lemma can_serve_set [simp]:
  "can_serve (set_status f x s) g = (if g = f then fellow_status_can_authenticate x else can_serve s g)"
  by (simp add: can_serve_def)

lemma caps_set_status:
  assumes ok: "enrollment_ok s" and m: "may_serve s f x"
  shows "caps_ok (set_status f x s)"
proof -
  obtain i r p where p: "proposed s i r p" "pr_fellow p = f" and
    room: "can_serve s f \<or> \<not> fellow_status_can_authenticate x \<or> int (card (serving s (en_sponsor r))) < fellow_limit s (en_sponsor r)"
    using m unfolding may_serve_def by blast
  have "int (card (serving (set_status f x s) sponsor)) \<le> fellow_limit s sponsor" for sponsor
  proof (cases "f \<in> serving (set_status f x s) sponsor \<and> f \<notin> serving s sponsor")
    case True
    then obtain j q p' where q: "proposed s j q p'" "pr_fellow p' = f" "en_sponsor q = sponsor" "fellow_status_can_authenticate x"
      by (auto simp: serving_def)
    then have sp: "en_sponsor r = sponsor" using one_owner [OF ok p(1) q(1)] p(2) by simp
    then have less: "int (card (serving s sponsor)) < fellow_limit s sponsor"
      using True room q p by (auto simp: serving_def)
    have "serving (set_status f x s) sponsor \<subseteq> insert f (serving s sponsor)" by (auto simp: serving_def split: if_splits)
    then have "card (serving (set_status f x s) sponsor) \<le> card (insert f (serving s sponsor))"
      by (rule card_mono [rotated]) simp
    also have "\<dots> \<le> Suc (card (serving s sponsor))" by (simp add: card_insert_le_m1 card_insert_if)
    finally show ?thesis using less by linarith
  next
    case False
    then have "serving (set_status f x s) sponsor \<subseteq> serving s sponsor" by (auto simp: serving_def split: if_splits)
    then have "card (serving (set_status f x s) sponsor) \<le> card (serving s sponsor)" by (rule card_mono [rotated]) simp
    then show ?thesis using ok unfolding enrollment_ok_def caps_ok_def by (meson of_nat_le_iff order_trans)
  qed
  then show ?thesis by (simp add: caps_ok_def fellow_limit_def)
qed

lemma good_set_status:
  assumes m: "may_serve s f x" and e: "stays_ended s f x"
  shows "good s (set_status f x s)"
  unfolding good_def
proof (intro impI conjI)
  assume ok: "enrollment_ok s"
  obtain i r p where p: "proposed s i r p" "pr_fellow p = f" "en_sponsor r \<noteq> ''''"
    using m unfolding may_serve_def by blast
  then have named: "en_sponsor q \<noteq> ''''" if "proposed s j q p'" "pr_fellow p' = f" for j q p'
    using one_owner [OF ok p(1) that(1)] that(2) by auto
  have "records_ok (set_status f x s)"
    using ok named unfolding enrollment_ok_def records_ok_def by auto
  moreover have "statuses_ok (set_status f x s)"
    using ok p unfolding enrollment_ok_def statuses_ok_def by auto
  ultimately show "enrollment_ok (set_status f x s)"
    using ok caps_set_status [OF ok m]
    by (simp add: enrollment_ok_def records_keyed_def proposals_unique_def credentials_ok_def transfers_ok_def)
  have "credential_grows s (set_status f x s) c c" if "creds s h = Some c" for h c
    using e that unfolding credential_grows_def same_authority_def ended_def stays_ended_def by auto
  then show "evolves s (set_status f x s)"
    unfolding evolves_def set_status_frame by (metis order_refl record_grows_refl)
qed

subsection \<open>Writing credentials\<close>

definition set_credentials :: "(string \<times> credential_binding) list \<Rightarrow> 'c enrollment_store \<Rightarrow> 'c enrollment_store" where
  "set_credentials cs s = s\<lparr>es_credentials := cs\<rparr>"

definition decided :: "'c enrollment_store \<Rightarrow> string \<Rightarrow> bool" where
  "decided s f \<longleftrightarrow> (\<exists>i r p. proposed s i r p \<and> pr_fellow p = f \<and> pr_status p \<noteq> ProposalPending)"

lemma good_credentials:
  assumes keys: "distinct (map fst (es_credentials s)) \<Longrightarrow> distinct (map fst cs)"
    and new: "\<And>h c. map_of cs h = Some c \<Longrightarrow> decided s (cb_fellow c)"
    and old: "\<And>h c. creds s h = Some c \<Longrightarrow> \<exists>c'. map_of cs h = Some c' \<and> same_authority c c' \<and> (cb_revoked c \<noteq> None \<longrightarrow> cb_revoked c' \<noteq> None)"
  shows "good s (set_credentials cs s)"
  unfolding good_def
proof (intro impI conjI)
  assume ok: "enrollment_ok s"
  let ?t = "set_credentials cs s"
  have frame: "es_records ?t = es_records s" "es_statuses ?t = es_statuses s" "es_panic ?t = es_panic s"
    "es_sponsors ?t = es_sponsors s" "es_transfers ?t = es_transfers s" "es_credentials ?t = cs"
    by (simp_all add: set_credentials_def)
  have p: "proposed ?t = proposed s" by (simp add: fun_eq_iff proposed_def frame)
  have "credentials_ok ?t"
    using ok new keys unfolding enrollment_ok_def credentials_ok_def frame p decided_def by blast
  then show "enrollment_ok ?t"
    using ok by (simp add: enrollment_ok_def records_keyed_def proposals_unique_def records_ok_def statuses_ok_def
      transfers_ok_def caps_ok_def frame p serving_def can_serve_def fellow_limit_def)
  have "\<exists>c'. map_of cs h = Some c' \<and> credential_grows s ?t c c'" if c: "creds s h = Some c" for h c
    using old [OF c] by (auto simp: credential_grows_def ended_def frame)
  then show "evolves s ?t"
    unfolding evolves_def frame by (metis order_refl record_grows_refl)
qed

lemma decided_credential: "enrollment_ok s \<Longrightarrow> creds s h = Some c \<Longrightarrow> decided s (cb_fellow c)"
  unfolding enrollment_ok_def credentials_ok_def decided_def by blast

lemma good_ok_imp: "(enrollment_ok s \<Longrightarrow> good s t) \<Longrightarrow> good s t"
  by (simp add: good_def)

text \<open>A new credential of a decided Fellow, under a token hash that is not in use.\<close>

lemma good_issue:
  assumes "creds s h = None" and "decided s (cb_fellow c)"
  shows "good s (set_credentials (map_put h c (es_credentials s)) s)"
proof (rule good_ok_imp, rule good_credentials)
  assume "distinct (map fst (es_credentials s))"
  then show "distinct (map fst (map_put h c (es_credentials s)))" by (simp only: map_keys_def [symmetric] distinct_keys_put)
next
  fix h' c' assume ok: "enrollment_ok s" and "map_of (map_put h c (es_credentials s)) h' = Some c'"
  then show "decided s (cb_fellow c')"
    using assms decided_credential [OF ok] by (auto split: if_splits)
next
  fix h' c' assume "creds s h' = Some c'"
  then show "\<exists>c''. map_of (map_put h c (es_credentials s)) h' = Some c'' \<and> same_authority c' c'' \<and> (cb_revoked c' \<noteq> None \<longrightarrow> cb_revoked c'' \<noteq> None)"
    using assms(1) by (auto simp: same_authority_def)
qed

lemma good_update:
  assumes "creds s h = Some c" and "same_authority c c'" and "cb_revoked c \<noteq> None \<longrightarrow> cb_revoked c' \<noteq> None"
  shows "good s (set_credentials (map_put h c' (es_credentials s)) s)"
proof (rule good_ok_imp, rule good_credentials)
  assume "distinct (map fst (es_credentials s))"
  then show "distinct (map fst (map_put h c' (es_credentials s)))" by (simp only: map_keys_def [symmetric] distinct_keys_put)
next
  fix h' c'' assume ok: "enrollment_ok s" and "map_of (map_put h c' (es_credentials s)) h' = Some c''"
  then show "decided s (cb_fellow c'')"
    using assms decided_credential [OF ok] by (auto simp: same_authority_def split: if_splits)
next
  fix h' d assume "creds s h' = Some d"
  then show "\<exists>d'. map_of (map_put h c' (es_credentials s)) h' = Some d' \<and> same_authority d d' \<and> (cb_revoked d \<noteq> None \<longrightarrow> cb_revoked d' \<noteq> None)"
    using assms by (auto simp: same_authority_def)
qed

lemma creds_revoke_all:
  "creds (revoke_all P now s) h = map_option (\<lambda>c. if P c then c\<lparr>cb_revoked := Some now\<rparr> else c) (creds s h)"
proof -
  have "map_of (map (\<lambda>(h, c). (h, g c)) m) h = map_option g (map_of m h)" for g and m :: "(string \<times> credential_binding) list"
    by (induction m) auto
  then show ?thesis by (simp add: revoke_all_def)
qed

lemma good_revoke_all: "good s (revoke_all P now s)"
proof -
  let ?cs = "es_credentials (revoke_all P now s)"
  have "good s (set_credentials ?cs s)"
  proof (rule good_ok_imp, rule good_credentials)
    have "map fst ?cs = map fst (es_credentials s)" by (simp add: revoke_all_def case_prod_unfold)
    then show "distinct (map fst (es_credentials s)) \<Longrightarrow> distinct (map fst ?cs)" by simp
  next
    fix h c assume ok: "enrollment_ok s" and "map_of ?cs h = Some c"
    then show "decided s (cb_fellow c)"
      using decided_credential [OF ok] by (auto simp: creds_revoke_all split: if_splits)
  next
    fix h c assume "creds s h = Some c"
    then show "\<exists>c'. map_of ?cs h = Some c' \<and> same_authority c c' \<and> (cb_revoked c \<noteq> None \<longrightarrow> cb_revoked c' \<noteq> None)"
      by (simp add: creds_revoke_all same_authority_def)
  qed
  then show ?thesis by (simp add: set_credentials_def revoke_all_def)
qed

subsection \<open>Panic and caps\<close>

lemma good_panic:
  assumes "\<And>x. map_of (es_panic s) sponsor = Some x \<Longrightarrow> x \<le> t"
  shows "good s (s\<lparr>es_panic := map_put sponsor t (es_panic s)\<rparr>)"
  unfolding good_def
proof (intro impI conjI)
  assume ok: "enrollment_ok s"
  let ?t = "s\<lparr>es_panic := map_put sponsor t (es_panic s)\<rparr>"
  have p: "proposed ?t = proposed s" by (simp add: fun_eq_iff proposed_def)
  show "enrollment_ok ?t"
    using ok by (simp add: enrollment_ok_def records_keyed_def proposals_unique_def records_ok_def statuses_ok_def
      credentials_ok_def transfers_ok_def caps_ok_def p serving_def can_serve_def fellow_limit_def)
  have "credential_grows s ?t c c" for c by (simp add: credential_grows_def same_authority_def ended_def)
  then show "evolves s ?t"
    using assms unfolding evolves_def by (auto intro: exI)
qed

lemma good_limits:
  assumes frame: "es_records t = es_records s" "es_statuses t = es_statuses s" "es_credentials t = es_credentials s"
      "es_panic t = es_panic s" "transfers_ok s \<longrightarrow> transfers_ok t"
    and limit: "\<And>sponsor. records_keyed s \<Longrightarrow> active_fellow_count s sponsor \<le> fellow_limit s sponsor \<Longrightarrow>
      active_fellow_count s sponsor \<le> fellow_limit t sponsor"
  shows "good s t"
  unfolding good_def
proof (intro impI conjI)
  assume ok: "enrollment_ok s"
  then have k: "records_keyed s" by (simp add: enrollment_ok_def)
  have p: "proposed t = proposed s" by (simp add: fun_eq_iff proposed_def frame)
  have sv: "serving t = serving s" by (simp add: fun_eq_iff serving_def p can_serve_def frame)
  have "caps_ok t"
    using ok limit [OF k] by (simp add: enrollment_ok_def caps_ok_def sv active_count [OF k])
  then show "enrollment_ok t"
    using ok frame(5) by (simp add: enrollment_ok_def records_keyed_def proposals_unique_def records_ok_def statuses_ok_def
      credentials_ok_def frame(1-4) p)
  have "credential_grows s t c c" for c by (simp add: credential_grows_def same_authority_def ended_def frame)
  then show "evolves s t"
    unfolding evolves_def frame(1-4) by (metis order_refl record_grows_refl)
qed

lemma good_frame_fields:
  assumes "es_records t = es_records s" "es_statuses t = es_statuses s" "es_credentials t = es_credentials s"
    "es_panic t = es_panic s" "es_sponsors t = es_sponsors s" "transfers_ok s \<longrightarrow> transfers_ok t"
  shows "good s t"
  by (rule good_limits) (use assms in \<open>simp_all add: fellow_limit_def\<close>)

end
