(* ===== verification/EnrollmentPairingLaws.thy ===== *)
theory EnrollmentPairingLaws
  imports EnrollmentLaws
begin

section \<open>Pairing keeps the laws of the enrollment store\<close>

text \<open>
  Writing a record, or all of them, and the operations from the creation of an enrollment to
  its cards. What the service makes fresh is named by the premises.
\<close>

subsection \<open>Records that are replaced\<close>

definition keeps :: "enrollment \<Rightarrow> enrollment \<Rightarrow> bool" where
  "keeps r r' \<longleftrightarrow> record_grows r r' \<and> en_sponsor r' = en_sponsor r \<and> (en_proposal r = None \<longrightarrow> en_proposal r' = None) \<and>
     (\<forall>p p'. en_proposal r = Some p \<longrightarrow> en_proposal r' = Some p' \<longrightarrow> pr_status p' = ProposalPending \<longrightarrow> pr_scopes p' = pr_scopes p)"

lemma keeps_refl [simp]: "keeps r r"
  by (simp add: keeps_def)

lemma fine_recorded: "enrollment_ok s \<Longrightarrow> recs s i = Some r \<Longrightarrow> fine_record r"
  unfolding enrollment_ok_def records_ok_def fine_record_def proposed_def by metis

lemma keeps_basic:
  assumes "keeps r r'"
  shows "en_id r' = en_id r" "en_kind r' = en_kind r" "en_sponsor r' = en_sponsor r" "record_grows r r'"
    "en_consumed r' = None \<Longrightarrow> en_consumed r = None" "en_proposal r = None \<Longrightarrow> en_proposal r' = None"
  using assms unfolding keeps_def record_grows_def by (blast, blast, blast, blast, metis, blast)

lemma keeps_source:
  assumes "keeps r r'" and "en_proposal r' = Some p'"
  shows "\<exists>p. en_proposal r = Some p \<and> proposal_grows p p' \<and> (pr_status p' = ProposalPending \<longrightarrow> pr_scopes p' = pr_scopes p)"
proof (cases "en_proposal r")
  case None
  then show ?thesis using keeps_basic(6) [OF assms(1)] assms(2) by simp
next
  case (Some p)
  then obtain p'' where "en_proposal r' = Some p''" "proposal_grows p p''"
    using assms(1) unfolding keeps_def record_grows_def by blast
  then show ?thesis using assms Some unfolding keeps_def by simp
qed

lemma keeps_fine:
  assumes k: "keeps r r'" and f: "fine_record r"
  shows "fine_record r'"
proof -
  have "en_proposal r' = None" if "en_kind r' = JoinUrl" "en_consumed r' = None"
    using keeps_basic [OF k] f that by (simp add: fine_record_def)
  moreover have "pr_status p' \<noteq> ProposalPending" if p': "en_proposal r' = Some p'" "pr_scopes p' \<noteq> None" for p'
  proof
    assume "pr_status p' = ProposalPending"
    then obtain p where "en_proposal r = Some p" "pr_scopes p' = pr_scopes p" "pr_status p = ProposalPending"
      using keeps_source [OF k p'(1)] by (auto simp: proposal_grows_def)
    then show False using f p' by (simp add: fine_record_def)
  qed
  ultimately show ?thesis unfolding fine_record_def by blast
qed

lemma good_keep:
  assumes r: "recs s i = Some r" and k: "keeps r r'"
  shows "good s (put_record r' s)"
proof (rule good_ok_imp, rule good_put)
  assume ok: "enrollment_ok s"
  then have "en_id r = i" using r key_of_record by (auto simp: enrollment_ok_def)
  then have "recs s (en_id r') = Some r" using r keeps_basic(1) [OF k] by simp
  moreover have "fine_record r'" using keeps_fine [OF k fine_recorded [OF ok r]] .
  ultimately show "may_put s r'" using k by (simp add: may_put_def follows_def unused_proposal_def keeps_def)
qed

text \<open>A proposal whose identity, token and decision are kept.\<close>

lemma keeps_proposal:
  assumes "en_proposal r = Some p" and "proposal_grows p p'" and "pr_status p' = ProposalPending \<longrightarrow> pr_scopes p' = pr_scopes p"
  shows "keeps r (r\<lparr>en_proposal := Some p'\<rparr>)"
  using assms by (simp add: keeps_def record_grows_def)

lemma good_proposal:
  assumes "recs s i = Some r" and "en_proposal r = Some p" and "proposal_grows p p'"
    and "pr_status p' = ProposalPending \<longrightarrow> pr_scopes p' = pr_scopes p"
  shows "good s (put_proposal r p' s)"
  unfolding put_proposal_def by (rule good_keep [OF assms(1) keeps_proposal [OF assms(2-4)]])

lemma grows_lapsed [simp]: "proposal_grows p (p\<lparr>pr_status := ProposalLapsed\<rparr>)"
  by (simp add: proposal_grows_def)

lemma keeps_lapse: "keeps r (lapse_due r now)"
  by (auto simp: lapse_due_def intro: keeps_proposal split: option.split)

lemma found_record:
  assumes "records_keyed s" and "find P (record_list s) = Some r"
  shows "P r" and "recs s (en_id r) = Some r"
proof -
  have r: "r \<in> set (record_list s)" "P r" using assms(2) by (auto simp: find_Some_iff)
  then obtain i where "recs s i = Some r" using record_map_of [OF assms(1)] by blast
  then show "recs s (en_id r) = Some r" "P r" using key_of_record [OF assms(1)] r by auto
qed

lemma recs_map: "map_of (map (\<lambda>(i, r). (i, g r)) m) i = map_option g (map_of m i)"
  by (induction m) auto

definition mapped :: "(enrollment \<Rightarrow> enrollment) \<Rightarrow> 'c enrollment_store \<Rightarrow> 'c enrollment_store" where
  "mapped g s = s\<lparr>es_records := map (\<lambda>(i, r). (i, g r)) (es_records s)\<rparr>"

lemma mapped_frame [simp]:
  "recs (mapped g s) i = map_option g (recs s i)"
  "es_statuses (mapped g s) = es_statuses s" "es_credentials (mapped g s) = es_credentials s"
  "es_panic (mapped g s) = es_panic s" "es_sponsors (mapped g s) = es_sponsors s"
  "es_transfers (mapped g s) = es_transfers s" "map fst (es_records (mapped g s)) = map fst (es_records s)"
  by (simp_all add: mapped_def recs_map) (simp add: case_prod_unfold)

lemma mapped_source:
  assumes k: "\<And>r. keeps r (g r)" and p: "proposed (mapped g s) i q p'"
  shows "\<exists>r p. proposed s i r p \<and> q = g r \<and> proposal_grows p p'"
proof -
  obtain r where r: "recs s i = Some r" "q = g r" "en_proposal (g r) = Some p'" using p by (auto simp: proposed_def)
  then show ?thesis using keeps_source [OF k r(3)] unfolding proposed_def by blast
qed

lemma mapped_forth:
  assumes k: "\<And>r. keeps r (g r)" and p: "proposed s i r p"
  shows "\<exists>p'. proposed (mapped g s) i (g r) p' \<and> proposal_grows p p'"
  using p keeps_basic(4) [OF k, of r] by (auto simp: proposed_def record_grows_def)

lemma mapped_keyed:
  assumes k: "\<And>r. keeps r (g r)" and ok: "records_keyed s"
  shows "records_keyed (mapped g s)"
proof -
  have "distinct (map fst (es_records (mapped g s)))" using ok by (simp only: records_keyed_def mapped_frame)
  moreover have "\<forall>(i, r) \<in> set (es_records (mapped g s)). en_id r = i"
    using ok keeps_basic(1) [OF k] by (auto simp: records_keyed_def mapped_def)
  ultimately show ?thesis unfolding records_keyed_def by blast
qed

lemma mapped_records_ok:
  assumes k: "\<And>r. keeps r (g r)" and ok: "enrollment_ok s"
  shows "records_ok (mapped g s)"
proof -
  have fine: "fine_record q" if "recs (mapped g s) i = Some q" for i q
    using that keeps_fine [OF k fine_recorded [OF ok]] by auto
  have "statuses (mapped g s) (pr_fellow p') = None" if q: "proposed (mapped g s) i q p'" "en_sponsor q = ''''" for i q p'
  proof -
    obtain r p where r: "proposed s i r p" "q = g r" "proposal_grows p p'" using mapped_source [OF k q(1)] by blast
    then have "en_sponsor r = ''''" using q(2) keeps_basic(3) [OF k] by simp
    then have "statuses s (pr_fellow p) = None" using ok r(1) unfolding enrollment_ok_def records_ok_def by blast
    then show ?thesis using r(3) by (simp add: proposal_grows_def)
  qed
  then show ?thesis using fine unfolding records_ok_def fine_record_def proposed_def by blast
qed

lemma mapped_known:
  assumes k: "\<And>r. keeps r (g r)" and ok: "enrollment_ok s"
  shows "statuses_ok (mapped g s)" and "credentials_ok (mapped g s)"
proof -
  show "statuses_ok (mapped g s)"
    unfolding statuses_ok_def
  proof (intro allI impI)
    fix f assume "statuses (mapped g s) f \<noteq> None"
    then obtain i r p where r: "proposed s i r p" "pr_fellow p = f"
      using ok unfolding enrollment_ok_def statuses_ok_def by auto
    then show "\<exists>i r p. proposed (mapped g s) i r p \<and> pr_fellow p = f"
      using mapped_forth [OF k r(1)] unfolding proposal_grows_def by metis
  qed
next
  have "decided (mapped g s) f" if "decided s f" for f
    using that mapped_forth [OF k] unfolding decided_def proposal_grows_def by metis
  then show "credentials_ok (mapped g s)"
    using decided_credential [OF ok] ok unfolding credentials_ok_def decided_def enrollment_ok_def mapped_frame by metis
qed

lemma mapped_caps:
  assumes k: "\<And>r. keeps r (g r)" and ok: "caps_ok s"
  shows "caps_ok (mapped g s)"
proof -
  have "serving (mapped g s) sponsor \<subseteq> serving s sponsor" for sponsor
  proof
    fix f assume "f \<in> serving (mapped g s) sponsor"
    then obtain i q p' where q: "proposed (mapped g s) i q p'" "pr_fellow p' = f" "en_sponsor q = sponsor" "can_serve s f"
      by (auto simp: serving_def can_serve_def)
    then obtain r p where "proposed s i r p" "en_sponsor r = sponsor" "pr_fellow p = f"
      using mapped_source [OF k q(1)] keeps_basic(3) [OF k] unfolding proposal_grows_def by metis
    then show "f \<in> serving s sponsor" using q(4) unfolding serving_def by blast
  qed
  then have "card (serving (mapped g s) sponsor) \<le> card (serving s sponsor)" for sponsor by (rule card_mono [rotated]) simp
  then show ?thesis
    using ok unfolding caps_ok_def fellow_limit_def mapped_frame by (meson of_nat_le_iff order_trans)
qed

lemma good_mapped:
  assumes k: "\<And>r. keeps r (g r)"
  shows "good s (mapped g s)"
  unfolding good_def
proof (intro impI conjI)
  assume ok: "enrollment_ok s"
  have "proposals_unique (mapped g s)"
    using ok mapped_source [OF k] unfolding enrollment_ok_def proposals_unique_def proposal_grows_def by metis
  then show "enrollment_ok (mapped g s)"
    using ok mapped_keyed [OF k] mapped_records_ok [OF k ok] mapped_known [OF k ok] mapped_caps [OF k]
    unfolding enrollment_ok_def transfers_ok_def mapped_frame by blast
  have "credential_grows s (mapped g s) c c" for c by (simp add: credential_grows_def same_authority_def ended_def)
  then show "evolves s (mapped g s)"
    using keeps_basic(4) [OF k] unfolding evolves_def mapped_frame by (auto intro: exI)
qed

subsection \<open>The idempotency write\<close>

lemma put_idempotency_frame [simp]:
  "es_records (put_idempotency w s) = es_records s" "es_statuses (put_idempotency w s) = es_statuses s"
  "es_credentials (put_idempotency w s) = es_credentials s" "es_panic (put_idempotency w s) = es_panic s"
  "es_sponsors (put_idempotency w s) = es_sponsors s" "es_transfers (put_idempotency w s) = es_transfers s"
  "es_status_changed (put_idempotency w s) = es_status_changed s" "es_cap_seq (put_idempotency w s) = es_cap_seq s"
  by (simp_all add: put_idempotency_def split: option.split)

text \<open>What the laws see of a store.\<close>

lemma view_idempotency [simp]:
  "proposed (put_idempotency w s) = proposed s" "can_serve (put_idempotency w s) = can_serve s"
  "serving (put_idempotency w s) = serving s" "fellow_limit (put_idempotency w s) = fellow_limit s"
  "ended (put_idempotency w s) = ended s" "decided (put_idempotency w s) = decided s"
  by (simp_all add: fun_eq_iff proposed_def can_serve_def serving_def fellow_limit_def ended_def decided_def)

subsection \<open>Pairing\<close>

lemma keeps_invalidated: "keeps r (r\<lparr>en_invalidated := True\<rparr>)"
  by (simp add: keeps_def record_grows_def)

definition new_enrollment :: "enrollment \<Rightarrow> bool" where
  "new_enrollment r \<longleftrightarrow> en_kind r = JoinUrl \<and> en_consumed r = None \<and> en_proposal r = None"

lemma good_new_record:
  assumes "recs s (en_id r) = None" and "new_enrollment r"
  shows "good s (put_record r s)"
  by (rule good_put) (use assms in \<open>simp add: may_put_def unused_proposal_def fine_record_def new_enrollment_def\<close>)

lemma create_good:
  assumes new: "new_enrollment record"
  shows "good s (snd (create_enrollment record replaces w s))"
proof (rule good_ok_imp)
  assume ok: "enrollment_ok s"
  have "good s (put_record record (put_record (r\<lparr>en_invalidated := True\<rparr>) s))"
    if r: "recs s i = Some r" and fresh: "recs s (en_id record) = None" for r i
  proof (rule good_trans [OF good_keep [OF r keeps_invalidated] good_new_record [OF _ new]])
    have "en_id r = i" using ok r key_of_record by (auto simp: enrollment_ok_def)
    then show "recs (put_record (r\<lparr>en_invalidated := True\<rparr>) s) (en_id record) = None" using r fresh by auto
  qed
  moreover have "good s (put_record record s)" if "recs s (en_id record) = None"
    using good_new_record [OF that new] .
  ultimately show ?thesis
    unfolding create_enrollment_def Let_def
    by (cases "Option.bind replaces (recs s)") (auto simp: good_commit bind_eq_Some_conv)
qed

text \<open>The proposal of a claim is pending and names a Fellow and a flow that no record has.\<close>

definition new_proposal :: "proposal \<Rightarrow> bool" where
  "new_proposal p \<longleftrightarrow> pr_status p = ProposalPending \<and> pr_scopes p = None \<and> pr_token p = None"

definition unused_names :: "'c enrollment_store \<Rightarrow> proposal \<Rightarrow> bool" where
  "unused_names s p \<longleftrightarrow> (\<forall>r \<in> set (record_list s).
     case en_proposal r of None \<Rightarrow> True | Some q \<Rightarrow> pr_fellow q \<noteq> pr_fellow p \<and> pr_flow q \<noteq> pr_flow p)"

lemma unused_names_records: "unused_names s p \<longleftrightarrow>
    (\<forall>r \<in> set (record_list s). \<forall>q. en_proposal r = Some q \<longrightarrow> pr_fellow q \<noteq> pr_fellow p \<and> pr_flow q \<noteq> pr_flow p)"
  unfolding unused_names_def by (rule ball_cong [OF refl]) (simp split: option.split)

lemma unused_names_iff: "records_keyed s \<Longrightarrow> unused_names s p \<longleftrightarrow>
    (\<forall>j q p'. proposed s j q p' \<longrightarrow> pr_fellow p' \<noteq> pr_fellow p \<and> pr_flow p' \<noteq> pr_flow p)"
  using record_map_of [of s] unfolding unused_names_records proposed_def by metis

definition device_secret :: "'c enrollment_store \<Rightarrow> string \<Rightarrow> string \<Rightarrow> bool" where
  "device_secret s i secret \<longleftrightarrow> (\<exists>r. recs s i = Some r \<and> en_kind r = Device \<and> en_secret r = secret)"

lemma claim_good:
  assumes new: "new_proposal p" and names: "unused_names s p" and secret: "\<not> device_secret s i secret"
  shows "good s (snd (claim_enrollment i secret p now w s))"
proof (rule good_ok_imp)
  assume ok: "enrollment_ok s"
  have "good s (put_record (r\<lparr>en_consumed := Some now, en_proposal := Some p\<rparr>) s)"
    if r: "recs s i = Some r" and c: "claimable r secret now" for r
  proof (rule good_put)
    have "en_kind r = JoinUrl"
      using secret r c by (cases "en_kind r") (auto simp: device_secret_def claimable_def)
    then have "en_proposal r = None"
      using fine_recorded [OF ok r] c by (simp add: fine_record_def claimable_def)
    moreover have "en_id r = i" using ok r key_of_record by (auto simp: enrollment_ok_def)
    moreover have "unused_proposal s (r\<lparr>en_consumed := Some now, en_proposal := Some p\<rparr>)"
      using ok names unused_names_iff [of s p] by (simp add: unused_proposal_def enrollment_ok_def)
    ultimately show "may_put s (r\<lparr>en_consumed := Some now, en_proposal := Some p\<rparr>)"
      using r c new by (simp add: may_put_def follows_def fine_record_def record_grows_def claimable_def new_proposal_def)
  qed
  then show ?thesis
    unfolding claim_enrollment_def by (auto simp: good_commit split: option.split)
qed

lemma put_lapse_good: "recs s i = Some r \<Longrightarrow> good s (put_record (lapse_due r now) s)"
  by (rule good_keep [OF _ keeps_lapse])

lemma cards_good:
  "good s (snd (approval_card_of i sponsor now s))" "good s (snd (device_card_for_decision i now s))"
  by (auto simp: approval_card_of_def device_card_for_decision_def read_card_def put_lapse_good split: option.split)

lemma pending_cards_good: "good s (snd (pending_approval_cards sponsor now s))"
proof -
  have "good s (mapped (\<lambda>r. if en_sponsor r = sponsor then lapse_due r now else r) s)"
    by (rule good_mapped) (simp add: keeps_lapse)
  then show ?thesis by (simp add: pending_approval_cards_def Let_def mapped_def)
qed

lemma bootstrap_good: "good s (snd (bootstrap_sponsor sponsor now s))"
  by (simp add: bootstrap_sponsor_def good_ensure_sponsor)

end
