(* ===== verification/EnrollmentFlowLaws.thy ===== *)
theory EnrollmentFlowLaws
  imports EnrollmentPairingLaws
begin

section \<open>Decisions, devices and polls keep the laws of the enrollment store\<close>

text \<open>
  The decision of a sponsor, the device flow, the poll with the issue of a credential, and
  authentication.
\<close>

subsection \<open>The decision\<close>

lemma grows_denied [simp]: "proposal_grows p (p\<lparr>pr_status := ProposalDenied\<rparr>)"
  by (simp add: proposal_grows_def)

text \<open>A pending proposal of an unbound device names no Fellow that serves.\<close>

lemma unbound_not_serving:
  "enrollment_ok s \<Longrightarrow> proposed s i r p \<Longrightarrow> en_sponsor r = '''' \<Longrightarrow> \<not> can_serve s (pr_fellow p)"
  unfolding enrollment_ok_def records_ok_def can_serve_def by (metis option.simps(4))

text \<open>The decider binds the record of its own or of an unbound device.\<close>

lemma good_decided:
  assumes ok: "enrollment_ok s" and r: "recs s i = Some r" and p: "en_proposal r = Some p"
    and sponsor: "en_sponsor r = sponsor \<or> en_sponsor r = ''''" "sponsor \<noteq> ''''"
    and grows: "proposal_grows p p'" "pr_status p' \<noteq> ProposalPending"
  shows "good s (put_proposal (r\<lparr>en_sponsor := sponsor\<rparr>) p' s)"
  unfolding put_proposal_def
proof (rule good_put)
  have "en_id r = i" using ok r key_of_record by (auto simp: enrollment_ok_def)
  moreover have "\<not> can_serve s (pr_fellow p)" if "en_sponsor r = ''''"
    using unbound_not_serving [OF ok _ that, of i p] r p by (simp add: proposed_def)
  moreover have "fine_record r" using fine_recorded [OF ok r] .
  ultimately show "may_put s (r\<lparr>en_sponsor := sponsor, en_proposal := Some p'\<rparr>)"
    using assms by (auto simp: may_put_def follows_def record_grows_def fine_record_def)
qed

lemma pending_has_no_credential:
  assumes ok: "enrollment_ok s" and p: "proposed s i r p" "pr_status p = ProposalPending"
  shows "creds s h = Some c \<Longrightarrow> cb_fellow c \<noteq> pr_fellow p"
  using decided_credential [OF ok, of h c] one_owner [OF ok p(1)] p(2) unfolding decided_def by metis

lemma ensure_sponsor_frame [simp]:
  "es_records (ensure_sponsor sponsor now s) = es_records s" "es_statuses (ensure_sponsor sponsor now s) = es_statuses s"
  "es_credentials (ensure_sponsor sponsor now s) = es_credentials s" "es_panic (ensure_sponsor sponsor now s) = es_panic s"
  "es_transfers (ensure_sponsor sponsor now s) = es_transfers s"
  by (simp_all add: ensure_sponsor_def split: option.split)

definition granted_proposal :: "proposal \<Rightarrow> sponsor_decision \<Rightarrow> int \<Rightarrow> requested_scope list \<Rightarrow> resource_grants \<Rightarrow> proposal" where
  "granted_proposal p d now scopes resources =
     p\<lparr>pr_status := (if d = Approve then ProposalApproved else ProposalReduced), pr_scopes := Some scopes,
       pr_resources := Some resources, pr_granted := Some now\<rparr>"

text \<open>The grant is the record with its sponsor, then the status, in a frame.\<close>

lemma grant_view:
  "same_view (set_status (pr_fellow p) Active (put_proposal (r\<lparr>en_sponsor := sponsor\<rparr>) (granted_proposal p d now scopes resources) s))
     (grant_proposal r p sponsor d now scopes resources s)"
proof -
  let ?t = "grant_proposal r p sponsor d now scopes resources s"
  have "es_sponsors ?t = es_sponsors (ensure_sponsor sponsor now s)"
    by (simp add: grant_proposal_def Let_def put_proposal_def)
  then have "fellow_limit ?t sp = fellow_limit s sp" for sp
    using ensure_sponsor_view [of s sponsor now] fellow_limit_frame [of ?t "ensure_sponsor sponsor now s" sp] by (simp add: same_view_def)
  then show ?thesis
    by (simp add: same_view_def grant_proposal_def granted_proposal_def Let_def put_proposal_def put_record_def set_status_def
      transfers_ok_def fellow_limit_def)
qed

lemma grant_good:
  assumes ok: "enrollment_ok s" and r: "recs s i = Some r" and p: "en_proposal r = Some p" "pr_status p = ProposalPending"
    and sponsor: "en_sponsor r = sponsor \<or> en_sponsor r = ''''" "sponsor \<noteq> ''''"
    and room: "active_fellow_count s sponsor < fellow_limit s sponsor"
  shows "good s (grant_proposal r p sponsor d now scopes resources s)"
proof -
  let ?p = "granted_proposal p d now scopes resources"
  let ?t = "put_proposal (r\<lparr>en_sponsor := sponsor\<rparr>) ?p s"
  have key: "en_id r = i" "records_keyed s" using ok r key_of_record by (auto simp: enrollment_ok_def)
  have g: "proposal_grows p ?p" "pr_status ?p \<noteq> ProposalPending" "pr_fellow ?p = pr_fellow p"
    by (simp_all add: granted_proposal_def proposal_grows_def p(2))
  have t: "good s ?t" by (rule good_decided [OF ok r p(1) sponsor g(1,2)])
  have frame: "es_statuses ?t = es_statuses s" "es_credentials ?t = es_credentials s" "fellow_limit ?t sponsor = fellow_limit s sponsor"
    by (simp_all add: put_proposal_def fellow_limit_def)
  have new: "proposed ?t i (r\<lparr>en_sponsor := sponsor, en_proposal := Some ?p\<rparr>) ?p"
    using key by (simp add: put_proposal_def proposed_put)
  have "can_serve ?t (pr_fellow p) \<or> int (card (serving ?t sponsor)) < fellow_limit ?t sponsor"
  proof (cases "can_serve s (pr_fellow p)")
    case False
    then have "serving ?t sponsor \<subseteq> serving s sponsor"
      using key g(3) by (auto simp: serving_def put_proposal_def proposed_put can_serve_def split: if_splits)
    then have "card (serving ?t sponsor) \<le> card (serving s sponsor)" by (rule card_mono [rotated]) simp
    then show ?thesis using room by (simp add: active_count [OF key(2)] frame)
  qed (simp add: can_serve_def frame)
  then have "may_serve ?t (pr_fellow p) Active"
    using new sponsor(2) g(3) unfolding may_serve_def by fastforce
  moreover have "stays_ended ?t (pr_fellow p) Active"
    using pending_has_no_credential [OF ok _ p(2), of i r] r p(1) unfolding stays_ended_def frame proposed_def by blast
  ultimately show ?thesis
    using good_trans [OF t good_set_status] good_trans [OF _ good_frame [OF grant_view]] by blast
qed

lemma settle_good:
  assumes ok: "enrollment_ok s" and r: "recs s i = Some r" and p: "en_proposal r = Some p" "pr_status p = ProposalPending"
    and sponsor: "en_sponsor r = sponsor \<or> en_sponsor r = ''''" "sponsor \<noteq> ''''"
  shows "good s (snd (settle_grant r p sponsor d now w s))"
proof -
  have "good s (put_proposal r (p\<lparr>pr_status := ProposalLapsed\<rparr>) s)"
    by (rule good_proposal [OF r p(1)]) simp_all
  moreover have "good s (grant_proposal r p sponsor d now scopes resources s)"
    if "\<not> active_fellow_count s sponsor \<ge> fellow_limit s sponsor" for scopes resources
    by (rule grant_good [OF ok r p sponsor]) (use that in simp)
  ultimately show ?thesis
    unfolding settle_grant_def by (simp add: good_commit split: sum.split prod.split)
qed

lemma decide_good:
  assumes "sponsor \<noteq> ''''"
  shows "good s (snd (decide_enrollment i sponsor d now w s))"
proof (rule good_ok_imp)
  assume ok: "enrollment_ok s"
  have "good s (put_proposal r (p\<lparr>pr_status := ProposalLapsed\<rparr>) s)" if "recs s i = Some r" "en_proposal r = Some p" for r p
    by (rule good_proposal [OF that]) simp_all
  moreover have "good s (put_proposal (r\<lparr>en_sponsor := sponsor\<rparr>) (p\<lparr>pr_status := ProposalDenied\<rparr>) (ensure_sponsor sponsor now s))"
    if "recs s i = Some r" "en_proposal r = Some p" "en_sponsor r = sponsor \<or> en_sponsor r = ''''" for r p
    using good_decided [of "ensure_sponsor sponsor now s" i r p sponsor "p\<lparr>pr_status := ProposalDenied\<rparr>"]
      good_ok [OF good_ensure_sponsor ok] good_trans [OF good_ensure_sponsor] that assms by simp
  moreover have "good s (snd (settle_grant r p sponsor d now w s))"
    if "recs s i = Some r" "en_proposal r = Some p" "pr_status p = ProposalPending" "en_sponsor r = sponsor \<or> en_sponsor r = ''''" for r p
    by (rule settle_good [OF ok that assms])
  ultimately show ?thesis
    unfolding decide_enrollment_def unbound_device_def by (auto simp: good_commit split: option.split)
qed

subsection \<open>Devices\<close>

lemma reclaim_frame [simp]:
  "es_records (reclaim_codes n now s) = es_records s" "es_statuses (reclaim_codes n now s) = es_statuses s"
  "es_credentials (reclaim_codes n now s) = es_credentials s" "es_panic (reclaim_codes n now s) = es_panic s"
  "es_sponsors (reclaim_codes n now s) = es_sponsors s" "es_transfers (reclaim_codes n now s) = es_transfers s"
  by (simp_all add: reclaim_codes_def Let_def)

definition new_device :: "device_input \<Rightarrow> bool" where
  "new_device d \<longleftrightarrow> en_kind (di_record d) = Device \<and> new_proposal (di_proposal d)"

lemma identifiers_free:
  assumes ok: "records_keyed s" and free: "\<not> identifiers_taken d s"
  shows "recs s (en_id (di_record d)) = None" and "unused_names s (di_proposal d)"
  using free unfolding identifiers_taken_def unused_names_records by (auto simp: list_ex_iff split: option.splits)

lemma device_record_good:
  assumes new: "new_device d" and free: "\<not> identifiers_taken d s"
  shows "good s (put_record ((di_record d)\<lparr>en_device_expires := e, en_proposal := Some (di_proposal d)\<rparr>) s)"
proof (rule good_ok_imp, rule good_put)
  assume "enrollment_ok s"
  then have k: "records_keyed s" by (simp add: enrollment_ok_def)
  show "may_put s ((di_record d)\<lparr>en_device_expires := e, en_proposal := Some (di_proposal d)\<rparr>)"
    using identifiers_free [OF k free] new
    by (simp add: may_put_def unused_proposal_def unused_names_iff [OF k] fine_record_def new_device_def new_proposal_def)
qed

lemma device_create_good:
  assumes new: "new_device d"
  shows "good s (snd (device_create d w s))"
proof -
  let ?s = "reclaim_codes (di_batch d) (en_created (di_record d))
    (s\<lparr>es_device_starts := drop_some (\<lambda>(b, t). t < di_window d) (di_batch d) (es_device_starts s)\<rparr>)"
  have frame: "good s ?s" by (rule good_frame_fields) (simp_all add: transfers_ok_def)
  have "good ?s t" if free: "\<not> identifiers_taken d ?s" and
    t: "t = (put_record ((di_record d)\<lparr>en_device_expires := Some (di_expires d), en_proposal := Some (di_proposal d)\<rparr>) ?s)
      \<lparr>es_device_codes := a, es_device_expiry := b, es_active_mappings := c, es_device_starts := e\<rparr>" for t a b c e
    unfolding t by (rule good_trans [OF device_record_good [OF new free] good_frame_fields]) (simp_all add: transfers_ok_def)
  then show ?thesis
    using frame good_trans [OF frame] unfolding device_create_def Let_def by (auto simp del: reclaim_frame intro: good_commit)
qed

lemma failed_lookup_good: "good s (failed_lookup a s)"
  by (rule good_frame_fields) (simp_all add: failed_lookup_def transfers_ok_def)

lemma code_record_good:
  "good s (snd (case recs s i of
      None \<Rightarrow> (Inl DeviceCodeUnknown, failed_lookup a s)
    | Some r \<Rightarrow>
        (case en_proposal (lapse_due r (la_now a)) of
          None \<Rightarrow> (Inl DeviceCodeUnknown, failed_lookup a s)
        | Some p \<Rightarrow>
            (let s2 = put_record (lapse_due r (la_now a)) s in
             if pr_status p \<noteq> ProposalPending then (Inl DeviceCodeUnknown, failed_lookup a s2)
             else (card_from_record (lapse_due r (la_now a)), s2)))))"
  using good_trans [OF put_lapse_good failed_lookup_good] failed_lookup_good put_lapse_good
  by (auto simp: Let_def split: option.split)

lemma device_lookup_good: "good s (snd (device_lookup a s))"
proof -
  let ?s = "reclaim_codes (la_batch a) (la_now a)
    (s\<lparr>es_lookup_failures := drop_some (\<lambda>(p, t). t < la_window a) (la_batch a) (es_lookup_failures s)\<rparr>)"
  have frame: "good s ?s" by (rule good_frame_fields) (simp_all add: transfers_ok_def)
  show ?thesis
    unfolding device_lookup_def Let_def [where s = ?s]
    using good_trans [OF frame code_record_good] good_trans [OF frame failed_lookup_good] frame
    by (simp del: reclaim_frame split: option.split prod.split)
qed

subsection \<open>The poll\<close>

lemma grows_poll [simp]: "proposal_grows p (p\<lparr>pr_interval := n, pr_last_poll := t\<rparr>)"
  by (simp add: proposal_grows_def)

lemma settle_expiry_good:
  "recs s i = Some r \<Longrightarrow> en_proposal r = Some p \<Longrightarrow> good s (snd (settle_expiry r p reply s))"
  unfolding settle_expiry_def using good_proposal [of s i r p "p\<lparr>pr_status := ProposalLapsed\<rparr>"]
  by (simp add: good_commit)

text \<open>The credential of a poll is under a token hash that is not in use.\<close>

lemma issue_good:
  assumes r: "recs s i = Some r" and p: "en_proposal r = Some p" "pr_status p \<noteq> ProposalPending" "pr_token p = None"
    and fresh: "creds s (snd token) = None"
  shows "good s (snd (issue_token r p scopes resources status token now reply s))"
proof -
  let ?p = "p\<lparr>pr_token := Some (snd token), pr_token_issued := Some now\<rparr>"
  let ?c = "binding_of_proposal r p scopes resources (snd token) status now"
  have put: "good s (put_proposal r ?p s)"
    by (rule good_proposal [OF r p(1)]) (simp_all add: proposal_grows_def p)
  have "proposed (put_proposal r ?p s) (en_id r) (r\<lparr>en_proposal := Some ?p\<rparr>) ?p" by (simp add: put_proposal_def proposed_put)
  then have "decided (put_proposal r ?p s) (cb_fellow ?c)"
    using p(2) unfolding decided_def binding_of_proposal_def by fastforce
  then have "good (put_proposal r ?p s) (set_credentials (map_put (snd token) ?c (es_credentials s)) (put_proposal r ?p s))"
    using good_issue [of "put_proposal r ?p s" "snd token" ?c] fresh by (simp add: put_proposal_def)
  with put show ?thesis
    unfolding issue_token_def Let_def by (auto simp: set_credentials_def intro: good_commit good_trans)
qed

lemma poll_granted_good:
  assumes r: "recs s i = Some r" and p: "en_proposal r = Some p" "pr_status p \<noteq> ProposalPending" "pr_token p = None"
    and fresh: "creds s (snd token) = None"
  shows "good s (snd (poll_granted r p token now reply s))"
  unfolding poll_granted_def using settle_expiry_good [OF r p(1)] issue_good [OF r p fresh]
  by (simp split: option.split)

lemma poll_good:
  assumes fresh: "creds s (snd token) = None"
  shows "good s (snd (poll_enrollment flow token now reply s))"
proof (rule good_ok_imp)
  assume "enrollment_ok s"
  then have k: "records_keyed s" by (simp add: enrollment_ok_def)
  have "good s (put_proposal r (p\<lparr>pr_interval := n, pr_last_poll := t\<rparr>) s)"
    if "flow_record flow s = Some r" "en_proposal r = Some p" for r p n t
    by (rule good_proposal [OF found_record(2) [OF k that(1) [unfolded flow_record_def]] that(2)]) simp_all
  moreover have "good s (snd (settle_expiry r p reply s))" if "flow_record flow s = Some r" "en_proposal r = Some p" for r p
    by (rule settle_expiry_good [OF found_record(2) [OF k that(1) [unfolded flow_record_def]] that(2)])
  moreover have "good s (snd (poll_granted r p token now reply s))"
    if "flow_record flow s = Some r" "en_proposal r = Some p" "pr_status p \<noteq> ProposalPending" "pr_token p = None" for r p
    by (rule poll_granted_good [OF found_record(2) [OF k that(1) [unfolded flow_record_def]] that(2-4) fresh])
  ultimately show ?thesis
    unfolding poll_enrollment_def Let_def
    by (auto intro: good_commit split: option.split proposal_status.split)
qed

lemma authenticate_good: "good s (snd (authenticate_credential token_hash now profile s))"
proof -
  have "good s (s\<lparr>es_credentials := map_put token_hash (c\<lparr>cb_status := x, cb_last_used := y\<rparr>) (es_credentials s)\<rparr>)"
    if "creds s token_hash = Some c" for c x y
    using good_update [OF that, of "c\<lparr>cb_status := x, cb_last_used := y\<rparr>"] by (simp add: same_authority_def set_credentials_def)
  then show ?thesis unfolding authenticate_credential_def Let_def by (simp split: option.split)
qed

end
