(* ===== verification/EnrollmentCommandLaws.thy ===== *)
theory EnrollmentCommandLaws
  imports EnrollmentFlowLaws
begin

section \<open>Commands keep the laws of the enrollment store\<close>

text \<open>
  The commands of a sponsor and of an operator: lifecycle, panic, caps, transfers, rebinds and
  the deletion of an account.
\<close>

subsection \<open>Lifecycle commands\<close>

lemma good_same:
  assumes "es_records u = es_records t" "es_statuses u = es_statuses t" "es_credentials u = es_credentials t"
    "es_panic u = es_panic t" "es_sponsors u = es_sponsors t" "es_transfers u = es_transfers t" and "good s t"
  shows "good s u"
  by (rule good_trans [OF assms(7) good_frame_fields]) (use assms in \<open>simp_all add: transfers_ok_def\<close>)

lemma command_good:
  assumes "\<And>w. good (put_idempotency w s) (change (put_idempotency w s))"
  shows "good s (snd (lifecycle_command a effective reply change s))"
proof -
  have "good s (commit_lifecycle a result (change (put_idempotency w s)))" for result w
    by (rule good_same [OF _ _ _ _ _ _ good_trans [OF good_put_idempotency assms]]) (simp_all add: commit_lifecycle_def)
  then show ?thesis
    unfolding lifecycle_command_def commit_idempotency_def by (auto split: sum.split)
qed

lemma find_credential:
  assumes "credentials_ok s" and "find P (es_credentials s) = Some (h, c)"
  shows "creds s h = Some c" and "P (h, c)"
  using assms by (auto simp: credentials_ok_def find_Some_iff)

lemma revoke_good: "good s (snd (revoke_credential a fellow credential reply s))"
proof (rule good_ok_imp)
  assume "enrollment_ok s"
  then have k: "credentials_ok s" by (simp add: enrollment_ok_def)
  have "good (put_idempotency w s) ((put_idempotency w s)\<lparr>es_credentials := map_put h (c\<lparr>cb_revoked := Some x\<rparr>) (es_credentials s)\<rparr>)"
    if "creds s h = Some c" for h c x w
    using good_update [of "put_idempotency w s" h c "c\<lparr>cb_revoked := Some x\<rparr>"] that by (simp add: same_authority_def set_credentials_def)
  then show ?thesis
    using find_credential(1) [OF k] unfolding revoke_credential_def owned_credential_def
    by (auto split: option.split intro!: command_good simp del: map_of_eq_Some_iff)
qed

lemma owned_fellow:
  assumes "records_keyed s" and "owns_fellow sponsor fellow s"
  shows "\<exists>i r p. proposed s i r p \<and> pr_fellow p = fellow \<and> en_sponsor r = sponsor"
proof -
  obtain r p where r: "r \<in> set (record_list s)" "en_sponsor r = sponsor" "en_proposal r = Some p" "pr_fellow p = fellow"
    using assms(2) unfolding owns_fellow_def list_ex_iff by (auto split: option.splits)
  then show ?thesis using record_map_of [OF assms(1)] unfolding proposed_def by metis
qed

lemma change_status_good:
  assumes "may_serve s f x" and "stays_ended s f x"
  shows "good s (change_status f x t s)"
  by (rule good_same [OF _ _ _ _ _ _ good_set_status [OF assms]]) (simp_all add: change_status_def Let_def set_status_def)

lemma transition_stays: "fellow_lifecycle_transition_allowed x y \<Longrightarrow> statuses s f = Some x \<Longrightarrow> stays_ended s f y"
  by (auto simp: fellow_lifecycle_transition_allowed_def stays_ended_def ended_def)

lemma may_serve_owned:
  assumes k: "records_keyed s" and own: "owns_fellow sponsor f s" and sponsor: "sponsor \<noteq> ''''"
    and room: "can_serve s f \<or> \<not> fellow_status_can_authenticate x \<or> active_fellow_count s sponsor < fellow_limit s sponsor"
  shows "may_serve s f x"
  using owned_fellow [OF k own] sponsor room active_count [OF k] unfolding may_serve_def by metis

lemma transition_good:
  assumes sponsor: "lc_sponsor a \<noteq> ''''"
  shows "good s (snd (transition_fellow a fellow to_status reply s))"
proof (rule good_ok_imp)
  assume "enrollment_ok s"
  then have k: "records_keyed s" by (simp add: enrollment_ok_def)
  have "good s (snd (lifecycle_command a e reply (change_status fellow to_status e) s))"
    if cur: "statuses s fellow = Some current" and own: "owns_fellow (lc_sponsor a) fellow s"
      and allow: "fellow_lifecycle_transition_allowed current to_status"
      and room: "fellow_status_can_authenticate current \<or> \<not> fellow_status_can_authenticate to_status \<or>
        active_fellow_count s (lc_sponsor a) < fellow_limit s (lc_sponsor a)" for current e
  proof (rule command_good, rule change_status_good)
    fix w
    have "may_serve s fellow to_status"
      by (rule may_serve_owned [OF k own sponsor]) (use room cur in \<open>auto simp: can_serve_def\<close>)
    then show "may_serve (put_idempotency w s) fellow to_status" by (simp add: may_serve_def)
    show "stays_ended (put_idempotency w s) fellow to_status"
      by (rule transition_stays [OF allow]) (simp add: cur)
  qed
  then show ?thesis
    unfolding transition_fellow_def Let_def by (auto split: option.split)
qed

lemma panic_good: "good s (snd (panic_sponsor a reply s))"
  unfolding panic_sponsor_def Let_def
  by (auto intro!: command_good good_panic split: option.splits)

lemma override_good: "good s (snd (override_sponsor_fellow_cap a reply s))"
proof -
  have "good s (t\<lparr>es_sponsors := map_put (co_sponsor a) (x\<lparr>sp_limit := co_limit a\<rparr>) (es_sponsors t), es_cap_seq := b,
      es_cap_events := c, es_cap_requests := d, es_cap_audit := e\<rparr>)"
    if "t = put_idempotency w s" "active_fellow_count s (co_sponsor a) \<le> co_limit a" for t w x b c d e
    by (rule good_limits) (use that in \<open>auto simp: transfers_ok_def fellow_limit_def\<close>)
  then show ?thesis
    unfolding override_sponsor_fellow_cap_def Let_def commit_idempotency_def
    by (auto split: option.split)
qed

subsection \<open>Transfers\<close>

lemma good_transfers:
  assumes "transfers_ok s \<Longrightarrow> transfers_ok (s\<lparr>es_transfers := ts\<rparr>)"
  shows "good s (s\<lparr>es_transfers := ts\<rparr>)"
  by (rule good_frame_fields) (use assms in auto)

lemma set_put: "set (map_put k v m) \<subseteq> insert (k, v) (set m)"
  by (induction k v m rule: map_put.induct) auto

lemma good_put_transfer:
  assumes "tr_source t \<noteq> ''''" and "tr_target t \<noteq> ''''"
  shows "good s (put_transfer t s)"
  unfolding put_transfer_def
  by (rule good_transfers) (use assms set_put [of "tr_id t" t "es_transfers s"] in \<open>auto simp: transfers_ok_def\<close>)

lemma transfer_parties:
  "transfers_ok s \<Longrightarrow> map_of (es_transfers s) i = Some t \<Longrightarrow> tr_source t \<noteq> '''' \<and> tr_target t \<noteq> ''''"
  by (auto simp: transfers_ok_def dest: map_of_SomeD)

lemma close_pending_parties:
  "(i, t) \<in> set (snd (close_pending fellow now ts)) \<Longrightarrow> \<exists>u. (i, u) \<in> set ts \<and> tr_source t = tr_source u \<and> tr_target t = tr_target u"
  by (induction fellow now ts rule: close_pending.induct)
    (auto simp: lapsed_transfer_def split: if_splits prod.splits)

lemma close_pending_ok: "transfers_ok s \<Longrightarrow> transfers_ok (s\<lparr>es_transfers := snd (close_pending fellow now (es_transfers s))\<rparr>)"
  unfolding transfers_ok_def using close_pending_parties by fastforce

lemma initiate_good:
  assumes "source \<noteq> ''''" and "target \<noteq> ''''"
  shows "good s (snd (initiate_transfer i fellow source target now expires w replay s))"
proof -
  have closed: "good s (s\<lparr>es_transfers := ts\<rparr>)" if "close_pending fellow now (es_transfers s) = (b, ts)" for b ts
    by (rule good_transfers) (use close_pending_ok [of s fellow now] that in simp)
  have "good s (put_transfer t (s\<lparr>es_transfers := ts\<rparr>))"
    if "close_pending fellow now (es_transfers s) = (b, ts)" "tr_source t = source" "tr_target t = target" for b ts t
    by (rule good_trans [OF closed [OF that(1)] good_put_transfer]) (use assms that in simp_all)
  with closed show ?thesis
    unfolding initiate_transfer_def Let_def by (auto intro: good_commit split: prod.split bool.split)
qed

lemma lapse_parties [simp]: "tr_source (lapse_transfer t now) = tr_source t" "tr_target (lapse_transfer t now) = tr_target t"
  "tr_source (lapsed_transfer t now) = tr_source t" "tr_target (lapsed_transfer t now) = tr_target t"
  by (simp_all add: lapse_transfer_def lapsed_transfer_def)

lemma list_transfers_good: "good s (snd (list_transfers sponsor now s))"
proof -
  have "good s (s\<lparr>es_transfers := map (\<lambda>(i, t). (i, lapse_transfer t now)) (es_transfers s)\<rparr>)"
    by (rule good_transfers) (auto simp: transfers_ok_def)
  then show ?thesis by (simp add: list_transfers_def Let_def)
qed

lemma good_parties:
  assumes "map_of (es_transfers s) i = Some t" and "tr_source u = tr_source t" and "tr_target u = tr_target t"
  shows "good s (put_transfer u s)"
proof (rule good_ok_imp, rule good_put_transfer)
  assume "enrollment_ok s"
  then show "tr_source u \<noteq> ''''" "tr_target u \<noteq> ''''"
    using transfer_parties [OF _ assms(1)] assms(2,3) by (simp_all add: enrollment_ok_def)
qed

lemma good_lapse:
  assumes "map_of (es_transfers s) i = Some t"
  shows "good s (put_transfer (lapse_transfer t now) s)" "good s (put_transfer (lapsed_transfer t now) s)"
  by (rule good_parties [OF assms]; simp)+

lemma get_transfer_good: "good s (snd (get_transfer i sponsor now s))"
  unfolding get_transfer_def by (auto simp: good_lapse split: option.split)

lemma resolving_good:
  assumes "\<And>t. map_of (es_transfers s) i = Some t \<Longrightarrow> tr_status t = TransferPending \<Longrightarrow> good s (snd (act t s))"
  shows "good s (snd (resolving_transfer i party now w act s))"
  unfolding resolving_transfer_def using assms by (auto simp: good_lapse split: option.split)

lemma resolve_good: "map_of (es_transfers s) i = Some t \<Longrightarrow> good s (resolve_transfer status t now s)"
  unfolding resolve_transfer_def by (rule good_parties) simp_all

lemma reject_cancel_good:
  "good s (snd (reject_transfer i target now w replay s))" "good s (snd (cancel_transfer i source now w replay s))"
  unfolding reject_transfer_def cancel_transfer_def
  by (auto intro!: resolving_good good_commit resolve_good)

text \<open>
  An accepted transfer is the revocation of the credentials of the Fellow, its status, and the
  record with its new sponsor, in a frame.
\<close>

definition moved :: "transfer_row \<Rightarrow> enrollment \<Rightarrow> int \<Rightarrow> 'c enrollment_store \<Rightarrow> 'c enrollment_store" where
  "moved t r now s = put_record (r\<lparr>en_sponsor := tr_target t\<rparr>) (set_status (tr_fellow t) Paused
     (revoke_all (\<lambda>c. cb_fellow c = tr_fellow t \<and> cb_revoked c = None) now s))"

lemma revoke_all_frame [simp]:
  "es_records (revoke_all P now s) = es_records s" "es_statuses (revoke_all P now s) = es_statuses s"
  "es_panic (revoke_all P now s) = es_panic s" "es_sponsors (revoke_all P now s) = es_sponsors s"
  "es_transfers (revoke_all P now s) = es_transfers s" "proposed (revoke_all P now s) = proposed s"
  by (simp_all add: revoke_all_def proposed_def fun_eq_iff)

lemma revoke_all_revokes:
  assumes "creds (revoke_all (\<lambda>c. cb_fellow c = f \<and> cb_revoked c = None) now s) h = Some c'" and "cb_fellow c' = f"
  shows "cb_revoked c' \<noteq> None"
proof -
  obtain c where "creds s h = Some c" and c: "c' = (if cb_fellow c = f \<and> cb_revoked c = None then c\<lparr>cb_revoked := Some now\<rparr> else c)"
    using assms(1) unfolding creds_revoke_all by auto
  then show ?thesis using assms(2) by (cases "cb_revoked c") (simp_all split: if_splits)
qed

lemma moved_good:
  assumes r: "recs s i = Some r" "en_proposal r = Some p" "pr_fellow p = tr_fellow t"
    and sponsors: "en_sponsor r \<noteq> ''''" "tr_target t \<noteq> ''''"
  shows "good s (moved t r now s)"
proof (rule good_ok_imp)
  assume ok: "enrollment_ok s"
  let ?a = "revoke_all (\<lambda>c. cb_fellow c = tr_fellow t \<and> cb_revoked c = None) now s"
  let ?b = "set_status (tr_fellow t) Paused ?a"
  have "proposed ?a i r p" using r by (simp add: proposed_def)
  then have "may_serve ?a (tr_fellow t) Paused"
    using r(3) sponsors(1) unfolding may_serve_def fellow_status_can_authenticate_def by blast
  moreover have "stays_ended ?a (tr_fellow t) Paused"
    using revoke_all_revokes [of "tr_fellow t" now s] unfolding stays_ended_def by blast
  ultimately have b: "good s ?b" using good_trans [OF good_revoke_all good_set_status] by blast
  have key: "en_id r = i" "fine_record r"
    using key_of_record [OF _ r(1)] fine_recorded [OF ok r(1)] ok by (simp_all add: enrollment_ok_def)
  have "may_put ?b (r\<lparr>en_sponsor := tr_target t\<rparr>)"
    using r key sponsors(2) by (simp add: may_put_def follows_def fine_record_def record_grows_def fellow_status_can_authenticate_def)
  then show "good s (moved t r now s)" unfolding moved_def using good_trans [OF b good_put] by blast
qed

lemma move_good:
  assumes r: "recs s i = Some r" "en_proposal r = Some p" "pr_fellow p = tr_fellow t"
    and t: "map_of (es_transfers s) j = Some t" and owner: "en_sponsor r = tr_source t"
  shows "good s (move_fellow t r now s)"
proof (rule good_ok_imp)
  assume "enrollment_ok s"
  then have parties: "tr_source t \<noteq> ''''" "tr_target t \<noteq> ''''" "transfers_ok s"
    using transfer_parties [OF _ t] by (auto simp: enrollment_ok_def)
  let ?u = "t\<lparr>tr_status := TransferAccepted, tr_resolved := Some now\<rparr>"
  have g: "good s (moved t r now s)"
    by (rule moved_good [OF r]) (use parties owner in simp_all)
  have "good (moved t r now s) (put_transfer ?u (moved t r now s))"
    by (rule good_put_transfer) (use parties in simp_all)
  with g have g2: "good s (put_transfer ?u (moved t r now s))" using good_trans by blast
  show "good s (move_fellow t r now s)"
    by (rule good_same [OF _ _ _ _ _ _ g2])
      (simp_all add: move_fellow_def moved_def Let_def resolve_transfer_def put_transfer_def supersede_rebinds_def
        revoke_all_def set_status_def put_record_def)
qed

lemma accept_good: "good s (snd (accept_transfer i target now w replay s))"
proof (rule good_ok_imp)
  assume "enrollment_ok s"
  then have k: "records_keyed s" by (simp add: enrollment_ok_def)
  have "good s (move_fellow t r now s)"
    if t: "map_of (es_transfers s) i = Some t" and f: "fellow_record (tr_fellow t) s = Some r" and own: "en_sponsor r = tr_source t" for t r
  proof -
    have r: "recs s (en_id r) = Some r" using found_record(2) [OF k f [unfolded fellow_record_def]] .
    have "case en_proposal r of None \<Rightarrow> False | Some p \<Rightarrow> pr_fellow p = tr_fellow t"
      using found_record(1) [OF k f [unfolded fellow_record_def]] .
    then obtain p where "en_proposal r = Some p" "pr_fellow p = tr_fellow t" by (auto split: option.splits)
    then show ?thesis using move_good [OF r _ _ t own] by blast
  qed
  then show ?thesis
    unfolding accept_transfer_def by (auto intro!: resolving_good good_commit split: option.split)
qed

subsection \<open>Rebinds\<close>

lemma good_rebinds: "good s (s\<lparr>es_rebinds := bs\<rparr>)"
  by (rule good_frame_fields) (simp_all add: transfers_ok_def)

lemma rebind_frames: "good s (put_rebind b s)" "good s (supersede_rebinds P s)"
  by (simp_all add: put_rebind_def supersede_rebinds_def good_rebinds)

lemma rebind_commands_good:
  "good s (snd (create_rebind i fellow sponsor secret now expires w s))"
  "good s (snd (claim_rebind i secret flow declared now w s))"
  "good s (snd (decide_rebind i sponsor approve now w s))"
  unfolding create_rebind_def claim_rebind_def decide_rebind_def Let_def
  by (auto intro: good_commit rebind_frames good_trans [OF rebind_frames(2) rebind_frames(1)] split: option.split)

lemma put_rebind_frame [simp]:
  "es_credentials (put_rebind b s) = es_credentials s" "decided (put_rebind b s) = decided s"
  by (simp_all add: put_rebind_def decided_def proposed_def fun_eq_iff)

lemma redeemed_credential_good:
  assumes "decided s (cb_fellow c)" and "creds s h = None"
  shows "good s ((put_rebind b s)\<lparr>es_credentials := map_put h c (es_credentials s)\<rparr>)"
  using good_trans [OF rebind_frames(1) good_issue, of b s h c] assms by (simp add: set_credentials_def)

lemma redeem_good:
  assumes f: "decided s (rb_fellow b)" and fresh: "creds s (snd token) = None"
  shows "good s (snd (redeem_rebind b p scopes resources token now reply s))"
  unfolding redeem_rebind_def Let_def
  using redeemed_credential_good [OF _ fresh] f by (simp add: good_commit rebind_binding_def)

lemma fellow_decided:
  assumes ok: "enrollment_ok s" and f: "Option.bind (fellow_record fellow s) en_proposal = Some p" and "pr_scopes p \<noteq> None"
  shows "decided s fellow"
proof -
  have k: "records_keyed s" using ok by (simp add: enrollment_ok_def)
  obtain r where r: "fellow_record fellow s = Some r" "en_proposal r = Some p" using f by (auto simp: bind_eq_Some_conv)
  then have "recs s (en_id r) = Some r" "pr_fellow p = fellow"
    using found_record [OF k r(1) [unfolded fellow_record_def]] by (auto split: option.splits)
  moreover have "pr_status p \<noteq> ProposalPending"
    using fine_recorded [OF ok calculation(1)] r(2) assms(3) by (simp add: fine_record_def)
  ultimately show ?thesis using r(2) unfolding decided_def proposed_def by blast
qed

lemma poll_rebind_good:
  assumes fresh: "creds s (snd token) = None"
  shows "good s (snd (poll_rebind flow token now reply s))"
proof (rule good_ok_imp)
  assume ok: "enrollment_ok s"
  have "good s (snd (redeem_rebind b p scopes resources token now reply s))"
    if "Option.bind (fellow_record (rb_fellow b) s) en_proposal = Some p" "pr_scopes p = Some scopes" for b p scopes resources
    by (rule redeem_good [OF fellow_decided [OF ok that(1)] fresh]) (simp add: that)
  then show ?thesis
    unfolding poll_rebind_def Let_def by (auto intro: good_commit rebind_frames split: option.split)
qed

subsection \<open>The deletion of an account\<close>

lemma keeps_close: "keeps r (close_record sponsor r)"
  by (cases "en_proposal r") (auto simp: close_record_def keeps_def record_grows_def proposal_grows_def)

lemma revoke_statuses_good:
  assumes "\<forall>f \<in> set fs. \<exists>i r p. proposed s i r p \<and> pr_fellow p = f \<and> en_sponsor r \<noteq> ''''"
  shows "good s (fold (\<lambda>f s. s\<lparr>es_statuses := map_put f Revoked (es_statuses s), es_status_changed := map_put f now (es_status_changed s)\<rparr>) fs s)"
  using assms
proof (induction fs arbitrary: s)
  case (Cons f fs)
  let ?s = "s\<lparr>es_statuses := map_put f Revoked (es_statuses s), es_status_changed := map_put f now (es_status_changed s)\<rparr>"
  have "may_serve s f Revoked" using Cons.prems unfolding may_serve_def fellow_status_can_authenticate_def by auto
  then have "good s (set_status f Revoked s)" by (rule good_set_status) (simp add: stays_ended_def)
  then have "good s ?s" by (rule good_same [rotated 6]) (simp_all add: set_status_def)
  moreover have "proposed ?s = proposed s" by (simp add: proposed_def fun_eq_iff)
  then have "good ?s (fold (\<lambda>f s. s\<lparr>es_statuses := map_put f Revoked (es_statuses s), es_status_changed := map_put f now (es_status_changed s)\<rparr>) fs ?s)"
    using Cons by simp
  ultimately show ?case using good_trans by simp
qed simp

lemma deleted_owned:
  assumes k: "records_keyed s" and f: "f \<in> set (deleted_fellows sponsor s)"
  shows "\<exists>i r p. proposed s i r p \<and> pr_fellow p = f \<and> en_sponsor r = sponsor"
proof -
  obtain r p where "r \<in> set (record_list s)" "en_proposal r = Some p" "pr_fellow p = f" "en_sponsor r = sponsor"
    using f unfolding deleted_fellows_def by (auto split: option.splits if_splits dest: sym)
  then show ?thesis using record_map_of [OF k] unfolding proposed_def by metis
qed

lemma erased_sponsor_good:
  "good s (s\<lparr>es_sponsors := map_put sponsor (case map_of (es_sponsors s) sponsor of
      None \<Rightarrow> (new_sponsor now)\<lparr>sp_tombstoned := Some now\<rparr> | Some x \<Rightarrow> x\<lparr>sp_tombstoned := Some now\<rparr>) (es_sponsors s)\<rparr>)"
  by (rule good_limits) (auto simp: transfers_ok_def fellow_limit_def new_sponsor_def split: option.splits)

lemma cancel_transfers_good: "good s (cancel_transfers sponsor now s)"
  unfolding cancel_transfers_def by (rule good_transfers) (auto simp: transfers_ok_def split: if_splits)

lemma erase_good:
  assumes sponsor: "sponsor \<noteq> ''''"
  shows "good s (erase_sponsor sponsor now s)"
proof (rule good_ok_imp)
  assume ok: "enrollment_ok s"
  let ?s0 = "s\<lparr>es_sponsors := map_put sponsor (case map_of (es_sponsors s) sponsor of
      None \<Rightarrow> (new_sponsor now)\<lparr>sp_tombstoned := Some now\<rparr> | Some x \<Rightarrow> x\<lparr>sp_tombstoned := Some now\<rparr>) (es_sponsors s)\<rparr>"
  let ?s1 = "mapped (close_record sponsor) ?s0"
  let ?s2 = "revoke_fellows (deleted_fellows sponsor s) now ?s1"
  have s1: "good s ?s1" by (rule good_trans [OF erased_sponsor_good good_mapped]) (rule keeps_close)
  have k: "records_keyed s" using ok by (simp add: enrollment_ok_def)
  have "\<exists>i r p. proposed ?s1 i r p \<and> pr_fellow p = f \<and> en_sponsor r \<noteq> ''''" if f: "f \<in> set (deleted_fellows sponsor s)" for f
  proof -
    obtain i r p where r: "proposed ?s0 i r p" "pr_fellow p = f" "en_sponsor r = sponsor"
      using deleted_owned [OF k f] by (auto simp: proposed_def)
    then show ?thesis
      using mapped_forth [where g = "close_record sponsor", OF keeps_close r(1)]
        keeps_basic(3) [OF keeps_close, of sponsor r] sponsor
      unfolding proposal_grows_def by metis
  qed
  then have "good ?s1 ?s2" unfolding revoke_fellows_def by (intro revoke_statuses_good) simp
  then have s2: "good s ?s2" using good_trans [OF s1] by blast
  have s3: "good s (supersede_rebinds P (cancel_transfers sponsor now (revoke_all Q now ?s2)))" for P Q
    using good_trans [OF good_trans [OF good_trans [OF s2 good_revoke_all] cancel_transfers_good] rebind_frames(2)] .
  have "s\<lparr>es_sponsors := a, es_records := b\<rparr> = (s\<lparr>es_sponsors := a\<rparr>)\<lparr>es_records := b\<rparr>" for a b by simp
  then show "good s (erase_sponsor sponsor now s)"
    using s3 by (simp add: erase_sponsor_def Let_def mapped_def)
qed

lemma delete_good: "sponsor \<noteq> '''' \<Longrightarrow> good s (snd (delete_sponsor_account digest sponsor expected now w replay s))"
  unfolding delete_sponsor_account_def by (simp add: good_commit erase_good)

end
