(* ===== verification/EnrollmentRuns.thy ===== *)
theory EnrollmentRuns
  imports EnrollmentCommandLaws
begin

section \<open>Runs of the enrollment store\<close>

text \<open>
  The steps of the store are its operations, one rule for each that may change it, with what the
  service guarantees of their arguments: the names of sponsors are not empty, a created record is
  a join link without a proposal, the proposal of a claim and of a device is pending and new, a
  claim does not know the secret of a device, and the hash of a new token is not in use.
\<close>

inductive enrollment_step :: "'c enrollment_store \<Rightarrow> 'c enrollment_store \<Rightarrow> bool" where
  step_create: "new_enrollment r \<Longrightarrow> enrollment_step s (snd (create_enrollment r replaces w s))"
| step_claim: "new_proposal p \<Longrightarrow> unused_names s p \<Longrightarrow> \<not> device_secret s i secret \<Longrightarrow>
    enrollment_step s (snd (claim_enrollment i secret p now w s))"
| step_decide: "sponsor \<noteq> '''' \<Longrightarrow> enrollment_step s (snd (decide_enrollment i sponsor d now w s))"
| step_card: "enrollment_step s (snd (approval_card_of i sponsor now s))"
| step_cards: "enrollment_step s (snd (pending_approval_cards sponsor now s))"
| step_bootstrap: "enrollment_step s (snd (bootstrap_sponsor sponsor now s))"
| step_device: "new_device dv \<Longrightarrow> enrollment_step s (snd (device_create dv w s))"
| step_lookup: "enrollment_step s (snd (device_lookup a s))"
| step_device_card: "enrollment_step s (snd (device_card_for_decision i now s))"
| step_poll: "map_of (es_credentials s) (snd token) = None \<Longrightarrow>
    enrollment_step s (snd (poll_enrollment flow token now reply s))"
| step_authenticate: "enrollment_step s (snd (authenticate_credential h now profile s))"
| step_revoke: "enrollment_step s (snd (revoke_credential l fellow credential answer s))"
| step_transition: "lc_sponsor l \<noteq> '''' \<Longrightarrow> enrollment_step s (snd (transition_fellow l fellow status answer s))"
| step_panic: "enrollment_step s (snd (panic_sponsor l answer s))"
| step_override: "enrollment_step s (snd (override_sponsor_fellow_cap ov cap_answer s))"
| step_initiate: "source \<noteq> '''' \<Longrightarrow> target \<noteq> '''' \<Longrightarrow>
    enrollment_step s (snd (initiate_transfer i fellow source target now expires w w' s))"
| step_list_transfers: "enrollment_step s (snd (list_transfers sponsor now s))"
| step_get_transfer: "enrollment_step s (snd (get_transfer i sponsor now s))"
| step_accept: "enrollment_step s (snd (accept_transfer i target now w w' s))"
| step_reject: "enrollment_step s (snd (reject_transfer i target now w w' s))"
| step_cancel: "enrollment_step s (snd (cancel_transfer i source now w w' s))"
| step_create_rebind: "enrollment_step s (snd (create_rebind i fellow sponsor secret now expires w s))"
| step_claim_rebind: "enrollment_step s (snd (claim_rebind i secret flow declared now w s))"
| step_decide_rebind: "enrollment_step s (snd (decide_rebind i sponsor approve now w s))"
| step_poll_rebind: "map_of (es_credentials s) (snd token) = None \<Longrightarrow>
    enrollment_step s (snd (poll_rebind flow token now reply s))"
| step_delete: "sponsor \<noteq> '''' \<Longrightarrow> enrollment_step s (snd (delete_sponsor_account digest sponsor expected now w w' s))"

definition new_store :: "'c enrollment_store" where
  "new_store = \<lparr>es_records = [], es_rebinds = [], es_transfer_granted = [], es_names = [], es_credentials = [], es_statuses = [],
     es_status_changed = [], es_panic = [], es_family_revoked = [], es_lifecycle_seq = [], es_lifecycle_events = [],
     es_lifecycle_requests = [], es_cap_events = [], es_cap_requests = [], es_cap_seq = [], es_cap_audit = [],
     es_review_windows = [], es_sponsors = [], es_transfers = [], es_device_codes = [], es_device_expiry = [],
     es_active_mappings = [], es_reclaimed_mappings = [], es_device_starts = [], es_lookup_failures = [], es_idempotency = []\<rparr>"

abbreviation enrollment_runs :: "'c enrollment_store \<Rightarrow> 'c enrollment_store \<Rightarrow> bool" where
  "enrollment_runs \<equiv> enrollment_step\<^sup>*\<^sup>*"

lemmas operations_good =
  create_good claim_good decide_good cards_good pending_cards_good bootstrap_good device_create_good device_lookup_good
  poll_good authenticate_good revoke_good transition_good panic_good override_good initiate_good list_transfers_good
  get_transfer_good accept_good reject_cancel_good rebind_commands_good poll_rebind_good delete_good

lemma step_good: "enrollment_step s t \<Longrightarrow> good s t"
  by (induction rule: enrollment_step.induct) (auto intro: operations_good)

lemma new_store_ok: "enrollment_ok new_store"
  by (simp add: enrollment_ok_def ok_defs transfers_ok_def new_store_def proposed_def serving_def fellow_limit_def default_active_fellow_limit_def)

interpretation enrollment: growing_steps enrollment_step enrollment_ok evolves
  using step_good by unfold_locales (auto simp: good_def intro: evolves_trans)

lemmas reachable_ok = enrollment.runs_keep [OF _ new_store_ok]

end
