(* ===== verification/EnrollmentProperties.thy ===== *)
theory EnrollmentProperties
  imports EnrollmentRuns
begin

section \<open>Properties of the enrollment store\<close>

text \<open>
  A sample run, then what holds of every run of the store: well-formed contents, the caps of
  active Fellows, credentials that stay dead, and tokens that are issued once.
\<close>

subsection \<open>A sample run\<close>

definition no_grants :: resource_grants where
  "no_grants = \<lparr>problem_binding = None, first_directive = None, event_budget = None, artifact_budget = None, grant_expires = None\<rparr>"

definition sample_enrollment :: enrollment where
  "sample_enrollment = \<lparr>en_id = ''e1'', en_sponsor = ''ann'', en_secret = ''h'', en_created = 0, en_secret_expires = 100,
     en_scopes = [Promote, Review], en_resources = no_grants, en_kind = JoinUrl, en_device_expires = None,
     en_invalidated = False, en_consumed = None, en_proposal = None\<rparr>"

definition sample_proposal :: proposal where
  "sample_proposal = \<lparr>pr_id = ''p1'', pr_fellow = ''f1'', pr_flow = ''w1'', pr_name = ''ada'', pr_model = ''m'', pr_harness = ''n'',
     pr_effort = None, pr_tools = None, pr_created = 1, pr_expires = 90, pr_status = ProposalPending, pr_scopes = None,
     pr_resources = None, pr_granted = None, pr_token = None, pr_token_issued = None, pr_interval = 5, pr_last_poll = None\<rparr>"

definition sample_create :: "unit enrollment_store" where
  "sample_create = snd (create_enrollment sample_enrollment None None new_store)"

definition sample_claim :: "unit enrollment_store" where
  "sample_claim = snd (claim_enrollment ''e1'' ''h'' sample_proposal 1 None sample_create)"

definition sample_decide :: "unit enrollment_store" where
  "sample_decide = snd (decide_enrollment ''e1'' ''ann'' Approve 2 None sample_claim)"

definition sample_poll :: "(enrollment_error + poll_decision) \<times> unit enrollment_store" where
  "sample_poll = poll_enrollment ''w1'' (''secret'', ''t1'') 3 (\<lambda>_. None) sample_decide"

lemmas sample_defs = sample_create_def sample_claim_def sample_decide_def sample_poll_def

lemma sample_poll_issues: "fst sample_poll = Inr (PollIssued ''secret'')"
  by code_simp

lemma sample_runs:
  "enrollment_runs new_store sample_decide" "enrollment_runs sample_decide (snd sample_poll)"
proof -
  have a: "enrollment_step new_store sample_create"
    unfolding sample_create_def by (rule step_create) code_simp
  have b: "enrollment_step sample_create sample_claim"
    unfolding sample_claim_def
  proof (rule step_claim)
    show "new_proposal sample_proposal" by code_simp
    show "unused_names sample_create sample_proposal" by code_simp
    have "map_of (es_records sample_create) ''e1'' = Some sample_enrollment" by code_simp
    then show "\<not> device_secret sample_create ''e1'' ''h''" by (simp add: device_secret_def sample_enrollment_def)
  qed
  have c: "enrollment_step sample_claim sample_decide"
    unfolding sample_decide_def by (rule step_decide) simp
  have d: "enrollment_step sample_decide (snd sample_poll)"
    unfolding sample_poll_def by (rule step_poll) code_simp
  show "enrollment_runs new_store sample_decide" using a b c by simp
  show "enrollment_runs sample_decide (snd sample_poll)" using d by simp
qed

lemmas sample_issued = rtranclp_trans [OF sample_runs]

subsection \<open>Caps and contents\<close>

lemma recs_in_set: "enrollment_ok s \<Longrightarrow> recs s i = Some r \<longleftrightarrow> (i, r) \<in> set (es_records s)"
  by (simp add: enrollment_ok_def records_keyed_def)

text \<open>C10. In every state that the store reaches, the active Fellows of a sponsor are at most its limit,
whatever operations were run in whatever order.\<close>

theorem active_fellows_within_cap:
  assumes "enrollment_runs new_store s"
  shows "active_fellow_count s sponsor \<le> fellow_limit s sponsor"
  using reachable_ok [OF assms] active_count [of s sponsor] by (simp add: enrollment_ok_def caps_ok_def)

theorem active_fellows_within_cap_witness:
  "active_fellow_count (snd sample_poll) ''ann'' \<le> fellow_limit (snd sample_poll) ''ann'' \<and>
   active_fellow_count (snd sample_poll) ''ann'' = 1 \<and> fellow_limit (snd sample_poll) ''ann'' = 5"
proof (intro conjI)
  show "active_fellow_count (snd sample_poll) ''ann'' = 1" by code_simp
  show "fellow_limit (snd sample_poll) ''ann'' = 5" by code_simp
qed (rule active_fellows_within_cap [OF sample_issued])

text \<open>C19. Every credential of a reached state belongs to the Fellow of exactly one record, and the
proposal of that record is decided.\<close>

theorem credentials_are_well_formed:
  assumes run: "enrollment_runs new_store s" and c: "(h, c) \<in> set (es_credentials s)"
  shows "\<exists>!(i, r). (i, r) \<in> set (es_records s) \<and>
    (case en_proposal r of None \<Rightarrow> False | Some p \<Rightarrow> pr_fellow p = cb_fellow c \<and> pr_status p \<noteq> ProposalPending)"
proof -
  have ok: "enrollment_ok s" using reachable_ok [OF run] .
  then have "creds s h = Some c" using c by (simp add: enrollment_ok_def credentials_ok_def)
  then obtain i r p where p: "proposed s i r p" "pr_fellow p = cb_fellow c" "pr_status p \<noteq> ProposalPending"
    using decided_credential [OF ok] unfolding decided_def by blast
  show ?thesis
  proof (rule ex1I [of _ "(i, r)"])
    show "case (i, r) of (i, r) \<Rightarrow> (i, r) \<in> set (es_records s) \<and>
        (case en_proposal r of None \<Rightarrow> False | Some p \<Rightarrow> pr_fellow p = cb_fellow c \<and> pr_status p \<noteq> ProposalPending)"
      using p recs_in_set [OF ok] by (simp add: proposed_def)
  next
    fix x assume x: "case x of (i, r) \<Rightarrow> (i, r) \<in> set (es_records s) \<and>
        (case en_proposal r of None \<Rightarrow> False | Some p \<Rightarrow> pr_fellow p = cb_fellow c \<and> pr_status p \<noteq> ProposalPending)"
    obtain j q where "x = (j, q)" by (cases x)
    then obtain p' where "proposed s j q p'" "pr_fellow p' = cb_fellow c" "x = (j, q)"
      using x recs_in_set [OF ok] by (auto simp: proposed_def split: option.splits)
    then show "x = (i, r)" using one_owner [OF ok p(1)] p(2) by simp
  qed
qed

theorem credentials_are_well_formed_witness:
  "map_of (es_credentials (snd sample_poll)) ''t1'' \<noteq> None \<and>
   (\<exists>!(i, r). (i, r) \<in> set (es_records (snd sample_poll)) \<and> (case en_proposal r of None \<Rightarrow> False
     | Some p \<Rightarrow> pr_fellow p = cb_fellow (the (map_of (es_credentials (snd sample_poll)) ''t1'')) \<and> pr_status p \<noteq> ProposalPending))"
proof
  show some: "map_of (es_credentials (snd sample_poll)) ''t1'' \<noteq> None" by code_simp
  then have "(''t1'', the (map_of (es_credentials (snd sample_poll)) ''t1'')) \<in> set (es_credentials (snd sample_poll))"
    by (auto dest: map_of_SomeD)
  then show "\<exists>!(i, r). (i, r) \<in> set (es_records (snd sample_poll)) \<and> (case en_proposal r of None \<Rightarrow> False
     | Some p \<Rightarrow> pr_fellow p = cb_fellow (the (map_of (es_credentials (snd sample_poll)) ''t1'')) \<and> pr_status p \<noteq> ProposalPending)"
    by (rule credentials_are_well_formed [OF sample_issued])
qed

subsection \<open>Credentials that stay dead\<close>

definition dead_credential :: "'c enrollment_store \<Rightarrow> string \<Rightarrow> bool" where
  "dead_credential s h \<longleftrightarrow> (case map_of (es_credentials s) h of
     None \<Rightarrow> False
   | Some c \<Rightarrow> cb_revoked c \<noteq> None \<or>
       map_of (es_statuses s) (cb_fellow c) \<in> {Some Revoked, Some Compromised, Some Archived} \<or>
       (case map_of (es_panic s) (cb_sponsor c) of None \<Rightarrow> False | Some t \<Rightarrow> cb_issued c \<le> t))"

lemma dead_refused: "dead_credential s h \<Longrightarrow> authenticate_credential h now profile s = (None, s)"
  by (auto simp: dead_credential_def authenticate_credential_def current_status_def fellow_status_can_authenticate_def
    cut_by_panic_def split: option.splits)

lemma dead_stays:
  assumes "evolves s t" and "dead_credential s h"
  shows "dead_credential t h"
proof -
  obtain c where c: "creds s h = Some c" and d: "cb_revoked c \<noteq> None \<or> ended s (cb_fellow c) \<or>
      (\<exists>x. map_of (es_panic s) (cb_sponsor c) = Some x \<and> cb_issued c \<le> x)"
    using assms(2) unfolding dead_credential_def ended_def by (auto split: option.splits)
  then obtain c' where c': "creds t h = Some c'" and g: "credential_grows s t c c'"
    using assms(1) unfolding evolves_def by blast
  have panic: "\<exists>y. map_of (es_panic t) p = Some y \<and> x \<le> y" if "map_of (es_panic s) p = Some x" for p x
    using assms(1) that unfolding evolves_def by blast
  have "cb_revoked c' \<noteq> None \<or> ended t (cb_fellow c') \<or> (\<exists>x. map_of (es_panic t) (cb_sponsor c') = Some x \<and> cb_issued c' \<le> x)"
    using d g panic unfolding credential_grows_def same_authority_def by (metis order_trans)
  then show ?thesis using c' unfolding dead_credential_def ended_def by (auto split: option.split)
qed

text \<open>C9. A credential that is revoked, or issued before a panic of its sponsor, or of a Fellow that is
revoked, compromised or archived, never authenticates again, whatever is done to the store.\<close>

theorem dead_credential_stays_dead:
  assumes "enrollment_runs new_store s" and "dead_credential s h" and "enrollment_runs s t"
  shows "authenticate_credential h now profile t = (None, t)"
  using dead_refused dead_stays enrollment.runs_grow [OF assms(3) reachable_ok [OF assms(1)]] assms(2) by blast

definition sample_command :: "string \<Rightarrow> string \<Rightarrow> int \<Rightarrow> lifecycle_attempt" where
  "sample_command sponsor event t = \<lparr>lc_sponsor = sponsor, lc_event = event, lc_request = event, lc_at = t\<rparr>"

definition sample_compromised :: "unit enrollment_store" where
  "sample_compromised = snd (transition_fellow (sample_command ''ann'' ''l1'' 4) ''f1'' Compromised (\<lambda>_. None) (snd sample_poll))"

lemma sample_compromised_runs: "enrollment_runs (snd sample_poll) sample_compromised"
  unfolding sample_compromised_def
  by (rule r_into_rtranclp, rule step_transition) (simp add: sample_command_def)

theorem dead_credential_stays_dead_witness:
  "fst (authenticate_credential ''t1'' 4 Bearer (snd sample_poll)) \<noteq> None \<and>
   authenticate_credential ''t1'' 5 Bearer sample_compromised = (None, sample_compromised)"
proof
  show "fst (authenticate_credential ''t1'' 4 Bearer (snd sample_poll)) \<noteq> None" by code_simp
  have "dead_credential sample_compromised ''t1''" by code_simp
  then show "authenticate_credential ''t1'' 5 Bearer sample_compromised = (None, sample_compromised)"
    using dead_credential_stays_dead [OF rtranclp_trans [OF sample_issued sample_compromised_runs] _ rtranclp.rtrancl_refl] by blast
qed

subsection \<open>One token for a flow\<close>

lemma flow_found:
  assumes ok: "enrollment_ok s" and p: "proposed s i r p" "pr_flow p = flow"
  shows "flow_record flow s = Some r"
proof -
  have k: "records_keyed s" using ok by (simp add: enrollment_ok_def)
  let ?P = "\<lambda>r. case en_proposal r of None \<Rightarrow> False | Some p \<Rightarrow> constant_time_equal (pr_flow p) flow"
  have "r \<in> set (record_list s)" "?P r"
    using p record_map_of [OF k, of r] by (auto simp: proposed_def)
  then obtain q where q: "find ?P (record_list s) = Some q"
    by (cases "find ?P (record_list s)") (auto simp: find_None_iff)
  then obtain p' where "proposed s (en_id q) q p'" "pr_flow p' = flow"
    using found_record [OF k q] by (auto simp: proposed_def split: option.splits)
  then have "q = r"
    using ok p unfolding enrollment_ok_def proposals_unique_def proposed_def by (metis option.inject)
  then show ?thesis using q by (simp add: flow_record_def)
qed

lemma pacing_never_issues [simp]: "poll_of_pacing pace \<noteq> PollIssued tok"
  by (cases pace) simp_all

lemma commit_value: "commit_idempotency w a s = (Inr b, t) \<Longrightarrow> b = a \<and> t = put_idempotency w s"
  by (simp add: commit_idempotency_def split: if_splits)

lemma issuing_poll:
  assumes ok: "enrollment_ok s" and poll: "poll_enrollment flow token now reply s = (Inr (PollIssued tok), t)"
  shows "\<exists>i r p. proposed t i r p \<and> pr_flow p = flow \<and> pr_token p \<noteq> None"
proof -
  have k: "records_keyed s" using ok by (simp add: enrollment_ok_def)
  obtain r p where r: "flow_record flow s = Some r" and p: "en_proposal r = Some p" and granted:
      "poll_granted r p token now reply s = (Inr (PollIssued tok), t)"
    using poll unfolding poll_enrollment_def
    by (auto simp: Let_def device_gate_def settle_expiry_def dest!: commit_value split: option.splits if_splits proposal_status.splits)
  then obtain scopes resources status where "issue_token r p scopes resources status token now reply s = (Inr (PollIssued tok), t)"
    unfolding poll_granted_def by (auto simp: settle_expiry_def dest!: commit_value split: option.splits if_splits)
  then have "proposed t (en_id r) (r\<lparr>en_proposal := Some (p\<lparr>pr_token := Some (snd token), pr_token_issued := Some now\<rparr>)\<rparr>)
      (p\<lparr>pr_token := Some (snd token), pr_token_issued := Some now\<rparr>)"
    unfolding issue_token_def Let_def
    by (auto simp: proposed_def put_proposal_def dest!: commit_value split: if_splits)
  moreover have "pr_flow p = flow" using found_record(1) [OF k r [unfolded flow_record_def]] p by simp
  ultimately show ?thesis by fastforce
qed

lemma token_kept:
  assumes "evolves s t" and "proposed s i r p" and "pr_token p \<noteq> None"
  shows "\<exists>r' p'. proposed t i r' p' \<and> pr_flow p' = pr_flow p \<and> pr_token p' \<noteq> None"
proof -
  obtain r' where "recs t i = Some r'" "record_grows r r'" using assms(1,2) unfolding evolves_def proposed_def by blast
  then show ?thesis using assms(2,3) unfolding record_grows_def proposal_grows_def proposed_def by metis
qed

text \<open>C16. A flow that was issued a token is never issued another: every later poll of it answers that
the token is issued and changes nothing.\<close>

theorem token_is_issued_once:
  assumes run: "enrollment_runs new_store s" and fresh: "map_of (es_credentials s) (snd token) = None"
    and poll: "poll_enrollment flow token now reply s = (Inr (PollIssued tok), t)" and later: "enrollment_runs t u"
  shows "poll_enrollment flow token' now' reply' u = (Inr AlreadyIssued, u)"
proof -
  have "enrollment_step s t" using step_poll [OF fresh, of flow now reply] poll by simp
  then have t: "enrollment_ok t" using reachable_ok [OF rtranclp.rtrancl_into_rtrancl [OF run]] by blast
  obtain i r p where p: "proposed t i r p" "pr_flow p = flow" "pr_token p \<noteq> None"
    using issuing_poll [OF reachable_ok [OF run] poll] by blast
  then obtain q p' where q: "proposed u i q p'" "pr_flow p' = flow" "pr_token p' \<noteq> None"
    using token_kept [OF enrollment.runs_grow [OF later t] p(1,3)] by auto
  have "flow_record flow u = Some q" using flow_found [OF enrollment.runs_keep [OF later t] q(1,2)] .
  then show ?thesis using q unfolding poll_enrollment_def proposed_def by simp
qed

theorem token_is_issued_once_witness:
  "poll_enrollment ''w1'' (''other'', ''t2'') 9 (\<lambda>_. None) sample_compromised = (Inr AlreadyIssued, sample_compromised)"
proof (rule token_is_issued_once)
  show "enrollment_runs new_store sample_decide" by (rule sample_runs)
  show "map_of (es_credentials sample_decide) (snd (''secret'', ''t1'')) = None" by code_simp
  show "poll_enrollment ''w1'' (''secret'', ''t1'') 3 (\<lambda>_. None) sample_decide = (Inr (PollIssued ''secret''), snd sample_poll)"
    using sample_poll_issues unfolding sample_poll_def by (simp add: prod_eq_iff)
  show "enrollment_runs (snd sample_poll) sample_compromised" by (rule sample_compromised_runs)
qed

subsection \<open>Transfers\<close>

lemma move_fellow_fields:
  "recs (move_fellow t r now s) = (recs s)(en_id r \<mapsto> r\<lparr>en_sponsor := tr_target t\<rparr>)"
  "statuses (move_fellow t r now s) = (statuses s)(tr_fellow t \<mapsto> Paused)"
  "es_credentials (move_fellow t r now s) = es_credentials (revoke_all (\<lambda>c. cb_fellow c = tr_fellow t \<and> cb_revoked c = None) now s)"
  by (simp_all add: move_fellow_def Let_def resolve_transfer_def put_transfer_def supersede_rebinds_def revoke_all_def put_record_def)

lemma accepted_result:
  assumes t: "map_of (es_transfers s) i = Some tr" and accepted: "accept_transfer i target now w replay s = (Inr n, t')"
  shows "\<exists>r w'. fellow_record (tr_fellow tr) s = Some r \<and> en_sponsor r = tr_source tr \<and> tr_target tr = target \<and>
    tr_status tr = TransferPending \<and> now < tr_expires tr \<and>
    n = live_credentials s (tr_fellow tr) \<and> t' = put_idempotency w' (move_fellow tr r now s)"
  using assms unfolding accept_transfer_def resolving_transfer_def
  by (auto dest!: commit_value split: option.splits if_splits)

lemma revoked_all_dead:
  assumes "map_of (es_credentials s) h = Some c" "cb_fellow c = f"
  shows "\<exists>c'. map_of (es_credentials (revoke_all (\<lambda>c. cb_fellow c = f \<and> cb_revoked c = None) now s)) h = Some c' \<and>
    cb_revoked c' \<noteq> None"
proof -
  let ?g = "\<lambda>c. if cb_fellow c = f \<and> cb_revoked c = None then c\<lparr>cb_revoked := Some now\<rparr> else c"
  have "map_of (es_credentials (revoke_all (\<lambda>c. cb_fellow c = f \<and> cb_revoked c = None) now s)) h = Some (?g c)"
    using assms(1) by (simp add: creds_revoke_all)
  moreover have "cb_revoked (?g c) \<noteq> None" using assms(2) by simp
  ultimately show ?thesis by blast
qed

text \<open>C20. A transfer that is accepted was pending, in time and addressed to the sponsor who accepts it; the
record of the Fellow passes from its source to that sponsor, and the answer counts the credentials that
were live. All credentials of the Fellow end: none of those issued before the transfer ever
authenticates again, whatever is done to the store. A Fellow from whose state the table of the
account states allows a pause is paused.\<close>

theorem accepted_transfer_ends_old_custody:
  assumes run: "enrollment_runs new_store s" and t: "map_of (es_transfers s) i = Some tr"
    and accepted: "accept_transfer i target now w replay s = (Inr n, t')" and later: "enrollment_runs t' u"
  shows "tr_status tr = TransferPending \<and> now < tr_expires tr \<and> tr_target tr = target \<and>
    (\<exists>r. fellow_record (tr_fellow tr) s = Some r \<and> en_sponsor r = tr_source tr \<and>
      map_of (es_records t') (en_id r) = Some (r\<lparr>en_sponsor := target\<rparr>)) \<and>
    n = live_credentials s (tr_fellow tr) \<and>
    (\<forall>h c. map_of (es_credentials s) h = Some c \<and> cb_fellow c = tr_fellow tr \<longrightarrow>
      authenticate_credential h now' profile u = (None, u)) \<and>
    (fellow_lifecycle_transition_allowed (status_or_active s (tr_fellow tr)) Paused \<longrightarrow>
      map_of (es_statuses t') (tr_fellow tr) = Some Paused)"
proof -
  obtain r w' where r: "fellow_record (tr_fellow tr) s = Some r" "en_sponsor r = tr_source tr" "tr_target tr = target"
      "tr_status tr = TransferPending" "now < tr_expires tr"
      "n = live_credentials s (tr_fellow tr)" and t': "t' = put_idempotency w' (move_fellow tr r now s)"
    using accepted_result [OF t accepted] by blast
  have "enrollment_step s t'" using step_accept [of s i target now w replay] accepted by simp
  then have ok: "enrollment_ok t'" using reachable_ok [OF rtranclp.rtrancl_into_rtrancl [OF run]] by blast
  have dead: "authenticate_credential h now' profile u = (None, u)"
    if "map_of (es_credentials s) h = Some c" "cb_fellow c = tr_fellow tr" for h c
  proof -
    have "dead_credential t' h"
      using revoked_all_dead [OF that, of now] t' by (auto simp: dead_credential_def move_fellow_fields)
    then show ?thesis using dead_refused dead_stays enrollment.runs_grow [OF later ok] by blast
  qed
  then show ?thesis using r t' by (simp add: move_fellow_fields)
qed

definition sample_offer :: "unit enrollment_store" where
  "sample_offer = snd (initiate_transfer ''x1'' ''f1'' ''ann'' ''bob'' 6 60 None None (snd (bootstrap_sponsor ''bob'' 5 (snd sample_poll))))"

lemma sample_offer_runs: "enrollment_runs new_store sample_offer"
proof -
  have "enrollment_step (snd sample_poll) (snd (bootstrap_sponsor ''bob'' 5 (snd sample_poll)))" by (rule step_bootstrap)
  moreover have "enrollment_step (snd (bootstrap_sponsor ''bob'' 5 (snd sample_poll))) sample_offer"
    unfolding sample_offer_def by (rule step_initiate) simp_all
  ultimately show ?thesis using sample_issued by simp
qed

theorem accepted_transfer_ends_old_custody_witness:
  "fst (authenticate_credential ''t1'' 6 Bearer sample_offer) \<noteq> None \<and>
   fst (accept_transfer ''x1'' ''bob'' 7 None None sample_offer) = Inr 1 \<and>
   fst (authenticate_credential ''t1'' 8 Bearer (snd (accept_transfer ''x1'' ''bob'' 7 None None sample_offer))) = None"
proof (intro conjI)
  show "fst (authenticate_credential ''t1'' 6 Bearer sample_offer) \<noteq> None" by code_simp
  show n: "fst (accept_transfer ''x1'' ''bob'' 7 None None sample_offer) = Inr 1" by code_simp
  define tr where "tr = the (map_of (es_transfers sample_offer) ''x1'')"
  have "map_of (es_transfers sample_offer) ''x1'' \<noteq> None" by code_simp
  then have tr: "map_of (es_transfers sample_offer) ''x1'' = Some tr" by (auto simp: tr_def)
  have f: "tr_fellow tr = ''f1''" unfolding tr_def by code_simp
  have "map_option cb_fellow (map_of (es_credentials sample_offer) ''t1'') = Some ''f1''" by code_simp
  then obtain c where c: "map_of (es_credentials sample_offer) ''t1'' = Some c" "cb_fellow c = tr_fellow tr" using f by auto
  have "accept_transfer ''x1'' ''bob'' 7 None None sample_offer = (Inr 1, snd (accept_transfer ''x1'' ''bob'' 7 None None sample_offer))"
    using n by (simp add: prod_eq_iff)
  from accepted_transfer_ends_old_custody [OF sample_offer_runs tr this rtranclp.rtrancl_refl] c
  show "fst (authenticate_credential ''t1'' 8 Bearer (snd (accept_transfer ''x1'' ''bob'' 7 None None sample_offer))) = None"
    by auto
qed

text \<open>
  A sample: a Fellow that is compromised is transferred, and its new sponsor activates it, which the
  table of the account states does not allow.
\<close>

definition sample_target :: "unit enrollment_store" where
  "sample_target = snd (bootstrap_sponsor ''bob'' 5 sample_compromised)"

definition sample_initiated :: "unit enrollment_store" where
  "sample_initiated = snd (initiate_transfer ''x1'' ''f1'' ''ann'' ''bob'' 6 60 None None sample_target)"

definition sample_accepted :: "(enrollment_error + nat) \<times> unit enrollment_store" where
  "sample_accepted = accept_transfer ''x1'' ''bob'' 7 None None sample_initiated"

definition sample_revived :: "unit enrollment_store" where
  "sample_revived = snd (transition_fellow (sample_command ''bob'' ''l2'' 8) ''f1'' Active (\<lambda>_. None) (snd sample_accepted))"

lemma compromised_fellow_is_revived:
  "enrollment_runs new_store sample_compromised" "enrollment_runs sample_compromised sample_revived"
  "map_of (es_statuses sample_compromised) ''f1'' = Some Compromised" "map_of (es_statuses sample_revived) ''f1'' = Some Active"
proof -
  show "enrollment_runs new_store sample_compromised" by (rule rtranclp_trans [OF sample_issued sample_compromised_runs])
  have "enrollment_step sample_compromised sample_target" unfolding sample_target_def by (rule step_bootstrap)
  moreover have "enrollment_step sample_target sample_initiated" unfolding sample_initiated_def by (rule step_initiate) simp_all
  moreover have "enrollment_step sample_initiated (snd sample_accepted)" unfolding sample_accepted_def by (rule step_accept)
  moreover have "enrollment_step (snd sample_accepted) sample_revived"
    unfolding sample_revived_def by (rule step_transition) (simp add: sample_command_def)
  ultimately show "enrollment_runs sample_compromised sample_revived" by simp
  show "map_of (es_statuses sample_compromised) ''f1'' = Some Compromised" by code_simp
  show "map_of (es_statuses sample_revived) ''f1'' = Some Active" by code_simp
qed

end
