(* ===== verification/EnrollmentReadLaws.thy ===== *)
theory EnrollmentReadLaws
  imports EnrollmentReads EnrollmentProperties
begin

section \<open>Properties of the reads of the enrollment store\<close>

text \<open>
  What an accepted name cannot be, and that the pages of a list, read one after the other, are
  the list in its order. The contract of a paged list is a locale, interpreted on the Fellows
  of a sponsor and on the audit of its cap.
\<close>

subsection \<open>Names\<close>

lemma accepted_name:
  assumes "enrollment_name_failure name = None"
  shows "fellow_name_schema name" "w \<in> set (model_names @ harness_names @ product_identities) \<Longrightarrow> \<not> is_or_extends w name"
    "p \<in> set (segments name) \<Longrightarrow> leet_normalized p \<notin> set profanity_denylist" "name \<notin> set reserved_fellow_names"
    "\<not> claims_a_title name"
  using assms unfolding enrollment_name_failure_def by (auto simp: list_ex_iff split: if_splits)

lemma accepted_name_length: "enrollment_name_failure name = None \<Longrightarrow> 3 \<le> length name \<and> length name \<le> 32"
  using accepted_name(1) [of name] by (cases name) (auto simp: fellow_name_schema_def)

subsection \<open>Sorting with a comparison\<close>

lemma insert_by_key: "(\<And>x y. compare x y \<le> 0 \<longleftrightarrow> key x \<le> key y) \<Longrightarrow> insert_by compare x ys = insort_key key x ys"
  by (induction ys) simp_all

lemma sort_by_key: "(\<And>x y. compare x y \<le> 0 \<longleftrightarrow> key x \<le> key y) \<Longrightarrow> sort_by compare xs = sort_key key xs"
  unfolding sort_by_def by (induction xs) (simp_all add: insert_by_key)

lemma sort_key_insort: "sort_key key xs = foldr (insort_key key) xs []"
  by (simp add: sort_key_def)

subsection \<open>Paged lists\<close>

fun read_pages :: "('c option \<Rightarrow> 'a list \<times> 'c option) \<Rightarrow> nat \<Rightarrow> 'c option \<Rightarrow> 'a list" where
  "read_pages page 0 c = []"
| "read_pages page (Suc n) c = (case page c of (xs, None) \<Rightarrow> xs | (xs, Some c') \<Rightarrow> xs @ read_pages page n (Some c'))"

locale paged_list =
  fixes page :: "'c option \<Rightarrow> 'a list \<times> 'c option"
    and items :: "'a list" and key :: "'a \<Rightarrow> 'k::linorder" and cursor_key :: "'c \<Rightarrow> 'k" and page_size :: nat
  assumes in_order: "sorted (map key items)"
    and size_pos: "0 < page_size"
    and page_items: "fst (page c) = take page_size (filter (\<lambda>x. case c of None \<Rightarrow> True | Some d \<Rightarrow> cursor_key d < key x) items)"
    and page_next: "snd (page c) = None \<longleftrightarrow>
      length (filter (\<lambda>x. case c of None \<Rightarrow> True | Some d \<Rightarrow> cursor_key d < key x) items) \<le> page_size"
    and next_key: "snd (page c) = Some d \<Longrightarrow> cursor_key d = key (last (fst (page c)))"
begin

lemma after_item:
  assumes "items = as @ bs" and "as \<noteq> []" and unique: "distinct (map key items)"
  shows "filter (\<lambda>x. key (last as) < key x) items = bs"
proof -
  have sorted: "sorted_wrt (<) (map key items)" using in_order unique by (simp add: strict_sorted_iff)
  obtain zs z where as: "as = zs @ [z]" using assms(2) by (metis append_butlast_last_id)
  then have "sorted_wrt (<) (map key zs @ [key z] @ map key bs)" using sorted assms(1) by simp
  then have a: "\<forall>x \<in> set as. \<not> key (last as) < key x" and b: "\<forall>y \<in> set bs. key (last as) < key y"
    unfolding as by (auto simp: sorted_wrt_append dest: less_imp_not_less)
  have "filter (\<lambda>x. key (last as) < key x) as = []" using a by (simp add: filter_empty_conv)
  moreover have "filter (\<lambda>x. key (last as) < key x) bs = bs" using b by (simp add: filter_id_conv)
  ultimately show ?thesis by (simp add: assms(1))
qed

lemma read_from:
  assumes "items = as @ bs" and "as \<noteq> []" and "cursor_key d = key (last as)" and "length bs < fuel"
    and unique: "distinct (map key items)"
  shows "read_pages page fuel (Some d) = bs"
  using assms(1-4)
proof (induction fuel arbitrary: as bs d)
  case (Suc fuel)
  have rest: "filter (\<lambda>x. case Some d of None \<Rightarrow> True | Some d \<Rightarrow> cursor_key d < key x) items = bs"
    using after_item [OF Suc.prems(1,2) unique] Suc.prems(3) by simp
  then have xs: "fst (page (Some d)) = take page_size bs" using page_items [of "Some d"] by simp
  show ?case
  proof (cases "snd (page (Some d))")
    case None
    then have "length bs \<le> page_size" using page_next [of "Some d"] rest by simp
    then show ?thesis using None xs by (cases "page (Some d)") simp
  next
    case (Some e)
    then have long: "page_size < length bs" using page_next [of "Some d"] rest by simp
    have "cursor_key e = key (last (as @ take page_size bs))"
      using next_key [OF Some] xs long size_pos by (auto simp: last_append)
    moreover have "items = (as @ take page_size bs) @ drop page_size bs" using Suc.prems(1) by simp
    moreover have "length (drop page_size bs) < fuel" using Suc.prems(4) size_pos long by simp
    ultimately have "read_pages page fuel (Some e) = drop page_size bs"
      using Suc.IH [of "as @ take page_size bs" "drop page_size bs" e] Suc.prems(2) by simp
    then show ?thesis using Some xs by (cases "page (Some d)") simp
  qed
qed simp

lemma pages_are_the_list:
  assumes "length items < fuel" and unique: "distinct (map key items)"
  shows "read_pages page fuel None = items"
proof -
  obtain n where n: "fuel = Suc n" using assms by (cases fuel) auto
  have xs: "fst (page None) = take page_size items" using page_items [of None] by simp
  show ?thesis
  proof (cases "snd (page None)")
    case None
    then have "length items \<le> page_size" using page_next [of None] by simp
    then show ?thesis using None xs n by (cases "page None") simp
  next
    case (Some e)
    then have long: "page_size < length items" using page_next [of None] by simp
    then have "read_pages page n (Some e) = drop page_size items"
      using next_key [OF Some] xs size_pos assms(1) n
      by (intro read_from [of "take page_size items"]) (auto simp: unique)
    then show ?thesis using Some xs n by (cases "page None") simp
  qed
qed

end

subsection \<open>The pages of Fellows\<close>

lemma compare_bytes_le: "compare_bytes as bs \<le> 0 \<longleftrightarrow> as \<le> bs"
  by (induction as bs rule: compare_bytes.induct) auto

lemma compare_bytes_less: "0 < compare_bytes as bs \<longleftrightarrow> bs < as"
  using compare_bytes_le [of as bs] by (auto simp: not_le)

definition fellow_key :: "sponsor_fellow \<Rightarrow> int \<times> nat list" where
  "fellow_key f = (- sf_granted f, utf8_bytes (sf_fellow f))"

definition fellow_cursor_key :: "int \<times> string \<Rightarrow> int \<times> nat list" where
  "fellow_cursor_key c = (- fst c, utf8_bytes (snd c))"

lemma fellow_order: "compare_fellow_page_order x y \<le> 0 \<longleftrightarrow> fellow_key x \<le> fellow_key y"
  by (auto simp: compare_fellow_page_order_def fellow_key_def compare_fellow_id_binary_def compare_bytes_le less_eq_prod_def)

lemma follows_key: "follows_fellow_cursor f c \<longleftrightarrow> fellow_cursor_key c < fellow_key f"
  by (auto simp: follows_fellow_cursor_def fellow_cursor_key_def fellow_key_def compare_fellow_id_binary_def
    compare_bytes_less less_prod_def')

lemma take_more [simp]: "take n (take (Suc n) xs) = take n xs"
  by simp

interpretation fellow_pages: paged_list "\<lambda>c. fellows_by_sponsor sponsor now c s" "sort_key fellow_key (granted_fellows sponsor now s)"
    fellow_key fellow_cursor_key sponsor_fellow_page_size for sponsor now and s :: "'c enrollment_store"
proof
  have ordered: "sort_by compare_fellow_page_order (filter P xs) = filter P (sort_key fellow_key xs)" for P xs
    by (simp add: sort_by_key [OF fellow_order] filter_sort)
  fix c d
  show "fst (fellows_by_sponsor sponsor now c s) = take sponsor_fellow_page_size
      (filter (\<lambda>x. case c of None \<Rightarrow> True | Some d \<Rightarrow> fellow_cursor_key d < fellow_key x) (sort_key fellow_key (granted_fellows sponsor now s)))"
    unfolding fellows_by_sponsor_def Let_def ordered follows_key by (simp add: min_def)
  show "(snd (fellows_by_sponsor sponsor now c s) = None) =
      (length (filter (\<lambda>x. case c of None \<Rightarrow> True | Some d \<Rightarrow> fellow_cursor_key d < fellow_key x)
        (sort_key fellow_key (granted_fellows sponsor now s))) \<le> sponsor_fellow_page_size)"
    unfolding fellows_by_sponsor_def Let_def ordered follows_key by (auto simp: sponsor_fellow_page_size_def)
  show "snd (fellows_by_sponsor sponsor now c s) = Some d \<Longrightarrow>
      fellow_cursor_key d = fellow_key (last (fst (fellows_by_sponsor sponsor now c s)))"
    by (auto simp: fellows_by_sponsor_def Let_def fellow_cursor_key_def fellow_key_def split: if_splits)
qed (simp_all add: sponsor_fellow_page_size_def)

lemma distinct_map_filter:
  assumes "distinct xs" and "\<And>x y a b. x \<in> set xs \<Longrightarrow> y \<in> set xs \<Longrightarrow> g x = Some a \<Longrightarrow> g y = Some b \<Longrightarrow> f a = f b \<Longrightarrow> x = y"
  shows "distinct (map f (List.map_filter g xs))"
  using assms
proof (induction xs)
  case (Cons x xs)
  have tail: "distinct (map f (List.map_filter g xs))" using Cons by simp
  show ?case
  proof (cases "g x")
    case (Some a)
    have "f a \<notin> set (map f (List.map_filter g xs))"
    proof
      assume "f a \<in> set (map f (List.map_filter g xs))"
      then obtain y b where "y \<in> set xs" "g y = Some b" "f a = f b" by (auto simp: List.map_filter_def)
      then show False using Cons.prems(2) [of x y a b] Cons.prems(1) Some by auto
    qed
    then show ?thesis using tail Some by (simp add: List.map_filter_def)
  qed (use tail in \<open>simp add: List.map_filter_def\<close>)
qed (simp add: List.map_filter_def)

lemma granted_fellows_distinct:
  assumes ok: "enrollment_ok s"
  shows "distinct (map sf_fellow (granted_fellows sponsor now s))"
  unfolding granted_fellows_def
proof (rule distinct_map_filter)
  have k: "records_keyed s" using ok by (simp add: enrollment_ok_def)
  have "map en_id (record_list s) = map fst (es_records s)"
    using k by (auto simp: records_keyed_def record_list_def)
  then show "distinct (record_list s)" using k unfolding records_keyed_def by (metis distinct_map)
  fix x y a b
  assume m: "x \<in> set (record_list s)" "y \<in> set (record_list s)" and v: "fellow_view sponsor now s x = Some a"
    "fellow_view sponsor now s y = Some b" "sf_fellow a = sf_fellow b"
  have p: "\<exists>p. en_proposal r = Some p \<and> pr_fellow p = sf_fellow f" if "fellow_view sponsor now s r = Some f" for r f
    using that by (auto simp: fellow_view_def split: option.splits if_splits)
  then obtain p q where "en_proposal x = Some p" "pr_fellow p = sf_fellow a" "en_proposal y = Some q" "pr_fellow q = sf_fellow b"
    using v by metis
  then show "x = y"
    using m v(3) one_owner [OF ok] record_map_of [OF k] unfolding proposed_def by metis
qed

text \<open>C21. Reading the pages of a sponsor's Fellows one after the other, each from the cursor of the page
before, gives all its granted Fellows in the order of the list, each once.\<close>

theorem fellow_pages_list_each_once:
  assumes run: "enrollment_runs new_store s" and fuel: "length (granted_fellows sponsor now s) < fuel"
  shows "read_pages (\<lambda>c. fellows_by_sponsor sponsor now c s) fuel None =
      sort_by compare_fellow_page_order (granted_fellows sponsor now s) \<and>
    distinct (map sf_fellow (granted_fellows sponsor now s))"
proof
  show d: "distinct (map sf_fellow (granted_fellows sponsor now s))"
    using granted_fellows_distinct [OF reachable_ok [OF run]] .
  have "inj_on fellow_key (set (granted_fellows sponsor now s))"
    using d by (auto simp: inj_on_def fellow_key_def distinct_map)
  then have "distinct (map fellow_key (sort_key fellow_key (granted_fellows sponsor now s)))"
    using d by (simp add: distinct_map)
  then show "read_pages (\<lambda>c. fellows_by_sponsor sponsor now c s) fuel None =
      sort_by compare_fellow_page_order (granted_fellows sponsor now s)"
    using fellow_pages.pages_are_the_list [of sponsor now s fuel] fuel by (simp add: sort_by_key [OF fellow_order])
qed

theorem fellow_pages_list_each_once_witness:
  "map sf_fellow (read_pages (\<lambda>c. fellows_by_sponsor ''ann'' 5 c (snd sample_poll)) 2 None) = [''f1'']"
proof -
  have "length (granted_fellows ''ann'' 5 (snd sample_poll)) < 2" by code_simp
  then have "read_pages (\<lambda>c. fellows_by_sponsor ''ann'' 5 c (snd sample_poll)) 2 None =
      sort_by compare_fellow_page_order (granted_fellows ''ann'' 5 (snd sample_poll))"
    using fellow_pages_list_each_once [OF sample_issued] by blast
  moreover have "map sf_fellow (sort_by compare_fellow_page_order (granted_fellows ''ann'' 5 (snd sample_poll))) = [''f1'']" by code_simp
  ultimately show ?thesis by simp
qed

subsection \<open>The pages of the audit\<close>

definition cap_events :: "string \<Rightarrow> 'c enrollment_store \<Rightarrow> cap_audit list" where
  "cap_events sponsor s = (if map_of (es_sponsors s) sponsor = None then []
     else case map_of (es_cap_audit s) sponsor of None \<Rightarrow> [] | Some es \<Rightarrow> es)"

definition audit_page :: "string \<Rightarrow> 'c enrollment_store \<Rightarrow> int option \<Rightarrow> cap_audit list \<times> int option" where
  "audit_page sponsor s c = (case sponsor_fellow_cap_audit sponsor c s of Inl _ \<Rightarrow> ([], None) | Inr p \<Rightarrow> p)"

definition audit_after :: "string \<Rightarrow> 'c enrollment_store \<Rightarrow> int option \<Rightarrow> cap_audit list" where
  "audit_after sponsor s c =
     filter (\<lambda>e. case c of None \<Rightarrow> True | Some n \<Rightarrow> - n < - ca_seq e) (sort_key (\<lambda>e. - ca_seq e) (cap_events sponsor s))"

lemma audit_page_cases:
  "audit_page sponsor s c = (take cap_audit_page_size (audit_after sponsor s c),
    if length (audit_after sponsor s c) \<le> cap_audit_page_size then None
    else Some (ca_seq (last (take cap_audit_page_size (audit_after sponsor s c)))))"
proof -
  have sort: "sort_by (\<lambda>x y. ca_seq y - ca_seq x) es = sort_key (\<lambda>e. - ca_seq e) es" for es
    by (rule sort_by_key) auto
  have before: "ca_seq e < n \<longleftrightarrow> - n < - ca_seq e" for e n by auto
  let ?ys = "audit_after sponsor s c"
  show ?thesis
  proof (cases "map_of (es_sponsors s) sponsor = None")
    case False
    then obtain row where row: "map_of (es_sponsors s) sponsor = Some row" by auto
    have "audit_page sponsor s c =
        (let window = take (cap_audit_page_size + 1) ?ys; more = length window > cap_audit_page_size;
           page = (if more then butlast window else window) in
         (page, if more \<and> page \<noteq> [] then Some (ca_seq (last page)) else None))"
      unfolding audit_page_def sponsor_fellow_cap_audit_def audit_after_def cap_events_def sort before Let_def by (simp add: row)
    then show ?thesis by (auto simp: Let_def butlast_take cap_audit_page_size_def)
  qed (simp add: audit_page_def sponsor_fellow_cap_audit_def audit_after_def cap_events_def)
qed

interpretation audit_pages: paged_list "audit_page sponsor s" "sort_key (\<lambda>e. - ca_seq e) (cap_events sponsor s)"
    "\<lambda>e. - ca_seq e" uminus cap_audit_page_size for sponsor and s :: "'c enrollment_store"
  by unfold_locales (auto simp: audit_page_cases audit_after_def cap_audit_page_size_def split: if_splits)

lemma audit_pages_list_each_once:
  "length (cap_events sponsor s) < fuel \<Longrightarrow> distinct (map ca_seq (cap_events sponsor s)) \<Longrightarrow>
    read_pages (audit_page sponsor s) fuel None = sort_key (\<lambda>e. - ca_seq e) (cap_events sponsor s)"
  by (rule audit_pages.pages_are_the_list) (auto simp: distinct_map inj_on_def)

subsection \<open>A credential that the list hides\<close>

text \<open>
  The list compares the instant of the proposal's grant with a panic of the sponsor, the
  authentication the instant of the last transfer. After a transfer to a sponsor whose panic
  lies between the two, a credential from a rebind authenticates and is not listed.
\<close>

definition sample_panicked :: "unit enrollment_store" where
  "sample_panicked = snd (panic_sponsor (sample_command ''bob'' ''l2'' 4) (\<lambda>_. None) (snd (bootstrap_sponsor ''bob'' 3 (snd sample_poll))))"

definition sample_moved :: "unit enrollment_store" where
  "sample_moved = snd (accept_transfer ''x1'' ''bob'' 7 None None
     (snd (initiate_transfer ''x1'' ''f1'' ''ann'' ''bob'' 6 60 None None sample_panicked)))"

definition sample_rebound :: "unit enrollment_store" where
  "sample_rebound = snd (decide_rebind ''b1'' ''bob'' True 10 None (snd (claim_rebind ''b1'' ''rs'' ''bw'' (''ada'', ''m'', ''n'') 9 None
     (snd (create_rebind ''b1'' ''f1'' ''bob'' ''rs'' 8 60 None sample_moved)))))"

definition sample_reissued :: "unit enrollment_store" where
  "sample_reissued = snd (poll_rebind ''bw'' (''secret2'', ''t2'') 12 (\<lambda>_. None)
     (snd (transition_fellow (sample_command ''bob'' ''l3'' 11) ''f1'' Active (\<lambda>_. None) sample_rebound)))"

lemma transferred_credential_is_hidden:
  "fst (authenticate_credential ''t2'' 13 Bearer sample_reissued) \<noteq> None"
  "map (\<lambda>f. (sf_fellow f, sf_credentials f)) (granted_fellows ''bob'' 13 sample_reissued) = [(''f1'', [])]"
  by code_simp+

end
