(* ===== verification/GrantLaws.thy ===== *)
theory GrantLaws
  imports EnrollmentGrants
begin

section \<open>Properties of grants and of the write authorization\<close>

text \<open>
  What an allowed write implies, that a grant within a request allows no more than the request
  as long as the binding is kept, that a reduction stays within the request, and the bounds of
  the pacing.
\<close>

subsection \<open>What an allowed write implies\<close>

definition target_problem :: "write_target \<Rightarrow> string option" where
  "target_problem target = (case target of
     ExistingProblem p _ _ _ _ \<Rightarrow> Some p | NewProblem _ _ \<Rightarrow> None | SessionAdmission p \<Rightarrow> Some p | SessionClosing p _ \<Rightarrow> Some p)"

text \<open>The checks of an evaluation, in their order, and the answer when none of them refuses.\<close>

definition write_checks ::
  "write_effect \<Rightarrow> credential_binding \<Rightarrow> write_target \<Rightarrow> grant_usage \<Rightarrow> jsnum option \<Rightarrow> int \<Rightarrow> refusal_reason option list" where
  "write_checks effect c target u requested now =
     [credential_refusal c now, scope_refusal effect (cb_scopes c),
      if grant_over (cb_resources c) now then Some GrantExpired else None,
      target_refusal effect (cb_resources c) target, event_refusal effect (cb_resources c) u,
      artifact_refusal effect (cb_resources c) u requested]"

definition unrefused :: "write_effect \<Rightarrow> lifecycle_status \<Rightarrow> write_evaluation" where
  "unrefused effect status =
     (if status = SuspiciousReview then
        (if effect = SessionOpen \<or> effect = SessionClose then Refuse SuspiciousReviewWriteBlocked else Quarantine)
      else Allow)"

lemma evaluation_checks:
  "evaluate_fellow_write effect c target u requested now =
     (case first_refusal (write_checks effect c target u requested now) of
        Some r \<Rightarrow> Refuse r | None \<Rightarrow> unrefused effect (cb_status c))"
  unfolding evaluate_fellow_write_def write_checks_def unrefused_def Let_def by (rule refl)

lemma unrefused_checks:
  assumes "\<And>r. evaluate_fellow_write effect c target u requested now \<noteq> Refuse r"
  shows "credential_refusal c now = None" "scope_refusal effect (cb_scopes c) = None" "\<not> grant_over (cb_resources c) now"
    "target_refusal effect (cb_resources c) target = None" "event_refusal effect (cb_resources c) u = None"
    "artifact_refusal effect (cb_resources c) u requested = None"
    "evaluate_fellow_write effect c target u requested now = unrefused effect (cb_status c)"
proof -
  have none: "first_refusal (write_checks effect c target u requested now) = None"
    using assms unfolding evaluation_checks by (cases "first_refusal (write_checks effect c target u requested now)") auto
  then show "evaluate_fellow_write effect c target u requested now = unrefused effect (cb_status c)"
    by (simp add: evaluation_checks)
  show "credential_refusal c now = None" "scope_refusal effect (cb_scopes c) = None" "\<not> grant_over (cb_resources c) now"
    "target_refusal effect (cb_resources c) target = None" "event_refusal effect (cb_resources c) u = None"
    "artifact_refusal effect (cb_resources c) u requested = None"
    using none unfolding first_refusal_None write_checks_def by (auto split: if_splits)
qed

lemma bound_target:
  "target_refusal effect g target = None \<Longrightarrow> problem_binding g = Some b \<Longrightarrow> target_problem target = Some b"
  by (auto simp: target_refusal_def problem_write_refusal_def bound_elsewhere_def target_problem_def
    split: write_effect.splits write_target.splits requested_scope.splits if_splits)

lemma member_target:
  "target_refusal effect g (ExistingProblem p published unlisted role action) = None \<Longrightarrow> role \<noteq> None"
  by (auto simp: target_refusal_def problem_write_refusal_def split: write_effect.splits requested_scope.splits if_splits)

lemma draft_target:
  "target_refusal effect g (ExistingProblem p PrivateDraft unlisted role action) = None \<Longrightarrow>
    effect = ScopedWrite UploadArtifacts \<or> effect = WorkshopPush"
  by (cases effect rule: write_effect.exhaust) (auto simp: target_refusal_def problem_write_refusal_def
    split: requested_scope.splits if_splits)

lemma retry_target:
  "target_refusal PublicationRetry g target = None \<Longrightarrow>
    \<exists>p unlisted role. target = ExistingProblem p Published unlisted role (Some ''evidence'')"
  by (auto simp: target_refusal_def problem_write_refusal_def split: write_target.splits if_splits publication.splits)
    (metis publication.exhaust)

lemma observer_target:
  "target_refusal (ScopedWrite Promote) g (ExistingProblem p published unlisted (Some Observer) action) = None \<Longrightarrow>
    action \<noteq> None \<and> action \<noteq> Some ''claim''"
  by (auto simp: target_refusal_def problem_write_refusal_def split: if_splits)

definition scopes_needed :: "write_effect \<Rightarrow> requested_scope set" where
  "scopes_needed effect = (case effect of
     ScopedWrite s \<Rightarrow> {s} | PublicationRetry \<Rightarrow> {Promote, UploadArtifacts} | _ \<Rightarrow> {})"

text \<open>The bytes that a write adds to the artifacts, if they can be told.\<close>

definition artifact_bytes_added :: "write_effect \<Rightarrow> jsnum option \<Rightarrow> int option" where
  "artifact_bytes_added effect requested =
     (if effect = ScopedWrite UploadArtifacts then Option.bind requested safe_int else Some 0)"

lemma within_artifact_budget:
  "artifact_refusal effect g u requested = None \<Longrightarrow> effect = ScopedWrite UploadArtifacts \<or> effect = PublicationRetry \<Longrightarrow>
    \<exists>n \<ge> 0. artifact_bytes_added effect requested = Some n \<and>
      (\<forall>b. artifact_budget g = Some b \<longrightarrow> artifact_bytes_recorded u + n \<le> b)"
  by (auto simp: artifact_refusal_def artifact_bytes_added_def split: if_splits option.splits)

text \<open>C11. An allowed write, of whatever effect, is by an active Fellow, inside the times of a credential
that is not revoked and of a grant that is not over, with every scope that the effect needs: the one
of a scoped write, both promotion and upload for the retry of a publication, none for the push to
a workshop and for sessions. A bound credential writes to its problem only. A write to an existing
problem is by a member, a claim is not promoted by an observer, and only an upload or a push
to a workshop reaches a private draft. The events recorded are below the budget, and at most the
budget for the retry of a publication, whose event is counted already; the bytes of an upload are
known, and they and those recorded are within the budget of artifacts.\<close>

theorem allowed_write_is_authorized:
  assumes "evaluate_fellow_write effect c target u requested now = Allow"
  shows "cb_status c = Active \<and> (\<forall>t. cb_revoked c = Some t \<longrightarrow> now < t) \<and> cb_issued c \<le> now \<and> now < cb_expires c \<and>
    (\<forall>t. grant_expires (cb_resources c) = Some t \<longrightarrow> now < t) \<and>
    scopes_needed effect \<subseteq> set (cb_scopes c) \<and>
    (\<forall>b. problem_binding (cb_resources c) = Some b \<longrightarrow> target_problem target = Some b) \<and>
    (\<forall>p published unlisted role action. target = ExistingProblem p published unlisted role action \<longrightarrow>
       role \<noteq> None \<and>
       (role = Some Observer \<longrightarrow> effect = ScopedWrite Promote \<longrightarrow> action \<noteq> None \<and> action \<noteq> Some ''claim'') \<and>
       (published = PrivateDraft \<longrightarrow> effect = ScopedWrite UploadArtifacts \<or> effect = WorkshopPush)) \<and>
    (\<forall>n. event_budget (cb_resources c) = Some n \<longrightarrow>
       events_recorded u < n \<or> effect = PublicationRetry \<and> events_recorded u = n) \<and>
    (effect = ScopedWrite UploadArtifacts \<or> effect = PublicationRetry \<longrightarrow>
       (\<exists>n \<ge> 0. artifact_bytes_added effect requested = Some n \<and>
         (\<forall>b. artifact_budget (cb_resources c) = Some b \<longrightarrow> artifact_bytes_recorded u + n \<le> b)))"
proof -
  have no: "\<And>r. evaluate_fellow_write effect c target u requested now \<noteq> Refuse r" using assms by simp
  note checks = unrefused_checks [OF no]
  have status: "cb_status c \<noteq> SuspiciousReview" using checks(7) assms by (auto simp: unrefused_def split: if_splits)
  have credential: "cb_status c = Active \<and> (\<forall>t. cb_revoked c = Some t \<longrightarrow> now < t) \<and> cb_issued c \<le> now \<and> now < cb_expires c"
    using checks(1) status by (auto simp: credential_refusal_def split: if_splits option.splits)
  have scope: "scopes_needed effect \<subseteq> set (cb_scopes c)"
    using checks(2) by (auto simp: scope_refusal_def scopes_needed_def split: write_effect.splits if_splits)
  have over: "\<forall>t. grant_expires (cb_resources c) = Some t \<longrightarrow> now < t"
    using checks(3) by (auto simp: grant_over_def)
  have budget: "\<forall>n. event_budget (cb_resources c) = Some n \<longrightarrow>
       events_recorded u < n \<or> effect = PublicationRetry \<and> events_recorded u = n"
    using checks(5) by (auto simp: event_refusal_def split: if_splits)
  have bound: "\<forall>b. problem_binding (cb_resources c) = Some b \<longrightarrow> target_problem target = Some b"
    using bound_target [OF checks(4)] by blast
  have member: "\<forall>p published unlisted role action. target = ExistingProblem p published unlisted role action \<longrightarrow>
       role \<noteq> None \<and>
       (role = Some Observer \<longrightarrow> effect = ScopedWrite Promote \<longrightarrow> action \<noteq> None \<and> action \<noteq> Some ''claim'') \<and>
       (published = PrivateDraft \<longrightarrow> effect = ScopedWrite UploadArtifacts \<or> effect = WorkshopPush)"
    using checks(4) member_target draft_target observer_target by blast
  show ?thesis using credential scope over budget bound member within_artifact_budget [OF checks(6)] by blast
qed

text \<open>The retry of a publication has no other target than the evidence of a published problem.\<close>

lemma allowed_retry_target:
  "evaluate_fellow_write PublicationRetry c target u requested now = Allow \<Longrightarrow>
    \<exists>p unlisted role. target = ExistingProblem p Published unlisted role (Some ''evidence'')"
  using unrefused_checks(4) [THEN retry_target] by (metis write_evaluation.distinct(3))

definition open_grants :: resource_grants where
  "open_grants = \<lparr>problem_binding = None, first_directive = None, event_budget = Some 3, artifact_budget = None, grant_expires = Some 90\<rparr>"

definition bound_grants :: resource_grants where
  "bound_grants = open_grants\<lparr>problem_binding := Some ''p1''\<rparr>"

definition sample_binding :: "resource_grants \<Rightarrow> credential_binding" where
  "sample_binding g = \<lparr>cb_fellow = ''f1'', cb_credential = ''c1'', cb_sponsor = ''ann'', cb_name = ''ada'', cb_model = ''m'',
     cb_harness = ''n'', cb_scopes = [Promote, Review], cb_resources = g, cb_token_hash = ''t1'', cb_issued = 1, cb_expires = 100,
     cb_last_used = None, cb_revoked = None, cb_profile = Bearer, cb_status = Active\<rparr>"

abbreviation sample_write :: "resource_grants \<Rightarrow> string \<Rightarrow> write_evaluation" where
  "sample_write g p \<equiv> evaluate_fellow_write (ScopedWrite Promote) (sample_binding g)
     (ExistingProblem p Published False (Some Contributor) None) \<lparr>events_recorded = 1, artifact_bytes_recorded = 0\<rparr> None 50"

text \<open>Also an upload to a private draft and the retry of a publication at its budget are allowed.\<close>

abbreviation sample_uploader :: credential_binding where
  "sample_uploader \<equiv> (sample_binding (bound_grants\<lparr>artifact_budget := Some 10\<rparr>))\<lparr>cb_scopes := [UploadArtifacts, Promote]\<rparr>"

theorem allowed_write_is_authorized_witness:
  "sample_write bound_grants ''p1'' = Allow \<and> (50 :: int) < 90 \<and> {Promote} \<subseteq> set (cb_scopes (sample_binding bound_grants)) \<and>
   evaluate_fellow_write (ScopedWrite UploadArtifacts) sample_uploader (ExistingProblem ''p1'' PrivateDraft False (Some Observer) None)
     \<lparr>events_recorded = 2, artifact_bytes_recorded = 6\<rparr> (Some (num 4)) 50 = Allow \<and>
   evaluate_fellow_write PublicationRetry sample_uploader (ExistingProblem ''p1'' Published False (Some Observer) (Some ''evidence''))
     \<lparr>events_recorded = 3, artifact_bytes_recorded = 10\<rparr> None 50 = Allow"
proof (intro conjI)
  show allow: "sample_write bound_grants ''p1'' = Allow" by code_simp
  note facts = allowed_write_is_authorized [OF allow]
  have "grant_expires (cb_resources (sample_binding bound_grants)) = Some 90" by code_simp
  moreover have "\<forall>t. grant_expires (cb_resources (sample_binding bound_grants)) = Some t \<longrightarrow> 50 < t"
    using facts by (elim conjE)
  ultimately show "(50 :: int) < 90" by blast
  have "scopes_needed (ScopedWrite Promote) \<subseteq> set (cb_scopes (sample_binding bound_grants))"
    using facts by (elim conjE)
  then show "{Promote} \<subseteq> set (cb_scopes (sample_binding bound_grants))" by (simp add: scopes_needed_def)
qed code_simp+

subsection \<open>Narrower grants\<close>

lemma same_binding_target:
  "problem_binding g = problem_binding g' \<Longrightarrow> target_refusal effect g target = target_refusal effect g' target"
  unfolding target_refusal_def problem_write_refusal_def bound_elsewhere_def by (simp only:)

lemma within_parts:
  assumes "enrollment_grant_is_within_request approved scopes g scopes' g'"
  shows "set scopes' \<subseteq> set scopes" "cap_within (event_budget g) (event_budget g')"
    "cap_within (artifact_budget g) (artifact_budget g')" "cap_within (grant_expires g) (grant_expires g')"
  using assms by (auto simp: enrollment_grant_is_within_request_def list_ex_iff)

lemma narrower_scopes: "set scopes' \<subseteq> set scopes \<Longrightarrow> scope_refusal effect scopes' = None \<Longrightarrow> scope_refusal effect scopes = None"
  by (auto simp: scope_refusal_def split: write_effect.splits if_splits)

lemma narrower_expiry: "cap_within (grant_expires g) (grant_expires g') \<Longrightarrow> \<not> grant_over g' now \<Longrightarrow> \<not> grant_over g now"
  by (auto simp: cap_within_def grant_over_def split: option.splits)

lemma narrower_events:
  "cap_within (event_budget g) (event_budget g') \<Longrightarrow> event_refusal effect g' u = None \<Longrightarrow> event_refusal effect g u = None"
  by (auto simp: cap_within_def event_refusal_def split: option.splits if_splits)

lemma narrower_artifacts:
  "cap_within (artifact_budget g) (artifact_budget g') \<Longrightarrow> artifact_refusal effect g' u n = None \<Longrightarrow> artifact_refusal effect g u n = None"
  by (auto simp: cap_within_def artifact_refusal_def split: option.splits if_splits)

lemma credential_refusal_grant [simp]:
  "credential_refusal (c\<lparr>cb_scopes := a, cb_resources := b\<rparr>) now = credential_refusal c now"
  by (simp add: credential_refusal_def)

text \<open>C17. A grant within the request, with the binding of the request, allows no more than the request:
a write that it does not refuse has the same answer under the requested authority.\<close>

theorem narrower_grant_allows_no_more:
  assumes within: "enrollment_grant_is_within_request approved scopes g scopes' g'"
    and binding: "problem_binding g' = problem_binding g"
    and no: "\<And>r. evaluate_fellow_write effect (c\<lparr>cb_scopes := scopes', cb_resources := g'\<rparr>) target u n now \<noteq> Refuse r"
  shows "evaluate_fellow_write effect (c\<lparr>cb_scopes := scopes, cb_resources := g\<rparr>) target u n now =
    evaluate_fellow_write effect (c\<lparr>cb_scopes := scopes', cb_resources := g'\<rparr>) target u n now"
proof -
  note checks = unrefused_checks [OF no, simplified]
  note parts = within_parts [OF within]
  have "first_refusal (write_checks effect (c\<lparr>cb_scopes := scopes, cb_resources := g\<rparr>) target u n now) = None"
    using checks narrower_scopes [OF parts(1)] narrower_events [OF parts(2)] narrower_artifacts [OF parts(3)]
      narrower_expiry [OF parts(4)] same_binding_target [OF binding]
    by (simp add: first_refusal_None write_checks_def)
  then show ?thesis using checks(7) by (simp add: evaluation_checks)
qed

theorem narrower_grant_allows_no_more_witness:
  "evaluate_fellow_write (ScopedWrite Review) (sample_binding open_grants)
     (ExistingProblem ''p1'' Published False (Some Observer) None) \<lparr>events_recorded = 1, artifact_bytes_recorded = 0\<rparr> None 50 = Allow"
proof -
  let ?g = "open_grants\<lparr>event_budget := Some 2\<rparr>"
  let ?e = "\<lambda>c. evaluate_fellow_write (ScopedWrite Review) c
    (ExistingProblem ''p1'' Published False (Some Observer) None) \<lparr>events_recorded = 1, artifact_bytes_recorded = 0\<rparr> None 50"
  have allow: "?e ((sample_binding open_grants)\<lparr>cb_scopes := [Review], cb_resources := ?g\<rparr>) = Allow" by code_simp
  have "enrollment_grant_is_within_request False [Promote, Review] open_grants [Review] ?g" by code_simp
  then have "?e ((sample_binding open_grants)\<lparr>cb_scopes := [Promote, Review], cb_resources := open_grants\<rparr>) = Allow"
    using narrower_grant_allows_no_more [of False "[Promote, Review]" open_grants "[Review]" ?g] allow by simp
  then show ?thesis by (simp add: sample_binding_def)
qed

text \<open>Without its binding the reduced grant allows what the request refuses.\<close>

lemma unbinding_widens_authority:
  "reduce_enrollment_resources bound_grants \<lparr>rd_scopes = None, rd_clear_binding = True, rd_clear_directive = False,
     rd_event_budget = None, rd_artifact_budget = None, rd_expires_in = None\<rparr> 40 = Inr open_grants"
  "enrollment_grant_is_within_request False [Promote, Review] bound_grants [Promote, Review] open_grants"
  "sample_write bound_grants ''p2'' = Refuse ProblemBindingMismatch" "sample_write open_grants ''p2'' = Allow"
  by code_simp+

subsection \<open>Reductions\<close>

lemma same_scopes_set: "same_scopes l r \<longleftrightarrow> set l = set r"
proof
  assume "same_scopes l r"
  then have "set (unique_enrollment_scopes l) = set (unique_enrollment_scopes r)" by (simp add: same_scopes_def)
  then show "set l = set r" by (simp add: unique_enrollment_scopes_def)
next
  assume eq: "set l = set r"
  have inj: "inj scope_name" by (rule injI) (auto simp: scope_name_def split: requested_scope.splits)
  have "map scope_name (sort_key scope_name (remdups l)) = map scope_name (sort_key scope_name (remdups r))"
    by (rule sorted_distinct_set_unique) (use inj_on_subset [OF inj] eq in \<open>simp_all add: distinct_map\<close>)
  then show "same_scopes l r"
    unfolding same_scopes_def unique_enrollment_scopes_def by (simp add: inj_map_eq_map [OF inj])
qed

lemma reduced_scopes_within:
  assumes "reduced_scopes requested r = Inr proposed" and "requested \<noteq> []"
  shows "proposed \<noteq> []" "set proposed \<subseteq> set requested" "rd_scopes r \<noteq> None \<Longrightarrow> \<not> same_scopes requested proposed"
    "rd_scopes r = None \<Longrightarrow> proposed = requested"
  using assms unfolding reduced_scopes_def
  by (auto simp: Let_def is_strict_enrollment_scope_reduction_def list_all_iff split: option.splits if_splits)

lemma reduced_resources:
  assumes "reduce_enrollment_resources g r now = Inr g'"
  shows "rd_clear_binding r \<Longrightarrow> problem_binding g \<noteq> None" "rd_clear_directive r \<Longrightarrow> first_directive g \<noteq> None"
    "rd_event_budget r = Some n \<Longrightarrow> lowers (event_budget g) n" "rd_artifact_budget r = Some n \<Longrightarrow> lowers (artifact_budget g) n"
    "rd_expires_in r = Some n \<Longrightarrow> lowers (grant_expires g) (now + n)" "resources_named r"
    "problem_binding g' = (if rd_clear_binding r then None else problem_binding g)"
    "first_directive g' = (if rd_clear_directive r then None else first_directive g)"
    "event_budget g' = (case rd_event_budget r of None \<Rightarrow> event_budget g | Some n \<Rightarrow> Some n)"
    "artifact_budget g' = (case rd_artifact_budget r of None \<Rightarrow> artifact_budget g | Some n \<Rightarrow> Some n)"
    "grant_expires g' = (case rd_expires_in r of None \<Rightarrow> grant_expires g | Some n \<Rightarrow> Some (now + n))"
  using assms unfolding reduce_enrollment_resources_def by (auto split: if_splits)

lemma lowered_within: "(\<And>n. x = Some n \<Longrightarrow> lowers c (f n)) \<Longrightarrow> cap_within c (case x of None \<Rightarrow> c | Some n \<Rightarrow> Some (f n))"
  by (auto simp: cap_within_def lowers_def split: option.splits)

lemma lowered_changes: "lowers c n \<Longrightarrow> c \<noteq> Some n"
  by (auto simp: lowers_def)

lemma reduced_resources_within:
  assumes "reduce_enrollment_resources g r now = Inr g'"
  shows "text_within (problem_binding g) (problem_binding g')" "text_within (first_directive g) (first_directive g')"
    "cap_within (event_budget g) (event_budget g')" "cap_within (artifact_budget g) (artifact_budget g')"
    "cap_within (grant_expires g) (grant_expires g')" "g \<noteq> g'"
proof -
  note parts = reduced_resources [OF assms]
  show "text_within (problem_binding g) (problem_binding g')" "text_within (first_directive g) (first_directive g')"
    by (simp_all add: parts(7,8) text_within_def)
  show "cap_within (event_budget g) (event_budget g')" unfolding parts(9) by (rule lowered_within [OF parts(3)])
  show "cap_within (artifact_budget g) (artifact_budget g')" unfolding parts(10) by (rule lowered_within [OF parts(4)])
  show "cap_within (grant_expires g) (grant_expires g')" unfolding parts(11) by (rule lowered_within [OF parts(5)])
  show "g \<noteq> g'"
  proof
    assume "g = g'"
    then have "\<not> rd_clear_binding r" "\<not> rd_clear_directive r" "rd_event_budget r = None" "rd_artifact_budget r = None" "rd_expires_in r = None"
      using parts(1-5) parts(7-11) lowered_changes by (auto split: option.splits)
    then show False using parts(6) by (simp add: resources_named_def)
  qed
qed

text \<open>C18. A reduction that the decision accepts stays within the request and narrows it, so the check
that the poll makes before it issues a token never refuses it.\<close>

theorem reduced_grant_within_request:
  assumes reduced: "reduced_grant scopes g r now = Inr (scopes', g')" and some: "scopes \<noteq> []"
  shows "enrollment_grant_is_within_request False scopes g scopes' g'"
proof -
  have proposed: "reduced_scopes scopes r = Inr scopes'"
    and resources: "(if resources_named r then reduce_enrollment_resources g r now else Inr g) = Inr g'"
    and changed: "rd_scopes r \<noteq> None \<or> resources_named r"
    using reduced unfolding reduced_grant_def by (auto split: sum.splits if_splits)
  note sc = reduced_scopes_within [OF proposed some]
  have "text_within (problem_binding g) (problem_binding g') \<and> text_within (first_directive g) (first_directive g') \<and>
    cap_within (event_budget g) (event_budget g') \<and> cap_within (artifact_budget g) (artifact_budget g') \<and>
    cap_within (grant_expires g) (grant_expires g') \<and> (resources_named r \<longrightarrow> g \<noteq> g')"
  proof (cases "resources_named r")
    case True
    then have "reduce_enrollment_resources g r now = Inr g'" using resources by simp
    then show ?thesis using reduced_resources_within [of g r now g'] by simp
  next
    case False
    then show ?thesis using resources by (auto simp: text_within_def cap_within_def split: option.split)
  qed
  then show ?thesis
    using sc changed unfolding enrollment_grant_is_within_request_def Let_def by (auto simp: list_ex_iff)
qed

theorem reduced_grant_within_request_witness:
  "enrollment_grant_is_within_request False [Promote, Review] bound_grants [Review] (bound_grants\<lparr>event_budget := Some 2\<rparr>)"
proof (rule reduced_grant_within_request)
  show "reduced_grant [Promote, Review] bound_grants \<lparr>rd_scopes = Some [Review], rd_clear_binding = False, rd_clear_directive = False,
     rd_event_budget = Some 2, rd_artifact_budget = None, rd_expires_in = None\<rparr> 40 = Inr ([Review], bound_grants\<lparr>event_budget := Some 2\<rparr>)"
    by code_simp
qed simp

subsection \<open>Pacing\<close>

lemma pace_bounds: "5 \<le> retry_after (next_enrollment_poll_pacing last_poll seconds now)"
  "retry_after (next_enrollment_poll_pacing last_poll seconds now) \<le> 30"
  by (auto simp: next_enrollment_poll_pacing_def pace_interval_def initial_poll_interval_def max_poll_interval_def
    poll_slow_down_def Let_def split: option.split)

text \<open>A poller that waits as long as it was told is not slowed.\<close>

lemma compliant_poll_keeps_pace:
  assumes "n = retry_after (next_enrollment_poll_pacing last_poll seconds now)" and "now + n * 1000 \<le> later"
  shows "\<exists>m. next_enrollment_poll_pacing (Some now) n later = KeepPending m \<and> m \<le> n"
proof -
  have "5 \<le> n" "n \<le> 30" using pace_bounds [of last_poll seconds now] assms(1) by simp_all
  then have "pace_interval n = n" by (simp add: pace_interval_def initial_poll_interval_def max_poll_interval_def)
  then show ?thesis
    using \<open>5 \<le> n\<close> assms(2)
    by (auto simp: next_enrollment_poll_pacing_def Let_def initial_poll_interval_def poll_slow_down_def max_def
      split: if_splits)
qed

end
