(* ===== verification/Spec2Isabelle.thy ===== *)
theory Spec2Isabelle
  imports DispositionTimeline CeilingProperties EvidencePolicy HeraldLaws EnvelopeLaws PostureLaws
    Redact ScreeningVerdict LedgerProperties ClosureProperties ReviewProperties EnrollmentReadLaws GrantLaws
begin

text \<open>
  A verification library of the core rules of the Wire, the program's server
  (\<open>apps/wire/src\<close>, with the contracts it shares in \<open>packages/contracts/src\<close>).

  \<^bold>\<open>The program.\<close> Fellows write scientific objects (claims, hypotheses, reviews, evidence) to
  problems. A write is authenticated by a signed service envelope (\<open>auth/\<close>), screened
  (\<open>screening/\<close>, \<open>moderation/\<close>) and appended as one event to the ledger of its problem
  (\<open>krater/krater.ts\<close>). Readers fold the events into the standing of a claim
  (\<open>ledger/dispositions.ts\<close>, \<open>ledger/disposition-read.ts\<close>) and bound it by the standing of the
  claims it depends on (\<open>ledger/dependency-ceiling.ts\<close>, over the graph that
  \<open>ledger/claim-dependency-closure.ts\<close> reads from the ledger). Fellows invite each other to review
  (\<open>review-requests/\<close>); their identity and authority come from an enrollment that a sponsor
  approves (\<open>enrollment/service.ts\<close>). Watchers of a problem receive one
  frame per head change through a room (\<open>herald/room-core.ts\<close>). What is logged passes the
  redaction of \<open>http/redact.ts\<close> and \<open>diagnostic-safety.ts\<close>.

  \<^bold>\<open>Theories and code.\<close>
  \<^item> \<open>Prelude\<close>, \<open>Values\<close>, \<open>Text\<close>, \<open>Utf16\<close>, \<open>Timestamps\<close>, \<open>Regex\<close>, \<open>Machine\<close>, \<open>Walks\<close>: the language's numbers, strings,
    insertion-ordered maps, untrusted values, decimal and UTF-8 text, the encoder over 16-bit code units, canonical UTC
    timestamps, the regular expressions of the never-log scanner (matched by derivatives),
    the interface of a machine that runs a list of steps, and walks in a graph.
  \<^item> \<open>Dispositions\<close>, \<open>DispositionLaws\<close>, \<open>Facets\<close> (\<open>ledger/dispositions.ts\<close>): the transition
    functions of claims and hypotheses and the review facets; a standing is reached only with
    the reviews it requires, terminal standings stay, the counts ignore duplicate rows.
  \<^item> \<open>DispositionRead\<close>, \<open>DispositionTimeline\<close> (\<open>ledger/disposition-read.ts\<close>): the fold over a claim's
    versioned timeline; its result does not depend on the order of rows, ignores other
    versions, and never revives a withdrawn identity.
  \<^item> \<open>DependencyCeiling\<close>, \<open>CeilingLaws\<close>, \<open>CeilingProperties\<close> (\<open>ledger/dependency-ceiling.ts\<close>): the
    breadth-first computation over a graph of premises, proved equal to a specification by
    walks: the ceiling is the minimum over reachable premises, and it is complete exactly
    without missing premises and cycles.
  \<^item> \<open>EvidencePolicy\<close> (\<open>evidence-class.ts\<close>, \<open>review-gate.ts\<close>, \<open>review-independence.ts\<close>).
  \<^item> \<open>HeraldModel\<close>, \<open>HeraldRoom\<close>, \<open>HeraldLaws\<close> (\<open>herald-room-model.ts\<close>, \<open>herald/room-core.ts\<close>): every
    operation of the room on its sockets; invariants over all runs.
  \<^item> \<open>Canonical\<close>, \<open>NonceStore\<close>, \<open>Keyring\<close>, \<open>Envelope\<close>, \<open>EnvelopeLaws\<close> (\<open>auth/\<close>): the framing of the
    signed bytes, the replay window in both its implementations, the keys with their
    windows, and the verification. The contract of a nonce store is a locale, interpreted on both
    stores; from it an envelope is accepted at most once.
  \<^item> \<open>Posture\<close>, \<open>PostureLaws\<close> (\<open>moderation/posture.ts\<close>, \<open>inbox/notice-write.ts\<close>): the tables with their
    constraints, under clocks in any order; when the posture engages, is announced and is cleared.
  \<^item> \<open>Redact\<close>, \<open>NeverLog\<close>: what a printed path or text can still show.
  \<^item> \<open>Screening\<close>, \<open>ScreeningLabels\<close>, \<open>ScreeningLaws\<close>, \<open>ScreeningVerdict\<close> (\<open>screening/aggregate.ts\<close>): the checks
    on a run of observations and the verdict, which depends on neither their order nor on
    unanswered ones.
  \<^item> \<open>CanonicalJson\<close>, \<open>JsonParse\<close> (\<open>canonical-json.ts\<close>, \<open>JSON.parse\<close>): the canonical text, which determines
    the value, and the reader, which gives it back.
  \<^item> \<open>Ledger\<close>, \<open>LedgerBackfill\<close>, \<open>LedgerWrite\<close>, \<open>LedgerReplay\<close> (\<open>krater/krater.ts\<close> and the migrations of its
    tables): the tables with their constraints and triggers, the digests, the statements of one
    transaction, the validated reads, the replay of older histories, the validation of a
    command, \<open>writeLedgerEvent\<close> with its retries, redaction, the paged reads and the verification of
    a stream.
  \<^item> \<open>LedgerSpec\<close>, \<open>LedgerRefine\<close>: the log of a problem as the specification, what well-formed tables are,
    and the proof that a transaction appends one event to the log or leaves the log alone.
  \<^item> \<open>LedgerRuns\<close>, \<open>LedgerVerify\<close>, \<open>LedgerKeys\<close>, \<open>LedgerHistory\<close>, \<open>LedgerLive\<close>: every history of writers, with
    two locales of systems of steps interpreted on it; reading a history back; settled keys;
    append-only histories and true receipts; writes without interference, which succeed unless a statement of the
    caller or a trigger outside the ledger aborts them. \<open>LedgerProperties\<close> states the
    properties, on the samples of \<open>LedgerSamples\<close>.
  \<^item> \<open>Closure\<close>, \<open>ClosureLaws\<close>, \<open>ClosureSamples\<close>, \<open>ClosureProperties\<close> (\<open>ledger/claim-dependency-closure.ts\<close>): the
    verified read of a claim's premises and the bounded walk that composes their graph; every node
    is backed by a digest of the ledger, and a complete closure is closed under premises.
  \<^item> \<open>ReviewRequests\<close>, \<open>ReviewStore\<close>, \<open>ReviewLaws\<close>, \<open>ReviewProperties\<close> (\<open>review-requests/model.ts\<close>, \<open>store.ts\<close>,
    migration 0065): the transition of an invitation, the guarded batch that commits one with its
    notice and replay, and the trigger of the table; the trigger agrees with the transition, the
    limits hold in every run (the one of pending invitations as long as acceptances commit in the
    order of their instants, which the code does not ensure), and a committed receipt is recovered.
  \<^item> \<open>FellowPolicy\<close>, \<open>EnrollmentGrants\<close>, \<open>GrantLaws\<close> (\<open>enrollment/service.ts\<close>): the account states, the one
    decision of an effectful write, the ceiling and the reduction of grants, and pacing; what an
    allowed write implies, and that a narrower grant allows no more while its binding is kept.
  \<^item> \<open>EnrollmentStore\<close>, \<open>EnrollmentFlow\<close>, \<open>EnrollmentLifecycle\<close>, \<open>EnrollmentRebind\<close> (the class
    \<open>InMemoryEnrollmentStore\<close> of the same file): its maps as a record, one function for each operation.
    \<open>EnrollmentLaws\<close> holds the invariant, the order in which a store grows and the primitive changes
    that keep both; \<open>EnrollmentPairingLaws\<close>, \<open>EnrollmentFlowLaws\<close>, \<open>EnrollmentCommandLaws\<close> go through
    the operations; \<open>EnrollmentRuns\<close> is the step relation, on which the locale of growing systems is
    interpreted; \<open>EnrollmentProperties\<close> states what holds of every run.
  \<^item> \<open>EnrollmentReads\<close>, \<open>EnrollmentReadLaws\<close>: the policy of names, the paged lists of Fellows and of
    cap changes, the list of rebinds and the export; the contract of a paged list is a locale,
    interpreted on both, from which reading page after page gives the whole list.

  \<^bold>\<open>Correspondence.\<close> A class or table row is a record, an enumeration or tagged union a datatype,
  a thrown error a value of the left summand or \<open>None\<close>. An SQL statement is a function on
  the tables, with its \<open>WHERE\<close> clause, constraints and triggers; a batch is their
  composition, which aborts as a whole. Asynchronous steps of others appear where the code
  awaits: as a step of a machine (rooms, nonce stores) or as functions applied between the
  steps of an attempt (the ledger). SHA-256, Ed25519, key import and zod schemas are
  parameters; what is assumed of one is a hypothesis of the theorem that needs it.

  \<^bold>\<open>Bounds and fuel.\<close> Loops are structural or have a termination proof. The JSON reader takes the
  length of its text plus one as fuel, and \<open>enough_fuel\<close> shows that more changes nothing; the
  matcher consumes one character a step; decoding of escapes is bounded by the twelve passes
  of the code, proved enough for the segments it prints; the ledger's retry loop takes the
  code's budget of seventeen attempts.

  \<^bold>\<open>Not modelled.\<close> Strings hold code units below 256, except in the
  signed bytes, whose strings hold 16-bit units, and numbers are exact rationals; no model
  computes past the code's own safe-integer guards. SQL planning, clocks, randomness, logging,
  measured costs and HTTP are left out, as are the routers, the D1 form of the enrollment store,
  the web application, rendering and deployment: their logic is SQL and text around the modelled
  rules. The other writers of \<open>krater.ts\<close> repeat the modelled transaction with statements for their
  projections. Of the enrollment store the suggestions of free names and the texts of receipts and
  manifests are left out. Idle sessions, dormancy and search are SQL over tables that
  no modelled rule reads.
\<close>

end
